(* ===== verification/Prelude.thy ===== *)
theory Prelude
  imports Main "HOL-Library.Sublist"
begin

text \<open>
  Shared material of the development: the collections of hints the component
  theories add to, the interface of a machine with an invariant, the interface
  of an encoder with its decoder, and lemmas on lists, maps and searches that
  more than one component uses.
\<close>

section \<open>Collections\<close>

named_theorems machine_simps \<open>defining equations of the operations of stateful components\<close>
named_theorems inv_defs \<open>definitions of the invariants of stateful components\<close>

section \<open>A machine that keeps an invariant\<close>

text \<open>
  Most stateful classes of the program are a private state and a handful of
  methods.  A method call is an event; the client sees any sequence of calls.
  What one call keeps, every sequence of calls keeps.
\<close>

locale machine =
  fixes step :: "'s \<Rightarrow> 'e \<Rightarrow> 's" and inv :: "'s \<Rightarrow> bool"
  assumes step_inv: "inv s \<Longrightarrow> inv (step s e)"
begin

lemma run_inv: "inv s \<Longrightarrow> inv (foldl step s es)"
  by (induction es arbitrary: s) (auto intro: step_inv)

text \<open>A quantity no call decreases is not decreased by a run.\<close>

lemma run_mono:
  fixes f :: "'s \<Rightarrow> nat"
  assumes mono: "\<And>s e. inv s \<Longrightarrow> f s \<le> f (step s e)" and s: "inv s"
  shows "f s \<le> f (foldl step s es)"
  using s
proof (induction es arbitrary: s)
  case (Cons e es)
  then have "f (step s e) \<le> f (foldl step (step s e) es)"
    by (blast intro: step_inv)
  with mono [OF Cons.prems, of e] show ?case by simp
qed simp

end

section \<open>An encoder and its decoder\<close>

locale codec =
  fixes enc :: "'a \<Rightarrow> 'b" and dec :: "'b \<Rightarrow> 'a" and ok :: "'a \<Rightarrow> bool"
  assumes dec_enc: "ok x \<Longrightarrow> dec (enc x) = x"
begin

lemma enc_inj: "ok x \<Longrightarrow> ok y \<Longrightarrow> enc x = enc y \<Longrightarrow> x = y"
  by (metis dec_enc)

lemma enc_inj_on: "inj_on enc {x. ok x}"
  by (auto intro: inj_onI enc_inj)

end

text \<open>When every decoded value is encodable, re-encoding is a normal form.\<close>

locale normalising_codec = codec +
  assumes ok_dec: "ok (dec y)"
begin

lemma dec_normal: "dec (enc (dec y)) = dec y"
  by (rule dec_enc [OF ok_dec])

lemma normal_idem: "enc (dec (enc (dec y))) = enc (dec y)"
  by (simp add: dec_normal)

end

section \<open>Searching by leaps\<close>

text \<open>
  A loop that looks for the next state with a property: it stops in such a state and else leaps
  ahead.  Leaping is sound when a leap is some number of single ticks none of which it misses.
\<close>

fun search_loop :: "('s \<Rightarrow> 's option) \<Rightarrow> nat \<Rightarrow> 's \<Rightarrow> 's option" where
  "search_loop leap 0 s = None"
| "search_loop leap (Suc fuel) s = (case leap s of None \<Rightarrow> Some s | Some s' \<Rightarrow> search_loop leap fuel s')"

lemma search_loop_more: "search_loop leap n s = Some s' \<Longrightarrow> search_loop leap (n + m) s = Some s'"
  by (induction n arbitrary: s) (auto split: option.splits)

locale leaping_search =
  fixes tick :: "'s \<Rightarrow> 's" and goal :: "'s \<Rightarrow> bool" and leap :: "'s \<Rightarrow> 's option" and ok :: "'s \<Rightarrow> bool"
  assumes ok_tick: "ok s \<Longrightarrow> ok (tick s)"
    and leap_None: "ok s \<Longrightarrow> leap s = None \<longleftrightarrow> goal s"
    and leap_Some: "ok s \<Longrightarrow> leap s = Some s' \<Longrightarrow>
      \<exists>k. s' = (tick ^^ Suc k) s \<and> (\<forall>j\<le>k. \<not> goal ((tick ^^ j) s))"
begin

lemma ok_ticks: "ok s \<Longrightarrow> ok ((tick ^^ n) s)"
  by (induction n) (auto intro: ok_tick)

lemma search_Some:
  "ok s \<Longrightarrow> search_loop leap fuel s = Some s' \<Longrightarrow>
     \<exists>n. s' = (tick ^^ n) s \<and> goal s' \<and> (\<forall>j<n. \<not> goal ((tick ^^ j) s))"
proof (induction fuel arbitrary: s)
  case (Suc fuel)
  show ?case
  proof (cases "leap s")
    case None
    then have "s' = s" "goal s" using Suc.prems(2) leap_None [OF Suc.prems(1)] by simp_all
    then show ?thesis by (intro exI [of _ 0]) simp
  next
    case (Some t)
    obtain k where k: "t = (tick ^^ Suc k) s" "\<And>j. j \<le> k \<Longrightarrow> \<not> goal ((tick ^^ j) s)"
      using leap_Some [OF Suc.prems(1) Some] by blast
    have "ok t" using k(1) ok_ticks [OF Suc.prems(1), of "Suc k"] by simp
    then obtain n where n: "s' = (tick ^^ n) t" "goal s'" "\<And>j. j < n \<Longrightarrow> \<not> goal ((tick ^^ j) t)"
      using Suc.IH [of t] Suc.prems(2) Some by auto
    have shift: "(tick ^^ j) t = (tick ^^ (j + Suc k)) s" for j by (simp only: k(1) funpow_add comp_apply)
    have "\<not> goal ((tick ^^ j) s)" if "j < n + Suc k" for j
    proof (cases "j \<le> k")
      case False
      then have "j = (j - Suc k) + Suc k" "j - Suc k < n" using that by auto
      then show ?thesis using n(3) shift by metis
    qed (use k(2) in blast)
    then show ?thesis using n(1,2) shift by blast
  qed
qed simp

lemma search_None:
  "ok s \<Longrightarrow> search_loop leap fuel s = None \<Longrightarrow> j < fuel \<Longrightarrow> \<not> goal ((tick ^^ j) s)"
proof (induction fuel arbitrary: s j)
  case (Suc fuel)
  obtain t where t: "leap s = Some t" using Suc.prems(2) by (cases "leap s") auto
  obtain k where k: "t = (tick ^^ Suc k) s" "\<And>j. j \<le> k \<Longrightarrow> \<not> goal ((tick ^^ j) s)"
    using leap_Some [OF Suc.prems(1) t] by blast
  show ?case
  proof (cases "j \<le> k")
    case False
    have "ok t" using k(1) ok_ticks [OF Suc.prems(1), of "Suc k"] by simp
    then have "\<not> goal ((tick ^^ (j - Suc k)) t)" using Suc.IH [of t "j - Suc k"] Suc.prems(2,3) t False by simp
    moreover have "(tick ^^ (j - Suc k)) t = (tick ^^ (j - Suc k + Suc k)) s"
      by (simp only: k(1) funpow_add comp_apply)
    moreover have "j - Suc k + Suc k = j" using False by simp
    ultimately show ?thesis by simp
  qed (use k(2) in blast)
qed simp

end

section \<open>Lists\<close>

lemma find_upt_Some_iff:
  "find P [0..<n] = Some i \<longleftrightarrow> i < n \<and> P i \<and> (\<forall>j < i. \<not> P j)"
  by (force simp: find_Some_iff)

lemma find_rev_upt_Some:
  assumes "i < n" "P i" "\<And>j. i < j \<Longrightarrow> j < n \<Longrightarrow> \<not> P j"
  shows "find P (rev [0..<n]) = Some i"
  using assms
proof (induction n)
  case (Suc n)
  then show ?case by (cases "i = n") auto
qed simp

lemma find_rev_upt_SomeD:
  "find P (rev [0..<n]) = Some i \<Longrightarrow> i < n \<and> P i"
  by (auto simp: find_Some_iff rev_nth)

lemma find_cong_on:
  "(\<And>x. x \<in> set xs \<Longrightarrow> P x = Q x) \<Longrightarrow> find P xs = find Q xs"
  by (induction xs) auto

lemma find_SomeD: "find P xs = Some x \<Longrightarrow> x \<in> set xs \<and> P x"
  by (auto simp: find_Some_iff)

lemma find_split:
  "find P xs = Some x \<Longrightarrow> \<exists>us vs. xs = us @ x # vs \<and> P x \<and> (\<forall>u\<in>set us. \<not> P u)"
proof (induction xs)
  case (Cons y ys)
  show ?case
  proof (cases "P y")
    case False
    then obtain us vs where "ys = us @ x # vs" "P x" "\<forall>u\<in>set us. \<not> P u" using Cons by auto
    then show ?thesis using False by (intro exI [of _ "y # us"] exI [of _ vs]) simp
  qed (use Cons.prems in force)
qed simp

lemma find_exists: "x \<in> set xs \<Longrightarrow> P x \<Longrightarrow> \<exists>y. find P xs = Some y"
  by (induction xs) auto

lemma find_append: "find P (xs @ ys) = (case find P xs of None \<Rightarrow> find P ys | Some x \<Rightarrow> Some x)"
  by (induction xs) auto

section \<open>Exceptions\<close>

text \<open>
  A computation that may throw returns a sum, \<open>Inl\<close> the thrown error.  The loops over an array that
  stop at the first hit stop at the first throw as well.
\<close>

definition and_then :: "'e + 'a \<Rightarrow> ('a \<Rightarrow> 'e + 'b) \<Rightarrow> 'e + 'b" where
  "and_then r f = (case r of Inl e \<Rightarrow> Inl e | Inr x \<Rightarrow> f x)"

fun find_throw :: "('a \<Rightarrow> 'e + 'b option) \<Rightarrow> 'a list \<Rightarrow> 'e + 'b option" where
  "find_throw f [] = Inr None"
| "find_throw f (x # xs) =
     and_then (f x) (\<lambda>r. case r of None \<Rightarrow> find_throw f xs | Some y \<Rightarrow> Inr (Some y))"

fun exists_throw :: "('a \<Rightarrow> 'e + bool) \<Rightarrow> 'a list \<Rightarrow> 'e + bool" where
  "exists_throw f [] = Inr False"
| "exists_throw f (x # xs) = and_then (f x) (\<lambda>b. if b then Inr True else exists_throw f xs)"

definition all_throw :: "('a \<Rightarrow> 'e + bool) \<Rightarrow> 'a list \<Rightarrow> 'e + bool" where
  "all_throw f xs = and_then (exists_throw (\<lambda>x. and_then (f x) (\<lambda>b. Inr (\<not> b))) xs) (\<lambda>b. Inr (\<not> b))"

lemma and_then_simps [simp]: "and_then (Inr x) f = f x" "and_then (Inl e) f = Inl e"
  by (simp_all add: and_then_def)

lemma and_then_Inr: "and_then r f = Inr y \<longleftrightarrow> (\<exists>x. r = Inr x \<and> f x = Inr y)"
  by (cases r) simp_all

lemma find_throw_None: "find_throw f xs = Inr None \<longleftrightarrow> (\<forall>x\<in>set xs. f x = Inr None)"
  by (induction xs) (auto simp: and_then_Inr split: option.splits)

lemma find_throw_Some: "find_throw f xs = Inr (Some y) \<Longrightarrow> \<exists>x\<in>set xs. f x = Inr (Some y)"
  by (induction xs) (auto simp: and_then_Inr split: option.splits)

lemma exists_throw_False: "exists_throw f xs = Inr False \<longleftrightarrow> (\<forall>x\<in>set xs. f x = Inr False)"
  by (induction xs) (auto simp: and_then_Inr split: if_splits)

lemma exists_throw_True: "exists_throw f xs = Inr True \<Longrightarrow> \<exists>x\<in>set xs. f x = Inr True"
  by (induction xs) (auto simp: and_then_Inr split: if_splits)

lemma all_throw_True: "all_throw f xs = Inr True \<longleftrightarrow> (\<forall>x\<in>set xs. f x = Inr True)"
proof -
  have "all_throw f xs = Inr True \<longleftrightarrow> exists_throw (\<lambda>x. and_then (f x) (\<lambda>b. Inr (\<not> b))) xs = Inr False"
    by (auto simp: all_throw_def and_then_Inr)
  also have "\<dots> \<longleftrightarrow> (\<forall>x\<in>set xs. \<exists>b. f x = Inr b \<and> b)"
    by (simp add: exists_throw_False and_then_Inr)
  finally show ?thesis by auto
qed

lemma all_throw_False: "all_throw f xs = Inr False \<Longrightarrow> \<exists>x\<in>set xs. f x = Inr False"
proof -
  assume "all_throw f xs = Inr False"
  then have "exists_throw (\<lambda>x. and_then (f x) (\<lambda>b. Inr (\<not> b))) xs = Inr True"
    by (auto simp: all_throw_def and_then_Inr)
  then have "\<exists>x\<in>set xs. \<exists>b. f x = Inr b \<and> \<not> b"
    using exists_throw_True by (fastforce simp: and_then_Inr)
  then show ?thesis by auto
qed

text \<open>Without a throw the loops are the list functions.\<close>

lemma exists_throw_pure: "exists_throw (\<lambda>x. Inr (P x)) xs = Inr (\<exists>x\<in>set xs. P x)"
  by (induction xs) auto

lemma all_throw_pure: "all_throw (\<lambda>x. Inr (P x)) xs = Inr (\<forall>x\<in>set xs. P x)"
  by (simp add: all_throw_def exists_throw_pure)

section \<open>Insertion-ordered sets\<close>

text \<open>The language's \<open>Set\<close>, as the list of its elements in the order of insertion.\<close>

definition set_add :: "'a \<Rightarrow> 'a list \<Rightarrow> 'a list" where
  "set_add x xs = (if x \<in> set xs then xs else xs @ [x])"

lemma set_set_add [simp]: "set (set_add x xs) = insert x (set xs)"
  by (auto simp: set_add_def)

lemma distinct_set_add: "distinct xs \<Longrightarrow> distinct (set_add x xs)"
  by (simp add: set_add_def)

text \<open>The elements of a list without repetition, as the keys of an object or a \<open>Set\<close> that is built from it.\<close>

fun first_occurrences :: "'a list \<Rightarrow> 'a list" where
  "first_occurrences [] = []"
| "first_occurrences (x # xs) = x # filter (\<lambda>y. y \<noteq> x) (first_occurrences xs)"

lemma set_first_occurrences [simp]: "set (first_occurrences xs) = set xs"
  by (induction xs) auto

lemma distinct_first_occurrences [simp]: "distinct (first_occurrences xs)"
  by (induction xs) auto

end
