(* ===== verification/Js_Strings.thy ===== *)
theory Js_Strings
  imports Prelude
begin

text \<open>
  The operations of the language's String objects that the modelled sources
  use: replacement of a literal, splitting at a literal, joining, trimming and
  the prefix and suffix tests.  A string is its list of code units; the type
  \<open>char\<close> holds the code units 0 to 255.
\<close>

section \<open>Characters that need a name\<close>

abbreviation BS :: char where "BS \<equiv> CHR 0x5C"
abbreviation LP :: char where "LP \<equiv> CHR 0x28"
abbreviation RP :: char where "RP \<equiv> CHR 0x29"
abbreviation NL :: char where "NL \<equiv> CHR 0x0A"

definition is_js_space :: "char \<Rightarrow> bool" where
  "is_js_space c \<longleftrightarrow> c \<in> set [CHR 0x09, CHR 0x0A, CHR 0x0B, CHR 0x0C, CHR 0x0D, CHR 0x20, CHR 0xA0]"

definition is_digit_char :: "char \<Rightarrow> bool" where
  "is_digit_char c \<longleftrightarrow> c \<in> set ''0123456789''"

definition alphanumeric :: "char \<Rightarrow> bool" where
  "alphanumeric c \<longleftrightarrow>
     c \<in> set ''abcdefghijklmnopqrstuvwxyzABCDEFGHIJKLMNOPQRSTUVWXYZ0123456789''"

section \<open>Replacement\<close>

text \<open>Replacing every occurrence of one character by a text, \<open>s.replace(/c/g, r)\<close>.\<close>

definition replace_char :: "char \<Rightarrow> string \<Rightarrow> string \<Rightarrow> string" where
  "replace_char c r s = concat (map (\<lambda>x. if x = c then r else [x]) s)"

text \<open>
  Replacing every non-overlapping occurrence of a two-character text, from the
  left, \<open>s.replace(/ab/g, r)\<close>.
\<close>

fun replace_pair :: "char \<Rightarrow> char \<Rightarrow> string \<Rightarrow> string \<Rightarrow> string" where
  "replace_pair a b r [] = []"
| "replace_pair a b r [x] = [x]"
| "replace_pair a b r (x # y # s) =
     (if x = a \<and> y = b then r @ replace_pair a b r s else x # replace_pair a b r (y # s))"

section \<open>Prefix, suffix, trim\<close>

definition starts_with :: "string \<Rightarrow> string \<Rightarrow> bool" where
  "starts_with p s \<longleftrightarrow> take (length p) s = p"

definition ends_with :: "string \<Rightarrow> string \<Rightarrow> bool" where
  "ends_with p s \<longleftrightarrow> length p \<le> length s \<and> drop (length s - length p) s = p"

definition js_trim :: "string \<Rightarrow> string" where
  "js_trim s = rev (dropWhile is_js_space (rev (dropWhile is_js_space s)))"

text \<open>\<open>s.toLowerCase()\<close> on the code units 0 to 255.\<close>

definition lower_char :: "char \<Rightarrow> char" where
  "lower_char c =
     (let n = (of_char c :: nat)
      in if 65 \<le> n \<and> n \<le> 90 \<or> 192 \<le> n \<and> n \<le> 222 \<and> n \<noteq> 215 then char_of (n + 32) else c)"

definition toLowerCase :: "string \<Rightarrow> string" where
  "toLowerCase = map lower_char"

text \<open>\<open>s || fallback\<close>\<close>

definition or_text :: "string option \<Rightarrow> string \<Rightarrow> string" where
  "or_text s fallback = (case s of Some t \<Rightarrow> if t \<noteq> [] then t else fallback | None \<Rightarrow> fallback)"

section \<open>Split and join\<close>

definition index_of :: "string \<Rightarrow> string \<Rightarrow> nat option" where
  "index_of sep s = find (\<lambda>i. take (length sep) (drop i s) = sep) [0..<length s]"

lemma index_of_less: "index_of sep s = Some i \<Longrightarrow> i < length s"
  by (simp add: index_of_def find_upt_Some_iff)

text \<open>\<open>s.split(sep)\<close> for a non-empty separator.\<close>

function js_split :: "string \<Rightarrow> string \<Rightarrow> string list" where
  "js_split sep s =
     (case index_of sep s of
        None \<Rightarrow> [s]
      | Some i \<Rightarrow> (if sep = [] then [s] else take i s # js_split sep (drop (i + length sep) s)))"
  by pat_completeness auto
termination
proof (relation "measure (length \<circ> snd)")
  fix sep s :: string and i
  assume "index_of sep s = Some i" "sep \<noteq> []"
  then show "((sep, drop (i + length sep) s), sep, s) \<in> measure (length \<circ> snd)"
    by (cases sep) (auto dest: index_of_less)
qed simp

declare js_split.simps [simp del]

text \<open>\<open>parts.join(sep)\<close>.\<close>

fun js_join :: "string \<Rightarrow> string list \<Rightarrow> string" where
  "js_join sep [] = []"
| "js_join sep [x] = x"
| "js_join sep (x # y # xs) = x @ sep @ js_join sep (y # xs)"

section \<open>Lemmas\<close>

lemma replace_char_Nil [simp]: "replace_char c r [] = []"
  by (simp add: replace_char_def)

lemma replace_char_Cons [simp]:
  "replace_char c r (x # s) = (if x = c then r else [x]) @ replace_char c r s"
  by (simp add: replace_char_def)

lemma replace_char_append [simp]:
  "replace_char c r (s @ t) = replace_char c r s @ replace_char c r t"
  by (simp add: replace_char_def)

lemma replace_char_absent: "c \<notin> set s \<Longrightarrow> replace_char c r s = s"
  by (induction s) auto

lemma replace_pair_skip:
  "x \<noteq> a \<Longrightarrow> replace_pair a b r (x # s) = x # replace_pair a b r s"
  by (cases s) auto

lemma replace_pair_nomatch:
  "(case s of [] \<Rightarrow> True | y # _ \<Rightarrow> y \<noteq> b) \<Longrightarrow>
     replace_pair a b r (x # s) = x # replace_pair a b r s"
  by (cases s) auto

lemma replace_pair_Nil_iff: "r \<noteq> [] \<Longrightarrow> replace_pair a b r s = [] \<longleftrightarrow> s = []"
  by (cases "(a, b, r, s)" rule: replace_pair.cases) auto

lemma replace_pair_single:
  "replace_pair a b [r] s = [x] \<Longrightarrow> x \<noteq> r \<Longrightarrow> s = [x]"
  by (cases "(a, b, [r], s)" rule: replace_pair.cases)
    (auto split: if_splits simp: replace_pair_Nil_iff)

lemma js_split_absent: "index_of sep s = None \<Longrightarrow> js_split sep s = [s]"
  by (simp add: js_split.simps)

lemma js_split_nonempty: "js_split sep s \<noteq> []"
  by (subst js_split.simps) (auto split: option.splits)

section \<open>Numbers in texts\<close>

text \<open>The decimal text of a number, as a template literal prints it.\<close>

fun decimal :: "nat \<Rightarrow> string" where
  "decimal n = (if n < 10 then [char_of (48 + n)] else decimal (n div 10) @ [char_of (48 + n mod 10)])"

declare decimal.simps [simp del]

lemma of_char_digit: "k < 10 \<Longrightarrow> (of_char (char_of (48 + k) :: char) :: nat) = 48 + k"
  by (simp add: of_char_of)

fun undecimal :: "string \<Rightarrow> nat" where
  "undecimal [] = 0"
| "undecimal (c # s) = undecimal s + 10 ^ length s * (of_char c - 48)"

lemma undecimal_snoc: "undecimal (s @ [c]) = 10 * undecimal s + (of_char c - 48)"
  by (induction s) (auto simp: algebra_simps)

lemma undecimal_decimal: "undecimal (decimal n) = n"
proof (induction n rule: decimal.induct)
  case (1 n)
  show ?case
  proof (cases "n < 10")
    case True
    then show ?thesis by (simp add: decimal.simps of_char_digit)
  next
    case False
    then show ?thesis using 1 by (subst decimal.simps) (simp add: undecimal_snoc of_char_digit)
  qed
qed

interpretation decimal: codec decimal undecimal "\<lambda>_. True"
  by unfold_locales (rule undecimal_decimal)

text \<open>The decimal integer at the start of a text, as \<open>parseInt\<close> with radix 10 reads it.\<close>

definition parseInt10 :: "string \<Rightarrow> int option" where
  "parseInt10 s =
     (let t = dropWhile is_js_space s;
          (neg, u) = (case t of c # r \<Rightarrow> if c = CHR ''-'' then (True, r) else if c = CHR ''+'' then (False, r) else (False, t)
                      | [] \<Rightarrow> (False, []));
          ds = takeWhile is_digit_char u
      in if ds = [] then None else Some (if neg then - int (undecimal ds) else int (undecimal ds)))"

end
