(* ===== verification/Permission_Rules.thy ===== *)
theory Permission_Rules
  imports Js_Strings
begin

text \<open>
  Permission rule strings: the parser and the printer of
  \<open>src/utils/permissions/permissionRuleParser.ts\<close>, with the name parsing of
  \<open>src/services/mcp/mcpStringUtils.ts\<close> and the name normalisation of
  \<open>src/services/mcp/normalization.ts\<close> that rule matching uses.
  The flags of the build (\<open>feature(...)\<close> of \<open>bun:bundle\<close>) are a record that every
  definition depending on one takes as its first argument.
\<close>

section \<open>Build flags and tool names\<close>

record features =
  kairos :: bool
  transcript_classifier :: bool
  bash_classifier :: bool
  powershell_auto_mode :: bool

definition AGENT_TOOL_NAME :: string where "AGENT_TOOL_NAME = ''Agent''"
definition TASK_STOP_TOOL_NAME :: string where "TASK_STOP_TOOL_NAME = ''TaskStop''"
definition TASK_OUTPUT_TOOL_NAME :: string where "TASK_OUTPUT_TOOL_NAME = ''TaskOutput''"
definition BRIEF_TOOL_NAME :: string where "BRIEF_TOOL_NAME = ''SendUserMessage''"
definition BASH_TOOL_NAME :: string where "BASH_TOOL_NAME = ''Bash''"
definition POWERSHELL_TOOL_NAME :: string where "POWERSHELL_TOOL_NAME = ''PowerShell''"
definition REPL_TOOL_NAME :: string where "REPL_TOOL_NAME = ''REPL''"

lemmas tool_name_defs =
  AGENT_TOOL_NAME_def TASK_STOP_TOOL_NAME_def TASK_OUTPUT_TOOL_NAME_def BRIEF_TOOL_NAME_def
  BASH_TOOL_NAME_def POWERSHELL_TOOL_NAME_def REPL_TOOL_NAME_def

text \<open>
  The alias table.  The source reads it by property access; the names an object
  inherits (\<open>constructor\<close>, \<open>toString\<close>, ...) are not tool names and are outside the model.
\<close>

definition ARCHIVED_TOOL_NAME_ALIASES :: "features \<Rightarrow> (string \<times> string) list" where
  "ARCHIVED_TOOL_NAME_ALIASES fl =
     [(''Task'', AGENT_TOOL_NAME), (''KillShell'', TASK_STOP_TOOL_NAME),
      (''AgentOutputTool'', TASK_OUTPUT_TOOL_NAME), (''BashOutputTool'', TASK_OUTPUT_TOOL_NAME)] @
     (if kairos fl then [(''Brief'', BRIEF_TOOL_NAME)] else [])"

definition normalizeArchivedToolName :: "features \<Rightarrow> string \<Rightarrow> string" where
  "normalizeArchivedToolName fl name =
     (case map_of (ARCHIVED_TOOL_NAME_ALIASES fl) name of None \<Rightarrow> name | Some c \<Rightarrow> c)"

definition getArchivedToolNames :: "features \<Rightarrow> string \<Rightarrow> string list" where
  "getArchivedToolNames fl canonicalName =
     map fst (filter (\<lambda>(_, canonical). canonical = canonicalName) (ARCHIVED_TOOL_NAME_ALIASES fl))"

section \<open>Rule values\<close>

record rule_value =
  toolName :: string
  ruleContent :: "string option"

definition tool_rule :: "string \<Rightarrow> rule_value" where
  "tool_rule n = \<lparr>toolName = n, ruleContent = None\<rparr>"

definition escapeRuleContent :: "string \<Rightarrow> string" where
  "escapeRuleContent content =
     replace_char RP [BS, RP] (replace_char LP [BS, LP] (replace_char BS [BS, BS] content))"

definition unescapeRuleContent :: "string \<Rightarrow> string" where
  "unescapeRuleContent content =
     replace_pair BS BS [BS] (replace_pair BS RP [RP] (replace_pair BS LP [LP] content))"

text \<open>The number of backslashes directly before index \<open>i\<close>: the inner \<open>while\<close> loop.\<close>

fun backslashCount :: "string \<Rightarrow> nat \<Rightarrow> nat" where
  "backslashCount s 0 = 0"
| "backslashCount s (Suc j) = (if s ! j = BS then Suc (backslashCount s j) else 0)"

definition unescaped_at :: "string \<Rightarrow> char \<Rightarrow> nat \<Rightarrow> bool" where
  "unescaped_at s c i \<longleftrightarrow> s ! i = c \<and> even (backslashCount s i)"

text \<open>\<open>None\<close> is the code's \<open>-1\<close>.\<close>

definition findFirstUnescapedChar :: "string \<Rightarrow> char \<Rightarrow> nat option" where
  "findFirstUnescapedChar s c = find (unescaped_at s c) [0..<length s]"

definition findLastUnescapedChar :: "string \<Rightarrow> char \<Rightarrow> nat option" where
  "findLastUnescapedChar s c = find (unescaped_at s c) (rev [0..<length s])"

definition substring :: "string \<Rightarrow> nat \<Rightarrow> nat \<Rightarrow> string" where
  "substring s i j = take (j - i) (drop i s)"

definition permissionRuleValueFromString :: "features \<Rightarrow> string \<Rightarrow> rule_value" where
  "permissionRuleValueFromString fl ruleString =
     (case findFirstUnescapedChar ruleString LP of
        None \<Rightarrow> tool_rule (normalizeArchivedToolName fl ruleString)
      | Some openParenIndex \<Rightarrow>
     (case findLastUnescapedChar ruleString RP of
        None \<Rightarrow> tool_rule (normalizeArchivedToolName fl ruleString)
      | Some closeParenIndex \<Rightarrow>
        if closeParenIndex \<le> openParenIndex
        then tool_rule (normalizeArchivedToolName fl ruleString)
        else if closeParenIndex \<noteq> length ruleString - 1
        then tool_rule (normalizeArchivedToolName fl ruleString)
        else
          (let tool = substring ruleString 0 openParenIndex;
               rawContent = substring ruleString (openParenIndex + 1) closeParenIndex
           in if tool = [] then tool_rule (normalizeArchivedToolName fl ruleString)
              else if rawContent = [] \<or> rawContent = ''*''
              then tool_rule (normalizeArchivedToolName fl tool)
              else \<lparr>toolName = normalizeArchivedToolName fl tool,
                    ruleContent = Some (unescapeRuleContent rawContent)\<rparr>)))"

definition permissionRuleValueToString :: "rule_value \<Rightarrow> string" where
  "permissionRuleValueToString v =
     (case ruleContent v of
        None \<Rightarrow> toolName v
      | Some content \<Rightarrow>
          if content = [] then toolName v
          else toolName v @ [LP] @ escapeRuleContent content @ [RP])"

section \<open>Escaping and its inverse\<close>

definition esc_char :: "char \<Rightarrow> string" where
  "esc_char x = (if x = BS \<or> x = LP \<or> x = RP then [BS, x] else [x])"

lemma escapeRuleContent_concat: "escapeRuleContent s = concat (map esc_char s)"
  by (induction s) (auto simp: escapeRuleContent_def esc_char_def)

lemma escape_Nil [simp]: "escapeRuleContent [] = []"
  and escape_Cons [simp]: "escapeRuleContent (x # s) = esc_char x @ escapeRuleContent s"
  and escape_append [simp]: "escapeRuleContent (s @ t) = escapeRuleContent s @ escapeRuleContent t"
  by (simp_all add: escapeRuleContent_concat)

lemma esc_char_nonempty [simp]: "esc_char x \<noteq> []"
  by (simp add: esc_char_def)

lemma escape_eq_Nil [simp]: "escapeRuleContent s = [] \<longleftrightarrow> s = []"
  by (cases s) auto

text \<open>The text between the unescaping passes: after the first, opening parentheses are plain.\<close>

definition esc_no_lp :: "char \<Rightarrow> string" where
  "esc_no_lp x = (if x = BS \<or> x = RP then [BS, x] else [x])"

definition esc_bs :: "char \<Rightarrow> string" where
  "esc_bs x = (if x = BS then [BS, BS] else [x])"

lemma pass1: "replace_pair BS LP [LP] (concat (map esc_char s)) = concat (map esc_no_lp s)"
proof (induction s)
  case (Cons x s)
  let ?R = "concat (map esc_char s)"
  have "case ?R of [] \<Rightarrow> True | y # _ \<Rightarrow> y \<noteq> LP"
    by (cases s) (auto simp: esc_char_def)
  then have "replace_pair BS LP [LP] (BS # ?R) = BS # replace_pair BS LP [LP] ?R"
    by (rule replace_pair_nomatch)
  with Cons show ?case
    by (simp add: esc_char_def [of x] esc_no_lp_def [of x] replace_pair_skip)
qed simp

lemma pass2: "replace_pair BS RP [RP] (concat (map esc_no_lp s)) = concat (map esc_bs s)"
proof (induction s)
  case (Cons x s)
  let ?R = "concat (map esc_no_lp s)"
  have "case ?R of [] \<Rightarrow> True | y # _ \<Rightarrow> y \<noteq> RP"
    by (cases s) (auto simp: esc_no_lp_def)
  then have "replace_pair BS RP [RP] (BS # ?R) = BS # replace_pair BS RP [RP] ?R"
    by (rule replace_pair_nomatch)
  with Cons show ?case
    by (simp add: esc_no_lp_def [of x] esc_bs_def [of x] replace_pair_skip)
qed simp

lemma pass3: "replace_pair BS BS [BS] (concat (map esc_bs s)) = s"
  by (induction s) (auto simp: esc_bs_def replace_pair_skip)

lemma unescape_escape: "unescapeRuleContent (escapeRuleContent s) = s"
  by (simp add: unescapeRuleContent_def escapeRuleContent_concat pass1 pass2 pass3)

interpretation content: codec escapeRuleContent unescapeRuleContent "\<lambda>_. True"
  by unfold_locales (rule unescape_escape)

lemma unescape_eq_Nil [simp]: "unescapeRuleContent s = [] \<longleftrightarrow> s = []"
  by (simp add: unescapeRuleContent_def replace_pair_Nil_iff)

lemma unescape_eq_star: "unescapeRuleContent s = ''*'' \<Longrightarrow> s = ''*''"
  by (auto simp: unescapeRuleContent_def dest!: replace_pair_single)

lemma escape_eq_star: "escapeRuleContent s = ''*'' \<longleftrightarrow> s = ''*''"
  by (metis unescape_eq_star unescape_escape content.enc_inj escape_Cons escape_Nil append_Nil2
      esc_char_def)

section \<open>Counting backslashes\<close>

lemma backslashCount_append: "i \<le> length s \<Longrightarrow> backslashCount (s @ t) i = backslashCount s i"
  by (induction i) (auto simp: nth_append)

lemma unescaped_at_append: "i < length s \<Longrightarrow> unescaped_at (s @ t) c i = unescaped_at s c i"
  by (simp add: unescaped_at_def backslashCount_append nth_append)

definition trailing_backslashes :: "string \<Rightarrow> nat" where
  "trailing_backslashes s = backslashCount s (length s)"

lemma trailing_snoc [simp]:
  "trailing_backslashes (s @ [x]) = (if x = BS then Suc (trailing_backslashes s) else 0)"
  by (simp add: trailing_backslashes_def backslashCount_append nth_append)

lemma trailing_snoc2 [simp]:
  "trailing_backslashes (s @ [x, y]) =
     (if y = BS then Suc (if x = BS then Suc (trailing_backslashes s) else 0) else 0)"
  using trailing_snoc [of "s @ [x]" y] by simp

lemma trailing_append_nonbs:
  "x \<noteq> BS \<Longrightarrow> trailing_backslashes (s @ x # t) = trailing_backslashes t"
proof (induction t rule: rev_induct)
  case (snoc y t)
  then show ?case using trailing_snoc [of "s @ x # t" y] by simp
qed (simp add: trailing_backslashes_def backslashCount_append nth_append)

lemma even_trailing_escape: "even (trailing_backslashes (escapeRuleContent s))"
proof (induction s rule: rev_induct)
  case (snoc x s)
  then show ?case by (auto simp: esc_char_def)
qed (simp add: trailing_backslashes_def)

text \<open>Where the printed form \<open>Tool(content)\<close> has its parentheses.\<close>

lemma first_paren:
  assumes none: "findFirstUnescapedChar T LP = None" and ev: "even (trailing_backslashes T)"
  shows "findFirstUnescapedChar (T @ LP # u) LP = Some (length T)"
proof -
  have "\<not> unescaped_at (T @ LP # u) LP j" if "j < length T" for j
    using none that by (auto simp: findFirstUnescapedChar_def find_None_iff unescaped_at_append)
  moreover have "unescaped_at (T @ LP # u) LP (length T)"
    using ev by (simp add: unescaped_at_def backslashCount_append trailing_backslashes_def)
  ultimately show ?thesis
    unfolding findFirstUnescapedChar_def find_upt_Some_iff by auto
qed

lemma last_paren:
  assumes "even (trailing_backslashes t)"
  shows "findLastUnescapedChar (t @ [RP]) RP = Some (length t)"
  unfolding findLastUnescapedChar_def
  by (rule find_rev_upt_Some)
    (use assms in \<open>auto simp: unescaped_at_def backslashCount_append trailing_backslashes_def\<close>)

section \<open>Parsing what was printed\<close>

lemma no_paren_first: "LP \<notin> set s \<Longrightarrow> findFirstUnescapedChar s LP = None"
  by (auto simp: findFirstUnescapedChar_def find_None_iff unescaped_at_def in_set_conv_nth)

lemma parse_no_paren:
  "findFirstUnescapedChar s LP = None \<Longrightarrow>
     permissionRuleValueFromString fl s = tool_rule (normalizeArchivedToolName fl s)"
  by (simp add: permissionRuleValueFromString_def)

lemma substring_all [simp]: "substring (T @ LP # u) 0 (length T) = T"
  by (simp add: substring_def)

lemma substring_inner [simp]:
  "substring (T @ LP # E @ [RP]) (Suc (length T)) (Suc (length T + length E)) = E"
  by (simp add: substring_def)

lemma parse_printed:
  assumes T: "findFirstUnescapedChar T LP = None" "even (trailing_backslashes T)" "T \<noteq> []"
    and E: "even (trailing_backslashes E)" "E \<noteq> []" "E \<noteq> ''*''"
  shows "permissionRuleValueFromString fl (T @ LP # E @ [RP]) =
    \<lparr>toolName = normalizeArchivedToolName fl T, ruleContent = Some (unescapeRuleContent E)\<rparr>"
proof -
  have "findLastUnescapedChar (T @ LP # E @ [RP]) RP = Some (Suc (length T + length E))"
    using last_paren [of "T @ LP # E"] E by (simp add: trailing_append_nonbs)
  with T E show ?thesis
    by (simp add: permissionRuleValueFromString_def first_paren Let_def)
qed

text \<open>
  The aliases map to names that are their own canonical form and hold no
  parenthesis.
\<close>

lemma alias_cases:
  "normalizeArchivedToolName fl n = n \<or>
   normalizeArchivedToolName fl n \<in> {AGENT_TOOL_NAME, TASK_STOP_TOOL_NAME, TASK_OUTPUT_TOOL_NAME, BRIEF_TOOL_NAME}"
  by (auto simp: normalizeArchivedToolName_def ARCHIVED_TOOL_NAME_ALIASES_def)

lemma canonical_name:
  assumes "c \<in> {AGENT_TOOL_NAME, TASK_STOP_TOOL_NAME, TASK_OUTPUT_TOOL_NAME, BRIEF_TOOL_NAME}"
  shows "normalizeArchivedToolName fl c = c" and "LP \<notin> set c" and "BS \<notin> set c" and "c \<noteq> []"
  using assms
  by (auto simp: normalizeArchivedToolName_def ARCHIVED_TOOL_NAME_ALIASES_def tool_name_defs)

lemma normalize_idem [simp]:
  "normalizeArchivedToolName fl (normalizeArchivedToolName fl n) = normalizeArchivedToolName fl n"
  using alias_cases [of fl n] canonical_name(1) by metis

lemma trailing_no_bs: "BS \<notin> set s \<Longrightarrow> trailing_backslashes s = 0"
  by (induction s rule: rev_induct) (auto simp: trailing_backslashes_def)

text \<open>
  A rule value is in normal form when its name is the whole of a rule without
  content, or when name and content can be told apart again.
\<close>

definition normal_rule :: "features \<Rightarrow> rule_value \<Rightarrow> bool" where
  "normal_rule fl v \<longleftrightarrow>
     (case ruleContent v of
        None \<Rightarrow> permissionRuleValueFromString fl (toolName v) = v
      | Some c \<Rightarrow>
          findFirstUnescapedChar (toolName v) LP = None \<and>
          even (trailing_backslashes (toolName v)) \<and> toolName v \<noteq> [] \<and>
          normalizeArchivedToolName fl (toolName v) = toolName v \<and> c \<noteq> [] \<and> c \<noteq> ''*'')"

lemma parse_print:
  assumes "normal_rule fl v"
  shows "permissionRuleValueFromString fl (permissionRuleValueToString v) = v"
proof (cases "ruleContent v")
  case None
  with assms show ?thesis by (simp add: normal_rule_def permissionRuleValueToString_def)
next
  case (Some c)
  with assms show ?thesis
    by (simp add: normal_rule_def permissionRuleValueToString_def parse_printed
        even_trailing_escape escape_eq_star unescape_escape)
qed

lemma normal_canonical:
  "c \<in> {AGENT_TOOL_NAME, TASK_STOP_TOOL_NAME, TASK_OUTPUT_TOOL_NAME, BRIEF_TOOL_NAME} \<Longrightarrow>
     permissionRuleValueFromString fl c = tool_rule c"
  by (simp add: parse_no_paren no_paren_first canonical_name)

text \<open>The three shapes a parsed rule can have.\<close>

lemma parse_shapes:
  obtains (whole) "permissionRuleValueFromString fl s = tool_rule (normalizeArchivedToolName fl s)"
  | (tool) T where "permissionRuleValueFromString fl s = tool_rule (normalizeArchivedToolName fl T)"
      "findFirstUnescapedChar T LP = None"
  | (both) T raw where "permissionRuleValueFromString fl s =
        \<lparr>toolName = normalizeArchivedToolName fl T, ruleContent = Some (unescapeRuleContent raw)\<rparr>"
      "findFirstUnescapedChar T LP = None" "even (trailing_backslashes T)" "T \<noteq> []"
      "raw \<noteq> []" "raw \<noteq> ''*''"
proof (cases "findFirstUnescapedChar s LP")
  case None
  then show thesis using whole by (simp add: parse_no_paren)
next
  case (Some i)
  let ?T = "substring s 0 i"
  from Some have i: "i < length s" "unescaped_at s LP i" "\<forall>j<i. \<not> unescaped_at s LP j"
    unfolding findFirstUnescapedChar_def find_upt_Some_iff by auto
  then have T: "s = ?T @ drop i s" "length ?T = i" by (simp_all add: substring_def)
  have none: "findFirstUnescapedChar ?T LP = None"
    using i(3) T unescaped_at_append [of _ ?T "drop i s" LP]
    by (auto simp: findFirstUnescapedChar_def find_None_iff)
  have ev: "even (trailing_backslashes ?T)"
    using i(2) T backslashCount_append [of i ?T "drop i s"]
    by (simp add: unescaped_at_def trailing_backslashes_def)
  show thesis
  proof (cases "findLastUnescapedChar s RP")
    case None
    then show thesis using Some whole by (simp add: permissionRuleValueFromString_def)
  next
    case (Some k)
    let ?raw = "substring s (i + 1) k" and ?v = "permissionRuleValueFromString fl s"
    have "?v = tool_rule (normalizeArchivedToolName fl s) \<or>
        ?v = tool_rule (normalizeArchivedToolName fl ?T) \<or>
        ?v = \<lparr>toolName = normalizeArchivedToolName fl ?T,
               ruleContent = Some (unescapeRuleContent ?raw)\<rparr> \<and>
          ?T \<noteq> [] \<and> ?raw \<noteq> [] \<and> ?raw \<noteq> ''*''"
      using Some \<open>findFirstUnescapedChar s LP = Some i\<close>
      by (simp add: permissionRuleValueFromString_def Let_def)
    then show thesis using whole tool [OF _ none] both [OF _ none ev] by blast
  qed
qed

lemma normal_parse: "normal_rule fl (permissionRuleValueFromString fl s)"
proof (cases rule: parse_shapes [of fl s])
  case whole
  show ?thesis
  proof (cases "normalizeArchivedToolName fl s = s")
    case True
    with whole show ?thesis by (simp add: normal_rule_def tool_rule_def)
  next
    case False
    with alias_cases [of fl s] whole show ?thesis
      by (auto simp: normal_rule_def normal_canonical) (simp_all add: tool_rule_def normal_canonical)
  qed
next
  case (tool T)
  then show ?thesis
    using alias_cases [of fl T] parse_no_paren [of T fl] normal_canonical
    by (auto simp: normal_rule_def tool_rule_def)
next
  case (both T raw)
  then have "findFirstUnescapedChar (normalizeArchivedToolName fl T) LP = None \<and>
      even (trailing_backslashes (normalizeArchivedToolName fl T)) \<and>
      normalizeArchivedToolName fl T \<noteq> []"
    using alias_cases [of fl T] canonical_name trailing_no_bs no_paren_first
    by (metis even_zero)
  with both show ?thesis by (auto simp: normal_rule_def dest: unescape_eq_star)
qed

interpretation rule: normalising_codec
  permissionRuleValueToString "permissionRuleValueFromString fl" "normal_rule fl" for fl
  by unfold_locales (rule parse_print, assumption, rule normal_parse)

section \<open>Names of tools of MCP servers\<close>

definition DSXU_SERVER_PREFIX :: string where "DSXU_SERVER_PREFIX = ''dsxu ''"

definition is_name_char :: "char \<Rightarrow> bool" where
  "is_name_char c \<longleftrightarrow>
     c \<in> set ''abcdefghijklmnopqrstuvwxyzABCDEFGHIJKLMNOPQRSTUVWXYZ0123456789_-''"

text \<open>\<open>replace(/_+/g, '_')\<close>.\<close>

fun collapse_underscores :: "string \<Rightarrow> string" where
  "collapse_underscores (x # y # s) =
     (if x = CHR ''_'' \<and> y = CHR ''_'' then collapse_underscores (y # s)
      else x # collapse_underscores (y # s))"
| "collapse_underscores s = s"

text \<open>\<open>replace(/^_|_$/g, '')\<close>: one leading and one trailing underscore go.\<close>

definition strip_edge_underscores :: "string \<Rightarrow> string" where
  "strip_edge_underscores s =
     (let s1 = (if s \<noteq> [] \<and> hd s = CHR ''_'' then tl s else s)
      in if s1 \<noteq> [] \<and> last s1 = CHR ''_'' then butlast s1 else s1)"

definition normalizeNameForMCP :: "string \<Rightarrow> string" where
  "normalizeNameForMCP name =
     (let normalized = map (\<lambda>c. if is_name_char c then c else CHR ''_'') name
      in if starts_with DSXU_SERVER_PREFIX name
         then strip_edge_underscores (collapse_underscores normalized)
         else normalized)"

record mcp_info =
  serverName :: string
  mcpToolName :: "string option"

definition mcpInfoFromString :: "string \<Rightarrow> mcp_info option" where
  "mcpInfoFromString toolString =
     (case js_split ''__'' toolString of
        mcpPart # server # toolNameParts \<Rightarrow>
          if mcpPart \<noteq> ''mcp'' \<or> server = [] then None
          else Some \<lparr>serverName = server,
                     mcpToolName = (if length toolNameParts > 0
                                    then Some (js_join ''__'' toolNameParts) else None)\<rparr>
      | _ \<Rightarrow> None)"

definition getMcpPrefix :: "string \<Rightarrow> string" where
  "getMcpPrefix server = ''mcp__'' @ normalizeNameForMCP server @ ''__''"

definition buildMcpToolName :: "string \<Rightarrow> string \<Rightarrow> string" where
  "buildMcpToolName server tool = getMcpPrefix server @ normalizeNameForMCP tool"

text \<open>The part of a tool that naming reads: its name and, for an MCP tool, server and tool.\<close>

definition getToolNameForPermissionCheck :: "string \<Rightarrow> (string \<times> string) option \<Rightarrow> string" where
  "getToolNameForPermissionCheck name mcpInfo =
     (case mcpInfo of Some (s, t) \<Rightarrow> buildMcpToolName s t | None \<Rightarrow> name)"

subsection \<open>Splitting what was joined\<close>

lemma take2_drop:
  "take 2 (drop j s) = [a, b] \<longleftrightarrow> Suc j < length s \<and> s ! j = a \<and> s ! Suc j = b"
proof (cases "Suc j < length s")
  case True
  then have "drop j s = s ! j # s ! Suc j # drop (Suc (Suc j)) s"
    by (metis Cons_nth_drop_Suc Suc_lessD)
  with True show ?thesis by simp
next
  case False
  have "take 2 (drop j s) \<noteq> [a, b]"
  proof
    assume "take 2 (drop j s) = [a, b]"
    then have "length (take 2 (drop j s)) = 2" by (rule ssubst) simp
    with False show False by simp
  qed
  with False show ?thesis by simp
qed

lemma index_of_pair:
  "index_of [a, b] s = Some i \<longleftrightarrow>
     Suc i < length s \<and> s ! i = a \<and> s ! Suc i = b \<and>
     (\<forall>j < i. \<not> (s ! j = a \<and> s ! Suc j = b))"
  by (auto simp: index_of_def find_upt_Some_iff take2_drop numeral_2_eq_2 [symmetric])

lemma index_of_pair_None:
  "index_of [a, b] s = None \<longleftrightarrow> (\<forall>j. Suc j < length s \<longrightarrow> \<not> (s ! j = a \<and> s ! Suc j = b))"
  by (auto simp: index_of_def find_None_iff take2_drop numeral_2_eq_2 [symmetric])

lemma js_split_at:
  assumes "index_of [a, b] (s @ [a, b] @ t) = Some (length s)"
  shows "js_split [a, b] (s @ [a, b] @ t) = s # js_split [a, b] t"
  using assms by (subst js_split.simps) simp

lemma join_split: "sep \<noteq> [] \<Longrightarrow> js_join sep (js_split sep s) = s"
proof (induction sep s rule: js_split.induct)
  case (1 sep s)
  show ?case
  proof (cases "index_of sep s")
    case None
    then show ?thesis by (simp add: js_split_absent)
  next
    case (Some i)
    then have "take (length sep) (drop i s) = sep" by (simp add: index_of_def find_upt_Some_iff)
    then have "sep @ drop (i + length sep) s = drop i s"
      by (metis add.commute append_take_drop_id drop_drop)
    moreover from Some "1.prems" have
      "js_split sep s = take i s # js_split sep (drop (i + length sep) s)"
      by (subst js_split.simps) simp
    moreover have "js_join sep (x # xs) = x @ sep @ js_join sep xs" if "xs \<noteq> []" for x xs
      using that by (cases xs) auto
    ultimately show ?thesis
      using "1.IH" [OF Some] "1.prems" by (simp add: js_split_nonempty)
  qed
qed

lemma split_server:
  assumes "index_of ''__'' S = None" "S \<noteq> []" "last S \<noteq> CHR ''_''"
  shows "js_split ''__'' (S @ ''__'' @ T) = S # js_split ''__'' T"
proof (rule js_split_at)
  have "\<not> ((S @ ''__'' @ T) ! j = CHR ''_'' \<and> (S @ ''__'' @ T) ! Suc j = CHR ''_'')"
    if "j < length S" for j
  proof (cases "Suc j < length S")
    case True
    with assms(1) that show ?thesis by (auto simp: index_of_pair_None nth_append)
  next
    case False
    with that have "j = length S - 1" by simp
    with assms(2,3) that show ?thesis by (auto simp: nth_append last_conv_nth)
  qed
  then show "index_of ''__'' (S @ ''__'' @ T) = Some (length S)"
    by (simp add: index_of_pair nth_append)
qed

lemma split_mcp: "js_split ''__'' (''mcp__'' @ r) = ''mcp'' # js_split ''__'' r"
  using split_server [of "''mcp''" r]
  by (simp add: index_of_pair_None less_Suc_eq nth_Cons split: nat.splits)

lemma mcp_parse_server_tool:
  assumes "index_of ''__'' S = None" "S \<noteq> []" "last S \<noteq> CHR ''_''"
  shows "mcpInfoFromString (''mcp__'' @ S @ ''__'' @ T) = Some \<lparr>serverName = S, mcpToolName = Some T\<rparr>"
proof -
  have "js_split ''__'' (''mcp__'' @ S @ ''__'' @ T) = ''mcp'' # S # js_split ''__'' T"
    by (simp only: split_mcp split_server [OF assms])
  then show ?thesis
    using assms(2) join_split [of "''__''" T]
    by (simp add: mcpInfoFromString_def js_split_nonempty)
qed

lemma mcp_parse_server:
  assumes "index_of ''__'' S = None" "S \<noteq> []"
  shows "mcpInfoFromString (''mcp__'' @ S) = Some \<lparr>serverName = S, mcpToolName = None\<rparr>"
  using assms by (simp only: mcpInfoFromString_def split_mcp) (simp add: js_split_absent)

text \<open>
  A server name that ends in an underscore (a name such as \<open>my.\<close>, whose last
  character is normalised to one) loses it: the split is at the first of the three
  underscores.
\<close>

lemma mcp_parse_edge:
  assumes none: "index_of ''__'' S = None" and last: "last S = CHR ''_''" and ne: "butlast S \<noteq> []"
  shows "mcpInfoFromString (''mcp__'' @ S @ ''__'' @ T) =
    Some \<lparr>serverName = butlast S, mcpToolName = Some (''_'' @ T)\<rparr>"
proof -
  have S: "S = butlast S @ ''_''" using last ne by (metis append_butlast_last_id butlast.simps(1))
  have "index_of ''__'' (butlast S) = None"
    unfolding index_of_pair_None
  proof (intro allI impI)
    fix j assume j: "Suc j < length (butlast S)"
    then have "butlast S ! j = S ! j" "butlast S ! Suc j = S ! Suc j"
      by (simp_all add: nth_butlast)
    with none j show "\<not> (butlast S ! j = CHR ''_'' \<and> butlast S ! Suc j = CHR ''_'')"
      by (simp add: index_of_pair_None)
  qed
  moreover have "last (butlast S) \<noteq> CHR ''_''"
  proof
    let ?j = "length S - 2"
    assume "last (butlast S) = CHR ''_''"
    with ne last have "S ! ?j = CHR ''_''" "S ! Suc ?j = CHR ''_''" "Suc ?j < length S"
      by (auto simp: last_conv_nth nth_butlast numeral_2_eq_2 Suc_diff_Suc
          length_greater_0_conv [symmetric] simp del: length_greater_0_conv)
    with none show False by (auto simp: index_of_pair_None)
  qed
  ultimately have "mcpInfoFromString (''mcp__'' @ butlast S @ ''__'' @ ''_'' @ T) =
      Some \<lparr>serverName = butlast S, mcpToolName = Some (''_'' @ T)\<rparr>"
    using ne by (intro mcp_parse_server_tool)
  moreover have "S @ ''__'' @ T = butlast S @ ''__'' @ ''_'' @ T"
    by (subst S) simp
  ultimately show ?thesis by (simp only:)
qed

section \<open>Properties\<close>

text \<open>
  A rule value with content survives printing and parsing.  The tool name is a
  canonical name without an opening parenthesis that does not end in a backslash; the
  content is any text other than the empty one and the single star, which the format
  reserves for the whole tool.
\<close>

theorem rule_value_roundtrip:
  assumes "n \<noteq> []" "LP \<notin> set n" "last n \<noteq> BS" "normalizeArchivedToolName fl n = n"
    and "c \<noteq> []" "c \<noteq> ''*''"
  shows "permissionRuleValueFromString fl (permissionRuleValueToString
           \<lparr>toolName = n, ruleContent = Some c\<rparr>) = \<lparr>toolName = n, ruleContent = Some c\<rparr>"
proof -
  have "trailing_backslashes n = 0"
    using assms(1,3) by (metis append_butlast_last_id trailing_snoc)
  then show ?thesis
    using assms by (intro rule.dec_enc) (simp add: normal_rule_def no_paren_first)
qed

theorem rule_value_roundtrip_witness:
  "permissionRuleValueFromString \<lparr>kairos = False, transcript_classifier = False,
       bash_classifier = False, powershell_auto_mode = False\<rparr>
     (permissionRuleValueToString \<lparr>toolName = ''Bash'', ruleContent = Some ''f(1)''\<rparr>) =
   \<lparr>toolName = ''Bash'', ruleContent = Some ''f(1)''\<rparr>"
  by (rule rule_value_roundtrip)
    (simp_all add: normalizeArchivedToolName_def ARCHIVED_TOOL_NAME_ALIASES_def)

text \<open>
  Parsing is stable under normalisation: printing any parsed rule string and parsing it
  again gives the same rule value, malformed rules and archived aliases included.  The
  settings loader compares rules by this normal form.
\<close>

theorem rule_string_normal_form:
  "permissionRuleValueFromString fl
     (permissionRuleValueToString (permissionRuleValueFromString fl s)) =
   permissionRuleValueFromString fl s"
  by (rule rule.dec_normal)

text \<open>
  The qualified name built for an MCP tool parses back into its server and tool, when the
  normalised server name holds no double underscore and does not end in an underscore.
\<close>

theorem mcp_name_roundtrip:
  assumes "index_of ''__'' (normalizeNameForMCP s) = None"
    and "normalizeNameForMCP s \<noteq> []" and "last (normalizeNameForMCP s) \<noteq> CHR ''_''"
  shows "mcpInfoFromString (buildMcpToolName s t) =
    Some \<lparr>serverName = normalizeNameForMCP s, mcpToolName = Some (normalizeNameForMCP t)\<rparr>"
  using mcp_parse_server_tool [OF assms, of "normalizeNameForMCP t"]
  by (simp add: buildMcpToolName_def getMcpPrefix_def)

theorem mcp_name_roundtrip_witness:
  "mcpInfoFromString (buildMcpToolName ''git.hub'' ''a b'') =
    Some \<lparr>serverName = normalizeNameForMCP ''git.hub'',
          mcpToolName = Some (normalizeNameForMCP ''a b'')\<rparr>"
  by (rule mcp_name_roundtrip)
    (simp_all add: normalizeNameForMCP_def DSXU_SERVER_PREFIX_def starts_with_def
      is_name_char_def index_of_def)

end
