(* ===== verification/Shell_Rules.thy ===== *)
theory Shell_Rules
  imports Permission_Rules
begin

text \<open>
  Rules for shell commands, \<open>src/utils/permissions/shellRuleMatching.ts\<close>: the
  classification of a rule as exact, prefix or wildcard, and the matching of a
  wildcard pattern, which the code does by building the source text of a regular
  expression and running it.  The model builds the same text; the fragment of
  regular expressions the text can use is parsed and matched by \<open>parse_rx\<close> and
  \<open>rx_match\<close>.
\<close>

section \<open>Classification\<close>

datatype shell_rule = Exact string | Prefix string | Wildcard string

text \<open>\<open>/^(.+):\*$/\<close>: the dot matches no line terminator.\<close>

definition permissionRuleExtractPrefix :: "string \<Rightarrow> string option" where
  "permissionRuleExtractPrefix rule =
     (let p = take (length rule - 2) rule
      in if ends_with '':*'' rule \<and> p \<noteq> [] \<and> CHR 0x0A \<notin> set p \<and> CHR 0x0D \<notin> set p
         then Some p else None)"

definition hasWildcards :: "string \<Rightarrow> bool" where
  "hasWildcards pat =
     (if ends_with '':*'' pat then False
      else list_ex (\<lambda>i. pat ! i = CHR ''*'' \<and> even (backslashCount pat i)) [0..<length pat])"

definition parsePermissionRule :: "string \<Rightarrow> shell_rule" where
  "parsePermissionRule rule =
     (case permissionRuleExtractPrefix rule of
        Some p \<Rightarrow> Prefix p
      | None \<Rightarrow> if hasWildcards rule then Wildcard rule else Exact rule)"

section \<open>The text of the regular expression\<close>

definition ESCAPED_STAR_PLACEHOLDER :: string where
  "ESCAPED_STAR_PLACEHOLDER = CHR 0x00 # ''ESCAPED_STAR'' @ [CHR 0x00]"

definition ESCAPED_BACKSLASH_PLACEHOLDER :: string where
  "ESCAPED_BACKSLASH_PLACEHOLDER = CHR 0x00 # ''ESCAPED_BACKSLASH'' @ [CHR 0x00]"

text \<open>The \<open>while\<close> loop that replaces the two escapes by placeholders.\<close>

fun process_escapes :: "string \<Rightarrow> string" where
  "process_escapes [] = []"
| "process_escapes [c] = [c]"
| "process_escapes (c # d # s) =
     (if c = BS \<and> d = CHR ''*'' then ESCAPED_STAR_PLACEHOLDER @ process_escapes s
      else if c = BS \<and> d = BS then ESCAPED_BACKSLASH_PLACEHOLDER @ process_escapes s
      else c # process_escapes (d # s))"

text \<open>\<open>[.+?^${}()|[\]\\'"]\<close>\<close>

definition is_rx_special :: "char \<Rightarrow> bool" where
  "is_rx_special c \<longleftrightarrow>
     c \<in> set ''.+?^${}()|[]'' \<or> c = BS \<or> c = CHR 0x27 \<or> c = CHR 0x22"

definition escape_specials :: "string \<Rightarrow> string" where
  "escape_specials s = concat (map (\<lambda>c. if is_rx_special c then [BS, c] else [c]) s)"

text \<open>\<open>s.replace(/p/g, r)\<close> for a literal \<open>p\<close>.\<close>

function replace_lit :: "string \<Rightarrow> string \<Rightarrow> string \<Rightarrow> string" where
  "replace_lit p r [] = []"
| "replace_lit p r (c # s) =
     (if p \<noteq> [] \<and> take (length p) (c # s) = p
      then r @ replace_lit p r (drop (length p) (c # s)) else c # replace_lit p r s)"
  by pat_completeness auto
termination
proof (relation "measure (\<lambda>(p, r, s). length s)")
  fix p :: string and r c s
  assume "p \<noteq> [] \<and> take (length p) (c # s) = p"
  then show "((p, r, drop (length p) (c # s)), p, r, c # s) \<in> measure (\<lambda>(p, r, s). length s)"
    by (cases p) auto
qed auto

definition optional_tail :: string where
  "optional_tail = ''( .*)?''"

definition wildcard_regex :: "string \<Rightarrow> string" where
  "wildcard_regex pat =
     (let processed = process_escapes (js_trim pat);
          escaped = escape_specials processed;
          withWildcards = replace_char (CHR ''*'') ''.*'' escaped;
          regexPattern = replace_lit ESCAPED_BACKSLASH_PLACEHOLDER [BS, BS]
             (replace_lit ESCAPED_STAR_PLACEHOLDER [BS, CHR ''*''] withWildcards);
          unescapedStarCount = length (filter (\<lambda>c. c = CHR ''*'') processed)
      in if ends_with '' .*'' regexPattern \<and> unescapedStarCount = 1
         then take (length regexPattern - 3) regexPattern @ optional_tail
         else regexPattern)"

section \<open>The fragment of regular expressions it uses\<close>

datatype rx = RLit char | RAny | ROptTail

text \<open>A text outside the fragment is \<open>None\<close>.\<close>

fun parse_rx :: "string \<Rightarrow> rx list option" where
  "parse_rx [] = Some []"
| "parse_rx (c # s) =
     (if c = BS then
        (case s of d # s' \<Rightarrow> (if is_rx_special d \<or> d = CHR ''*''
                              then map_option ((#) (RLit d)) (parse_rx s') else None) | [] \<Rightarrow> None)
      else if c = CHR ''.'' then
        (case s of d # s' \<Rightarrow> (if d = CHR ''*'' then map_option ((#) RAny) (parse_rx s') else None)
           | [] \<Rightarrow> None)
      else if c = LP then (if c # s = optional_tail then Some [ROptTail] else None)
      else if is_rx_special c \<or> c = CHR ''*'' then None
      else map_option ((#) (RLit c)) (parse_rx s))"

text \<open>
  Canonicalisation of the \<open>i\<close> flag: simple upper case within the code units the model has.
\<close>

definition canonicalize :: "bool \<Rightarrow> char \<Rightarrow> char" where
  "canonicalize caseInsensitive c =
     (let n = (of_char c :: nat)
      in if caseInsensitive \<and> (97 \<le> n \<and> n \<le> 122 \<or> 224 \<le> n \<and> n \<le> 254 \<and> n \<noteq> 247)
         then char_of (n - 32) else c)"

text \<open>Anchored matching with the \<open>s\<close> flag: the dot matches every character.\<close>

fun rx_match :: "bool \<Rightarrow> rx list \<Rightarrow> string \<Rightarrow> bool" where
  "rx_match ci [] w = (w = [])"
| "rx_match ci (RLit c # r) [] = False"
| "rx_match ci (RLit c # r) (x # w) = (canonicalize ci x = canonicalize ci c \<and> rx_match ci r w)"
| "rx_match ci (RAny # r) [] = rx_match ci r []"
| "rx_match ci (RAny # r) (x # w) = (rx_match ci r (x # w) \<or> rx_match ci (RAny # r) w)"
| "rx_match ci (ROptTail # r) [] = rx_match ci r []"
| "rx_match ci (ROptTail # r) (x # w) =
     (rx_match ci r (x # w) \<or>
      canonicalize ci x = canonicalize ci (CHR '' '') \<and> rx_match ci (RAny # r) w)"

text \<open>
  \<open>None\<close> would mean that the text is not in the fragment; \<open>wildcard_regex_parses\<close> shows
  that this does not happen.
\<close>

definition matchWildcardPattern_opt :: "string \<Rightarrow> string \<Rightarrow> bool \<Rightarrow> bool option" where
  "matchWildcardPattern_opt pat command caseInsensitive =
     map_option (\<lambda>r. rx_match caseInsensitive r command) (parse_rx (wildcard_regex pat))"

definition matchWildcardPattern :: "string \<Rightarrow> string \<Rightarrow> bool \<Rightarrow> bool" where
  "matchWildcardPattern pat command caseInsensitive =
     (matchWildcardPattern_opt pat command caseInsensitive = Some True)"

section \<open>The pattern as tokens\<close>

datatype tok = TLit char | TStar | TEscStar | TEscBs

definition plain_tok :: "char \<Rightarrow> tok" where
  "plain_tok c = (if c = CHR ''*'' then TStar else TLit c)"

fun tokens :: "string \<Rightarrow> tok list" where
  "tokens [] = []"
| "tokens [c] = [plain_tok c]"
| "tokens (c # d # s) =
     (if c = BS \<and> d = CHR ''*'' then TEscStar # tokens s
      else if c = BS \<and> d = BS then TEscBs # tokens s
      else plain_tok c # tokens (d # s))"

text \<open>
  The placeholders are texts that a pattern could itself contain.  A pattern is safe when it
  has no NUL and no escaped backslash directly before the letter \<open>E\<close> that follows the placeholders' NUL.
\<close>

fun safe_tokens :: "tok list \<Rightarrow> bool" where
  "safe_tokens [] = True"
| "safe_tokens (TLit c # ts) = (c \<noteq> CHR 0x00 \<and> safe_tokens ts)"
| "safe_tokens (TStar # ts) = safe_tokens ts"
| "safe_tokens (TEscStar # ts) = safe_tokens ts"
| "safe_tokens (TEscBs # ts) = ((case ts of TLit c # _ \<Rightarrow> c \<noteq> CHR ''E'' | _ \<Rightarrow> True) \<and> safe_tokens ts)"

primrec tok_processed :: "tok \<Rightarrow> string" where
  "tok_processed (TLit c) = [c]"
| "tok_processed TStar = ''*''"
| "tok_processed TEscStar = ESCAPED_STAR_PLACEHOLDER"
| "tok_processed TEscBs = ESCAPED_BACKSLASH_PLACEHOLDER"

primrec tok_dotted :: "tok \<Rightarrow> string" where
  "tok_dotted (TLit c) = (if is_rx_special c then [BS, c] else [c])"
| "tok_dotted TStar = ''.*''"
| "tok_dotted TEscStar = ESCAPED_STAR_PLACEHOLDER"
| "tok_dotted TEscBs = ESCAPED_BACKSLASH_PLACEHOLDER"

definition tok_star_done :: "tok \<Rightarrow> string" where
  "tok_star_done t = (case t of TEscStar \<Rightarrow> [BS, CHR ''*''] | _ \<Rightarrow> tok_dotted t)"

definition tok_regex :: "tok \<Rightarrow> string" where
  "tok_regex t = (case t of TEscBs \<Rightarrow> [BS, BS] | _ \<Rightarrow> tok_star_done t)"

definition rx_tok :: "tok \<Rightarrow> rx" where
  "rx_tok t = (case t of TLit c \<Rightarrow> RLit c | TStar \<Rightarrow> RAny | TEscStar \<Rightarrow> RLit (CHR ''*'') | TEscBs \<Rightarrow> RLit BS)"

lemmas placeholder_defs = ESCAPED_STAR_PLACEHOLDER_def ESCAPED_BACKSLASH_PLACEHOLDER_def

lemma tokens_no_star: "TLit (CHR ''*'') \<notin> set (tokens s)"
  by (induction s rule: tokens.induct) (auto simp: plain_tok_def)

lemma process_tokens: "process_escapes s = concat (map tok_processed (tokens s))"
  by (induction s rule: process_escapes.induct) (auto simp: plain_tok_def)

lemma rx_special_simps [simp]:
  "\<not> is_rx_special (CHR ''*'')" "\<not> is_rx_special (CHR 0x00)" "is_rx_special BS" "is_rx_special LP"
  "is_rx_special (CHR ''.'')" "\<not> is_rx_special (CHR '' '')"
  by (simp_all add: is_rx_special_def)

lemma escape_specials_append [simp]:
  "escape_specials (s @ t) = escape_specials s @ escape_specials t"
  by (simp add: escape_specials_def)

lemma escape_specials_simps [simp]:
  "escape_specials [] = []"
  "escape_specials (c # s) = (if is_rx_special c then [BS, c] else [c]) @ escape_specials s"
  by (simp_all add: escape_specials_def)

lemma escape_placeholder [simp]:
  "replace_char (CHR ''*'') ''.*'' (escape_specials ESCAPED_STAR_PLACEHOLDER) = ESCAPED_STAR_PLACEHOLDER"
  "replace_char (CHR ''*'') ''.*'' (escape_specials ESCAPED_BACKSLASH_PLACEHOLDER) =
     ESCAPED_BACKSLASH_PLACEHOLDER"
  by (simp_all add: placeholder_defs is_rx_special_def)

lemma dotted_tokens:
  "TLit (CHR ''*'') \<notin> set ts \<Longrightarrow>
     replace_char (CHR ''*'') ''.*'' (escape_specials (concat (map tok_processed ts))) =
     concat (map tok_dotted ts)"
proof (induction ts)
  case (Cons t ts)
  then show ?case by (cases t) (auto simp: is_rx_special_def)
qed simp

subsection \<open>Replacing the placeholders\<close>

lemma placeholder_ne [simp]:
  "ESCAPED_STAR_PLACEHOLDER \<noteq> []" "ESCAPED_BACKSLASH_PLACEHOLDER \<noteq> []"
  by (simp_all add: placeholder_defs)

lemma ends_with_rev: "ends_with p s \<longleftrightarrow> take (length p) (rev s) = rev p"
proof
  assume "ends_with p s"
  then show "take (length p) (rev s) = rev p" by (simp add: ends_with_def take_rev)
next
  assume h: "take (length p) (rev s) = rev p"
  then have "length (take (length p) (rev s)) = length p" by simp
  then have "length p \<le> length s" by simp
  then show "ends_with p s" using h by (simp add: ends_with_def take_rev)
qed

lemma replace_lit_hit: "p \<noteq> [] \<Longrightarrow> replace_lit p r (p @ s) = r @ replace_lit p r s"
  by (cases p) auto

lemma replace_lit_skip: "c \<noteq> a \<Longrightarrow> replace_lit (a # p) r (c # s) = c # replace_lit (a # p) r s"
  by auto

lemma replace_lit_skip_list:
  "a \<notin> set u \<Longrightarrow> replace_lit (a # p) r (u @ s) = u @ replace_lit (a # p) r s"
  by (induction u) (auto simp: replace_lit_skip simp del: replace_lit.simps)

lemma replace_star_over_backslash:
  assumes "case s of c # _ \<Rightarrow> c \<noteq> CHR ''E'' | [] \<Rightarrow> True"
  shows "replace_lit ESCAPED_STAR_PLACEHOLDER r (ESCAPED_BACKSLASH_PLACEHOLDER @ s) =
    ESCAPED_BACKSLASH_PLACEHOLDER @ replace_lit ESCAPED_STAR_PLACEHOLDER r s"
proof -
  let ?p = "ESCAPED_STAR_PLACEHOLDER"
  have p: "?p = CHR 0x00 # tl ?p" by (simp add: placeholder_defs)
  have "replace_lit ?p r (CHR 0x00 # s) = CHR 0x00 # replace_lit ?p r s"
    using assms by (cases s) (auto simp: placeholder_defs)
  moreover have "replace_lit ?p r (''ESCAPED_BACKSLASH'' @ CHR 0x00 # s) =
      ''ESCAPED_BACKSLASH'' @ replace_lit ?p r (CHR 0x00 # s)"
    by (subst (1 2) p, rule replace_lit_skip_list) simp
  moreover have "replace_lit ?p r (CHR 0x00 # ''ESCAPED_BACKSLASH'' @ CHR 0x00 # s) =
      CHR 0x00 # replace_lit ?p r (''ESCAPED_BACKSLASH'' @ CHR 0x00 # s)"
    by (subst replace_lit.simps) (simp add: placeholder_defs)
  ultimately show ?thesis by (simp add: placeholder_defs(2))
qed

lemma head_tok_dotted:
  assumes "case ts of TLit c # _ \<Rightarrow> c \<noteq> CHR ''E'' | _ \<Rightarrow> True"
  shows "case concat (map tok_dotted ts) of c # _ \<Rightarrow> c \<noteq> CHR ''E'' | [] \<Rightarrow> True"
proof (cases ts)
  case (Cons t us)
  then show ?thesis using assms by (cases t) (auto simp: placeholder_defs)
qed simp

lemma star_done_tokens:
  "safe_tokens ts \<Longrightarrow>
     replace_lit ESCAPED_STAR_PLACEHOLDER [BS, CHR ''*''] (concat (map tok_dotted ts)) =
     concat (map tok_star_done ts)"
proof (induction ts rule: safe_tokens.induct)
  case (2 c ts)
  have "CHR 0x00 \<notin> set (tok_dotted (TLit c))" using 2 by auto
  then show ?case using 2
    by (simp add: placeholder_defs(1) replace_lit_skip_list tok_star_done_def del: tok_dotted.simps
        replace_lit.simps)
next
  case (3 ts)
  have "CHR 0x00 \<notin> set (tok_dotted TStar)" by auto
  then show ?case using 3
    by (simp add: placeholder_defs(1) replace_lit_skip_list tok_star_done_def del: tok_dotted.simps
        replace_lit.simps)
next
  case (4 ts)
  then show ?case
    by (simp add: replace_lit_hit tok_star_done_def placeholder_ne del: replace_lit.simps)
next
  case (5 ts)
  then show ?case
    by (simp add: replace_star_over_backslash head_tok_dotted tok_star_done_def
        del: replace_lit.simps)
qed (simp add: tok_star_done_def)

lemma regex_tokens:
  "safe_tokens ts \<Longrightarrow>
     replace_lit ESCAPED_BACKSLASH_PLACEHOLDER [BS, BS] (concat (map tok_star_done ts)) =
     concat (map tok_regex ts)"
proof (induction ts rule: safe_tokens.induct)
  case (2 c ts)
  have "CHR 0x00 \<notin> set (tok_star_done (TLit c))" using 2 by (auto simp: tok_star_done_def)
  then show ?case using 2
    by (simp add: placeholder_defs(2) replace_lit_skip_list tok_regex_def del: replace_lit.simps)
next
  case (3 ts)
  have "CHR 0x00 \<notin> set (tok_star_done TStar)" by (auto simp: tok_star_done_def)
  then show ?case using 3
    by (simp add: placeholder_defs(2) replace_lit_skip_list tok_regex_def del: replace_lit.simps)
next
  case (4 ts)
  have "CHR 0x00 \<notin> set (tok_star_done TEscStar)" by (auto simp: tok_star_done_def)
  then show ?case using 4
    by (simp add: placeholder_defs(2) replace_lit_skip_list tok_regex_def del: replace_lit.simps)
next
  case (5 ts)
  then show ?case
    by (simp add: replace_lit_hit tok_regex_def tok_star_done_def placeholder_ne
        del: replace_lit.simps)
qed simp

subsection \<open>The regular expression of a pattern\<close>

lemma parse_tokens:
  "TLit (CHR ''*'') \<notin> set ts \<Longrightarrow>
     parse_rx (concat (map tok_regex ts) @ s) = map_option ((@) (map rx_tok ts)) (parse_rx s)"
proof (induction ts)
  case Nil
  show ?case by (simp add: option.map_ident)
next
  case (Cons t ts)
  then show ?case
    by (cases t) (auto simp: tok_regex_def tok_star_done_def rx_tok_def option.map_comp comp_def)
qed

lemma star_count:
  "TLit (CHR ''*'') \<notin> set ts \<Longrightarrow>
     length (filter (\<lambda>c. c = CHR ''*'') (concat (map tok_processed ts))) =
     length (filter (\<lambda>t. t = TStar) ts)"
proof (induction ts)
  case (Cons t ts)
  then show ?case by (cases t) (auto simp: placeholder_defs)
qed simp

lemma last_tok_regex: "tok_regex t \<noteq> []"
  by (cases t) (auto simp: tok_regex_def tok_star_done_def)

lemma ends_with_dot_star:
  assumes "TLit (CHR ''*'') \<notin> set ts"
  shows "ends_with '' .*'' (concat (map tok_regex ts)) \<longleftrightarrow> (\<exists>us. ts = us @ [TLit (CHR '' ''), TStar])"
proof (cases ts rule: rev_cases)
  case (snoc us t)
  show ?thesis
  proof (cases "t = TStar")
    case True
    show ?thesis
    proof (cases us rule: rev_cases)
      case (snoc vs u)
      then show ?thesis using True \<open>ts = us @ [t]\<close> assms
        by (cases u) (auto simp: tok_regex_def tok_star_done_def ends_with_rev)
    qed (use True snoc in \<open>auto simp: tok_regex_def tok_star_done_def ends_with_rev\<close>)
  next
    case False
    then show ?thesis using snoc assms
      by (cases t) (auto simp: tok_regex_def tok_star_done_def ends_with_rev)
  qed
qed (simp add: ends_with_rev)

section \<open>What a pattern matches\<close>

text \<open>
  The specification: the command is cut into one piece per token; a star takes any piece, every
  other token the one character it stands for, up to the case flag.
\<close>

definition char_piece :: "bool \<Rightarrow> char \<Rightarrow> string \<Rightarrow> bool" where
  "char_piece ci c u \<longleftrightarrow> map (canonicalize ci) u = [canonicalize ci c]"

definition tok_accepts :: "bool \<Rightarrow> tok \<Rightarrow> string \<Rightarrow> bool" where
  "tok_accepts ci t u =
     (case t of TStar \<Rightarrow> True | TLit c \<Rightarrow> char_piece ci c u
      | TEscStar \<Rightarrow> char_piece ci (CHR ''*'') u | TEscBs \<Rightarrow> char_piece ci BS u)"

definition glob_matches :: "bool \<Rightarrow> tok list \<Rightarrow> string \<Rightarrow> bool" where
  "glob_matches ci ts w \<longleftrightarrow> (\<exists>us. list_all2 (tok_accepts ci) ts us \<and> w = concat us)"

definition rx_accepts :: "bool \<Rightarrow> rx \<Rightarrow> string \<Rightarrow> bool" where
  "rx_accepts ci r u =
     (case r of RAny \<Rightarrow> True | RLit c \<Rightarrow> char_piece ci c u
      | ROptTail \<Rightarrow> u = [] \<or> canonicalize ci (hd u) = canonicalize ci (CHR '' ''))"

definition rx_spec :: "bool \<Rightarrow> rx list \<Rightarrow> string \<Rightarrow> bool" where
  "rx_spec ci r w \<longleftrightarrow> (\<exists>us. list_all2 (rx_accepts ci) r us \<and> w = concat us)"

lemma rx_spec_Nil [simp]: "rx_spec ci [] w \<longleftrightarrow> w = []"
  by (simp add: rx_spec_def)

lemma rx_spec_Cons:
  "rx_spec ci (a # r) w \<longleftrightarrow> (\<exists>u v. w = u @ v \<and> rx_accepts ci a u \<and> rx_spec ci r v)"
proof
  assume "rx_spec ci (a # r) w"
  then obtain us where "list_all2 (rx_accepts ci) (a # r) us" "w = concat us"
    by (auto simp: rx_spec_def)
  then show "\<exists>u v. w = u @ v \<and> rx_accepts ci a u \<and> rx_spec ci r v"
    by (cases us) (auto simp: rx_spec_def)
next
  assume "\<exists>u v. w = u @ v \<and> rx_accepts ci a u \<and> rx_spec ci r v"
  then obtain u us where "rx_accepts ci a u" "list_all2 (rx_accepts ci) r us" "w = u @ concat us"
    by (auto simp: rx_spec_def)
  then show "rx_spec ci (a # r) w" by (auto simp: rx_spec_def intro!: exI [of _ "u # us"])
qed

lemma char_piece_iff: "char_piece ci c u \<longleftrightarrow> (\<exists>x. u = [x] \<and> canonicalize ci x = canonicalize ci c)"
  by (cases u) (auto simp: char_piece_def)

lemma rx_spec_RAny_Cons:
  "rx_spec ci (RAny # r) (x # w) \<longleftrightarrow> rx_spec ci r (x # w) \<or> rx_spec ci (RAny # r) w"
  by (auto simp: rx_spec_Cons rx_accepts_def Cons_eq_append_conv)

lemma rx_spec_opt_Cons:
  "rx_spec ci (ROptTail # r) (x # w) \<longleftrightarrow>
     rx_spec ci r (x # w) \<or>
     canonicalize ci x = canonicalize ci (CHR '' '') \<and> rx_spec ci (RAny # r) w"
  (is "?l = ?r")
proof
  assume ?l
  then obtain u v where uv: "x # w = u @ v" "rx_accepts ci ROptTail u" "rx_spec ci r v"
    by (auto simp: rx_spec_Cons)
  then show ?r by (cases u) (auto simp: rx_spec_Cons rx_accepts_def)
next
  have opt: "rx_accepts ci ROptTail (x # u)" if "canonicalize ci x = canonicalize ci (CHR '' '')" for u
    using that by (simp add: rx_accepts_def)
  have nil: "rx_accepts ci ROptTail []" by (simp add: rx_accepts_def)
  assume ?r
  then show ?l
  proof
    assume "rx_spec ci r (x # w)"
    then show ?l using nil unfolding rx_spec_Cons by (metis append_Nil)
  next
    assume "canonicalize ci x = canonicalize ci (CHR '' '') \<and> rx_spec ci (RAny # r) w"
    then show ?l using opt unfolding rx_spec_Cons by (metis append_Cons)
  qed
qed

lemma rx_spec_RLit_Cons:
  "rx_spec ci (RLit c # r) (x # w) \<longleftrightarrow> canonicalize ci x = canonicalize ci c \<and> rx_spec ci r w"
  by (auto simp: rx_spec_Cons rx_accepts_def char_piece_iff intro: exI [of _ "[x]"])

lemma rx_match_spec: "rx_match ci r w = rx_spec ci r w"
proof (induction ci r w rule: rx_match.induct)
  case (5 ci r x w)
  then show ?case by (simp add: rx_spec_RAny_Cons)
next
  case (7 ci r x w)
  then show ?case by (simp add: rx_spec_opt_Cons)
next
  case (3 ci c r x w)
  then show ?case by (simp add: rx_spec_RLit_Cons)
qed (auto simp: rx_spec_Cons rx_accepts_def char_piece_iff)

lemma rx_spec_tokens: "rx_spec ci (map rx_tok ts) w = glob_matches ci ts w"
proof -
  have "rx_accepts ci (rx_tok t) = tok_accepts ci t" for t
    by (cases t) (auto simp: rx_accepts_def tok_accepts_def rx_tok_def)
  then show ?thesis by (simp add: rx_spec_def glob_matches_def list.rel_map(1))
qed

lemma rx_spec_append:
  "rx_spec ci (r @ q) w \<longleftrightarrow> (\<exists>u v. w = u @ v \<and> rx_spec ci r u \<and> rx_spec ci q v)"
proof (induction r arbitrary: w)
  case (Cons a r)
  show ?case by (auto simp: rx_spec_Cons Cons.IH) (metis append.assoc)+
qed simp

lemma rx_spec_opt_tail:
  "rx_spec ci (r @ [ROptTail]) w \<longleftrightarrow>
     rx_spec ci r w \<or> rx_spec ci (r @ [RLit (CHR '' ''), RAny]) w"
proof -
  have "rx_accepts ci ROptTail v \<longleftrightarrow> v = [] \<or> rx_spec ci [RLit (CHR '' ''), RAny] v" for v
  proof (cases v)
    case (Cons x w)
    then show ?thesis by (simp add: rx_spec_RLit_Cons) (simp add: rx_spec_Cons rx_accepts_def)
  qed (simp add: rx_accepts_def)
  then show ?thesis by (auto simp: rx_spec_append rx_spec_Cons)
qed

text \<open>The tokens of the regular expression a pattern becomes.\<close>

definition pattern_rx :: "tok list \<Rightarrow> rx list" where
  "pattern_rx ts =
     (if (\<exists>us. ts = us @ [TLit (CHR '' ''), TStar]) \<and> length (filter (\<lambda>t. t = TStar) ts) = 1
      then map rx_tok (butlast (butlast ts)) @ [ROptTail] else map rx_tok ts)"

lemma wildcard_regex_tokens:
  assumes "safe_tokens (tokens (js_trim pat))"
  shows "parse_rx (wildcard_regex pat) = Some (pattern_rx (tokens (js_trim pat)))"
proof -
  define ts where "ts = tokens (js_trim pat)"
  let ?rx = "concat (map tok_regex ts)"
  have ns: "TLit (CHR ''*'') \<notin> set ts" by (simp add: ts_def tokens_no_star)
  have rx: "wildcard_regex pat =
      (if ends_with '' .*'' ?rx \<and> length (filter (\<lambda>t. t = TStar) ts) = 1
       then take (length ?rx - 3) ?rx @ optional_tail else ?rx)"
    using assms ns
    by (simp add: wildcard_regex_def Let_def process_tokens dotted_tokens star_done_tokens
        regex_tokens star_count flip: ts_def)
  show ?thesis
  proof (cases "ends_with '' .*'' ?rx \<and> length (filter (\<lambda>t. t = TStar) ts) = 1")
    case True
    then obtain us where us: "ts = us @ [TLit (CHR '' ''), TStar]"
      using ends_with_dot_star [OF ns] by blast
    then have "take (length ?rx - 3) ?rx = concat (map tok_regex us)"
      by (simp add: tok_regex_def tok_star_done_def)
    moreover have "TLit (CHR ''*'') \<notin> set us" using ns us by simp
    moreover have "parse_rx optional_tail = Some [ROptTail]" by (simp add: optional_tail_def)
    ultimately show ?thesis using True us rx
      by (simp add: parse_tokens pattern_rx_def butlast_append flip: ts_def)
  next
    case False
    then have "pattern_rx ts = map rx_tok ts" "wildcard_regex pat = ?rx"
      using rx ends_with_dot_star [OF ns] by (auto simp: pattern_rx_def)
    then show ?thesis using parse_tokens [OF ns, of "[]"] by (simp flip: ts_def)
  qed
qed

lemma wildcard_rx_matches:
  assumes "safe_tokens (tokens (js_trim pat))"
  shows "matchWildcardPattern pat cmd ci \<longleftrightarrow>
    glob_matches ci (tokens (js_trim pat)) cmd \<or>
    (\<exists>us. tokens (js_trim pat) = us @ [TLit (CHR '' ''), TStar] \<and> TStar \<notin> set us \<and>
       glob_matches ci us cmd)"
proof -
  define ts where "ts = tokens (js_trim pat)"
  have m: "matchWildcardPattern pat cmd ci = rx_spec ci (pattern_rx ts) cmd"
    using wildcard_regex_tokens [OF assms]
    by (simp add: matchWildcardPattern_def matchWildcardPattern_opt_def rx_match_spec ts_def)
  show ?thesis
  proof (cases "\<exists>us. ts = us @ [TLit (CHR '' ''), TStar] \<and> TStar \<notin> set us")
    case True
    then obtain us where us: "ts = us @ [TLit (CHR '' ''), TStar]" "TStar \<notin> set us" by blast
    then have "filter (\<lambda>t. t = TStar) us = []" by (auto simp: filter_empty_conv)
    then have "pattern_rx ts = map rx_tok us @ [ROptTail]"
      using us by (simp add: pattern_rx_def butlast_append)
    moreover have "map rx_tok ts = map rx_tok us @ [RLit (CHR '' ''), RAny]"
      using us by (simp add: rx_tok_def)
    ultimately show ?thesis using m us rx_spec_tokens [of ci ts cmd]
      by (auto simp: rx_spec_opt_tail rx_spec_tokens simp flip: ts_def)
  next
    case False
    then have "pattern_rx ts = map rx_tok ts" by (auto simp: pattern_rx_def filter_empty_conv)
    then show ?thesis using m False by (auto simp: rx_spec_tokens simp flip: ts_def)
  qed
qed

text \<open>
  C40: Wildcard patterns mean what the documentation of the rule syntax says.  For a pattern that
  contains no text the placeholder scheme could confuse (no NUL, no escaped backslash right before
  the letter E), the regular expression the code assembles by string replacement is well formed,
  and it accepts exactly the commands that can be cut into one piece per token of the pattern,
  where an unescaped star takes any piece, an escaped star and an escaped backslash stand for
  themselves and every other character for itself (up to the case flag); and when the only star
  is a final one after a space, also the command without the space and the arguments.
\<close>

theorem wildcard_semantics:
  assumes "safe_tokens (tokens (js_trim pat))"
  shows "matchWildcardPattern pat cmd ci \<longleftrightarrow>
    glob_matches ci (tokens (js_trim pat)) cmd \<or>
    (\<exists>us. tokens (js_trim pat) = us @ [TLit (CHR '' ''), TStar] \<and> TStar \<notin> set us \<and>
       glob_matches ci us cmd)"
  using assms by (rule wildcard_rx_matches)

text \<open>Literal characters only.\<close>

lemma tokens_plain:
  "BS \<notin> set p \<Longrightarrow> tokens (p @ s) = map plain_tok p @ tokens s"
proof (induction p)
  case (Cons c p)
  have step: "tokens (c # x) = plain_tok c # tokens x" for x
    using Cons.prems by (cases x) auto
  then show ?case using Cons by simp
qed simp

lemma glob_Cons:
  "glob_matches ci (t # ts) w \<longleftrightarrow> (\<exists>u v. w = u @ v \<and> tok_accepts ci t u \<and> glob_matches ci ts v)"
  unfolding rx_spec_tokens [symmetric]
  by (cases t) (auto simp: rx_spec_Cons rx_accepts_def tok_accepts_def rx_tok_def)

lemma tok_accepts_literal: "tok_accepts False (TLit c) u \<longleftrightarrow> u = [c]"
  by (auto simp: tok_accepts_def char_piece_iff canonicalize_def)

lemma glob_literal:
  "glob_matches False (map TLit p @ ts) w \<longleftrightarrow> (\<exists>v. w = p @ v \<and> glob_matches False ts v)"
proof (induction p arbitrary: w)
  case (Cons c p)
  then show ?case by (auto simp: glob_Cons tok_accepts_literal)
qed simp

lemma glob_Nil [simp]: "glob_matches ci [] w \<longleftrightarrow> w = []"
  by (simp add: glob_matches_def)

lemma glob_star [simp]: "glob_matches ci [TStar] w"
  by (auto simp: glob_Cons tok_accepts_def intro: exI [of _ w])

lemma safe_literal: "CHR 0x00 \<notin> set p \<Longrightarrow> safe_tokens (map TLit p @ ts) = safe_tokens ts"
  by (induction p) auto

lemma wildcard_semantics_witness:
  "matchWildcardPattern ''git push *'' ''git push'' False \<and>
   matchWildcardPattern ''git push *'' ''git push -f'' False \<and>
   \<not> matchWildcardPattern ''git push *'' ''git pushy'' False"
proof -
  have t: "tokens (js_trim ''git push *'') = map TLit ''git push'' @ [TLit (CHR '' ''), TStar]"
    by code_simp
  have s: "safe_tokens (tokens (js_trim ''git push *''))" by code_simp
  note m = wildcard_semantics [OF s, of _ False, unfolded t]
  show ?thesis
    using glob_literal [of "''git push''" "[]"] glob_literal [of "''git push ''" "[TStar]"]
    by (simp add: m)
qed

text \<open>
  A rule that ends in a space and a star means the same as the historical prefix rule for the
  text before it.  For a text without star, backslash or NUL that does not begin with white space,
  the rule is classified as a wildcard, and (case-sensitively) it matches the text alone and every
  command that continues it after a space, and nothing else: it never matches a longer word.
\<close>

theorem trailing_wildcard:
  assumes "p \<noteq> []" "\<not> is_js_space (hd p)" "set p \<inter> {CHR ''*'', BS, CHR 0x00} = {}"
  shows "parsePermissionRule (p @ '' *'') = Wildcard (p @ '' *'') \<and>
    (matchWildcardPattern (p @ '' *'') cmd False \<longleftrightarrow>
       cmd = p \<or> (\<exists>args. cmd = p @ '' '' @ args))"
proof
  let ?q = "p @ '' *''"
  have "backslashCount ?q (Suc (length p)) = 0"
    by (simp add: backslashCount.simps nth_append)
  then have "hasWildcards ?q"
    by (auto simp: hasWildcards_def ends_with_rev list_ex_iff nth_append intro!: bexI [of _ "Suc (length p)"])
  then show "parsePermissionRule ?q = Wildcard ?q"
    by (simp add: parsePermissionRule_def permissionRuleExtractPrefix_def ends_with_rev Let_def)
  have trim: "js_trim ?q = ?q"
    using assms(1,2) by (cases p) (simp_all add: js_trim_def is_js_space_def)
  have "map plain_tok p = map TLit p" using assms(3) by (auto simp: plain_tok_def)
  then have t: "tokens (js_trim ?q) = map TLit p @ [TLit (CHR '' ''), TStar]"
    using assms(3) by (simp add: trim tokens_plain plain_tok_def)
  have "safe_tokens (tokens (js_trim ?q))"
    using assms(3) by (simp add: t safe_literal)
  from wildcard_rx_matches [OF this, of cmd False]
  show "matchWildcardPattern ?q cmd False \<longleftrightarrow> cmd = p \<or> (\<exists>args. cmd = p @ '' '' @ args)"
    using glob_literal [of p "[]" cmd] glob_literal [of "p @ '' ''" "[TStar]" cmd]
    by (auto simp: t)
qed

lemma trailing_wildcard_witness:
  "parsePermissionRule ''npm run *'' = Wildcard ''npm run *'' \<and>
   matchWildcardPattern ''npm run *'' ''npm run build'' False \<and>
   \<not> matchWildcardPattern ''npm run *'' ''npm runx'' False"
  using trailing_wildcard [of "''npm run''" "''npm run build''"]
    trailing_wildcard [of "''npm run''" "''npm runx''"]
  by (simp add: is_js_space_def)

text \<open>
  Outside the safe patterns the placeholder scheme does confuse texts: a pattern of escaped
  backslashes around the literal word ESCAPED_STAR does not match the text it denotes.
\<close>

lemma placeholder_clash:
  "matchWildcardPattern ([BS, BS] @ ''ESCAPED_STAR'' @ [BS, BS]) (BS # ''ESCAPED_STAR'' @ [BS]) False
     = False"
  by code_simp

end
