(* ===== verification/Permission_Updates.thy ===== *)
theory Permission_Updates
  imports Shell_Rules "HOL-Library.AList"
begin

text \<open>
  The permission context of a session and the operations that change it:
  \<open>src/types/permissions.ts\<close> (types), \<open>src/utils/permissions/PermissionUpdate.ts\<close> (updates and
  their persistence), \<open>src/utils/permissions/permissionsLoader.ts\<close> (rules in settings files) and
  the editing operations of \<open>src/utils/permissions/permissions.ts\<close>.  Settings files are a store,
  a function from sources to file states; what the file system may refuse is an argument.
\<close>

section \<open>Types\<close>

datatype permission_mode =
  AcceptEdits | BypassPermissions | DefaultMode | DontAsk | PlanMode | AutoMode | BubbleMode

datatype permission_behavior = Allow | Deny | Ask

datatype rule_source =
  UserSettings | ProjectSettings | LocalSettings | FlagSettings | PolicySettings
  | CliArg | CommandSource | Session

record permission_rule =
  source :: rule_source
  ruleBehavior :: permission_behavior
  ruleValue :: rule_value

text \<open>
  A missing list of the code's partial record is read as \<open>[]\<close> everywhere (\<open>... || []\<close>), so the
  rules of a source are a list.  The working directories are a \<open>Map\<close>, the list of its entries in the
  order of insertion.
\<close>

type_synonym rules_by_source = "rule_source \<Rightarrow> string list"

record tool_context =
  mode :: permission_mode
  additionalWorkingDirectories :: "(string \<times> rule_source) list"
  alwaysAllowRules :: rules_by_source
  alwaysDenyRules :: rules_by_source
  alwaysAskRules :: rules_by_source
  isBypassPermissionsModeAvailable :: bool
  shouldAvoidPermissionPrompts :: bool
  prePlanMode :: "permission_mode option"
  strippedDangerousRules :: "rules_by_source option"
  isAutoModeAvailable :: "bool option"

definition getEmptyToolPermissionContext :: tool_context where
  "getEmptyToolPermissionContext =
     \<lparr>mode = DefaultMode, additionalWorkingDirectories = [], alwaysAllowRules = (\<lambda>_. []),
      alwaysDenyRules = (\<lambda>_. []), alwaysAskRules = (\<lambda>_. []),
      isBypassPermissionsModeAvailable = False, shouldAvoidPermissionPrompts = False,
      prePlanMode = None, strippedDangerousRules = None, isAutoModeAvailable = None\<rparr>"

text \<open>
  The destinations of an update are a subset of the sources in the code's types; the model takes
  the sources.
\<close>

datatype permission_update =
    AddRules rule_source "rule_value list" permission_behavior
  | ReplaceRules rule_source "rule_value list" permission_behavior
  | RemoveRules rule_source "rule_value list" permission_behavior
  | SetMode rule_source permission_mode
  | AddDirectories rule_source "string list"
  | RemoveDirectories rule_source "string list"

primrec update_destination :: "permission_update \<Rightarrow> rule_source" where
  "update_destination (AddRules d _ _) = d"
| "update_destination (ReplaceRules d _ _) = d"
| "update_destination (RemoveRules d _ _) = d"
| "update_destination (SetMode d _) = d"
| "update_destination (AddDirectories d _) = d"
| "update_destination (RemoveDirectories d _) = d"

section \<open>Updates of the context\<close>

definition extractRules :: "permission_update list option \<Rightarrow> rule_value list" where
  "extractRules updates =
     (case updates of None \<Rightarrow> []
      | Some us \<Rightarrow> concat (map (\<lambda>u. case u of AddRules _ rules _ \<Rightarrow> rules | _ \<Rightarrow> []) us))"

definition hasRules :: "permission_update list option \<Rightarrow> bool" where
  "hasRules updates \<longleftrightarrow> length (extractRules updates) > 0"

text \<open>\<open>context[ruleKind]\<close> and its update, \<open>ruleKind\<close> chosen from the behavior.\<close>

definition rules_of :: "tool_context \<Rightarrow> permission_behavior \<Rightarrow> rules_by_source" where
  "rules_of ctx b =
     (case b of Allow \<Rightarrow> alwaysAllowRules ctx | Deny \<Rightarrow> alwaysDenyRules ctx | Ask \<Rightarrow> alwaysAskRules ctx)"

definition set_rules :: "permission_behavior \<Rightarrow> rule_source \<Rightarrow> string list \<Rightarrow> tool_context \<Rightarrow> tool_context"
where
  "set_rules b d rs ctx =
     (case b of
        Allow \<Rightarrow> ctx\<lparr>alwaysAllowRules := (alwaysAllowRules ctx)(d := rs)\<rparr>
      | Deny \<Rightarrow> ctx\<lparr>alwaysDenyRules := (alwaysDenyRules ctx)(d := rs)\<rparr>
      | Ask \<Rightarrow> ctx\<lparr>alwaysAskRules := (alwaysAskRules ctx)(d := rs)\<rparr>)"

fun applyPermissionUpdate :: "tool_context \<Rightarrow> permission_update \<Rightarrow> tool_context" where
  "applyPermissionUpdate ctx (SetMode _ m) = ctx\<lparr>mode := m\<rparr>"
| "applyPermissionUpdate ctx (AddRules d rules b) =
     set_rules b d (rules_of ctx b d @ map permissionRuleValueToString rules) ctx"
| "applyPermissionUpdate ctx (ReplaceRules d rules b) =
     set_rules b d (map permissionRuleValueToString rules) ctx"
| "applyPermissionUpdate ctx (AddDirectories d dirs) =
     ctx\<lparr>additionalWorkingDirectories :=
           fold (\<lambda>dir m. AList.update dir d m) dirs (additionalWorkingDirectories ctx)\<rparr>"
| "applyPermissionUpdate ctx (RemoveRules d rules b) =
     (let rulesToRemove = map permissionRuleValueToString rules
      in set_rules b d (filter (\<lambda>r. r \<notin> set rulesToRemove) (rules_of ctx b d)) ctx)"
| "applyPermissionUpdate ctx (RemoveDirectories d dirs) =
     ctx\<lparr>additionalWorkingDirectories :=
           fold (\<lambda>dir m. AList.delete dir m) dirs (additionalWorkingDirectories ctx)\<rparr>"

definition applyPermissionUpdates :: "tool_context \<Rightarrow> permission_update list \<Rightarrow> tool_context" where
  "applyPermissionUpdates ctx updates = foldl applyPermissionUpdate ctx updates"

definition supportsPersistence :: "rule_source \<Rightarrow> bool" where
  "supportsPersistence d \<longleftrightarrow> d = LocalSettings \<or> d = UserSettings \<or> d = ProjectSettings"

text \<open>\<open>posix.isAbsolute\<close> is a test of the first character; \<open>toPosixPath\<close> is an argument.\<close>

definition createReadRuleSuggestion ::
  "(string \<Rightarrow> string) \<Rightarrow> string \<Rightarrow> rule_source \<Rightarrow> permission_update option" where
  "createReadRuleSuggestion toPosixPath dirPath destination =
     (let pathForPattern = toPosixPath dirPath
      in if pathForPattern = ''/'' then None
         else Some (AddRules destination
           [\<lparr>toolName = ''Read'',
             ruleContent = Some ((if starts_with ''/'' pathForPattern then ''/'' else []) @
               pathForPattern @ ''/**'')\<rparr>] Allow))"

definition suggestionForExactCommand :: "string \<Rightarrow> string \<Rightarrow> permission_update list" where
  "suggestionForExactCommand tool command =
     [AddRules LocalSettings [\<lparr>toolName = tool, ruleContent = Some command\<rparr>] Allow]"

definition suggestionForPrefix :: "string \<Rightarrow> string \<Rightarrow> permission_update list" where
  "suggestionForPrefix tool pre =
     [AddRules LocalSettings [\<lparr>toolName = tool, ruleContent = Some (pre @ '':*'')\<rparr>] Allow]"

section \<open>Settings files\<close>

record perms_json =
  p_allow :: "string list option"
  p_deny :: "string list option"
  p_ask :: "string list option"
  additionalDirectories :: "string list option"
  defaultMode :: "permission_mode option"

record settings_json =
  permissions :: "perms_json option"
  allowManagedPermissionRulesOnly :: "bool option"

text \<open>
  What a settings file holds: nothing, text that is not JSON, an object that the schema rejects
  (for a reason outside \<open>permissions\<close>), or settings.  Rules that \<open>filterInvalidPermissionRules\<close>
  drops on reading are taken as not in the file.
\<close>

datatype settings_file =
  FileAbsent | FileSyntaxError | FileRejected settings_json | FileValid settings_json

type_synonym settings_store = "rule_source \<Rightarrow> settings_file"

record settings_io =
  has_path :: "rule_source \<Rightarrow> bool"
  can_write :: "rule_source \<Rightarrow> bool"

definition no_perms :: perms_json where
  "no_perms = \<lparr>p_allow = None, p_deny = None, p_ask = None, additionalDirectories = None,
     defaultMode = None\<rparr>"

definition no_settings :: settings_json where
  "no_settings = \<lparr>permissions = None, allowManagedPermissionRulesOnly = None\<rparr>"

definition perm_list :: "permission_behavior \<Rightarrow> perms_json \<Rightarrow> string list option" where
  "perm_list b p = (case b of Allow \<Rightarrow> p_allow p | Deny \<Rightarrow> p_deny p | Ask \<Rightarrow> p_ask p)"

definition set_perm_list :: "permission_behavior \<Rightarrow> string list \<Rightarrow> perms_json \<Rightarrow> perms_json" where
  "set_perm_list b rs p =
     (case b of Allow \<Rightarrow> p\<lparr>p_allow := Some rs\<rparr> | Deny \<Rightarrow> p\<lparr>p_deny := Some rs\<rparr>
      | Ask \<Rightarrow> p\<lparr>p_ask := Some rs\<rparr>)"

definition getSettingsForSource :: "settings_store \<Rightarrow> rule_source \<Rightarrow> settings_json option" where
  "getSettingsForSource st src = (case st src of FileValid s \<Rightarrow> Some s | _ \<Rightarrow> None)"

definition getSettingsForSourceLenient :: "settings_store \<Rightarrow> rule_source \<Rightarrow> settings_json option" where
  "getSettingsForSourceLenient st src =
     (case st src of FileValid s \<Rightarrow> Some s | FileRejected s \<Rightarrow> Some s | _ \<Rightarrow> None)"

text \<open>
  \<open>mergeWith\<close>: a key that is present replaces (arrays and plain values alike); the objects
  \<open>permissions\<close> are merged key by key.
\<close>

definition or_old :: "'a option \<Rightarrow> 'a option \<Rightarrow> 'a option" where
  "or_old new old = (case new of None \<Rightarrow> old | Some x \<Rightarrow> Some x)"

definition merge_perms :: "perms_json \<Rightarrow> perms_json \<Rightarrow> perms_json" where
  "merge_perms old new =
     \<lparr>p_allow = or_old (p_allow new) (p_allow old), p_deny = or_old (p_deny new) (p_deny old),
      p_ask = or_old (p_ask new) (p_ask old),
      additionalDirectories = or_old (additionalDirectories new) (additionalDirectories old),
      defaultMode = or_old (defaultMode new) (defaultMode old)\<rparr>"

definition merge_settings :: "settings_json \<Rightarrow> settings_json \<Rightarrow> settings_json" where
  "merge_settings old new =
     \<lparr>permissions = (case permissions new of None \<Rightarrow> permissions old
        | Some np \<Rightarrow> Some (case permissions old of None \<Rightarrow> np | Some p \<Rightarrow> merge_perms p np)),
      allowManagedPermissionRulesOnly =
        or_old (allowManagedPermissionRulesOnly new) (allowManagedPermissionRulesOnly old)\<rparr>"

text \<open>The result is the code's \<open>error === null\<close> with the store afterwards.\<close>

definition updateSettingsForSource ::
  "settings_io \<Rightarrow> settings_store \<Rightarrow> rule_source \<Rightarrow> settings_json \<Rightarrow> bool \<times> settings_store" where
  "updateSettingsForSource io st src s =
     (if src = PolicySettings \<or> src = FlagSettings then (True, st)
      else if \<not> has_path io src then (True, st)
      else if st src = FileSyntaxError \<or> \<not> can_write io src then (False, st)
      else (True, st(src :=
        (case st src of
           FileValid old \<Rightarrow> FileValid (merge_settings old s)
         | FileRejected old \<Rightarrow> FileRejected (merge_settings old s)
         | _ \<Rightarrow> FileValid (merge_settings no_settings s)))))"

section \<open>Rules in settings files\<close>

definition shouldAllowManagedPermissionRulesOnly :: "settings_store \<Rightarrow> bool" where
  "shouldAllowManagedPermissionRulesOnly st \<longleftrightarrow>
     (case getSettingsForSource st PolicySettings of None \<Rightarrow> False
      | Some s \<Rightarrow> allowManagedPermissionRulesOnly s = Some True)"

definition shouldShowAlwaysAllowOptions :: "settings_store \<Rightarrow> bool" where
  "shouldShowAlwaysAllowOptions st \<longleftrightarrow> \<not> shouldAllowManagedPermissionRulesOnly st"

definition SUPPORTED_RULE_BEHAVIORS :: "permission_behavior list" where
  "SUPPORTED_RULE_BEHAVIORS = [Allow, Deny, Ask]"

definition settingsJsonToRules ::
  "features \<Rightarrow> settings_json option \<Rightarrow> rule_source \<Rightarrow> permission_rule list" where
  "settingsJsonToRules fl data src =
     (case Option.bind data permissions of None \<Rightarrow> []
      | Some p \<Rightarrow> concat (map (\<lambda>b. case perm_list b p of None \<Rightarrow> []
          | Some rs \<Rightarrow> map (\<lambda>r. \<lparr>source = src, ruleBehavior = b,
              ruleValue = permissionRuleValueFromString fl r\<rparr>) rs) SUPPORTED_RULE_BEHAVIORS))"

definition getPermissionRulesForSource ::
  "features \<Rightarrow> settings_store \<Rightarrow> rule_source \<Rightarrow> permission_rule list" where
  "getPermissionRulesForSource fl st src = settingsJsonToRules fl (getSettingsForSource st src) src"

text \<open>The enabled sources are an argument (\<open>getEnabledSettingSources\<close>).\<close>

definition loadAllPermissionRulesFromDisk ::
  "features \<Rightarrow> rule_source list \<Rightarrow> settings_store \<Rightarrow> permission_rule list" where
  "loadAllPermissionRulesFromDisk fl enabled st =
     (if shouldAllowManagedPermissionRulesOnly st
      then getPermissionRulesForSource fl st PolicySettings
      else concat (map (getPermissionRulesForSource fl st) enabled))"

definition EDITABLE_SOURCES :: "rule_source list" where
  "EDITABLE_SOURCES = [UserSettings, ProjectSettings, LocalSettings]"

definition normalizeEntry :: "features \<Rightarrow> string \<Rightarrow> string" where
  "normalizeEntry fl raw = permissionRuleValueToString (permissionRuleValueFromString fl raw)"

definition deletePermissionRuleFromSettings ::
  "features \<Rightarrow> settings_io \<Rightarrow> settings_store \<Rightarrow> permission_rule \<Rightarrow> bool \<times> settings_store" where
  "deletePermissionRuleFromSettings fl io st rule =
     (if source rule \<notin> set EDITABLE_SOURCES then (False, st)
      else
        (let ruleString = permissionRuleValueToString (ruleValue rule)
         in case getSettingsForSource st (source rule) of None \<Rightarrow> (False, st)
            | Some settingsData \<Rightarrow>
          (case permissions settingsData of None \<Rightarrow> (False, st)
            | Some p \<Rightarrow>
          (case perm_list (ruleBehavior rule) p of None \<Rightarrow> (False, st)
            | Some behaviorArray \<Rightarrow>
                if \<not> list_ex (\<lambda>raw. normalizeEntry fl raw = ruleString) behaviorArray then (False, st)
                else updateSettingsForSource io st (source rule)
                  (settingsData\<lparr>permissions := Some (set_perm_list (ruleBehavior rule)
                     (filter (\<lambda>raw. normalizeEntry fl raw \<noteq> ruleString) behaviorArray) p)\<rparr>)))))"

definition addPermissionRulesToSettings ::
  "features \<Rightarrow> settings_io \<Rightarrow> settings_store \<Rightarrow> rule_value list \<Rightarrow> permission_behavior \<Rightarrow> rule_source
     \<Rightarrow> bool \<times> settings_store" where
  "addPermissionRulesToSettings fl io st ruleValues behavior src =
     (if shouldAllowManagedPermissionRulesOnly st then (False, st)
      else if length ruleValues < 1 then (True, st)
      else
        (let ruleStrings = map permissionRuleValueToString ruleValues;
             settingsData =
               (case getSettingsForSource st src of Some s \<Rightarrow> s | None \<Rightarrow>
                 (case getSettingsForSourceLenient st src of Some s \<Rightarrow> s
                    | None \<Rightarrow> no_settings\<lparr>permissions := Some no_perms\<rparr>));
             existingPermissions = (case permissions settingsData of None \<Rightarrow> no_perms | Some p \<Rightarrow> p);
             existingRules = (case perm_list behavior existingPermissions of None \<Rightarrow> [] | Some r \<Rightarrow> r);
             existingRulesSet = map (normalizeEntry fl) existingRules;
             newRules = filter (\<lambda>r. r \<notin> set existingRulesSet) ruleStrings
         in if newRules = [] then (True, st)
            else updateSettingsForSource io st src
              (settingsData\<lparr>permissions :=
                 Some (set_perm_list behavior (existingRules @ newRules) existingPermissions)\<rparr>)))"

text \<open>\<open>existingSettings?.permissions?.additionalDirectories || []\<close> and its siblings.\<close>

definition existing_perms :: "settings_store \<Rightarrow> rule_source \<Rightarrow> perms_json" where
  "existing_perms st src =
     (case Option.bind (getSettingsForSource st src) permissions of None \<Rightarrow> no_perms | Some p \<Rightarrow> p)"

definition or_empty :: "'a list option \<Rightarrow> 'a list" where
  "or_empty xs = (case xs of None \<Rightarrow> [] | Some r \<Rightarrow> r)"

definition write_perms :: "settings_io \<Rightarrow> settings_store \<Rightarrow> rule_source \<Rightarrow> perms_json \<Rightarrow> settings_store"
where
  "write_perms io st src p = snd (updateSettingsForSource io st src (no_settings\<lparr>permissions := Some p\<rparr>))"

definition persistPermissionUpdate ::
  "features \<Rightarrow> settings_io \<Rightarrow> settings_store \<Rightarrow> permission_update \<Rightarrow> settings_store" where
  "persistPermissionUpdate fl io st update =
     (if \<not> supportsPersistence (update_destination update) then st
      else case update of
        AddRules d rules b \<Rightarrow> snd (addPermissionRulesToSettings fl io st rules b d)
      | AddDirectories d dirs \<Rightarrow>
          (let existingDirs = or_empty (additionalDirectories (existing_perms st d));
               dirsToAdd = filter (\<lambda>dir. dir \<notin> set existingDirs) dirs
           in if length dirsToAdd > 0
              then write_perms io st d
                (no_perms\<lparr>additionalDirectories := Some (existingDirs @ dirsToAdd)\<rparr>)
              else st)
      | RemoveRules d rules b \<Rightarrow>
          (let existingRules = or_empty (perm_list b (existing_perms st d));
               rulesToRemove = map permissionRuleValueToString rules
           in write_perms io st d (set_perm_list b
                (filter (\<lambda>r. normalizeEntry fl r \<notin> set rulesToRemove) existingRules) no_perms))
      | RemoveDirectories d dirs \<Rightarrow>
          (let existingDirs = or_empty (additionalDirectories (existing_perms st d))
           in write_perms io st d (no_perms\<lparr>additionalDirectories :=
                Some (filter (\<lambda>dir. dir \<notin> set dirs) existingDirs)\<rparr>))
      | SetMode d m \<Rightarrow> write_perms io st d (no_perms\<lparr>defaultMode := Some m\<rparr>)
      | ReplaceRules d rules b \<Rightarrow>
          write_perms io st d (set_perm_list b (map permissionRuleValueToString rules) no_perms))"

definition persistPermissionUpdates ::
  "features \<Rightarrow> settings_io \<Rightarrow> settings_store \<Rightarrow> permission_update list \<Rightarrow> settings_store" where
  "persistPermissionUpdates fl io st updates = foldl (persistPermissionUpdate fl io) st updates"

section \<open>Editing operations on a session\<close>

text \<open>\<open>Inl\<close> is the thrown error; otherwise the context and the store afterwards.\<close>

definition deletePermissionRule ::
  "features \<Rightarrow> settings_io \<Rightarrow> settings_store \<Rightarrow> permission_rule \<Rightarrow> tool_context
     \<Rightarrow> string + (tool_context \<times> settings_store)" where
  "deletePermissionRule fl io st rule initialContext =
     (if source rule = PolicySettings \<or> source rule = FlagSettings \<or> source rule = CommandSource
      then Inl ''Cannot delete permission rules from read-only settings''
      else
        (let updatedContext = applyPermissionUpdate initialContext
               (RemoveRules (source rule) [ruleValue rule] (ruleBehavior rule))
         in Inr (updatedContext,
              if source rule \<in> {LocalSettings, UserSettings, ProjectSettings}
              then snd (deletePermissionRuleFromSettings fl io st rule) else st)))"

text \<open>The \<open>Map\<close> keyed by source and behavior, in insertion order.\<close>

fun group_rule ::
  "((rule_source \<times> permission_behavior) \<times> rule_value list) list \<Rightarrow> permission_rule
     \<Rightarrow> ((rule_source \<times> permission_behavior) \<times> rule_value list) list" where
  "group_rule [] rule = [((source rule, ruleBehavior rule), [ruleValue rule])]"
| "group_rule ((k, vs) # g) rule =
     (if k = (source rule, ruleBehavior rule) then (k, vs @ [ruleValue rule]) # g
      else (k, vs) # group_rule g rule)"

definition group_rules ::
  "permission_rule list \<Rightarrow> ((rule_source \<times> permission_behavior) \<times> rule_value list) list" where
  "group_rules rules = foldl group_rule [] rules"

definition convertRulesToUpdates :: "permission_rule list \<Rightarrow> bool \<Rightarrow> permission_update list" where
  "convertRulesToUpdates rules add =
     map (\<lambda>((src, b), vs). if add then AddRules src vs b else ReplaceRules src vs b)
       (group_rules rules)"

definition applyPermissionRulesToPermissionContext ::
  "tool_context \<Rightarrow> permission_rule list \<Rightarrow> tool_context" where
  "applyPermissionRulesToPermissionContext ctx rules =
     applyPermissionUpdates ctx (convertRulesToUpdates rules True)"

text \<open>The nested loops that clear sources; the order of the code.\<close>

definition clear_sources :: "rule_source list \<Rightarrow> tool_context \<Rightarrow> tool_context" where
  "clear_sources srcs ctx =
     foldl (\<lambda>c s. foldl (\<lambda>c' b. applyPermissionUpdate c' (ReplaceRules s [] b)) c
              SUPPORTED_RULE_BEHAVIORS) ctx srcs"

definition syncPermissionRulesFromDisk ::
  "settings_store \<Rightarrow> tool_context \<Rightarrow> permission_rule list \<Rightarrow> tool_context" where
  "syncPermissionRulesFromDisk st ctx rules =
     (let c1 = (if shouldAllowManagedPermissionRulesOnly st
                then clear_sources
                  [UserSettings, ProjectSettings, LocalSettings, CliArg, Session] ctx
                else ctx);
          c2 = clear_sources [UserSettings, ProjectSettings, LocalSettings] c1
      in applyPermissionUpdates c2 (convertRulesToUpdates rules False))"

section \<open>What the operations do to the rules\<close>

lemma rules_of_set_rules [simp]:
  "rules_of (set_rules b d rs ctx) b' = (if b = b' then (rules_of ctx b)(d := rs) else rules_of ctx b')"
  by (cases b; cases b') (simp_all add: rules_of_def set_rules_def)

lemma rules_of_frame [simp]:
  "rules_of (ctx\<lparr>mode := m\<rparr>) b = rules_of ctx b"
  "rules_of (ctx\<lparr>additionalWorkingDirectories := a\<rparr>) b = rules_of ctx b"
  by (simp_all add: rules_of_def split: permission_behavior.splits)

lemma clear_sources_rules:
  "rules_of (clear_sources srcs ctx) b s = (if s \<in> set srcs then [] else rules_of ctx b s)"
  unfolding clear_sources_def
  by (induction srcs arbitrary: ctx) (cases b; auto simp: SUPPORTED_RULE_BEHAVIORS_def)+

definition rules_for :: "rule_source \<Rightarrow> permission_behavior \<Rightarrow> permission_rule list \<Rightarrow> rule_value list" where
  "rules_for s b rules = map ruleValue (filter (\<lambda>r. source r = s \<and> ruleBehavior r = b) rules)"

lemma rules_for_append: "rules_for s b (xs @ ys) = rules_for s b xs @ rules_for s b ys"
  by (simp add: rules_for_def)

lemma map_of_group_rule:
  "map_of (group_rule g r) k =
     (if k = (source r, ruleBehavior r)
      then Some ((case map_of g k of None \<Rightarrow> [] | Some vs \<Rightarrow> vs) @ [ruleValue r]) else map_of g k)"
  by (induction g r rule: group_rule.induct) auto

lemma keys_group_rule:
  "map fst (group_rule g r) =
     (if (source r, ruleBehavior r) \<in> fst ` set g then map fst g
      else map fst g @ [(source r, ruleBehavior r)])"
  by (induction g r rule: group_rule.induct) auto

lemma group_rules_map_of:
  "map_of (group_rules rules) (s, b) =
     (if rules_for s b rules = [] then None else Some (rules_for s b rules))"
proof (induction rules rule: rev_induct)
  case Nil
  show ?case by (simp add: group_rules_def rules_for_def)
next
  case (snoc r rules)
  then show ?case
    by (auto simp: group_rules_def map_of_group_rule rules_for_append) (simp_all add: rules_for_def)
qed

lemma group_rules_distinct: "distinct (map fst (group_rules rules))"
proof (induction rules rule: rev_induct)
  case (snoc r rules)
  then show ?case by (auto simp: group_rules_def keys_group_rule)
qed (simp add: group_rules_def)

definition group_updates ::
  "bool \<Rightarrow> ((rule_source \<times> permission_behavior) \<times> rule_value list) list \<Rightarrow> permission_update list" where
  "group_updates add g = map (\<lambda>((src, b), vs). if add then AddRules src vs b else ReplaceRules src vs b) g"

lemma apply_group_updates:
  "distinct (map fst g) \<Longrightarrow>
     rules_of (foldl applyPermissionUpdate ctx (group_updates add g)) b s =
     (case map_of g (s, b) of None \<Rightarrow> rules_of ctx b s
      | Some vs \<Rightarrow> (if add then rules_of ctx b s else []) @ map permissionRuleValueToString vs)"
proof (induction g arbitrary: ctx)
  case (Cons e g)
  obtain s' b' vs where e: "e = ((s', b'), vs)" by (metis surj_pair)
  have "map_of g (s', b') = None" using Cons.prems e by (simp add: map_of_eq_None_iff)
  then show ?case using Cons by (auto simp: e group_updates_def split: option.splits)
qed (simp add: group_updates_def)

lemma convert_rules:
  "rules_of (applyPermissionUpdates ctx (convertRulesToUpdates rules add)) b s =
     (let new = map permissionRuleValueToString (rules_for s b rules)
      in if new = [] then rules_of ctx b s else (if add then rules_of ctx b s else []) @ new)"
  using apply_group_updates [OF group_rules_distinct [of rules], of ctx add b s]
  by (simp add: applyPermissionUpdates_def convertRulesToUpdates_def group_updates_def
      group_rules_map_of Let_def)

section \<open>What the operations do to the files\<close>

definition file_rules :: "settings_store \<Rightarrow> rule_source \<Rightarrow> permission_behavior \<Rightarrow> string list" where
  "file_rules st src b = or_empty (perm_list b (existing_perms st src))"

definition readable :: "settings_file \<Rightarrow> bool" where
  "readable f \<longleftrightarrow> (case f of FileAbsent \<Rightarrow> True | FileValid _ \<Rightarrow> True | _ \<Rightarrow> False)"

lemma perm_list_set [simp]:
  "perm_list b (set_perm_list b' rs p) = (if b = b' then Some rs else perm_list b p)"
  by (cases b; cases b') (simp_all add: perm_list_def set_perm_list_def)

lemma perm_list_merge [simp]: "perm_list b (merge_perms old new) = or_old (perm_list b new) (perm_list b old)"
  by (cases b) (simp_all add: perm_list_def merge_perms_def)

lemma perm_list_none [simp]: "perm_list b no_perms = None"
  by (cases b) (simp_all add: perm_list_def no_perms_def)

lemma perm_list_frame [simp]:
  "perm_list b (p\<lparr>additionalDirectories := a\<rparr>) = perm_list b p"
  "perm_list b (p\<lparr>defaultMode := m\<rparr>) = perm_list b p"
  by (cases b; simp add: perm_list_def)+

lemma or_old_simps [simp]: "or_old None x = x" "or_old (Some y) x = Some y"
  by (simp_all add: or_old_def)

text \<open>The rule lists of a file after a write that carries permissions.\<close>

lemma file_rules_update:
  assumes "readable (st d)" "has_path io d" "can_write io d" "d \<in> set EDITABLE_SOURCES"
    and "permissions s = Some p"
  shows "file_rules (snd (updateSettingsForSource io st d s)) d' b =
    (if d' = d then (case perm_list b p of None \<Rightarrow> file_rules st d b | Some rs \<Rightarrow> rs)
     else file_rules st d' b)"
proof -
  have "d \<noteq> PolicySettings" "d \<noteq> FlagSettings" using assms(4) by (auto simp: EDITABLE_SOURCES_def)
  then show ?thesis using assms
    by (cases "st d")
      (auto simp: updateSettingsForSource_def file_rules_def existing_perms_def getSettingsForSource_def
        merge_settings_def no_settings_def readable_def or_empty_def split: option.splits)
qed

lemma update_readable:
  "readable (st d') \<Longrightarrow> readable (snd (updateSettingsForSource io st d s) d')"
  by (cases "st d'") (auto simp: updateSettingsForSource_def readable_def split: settings_file.splits)

lemma update_policy:
  "snd (updateSettingsForSource io st d s) PolicySettings = st PolicySettings"
  by (auto simp: updateSettingsForSource_def)

lemma editable_iff: "supportsPersistence d \<longleftrightarrow> d \<in> set EDITABLE_SOURCES"
  by (auto simp: supportsPersistence_def EDITABLE_SOURCES_def)

section \<open>Properties\<close>

text \<open>
  What a settings change does to the rules of a session.  After
  \<open>syncPermissionRulesFromDisk\<close> the rules of every source and behavior are the loaded ones, in
  order and printed; where nothing is loaded the editable sources are empty (and, under managed
  rules only, the command line and session rules), while every other source keeps the rules it
  had: a policy or flag rule that was removed from its file stays in force.
\<close>

theorem sync_rules:
  "rules_of (syncPermissionRulesFromDisk st ctx rules) b s =
    (let loaded = map permissionRuleValueToString (rules_for s b rules)
     in if loaded \<noteq> [] then loaded
        else if s \<in> {UserSettings, ProjectSettings, LocalSettings} then []
        else if shouldAllowManagedPermissionRulesOnly st \<and> s \<in> {CliArg, Session} then []
        else rules_of ctx b s)"
  by (auto simp: syncPermissionRulesFromDisk_def convert_rules clear_sources_rules Let_def)

definition in_sync :: "features \<Rightarrow> tool_context \<Rightarrow> settings_store \<Rightarrow> bool" where
  "in_sync fl ctx st \<longleftrightarrow>
     (\<forall>d\<in>set EDITABLE_SOURCES. \<forall>b. set (rules_of ctx b d) = normalizeEntry fl ` set (file_rules st d b))"

definition writable_store :: "settings_io \<Rightarrow> settings_store \<Rightarrow> bool" where
  "writable_store io st \<longleftrightarrow> \<not> shouldAllowManagedPermissionRulesOnly st \<and>
     (\<forall>d\<in>set EDITABLE_SOURCES. has_path io d \<and> can_write io d \<and> readable (st d))"

definition update_rules :: "permission_update \<Rightarrow> rule_value list" where
  "update_rules u = (case u of AddRules _ rs _ \<Rightarrow> rs | ReplaceRules _ rs _ \<Rightarrow> rs
     | RemoveRules _ rs _ \<Rightarrow> rs | _ \<Rightarrow> [])"

definition normal_update :: "features \<Rightarrow> permission_update \<Rightarrow> bool" where
  "normal_update fl u \<longleftrightarrow> (\<forall>v\<in>set (update_rules u). normal_rule fl v)"

lemma normalize_printed:
  "normal_rule fl v \<Longrightarrow> normalizeEntry fl (permissionRuleValueToString v) = permissionRuleValueToString v"
  by (simp add: normalizeEntry_def parse_print)

lemma normalize_printed_set:
  "\<forall>v\<in>set vs. normal_rule fl v \<Longrightarrow>
     normalizeEntry fl ` set (map permissionRuleValueToString vs) = set (map permissionRuleValueToString vs)"
  by (force simp: normalize_printed image_iff)

lemma write_perms_rules:
  assumes "writable_store io st" "d \<in> set EDITABLE_SOURCES"
  shows "file_rules (write_perms io st d p) d' b =
    (if d' = d then (case perm_list b p of None \<Rightarrow> file_rules st d b | Some rs \<Rightarrow> rs)
     else file_rules st d' b)"
  using assms unfolding write_perms_def writable_store_def
  by (intro file_rules_update) (auto simp: no_settings_def)

lemma add_rules_file:
  assumes "writable_store io st" "d \<in> set EDITABLE_SOURCES"
  shows "file_rules (snd (addPermissionRulesToSettings fl io st vs b d)) d' b' =
    file_rules st d' b' @
    (if d' = d \<and> b' = b
     then filter (\<lambda>r. r \<notin> normalizeEntry fl ` set (file_rules st d b)) (map permissionRuleValueToString vs)
     else [])"
proof (cases "vs = []")
  case True
  then show ?thesis using assms by (simp add: addPermissionRulesToSettings_def writable_store_def)
next
  case False
  have rd: "readable (st d)" "has_path io d" "can_write io d" "\<not> shouldAllowManagedPermissionRulesOnly st"
    using assms by (auto simp: writable_store_def)
  define S where "S = (case getSettingsForSource st d of Some s \<Rightarrow> s
    | None \<Rightarrow> no_settings\<lparr>permissions := Some no_perms\<rparr>)"
  define P where "P = (case permissions S of None \<Rightarrow> no_perms | Some p \<Rightarrow> p)"
  have len: "(getSettingsForSource st d = None) \<Longrightarrow> getSettingsForSourceLenient st d = None"
    using rd by (cases "st d") (auto simp: getSettingsForSource_def getSettingsForSourceLenient_def readable_def)
  have P: "existing_perms st d = P"
    by (auto simp: existing_perms_def P_def S_def no_settings_def split: option.splits)
  then have F: "or_empty (perm_list c P) = file_rules st d c" for c
    by (simp add: file_rules_def)
  define new where "new = filter (\<lambda>r. r \<notin> normalizeEntry fl ` set (file_rules st d b))
    (map permissionRuleValueToString vs)"
  have A: "addPermissionRulesToSettings fl io st vs b d =
      (if new = [] then (True, st)
       else updateSettingsForSource io st d
         (S\<lparr>permissions := Some (set_perm_list b (file_rules st d b @ new) P)\<rparr>))"
    using rd False len
    by (auto simp: addPermissionRulesToSettings_def Let_def new_def F [symmetric] or_empty_def S_def P_def
        split: option.splits)
  show ?thesis
    unfolding A using rd assms(2) F [of b] F [of b']
    by (auto simp: file_rules_update new_def [symmetric] or_empty_def split: option.splits)
qed

lemma store_kept:
  assumes "writable_store io st"
  shows "writable_store io (persistPermissionUpdate fl io st u)"
proof -
  have upd: "writable_store io (snd (updateSettingsForSource io st d s))" for d s
    using assms update_policy [of io st d s]
    by (auto simp: writable_store_def update_readable shouldAllowManagedPermissionRulesOnly_def
        getSettingsForSource_def)
  have "writable_store io (snd (addPermissionRulesToSettings fl io st vs b d))" for vs b d
    using assms upd by (auto simp: addPermissionRulesToSettings_def Let_def)
  then show ?thesis using assms upd
    by (auto simp: persistPermissionUpdate_def write_perms_def Let_def split: permission_update.splits)
qed

lemma persist_step:
  assumes "in_sync fl ctx st" "writable_store io st" "normal_update fl u"
  shows "in_sync fl (applyPermissionUpdate ctx u) (persistPermissionUpdate fl io st u)"
proof (cases "supportsPersistence (update_destination u)")
  case False
  then have nd: "update_destination u \<notin> set EDITABLE_SOURCES" by (simp add: editable_iff)
  then have "rules_of (applyPermissionUpdate ctx u) b d = rules_of ctx b d"
    if "d \<in> set EDITABLE_SOURCES" for b d
    using that by (cases u) auto
  then show ?thesis using assms(1) False by (simp add: in_sync_def persistPermissionUpdate_def)
next
  case True
  then have d: "update_destination u \<in> set EDITABLE_SOURCES" by (simp add: editable_iff)
  show ?thesis
  proof (cases u)
    case (AddRules e vs c)
    let ?S = "map permissionRuleValueToString vs"
    have n: "normalizeEntry fl r = r" if "r \<in> set ?S" for r
      using that AddRules assms(3) by (auto simp: normal_update_def update_rules_def normalize_printed)
    have "normalizeEntry fl ` set (filter (\<lambda>r. r \<notin> X) ?S) = set ?S - X" for X
      using n by (force simp: image_iff)
    then show ?thesis using AddRules True d assms(1,2)
      by (auto simp: in_sync_def persistPermissionUpdate_def add_rules_file image_Un)
  next
    case (ReplaceRules e vs c)
    then have "normalizeEntry fl ` set (map permissionRuleValueToString vs) = set (map permissionRuleValueToString vs)"
      using assms(3) by (intro normalize_printed_set) (auto simp: normal_update_def update_rules_def)
    then show ?thesis using ReplaceRules True d assms(1,2)
      by (auto simp: in_sync_def persistPermissionUpdate_def write_perms_rules)
  next
    case (RemoveRules e vs c)
    then show ?thesis using True d assms(1,2)
      by (auto simp: in_sync_def persistPermissionUpdate_def write_perms_rules Let_def
          file_rules_def [symmetric])
  qed (use True d assms in \<open>simp_all add: in_sync_def persistPermissionUpdate_def write_perms_rules Let_def\<close>)
qed

text \<open>Directories and the default mode of a file: what an update does to them, and that it does.\<close>

definition file_directories :: "settings_store \<Rightarrow> rule_source \<Rightarrow> string list" where
  "file_directories st d = or_empty (additionalDirectories (existing_perms st d))"

definition file_mode :: "settings_store \<Rightarrow> rule_source \<Rightarrow> permission_mode option" where
  "file_mode st d = defaultMode (existing_perms st d)"

fun directories_after :: "rule_source \<Rightarrow> permission_update \<Rightarrow> string set \<Rightarrow> string set" where
  "directories_after d (AddDirectories e dirs) X = (if e = d then X \<union> set dirs else X)"
| "directories_after d (RemoveDirectories e dirs) X = (if e = d then X - set dirs else X)"
| "directories_after d _ X = X"

fun mode_after :: "rule_source \<Rightarrow> permission_update \<Rightarrow> permission_mode option \<Rightarrow> permission_mode option" where
  "mode_after d (SetMode e m) old = (if e = d then Some m else old)"
| "mode_after d _ old = old"

text \<open>A directory that the session has from an editable source is in the file of that source.\<close>

definition directories_saved :: "tool_context \<Rightarrow> settings_store \<Rightarrow> bool" where
  "directories_saved ctx st \<longleftrightarrow>
     (\<forall>dir d. map_of (additionalWorkingDirectories ctx) dir = Some d \<longrightarrow> d \<in> set EDITABLE_SOURCES \<longrightarrow>
        dir \<in> set (file_directories st d))"

lemma merge_no_perms: "merge_perms no_perms p = p"
  by (simp add: merge_perms_def no_perms_def or_old_def split: option.splits)

lemma update_perms:
  assumes "readable (st d)" "has_path io d" "can_write io d" "d \<in> set EDITABLE_SOURCES"
    and "permissions s = Some p"
  shows "existing_perms (snd (updateSettingsForSource io st d s)) d' =
    (if d' = d then merge_perms (existing_perms st d) p else existing_perms st d')"
proof -
  have "d \<noteq> PolicySettings" "d \<noteq> FlagSettings" using assms(4) by (auto simp: EDITABLE_SOURCES_def)
  then show ?thesis using assms
    by (cases "st d")
      (auto simp: updateSettingsForSource_def existing_perms_def getSettingsForSource_def merge_no_perms
        merge_settings_def no_settings_def readable_def split: option.splits)
qed

lemma write_perms_perms:
  assumes "writable_store io st" "d \<in> set EDITABLE_SOURCES"
  shows "existing_perms (write_perms io st d p) d' =
    (if d' = d then merge_perms (existing_perms st d) p else existing_perms st d')"
  using assms unfolding write_perms_def writable_store_def by (intro update_perms) (auto simp: no_settings_def)

lemma set_perm_list_frame [simp]:
  "additionalDirectories (set_perm_list b rs p) = additionalDirectories p"
  "defaultMode (set_perm_list b rs p) = defaultMode p"
  by (cases b; simp add: set_perm_list_def)+

lemma no_perms_fields [simp]: "additionalDirectories no_perms = None" "defaultMode no_perms = None"
  by (simp_all add: no_perms_def)

lemma merge_perms_fields [simp]:
  "additionalDirectories (merge_perms old new) = or_old (additionalDirectories new) (additionalDirectories old)"
  "defaultMode (merge_perms old new) = or_old (defaultMode new) (defaultMode old)"
  by (simp_all add: merge_perms_def)

lemma add_rules_frame:
  assumes "writable_store io st" "d \<in> set EDITABLE_SOURCES"
  shows "file_directories (snd (addPermissionRulesToSettings fl io st vs b d)) d' = file_directories st d' \<and>
    file_mode (snd (addPermissionRulesToSettings fl io st vs b d)) d' = file_mode st d'"
proof -
  define S where "S = (case getSettingsForSource st d of Some s \<Rightarrow> s
      | None \<Rightarrow> (case getSettingsForSourceLenient st d of Some s \<Rightarrow> s | None \<Rightarrow> no_settings\<lparr>permissions := Some no_perms\<rparr>))"
  define P where "P = (case permissions S of None \<Rightarrow> no_perms | Some p \<Rightarrow> p)"
  define old where "old = (case perm_list b P of None \<Rightarrow> [] | Some r \<Rightarrow> r)"
  have rd: "readable (st d)" "has_path io d" "can_write io d" using assms by (auto simp: writable_store_def)
  have P: "existing_perms st d = P"
    using rd(1) unfolding P_def S_def
    by (cases "st d") (auto simp: existing_perms_def getSettingsForSource_def getSettingsForSourceLenient_def
        readable_def no_settings_def split: option.splits)
  define new where "new = filter (\<lambda>r. r \<notin> set (map (normalizeEntry fl) old)) (map permissionRuleValueToString vs)"
  have "addPermissionRulesToSettings fl io st vs b d =
      (if shouldAllowManagedPermissionRulesOnly st then (False, st)
       else if length vs < 1 then (True, st)
       else if new = [] then (True, st)
       else updateSettingsForSource io st d (S\<lparr>permissions := Some (set_perm_list b (old @ new) P)\<rparr>))"
    unfolding addPermissionRulesToSettings_def Let_def new_def old_def P_def S_def by (rule refl)
  then have two: "snd (addPermissionRulesToSettings fl io st vs b d) = st \<or>
      snd (addPermissionRulesToSettings fl io st vs b d) =
        snd (updateSettingsForSource io st d (S\<lparr>permissions := Some (set_perm_list b (old @ new) P)\<rparr>))"
    by (simp split: if_splits)
  have p: "permissions (S\<lparr>permissions := Some (set_perm_list b (old @ new) P)\<rparr>) = Some (set_perm_list b (old @ new) P)"
    by simp
  show ?thesis
    using two update_perms [where st = st and d = d, OF rd assms(2) p, of d'] P
    by (auto simp: file_directories_def file_mode_def or_old_def split: option.splits)
qed

lemma directories_step:
  assumes "writable_store io st" "d \<in> set EDITABLE_SOURCES"
  shows "set (file_directories (persistPermissionUpdate fl io st u) d) = directories_after d u (set (file_directories st d))"
    and "file_mode (persistPermissionUpdate fl io st u) d = mode_after d u (file_mode st d)"
proof -
  have "set (file_directories (persistPermissionUpdate fl io st u) d) = directories_after d u (set (file_directories st d)) \<and>
    file_mode (persistPermissionUpdate fl io st u) d = mode_after d u (file_mode st d)"
  proof (cases "supportsPersistence (update_destination u)")
    case False
    then have "update_destination u \<noteq> d" using assms(2) editable_iff by auto
    then show ?thesis using False by (cases u) (auto simp: persistPermissionUpdate_def)
  next
    case True
    then have e: "update_destination u \<in> set EDITABLE_SOURCES" by (simp add: editable_iff)
    show ?thesis
    proof (cases u)
      case (AddRules e vs b)
      then show ?thesis using True e add_rules_frame [OF assms(1), of e fl vs b d] by (simp add: persistPermissionUpdate_def)
    next
      case (AddDirectories e dirs)
      let ?old = "file_directories st e"
      have "filter (\<lambda>dir. dir \<notin> set ?old) dirs = [] \<longleftrightarrow> set dirs \<subseteq> set ?old" by (auto simp: filter_empty_conv)
      then show ?thesis using AddDirectories True e assms(1)
        by (auto simp: persistPermissionUpdate_def file_directories_def file_mode_def write_perms_perms or_empty_def Let_def)
    qed (use True e assms(1) in \<open>auto simp: persistPermissionUpdate_def file_directories_def file_mode_def
           write_perms_perms or_empty_def Let_def\<close>)
  qed
  then show "set (file_directories (persistPermissionUpdate fl io st u) d) = directories_after d u (set (file_directories st d))"
    "file_mode (persistPermissionUpdate fl io st u) d = mode_after d u (file_mode st d)" by simp_all
qed

lemma fold_update: "map_of (fold (\<lambda>dir m. AList.update dir d m) dirs xs) k =
    (if k \<in> set dirs then Some d else map_of xs k)"
  by (induction dirs arbitrary: xs) (auto simp: update_conv)

lemma fold_delete: "map_of (fold (\<lambda>dir m. AList.delete dir m) dirs xs) k =
    (if k \<in> set dirs then None else map_of xs k)"
  by (induction dirs arbitrary: xs) (auto simp: delete_conv)

lemma saved_step:
  assumes "directories_saved ctx st" "writable_store io st"
  shows "directories_saved (applyPermissionUpdate ctx u) (persistPermissionUpdate fl io st u)"
proof -
  have frame: "additionalWorkingDirectories (set_rules b d rs ctx) = additionalWorkingDirectories ctx" for b d rs ctx
    by (cases b) (simp_all add: set_rules_def)
  show ?thesis
    unfolding directories_saved_def
  proof (intro allI impI)
    fix dir d
    assume "map_of (additionalWorkingDirectories (applyPermissionUpdate ctx u)) dir = Some d" "d \<in> set EDITABLE_SOURCES"
    then have "dir \<in> directories_after d u (set (file_directories st d))"
      using assms(1) by (cases u) (auto simp: directories_saved_def fold_update fold_delete frame Let_def split: if_splits)
    then show "dir \<in> set (file_directories (persistPermissionUpdate fl io st u) d)"
      using directories_step(1) [OF assms(2) \<open>d \<in> set EDITABLE_SOURCES\<close>] by simp
  qed
qed

lemma persist_steps:
  assumes "in_sync fl ctx st" "directories_saved ctx st" "writable_store io st" "\<forall>u\<in>set us. normal_update fl u"
  shows "in_sync fl (applyPermissionUpdates ctx us) (persistPermissionUpdates fl io st us) \<and>
    directories_saved (applyPermissionUpdates ctx us) (persistPermissionUpdates fl io st us) \<and>
    (\<forall>d\<in>set EDITABLE_SOURCES.
       set (file_directories (persistPermissionUpdates fl io st us) d) =
         fold (directories_after d) us (set (file_directories st d)) \<and>
       file_mode (persistPermissionUpdates fl io st us) d = fold (mode_after d) us (file_mode st d))"
  using assms
proof (induction us arbitrary: ctx st)
  case (Cons u us)
  let ?st = "persistPermissionUpdate fl io st u"
  have "in_sync fl (applyPermissionUpdate ctx u) ?st" using Cons.prems by (intro persist_step) auto
  moreover have "directories_saved (applyPermissionUpdate ctx u) ?st" using Cons.prems by (intro saved_step) auto
  moreover have "writable_store io ?st" using Cons.prems(3) by (rule store_kept)
  ultimately have "in_sync fl (applyPermissionUpdates (applyPermissionUpdate ctx u) us) (persistPermissionUpdates fl io ?st us) \<and>
    directories_saved (applyPermissionUpdates (applyPermissionUpdate ctx u) us) (persistPermissionUpdates fl io ?st us) \<and>
    (\<forall>d\<in>set EDITABLE_SOURCES.
       set (file_directories (persistPermissionUpdates fl io ?st us) d) =
         fold (directories_after d) us (set (file_directories ?st d)) \<and>
       file_mode (persistPermissionUpdates fl io ?st us) d = fold (mode_after d) us (file_mode ?st d))"
    using Cons.IH Cons.prems(4) by simp
  then show ?case using directories_step [OF Cons.prems(3)]
    by (simp add: applyPermissionUpdates_def persistPermissionUpdates_def)
qed (simp add: applyPermissionUpdates_def persistPermissionUpdates_def)


definition all_off :: features where
  "all_off = \<lparr>kairos = False, transcript_classifier = False, bash_classifier = False,
     powershell_auto_mode = False\<rparr>"

definition example_updates :: "permission_update list" where
  "example_updates = [AddRules UserSettings [tool_rule ''Bash''] Deny, AddDirectories LocalSettings [''/a'', ''/b''],
     SetMode UserSettings PlanMode, RemoveRules UserSettings [tool_rule ''Bash''] Deny, RemoveDirectories LocalSettings [''/a'']]"


text \<open>
  Deleting a rule is complete.  For a rule of an editable source that its settings file holds
  (in any spelling that normalises to it), the operation removes every such spelling from the file
  and the printed rule from the session, and leaves every other rule of the session and every
  other list of every file as it was; for a read-only source it fails instead.
\<close>

theorem delete_rule_complete:
  assumes "source rule \<in> set EDITABLE_SOURCES" "writable_store io st"
    and "permissionRuleValueToString (ruleValue rule) \<in>
      normalizeEntry fl ` set (file_rules st (source rule) (ruleBehavior rule))"
  shows "\<exists>ctx' st'. deletePermissionRule fl io st rule ctx = Inr (ctx', st') \<and>
    (\<forall>b s. rules_of ctx' b s =
       filter (\<lambda>r. \<not> (b = ruleBehavior rule \<and> s = source rule \<and>
                      r = permissionRuleValueToString (ruleValue rule))) (rules_of ctx b s)) \<and>
    (\<forall>b s. file_rules st' s b =
       filter (\<lambda>r. \<not> (b = ruleBehavior rule \<and> s = source rule \<and>
                      normalizeEntry fl r = permissionRuleValueToString (ruleValue rule)))
         (file_rules st s b))"
proof -
  let ?s = "source rule" and ?b = "ruleBehavior rule"
  let ?r = "permissionRuleValueToString (ruleValue rule)"
  have rd: "readable (st ?s)" "has_path io ?s" "can_write io ?s" using assms by (auto simp: writable_store_def)
  have ed: "?s \<in> {LocalSettings, UserSettings, ProjectSettings}" using assms(1) by (auto simp: EDITABLE_SOURCES_def)
  from assms(3) obtain S P A where S: "getSettingsForSource st ?s = Some S" "permissions S = Some P"
      "perm_list ?b P = Some A" "file_rules st ?s ?b = A"
    by (auto simp: file_rules_def existing_perms_def or_empty_def bind_eq_Some_conv
        split: option.splits) metis
  let ?new = "S\<lparr>permissions := Some (set_perm_list ?b (filter (\<lambda>raw. normalizeEntry fl raw \<noteq> ?r) A) P)\<rparr>"
  define st' where "st' = snd (updateSettingsForSource io st ?s ?new)"
  have "list_ex (\<lambda>raw. normalizeEntry fl raw = ?r) A"
    using assms(3) S(4) by (auto simp: list_ex_iff)
  then have del: "snd (deletePermissionRuleFromSettings fl io st rule) = st'"
    using S assms(1) by (simp add: deletePermissionRuleFromSettings_def st'_def)
  have P: "file_rules st ?s b = or_empty (perm_list b P)" for b
    using S by (simp add: file_rules_def existing_perms_def)
  have "\<forall>b s. file_rules st' s b = filter (\<lambda>r. \<not> (b = ?b \<and> s = ?s \<and> normalizeEntry fl r = ?r)) (file_rules st s b)"
    using rd assms(1) S P unfolding st'_def
    by (auto simp: file_rules_update or_empty_def split: option.splits)
  moreover have "deletePermissionRule fl io st rule ctx =
      Inr (applyPermissionUpdate ctx (RemoveRules ?s [ruleValue rule] ?b), st')"
    using ed del by (auto simp: deletePermissionRule_def)
  moreover have "\<forall>b s. rules_of (applyPermissionUpdate ctx (RemoveRules ?s [ruleValue rule] ?b)) b s =
      filter (\<lambda>r. \<not> (b = ?b \<and> s = ?s \<and> r = ?r)) (rules_of ctx b s)"
    by auto
  ultimately show ?thesis by blast
qed

lemma delete_rule_complete_witness:
  "\<exists>ctx' st'. deletePermissionRule all_off \<lparr>has_path = (\<lambda>_. True), can_write = (\<lambda>_. True)\<rparr>
      (\<lambda>_. FileValid \<lparr>permissions = Some (set_perm_list Deny [''KillShell''] no_perms),
                      allowManagedPermissionRulesOnly = None\<rparr>)
      \<lparr>source = UserSettings, ruleBehavior = Deny, ruleValue = tool_rule ''TaskStop''\<rparr>
      getEmptyToolPermissionContext = Inr (ctx', st') \<and> file_rules st' UserSettings Deny = []"
proof -
  let ?st = "\<lambda>_ :: rule_source. FileValid \<lparr>permissions = Some (set_perm_list Deny [''KillShell''] no_perms),
                      allowManagedPermissionRulesOnly = None\<rparr>"
  let ?io = "\<lparr>has_path = (\<lambda>_. True), can_write = (\<lambda>_. True)\<rparr>"
  let ?rule = "\<lparr>source = UserSettings, ruleBehavior = Deny, ruleValue = tool_rule ''TaskStop''\<rparr>"
  have n: "normalizeEntry all_off ''KillShell'' = ''TaskStop''"
    "permissionRuleValueToString (tool_rule ''TaskStop'') = ''TaskStop''" by code_simp+
  have f: "file_rules ?st UserSettings Deny = [''KillShell'']"
    by (simp add: file_rules_def existing_perms_def getSettingsForSource_def or_empty_def)
  have "source ?rule \<in> set EDITABLE_SOURCES" "writable_store ?io ?st"
    "permissionRuleValueToString (ruleValue ?rule) \<in>
      normalizeEntry all_off ` set (file_rules ?st (source ?rule) (ruleBehavior ?rule))"
    by (simp_all add: EDITABLE_SOURCES_def writable_store_def readable_def f n
        shouldAllowManagedPermissionRulesOnly_def getSettingsForSource_def)
  from delete_rule_complete [OF this, of getEmptyToolPermissionContext]
  show ?thesis by (auto simp: f n)
qed

text \<open>
  Two behaviours at the edge.  A file the schema rejects is read as empty, so persisting the
  removal of one rule writes an empty list over all of them; adding a rule, which reads such a
  file leniently, keeps them.
\<close>

lemma remove_from_rejected_file:
  assumes "has_path io d" "can_write io d" "d \<in> set EDITABLE_SOURCES"
    and "st d = FileRejected s" "permissions s = Some p"
  shows "persistPermissionUpdate fl io st (RemoveRules d [v] b) d =
    FileRejected (merge_settings s (no_settings\<lparr>permissions := Some (set_perm_list b [] no_perms)\<rparr>))"
proof -
  have "supportsPersistence d" "d \<noteq> PolicySettings" "d \<noteq> FlagSettings"
    using assms(3) by (auto simp: editable_iff EDITABLE_SOURCES_def)
  then show ?thesis using assms
    by (simp add: persistPermissionUpdate_def write_perms_def updateSettingsForSource_def
        existing_perms_def getSettingsForSource_def or_empty_def Let_def)
qed

text \<open>A policy rule that was removed from its file survives the next synchronisation.\<close>

lemma stale_policy_rule:
  "rules_for PolicySettings b rules = [] \<Longrightarrow>
     rules_of (syncPermissionRulesFromDisk st ctx rules) b PolicySettings = rules_of ctx b PolicySettings"
  by (auto simp: syncPermissionRulesFromDisk_def convert_rules clear_sources_rules Let_def)

end
