(* ===== verification/Denial_Tracking.thy ===== *)
theory Denial_Tracking
  imports Prelude
begin

text \<open>
  The counters of classifier denials, \<open>src/utils/permissions/denialTracking.ts\<close>: pure functions
  on a record of two counters.  The history of a session is a list of events, the operation the
  permission gate applies after each action.
\<close>

record denial_state =
  consecutiveDenials :: nat
  totalDenials :: nat

definition maxConsecutive :: nat where "maxConsecutive = 3"
definition maxTotal :: nat where "maxTotal = 20"

definition createDenialTrackingState :: denial_state where
  "createDenialTrackingState = \<lparr>consecutiveDenials = 0, totalDenials = 0\<rparr>"

definition recordDenial :: "denial_state \<Rightarrow> denial_state" where
  "recordDenial s = s\<lparr>consecutiveDenials := consecutiveDenials s + 1, totalDenials := totalDenials s + 1\<rparr>"

definition recordSuccess :: "denial_state \<Rightarrow> denial_state" where
  "recordSuccess s = (if consecutiveDenials s = 0 then s else s\<lparr>consecutiveDenials := 0\<rparr>)"

definition shouldFallbackToPrompting :: "denial_state \<Rightarrow> bool" where
  "shouldFallbackToPrompting s \<longleftrightarrow>
     consecutiveDenials s \<ge> maxConsecutive \<or> totalDenials s \<ge> maxTotal"

lemmas denial_defs = createDenialTrackingState_def recordDenial_def recordSuccess_def

section \<open>Histories\<close>

datatype denial_event = Denied | Succeeded

primrec denial_step :: "denial_state \<Rightarrow> denial_event \<Rightarrow> denial_state" where
  "denial_step s Denied = recordDenial s"
| "denial_step s Succeeded = recordSuccess s"

definition denial_inv :: "denial_state \<Rightarrow> bool" where
  "denial_inv s \<longleftrightarrow> consecutiveDenials s \<le> totalDenials s"

interpretation denials: machine denial_step denial_inv
proof
  fix s e assume "denial_inv s"
  then show "denial_inv (denial_step s e)"
    by (cases e) (auto simp: denial_inv_def recordDenial_def recordSuccess_def)
qed

text \<open>The number of denials since the last success.\<close>

definition trailing_denials :: "denial_event list \<Rightarrow> nat" where
  "trailing_denials es = length (takeWhile (\<lambda>e. e = Denied) (rev es))"

lemma denial_run:
  "foldl denial_step createDenialTrackingState es =
     \<lparr>consecutiveDenials = trailing_denials es,
      totalDenials = length (filter (\<lambda>e. e = Denied) es)\<rparr>"
proof (induction es rule: rev_induct)
  case (snoc e es)
  then show ?case
    by (cases e) (simp_all add: recordDenial_def recordSuccess_def trailing_denials_def)
qed (simp add: createDenialTrackingState_def trailing_denials_def)

lemma denial_total_bound: "denial_inv (foldl denial_step createDenialTrackingState es)"
  by (rule denials.run_inv) (simp add: denial_inv_def createDenialTrackingState_def)

text \<open>
  The gate falls back to asking the user exactly when the last three actions were all denied
  by the classifier or twenty of the session were, whatever happened in between.
\<close>

theorem fallback_iff_history:
  "shouldFallbackToPrompting (foldl denial_step createDenialTrackingState es) \<longleftrightarrow>
     trailing_denials es \<ge> 3 \<or> length (filter (\<lambda>e. e = Denied) es) \<ge> 20"
  by (simp add: denial_run shouldFallbackToPrompting_def maxConsecutive_def maxTotal_def)

end
