(* ===== verification/Permission_Gate.thy ===== *)
theory Permission_Gate
  imports Permission_Updates Denial_Tracking
begin

text \<open>
  The permission gate of \<open>src/utils/permissions/permissions.ts\<close>: the lookup of rules, the
  rule-based steps, and the decision for one tool use with its modes, the auto-mode classifier,
  the denial limits and the hooks of headless agents.

  The session is explicit state.  What runs outside this file is an argument: the outcome of
  \<open>tool.checkPermissions\<close>, of the classifier and of the hooks, and what other activities do to
  the session while the gate waits for them (\<open>interference\<close>).  Logging, telemetry and notifications
  are left out.
\<close>

section \<open>Decisions\<close>

datatype 'i decision_reason =
    RuleReason permission_rule
  | ModeReason permission_mode
  | SubcommandResults "(string \<times> 'i permission_result) list"
  | PermissionPromptTool string
  | HookReason string "string option"
  | AsyncAgent string
  | SandboxOverride bool
  | ClassifierReason string string
  | WorkingDir string
  | SafetyCheck string bool
  | OtherReason string
and 'i permission_result =
    PAllow "'i option" "'i decision_reason option"
  | PAsk string "'i option" "'i decision_reason option" "permission_update list option" "string option"
  | PDeny string "'i decision_reason"
  | PPassthrough string "'i decision_reason option" "permission_update list option" "string option"

text \<open>
  The fields are, in order: updatedInput and decisionReason; message, updatedInput,
  decisionReason, suggestions and blockedPath; message and decisionReason; message,
  decisionReason, suggestions and blockedPath.  A decision is a result other than the last kind.
\<close>

primrec is_allow :: "'i permission_result \<Rightarrow> bool" where
  "is_allow (PAllow _ _) = True" | "is_allow (PAsk _ _ _ _ _) = False"
| "is_allow (PDeny _ _) = False" | "is_allow (PPassthrough _ _ _ _) = False"

primrec is_ask :: "'i permission_result \<Rightarrow> bool" where
  "is_ask (PAllow _ _) = False" | "is_ask (PAsk _ _ _ _ _) = True"
| "is_ask (PDeny _ _) = False" | "is_ask (PPassthrough _ _ _ _) = False"

primrec is_deny :: "'i permission_result \<Rightarrow> bool" where
  "is_deny (PAllow _ _) = False" | "is_deny (PAsk _ _ _ _ _) = False"
| "is_deny (PDeny _ _) = True" | "is_deny (PPassthrough _ _ _ _) = False"

primrec reason_of :: "'i permission_result \<Rightarrow> 'i decision_reason option" where
  "reason_of (PAllow _ r) = r" | "reason_of (PAsk _ _ r _ _) = r"
| "reason_of (PDeny _ r) = Some r" | "reason_of (PPassthrough _ r _ _) = r"

section \<open>Rules of a context\<close>

definition PERMISSION_RULE_SOURCES :: "rule_source list" where
  "PERMISSION_RULE_SOURCES =
     [UserSettings, ProjectSettings, LocalSettings, FlagSettings, PolicySettings,
      CliArg, CommandSource, Session]"

fun permissionRuleSourceDisplayString :: "rule_source \<Rightarrow> string" where
  "permissionRuleSourceDisplayString UserSettings = ''user settings''"
| "permissionRuleSourceDisplayString ProjectSettings = ''shared project settings''"
| "permissionRuleSourceDisplayString LocalSettings = ''project local settings''"
| "permissionRuleSourceDisplayString FlagSettings = ''command line arguments''"
| "permissionRuleSourceDisplayString PolicySettings = ''enterprise managed settings''"
| "permissionRuleSourceDisplayString CliArg = ''CLI argument''"
| "permissionRuleSourceDisplayString CommandSource = ''command configuration''"
| "permissionRuleSourceDisplayString Session = ''current session''"

definition source_rules ::
  "features \<Rightarrow> rules_by_source \<Rightarrow> permission_behavior \<Rightarrow> permission_rule list" where
  "source_rules fl rules b =
     concat (map (\<lambda>s. map (\<lambda>r. \<lparr>source = s, ruleBehavior = b,
         ruleValue = permissionRuleValueFromString fl r\<rparr>) (rules s)) PERMISSION_RULE_SOURCES)"

definition getAllowRules :: "features \<Rightarrow> tool_context \<Rightarrow> permission_rule list" where
  "getAllowRules fl ctx = source_rules fl (alwaysAllowRules ctx) Allow"

definition getDenyRules :: "features \<Rightarrow> tool_context \<Rightarrow> permission_rule list" where
  "getDenyRules fl ctx = source_rules fl (alwaysDenyRules ctx) Deny"

definition getAskRules :: "features \<Rightarrow> tool_context \<Rightarrow> permission_rule list" where
  "getAskRules fl ctx = source_rules fl (alwaysAskRules ctx) Ask"

record tool =
  tool_name :: string
  mcpInfo :: "(string \<times> string) option"
  requiresUserInteraction :: bool

definition nameForRuleMatch :: "tool \<Rightarrow> string" where
  "nameForRuleMatch t = getToolNameForPermissionCheck (tool_name t) (mcpInfo t)"

definition toolMatchesRule :: "tool \<Rightarrow> permission_rule \<Rightarrow> bool" where
  "toolMatchesRule t rule \<longleftrightarrow>
     (if ruleContent (ruleValue rule) \<noteq> None then False
      else if toolName (ruleValue rule) = nameForRuleMatch t then True
      else
        (case (mcpInfoFromString (toolName (ruleValue rule)), mcpInfoFromString (nameForRuleMatch t)) of
           (Some ruleInfo, Some toolInfo) \<Rightarrow>
             (mcpToolName ruleInfo = None \<or> mcpToolName ruleInfo = Some ''*'') \<and>
             serverName ruleInfo = serverName toolInfo
         | _ \<Rightarrow> False))"

definition toolAlwaysAllowedRule :: "features \<Rightarrow> tool_context \<Rightarrow> tool \<Rightarrow> permission_rule option" where
  "toolAlwaysAllowedRule fl ctx t = find (toolMatchesRule t) (getAllowRules fl ctx)"

definition getDenyRuleForTool :: "features \<Rightarrow> tool_context \<Rightarrow> tool \<Rightarrow> permission_rule option" where
  "getDenyRuleForTool fl ctx t = find (toolMatchesRule t) (getDenyRules fl ctx)"

definition getAskRuleForTool :: "features \<Rightarrow> tool_context \<Rightarrow> tool \<Rightarrow> permission_rule option" where
  "getAskRuleForTool fl ctx t = find (toolMatchesRule t) (getAskRules fl ctx)"

definition shellBroadAllowRequiresToolDecision :: "tool \<Rightarrow> 'i permission_result \<Rightarrow> bool" where
  "shellBroadAllowRequiresToolDecision t r \<longleftrightarrow>
     (tool_name t = BASH_TOOL_NAME \<or> tool_name t = POWERSHELL_TOOL_NAME) \<and> \<not> is_allow r"

definition getDenyRuleForAgent ::
  "features \<Rightarrow> tool_context \<Rightarrow> string \<Rightarrow> string \<Rightarrow> permission_rule option" where
  "getDenyRuleForAgent fl ctx agentToolName agentType =
     find (\<lambda>rule. toolName (ruleValue rule) = agentToolName \<and>
                  ruleContent (ruleValue rule) = Some agentType) (getDenyRules fl ctx)"

text \<open>The loop that collects the denied types; agents are given with their \<open>agentType\<close>.\<close>

definition filterDeniedAgents ::
  "features \<Rightarrow> (string \<times> 'a) list \<Rightarrow> tool_context \<Rightarrow> string \<Rightarrow> (string \<times> 'a) list" where
  "filterDeniedAgents fl agents ctx agentToolName =
     (let deniedAgentTypes = foldl (\<lambda>acc rule.
            if toolName (ruleValue rule) = agentToolName
            then (case ruleContent (ruleValue rule) of None \<Rightarrow> acc | Some c \<Rightarrow> c # acc)
            else acc) [] (getDenyRules fl ctx)
      in filter (\<lambda>agent. fst agent \<notin> set deniedAgentTypes) agents)"

definition rules_of_behavior :: "features \<Rightarrow> tool_context \<Rightarrow> permission_behavior \<Rightarrow> permission_rule list" where
  "rules_of_behavior fl ctx b =
     (case b of Allow \<Rightarrow> getAllowRules fl ctx | Deny \<Rightarrow> getDenyRules fl ctx | Ask \<Rightarrow> getAskRules fl ctx)"

text \<open>A \<open>Map\<close> is the list of its entries in the order of insertion.\<close>

definition getRuleByContentsForToolName ::
  "features \<Rightarrow> tool_context \<Rightarrow> string \<Rightarrow> permission_behavior \<Rightarrow> (string \<times> permission_rule) list" where
  "getRuleByContentsForToolName fl ctx name behavior =
     foldl (\<lambda>m rule.
        (case ruleContent (ruleValue rule) of
           Some c \<Rightarrow> if toolName (ruleValue rule) = name \<and> ruleBehavior rule = behavior
                     then AList.update c rule m else m
         | None \<Rightarrow> m)) [] (rules_of_behavior fl ctx behavior)"

definition getRuleByContentsForTool ::
  "features \<Rightarrow> tool_context \<Rightarrow> tool \<Rightarrow> permission_behavior \<Rightarrow> (string \<times> permission_rule) list" where
  "getRuleByContentsForTool fl ctx t behavior =
     getRuleByContentsForToolName fl ctx (nameForRuleMatch t) behavior"

section \<open>Messages\<close>

definition plural :: "nat \<Rightarrow> string \<Rightarrow> string \<Rightarrow> string" where
  "plural n word pluralWord = (if n = 1 then word else pluralWord)"

text \<open>
  \<open>src/utils/permissions/PermissionMode.ts\<close>, without the symbols and colours of the display.  A mode
  without an entry has that of the default mode.
\<close>

record mode_config =
  mode_title :: string
  shortTitle :: string
  external :: permission_mode

definition default_mode_config :: mode_config where
  "default_mode_config = \<lparr>mode_title = ''Default'', shortTitle = ''Default'', external = DefaultMode\<rparr>"

definition getModeConfig :: "features \<Rightarrow> permission_mode \<Rightarrow> mode_config" where
  "getModeConfig fl m =
     (case m of
        DefaultMode \<Rightarrow> default_mode_config
      | PlanMode \<Rightarrow> \<lparr>mode_title = ''Plan Mode'', shortTitle = ''Plan'', external = PlanMode\<rparr>
      | AcceptEdits \<Rightarrow> \<lparr>mode_title = ''Accept edits'', shortTitle = ''Accept'', external = AcceptEdits\<rparr>
      | BypassPermissions \<Rightarrow>
          \<lparr>mode_title = ''Bypass Permissions'', shortTitle = ''Bypass'', external = BypassPermissions\<rparr>
      | DontAsk \<Rightarrow> \<lparr>mode_title = ''Don't Ask'', shortTitle = ''DontAsk'', external = DontAsk\<rparr>
      | AutoMode \<Rightarrow> (if transcript_classifier fl
          then \<lparr>mode_title = ''Auto mode'', shortTitle = ''Auto'', external = DefaultMode\<rparr>
          else default_mode_config)
      | BubbleMode \<Rightarrow> default_mode_config)"

definition toExternalPermissionMode :: "features \<Rightarrow> permission_mode \<Rightarrow> permission_mode" where
  "toExternalPermissionMode fl m = external (getModeConfig fl m)"

definition permissionModeTitle :: "features \<Rightarrow> permission_mode \<Rightarrow> string" where
  "permissionModeTitle fl m = mode_title (getModeConfig fl m)"

definition permissionModeShortTitle :: "features \<Rightarrow> permission_mode \<Rightarrow> string" where
  "permissionModeShortTitle fl m = shortTitle (getModeConfig fl m)"

text \<open>
  \<open>extractOutputRedirections\<close> (the shell parser) is an argument: the command without its
  redirections, and how many there were.
\<close>

definition needs_approval ::
  "(string \<Rightarrow> string \<times> nat) \<Rightarrow> string \<Rightarrow> (string \<times> 'i permission_result) list \<Rightarrow> string list" where
  "needs_approval extractOutputRedirections name reasons =
     map (\<lambda>(cmd, _). if name = ''Bash''
            then (let (without, n) = extractOutputRedirections cmd in if n > 0 then without else cmd)
            else cmd)
       (filter (\<lambda>(_, r). case r of PAsk _ _ _ _ _ \<Rightarrow> True | PPassthrough _ _ _ _ \<Rightarrow> True | _ \<Rightarrow> False) reasons)"

definition default_request_message :: "string \<Rightarrow> string" where
  "default_request_message name =
     ''DSXU requested permissions to use '' @ name @ '', but you haven't granted it yet.''"

definition createPermissionRequestMessage ::
  "features \<Rightarrow> (string \<Rightarrow> string \<times> nat) \<Rightarrow> string \<Rightarrow> 'i decision_reason option \<Rightarrow> string" where
  "createPermissionRequestMessage fl extractOutputRedirections name reason =
     (case reason of
        None \<Rightarrow> default_request_message name
      | Some (ClassifierReason classifier why) \<Rightarrow>
          (if bash_classifier fl \<or> transcript_classifier fl
           then ''Classifier '' @ [CHR 0x27] @ classifier @ [CHR 0x27] @
                '' requires approval for this '' @ name @ '' command: '' @ why
           else default_request_message name)
      | Some (HookReason hookName why) \<Rightarrow>
          (case why of
             Some w \<Rightarrow> (if w \<noteq> [] then ''Hook '' @ [CHR 0x27] @ hookName @ [CHR 0x27] @ '' blocked this action: '' @ w
               else ''Hook '' @ [CHR 0x27] @ hookName @ [CHR 0x27] @ '' requires approval for this '' @ name @ '' command'')
           | None \<Rightarrow> ''Hook '' @ [CHR 0x27] @ hookName @ [CHR 0x27] @ '' requires approval for this '' @ name @ '' command'')
      | Some (RuleReason rule) \<Rightarrow>
          ''Permission rule '' @ [CHR 0x27] @ permissionRuleValueToString (ruleValue rule) @ [CHR 0x27] @
          '' from '' @ permissionRuleSourceDisplayString (source rule) @
          '' requires approval for this '' @ name @ '' command''
      | Some (SubcommandResults reasons) \<Rightarrow>
          (let needsApproval = needs_approval extractOutputRedirections name reasons;
               n = length needsApproval
           in if n > 0
              then ''This '' @ name @ '' command contains multiple operations. The following '' @
                plural n ''part'' ''parts'' @ '' '' @ plural n ''requires'' ''require'' @ '' approval: '' @
                js_join '', '' needsApproval
              else ''This '' @ name @ '' command contains multiple operations that require approval'')
      | Some (PermissionPromptTool t) \<Rightarrow>
          ''Tool '' @ [CHR 0x27] @ t @ [CHR 0x27] @ '' requires approval for this '' @ name @ '' command''
      | Some (SandboxOverride _) \<Rightarrow> ''Run outside of the sandbox''
      | Some (WorkingDir why) \<Rightarrow> why
      | Some (SafetyCheck why _) \<Rightarrow> why
      | Some (OtherReason why) \<Rightarrow> why
      | Some (ModeReason m) \<Rightarrow>
          ''Current permission mode ('' @ permissionModeTitle fl m @ '') requires approval for this '' @
          name @ '' command''
      | Some (AsyncAgent why) \<Rightarrow> why)"

text \<open>\<open>src/utils/messages.ts\<close>.\<close>

definition DENIAL_WORKAROUND_GUIDANCE :: string where
  "DENIAL_WORKAROUND_GUIDANCE =
     ''IMPORTANT: You *may* attempt to accomplish this action using other tools that might naturally be used to accomplish this goal, '' @
     ''e.g. using head instead of cat. But you *should not* attempt to work around this denial in malicious ways, '' @
     ''e.g. do not use your ability to run tests to execute non-test actions. '' @
     ''You should only try to work around this restriction in reasonable ways that do not attempt to bypass the intent behind this denial. '' @
     ''If you believe this capability is essential to complete the user's request, STOP and explain to the user '' @
     ''what you were trying to do and why you need this permission. Let the user decide how to proceed.''"

definition AUTO_REJECT_MESSAGE :: "string \<Rightarrow> string" where
  "AUTO_REJECT_MESSAGE name =
     ''Permission to use '' @ name @ '' has been denied. '' @ DENIAL_WORKAROUND_GUIDANCE"

definition DONT_ASK_REJECT_MESSAGE :: "string \<Rightarrow> string" where
  "DONT_ASK_REJECT_MESSAGE name =
     ''Permission to use '' @ name @ '' has been denied because DSXU Code is running in don't ask mode. '' @
     DENIAL_WORKAROUND_GUIDANCE"

definition buildYoloRejectionMessage :: "features \<Rightarrow> string \<Rightarrow> string" where
  "buildYoloRejectionMessage fl why =
     ''Permission for this action has been denied. Reason: '' @ why @ ''. '' @
     ''If you have other tasks that don't depend on this action, continue working on those. '' @
     DENIAL_WORKAROUND_GUIDANCE @ '' '' @
     (if bash_classifier fl
      then ''To allow this type of action in the future, the user can add a permission rule like '' @
        ''Bash(prompt: <description of allowed action>) to their settings. '' @
        ''At the end of your session, recommend what permission rules to add so you don't get blocked again.''
      else ''To allow this type of action in the future, the user can add a Bash permission rule to their settings.'')"

definition buildClassifierUnavailableMessage :: "string \<Rightarrow> string \<Rightarrow> string" where
  "buildClassifierUnavailableMessage name classifierModel =
     classifierModel @ '' is temporarily unavailable, so auto mode cannot determine the safety of '' @ name @
     '' right now. '' @
     ''Wait briefly and then try this action again. '' @
     ''If it keeps failing, continue with other tasks that don't require this action and come back to it later. '' @
     ''Note: reading files, searching code, and other read-only operations do not require the classifier and can still be used.''"

text \<open>
  \<open>src/utils/permissions/classifierDecision.ts\<close>; the names that exist only under build flags or
  for internal users are an argument.
\<close>

definition isAutoModeAllowlistedTool :: "string list \<Rightarrow> string \<Rightarrow> bool" where
  "isAutoModeAllowlistedTool extraSafeTools name \<longleftrightarrow>
     name \<in> set ([''Read'', ''Grep'', ''Glob'', ''LSP'', ''ToolSearch'', ''ListMcpResourcesTool'',
       ''ReadMcpResourceTool'', ''TodoWrite'', ''TaskCreate'', ''TaskGet'', ''TaskList'', ''TaskOutput'',
       ''AskUserQuestion'', ''EnterPlanMode'', ''ExitPlanMode'', ''SendMessage'', ''Sleep'',
       ''classify_result''] @ extraSafeTools)"

section \<open>The session and what is outside\<close>

record gate_session =
  toolPermissionContext :: tool_context
  denialTracking :: "denial_state option"
  localDenialTracking :: "denial_state option"
  settings :: settings_store
  aborted :: bool

datatype 'i check_outcome = CheckResult "'i permission_result" | CheckAborted string | CheckFailed

record yolo_result =
  shouldBlock :: bool
  yolo_reason :: string
  unavailable :: bool
  transcriptTooLong :: bool
  yolo_model :: string

datatype classifier_outcome = ClassifierThrew string | Classified yolo_result

datatype 'i hook_result =
    NoDecision
  | HookAllow "'i option" "permission_update list option"
  | HookDeny "string option" bool

text \<open>
  \<open>checkPermissions n s\<close> is the outcome of the \<open>n\<close>-th call (schema parsing included) in session
  \<open>s\<close>; the fields \<open>after_...\<close> are the interference while the gate awaits.
\<close>

record 'i gate_env =
  build :: features
  io :: settings_io
  extractOutputRedirections :: "string \<Rightarrow> string \<times> nat"
  isSandboxingEnabled :: bool
  isAutoAllowBashIfSandboxedEnabled :: bool
  shouldUseSandbox :: bool
  checkPermissions :: "nat \<Rightarrow> gate_session \<Rightarrow> 'i check_outcome"
  isAutoModeActive :: bool
  extraSafeTools :: "string list"
  classifier :: classifier_outcome
  iron_gate_closed :: bool
  hooks :: "'i hook_result list"
  after_check :: "gate_session \<Rightarrow> gate_session"
  after_inner :: "gate_session \<Rightarrow> gate_session"
  after_accept :: "gate_session \<Rightarrow> gate_session"
  after_classifier :: "gate_session \<Rightarrow> gate_session"
  after_hooks :: "gate_session \<Rightarrow> gate_session"

text \<open>\<open>Inl\<close> is a thrown error, with its message.\<close>

type_synonym 'i gate_result = "(string + 'i permission_result) \<times> gate_session"

definition request_message :: "'i gate_env \<Rightarrow> tool \<Rightarrow> 'i decision_reason option \<Rightarrow> string" where
  "request_message env t r =
     createPermissionRequestMessage (build env) (extractOutputRedirections env) (tool_name t) r"

section \<open>The rule-based steps\<close>

definition canSandboxAutoAllow :: "'i gate_env \<Rightarrow> tool \<Rightarrow> bool" where
  "canSandboxAutoAllow env t \<longleftrightarrow>
     tool_name t = BASH_TOOL_NAME \<and> isSandboxingEnabled env \<and>
     isAutoAllowBashIfSandboxedEnabled env \<and> shouldUseSandbox env"

definition rule_denial :: "tool \<Rightarrow> permission_rule \<Rightarrow> 'i permission_result" where
  "rule_denial t rule =
     PDeny (''Permission to use '' @ tool_name t @ '' has been denied.'') (RuleReason rule)"

definition rule_question :: "'i gate_env \<Rightarrow> tool \<Rightarrow> permission_rule \<Rightarrow> 'i permission_result" where
  "rule_question env t rule = PAsk (request_message env t None) None (Some (RuleReason rule)) None None"

text \<open>Step 1c: the tool's own check, with an error read as no opinion.\<close>

definition tool_check :: "'i gate_env \<Rightarrow> tool \<Rightarrow> gate_session \<Rightarrow> string + 'i permission_result" where
  "tool_check env t s =
     (case checkPermissions env 1 s of
        CheckResult r \<Rightarrow> Inr r
      | CheckAborted m \<Rightarrow> Inl m
      | CheckFailed \<Rightarrow> Inr (PPassthrough (request_message env t None) None None None))"

definition ask_rule_result :: "'i permission_result \<Rightarrow> bool" where
  "ask_rule_result r \<longleftrightarrow>
     is_ask r \<and> (case reason_of r of Some (RuleReason rule) \<Rightarrow> ruleBehavior rule = Ask | _ \<Rightarrow> False)"

definition safety_result :: "'i permission_result \<Rightarrow> bool" where
  "safety_result r \<longleftrightarrow> is_ask r \<and> (case reason_of r of Some (SafetyCheck _ _) \<Rightarrow> True | _ \<Rightarrow> False)"

definition checkRuleBasedPermissions ::
  "'i gate_env \<Rightarrow> tool \<Rightarrow> gate_session \<Rightarrow> (string + 'i permission_result option) \<times> gate_session" where
  "checkRuleBasedPermissions env t s =
     (let ctx = toolPermissionContext s in
      case getDenyRuleForTool (build env) ctx t of Some rule \<Rightarrow> (Inr (Some (rule_denial t rule)), s)
      | None \<Rightarrow>
     (case (if canSandboxAutoAllow env t then None else getAskRuleForTool (build env) ctx t) of
        Some rule \<Rightarrow> (Inr (Some (rule_question env t rule)), s)
      | None \<Rightarrow>
     (case tool_check env t s of Inl m \<Rightarrow> (Inl m, after_check env s)
      | Inr r \<Rightarrow>
          if is_deny r then (Inr (Some r), after_check env s)
          else if ask_rule_result r then (Inr (Some r), after_check env s)
          else if safety_result r then (Inr (Some r), after_check env s)
          else (Inr None, after_check env s))))"

definition getUpdatedInputOrFallback :: "'i permission_result \<Rightarrow> 'i \<Rightarrow> 'i" where
  "getUpdatedInputOrFallback r fallback =
     (case r of PAllow (Some u) _ \<Rightarrow> u | PAsk _ (Some u) _ _ _ \<Rightarrow> u | _ \<Rightarrow> fallback)"

definition shouldBypassPermissions :: "tool_context \<Rightarrow> bool" where
  "shouldBypassPermissions ctx \<longleftrightarrow>
     mode ctx = BypassPermissions \<or> mode ctx = PlanMode \<and> isBypassPermissionsModeAvailable ctx"

text \<open>Steps 2a to 3, on the session as it is after the tool's check.\<close>

definition after_rules ::
  "'i gate_env \<Rightarrow> tool \<Rightarrow> 'i \<Rightarrow> tool_context \<Rightarrow> 'i permission_result \<Rightarrow> 'i permission_result" where
  "after_rules env t input ctx r =
     (if shouldBypassPermissions ctx
      then PAllow (Some (getUpdatedInputOrFallback r input)) (Some (ModeReason (mode ctx)))
      else case toolAlwaysAllowedRule (build env) ctx t of
        Some rule \<Rightarrow>
          (if \<not> shellBroadAllowRequiresToolDecision t r
           then PAllow (Some (getUpdatedInputOrFallback r input)) (Some (RuleReason rule))
           else (case r of PPassthrough m why sugg path \<Rightarrow> PAsk (request_message env t why) None why sugg path
                 | _ \<Rightarrow> r))
      | None \<Rightarrow>
          (case r of PPassthrough m why sugg path \<Rightarrow> PAsk (request_message env t why) None why sugg path
           | _ \<Rightarrow> r))"

definition hasPermissionsToUseToolInner ::
  "'i gate_env \<Rightarrow> tool \<Rightarrow> 'i \<Rightarrow> gate_session \<Rightarrow> 'i gate_result" where
  "hasPermissionsToUseToolInner env t input s =
     (if aborted s then (Inl [], s)
      else
        (let ctx = toolPermissionContext s in
         case getDenyRuleForTool (build env) ctx t of Some rule \<Rightarrow> (Inr (rule_denial t rule), s)
         | None \<Rightarrow>
        (case (if canSandboxAutoAllow env t then None else getAskRuleForTool (build env) ctx t) of
           Some rule \<Rightarrow> (Inr (rule_question env t rule), s)
         | None \<Rightarrow>
        (case tool_check env t s of Inl m \<Rightarrow> (Inl m, after_check env s)
         | Inr r \<Rightarrow>
             (let s1 = after_check env s in
              if is_deny r then (Inr r, s1)
              else if requiresUserInteraction t \<and> is_ask r then (Inr r, s1)
              else if ask_rule_result r then (Inr r, s1)
              else if safety_result r then (Inr r, s1)
              else (Inr (after_rules env t input (toolPermissionContext s1) r), s1))))))"

section \<open>Denial limits and hooks\<close>

definition persistDenialState :: "denial_state \<Rightarrow> gate_session \<Rightarrow> gate_session" where
  "persistDenialState new s =
     (case localDenialTracking s of
        Some _ \<Rightarrow> s\<lparr>localDenialTracking := Some new\<rparr>
      | None \<Rightarrow> s\<lparr>denialTracking := Some new\<rparr>)"

text \<open>Decimal digits of a counter, as a template literal prints it.\<close>

fun digits_of :: "nat \<Rightarrow> string" where
  "digits_of n = (if n < 10 then [char_of (48 + n)] else digits_of (n div 10) @ [char_of (48 + n mod 10)])"

declare digits_of.simps [simp del]

definition denial_warning :: "denial_state \<Rightarrow> string" where
  "denial_warning d =
     (if totalDenials d \<ge> maxTotal
      then digits_of (totalDenials d) @
        '' actions were blocked this session. Please review the transcript before continuing.''
      else digits_of (consecutiveDenials d) @
        '' consecutive actions were blocked. Please review the transcript before continuing.'')"

text \<open>\<open>None\<close> when no limit was hit; \<open>headless\<close> is read from the state captured before.\<close>

definition handleDenialLimitExceeded ::
  "denial_state \<Rightarrow> bool \<Rightarrow> string \<Rightarrow> 'i permission_result \<Rightarrow> gate_session \<Rightarrow> 'i gate_result option" where
  "handleDenialLimitExceeded d headless classifierReason r s =
     (if \<not> shouldFallbackToPrompting d then None
      else if headless
      then Some (Inl ''Agent aborted: too many classifier denials in headless mode'', s)
      else
        (let s' = (if totalDenials d \<ge> maxTotal
                   then persistDenialState \<lparr>consecutiveDenials = 0, totalDenials = 0\<rparr> s else s);
             originalClassifier =
               (case reason_of r of Some (ClassifierReason c _) \<Rightarrow> c | _ \<Rightarrow> ''auto-mode'');
             why = ClassifierReason originalClassifier
               (denial_warning d @ [NL, NL] @ ''Latest blocked action: '' @ classifierReason)
         in Some (Inr (case r of PAsk m u _ sugg path \<Rightarrow> PAsk m u (Some why) sugg path | _ \<Rightarrow> r), s')))"

text \<open>
  The first decision among the results the hooks produce; \<open>None\<close> when there is none, also because
  a hook failed (the code catches that, and the results end there).
\<close>

fun runPermissionRequestHooks ::
  "'i gate_env \<Rightarrow> 'i \<Rightarrow> 'i hook_result list \<Rightarrow> gate_session \<Rightarrow> 'i permission_result option \<times> gate_session" where
  "runPermissionRequestHooks env input [] s = (None, s)"
| "runPermissionRequestHooks env input (NoDecision # hs) s = runPermissionRequestHooks env input hs s"
| "runPermissionRequestHooks env input (HookAllow upd perms # hs) s =
     (let s' = (case perms of
            Some (p # ps) \<Rightarrow>
              s\<lparr>settings := persistPermissionUpdates (build env) (io env) (settings s) (p # ps),
                toolPermissionContext := applyPermissionUpdates (toolPermissionContext s) (p # ps)\<rparr>
          | _ \<Rightarrow> s)
      in (Some (PAllow (Some (case upd of None \<Rightarrow> input | Some u \<Rightarrow> u))
            (Some (HookReason ''PermissionRequest'' None))), s'))"
| "runPermissionRequestHooks env input (HookDeny msg interrupt # hs) s =
     (Some (PDeny (case msg of Some m \<Rightarrow> if m \<noteq> [] then m else ''Permission denied by hook''
                   | None \<Rightarrow> ''Permission denied by hook'')
        (HookReason ''PermissionRequest'' msg)),
      if interrupt then s\<lparr>aborted := True\<rparr> else s)"

section \<open>The decision\<close>

definition auto_applies :: "'i gate_env \<Rightarrow> tool_context \<Rightarrow> bool" where
  "auto_applies env ctx \<longleftrightarrow>
     transcript_classifier (build env) \<and>
     (mode ctx = AutoMode \<or> mode ctx = PlanMode \<and> isAutoModeActive env)"

text \<open>
  The denial counters as read later in the call: a local object is shared and read when used,
  the counters of the application were captured in session \<open>s\<close>.
\<close>

definition current_denials :: "gate_session \<Rightarrow> gate_session \<Rightarrow> denial_state" where
  "current_denials s s' =
     (case localDenialTracking s' of Some d \<Rightarrow> d
      | None \<Rightarrow> (case denialTracking s of Some d \<Rightarrow> d | None \<Rightarrow> createDenialTrackingState))"

definition async_denial :: "string \<Rightarrow> string \<Rightarrow> 'i permission_result" where
  "async_denial message why = PDeny message (AsyncAgent why)"

definition ask_message :: "'i permission_result \<Rightarrow> string" where
  "ask_message r = (case r of PAsk m _ _ _ _ \<Rightarrow> m | _ \<Rightarrow> [])"

text \<open>What follows the answer of the classifier.\<close>

definition classifier_decision ::
  "'i gate_env \<Rightarrow> tool \<Rightarrow> 'i \<Rightarrow> bool \<Rightarrow> 'i permission_result \<Rightarrow> gate_session \<Rightarrow> gate_session
     \<Rightarrow> yolo_result \<Rightarrow> 'i gate_result" where
  "classifier_decision env t input headless r s s4 y =
     (if shouldBlock y then
        (if transcriptTooLong y then
           (if headless
            then (Inl ''Agent aborted: auto mode classifier transcript exceeded context window in headless mode'', s4)
            else (Inr (case r of PAsk m u _ sugg path \<Rightarrow> PAsk m u
                    (Some (OtherReason ''Auto mode classifier transcript exceeded context window ...falling back to manual approval''))
                    sugg path | _ \<Rightarrow> r), s4))
         else if unavailable y then
           (if iron_gate_closed env
            then (Inr (PDeny (buildClassifierUnavailableMessage (tool_name t) (yolo_model y))
                    (ClassifierReason ''auto-mode'' ''Classifier unavailable'')), s4)
            else (Inr r, s4))
         else
           (let d = recordDenial (current_denials s s4);
                s5 = persistDenialState d s4
            in case handleDenialLimitExceeded d headless (yolo_reason y) r s5 of
                 Some res \<Rightarrow> res
               | None \<Rightarrow> (Inr (PDeny (buildYoloRejectionMessage (build env) (yolo_reason y))
                   (ClassifierReason ''auto-mode'' (yolo_reason y))), s5)))
      else (Inr (PAllow (Some input) (Some (ClassifierReason ''auto-mode'' (yolo_reason y)))),
            persistDenialState (recordSuccess (current_denials s s4)) s4))"

text \<open>From the allowlist on, in session \<open>s3\<close>.\<close>

definition allowlist_or_classifier ::
  "'i gate_env \<Rightarrow> tool \<Rightarrow> 'i \<Rightarrow> bool \<Rightarrow> 'i permission_result \<Rightarrow> gate_session \<Rightarrow> gate_session
     \<Rightarrow> 'i gate_result" where
  "allowlist_or_classifier env t input headless r s s3 =
     (if isAutoModeAllowlistedTool (extraSafeTools env) (tool_name t)
      then (Inr (PAllow (Some input) (Some (ModeReason AutoMode))),
            persistDenialState (recordSuccess (current_denials s s3)) s3)
      else (case classifier env of
          ClassifierThrew m \<Rightarrow> (Inl m, after_classifier env s3)
        | Classified y \<Rightarrow> classifier_decision env t input headless r s (after_classifier env s3) y))"

definition with_mode :: "permission_mode \<Rightarrow> gate_session \<Rightarrow> gate_session" where
  "with_mode m s = s\<lparr>toolPermissionContext := (toolPermissionContext s)\<lparr>mode := m\<rparr>\<rparr>"

text \<open>The branch of auto mode, for a question \<open>r\<close>.\<close>

definition auto_mode_decision ::
  "'i gate_env \<Rightarrow> tool \<Rightarrow> 'i \<Rightarrow> 'i permission_result \<Rightarrow> gate_session \<Rightarrow> 'i gate_result" where
  "auto_mode_decision env t input r s =
     (let headless = shouldAvoidPermissionPrompts (toolPermissionContext s) in
      if (case reason_of r of Some (SafetyCheck _ approvable) \<Rightarrow> \<not> approvable | _ \<Rightarrow> False) then
        (if headless
         then (Inr (async_denial (ask_message r)
                 ''Safety check requires interactive approval and permission prompts are not available in this context''), s)
         else (Inr r, s))
      else if requiresUserInteraction t then (Inr r, s)
      else if tool_name t = POWERSHELL_TOOL_NAME \<and> \<not> powershell_auto_mode (build env) then
        (if headless
         then (Inr (async_denial ''PowerShell tool requires interactive approval''
                 ''PowerShell tool requires interactive approval and permission prompts are not available in this context''), s)
         else (Inr r, s))
      else if tool_name t \<noteq> AGENT_TOOL_NAME \<and> tool_name t \<noteq> REPL_TOOL_NAME then
        (case checkPermissions env 2 (with_mode AcceptEdits s) of
           CheckResult (PAllow upd _) \<Rightarrow>
             (Inr (PAllow (Some (case upd of None \<Rightarrow> input | Some u \<Rightarrow> u)) (Some (ModeReason AutoMode))),
              persistDenialState (recordSuccess (current_denials s (after_accept env s))) (after_accept env s))
         | CheckAborted m \<Rightarrow> (Inl m, after_accept env s)
         | _ \<Rightarrow> allowlist_or_classifier env t input headless r s (after_accept env s))
      else allowlist_or_classifier env t input headless r s s)"

definition headless_decision ::
  "'i gate_env \<Rightarrow> tool \<Rightarrow> 'i \<Rightarrow> gate_session \<Rightarrow> 'i gate_result" where
  "headless_decision env t input s =
     (case runPermissionRequestHooks env input (hooks env) (after_hooks env s) of
        (Some d, s') \<Rightarrow> (Inr d, s')
      | (None, s') \<Rightarrow>
          (Inr (PDeny (AUTO_REJECT_MESSAGE (tool_name t))
             (AsyncAgent ''Permission prompts are not available in this context'')), s'))"

definition reset_on_allow :: "'i gate_env \<Rightarrow> gate_session \<Rightarrow> gate_session" where
  "reset_on_allow env s =
     (if transcript_classifier (build env) \<and> mode (toolPermissionContext s) = AutoMode
      then (case (case localDenialTracking s of Some d \<Rightarrow> Some d | None \<Rightarrow> denialTracking s) of
              Some d \<Rightarrow> (if consecutiveDenials d > 0 then persistDenialState (recordSuccess d) s else s)
            | None \<Rightarrow> s)
      else s)"

definition hasPermissionsToUseTool ::
  "'i gate_env \<Rightarrow> tool \<Rightarrow> 'i \<Rightarrow> gate_session \<Rightarrow> 'i gate_result" where
  "hasPermissionsToUseTool env t input s =
     (case hasPermissionsToUseToolInner env t input s of
        (Inl m, s1) \<Rightarrow> (Inl m, s1)
      | (Inr r, s1) \<Rightarrow>
          (let s2 = after_inner env s1; ctx = toolPermissionContext s2 in
           if is_allow r then (Inr r, reset_on_allow env s2)
           else if is_ask r then
             (if mode ctx = DontAsk
              then (Inr (PDeny (DONT_ASK_REJECT_MESSAGE (tool_name t)) (ModeReason DontAsk)), s2)
              else if auto_applies env ctx then auto_mode_decision env t input r s2
              else if shouldAvoidPermissionPrompts ctx then headless_decision env t input s2
              else (Inr r, s2))
           else (Inr r, s2)))"

section \<open>Lookup of rules\<close>

lemma all_sources [simp]: "s \<in> set PERMISSION_RULE_SOURCES"
  by (cases s) (simp_all add: PERMISSION_RULE_SOURCES_def)

lemma in_source_rules:
  "rule \<in> set (source_rules fl rules b) \<longleftrightarrow>
     (\<exists>s. \<exists>r\<in>set (rules s). rule = \<lparr>source = s, ruleBehavior = b, ruleValue = permissionRuleValueFromString fl r\<rparr>)"
  by (auto simp: source_rules_def)

lemma find_None_iff': "find P xs = None \<longleftrightarrow> (\<forall>x\<in>set xs. \<not> P x)"
  by (auto simp: find_None_iff)

lemma matches_whole [simp]:
  "toolMatchesRule t \<lparr>source = s, ruleBehavior = b, ruleValue = tool_rule (nameForRuleMatch t)\<rparr>"
  by (simp add: toolMatchesRule_def tool_rule_def)

lemma deny_rule_found:
  assumes "rs \<in> set (alwaysDenyRules ctx src)"
    and "permissionRuleValueFromString fl rs = tool_rule (nameForRuleMatch t)"
  obtains rule where "getDenyRuleForTool fl ctx t = Some rule" "ruleBehavior rule = Deny" "toolMatchesRule t rule"
proof -
  have "\<lparr>source = src, ruleBehavior = Deny, ruleValue = tool_rule (nameForRuleMatch t)\<rparr> \<in> set (getDenyRules fl ctx)"
    using assms by (auto simp: getDenyRules_def in_source_rules intro!: exI [of _ src] bexI [of _ rs])
  then have "getDenyRuleForTool fl ctx t \<noteq> None"
    using matches_whole unfolding getDenyRuleForTool_def find_None_iff' by blast
  then obtain rule where r: "getDenyRuleForTool fl ctx t = Some rule" by blast
  then have "rule \<in> set (getDenyRules fl ctx)" "toolMatchesRule t rule"
    by (auto simp: getDenyRuleForTool_def find_Some_iff)
  then show thesis using r that by (auto simp: getDenyRules_def in_source_rules)
qed

section \<open>Shapes of the results\<close>

lemma deny_not_other [simp]: "is_deny r \<Longrightarrow> \<not> is_ask r" "is_deny r \<Longrightarrow> \<not> is_allow r" "is_ask r \<Longrightarrow> \<not> is_allow r"
  by (cases r; simp)+

lemma rule_results [simp]:
  "is_deny (rule_denial t rule)" "is_ask (rule_question env t rule)" "\<not> is_allow (rule_question env t rule)"
  "\<not> is_ask (rule_denial t rule)" "\<not> is_allow (rule_denial t rule)"
  by (simp_all add: rule_denial_def rule_question_def)

definition direct_licence ::
  "'i gate_env \<Rightarrow> tool \<Rightarrow> gate_session \<Rightarrow> 'i permission_result \<Rightarrow> bool" where
  "direct_licence env t s d \<longleftrightarrow>
     (canSandboxAutoAllow env t \<or> getAskRuleForTool (build env) (toolPermissionContext s) t = None) \<and>
     (\<exists>r. tool_check env t s = Inr r \<and> \<not> is_deny r \<and> \<not> ask_rule_result r \<and> \<not> safety_result r \<and>
        \<not> (requiresUserInteraction t \<and> is_ask r) \<and>
        (r = d \<or> shouldBypassPermissions (toolPermissionContext (after_check env s)) \<or>
         toolAlwaysAllowedRule (build env) (toolPermissionContext (after_check env s)) t \<noteq> None \<and>
         \<not> shellBroadAllowRequiresToolDecision t r))"

definition auto_licence :: "'i gate_env \<Rightarrow> tool \<Rightarrow> gate_session \<Rightarrow> 'i permission_result \<Rightarrow> bool" where
  "auto_licence env t s q \<longleftrightarrow>
     auto_applies env (toolPermissionContext s) \<and> \<not> requiresUserInteraction t \<and>
     \<not> (\<exists>why. reason_of q = Some (SafetyCheck why False)) \<and>
     (isAutoModeAllowlistedTool (extraSafeTools env) (tool_name t) \<or>
      (\<exists>u w. tool_name t \<notin> {AGENT_TOOL_NAME, REPL_TOOL_NAME} \<and>
             checkPermissions env 2 (with_mode AcceptEdits s) = CheckResult (PAllow u w)) \<or>
      (\<exists>y. classifier env = Classified y \<and> \<not> shouldBlock y))"

definition hook_licence :: "'i gate_env \<Rightarrow> gate_session \<Rightarrow> bool" where
  "hook_licence env s \<longleftrightarrow>
     shouldAvoidPermissionPrompts (toolPermissionContext s) \<and>
     \<not> auto_applies env (toolPermissionContext s) \<and> (\<exists>u p. HookAllow u p \<in> set (hooks env))"

lemma after_rules_allow:
  "is_allow (after_rules env t input ctx r) \<Longrightarrow>
     r = after_rules env t input ctx r \<or> shouldBypassPermissions ctx \<or>
     toolAlwaysAllowedRule (build env) ctx t \<noteq> None \<and> \<not> shellBroadAllowRequiresToolDecision t r"
  by (auto simp: after_rules_def split: option.splits if_splits permission_result.splits)

lemma inner_shape:
  "hasPermissionsToUseToolInner env t input s = (Inr r, s1) \<Longrightarrow> is_allow r \<or> is_ask r \<or> is_deny r"
  by (cases r)
    (auto simp: hasPermissionsToUseToolInner_def after_rules_def Let_def rule_denial_def rule_question_def
      ask_rule_result_def safety_result_def
      split: if_splits option.splits sum.splits permission_result.splits)

lemma inner_allow:
  assumes "hasPermissionsToUseToolInner env t input s = (Inr d, s1)" "is_allow d"
  shows "\<not> aborted s \<and> getDenyRuleForTool (build env) (toolPermissionContext s) t = None \<and>
    direct_licence env t s d \<and> s1 = after_check env s"
proof -
  have a: "\<not> aborted s" using assms by (auto simp: hasPermissionsToUseToolInner_def)
  have dn: "getDenyRuleForTool (build env) (toolPermissionContext s) t = None"
    using assms a by (auto simp: hasPermissionsToUseToolInner_def Let_def split: option.splits)
  have ak: "(if canSandboxAutoAllow env t then None
      else getAskRuleForTool (build env) (toolPermissionContext s) t) = None"
    using assms a dn by (auto simp: hasPermissionsToUseToolInner_def Let_def split: option.splits)
  obtain r where r: "tool_check env t s = Inr r"
    using assms a dn ak by (auto simp: hasPermissionsToUseToolInner_def Let_def split: sum.splits)
  then show ?thesis
    using assms a dn ak after_rules_allow [of env t input "toolPermissionContext (after_check env s)" r]
    by (auto simp: hasPermissionsToUseToolInner_def Let_def direct_licence_def ask_rule_result_def
        safety_result_def split: if_splits)
qed

lemma inner_question:
  assumes "hasPermissionsToUseToolInner env t input s = (Inr q, s1)" "is_ask q"
  shows "\<not> aborted s \<and> getDenyRuleForTool (build env) (toolPermissionContext s) t = None"
  using assms by (auto simp: hasPermissionsToUseToolInner_def Let_def split: if_splits option.splits)

lemma denial_limit_not_allow:
  "handleDenialLimitExceeded d h why r s = Some (Inr x, s') \<Longrightarrow> is_ask r \<Longrightarrow> is_ask x"
  by (cases r) (auto simp: handleDenialLimitExceeded_def Let_def split: if_splits)

lemma classifier_allow:
  "classifier_decision env t input h r s s4 y = (Inr d, s') \<Longrightarrow> is_ask r \<Longrightarrow> is_allow d \<Longrightarrow> \<not> shouldBlock y"
  by (cases r) (auto simp: classifier_decision_def Let_def
      split: if_splits option.splits dest: denial_limit_not_allow)

lemma allowlist_allow:
  assumes "allowlist_or_classifier env t input h r s s3 = (Inr d, s')" "is_ask r" "is_allow d"
  shows "isAutoModeAllowlistedTool (extraSafeTools env) (tool_name t) \<or>
    (\<exists>y. classifier env = Classified y \<and> \<not> shouldBlock y)"
  using assms
  by (auto simp: allowlist_or_classifier_def split: if_splits classifier_outcome.splits
      dest: classifier_allow)

lemma auto_allow:
  assumes "auto_mode_decision env t input q s = (Inr d, s')" "is_ask q" "is_allow d"
    and "auto_applies env (toolPermissionContext s)"
  shows "auto_licence env t s q"
  using assms
  by (auto simp: auto_mode_decision_def auto_licence_def Let_def async_denial_def
      split: if_splits check_outcome.splits permission_result.splits option.splits decision_reason.splits
      dest: allowlist_allow)

lemma hooks_allow:
  "runPermissionRequestHooks env input hs s = (Some d, s') \<Longrightarrow> is_allow d \<Longrightarrow> \<exists>u p. HookAllow u p \<in> set hs"
  by (induction env input hs s rule: runPermissionRequestHooks.induct) auto

lemma headless_allow:
  "headless_decision env t input s = (Inr d, s') \<Longrightarrow> is_allow d \<Longrightarrow> \<exists>u p. HookAllow u p \<in> set (hooks env)"
  by (auto simp: headless_decision_def split: prod.splits option.splits dest: hooks_allow)

lemma denial_limit_headless:
  "handleDenialLimitExceeded d True why r s = Some (Inr x, s') \<Longrightarrow> False"
  by (auto simp: handleDenialLimitExceeded_def split: if_splits)

definition fail_open :: "'i gate_env \<Rightarrow> bool" where
  "fail_open env \<longleftrightarrow>
     (\<exists>y. classifier env = Classified y \<and> shouldBlock y \<and> unavailable y \<and> \<not> iron_gate_closed env)"

lemma classifier_ask_headless:
  "classifier_decision env t input True r s s4 y = (Inr d, s') \<Longrightarrow> is_ask d \<Longrightarrow> is_ask r \<Longrightarrow>
     shouldBlock y \<and> unavailable y \<and> \<not> iron_gate_closed env"
  by (auto simp: classifier_decision_def Let_def split: if_splits option.splits
      dest: denial_limit_headless)

lemma allowlist_ask_headless:
  "allowlist_or_classifier env t input True r s s3 = (Inr d, s') \<Longrightarrow> is_ask d \<Longrightarrow> is_ask r \<Longrightarrow> fail_open env"
  by (auto simp: allowlist_or_classifier_def fail_open_def split: if_splits classifier_outcome.splits
      dest: classifier_ask_headless)

lemma auto_ask_headless:
  assumes "auto_mode_decision env t input q s = (Inr d, s')" "is_ask q" "is_ask d"
    and "shouldAvoidPermissionPrompts (toolPermissionContext s)"
  shows "requiresUserInteraction t \<or> fail_open env"
  using assms
  by (auto simp: auto_mode_decision_def Let_def async_denial_def
      split: if_splits check_outcome.splits permission_result.splits
      dest: allowlist_ask_headless)

lemma hooks_not_ask:
  "runPermissionRequestHooks env input hs s = (Some d, s') \<Longrightarrow> \<not> is_ask d"
  by (induction env input hs s rule: runPermissionRequestHooks.induct) (auto split: if_splits)

lemma headless_not_ask: "headless_decision env t input s = (Inr d, s') \<Longrightarrow> \<not> is_ask d"
  by (auto simp: headless_decision_def split: prod.splits option.splits dest: hooks_not_ask)

section \<open>Properties\<close>

text \<open>
  C3: A deny rule for the whole tool is final.  If any source of the context denies the tool's
  permission name, the tool use is denied, in every mode (bypass and auto included), whatever the
  tool's own check, the classifier and the hooks would say, and the session is not changed by the
  gate.
\<close>

theorem deny_rule_dominates:
  assumes "\<not> aborted s" "rs \<in> set (alwaysDenyRules (toolPermissionContext s) src)"
    and "permissionRuleValueFromString (build env) rs = tool_rule (nameForRuleMatch t)"
  shows "\<exists>rule. ruleBehavior rule = Deny \<and> toolMatchesRule t rule \<and>
    hasPermissionsToUseTool env t input s = (Inr (rule_denial t rule), after_inner env s)"
proof -
  obtain rule where r: "getDenyRuleForTool (build env) (toolPermissionContext s) t = Some rule"
      "ruleBehavior rule = Deny" "toolMatchesRule t rule"
    using deny_rule_found [OF assms(2,3)] by blast
  then have "hasPermissionsToUseToolInner env t input s = (Inr (rule_denial t rule), s)"
    using assms(1) by (simp add: hasPermissionsToUseToolInner_def Let_def)
  then show ?thesis using r by (auto simp: hasPermissionsToUseTool_def Let_def)
qed

lemma licence_of_allow:
  assumes "hasPermissionsToUseTool env t input s = (Inr d, s')" "is_allow d"
  shows "getDenyRuleForTool (build env) (toolPermissionContext s) t = None \<and>
    (direct_licence env t s d \<or>
     (\<exists>q s1. hasPermissionsToUseToolInner env t input s = (Inr q, s1) \<and> is_ask q \<and>
        mode (toolPermissionContext (after_inner env s1)) \<noteq> DontAsk \<and>
        (auto_licence env t (after_inner env s1) q \<or> hook_licence env (after_inner env s1))))"
proof -
  obtain q s1 where q: "hasPermissionsToUseToolInner env t input s = (Inr q, s1)"
    using assms(1) by (auto simp: hasPermissionsToUseTool_def split: prod.splits sum.splits)
  let ?s2 = "after_inner env s1"
  consider "is_allow q" | "is_ask q" | "is_deny q" using inner_shape [OF q] by blast
  then show ?thesis
  proof cases
    case 1
    then show ?thesis using inner_allow [OF q] assms(1) q by (auto simp: hasPermissionsToUseTool_def Let_def)
  next
    case 2
    then have na: "\<not> is_allow q" by simp
    have dn: "getDenyRuleForTool (build env) (toolPermissionContext s) t = None"
      using inner_question [OF q 2] by simp
    have m: "mode (toolPermissionContext ?s2) \<noteq> DontAsk"
      using assms q 2 na by (auto simp: hasPermissionsToUseTool_def Let_def)
    have "auto_licence env t ?s2 q \<or> hook_licence env ?s2"
    proof (cases "auto_applies env (toolPermissionContext ?s2)")
      case True
      then have "auto_mode_decision env t input q ?s2 = (Inr d, s')"
        using assms q 2 na m by (auto simp: hasPermissionsToUseTool_def Let_def)
      then show ?thesis using auto_allow [OF _ 2 assms(2) True] by blast
    next
      case False
      then have "shouldAvoidPermissionPrompts (toolPermissionContext ?s2)"
          "headless_decision env t input ?s2 = (Inr d, s')"
        using assms q 2 na m by (auto simp: hasPermissionsToUseTool_def Let_def split: if_splits)
      then show ?thesis using headless_allow [of env t input ?s2 d s'] assms(2) False
        by (auto simp: hook_licence_def)
    qed
    then show ?thesis using dn q 2 m by blast
  next
    case 3
    then show ?thesis using assms q by (auto simp: hasPermissionsToUseTool_def Let_def)
  qed
qed

text \<open>
  C4: Every permission has a licence.  When the gate allows a tool use, no deny rule matched, and
  one of three things holds.  Either the tool's own check raised none of the bypass-immune
  objections (a denial, an ask rule, a safety check, a required interaction), no ask rule covered
  the tool outside the sandbox, and the check itself, the bypass mode or an allow rule allowed it.
  Or the answer was a question, auto mode applies, the question was no safety check closed to the
  classifier, and the tool is on the allowlist, the accept-edits check allowed it or the classifier
  did not block it.  Or prompts are not available and a hook allowed it.
\<close>

theorem allow_needs_licence:
  assumes "hasPermissionsToUseTool env t input s = (Inr d, s')" "is_allow d"
  shows "getDenyRuleForTool (build env) (toolPermissionContext s) t = None \<and>
    (direct_licence env t s d \<or>
     (\<exists>q s1. hasPermissionsToUseToolInner env t input s = (Inr q, s1) \<and> is_ask q \<and>
        mode (toolPermissionContext (after_inner env s1)) \<noteq> DontAsk \<and>
        (auto_licence env t (after_inner env s1) q \<or> hook_licence env (after_inner env s1))))"
  using assms by (rule licence_of_allow)

text \<open>
  Who may be asked.  When the gate answers with a question, the mode is not don't-ask; and if
  prompts are not available to the caller, auto mode applies and either the tool requires
  interaction or the classifier was unavailable with its gate open.
\<close>

theorem question_needs_user:
  assumes "hasPermissionsToUseTool env t input s = (Inr d, s')" "is_ask d"
    and "hasPermissionsToUseToolInner env t input s = (Inr q, s1)"
  shows "mode (toolPermissionContext (after_inner env s1)) \<noteq> DontAsk \<and>
    (shouldAvoidPermissionPrompts (toolPermissionContext (after_inner env s1)) \<longrightarrow>
       auto_applies env (toolPermissionContext (after_inner env s1)) \<and>
       (requiresUserInteraction t \<or> fail_open env))"
proof -
  let ?s2 = "after_inner env s1"
  have na: "\<not> is_allow d" and nd: "\<not> is_deny d" using assms(2) by auto
  have q: "is_ask q"
    using assms inner_shape [OF assms(3)] na nd by (auto simp: hasPermissionsToUseTool_def Let_def)
  then have nq: "\<not> is_allow q" by simp
  have m: "mode (toolPermissionContext ?s2) \<noteq> DontAsk"
    using assms q nq by (auto simp: hasPermissionsToUseTool_def Let_def)
  have "requiresUserInteraction t \<or> fail_open env"
    if h: "shouldAvoidPermissionPrompts (toolPermissionContext ?s2)"
      and a: "auto_applies env (toolPermissionContext ?s2)"
  proof -
    have "auto_mode_decision env t input q ?s2 = (Inr d, s')"
      using assms(1,3) q nq m a by (simp add: hasPermissionsToUseTool_def Let_def)
    then show ?thesis using auto_ask_headless [OF _ q assms(2) h] by blast
  qed
  moreover have "auto_applies env (toolPermissionContext ?s2)"
    if h: "shouldAvoidPermissionPrompts (toolPermissionContext ?s2)"
  proof (rule ccontr)
    assume "\<not> auto_applies env (toolPermissionContext ?s2)"
    then have "headless_decision env t input ?s2 = (Inr d, s')"
      using assms(1,3) q nq m h by (simp add: hasPermissionsToUseTool_def Let_def)
    then show False using headless_not_ask [of env t input ?s2 d s'] assms(2) by blast
  qed
  ultimately show ?thesis using m by blast
qed

text \<open>
  A safety check that is closed to the classifier cannot be waived by a mode.  When the tool's
  check answers with such a question, the tool use is allowed only if prompts are not available
  and a hook allows it: not in bypass mode, not by an allow rule, not by the accept-edits check,
  the allowlist or the classifier.
\<close>

theorem safety_check_immune:
  assumes "checkPermissions env 1 s = CheckResult (PAsk m u (Some (SafetyCheck why False)) sugg path)"
    and "canSandboxAutoAllow env t \<or> getAskRuleForTool (build env) (toolPermissionContext s) t = None"
    and "hasPermissionsToUseTool env t input s = (Inr d, s')" "is_allow d"
  shows "hook_licence env (after_inner env (after_check env s))"
proof -
  let ?q = "PAsk m u (Some (SafetyCheck why False)) sugg path"
  have c: "tool_check env t s = Inr ?q" using assms(1) by (simp add: tool_check_def)
  have na: "\<not> direct_licence env t s d"
    using c by (auto simp: direct_licence_def safety_result_def)
  have lic: "getDenyRuleForTool (build env) (toolPermissionContext s) t = None"
    "\<exists>q s1. hasPermissionsToUseToolInner env t input s = (Inr q, s1) \<and>
      (auto_licence env t (after_inner env s1) q \<or> hook_licence env (after_inner env s1))"
    using licence_of_allow [OF assms(3,4)] na by blast+
  moreover have "safety_result ?q" by (simp add: safety_result_def)
  then have "hasPermissionsToUseToolInner env t input s \<in> {(Inl [], s), (Inr ?q, after_check env s)}"
    using assms(2) c lic(1) by (auto simp: hasPermissionsToUseToolInner_def Let_def split: if_splits)
  ultimately show ?thesis by (auto simp: auto_licence_def)
qed

text \<open>
  The rule-based check that callers use under a hook's approval is exactly what bypass mode
  respects.  For a tool that requires no interaction, in bypass mode, the gate throws what the
  check throws, returns the objection the check returns, and allows the use when the check has
  none, with the same session afterwards.
\<close>

theorem rule_based_is_bypass:
  assumes "\<not> aborted s" "\<not> requiresUserInteraction t"
    and "shouldBypassPermissions (toolPermissionContext (after_check env s))"
  shows "case checkRuleBasedPermissions env t s of
      (Inl m, s1) \<Rightarrow> hasPermissionsToUseToolInner env t input s = (Inl m, s1)
    | (Inr (Some r), s1) \<Rightarrow> hasPermissionsToUseToolInner env t input s = (Inr r, s1)
    | (Inr None, s1) \<Rightarrow> \<exists>u. hasPermissionsToUseToolInner env t input s =
        (Inr (PAllow (Some u) (Some (ModeReason (mode (toolPermissionContext s1))))), s1)"
  using assms
  by (auto simp: checkRuleBasedPermissions_def hasPermissionsToUseToolInner_def Let_def after_rules_def
      split: option.splits sum.splits)

text \<open>
  The classifier's blocks are limited.  In auto mode, when the classifier blocks a use that
  neither the accept-edits check nor the allowlist lets through and this is the third denial in a
  row or the twentieth of the session, the use is not silently denied again: the user is asked,
  with the classifier's reason, and where no prompt is possible the agent is aborted.
\<close>

theorem denial_limit_reached:
  fixes env :: "'i gate_env"
  assumes "is_ask q" "\<not> requiresUserInteraction t" "tool_name t \<noteq> POWERSHELL_TOOL_NAME"
    and "\<not> isAutoModeAllowlistedTool (extraSafeTools env) (tool_name t)"
    and "\<not> (\<exists>why. reason_of q = Some (SafetyCheck why False))"
    and "checkPermissions env 2 (with_mode AcceptEdits s) = CheckResult r \<and> \<not> is_allow r \<or>
         checkPermissions env 2 (with_mode AcceptEdits s) = CheckFailed"
    and "classifier env = Classified y" "shouldBlock y" "\<not> transcriptTooLong y" "\<not> unavailable y"
    and "sc = after_classifier env
           (if tool_name t \<in> {AGENT_TOOL_NAME, REPL_TOOL_NAME} then s else after_accept env s)"
    and "consecutiveDenials (current_denials s sc) \<ge> 2 \<or> totalDenials (current_denials s sc) \<ge> 19"
  shows "case auto_mode_decision env t input q s of
      (Inl m, _) \<Rightarrow> shouldAvoidPermissionPrompts (toolPermissionContext s)
    | (Inr d, _) \<Rightarrow> \<not> shouldAvoidPermissionPrompts (toolPermissionContext s) \<and> is_ask d \<and>
        (\<exists>c why. reason_of d = Some (ClassifierReason c why))"
proof -
  let ?h = "shouldAvoidPermissionPrompts (toolPermissionContext s)"
  let ?d = "recordDenial (current_denials s sc)"
  have fb: "shouldFallbackToPrompting ?d"
    using assms(12) by (auto simp: shouldFallbackToPrompting_def recordDenial_def maxConsecutive_def maxTotal_def)
  have lim: "case handleDenialLimitExceeded ?d ?h (yolo_reason y) q s' of
      Some (Inl m, _) \<Rightarrow> ?h
    | Some (Inr d, _) \<Rightarrow> \<not> ?h \<and> is_ask d \<and> (\<exists>c why. reason_of d = Some (ClassifierReason c why))
    | None \<Rightarrow> False" for s'
    using fb assms(1) by (cases q) (simp_all add: handleDenialLimitExceeded_def Let_def)
  have cd: "classifier_decision env t input ?h q s sc y =
      (case handleDenialLimitExceeded ?d ?h (yolo_reason y) q (persistDenialState ?d sc) of
         Some res \<Rightarrow> res
       | None \<Rightarrow> (Inr (PDeny (buildYoloRejectionMessage (build env) (yolo_reason y))
           (ClassifierReason ''auto-mode'' (yolo_reason y))), persistDenialState ?d sc))"
    using assms(8-10) by (simp add: classifier_decision_def Let_def)
  have al: "allowlist_or_classifier env t input ?h q s s3 =
      classifier_decision env t input ?h q s (after_classifier env s3) y" for s3
    using assms(4,7) by (simp add: allowlist_or_classifier_def)
  have ns: "\<not> (case reason_of q of Some (SafetyCheck _ approvable) \<Rightarrow> \<not> approvable | _ \<Rightarrow> False)"
    using assms(5) by (auto split: option.splits decision_reason.splits)
  have "auto_mode_decision env t input q s = classifier_decision env t input ?h q s sc y"
    using ns assms(2,3,6,11) al
    by (auto simp: auto_mode_decision_def Let_def split: permission_result.splits)
  then show ?thesis
    using lim [of "persistDenialState ?d sc"] by (auto simp: cd split: option.splits sum.splits prod.splits)
qed

text \<open>
  An ask rule on a tool removes the immunity of its safety checks in auto mode.  The rule is
  found before the tool's check runs, so the question carries the rule as its reason, and a
  classifier that does not block allows the use although the check answers with a safety check
  that is closed to the classifier.
\<close>

theorem ask_rule_hides_safety_check:
  assumes "\<not> aborted s" "getDenyRuleForTool (build env) (toolPermissionContext s) t = None"
    and "getAskRuleForTool (build env) (toolPermissionContext s) t = Some rule" "\<not> canSandboxAutoAllow env t"
    and "\<And>n s. checkPermissions env n s = CheckResult (PAsk m u (Some (SafetyCheck why False)) sugg path)"
    and "auto_applies env (toolPermissionContext (after_inner env s))"
    and "mode (toolPermissionContext (after_inner env s)) \<noteq> DontAsk"
    and "\<not> requiresUserInteraction t" "tool_name t \<noteq> POWERSHELL_TOOL_NAME"
    and "classifier env = Classified y" "\<not> shouldBlock y"
  shows "\<exists>s' w. hasPermissionsToUseTool env t input s = (Inr (PAllow (Some input) w), s')"
proof -
  have "hasPermissionsToUseToolInner env t input s = (Inr (rule_question env t rule), s)"
    using assms(1-4) by (simp add: hasPermissionsToUseToolInner_def Let_def)
  then have "hasPermissionsToUseTool env t input s =
      auto_mode_decision env t input (rule_question env t rule) (after_inner env s)"
    using assms(6,7) by (simp add: hasPermissionsToUseTool_def Let_def)
  then show ?thesis
    using assms(5,8-11)
    by (simp add: auto_mode_decision_def Let_def rule_question_def allowlist_or_classifier_def
        classifier_decision_def)
qed

text \<open>
  The agents that are offered are those without a deny rule: the bulk filter, which parses the
  rules once, agrees with the lookup for one agent.
\<close>

theorem filter_agents_agrees:
  "filterDeniedAgents f agents ctx name =
     filter (\<lambda>agent. getDenyRuleForAgent f ctx name (fst agent) = None) agents"
proof -
  have "set (foldl (\<lambda>acc rule. if toolName (ruleValue rule) = name
            then (case ruleContent (ruleValue rule) of None \<Rightarrow> acc | Some c \<Rightarrow> c # acc) else acc) A rules) =
      set A \<union> {c. \<exists>rule\<in>set rules. toolName (ruleValue rule) = name \<and> ruleContent (ruleValue rule) = Some c}"
    for A rules
    by (induction rules arbitrary: A) (auto split: option.splits)
  then show ?thesis
    by (simp add: filterDeniedAgents_def getDenyRuleForAgent_def find_None_iff' Let_def)
      (rule filter_cong, auto)
qed

text \<open>
  A server-level rule governs exactly its server.  For an MCP tool and a rule that names a
  server (alone or with the star for all its tools), where both server names are normalised and
  have no double and no final underscore, the rule matches the tool if and only if the names are
  the same.
\<close>

theorem mcp_server_rule:
  assumes "mcpInfo t = Some (srv, tn)"
    and "index_of ''__'' (normalizeNameForMCP srv) = None" "normalizeNameForMCP srv \<noteq> []"
    and "last (normalizeNameForMCP srv) \<noteq> CHR ''_''"
    and "index_of ''__'' n = None" "n \<noteq> []" "last n \<noteq> CHR ''_''"
    and "r \<in> {tool_rule (''mcp__'' @ n), tool_rule (''mcp__'' @ n @ ''__*'')}"
  shows "toolMatchesRule t \<lparr>source = src, ruleBehavior = b, ruleValue = r\<rparr> \<longleftrightarrow> n = normalizeNameForMCP srv"
proof -
  let ?S = "normalizeNameForMCP srv" and ?T = "normalizeNameForMCP tn"
  have name: "nameForRuleMatch t = ''mcp__'' @ ?S @ ''__'' @ ?T"
    using assms(1)
    by (simp add: nameForRuleMatch_def getToolNameForPermissionCheck_def buildMcpToolName_def getMcpPrefix_def)
  have ti: "mcpInfoFromString (nameForRuleMatch t) = Some \<lparr>serverName = ?S, mcpToolName = Some ?T\<rparr>"
    unfolding name by (rule mcp_parse_server_tool) (use assms in auto)
  have ri: "\<exists>k. mcpInfoFromString (toolName r) = Some \<lparr>serverName = n, mcpToolName = k\<rparr> \<and> k \<in> {None, Some ''*''}"
    using assms(8) mcp_parse_server [OF assms(5,6)] mcp_parse_server_tool [OF assms(5-7), of "''*''"]
    by (auto simp: tool_rule_def)
  have "toolName r = nameForRuleMatch t \<Longrightarrow> n = ?S" using ti ri by auto
  moreover have "ruleContent r = None" using assms(8) by (auto simp: tool_rule_def)
  ultimately show ?thesis using ti ri by (auto simp: toolMatchesRule_def)
qed

text \<open>
  The rule of a server whose normalised name ends in an underscore (a name such as
  \<open>my.\<close>) does not govern it: the qualified name of its tools is parsed with the underscore on
  the tool, so the rule for the server matches none of them, and the rule for the server without
  the underscore matches them all.
\<close>

theorem mcp_server_rule_edge:
  assumes "mcpInfo t = Some (srv, tn)"
    and "index_of ''__'' (normalizeNameForMCP srv) = None" "last (normalizeNameForMCP srv) = CHR ''_''"
    and "butlast (normalizeNameForMCP srv) \<noteq> []"
  shows "\<not> toolMatchesRule t \<lparr>source = src, ruleBehavior = b,
      ruleValue = tool_rule (''mcp__'' @ normalizeNameForMCP srv)\<rparr> \<and>
    toolMatchesRule t \<lparr>source = src, ruleBehavior = b,
      ruleValue = tool_rule (''mcp__'' @ butlast (normalizeNameForMCP srv))\<rparr>"
proof -
  let ?S = "normalizeNameForMCP srv" and ?T = "normalizeNameForMCP tn"
  have name: "nameForRuleMatch t = ''mcp__'' @ ?S @ ''__'' @ ?T"
    using assms(1)
    by (simp add: nameForRuleMatch_def getToolNameForPermissionCheck_def buildMcpToolName_def getMcpPrefix_def)
  have ti: "mcpInfoFromString (nameForRuleMatch t) =
      Some \<lparr>serverName = butlast ?S, mcpToolName = Some (''_'' @ ?T)\<rparr>"
    unfolding name by (rule mcp_parse_edge) (use assms in auto)
  have ne1: "?S \<noteq> []" using assms(4) by auto
  then have "length (butlast ?S) < length ?S" by simp
  then have "butlast ?S \<noteq> ?S" by (metis less_irrefl)
  note ne = ne1 this
  have "index_of ''__'' (butlast ?S) = None"
    using assms(2) by (auto simp: index_of_pair_None nth_butlast)
  then have "mcpInfoFromString (''mcp__'' @ butlast ?S) = Some \<lparr>serverName = butlast ?S, mcpToolName = None\<rparr>"
    using assms(4) by (rule mcp_parse_server)
  moreover have "mcpInfoFromString (''mcp__'' @ ?S) = Some \<lparr>serverName = ?S, mcpToolName = None\<rparr>"
    using assms(2) ne(1) by (rule mcp_parse_server)
  moreover have "''mcp__'' @ ?S \<noteq> nameForRuleMatch t" by (simp add: name)
  ultimately show ?thesis using ti ne by (auto simp: toolMatchesRule_def tool_rule_def)
qed

section \<open>Concrete sessions\<close>

text \<open>An environment in which nothing else happens, and a session without rules.\<close>

definition calm_env :: "'i check_outcome \<Rightarrow> classifier_outcome \<Rightarrow> 'i hook_result list \<Rightarrow> 'i gate_env" where
  "calm_env c y hs = \<lparr>build = all_off\<lparr>transcript_classifier := True\<rparr>,
     io = \<lparr>has_path = (\<lambda>_. True), can_write = (\<lambda>_. True)\<rparr>,
     extractOutputRedirections = (\<lambda>s. (s, 0)), isSandboxingEnabled = False,
     isAutoAllowBashIfSandboxedEnabled = False, shouldUseSandbox = False,
     checkPermissions = (\<lambda>_ _. c), isAutoModeActive = False, extraSafeTools = [], classifier = y,
     iron_gate_closed = True, hooks = hs, after_check = (\<lambda>s. s), after_inner = (\<lambda>s. s),
     after_accept = (\<lambda>s. s), after_classifier = (\<lambda>s. s), after_hooks = (\<lambda>s. s)\<rparr>"

definition calm_session :: "tool_context \<Rightarrow> gate_session" where
  "calm_session ctx = \<lparr>toolPermissionContext = ctx, denialTracking = None, localDenialTracking = None,
     settings = (\<lambda>_. FileAbsent), aborted = False\<rparr>"

definition plain_tool :: "string \<Rightarrow> tool" where
  "plain_tool n = \<lparr>tool_name = n, mcpInfo = None, requiresUserInteraction = False\<rparr>"

definition blocking :: yolo_result where
  "blocking = \<lparr>shouldBlock = True, yolo_reason = ''risky'', unavailable = False,
     transcriptTooLong = False, yolo_model = ''m''\<rparr>"

definition context_with :: "permission_mode \<Rightarrow> string list \<Rightarrow> string list \<Rightarrow> tool_context" where
  "context_with m denied asked = getEmptyToolPermissionContext\<lparr>mode := m,
     alwaysDenyRules := (\<lambda>s. if s = UserSettings then denied else []),
     alwaysAskRules := (\<lambda>s. if s = UserSettings then asked else [])\<rparr>"

lemma calm_env_simps [simp]:
  "transcript_classifier (build (calm_env c y hs))" "\<not> powershell_auto_mode (build (calm_env c y hs))"
  "checkPermissions (calm_env c y hs) n s = c" "classifier (calm_env c y hs) = y" "hooks (calm_env c y hs) = hs"
  "extraSafeTools (calm_env c y hs) = []" "iron_gate_closed (calm_env c y hs)"
  "\<not> isAutoModeActive (calm_env c y hs)" "\<not> canSandboxAutoAllow (calm_env c y hs) t"
  "after_check (calm_env c y hs) s = s" "after_inner (calm_env c y hs) s = s"
  "after_accept (calm_env c y hs) s = s" "after_classifier (calm_env c y hs) s = s"
  "after_hooks (calm_env c y hs) s = s"
  by (simp_all add: calm_env_def all_off_def canSandboxAutoAllow_def)

lemma calm_session_simps [simp]:
  "toolPermissionContext (calm_session ctx) = ctx" "denialTracking (calm_session ctx) = None"
  "localDenialTracking (calm_session ctx) = None" "\<not> aborted (calm_session ctx)"
  by (simp_all add: calm_session_def)

lemma plain_tool_simps [simp]:
  "tool_name (plain_tool n) = n" "\<not> requiresUserInteraction (plain_tool n)" "nameForRuleMatch (plain_tool n) = n"
  by (simp_all add: plain_tool_def nameForRuleMatch_def getToolNameForPermissionCheck_def)

lemma context_with_simps [simp]:
  "mode (context_with m d a) = m" "\<not> shouldAvoidPermissionPrompts (context_with m d a)"
  "alwaysDenyRules (context_with m d a) UserSettings = d"
  "shouldBypassPermissions (context_with m d a) \<longleftrightarrow> m = BypassPermissions"
  by (simp_all add: context_with_def getEmptyToolPermissionContext_def shouldBypassPermissions_def)

lemma auto_applies_calm [simp]: "auto_applies (calm_env c y hs) (context_with m d a) \<longleftrightarrow> m = AutoMode"
  by (simp add: auto_applies_def)

lemma no_rules [simp]:
  "getDenyRuleForTool f (context_with m [] a) t = None"
  "getAskRuleForTool f (context_with m d []) t = None"
  "toolAlwaysAllowedRule f (context_with m d a) t = None"
  by (simp_all add: getDenyRuleForTool_def getDenyRules_def getAskRuleForTool_def getAskRules_def
      toolAlwaysAllowedRule_def getAllowRules_def source_rules_def PERMISSION_RULE_SOURCES_def
      context_with_def getEmptyToolPermissionContext_def)

lemma calm_inner:
  assumes "tool_check (calm_env c y hs) (plain_tool n) (calm_session (context_with m [] [])) = Inr r"
    and "\<not> is_deny r" "\<not> ask_rule_result r" "\<not> safety_result r"
  shows "hasPermissionsToUseToolInner (calm_env c y hs) (plain_tool n) x (calm_session (context_with m [] [])) =
    (Inr (after_rules (calm_env c y hs) (plain_tool n) x (context_with m [] []) r),
     calm_session (context_with m [] []))"
  using assms by (simp add: hasPermissionsToUseToolInner_def Let_def)

lemma deny_rule_dominates_witness:
  "\<exists>rule. hasPermissionsToUseTool (calm_env CheckFailed (ClassifierThrew []) []) (plain_tool ''Write'') ()
      (calm_session (context_with BypassPermissions [''Write''] [])) =
    (Inr (rule_denial (plain_tool ''Write'') rule), calm_session (context_with BypassPermissions [''Write''] []))"
proof -
  let ?s = "calm_session (context_with BypassPermissions [''Write''] [])"
  let ?env = "calm_env CheckFailed (ClassifierThrew []) [] :: unit gate_env"
  have "permissionRuleValueFromString (all_off\<lparr>transcript_classifier := True\<rparr>) ''Write'' = tool_rule ''Write''"
    by code_simp
  then have "\<not> aborted ?s" "''Write'' \<in> set (alwaysDenyRules (toolPermissionContext ?s) UserSettings)"
    "permissionRuleValueFromString (build ?env) ''Write'' = tool_rule (nameForRuleMatch (plain_tool ''Write''))"
    by (simp_all, simp add: calm_env_def)
  from deny_rule_dominates [OF this, of "()"] show ?thesis by auto
qed

lemma allow_needs_licence_witness:
  "direct_licence (calm_env (CheckResult (PAllow None None)) (ClassifierThrew []) []) (plain_tool ''Read'')
     (calm_session (context_with DefaultMode [] [])) (PAllow None None :: unit permission_result)"
proof -
  let ?env = "calm_env (CheckResult (PAllow None None)) (ClassifierThrew []) [] :: unit gate_env"
  let ?s = "calm_session (context_with DefaultMode [] [])"
  have i: "hasPermissionsToUseToolInner ?env (plain_tool ''Read'') () ?s = (Inr (PAllow None None), ?s)"
    by (subst calm_inner [where r = "PAllow None None"])
      (simp_all add: tool_check_def after_rules_def ask_rule_result_def safety_result_def)
  then have "hasPermissionsToUseTool ?env (plain_tool ''Read'') () ?s = (Inr (PAllow None None), ?s)"
    by (simp add: hasPermissionsToUseTool_def reset_on_allow_def)
  from allow_needs_licence [OF this] show ?thesis using i by auto
qed

lemma question_needs_user_witness:
  "mode (toolPermissionContext (calm_session (context_with DefaultMode [] []))) \<noteq> DontAsk \<and>
   hasPermissionsToUseTool (calm_env CheckFailed (ClassifierThrew []) []) (plain_tool ''Write'') ()
     (calm_session (context_with DefaultMode [] [])) =
   (Inr (PAsk (default_request_message ''Write'') None None None None),
    calm_session (context_with DefaultMode [] []))"
proof -
  let ?env = "calm_env CheckFailed (ClassifierThrew []) [] :: unit gate_env"
  let ?s = "calm_session (context_with DefaultMode [] [])"
  let ?q = "PAsk (default_request_message ''Write'') None None None None :: unit permission_result"
  have i: "hasPermissionsToUseToolInner ?env (plain_tool ''Write'') () ?s = (Inr ?q, ?s)"
    by (subst calm_inner [where r = "PPassthrough (default_request_message ''Write'') None None None"])
      (simp_all add: tool_check_def after_rules_def ask_rule_result_def safety_result_def
        request_message_def createPermissionRequestMessage_def)
  then have h: "hasPermissionsToUseTool ?env (plain_tool ''Write'') () ?s = (Inr ?q, ?s)"
    by (simp add: hasPermissionsToUseTool_def)
  have "mode (toolPermissionContext (after_inner ?env ?s)) \<noteq> DontAsk"
    using question_needs_user [OF h _ i] by simp
  then show ?thesis using h by simp
qed

text \<open>A hook is the only licence left for a closed safety check.\<close>

definition headless_context :: tool_context where
  "headless_context = (context_with BypassPermissions [] [])\<lparr>shouldAvoidPermissionPrompts := True\<rparr>"

lemma safety_check_immune_witness:
  "hook_licence (calm_env (CheckResult (PAsk [] None (Some (SafetyCheck ''unc'' False)) None None))
     (ClassifierThrew []) [HookAllow None None] :: unit gate_env) (calm_session headless_context)"
proof -
  let ?q = "PAsk [] None (Some (SafetyCheck ''unc'' False)) None None :: unit permission_result"
  let ?env = "calm_env (CheckResult ?q) (ClassifierThrew []) [HookAllow None None]"
  let ?s = "calm_session headless_context" and ?t = "plain_tool ''Write''"
  have rules: "getDenyRuleForTool f headless_context t = None" "getAskRuleForTool f headless_context t = None" for f t
    using no_rules(1,2) [of f BypassPermissions _ t]
    by (simp_all add: headless_context_def getDenyRuleForTool_def getDenyRules_def getAskRuleForTool_def getAskRules_def)
  have i: "hasPermissionsToUseToolInner ?env ?t () ?s = (Inr ?q, ?s)"
    by (simp add: hasPermissionsToUseToolInner_def rules tool_check_def ask_rule_result_def safety_result_def)
  have h: "hasPermissionsToUseTool ?env ?t () ?s =
      (Inr (PAllow (Some ()) (Some (HookReason ''PermissionRequest'' None))), ?s)"
    using i by (simp add: hasPermissionsToUseTool_def headless_decision_def auto_applies_def headless_context_def)
  have c: "checkPermissions ?env 1 ?s = CheckResult ?q" by simp
  show ?thesis using safety_check_immune [OF c _ h] rules by simp
qed

lemma rule_based_is_bypass_witness:
  "\<exists>u. hasPermissionsToUseToolInner (calm_env CheckFailed (ClassifierThrew []) []) (plain_tool ''Write'') ()
      (calm_session (context_with BypassPermissions [] [])) =
    (Inr (PAllow (Some u) (Some (ModeReason BypassPermissions))), calm_session (context_with BypassPermissions [] []))"
proof -
  let ?env = "calm_env CheckFailed (ClassifierThrew []) [] :: unit gate_env"
  let ?s = "calm_session (context_with BypassPermissions [] [])" and ?t = "plain_tool ''Write''"
  have "checkRuleBasedPermissions ?env ?t ?s = (Inr None, ?s)"
    by (simp add: checkRuleBasedPermissions_def tool_check_def ask_rule_result_def safety_result_def)
  then show ?thesis using rule_based_is_bypass [of ?s ?t ?env "()"] by simp
qed

lemma denial_limit_reached_witness:
  "case auto_mode_decision (calm_env CheckFailed (Classified blocking) []) (plain_tool ''Write'') ()
      (PAsk [] None None None None)
      (calm_session (context_with AutoMode [] [])
         \<lparr>denialTracking := Some \<lparr>consecutiveDenials = 2, totalDenials = 2\<rparr>\<rparr>) of
    (Inl m, _) \<Rightarrow> False | (Inr d, _) \<Rightarrow> is_ask d"
proof -
  let ?env = "calm_env CheckFailed (Classified blocking) [] :: unit gate_env"
  let ?s = "calm_session (context_with AutoMode [] [])
     \<lparr>denialTracking := Some \<lparr>consecutiveDenials = 2, totalDenials = 2\<rparr>\<rparr>"
  have "case auto_mode_decision ?env (plain_tool ''Write'') () (PAsk [] None None None None) ?s of
      (Inl m, _) \<Rightarrow> shouldAvoidPermissionPrompts (toolPermissionContext ?s)
    | (Inr d, _) \<Rightarrow> \<not> shouldAvoidPermissionPrompts (toolPermissionContext ?s) \<and> is_ask d \<and>
        (\<exists>c why. reason_of d = Some (ClassifierReason c why))"
    by (rule denial_limit_reached [where y = blocking and sc = ?s])
      (simp_all add: blocking_def current_denials_def isAutoModeAllowlistedTool_def tool_name_defs)
  then show ?thesis by (auto split: prod.splits sum.splits)
qed

lemma ask_rule_hides_safety_check_witness:
  "\<exists>s' w. hasPermissionsToUseTool
      (calm_env (CheckResult (PAsk [] None (Some (SafetyCheck ''unc'' False)) None None))
         (Classified (blocking\<lparr>shouldBlock := False\<rparr>)) []) (plain_tool ''Write'') ()
      (calm_session (context_with AutoMode [] [''Write''])) = (Inr (PAllow (Some ()) w), s')"
proof -
  let ?q = "PAsk [] None (Some (SafetyCheck ''unc'' False)) None None :: unit permission_result"
  let ?env = "calm_env (CheckResult ?q) (Classified (blocking\<lparr>shouldBlock := False\<rparr>)) []"
  let ?s = "calm_session (context_with AutoMode [] [''Write''])" and ?t = "plain_tool ''Write''"
  have p: "permissionRuleValueFromString (build ?env) ''Write'' = tool_rule ''Write''"
    unfolding calm_env_def by (simp del: permissionRuleValueFromString_def) code_simp
  have "getAskRuleForTool (build ?env) (context_with AutoMode [] [''Write'']) ?t =
      Some \<lparr>source = UserSettings, ruleBehavior = Ask, ruleValue = tool_rule ''Write''\<rparr>"
    by (simp add: getAskRuleForTool_def getAskRules_def source_rules_def PERMISSION_RULE_SOURCES_def p
        context_with_def toolMatchesRule_def tool_rule_def)
  then show ?thesis
    by (intro ask_rule_hides_safety_check [where y = "blocking\<lparr>shouldBlock := False\<rparr>" and m = "[]" and u = None
          and why = "''unc''" and sugg = None and path = None])
      (simp_all add: tool_name_defs)
qed

lemma mcp_server_rule_witness:
  "toolMatchesRule \<lparr>tool_name = ''x'', mcpInfo = Some (''git.hub'', ''push''), requiresUserInteraction = False\<rparr>
     \<lparr>source = UserSettings, ruleBehavior = Deny, ruleValue = tool_rule ''mcp__git_hub__*''\<rparr>"
proof -
  have n: "normalizeNameForMCP ''git.hub'' = ''git_hub''" "index_of ''__'' ''git_hub'' = None" by code_simp+
  let ?t = "\<lparr>tool_name = ''x'', mcpInfo = Some (''git.hub'', ''push''), requiresUserInteraction = False\<rparr>"
  show ?thesis
    using mcp_server_rule [of ?t "''git.hub''" "''push''" "''git_hub''" "tool_rule ''mcp__git_hub__*''"]
    by (simp add: n)
qed

lemma mcp_server_rule_edge_witness:
  "\<not> toolMatchesRule \<lparr>tool_name = ''x'', mcpInfo = Some (''my.'', ''push''), requiresUserInteraction = False\<rparr>
     \<lparr>source = UserSettings, ruleBehavior = Deny, ruleValue = tool_rule ''mcp__my_''\<rparr>"
proof -
  have n: "normalizeNameForMCP ''my.'' = ''my_''" "index_of ''__'' ''my_'' = None" by code_simp+
  let ?t = "\<lparr>tool_name = ''x'', mcpInfo = Some (''my.'', ''push''), requiresUserInteraction = False\<rparr>"
  show ?thesis using mcp_server_rule_edge [of ?t "''my.''" "''push''"] by (simp add: n)
qed

end
