(* ===== verification/Shadowed_Rules.thy ===== *)
theory Shadowed_Rules
  imports Permission_Gate
begin

text \<open>
  The detector of unreachable allow rules, \<open>src/utils/permissions/shadowedRuleDetection.ts\<close>, and
  what its reports say about the gate.
\<close>

datatype shadow_type = ShadowAsk | ShadowDeny

record unreachable_rule =
  u_rule :: permission_rule
  u_reason :: string
  shadowedBy :: permission_rule
  shadowType :: shadow_type
  u_fix :: string

datatype shadow_result = NotShadowed | Shadowed permission_rule shadow_type

definition isSharedSettingSource :: "rule_source \<Rightarrow> bool" where
  "isSharedSettingSource s \<longleftrightarrow> s = ProjectSettings \<or> s = PolicySettings \<or> s = CommandSource"

definition formatSource :: "rule_source \<Rightarrow> string" where
  "formatSource s = permissionRuleSourceDisplayString s"

definition generateFixSuggestion :: "shadow_type \<Rightarrow> permission_rule \<Rightarrow> permission_rule \<Rightarrow> string" where
  "generateFixSuggestion ty shadowing shadowed =
     (let shadowingSource = formatSource (source shadowing);
          shadowedSource = formatSource (source shadowed);
          tool = toolName (ruleValue shadowing);
          kind = (case ty of ShadowDeny \<Rightarrow> ''deny'' | ShadowAsk \<Rightarrow> ''ask'')
      in ''Remove the '' @ [CHR 0x22] @ tool @ [CHR 0x22] @ '' '' @ kind @ '' rule from '' @ shadowingSource @
         '', or remove the specific allow rule from '' @ shadowedSource)"

text \<open>The whole-tool rule that a list has for a tool.\<close>

definition tool_wide :: "string \<Rightarrow> permission_rule \<Rightarrow> bool" where
  "tool_wide name r \<longleftrightarrow> toolName (ruleValue r) = name \<and> ruleContent (ruleValue r) = None"

definition isAllowRuleShadowedByAskRule ::
  "permission_rule \<Rightarrow> permission_rule list \<Rightarrow> bool \<Rightarrow> shadow_result" where
  "isAllowRuleShadowedByAskRule allowRule askRules sandboxAutoAllowEnabled =
     (let name = toolName (ruleValue allowRule) in
      if ruleContent (ruleValue allowRule) = None then NotShadowed
      else case find (tool_wide name) askRules of None \<Rightarrow> NotShadowed
        | Some shadowingAskRule \<Rightarrow>
            if name = BASH_TOOL_NAME \<and> sandboxAutoAllowEnabled \<and>
               \<not> isSharedSettingSource (source shadowingAskRule)
            then NotShadowed else Shadowed shadowingAskRule ShadowAsk)"

definition isAllowRuleShadowedByDenyRule :: "permission_rule \<Rightarrow> permission_rule list \<Rightarrow> shadow_result" where
  "isAllowRuleShadowedByDenyRule allowRule denyRules =
     (if ruleContent (ruleValue allowRule) = None then NotShadowed
      else case find (tool_wide (toolName (ruleValue allowRule))) denyRules of None \<Rightarrow> NotShadowed
        | Some shadowingDenyRule \<Rightarrow> Shadowed shadowingDenyRule ShadowDeny)"

definition unreachable :: "permission_rule \<Rightarrow> permission_rule \<Rightarrow> shadow_type \<Rightarrow> unreachable_rule" where
  "unreachable allowRule w ty =
     (let shadowSource = formatSource (source w); name = toolName (ruleValue w) in
      \<lparr>u_rule = allowRule,
       u_reason = (case ty of
           ShadowDeny \<Rightarrow> ''Blocked by '' @ [CHR 0x22] @ name @ [CHR 0x22] @ '' deny rule (from '' @ shadowSource @ '')''
         | ShadowAsk \<Rightarrow> ''Shadowed by '' @ [CHR 0x22] @ name @ [CHR 0x22] @ '' ask rule (from '' @ shadowSource @ '')''),
       shadowedBy = w, shadowType = ty, u_fix = generateFixSuggestion ty w allowRule\<rparr>)"

definition report :: "features \<Rightarrow> tool_context \<Rightarrow> bool \<Rightarrow> permission_rule \<Rightarrow> unreachable_rule list" where
  "report fl ctx sandboxAutoAllowEnabled allowRule =
     (case isAllowRuleShadowedByDenyRule allowRule (getDenyRules fl ctx) of
        Shadowed w _ \<Rightarrow> [unreachable allowRule w ShadowDeny]
      | NotShadowed \<Rightarrow>
     (case isAllowRuleShadowedByAskRule allowRule (getAskRules fl ctx) sandboxAutoAllowEnabled of
        Shadowed w _ \<Rightarrow> [unreachable allowRule w ShadowAsk]
      | NotShadowed \<Rightarrow> []))"

definition detectUnreachableRules :: "features \<Rightarrow> tool_context \<Rightarrow> bool \<Rightarrow> unreachable_rule list" where
  "detectUnreachableRules fl ctx sandboxAutoAllowEnabled =
     concat (map (report fl ctx sandboxAutoAllowEnabled) (getAllowRules fl ctx))"

section \<open>Reports and the gate\<close>

lemma unreachable_simps [simp]:
  "u_rule (unreachable r w ty) = r" "shadowedBy (unreachable r w ty) = w"
  "shadowType (unreachable r w ty) = ty"
  by (simp_all add: unreachable_def Let_def)

lemma deny_shadow:
  "isAllowRuleShadowedByDenyRule r denyRules = Shadowed w ty \<Longrightarrow>
     ruleContent (ruleValue r) \<noteq> None \<and> w \<in> set denyRules \<and> tool_wide (toolName (ruleValue r)) w"
  by (auto simp: isAllowRuleShadowedByDenyRule_def split: if_splits option.splits dest: find_SomeD)

lemma ask_shadow:
  "isAllowRuleShadowedByAskRule r askRules sb = Shadowed w ty \<Longrightarrow>
     ruleContent (ruleValue r) \<noteq> None \<and> w \<in> set askRules \<and> tool_wide (toolName (ruleValue r)) w"
  by (auto simp: isAllowRuleShadowedByAskRule_def Let_def split: if_splits option.splits dest: find_SomeD)

lemma report_cases:
  assumes "u \<in> set (detectUnreachableRules fl ctx sb)"
  shows "u_rule u \<in> set (getAllowRules fl ctx)" "ruleContent (ruleValue (u_rule u)) \<noteq> None"
    "tool_wide (toolName (ruleValue (u_rule u))) (shadowedBy u)"
    "shadowType u = ShadowDeny \<Longrightarrow> shadowedBy u \<in> set (getDenyRules fl ctx)"
    "shadowType u = ShadowAsk \<Longrightarrow> shadowedBy u \<in> set (getAskRules fl ctx)"
proof -
  obtain r where r: "r \<in> set (getAllowRules fl ctx)" "u \<in> set (report fl ctx sb r)"
    using assms by (auto simp: detectUnreachableRules_def)
  from r(2) consider
      (deny) w ty where "u = unreachable r w ShadowDeny"
        "isAllowRuleShadowedByDenyRule r (getDenyRules fl ctx) = Shadowed w ty"
    | (ask) w ty where "u = unreachable r w ShadowAsk"
        "isAllowRuleShadowedByAskRule r (getAskRules fl ctx) sb = Shadowed w ty"
    by (auto simp: report_def split: shadow_result.splits) metis
  then show "u_rule u \<in> set (getAllowRules fl ctx)" "ruleContent (ruleValue (u_rule u)) \<noteq> None"
    "tool_wide (toolName (ruleValue (u_rule u))) (shadowedBy u)"
    "shadowType u = ShadowDeny \<Longrightarrow> shadowedBy u \<in> set (getDenyRules fl ctx)"
    "shadowType u = ShadowAsk \<Longrightarrow> shadowedBy u \<in> set (getAskRules fl ctx)"
    using r(1) by (cases; auto dest: deny_shadow ask_shadow)+
qed

lemma tool_wide_matches: "tool_wide (nameForRuleMatch t) r \<Longrightarrow> toolMatchesRule t r"
  by (simp add: tool_wide_def toolMatchesRule_def)

text \<open>
  A reported deny shadow is real: every use of the tool the reported rule is for is denied by
  the gate, in every mode, so the allow rule can never take effect.
\<close>

theorem deny_shadow_sound:
  assumes "u \<in> set (detectUnreachableRules (build env) (toolPermissionContext s) sb)"
    and "shadowType u = ShadowDeny" "nameForRuleMatch t = toolName (ruleValue (u_rule u))" "\<not> aborted s"
  shows "\<exists>rule. hasPermissionsToUseTool env t input s = (Inr (rule_denial t rule), after_inner env s)"
proof -
  have "toolMatchesRule t (shadowedBy u)" using report_cases(3) [OF assms(1)] assms(3) tool_wide_matches by metis
  then obtain rule where "getDenyRuleForTool (build env) (toolPermissionContext s) t = Some rule"
    using find_exists [OF report_cases(4) [OF assms(1,2)]] by (auto simp: getDenyRuleForTool_def)
  then have "hasPermissionsToUseToolInner env t input s = (Inr (rule_denial t rule), s)"
    using assms(4) by (simp add: hasPermissionsToUseToolInner_def Let_def)
  then show ?thesis by (auto simp: hasPermissionsToUseTool_def Let_def)
qed

text \<open>
  A reported ask shadow is real: unless the sandbox auto-allow applies to the use, the
  rule-based steps of the gate end in a denial or in the question of an ask rule before the tool's
  own check, which alone reads the content of the allow rule.
\<close>

theorem ask_shadow_sound:
  assumes "u \<in> set (detectUnreachableRules (build env) (toolPermissionContext s) sb)"
    and "shadowType u = ShadowAsk" "nameForRuleMatch t = toolName (ruleValue (u_rule u))" "\<not> aborted s"
    and "\<not> canSandboxAutoAllow env t"
  shows "\<exists>rule. hasPermissionsToUseToolInner env t input s \<in>
    {(Inr (rule_denial t rule), s), (Inr (rule_question env t rule), s)}"
proof -
  have "toolMatchesRule t (shadowedBy u)" using report_cases(3) [OF assms(1)] assms(3) tool_wide_matches by metis
  then obtain rule where "getAskRuleForTool (build env) (toolPermissionContext s) t = Some rule"
    using find_exists [OF report_cases(5) [OF assms(1,2)]] by (auto simp: getAskRuleForTool_def)
  then show ?thesis
    using assms(4,5) by (auto simp: hasPermissionsToUseToolInner_def Let_def split: option.splits)
qed

definition shadow_context :: tool_context where
  "shadow_context = (context_with DefaultMode [''Bash''] [])
     \<lparr>alwaysAllowRules := (\<lambda>s. if s = LocalSettings then [''Bash(ls:*)''] else [])\<rparr>"

definition shadow_question_context :: tool_context where
  "shadow_question_context = (context_with DefaultMode [] [''Bash''])
     \<lparr>alwaysAllowRules := (\<lambda>s. if s = LocalSettings then [''Bash(ls:*)''] else [])\<rparr>"

lemma deny_shadow_sound_witness:
  "\<exists>rule. hasPermissionsToUseTool (calm_env CheckFailed (ClassifierThrew []) []) (plain_tool ''Bash'') ()
     (calm_session shadow_context) = (Inr (rule_denial (plain_tool ''Bash'') rule), calm_session shadow_context)"
proof -
  let ?f = "all_off\<lparr>transcript_classifier := True\<rparr>"
  let ?env = "calm_env CheckFailed (ClassifierThrew []) [] :: unit gate_env"
  have d: "map (\<lambda>u. (shadowType u, toolName (ruleValue (u_rule u)))) (detectUnreachableRules ?f shadow_context False) =
      [(ShadowDeny, ''Bash'')]" by code_simp
  then obtain u where u: "u \<in> set (detectUnreachableRules ?f shadow_context False)" "shadowType u = ShadowDeny"
      "toolName (ruleValue (u_rule u)) = ''Bash''"
    by (cases "detectUnreachableRules ?f shadow_context False") auto
  have b: "build ?env = ?f" by (simp add: calm_env_def)
  show ?thesis
    using deny_shadow_sound [of u ?env "calm_session shadow_context" False "plain_tool ''Bash''" "()"] u
    by (simp add: b)
qed

lemma ask_shadow_sound_witness:
  "\<exists>rule. hasPermissionsToUseToolInner (calm_env CheckFailed (ClassifierThrew []) []) (plain_tool ''Bash'') ()
     (calm_session shadow_question_context) \<in>
     {(Inr (rule_denial (plain_tool ''Bash'') rule), calm_session shadow_question_context),
      (Inr (rule_question (calm_env CheckFailed (ClassifierThrew []) []) (plain_tool ''Bash'') rule),
        calm_session shadow_question_context)}"
proof -
  let ?f = "all_off\<lparr>transcript_classifier := True\<rparr>"
  let ?env = "calm_env CheckFailed (ClassifierThrew []) [] :: unit gate_env"
  have d: "map (\<lambda>u. (shadowType u, toolName (ruleValue (u_rule u)))) (detectUnreachableRules ?f shadow_question_context False) =
      [(ShadowAsk, ''Bash'')]" by code_simp
  then obtain u where u: "u \<in> set (detectUnreachableRules ?f shadow_question_context False)" "shadowType u = ShadowAsk"
      "toolName (ruleValue (u_rule u)) = ''Bash''"
    by (cases "detectUnreachableRules ?f shadow_question_context False") auto
  have b: "build ?env = ?f" by (simp add: calm_env_def)
  show ?thesis
    using ask_shadow_sound [of u ?env "calm_session shadow_question_context" False "plain_tool ''Bash''" "()"] u
    by (simp add: b)
qed

end
