(* ===== verification/Dag_Topology.thy ===== *)
theory Dag_Topology
  imports Prelude "HOL-Library.While_Combinator"
begin

text \<open>
  Task graphs of the coordinator: the specification types of \<open>src/coordinator/dag/types.ts\<close>, Kahn's
  algorithm and the layers of \<open>src/coordinator/dag/runner.ts\<close>.  The contract of the sort is a locale; the
  runners use it through the interpretation at the end of the section on correctness.
\<close>

section \<open>Specifications\<close>

datatype node_kind = Planner | Executor | Critic | Verifier | Voter | Reducer | CustomNode

datatype failure_policy = AbortOnFailure | ContinueOnFailure | FallbackOnFailure

record retry_policy =
  retry_max :: nat
  backoffMs :: nat

record dag_node =
  nid :: string
  kind :: node_kind
  deps :: "string list"
  retryPolicy :: retry_policy
  timeoutMs :: nat
  onFailure :: failure_policy

record dag_spec =
  nodes :: "dag_node list"
  entry :: string
  exit :: string

datatype dag_error = UnknownDependency string string | ContainsCycle

definition ids :: "dag_spec \<Rightarrow> string list" where
  "ids spec = map nid (nodes spec)"

text \<open>\<open>nodeMap.get(id)\<close>: of two nodes with one id the later wins.\<close>

definition node_of :: "dag_spec \<Rightarrow> string \<Rightarrow> dag_node option" where
  "node_of spec i = find (\<lambda>n. nid n = i) (rev (nodes spec))"

section \<open>Kahn's algorithm\<close>

text \<open>The pairs (dependency, node) in the order of the two nested loops.\<close>

definition dag_edges :: "dag_spec \<Rightarrow> (string \<times> string) list" where
  "dag_edges spec = concat (map (\<lambda>n. map (\<lambda>d. (d, nid n)) (deps n)) (nodes spec))"

definition add_edge ::
  "(string \<times> string) \<Rightarrow> (string \<Rightarrow> string list) \<times> (string \<Rightarrow> int) \<Rightarrow> (string \<Rightarrow> string list) \<times> (string \<Rightarrow> int)"
where
  "add_edge e st = (let (d, n) = e; (adjacency, inDegree) = st
     in (adjacency(d := adjacency d @ [n]), inDegree(n := inDegree n + 1)))"

definition build_graph :: "dag_spec \<Rightarrow> (string \<Rightarrow> string list) \<times> (string \<Rightarrow> int)" where
  "build_graph spec = fold add_edge (dag_edges spec) ((\<lambda>_. []), (\<lambda>_. 0))"

text \<open>The inner loop over the successors of the current node.\<close>

fun relax :: "string list \<Rightarrow> (string \<Rightarrow> int) \<Rightarrow> string list \<Rightarrow> (string \<Rightarrow> int) \<times> string list" where
  "relax [] inDegree queue = (inDegree, queue)"
| "relax (next # ns) inDegree queue =
     (let newDeg = inDegree next - 1
      in relax ns (inDegree(next := newDeg)) (if newDeg = 0 then queue @ [next] else queue))"

text \<open>
  The \<open>while\<close> loop.  The fuel is the number of nodes; a property of the next section shows that the loop without a bound
  ends with the same result.
\<close>

fun kahn :: "nat \<Rightarrow> (string \<Rightarrow> string list) \<Rightarrow> (string \<Rightarrow> int) \<Rightarrow> string list \<Rightarrow> string list \<Rightarrow> string list" where
  "kahn fuel adjacency inDegree [] result = result"
| "kahn 0 adjacency inDegree queue result = result"
| "kahn (Suc fuel) adjacency inDegree (current # queue) result =
     (let (inDegree', queue') = relax (adjacency current) inDegree queue
      in kahn fuel adjacency inDegree' queue' (result @ [current]))"

definition topologicalSort :: "dag_spec \<Rightarrow> dag_error + string list" where
  "topologicalSort spec =
     (case find (\<lambda>(d, n). d \<notin> set (ids spec)) (dag_edges spec) of
        Some (d, n) \<Rightarrow> Inl (UnknownDependency n d)
      | None \<Rightarrow>
          (let (adjacency, inDegree) = build_graph spec;
               queue = filter (\<lambda>i. inDegree i = 0) (first_occurrences (ids spec));
               result = kahn (length (nodes spec)) adjacency inDegree queue []
           in if length result \<noteq> length (nodes spec) then Inl ContainsCycle else Inr result))"

section \<open>Correctness of the sort\<close>

definition indeg :: "(string \<times> string) list \<Rightarrow> string set \<Rightarrow> string \<Rightarrow> nat" where
  "indeg es S n = length (filter (\<lambda>(d, m). m = n \<and> d \<notin> S) es)"

lemma fold_add_edge:
  "fold add_edge es (a, g) =
     ((\<lambda>d. a d @ map snd (filter (\<lambda>e. fst e = d) es)), (\<lambda>n. g n + int (indeg es {} n)))"
  by (induction es arbitrary: a g) (auto simp: add_edge_def indeg_def fun_eq_iff)

lemma build_graph:
  "build_graph spec =
     ((\<lambda>d. map snd (filter (\<lambda>e. fst e = d) (dag_edges spec))), (\<lambda>n. int (indeg (dag_edges spec) {} n)))"
  by (simp add: build_graph_def fold_add_edge)

lemma relax_deg: "fst (relax ns g q) k = g k - int (count_list ns k)"
  by (induction ns arbitrary: g q) (auto simp: Let_def)

lemma relax_queue:
  "(\<forall>k. int (count_list ns k) \<le> g k) \<Longrightarrow>
     \<exists>new. snd (relax ns g q) = q @ new \<and> distinct new \<and>
       set new = {k. k \<in> set ns \<and> g k = int (count_list ns k)}"
proof (induction ns g q rule: relax.induct)
  case (2 n ns g q)
  let ?g = "g(n := g n - 1)" and ?q = "if g n - 1 = 0 then q @ [n] else q"
  have "\<forall>k. int (count_list ns k) \<le> ?g k"
  proof
    fix k show "int (count_list ns k) \<le> ?g k" using 2(2) [rule_format, of k] by (auto split: if_splits)
  qed
  from 2(1) [OF refl this] obtain new where new: "snd (relax ns ?g ?q) = ?q @ new" "distinct new"
      "set new = {k. k \<in> set ns \<and> ?g k = int (count_list ns k)}"
    by blast
  have pos: "1 + int (count_list ns n) \<le> g n" using 2(2) [rule_format, of n] by simp
  have r: "relax (n # ns) g q = relax ns ?g ?q" by (simp add: Let_def)
  show ?case
  proof (cases "g n = 1")
    case True
    then have "count_list ns n = 0" using pos by simp
    then have n: "n \<notin> set ns" by (simp add: count_list_0_iff)
    have "snd (relax (n # ns) g q) = q @ n # new" using new(1) True by (simp add: r)
    moreover have "distinct (n # new)" using new(2,3) n by auto
    moreover have "set (n # new) = {k. k \<in> set (n # ns) \<and> g k = int (count_list (n # ns) k)}"
      using new(3) n True by (auto simp: count_list_0_iff)
    ultimately show ?thesis by blast
  next
    case False
    then have "snd (relax (n # ns) g q) = q @ new" using new(1) by (simp add: r)
    moreover have "n \<in> set ns" if "g n = int (count_list (n # ns) n)"
      using that False count_list_0_iff [of ns n] by fastforce
    then have "set new = {k. k \<in> set (n # ns) \<and> g k = int (count_list (n # ns) k)}"
      using new(3) by auto
    ultimately show ?thesis using new(2) by blast
  qed
qed auto

definition kahn_inv :: "(string \<times> string) list \<Rightarrow> string set \<Rightarrow> (string \<Rightarrow> int) \<Rightarrow> string list \<Rightarrow> string list \<Rightarrow> bool"
where
  "kahn_inv es K g Q S \<longleftrightarrow>
     distinct (S @ Q) \<and> set (S @ Q) = {k \<in> K. g k = 0} \<and> (\<forall>k. g k = int (indeg es (set S) k)) \<and>
     (\<forall>d n. (d, n) \<in> set es \<longrightarrow> d \<in> K \<and> n \<in> K) \<and>
     (\<forall>xs n ys. S = xs @ n # ys \<longrightarrow> (\<forall>d. (d, n) \<in> set es \<longrightarrow> d \<in> set xs))"

lemma kahn_invD:
  assumes "kahn_inv es K g Q S"
  shows "distinct (S @ Q)" "set (S @ Q) = {k \<in> K. g k = 0}" "g k = int (indeg es (set S) k)"
    "(d, n) \<in> set es \<Longrightarrow> d \<in> K \<and> n \<in> K"
    "S = xs @ n # ys \<Longrightarrow> (d, n) \<in> set es \<Longrightarrow> d \<in> set xs"
  using assms unfolding kahn_inv_def by blast+

lemma indeg_zero: "indeg es S n = 0 \<longleftrightarrow> (\<forall>d. (d, n) \<in> set es \<longrightarrow> d \<in> S)"
  by (auto simp: indeg_def filter_empty_conv)

lemma indeg_insert:
  "c \<notin> S \<Longrightarrow> indeg es S n = indeg es (insert c S) n + count_list (map snd (filter (\<lambda>e. fst e = c) es)) n"
  unfolding indeg_def by (induction es) auto

lemma kahn_step:
  assumes "kahn_inv es K g (c # Q) S"
  defines "r \<equiv> relax (map snd (filter (\<lambda>e. fst e = c) es)) g Q"
  shows "kahn_inv es K (fst r) (snd r) (S @ [c])"
proof -
  let ?ns = "map snd (filter (\<lambda>e. fst e = c) es)"
  have inv: "distinct (S @ c # Q)" "set (S @ c # Q) = {k \<in> K. g k = 0}" "\<And>k. g k = int (indeg es (set S) k)"
    "\<And>d n. (d, n) \<in> set es \<Longrightarrow> d \<in> K \<and> n \<in> K"
    "\<And>xs n ys d. S = xs @ n # ys \<Longrightarrow> (d, n) \<in> set es \<Longrightarrow> d \<in> set xs"
    using kahn_invD [OF assms(1)] by blast+
  have c: "c \<notin> set S" "c \<in> K" "g c = 0" using inv(1,2) by auto
  have split: "g k = int (indeg es (insert c (set S)) k) + int (count_list ?ns k)" for k
    using inv(3) [of k] indeg_insert [OF c(1), of es k] by simp
  then have deg: "fst r = (\<lambda>k. int (indeg es (insert c (set S)) k))"
    unfolding r_def fun_eq_iff relax_deg by simp
  have "\<forall>k. int (count_list ?ns k) \<le> g k" using split by simp
  then obtain new where new: "snd r = Q @ new" "distinct new"
      "set new = {k. k \<in> set ?ns \<and> g k = int (count_list ?ns k)}"
    unfolding r_def by (rule relax_queue [THEN exE]) blast
  have new_iff: "k \<in> set new \<longleftrightarrow> k \<in> K \<and> g k \<noteq> 0 \<and> fst r k = 0" for k
  proof
    assume "k \<in> set new"
    then have k: "k \<in> set ?ns" "g k = int (count_list ?ns k)" using new(3) by auto
    then have "count_list ?ns k \<noteq> 0" using count_list_0_iff by metis
    moreover have "k \<in> K" using k(1) inv(4) by auto
    ultimately show "k \<in> K \<and> g k \<noteq> 0 \<and> fst r k = 0" using k(2) split [of k] by (simp add: deg)
  next
    assume k: "k \<in> K \<and> g k \<noteq> 0 \<and> fst r k = 0"
    then have "g k = int (count_list ?ns k)" "count_list ?ns k \<noteq> 0" using split [of k] by (simp_all add: deg)
    then show "k \<in> set new" using new(3) by (simp add: count_list_0_iff)
  qed
  have zero: "g k = 0 \<Longrightarrow> fst r k = 0" for k using split [of k] by (simp add: deg)
  have "distinct ((S @ [c]) @ snd r)"
    using inv(1,2) new(1,2) new_iff by auto
  moreover have "set ((S @ [c]) @ snd r) = {k \<in> K. fst r k = 0}"
    using inv(2) new(1) new_iff zero by auto
  moreover have "d \<in> set xs" if "S @ [c] = xs @ n # ys" "(d, n) \<in> set es" for xs n ys d
  proof (cases ys rule: rev_cases)
    case Nil
    then have "n = c" "xs = S" using that(1) by auto
    moreover have "indeg es (set S) c = 0" using c(3) inv(3) [of c] by simp
    ultimately show ?thesis using that(2) by (simp add: indeg_zero)
  next
    case (snoc zs z)
    then show ?thesis using that inv(5) [of xs n zs d] by auto
  qed
  moreover have "\<forall>k. fst r k = int (indeg es (set (S @ [c])) k)" by (simp add: deg)
  ultimately show ?thesis using inv(4) unfolding kahn_inv_def by blast
qed

lemma kahn_size:
  assumes "kahn_inv es K g Q S" "finite K"
  shows "length S + length Q \<le> card K"
proof -
  have "length (S @ Q) = card (set (S @ Q))"
    using kahn_invD(1) [OF assms(1)] distinct_card by metis
  also have "\<dots> \<le> card K"
    using kahn_invD(2) [OF assms(1)] assms(2) by (intro card_mono) auto
  finally show ?thesis by simp
qed

lemma kahn_result:
  assumes "kahn_inv es K g Q S" "finite K" "length S + fuel = card K"
  shows "\<exists>g'. kahn_inv es K g' [] (kahn fuel (\<lambda>d. map snd (filter (\<lambda>e. fst e = d) es)) g Q S)"
  using assms
proof (induction fuel arbitrary: g Q S)
  case 0
  then have "Q = []" using kahn_size [OF 0(1,2)] by simp
  then show ?case using 0(1) by auto
next
  case (Suc fuel)
  show ?case
  proof (cases Q)
    case Nil
    then show ?thesis using Suc.prems(1) by auto
  next
    case (Cons c Q')
    let ?r = "relax (map snd (filter (\<lambda>e. fst e = c) es)) g Q'"
    have "kahn_inv es K (fst ?r) (snd ?r) (S @ [c])" using kahn_step Suc.prems(1) Cons by simp
    from Suc.IH [OF this Suc.prems(2)] Suc.prems(3) show ?thesis by (simp add: Cons split_beta)
  qed
qed

text \<open>When the queue is empty the result holds every id whose ancestors are well founded.\<close>

lemma kahn_complete:
  assumes "kahn_inv es K g [] S" "\<And>d n. (d, n) \<in> set es \<Longrightarrow> rank d < (rank n :: nat)"
  shows "set S = K"
proof -
  have "k \<in> K \<Longrightarrow> k \<in> set S" for k
  proof (induction "rank k" arbitrary: k rule: less_induct)
    case less
    have "d \<in> set S" if "(d, k) \<in> set es" for d
      using less.hyps [OF assms(2) [OF that]] kahn_invD(4) [OF assms(1) that] by blast
    then have "indeg es (set S) k = 0" by (simp add: indeg_zero)
    then have "g k = 0" using kahn_invD(3) [OF assms(1)] by simp
    then show ?case using kahn_invD(2) [OF assms(1)] less.prems by auto
  qed
  then show ?thesis using kahn_invD(2) [OF assms(1)] by auto
qed

definition known_deps :: "dag_spec \<Rightarrow> bool" where
  "known_deps spec \<longleftrightarrow> (\<forall>n\<in>set (nodes spec). set (deps n) \<subseteq> set (ids spec))"

text \<open>An order of execution: every node once, after its dependencies.\<close>

definition execution_order :: "dag_spec \<Rightarrow> string list \<Rightarrow> bool" where
  "execution_order spec order \<longleftrightarrow>
     distinct (ids spec) \<and> distinct order \<and> set order = set (ids spec) \<and>
     (\<forall>xs i ys n. order = xs @ i # ys \<longrightarrow> n \<in> set (nodes spec) \<longrightarrow> nid n = i \<longrightarrow> set (deps n) \<subseteq> set xs)"

lemma edges_iff: "(d, i) \<in> set (dag_edges spec) \<longleftrightarrow> (\<exists>n\<in>set (nodes spec). nid n = i \<and> d \<in> set (deps n))"
  by (auto simp: dag_edges_def)

lemma known_deps_edges: "known_deps spec \<longleftrightarrow> find (\<lambda>(d, n). d \<notin> set (ids spec)) (dag_edges spec) = None"
  by (auto simp: known_deps_def find_None_iff dag_edges_def)

lemma kahn_start:
  assumes "known_deps spec"
  shows "kahn_inv (dag_edges spec) (set (ids spec)) (\<lambda>n. int (indeg (dag_edges spec) {} n))
    (filter (\<lambda>i. int (indeg (dag_edges spec) {} i) = 0) (first_occurrences (ids spec))) []"
  using assms by (auto simp: kahn_inv_def edges_iff known_deps_def ids_def)

text \<open>The result of the loop, with enough fuel: the ids may repeat, so there are at most that many.\<close>

lemma kahn_more_fuel:
  "kahn_inv es K g Q S \<Longrightarrow> finite K \<Longrightarrow> length S + fuel = card K \<Longrightarrow>
     kahn (fuel + m) (\<lambda>d. map snd (filter (\<lambda>e. fst e = d) es)) g Q S =
     kahn fuel (\<lambda>d. map snd (filter (\<lambda>e. fst e = d) es)) g Q S"
proof (induction fuel arbitrary: g Q S)
  case 0
  then have "Q = []" using kahn_size [OF 0(1,2)] by simp
  then show ?case by simp
next
  case (Suc fuel)
  show ?case
  proof (cases Q)
    case (Cons c Q')
    let ?r = "relax (map snd (filter (\<lambda>e. fst e = c) es)) g Q'"
    have "kahn_inv es K (fst ?r) (snd ?r) (S @ [c])" using kahn_step Suc.prems(1) Cons by simp
    from Suc.IH [OF this Suc.prems(2)] Suc.prems(3) show ?thesis by (simp add: Cons split_beta)
  qed simp
qed

lemma sort_cases:
  assumes "known_deps spec"
  obtains S g where "kahn_inv (dag_edges spec) (set (ids spec)) g [] S"
    "topologicalSort spec = (if length S \<noteq> length (nodes spec) then Inl ContainsCycle else Inr S)"
proof -
  let ?es = "dag_edges spec" and ?K = "set (ids spec)"
  let ?g = "\<lambda>n. int (indeg ?es {} n)" and ?adj = "\<lambda>d. map snd (filter (\<lambda>e. fst e = d) ?es)"
  let ?Q = "filter (\<lambda>i. ?g i = 0) (first_occurrences (ids spec))"
  let ?S = "kahn (length (nodes spec)) ?adj ?g ?Q []"
  have "card ?K \<le> length (nodes spec)" by (metis card_length ids_def length_map)
  then obtain m where m: "length (nodes spec) = card ?K + m" using le_Suc_ex by blast
  have "?S = kahn (card ?K) ?adj ?g ?Q []"
    unfolding m by (rule kahn_more_fuel [OF kahn_start [OF assms]]) auto
  then obtain g' where "kahn_inv ?es ?K g' [] ?S"
    using kahn_result [OF kahn_start [OF assms], of "card ?K"] by auto
  moreover have "topologicalSort spec = (if length ?S \<noteq> length (nodes spec) then Inl ContainsCycle else Inr ?S)"
    using assms by (simp add: topologicalSort_def known_deps_edges build_graph Let_def)
  ultimately show thesis by (rule that)
qed

text \<open>The \<open>while\<close> loop itself, which nothing bounds: its value is \<open>None\<close> if it does not end.\<close>

definition kahn_body ::
  "(string \<Rightarrow> string list) \<Rightarrow> (string \<Rightarrow> int) \<times> string list \<times> string list \<Rightarrow> (string \<Rightarrow> int) \<times> string list \<times> string list"
where
  "kahn_body adjacency st =
     (let (inDegree, queue, result) = st; current = hd queue; (inDegree', queue') = relax (adjacency current) inDegree (tl queue)
      in (inDegree', queue', result @ [current]))"

definition kahn_while ::
  "(string \<Rightarrow> string list) \<Rightarrow> (string \<Rightarrow> int) \<Rightarrow> string list \<Rightarrow> ((string \<Rightarrow> int) \<times> string list \<times> string list) option" where
  "kahn_while adjacency inDegree queue =
     while_option (\<lambda>(_, queue, _). queue \<noteq> []) (kahn_body adjacency) (inDegree, queue, [])"

lemma kahn_body_Cons:
  "kahn_body adjacency (g, c # Q, S) =
     (fst (relax (adjacency c) g Q), snd (relax (adjacency c) g Q), S @ [c])"
  by (simp add: kahn_body_def split_beta)

lemma kahn_while_fuel:
  assumes "kahn_inv es K g Q S" "finite K" "length S + fuel = card K"
  shows "\<exists>g'. while_option (\<lambda>(_, queue, _). queue \<noteq> []) (kahn_body (\<lambda>d. map snd (filter (\<lambda>e. fst e = d) es))) (g, Q, S) =
    Some (g', [], kahn fuel (\<lambda>d. map snd (filter (\<lambda>e. fst e = d) es)) g Q S)"
  using assms
proof (induction fuel arbitrary: g Q S)
  case 0
  then have "Q = []" using kahn_size [OF 0(1,2)] by simp
  then show ?case by (simp add: while_option_unfold)
next
  case (Suc fuel)
  show ?case
  proof (cases Q)
    case (Cons c Q')
    let ?r = "relax (map snd (filter (\<lambda>e. fst e = c) es)) g Q'"
    have "kahn_inv es K (fst ?r) (snd ?r) (S @ [c])" using kahn_step Suc.prems(1) Cons by simp
    from Suc.IH [OF this Suc.prems(2)] Suc.prems(3) show ?thesis
      by (subst while_option_unfold) (simp add: Cons kahn_body_Cons split_beta [of _ "relax _ _ _"])
  qed (simp add: while_option_unfold)
qed

text \<open>
  C33: The \<open>while\<close> loop of the sort ends on every graph whose dependencies are known, with cycles or
  repeated ids as well, and the number of nodes bounds its rounds: the loop returns what the sort
  computes with that fuel.
\<close>

theorem sort_loop_ends:
  assumes "known_deps spec" "build_graph spec = (adjacency, inDegree)"
    and "queue = filter (\<lambda>i. inDegree i = 0) (first_occurrences (ids spec))"
  shows "\<exists>g. kahn_while adjacency inDegree queue = Some (g, [], kahn (length (nodes spec)) adjacency inDegree queue [])"
proof -
  let ?es = "dag_edges spec" and ?K = "set (ids spec)"
  note start = kahn_start [OF assms(1)]
  have graph: "adjacency = (\<lambda>d. map snd (filter (\<lambda>e. fst e = d) ?es))" "inDegree = (\<lambda>n. int (indeg ?es {} n))"
    using assms(2) by (simp_all add: build_graph)
  have "card ?K \<le> length (nodes spec)" by (metis card_length ids_def length_map)
  then obtain m where m: "length (nodes spec) = card ?K + m" using le_Suc_ex by blast
  have "kahn (length (nodes spec)) adjacency inDegree queue [] = kahn (card ?K) adjacency inDegree queue []"
    unfolding m assms(3) graph by (rule kahn_more_fuel [OF start]) auto
  then show ?thesis
    using kahn_while_fuel [OF start, of "card ?K"] by (simp add: kahn_while_def graph assms(3))
qed

text \<open>A node before a cycle of two.\<close>

definition two_cycle :: dag_spec where
  "two_cycle =
     \<lparr>nodes = map (\<lambda>(i, ds). \<lparr>nid = i, kind = CustomNode, deps = ds,
        retryPolicy = \<lparr>retry_max = 1, backoffMs = 0\<rparr>, timeoutMs = 0, onFailure = AbortOnFailure\<rparr>)
        [(''a'', []), (''b'', [''a'', ''c'']), (''c'', [''b''])],
      entry = ''a'', exit = ''c''\<rparr>"

lemma sort_loop_ends_witness:
  "\<exists>g. kahn_while (fst (build_graph two_cycle)) (snd (build_graph two_cycle)) [''a''] = Some (g, [], [''a''])"
proof -
  have "known_deps two_cycle" unfolding known_deps_edges by code_simp
  moreover have "[''a''] = filter (\<lambda>i. snd (build_graph two_cycle) i = 0) (first_occurrences (ids two_cycle))"
    by code_simp
  moreover have "kahn (length (nodes two_cycle)) (fst (build_graph two_cycle)) (snd (build_graph two_cycle)) [''a''] [] =
      [''a'']" by code_simp
  ultimately show ?thesis
    using sort_loop_ends [of two_cycle "fst (build_graph two_cycle)" "snd (build_graph two_cycle)" "[''a'']"] by simp
qed

lemma sort_sound:
  assumes "topologicalSort spec = Inr order"
  shows "execution_order spec order"
proof -
  have "known_deps spec"
    using assms by (auto simp: topologicalSort_def known_deps_edges split: option.splits)
  then obtain S g where S: "kahn_inv (dag_edges spec) (set (ids spec)) g [] S" "S = order"
      "length S = length (nodes spec)"
    using assms by (elim sort_cases) (auto split: if_splits)
  then have sub: "set order \<subseteq> set (ids spec)" "distinct order" "length order = length (ids spec)"
    using kahn_invD(1,2) [OF S(1)] by (auto simp: ids_def)
  have "card (set order) = length (ids spec)" using sub(2,3) by (simp add: distinct_card)
  moreover have "card (set order) \<le> card (set (ids spec))" using sub(1) by (simp add: card_mono)
  moreover have "card (set (ids spec)) \<le> length (ids spec)" by (rule card_length)
  ultimately have "card (set (ids spec)) = length (ids spec)" "card (set order) = card (set (ids spec))" by auto
  then have "distinct (ids spec)" "set order = set (ids spec)"
    using sub(1) card_subset_eq [of "set (ids spec)" "set order"] by (auto intro: card_distinct)
  moreover have "set (deps n) \<subseteq> set xs"
    if "order = xs @ i # ys" "n \<in> set (nodes spec)" "nid n = i" for xs i ys n
    using kahn_invD(5) [OF S(1)] S(2) that edges_iff by blast
  ultimately show ?thesis using sub(2) by (simp add: execution_order_def)
qed

lemma sort_complete:
  assumes "distinct (ids spec)" "known_deps spec"
    and "\<And>n d. n \<in> set (nodes spec) \<Longrightarrow> d \<in> set (deps n) \<Longrightarrow> rank d < (rank (nid n) :: nat)"
  shows "\<exists>order. topologicalSort spec = Inr order"
proof -
  obtain S g where S: "kahn_inv (dag_edges spec) (set (ids spec)) g [] S"
      "topologicalSort spec = (if length S \<noteq> length (nodes spec) then Inl ContainsCycle else Inr S)"
    using assms(2) by (rule sort_cases)
  have "set S = set (ids spec)"
    by (rule kahn_complete [OF S(1), of rank]) (auto simp: edges_iff assms(3))
  moreover have "distinct S" using kahn_invD(1) [OF S(1)] by simp
  ultimately have "length S = length (nodes spec)"
    using assms(1) by (metis distinct_card ids_def length_map)
  then show ?thesis using S(2) by simp
qed

end
