(* ===== verification/Dag_Layers.thy ===== *)
theory Dag_Layers
  imports Dag_Topology "HOL-Library.Multiset"
begin

text \<open>
  The contract of a topological sort as an interface, its interpretation on Kahn's algorithm, and
  the first client: the layers of \<open>getLayers\<close> in \<open>src/coordinator/dag/runner.ts\<close>.
\<close>

section \<open>The interface of a sort\<close>

locale dag_sorter =
  fixes sort :: "dag_spec \<Rightarrow> 'e + string list"
  assumes sound: "sort spec = Inr order \<Longrightarrow> execution_order spec order"
begin

lemma order_distinct: "sort spec = Inr order \<Longrightarrow> distinct order \<and> distinct (ids spec)"
  using sound by (auto simp: execution_order_def)

lemma order_set: "sort spec = Inr order \<Longrightarrow> set order = set (ids spec)"
  using sound by (auto simp: execution_order_def)

lemma order_mset: "sort spec = Inr order \<Longrightarrow> mset order = mset (ids spec)"
  using order_distinct order_set by (metis set_eq_iff_mset_eq_distinct)

lemma deps_before:
  "sort spec = Inr (xs @ i # ys) \<Longrightarrow> n \<in> set (nodes spec) \<Longrightarrow> nid n = i \<Longrightarrow> set (deps n) \<subseteq> set xs"
  using sound unfolding execution_order_def by blast

lemma node_found:
  assumes "sort spec = Inr order" "n \<in> set (nodes spec)"
  shows "node_of spec (nid n) = Some n"
proof -
  have d: "distinct (map nid (rev (nodes spec)))"
    using order_distinct [OF assms(1)] by (simp add: ids_def rev_map [symmetric])
  obtain m where m: "find (\<lambda>m. nid m = nid n) (rev (nodes spec)) = Some m"
    using find_exists [of n "rev (nodes spec)" "\<lambda>m. nid m = nid n"] assms(2) by auto
  from find_SomeD [OF m] have "m \<in> set (rev (nodes spec))" "nid m = nid n" by auto
  moreover have "inj_on nid (set (rev (nodes spec)))" using d by (simp only: distinct_map)
  ultimately have "m = n" using assms(2) by (auto dest: inj_onD)
  then show ?thesis using m by (simp add: node_of_def)
qed

lemma node_exists:
  assumes "sort spec = Inr order" "i \<in> set order"
  obtains n where "n \<in> set (nodes spec)" "nid n = i" "node_of spec i = Some n"
proof -
  obtain n where "n \<in> set (nodes spec)" "nid n = i"
    using assms order_set [OF assms(1)] by (auto simp: ids_def)
  then show thesis using node_found [OF assms(1)] that by blast
qed

end

interpretation kahn_sort: dag_sorter topologicalSort
  by unfold_locales (rule sort_sound)

section \<open>Layers\<close>

definition dep_depth :: "(string \<rightharpoonup> nat) \<Rightarrow> string \<Rightarrow> int" where
  "dep_depth depth d = (case depth d of None \<Rightarrow> 0 | Some k \<Rightarrow> int k)"

text \<open>One round of the first loop.\<close>

definition depth_step :: "dag_spec \<Rightarrow> (string \<rightharpoonup> nat) \<Rightarrow> string \<Rightarrow> string \<rightharpoonup> nat" where
  "depth_step spec depth i =
     (case node_of spec i of None \<Rightarrow> depth
      | Some n \<Rightarrow> depth(i \<mapsto> nat (fold (\<lambda>d m. max m (dep_depth depth d)) (deps n) (-1) + 1)))"

fun add_layer :: "nat \<Rightarrow> string \<Rightarrow> (nat \<times> string list) list \<Rightarrow> (nat \<times> string list) list" where
  "add_layer d i [] = [(d, [i])]"
| "add_layer d i ((k, l) # ls) = (if k = d then (k, l @ [i]) # ls else (k, l) # add_layer d i ls)"

definition getLayers :: "dag_spec \<Rightarrow> dag_error + string list list" where
  "getLayers spec =
     (case topologicalSort spec of Inl e \<Rightarrow> Inl e
      | Inr order \<Rightarrow>
          (let depth = foldl (depth_step spec) (\<lambda>_. None) order;
               layers = foldl (\<lambda>ls i. case depth i of None \<Rightarrow> ls | Some d \<Rightarrow> add_layer d i ls) [] order
           in Inr (map snd (sort_key fst layers))))"

subsection \<open>Depths\<close>

lemma fold_max: "fold (\<lambda>d m. max m (f d)) xs (a :: int) = Max (insert a (f ` set xs))"
proof (induction xs arbitrary: a)
  case (Cons x xs)
  then show ?case by (cases "xs = []") (simp_all add: Max_insert max.assoc max.commute max.left_commute)
qed simp

lemma depth_frame: "i \<notin> set ys \<Longrightarrow> foldl (depth_step spec) m ys i = m i"
  by (induction ys arbitrary: m) (auto simp: depth_step_def split: option.splits)

definition depth_of :: "dag_spec \<Rightarrow> string list \<Rightarrow> string \<Rightarrow> nat" where
  "depth_of spec order i = (case foldl (depth_step spec) (\<lambda>_. None) order i of None \<Rightarrow> 0 | Some d \<Rightarrow> d)"

lemma depth_defined:
  assumes "topologicalSort spec = Inr order" "i \<in> set order"
  shows "foldl (depth_step spec) (\<lambda>_. None) order i = Some (depth_of spec order i)"
proof -
  obtain xs ys where o: "order = xs @ i # ys" using assms(2) by (meson split_list)
  then have "i \<notin> set ys" using kahn_sort.order_distinct [OF assms(1)] by auto
  moreover obtain n where n: "node_of spec i = Some n" using kahn_sort.node_exists [OF assms] by blast
  ultimately have "foldl (depth_step spec) (\<lambda>_. None) order i \<noteq> None"
    using n by (simp add: o depth_frame depth_step_def)
  then show ?thesis by (auto simp: depth_of_def)
qed

text \<open>The depth of a node is zero without dependencies, else one more than the largest of theirs.\<close>

lemma depth_rec:
  assumes s: "topologicalSort spec = Inr order" and n: "n \<in> set (nodes spec)"
  shows "depth_of spec order (nid n) =
    (if deps n = [] then 0 else Suc (Max (depth_of spec order ` set (deps n))))"
proof -
  let ?i = "nid n"
  have "?i \<in> set order" using n kahn_sort.order_set [OF s] by (auto simp: ids_def)
  then obtain xs ys where o: "order = xs @ ?i # ys" by (meson split_list)
  then have new: "?i \<notin> set ys" "\<forall>d\<in>set xs. d \<notin> set (?i # ys)"
    using kahn_sort.order_distinct [OF s] by auto
  define dx where "dx = foldl (depth_step spec) (\<lambda>_. None) xs"
  have before: "set (deps n) \<subseteq> set xs" using kahn_sort.deps_before [of spec xs ?i ys n] s n o by simp
  have dd: "dep_depth dx d = int (depth_of spec order d)" if "d \<in> set (deps n)" for d
  proof -
    have "d \<in> set xs" using that before by blast
    then have "foldl (depth_step spec) (\<lambda>_. None) order d = dx d"
      using new(2) depth_frame [of d "?i # ys" spec dx] by (simp add: o dx_def)
    moreover have "d \<in> set order" using \<open>d \<in> set xs\<close> o by simp
    ultimately have "dx d = Some (depth_of spec order d)" using depth_defined [OF s] by metis
    then show ?thesis by (simp add: dep_depth_def)
  qed
  have "depth_of spec order ?i = nat (fold (\<lambda>d m. max m (dep_depth dx d)) (deps n) (-1) + 1)"
    using new(1) kahn_sort.node_found [OF s n]
    by (simp add: depth_of_def o depth_frame depth_step_def dx_def)
  also have "\<dots> = nat (Max (insert (-1) ((\<lambda>d. int (depth_of spec order d)) ` set (deps n))) + 1)"
    using dd by (simp add: fold_max cong: image_cong)
  also have "\<dots> = (if deps n = [] then 0 else Suc (Max (depth_of spec order ` set (deps n))))"
  proof (cases "deps n = []")
    case False
    let ?D = "depth_of spec order ` set (deps n)"
    have "Max (int ` ?D) = int (Max ?D)"
      using False by (intro mono_Max_commute [symmetric]) (auto simp: mono_def)
    then show ?thesis using False by (simp add: image_image Max_insert max_def nat_add_distrib)
  qed simp
  finally show ?thesis .
qed

subsection \<open>Grouping\<close>

lemma map_of_add_layer:
  "map_of (add_layer d i ls) k =
     (if k = d then Some ((case map_of ls d of None \<Rightarrow> [] | Some l \<Rightarrow> l) @ [i]) else map_of ls k)"
  by (induction d i ls rule: add_layer.induct) auto

lemma keys_add_layer:
  "map fst (add_layer d i ls) = (if d \<in> fst ` set ls then map fst ls else map fst ls @ [d])"
  by (induction d i ls rule: add_layer.induct) auto

lemma layers_map_of:
  "map_of (foldl (\<lambda>ls i. add_layer (D i) i ls) [] xs) k =
     (if filter (\<lambda>i. D i = k) xs = [] then None else Some (filter (\<lambda>i. D i = k) xs))"
  by (induction xs rule: rev_induct) (auto simp: map_of_add_layer)

lemma layers_keys:
  "distinct (map fst (foldl (\<lambda>ls i. add_layer (D i) i ls) [] xs)) \<and>
   fst ` set (foldl (\<lambda>ls i. add_layer (D i) i ls) [] xs) = D ` set xs"
proof (induction xs rule: rev_induct)
  case (snoc x xs)
  let ?l = "foldl (\<lambda>ls i. add_layer (D i) i ls) [] xs"
  have "fst ` set (add_layer (D x) x ?l) = insert (D x) (fst ` set ?l)"
    using arg_cong [OF keys_add_layer [of "D x" x ?l], of set] by (auto split: if_splits)
  then show ?case using snoc keys_add_layer [of "D x" x ?l] by auto
qed simp

lemma downward_closed:
  assumes "finite K" "\<And>d. Suc d \<in> K \<Longrightarrow> d \<in> K"
  shows "K = {..<card K}"
proof (cases "K = {}")
  case False
  have down: "d + e \<in> K \<Longrightarrow> d \<in> K" for d e by (induction e) (auto intro: assms(2))
  have "K = {..Max K}"
  proof
    show "K \<subseteq> {..Max K}" using assms(1) by auto
    show "{..Max K} \<subseteq> K"
    proof
      fix d assume "d \<in> {..Max K}"
      then obtain e where "Max K = d + e" by (auto simp: le_iff_add)
      then show "d \<in> K" using down Max_in [OF assms(1) False] by metis
    qed
  qed
  then show ?thesis by (metis card_atMost lessThan_Suc_atMost)
qed simp

lemma groups_sorted:
  assumes "\<And>d. Suc d \<in> D ` set xs \<Longrightarrow> d \<in> D ` set xs"
  shows "map snd (sort_key fst (foldl (\<lambda>ls i. add_layer (D i) i ls) [] xs)) =
    map (\<lambda>k. filter (\<lambda>i. D i = k) xs) [0..<card (D ` set xs)]"
proof -
  let ?l = "foldl (\<lambda>ls i. add_layer (D i) i ls) [] xs" and ?m = "card (D ` set xs)"
  have keys: "distinct (map fst ?l)" "fst ` set ?l = {..<?m}"
    using layers_keys [of D xs] downward_closed [OF _ assms] by auto
  have "sorted (map fst (sort_key fst ?l))" "set (map fst (sort_key fst ?l)) = {..<?m}"
    using keys(2) by auto
  moreover have "distinct (map fst (sort_key fst ?l))"
    using keys(1) by (simp add: distinct_map)
  ultimately have ks: "map fst (sort_key fst ?l) = [0..<?m]"
    by (intro sorted_distinct_set_unique) auto
  have "snd e = filter (\<lambda>i. D i = fst e) xs" if "e \<in> set (sort_key fst ?l)" for e
  proof -
    have "(fst e, snd e) \<in> set ?l" using that by simp
    then have "map_of ?l (fst e) = Some (snd e)" using keys(1) by (rule map_of_is_SomeI [rotated])
    then show ?thesis by (simp add: layers_map_of split: if_splits)
  qed
  then have "map snd (sort_key fst ?l) = map (\<lambda>k. filter (\<lambda>i. D i = k) xs) (map fst (sort_key fst ?l))"
    by simp
  then show ?thesis by (simp only: ks)
qed

lemma deps_in_order:
  assumes "topologicalSort spec = Inr order" "n \<in> set (nodes spec)"
  shows "set (deps n) \<subseteq> set order"
proof -
  have "nid n \<in> set order" using assms kahn_sort.order_set by (auto simp: ids_def)
  then obtain xs ys where "order = xs @ nid n # ys" by (meson split_list)
  then show ?thesis using kahn_sort.deps_before [of spec xs "nid n" ys n] assms by auto
qed

text \<open>Each positive depth is one more than that of some dependency.\<close>

lemma depth_pred:
  assumes "topologicalSort spec = Inr order" "n \<in> set (nodes spec)" "depth_of spec order (nid n) = Suc k"
  obtains d where "d \<in> set (deps n)" "depth_of spec order d = k"
proof -
  have "deps n \<noteq> []" "Max (depth_of spec order ` set (deps n)) = k"
    using depth_rec [OF assms(1,2)] assms(3) by (auto split: if_splits)
  then have "k \<in> depth_of spec order ` set (deps n)"
    using Max_in [of "depth_of spec order ` set (deps n)"] by auto
  then show thesis using that by auto
qed

lemma depth_dep:
  assumes "topologicalSort spec = Inr order" "n \<in> set (nodes spec)" "d \<in> set (deps n)"
  shows "depth_of spec order d < depth_of spec order (nid n)"
proof -
  have "deps n \<noteq> []" using assms(3) by auto
  then have "depth_of spec order (nid n) = Suc (Max (depth_of spec order ` set (deps n)))"
    using depth_rec [OF assms(1,2)] by simp
  moreover have "depth_of spec order d \<le> Max (depth_of spec order ` set (deps n))" using assms(3) by simp
  ultimately show ?thesis by simp
qed

lemma depth_downward:
  assumes "topologicalSort spec = Inr order" "Suc k \<in> depth_of spec order ` set order"
  shows "k \<in> depth_of spec order ` set order"
proof -
  obtain i where i: "i \<in> set order" "depth_of spec order i = Suc k" using assms(2) by auto
  then obtain n where n: "n \<in> set (nodes spec)" "nid n = i" by (meson assms(1) kahn_sort.node_exists)
  then obtain d where "d \<in> set (deps n)" "depth_of spec order d = k"
    using depth_pred [OF assms(1) n(1), of k] i(2) by auto
  then show ?thesis using deps_in_order [OF assms(1) n(1)] by auto
qed

lemma depth_range:
  "topologicalSort spec = Inr order \<Longrightarrow>
     depth_of spec order ` set order = {..<card (depth_of spec order ` set order)}"
  by (rule downward_closed) (auto dest: depth_downward)

lemma layers_eq:
  assumes "topologicalSort spec = Inr order"
  shows "getLayers spec = Inr (map (\<lambda>k. filter (\<lambda>i. depth_of spec order i = k) order)
    [0..<card (depth_of spec order ` set order)])"
proof -
  let ?D = "depth_of spec order"
  have fold: "foldl (\<lambda>ls i. case foldl (depth_step spec) (\<lambda>_. None) order i of None \<Rightarrow> ls
        | Some d \<Rightarrow> add_layer d i ls) [] order = foldl (\<lambda>ls i. add_layer (?D i) i ls) [] order"
    using depth_defined [OF assms] by (intro foldl_cong) auto
  show ?thesis
    using groups_sorted [OF depth_downward [OF assms]] assms by (simp add: getLayers_def Let_def fold)
qed

lemma mset_groups:
  "mset (concat (map (\<lambda>k. filter (\<lambda>i. D i = k) xs) [0..<m])) = mset (filter (\<lambda>i. D i < (m :: nat)) xs)"
proof (induction m)
  case (Suc m)
  have "mset (filter (\<lambda>i. D i < Suc m) xs) = mset (filter (\<lambda>i. D i < m) xs) + mset (filter (\<lambda>i. D i = m) xs)"
    by (induction xs) auto
  then show ?case using Suc by simp
qed simp

lemma order_ranked:
  assumes "execution_order spec order"
  shows "distinct (ids spec)" "known_deps spec"
    "n \<in> set (nodes spec) \<Longrightarrow> d \<in> set (deps n) \<Longrightarrow>
       length (takeWhile (\<lambda>i. i \<noteq> d) order) < length (takeWhile (\<lambda>i. i \<noteq> nid n) order)"
proof -
  have o: "distinct (ids spec)" "distinct order" "set order = set (ids spec)"
    "\<And>xs i ys n. order = xs @ i # ys \<Longrightarrow> n \<in> set (nodes spec) \<Longrightarrow> nid n = i \<Longrightarrow> set (deps n) \<subseteq> set xs"
    using assms unfolding execution_order_def by blast+
  have split: "\<exists>xs ys. order = xs @ nid n # ys \<and> set (deps n) \<subseteq> set xs" if n: "n \<in> set (nodes spec)" for n
  proof -
    have "nid n \<in> set order" using n o(3) by (auto simp: ids_def)
    then obtain xs ys where xs: "order = xs @ nid n # ys" by (meson split_list)
    then show ?thesis using o(4) [OF xs n] by blast
  qed
  show "distinct (ids spec)" by (rule o)
  show "known_deps spec" unfolding known_deps_def
  proof
    fix n assume "n \<in> set (nodes spec)"
    from split [OF this] obtain xs ys where "order = xs @ nid n # ys" "set (deps n) \<subseteq> set xs" by blast
    then show "set (deps n) \<subseteq> set (ids spec)" using o(3) by auto
  qed
  assume n: "n \<in> set (nodes spec)" and d: "d \<in> set (deps n)"
  from split [OF n] obtain xs ys where xs: "order = xs @ nid n # ys" "set (deps n) \<subseteq> set xs" by blast
  then have dx: "d \<in> set xs" using d by blast
  have "takeWhile (\<lambda>i. i \<noteq> nid n) order = xs"
    using o(2) xs(1) by (auto simp: takeWhile_append takeWhile_eq_all_conv)
  moreover have "length (takeWhile (\<lambda>i. i \<noteq> d) order) < length xs"
  proof -
    obtain us vs where u: "xs = us @ d # vs" "d \<notin> set us" using dx by (meson split_list_first)
    then have "takeWhile (\<lambda>i. i \<noteq> d) order = us"
      using xs(1) by (auto simp: takeWhile_append takeWhile_eq_all_conv)
    then show ?thesis using u by simp
  qed
  ultimately show "length (takeWhile (\<lambda>i. i \<noteq> d) order) < length (takeWhile (\<lambda>i. i \<noteq> nid n) order)" by simp
qed

text \<open>The first node of an order has no dependency, and no node depends on the last.\<close>

lemma order_hd:
  assumes "execution_order spec order" "order \<noteq> []"
  obtains n where "n \<in> set (nodes spec)" "nid n = hd order" "deps n = []"
proof -
  have "set order = set (ids spec)" using assms(1) by (simp add: execution_order_def)
  then have "hd order \<in> set (ids spec)" using assms(2) hd_in_set by metis
  then obtain n where n: "n \<in> set (nodes spec)" "nid n = hd order" by (auto simp: ids_def)
  have "order = [] @ hd order # tl order" using assms(2) by simp
  then have "set (deps n) \<subseteq> set []" using assms(1) n unfolding execution_order_def by blast
  then show thesis using n that by simp
qed

lemma order_last:
  assumes "execution_order spec order" "order \<noteq> []" "n \<in> set (nodes spec)"
  shows "last order \<notin> set (deps n)"
proof
  assume d: "last order \<in> set (deps n)"
  have o: "set order = set (ids spec)" "distinct order" using assms(1) by (simp_all add: execution_order_def)
  then have "nid n \<in> set order" using assms(3) by (auto simp: ids_def)
  then obtain xs ys where xs: "order = xs @ nid n # ys" by (meson split_list)
  then have "last order \<in> set xs" using assms(1,3) d unfolding execution_order_def by blast
  moreover have "last order \<in> set (nid n # ys)" using xs by (simp add: last_append)
  ultimately show False using o(2) xs by auto
qed

section \<open>Properties\<close>

text \<open>
  A node that reaches itself through dependencies.  A graph without one can be ranked by the number of
  ancestors, which is what the sort needs to succeed.
\<close>

definition has_cycle :: "dag_spec \<Rightarrow> bool" where
  "has_cycle spec \<longleftrightarrow> (\<exists>i. (i, i) \<in> (set (dag_edges spec))\<^sup>+)"

definition repeated_ids :: "dag_spec \<Rightarrow> bool" where
  "repeated_ids spec \<longleftrightarrow> \<not> distinct (ids spec)"

lemma ancestors_grow:
  assumes "\<not> has_cycle spec" "(d, i) \<in> set (dag_edges spec)"
  shows "card {a. (a, d) \<in> (set (dag_edges spec))\<^sup>+} < card {a. (a, i) \<in> (set (dag_edges spec))\<^sup>+}"
proof (rule psubset_card_mono)
  have "{a. (a, i) \<in> (set (dag_edges spec))\<^sup>+} \<subseteq> Domain (set (dag_edges spec))"
    by (auto dest: tranclD)
  then show "finite {a. (a, i) \<in> (set (dag_edges spec))\<^sup>+}" by (rule finite_subset) (simp add: finite_Domain)
  have "(d, d) \<notin> (set (dag_edges spec))\<^sup>+" using assms(1) by (simp add: has_cycle_def)
  then show "{a. (a, d) \<in> (set (dag_edges spec))\<^sup>+} \<subset> {a. (a, i) \<in> (set (dag_edges spec))\<^sup>+}"
    using assms(2) by (blast intro: trancl_into_trancl)
qed

lemma sort_fails_on_cycle:
  assumes "topologicalSort spec = Inl ContainsCycle"
  shows "known_deps spec \<and> (has_cycle spec \<or> \<not> distinct (ids spec))"
proof
  show k: "known_deps spec"
    using assms by (auto simp: topologicalSort_def known_deps_edges split: option.splits)
  show "has_cycle spec \<or> \<not> distinct (ids spec)"
  proof (rule ccontr)
    assume "\<not> (has_cycle spec \<or> \<not> distinct (ids spec))"
    then have "\<exists>order. topologicalSort spec = Inr order"
      using sort_complete [OF _ k, of "\<lambda>i. card {a. (a, i) \<in> (set (dag_edges spec))\<^sup>+}"] ancestors_grow [of spec]
      by (auto simp: edges_iff)
    then show False using assms by simp
  qed
qed

text \<open>
  C32: Kahn's algorithm is sound and complete, and its errors are right.  What the sort returns is an order
  of execution: the ids are distinct, every node is in it once and after all its dependencies.  When it
  fails no such order exists.  An unknown dependency is reported exactly as the first one in the order of
  the nodes and of their dependencies; the error of a cycle means that all dependencies are known and that
  there is a cycle or an id that two nodes share, which the code reports as a cycle as well.
\<close>

theorem topologicalSort_correct:
  "case topologicalSort spec of
     Inr order \<Rightarrow> execution_order spec order
   | Inl e \<Rightarrow> (\<nexists>order. execution_order spec order) \<and>
       (case e of
          UnknownDependency i d \<Rightarrow> d \<notin> set (ids spec) \<and>
            (\<exists>xs ys. dag_edges spec = xs @ (d, i) # ys \<and> fst ` set xs \<subseteq> set (ids spec))
        | ContainsCycle \<Rightarrow> known_deps spec \<and> (has_cycle spec \<or> repeated_ids spec))"
proof (cases "topologicalSort spec")
  case (Inl e)
  have no: "False" if "execution_order spec order" for order
    using sort_complete [OF order_ranked(1,2) [OF that], of "\<lambda>i. length (takeWhile (\<lambda>j. j \<noteq> i) order)"]
      order_ranked(3) [OF that] Inl by auto
  show ?thesis
  proof (cases e)
    case (UnknownDependency i d)
    then have "find (\<lambda>(d, n). d \<notin> set (ids spec)) (dag_edges spec) = Some (d, i)"
      using Inl by (auto simp: topologicalSort_def Let_def split: option.splits prod.splits if_splits)
    then obtain xs ys where "dag_edges spec = xs @ (d, i) # ys" "d \<notin> set (ids spec)"
        "\<forall>x\<in>set xs. fst x \<in> set (ids spec)"
      by (auto dest!: find_split simp: case_prod_beta)
    then show ?thesis using Inl no UnknownDependency by auto
  next
    case ContainsCycle
    then show ?thesis using Inl no sort_fails_on_cycle by (auto simp: repeated_ids_def)
  qed
next
  case (Inr order)
  then show ?thesis using sort_sound by simp
qed

lemma layer_facts:
  assumes "getLayers spec = Inr ls"
  shows "mset (concat ls) = mset (ids spec)" "[] \<notin> set ls"
    "n \<in> set (nodes spec) \<Longrightarrow> k < length ls \<Longrightarrow> nid n \<in> set (ls ! k) \<Longrightarrow>
       set (deps n) \<subseteq> (\<Union>j<k. set (ls ! j)) \<and> (0 < k \<longrightarrow> (\<exists>d\<in>set (deps n). d \<in> set (ls ! (k - 1))))"
    "distinct (ids spec)"
proof -
  obtain order where o: "topologicalSort spec = Inr order"
    using assms by (auto simp: getLayers_def split: sum.splits)
  let ?D = "depth_of spec order" and ?m = "card (depth_of spec order ` set order)"
  have ls: "ls = map (\<lambda>k. filter (\<lambda>i. ?D i = k) order) [0..<?m]" using layers_eq [OF o] assms by simp
  have lt: "?D i < ?m" if "i \<in> set order" for i using depth_range [OF o] that by auto
  then have "filter (\<lambda>i. ?D i < ?m) order = order" by simp
  then have 1: "mset (concat ls) = mset (ids spec)"
    using mset_groups [of ?D order ?m] kahn_sort.order_mset [OF o] by (simp add: ls)
  have 2: "[] \<notin> set ls"
  proof
    assume "[] \<in> set ls"
    then obtain k where "k < ?m" "filter (\<lambda>i. ?D i = k) order = []" by (auto simp: ls)
    moreover from this(1) have "k \<in> ?D ` set order" using depth_range [OF o] by (metis lessThan_iff)
    ultimately show False by (auto simp: filter_empty_conv)
  qed
  show "set (deps n) \<subseteq> (\<Union>j<k. set (ls ! j)) \<and> (0 < k \<longrightarrow> (\<exists>d\<in>set (deps n). d \<in> set (ls ! (k - 1))))"
    if n: "n \<in> set (nodes spec)" and k: "k < length ls" "nid n \<in> set (ls ! k)" for n k
  proof -
    have dk: "?D (nid n) = k" and km: "k < ?m" using k by (auto simp: ls)
    have layer: "j < ?m \<Longrightarrow> set (ls ! j) = {i \<in> set order. ?D i = j}" for j by (simp add: ls)
    have "set (deps n) \<subseteq> (\<Union>j<k. set (ls ! j))"
      using depth_dep [OF o n] deps_in_order [OF o n] dk km layer by fastforce
    moreover have "\<exists>d\<in>set (deps n). d \<in> set (ls ! (k - 1))" if "0 < k"
    proof -
      have "?D (nid n) = Suc (k - 1)" using dk that by simp
      then obtain d where "d \<in> set (deps n)" "?D d = k - 1" using depth_pred [OF o n] by blast
      then show ?thesis using deps_in_order [OF o n] layer [of "k - 1"] km by auto
    qed
    ultimately show ?thesis by blast
  qed
  show "mset (concat ls) = mset (ids spec)" "[] \<notin> set ls" "distinct (ids spec)"
    using 1 2 kahn_sort.order_distinct [OF o] by auto
qed


lemma concat_disjoint:
  "distinct (concat ls) \<Longrightarrow> j < k \<Longrightarrow> k < length ls \<Longrightarrow> set (ls ! j) \<inter> set (ls ! k) = {}"
proof (induction ls arbitrary: j k)
  case (Cons l ls)
  then show ?case
  proof (cases j)
    case 0
    then obtain k' where "k = Suc k'" using Cons.prems(2) by (cases k) auto
    then show ?thesis using Cons.prems 0 by (auto dest: nth_mem)
  next
    case (Suc j')
    then obtain k' where "k = Suc k'" using Cons.prems(2) by (cases k) auto
    then show ?thesis using Cons.prems Suc Cons.IH [of j' k'] by auto
  qed
qed simp

text \<open>
  The layers are a partition into parallel steps, as early as possible.  Every node is in
  exactly one layer, no layer is empty, the dependencies of a node are all in earlier layers, and a
  node that is not in the first layer has a dependency in the layer just before its own.
\<close>

theorem layers_correct:
  assumes "getLayers spec = Inr ls"
  shows "mset (concat ls) = mset (ids spec) \<and> distinct (ids spec) \<and> [] \<notin> set ls \<and>
    (\<forall>n\<in>set (nodes spec). \<forall>k<length ls. nid n \<in> set (ls ! k) \<longrightarrow>
       set (deps n) \<subseteq> (\<Union>j<k. set (ls ! j)) \<and> (0 < k \<longrightarrow> (\<exists>d\<in>set (deps n). d \<in> set (ls ! (k - 1)))))"
  using layer_facts [OF assms] by blast

lemma layers_correct_witness:
  "mset (concat [[''a''], [''b'', ''c'']]) = mset (ids \<lparr>nodes =
      [\<lparr>nid = ''b'', kind = CustomNode, deps = [''a''], retryPolicy = \<lparr>retry_max = 0, backoffMs = 0\<rparr>,
        timeoutMs = 1, onFailure = AbortOnFailure\<rparr>,
       \<lparr>nid = ''a'', kind = CustomNode, deps = [], retryPolicy = \<lparr>retry_max = 0, backoffMs = 0\<rparr>,
        timeoutMs = 1, onFailure = AbortOnFailure\<rparr>,
       \<lparr>nid = ''c'', kind = CustomNode, deps = [''a''], retryPolicy = \<lparr>retry_max = 0, backoffMs = 0\<rparr>,
        timeoutMs = 1, onFailure = AbortOnFailure\<rparr>], entry = ''a'', exit = ''b''\<rparr>)"
proof -
  let ?n = "\<lambda>i ds. \<lparr>nid = i, kind = CustomNode, deps = ds, retryPolicy = \<lparr>retry_max = 0, backoffMs = 0\<rparr>,
        timeoutMs = 1, onFailure = AbortOnFailure\<rparr>"
  have "getLayers \<lparr>nodes = [?n ''b'' [''a''], ?n ''a'' [], ?n ''c'' [''a'']], entry = ''a'', exit = ''b''\<rparr> =
      Inr [[''a''], [''b'', ''c'']]" by code_simp
  from layers_correct [OF this] show ?thesis by blast
qed

end
