(* ===== verification/Dag_Runner.thy ===== *)
theory Dag_Runner
  imports Dag_Layers Js_Strings
begin

text \<open>
  The runner of \<open>src/coordinator/dag/runner.ts\<close>.  The executor of nodes is an argument; an attempt ends
  with an output or an error message, the one of the timer being \<open>TIMEOUT\<close>.  Durations are not
  modelled.  The nodes of a layer run concurrently in the code; the model runs them one after the
  other, and \<open>layer_order_irrelevant\<close> shows that the order does not matter.
\<close>

datatype node_status = Success | Failed | TimedOut | Skipped

record 'v node_result =
  status :: node_status
  node_output :: "'v option"
  error :: "string option"
  retries :: nat

datatype 'v exec_outcome = ExecOk 'v | ExecError string

text \<open>An executor sees the node, the number of the attempt and the outputs of the dependencies.\<close>

type_synonym 'v executor = "dag_node \<Rightarrow> nat \<Rightarrow> (string \<times> 'v option) list \<Rightarrow> 'v exec_outcome"

definition executeNode :: "'v executor option \<Rightarrow> 'v executor" where
  "executeNode config n attempt inputs =
     (case config of
        Some f \<Rightarrow> f n attempt inputs
      | None \<Rightarrow> ExecError (''DAG node '' @ [CHR 0x22] @ nid n @ [CHR 0x22] @
          '' has no DSXU mainline executor. Use the existing query-loop/PlanGraph/Tool Gate runtime, or provide an explicit executor for harness evidence.''))"

definition is_timeout :: "string \<Rightarrow> bool" where
  "is_timeout message \<longleftrightarrow> index_of ''TIMEOUT'' message \<noteq> None"

text \<open>The retry loop from attempt \<open>k\<close> on, with \<open>left\<close> retries left.\<close>

fun attempts :: "(nat \<Rightarrow> 'v exec_outcome) \<Rightarrow> nat \<Rightarrow> nat \<Rightarrow> 'v node_result" where
  "attempts ex k left =
     (case ex k of
        ExecOk v \<Rightarrow> \<lparr>status = Success, node_output = Some v, error = None, retries = k\<rparr>
      | ExecError e \<Rightarrow>
          if is_timeout e then \<lparr>status = TimedOut, node_output = None, error = Some e, retries = k\<rparr>
          else (case left of
              0 \<Rightarrow> \<lparr>status = Failed, node_output = None, error = Some e, retries = k\<rparr>
            | Suc left' \<Rightarrow> attempts ex (Suc k) left'))"

declare attempts.simps [simp del]

record 'v run_state =
  nodeResults :: "string \<rightharpoonup> 'v node_result"
  nodeOutputs :: "string \<rightharpoonup> 'v"
  failedNodes :: "string list"

definition depsFailed :: "'v run_state \<Rightarrow> dag_node \<Rightarrow> bool" where
  "depsFailed st n \<longleftrightarrow>
     list_ex (\<lambda>d. case nodeResults st d of None \<Rightarrow> False | Some r \<Rightarrow> status r \<noteq> Success) (deps n)"

definition skipped_result :: "'v node_result" where
  "skipped_result = \<lparr>status = Skipped, node_output = None, error = Some ''Dependency failed'', retries = 0\<rparr>"

definition node_inputs :: "'v run_state \<Rightarrow> dag_node \<Rightarrow> (string \<times> 'v option) list" where
  "node_inputs st n = map (\<lambda>d. (d, nodeOutputs st d)) (deps n)"

definition node_run :: "'v executor option \<Rightarrow> 'v run_state \<Rightarrow> dag_node \<Rightarrow> 'v node_result" where
  "node_run config st n =
     (if depsFailed st n \<and> onFailure n = AbortOnFailure then skipped_result
      else attempts (\<lambda>k. executeNode config n k (node_inputs st n)) 0 (retry_max (retryPolicy n)))"

text \<open>What one promise of a layer writes.\<close>

definition record_result :: "string \<Rightarrow> 'v node_result \<Rightarrow> 'v run_state \<Rightarrow> 'v run_state" where
  "record_result i r st =
     \<lparr>nodeResults = (nodeResults st)(i \<mapsto> r),
      nodeOutputs = (if status r = Success then (nodeOutputs st)(i := node_output r) else nodeOutputs st),
      failedNodes = (if status r = Success then failedNodes st else failedNodes st @ [i])\<rparr>"

definition run_node :: "dag_spec \<Rightarrow> 'v executor option \<Rightarrow> 'v run_state \<Rightarrow> string \<Rightarrow> 'v run_state" where
  "run_node spec config st i =
     (case node_of spec i of None \<Rightarrow> st | Some n \<Rightarrow> record_result i (node_run config st n) st)"

definition run_layer :: "dag_spec \<Rightarrow> 'v executor option \<Rightarrow> 'v run_state \<Rightarrow> string list \<Rightarrow> 'v run_state" where
  "run_layer spec config st layer = foldl (run_node spec config) st layer"

datatype run_status = RunSuccess | RunPartial | RunFailed

definition overall_status :: "dag_spec \<Rightarrow> 'v run_state \<Rightarrow> run_status" where
  "overall_status spec st =
     (if length (failedNodes st) = 0 then RunSuccess
      else if length (failedNodes st) < length (nodes spec) then RunPartial else RunFailed)"

definition empty_run :: "'v run_state" where
  "empty_run = \<lparr>nodeResults = (\<lambda>_. None), nodeOutputs = (\<lambda>_. None), failedNodes = []\<rparr>"

definition runDag :: "dag_spec \<Rightarrow> 'v executor option \<Rightarrow> dag_error + (run_status \<times> 'v run_state)" where
  "runDag spec config =
     (case getLayers spec of Inl e \<Rightarrow> Inl e
      | Inr layers \<Rightarrow>
          (let st = foldl (run_layer spec config) empty_run layers in Inr (overall_status spec st, st)))"

section \<open>The retry loop\<close>

lemma attempts_cases:
  obtains (ok) v where "ex k = ExecOk v"
    "attempts ex k left = \<lparr>status = Success, node_output = Some v, error = None, retries = k\<rparr>"
  | (timeout) e where "ex k = ExecError e" "is_timeout e"
    "attempts ex k left = \<lparr>status = TimedOut, node_output = None, error = Some e, retries = k\<rparr>"
  | (failed) e where "ex k = ExecError e" "\<not> is_timeout e" "left = 0"
    "attempts ex k left = \<lparr>status = Failed, node_output = None, error = Some e, retries = k\<rparr>"
  | (again) e left' where "ex k = ExecError e" "\<not> is_timeout e" "left = Suc left'"
    "attempts ex k left = attempts ex (Suc k) left'"
  by (cases "ex k"; cases left) (auto simp: attempts.simps [of ex k])

definition plain_failure :: "'v exec_outcome \<Rightarrow> bool" where
  "plain_failure o' \<longleftrightarrow> (case o' of ExecOk _ \<Rightarrow> False | ExecError e \<Rightarrow> \<not> is_timeout e)"

lemma attempts_spec:
  "let r = attempts ex k left in
     k \<le> retries r \<and> retries r \<le> k + left \<and> (\<forall>j. k \<le> j \<longrightarrow> j < retries r \<longrightarrow> plain_failure (ex j)) \<and>
     status r \<noteq> Skipped \<and>
     (status r = Success \<longleftrightarrow> (\<exists>v. ex (retries r) = ExecOk v \<and> node_output r = Some v)) \<and>
     (status r = TimedOut \<longleftrightarrow> (\<exists>e. ex (retries r) = ExecError e \<and> is_timeout e)) \<and>
     (status r = Failed \<longleftrightarrow> retries r = k + left \<and> plain_failure (ex (retries r)))"
proof (induction left arbitrary: k)
  case 0
  show ?case by (rule attempts_cases [of ex k 0]) (auto simp: plain_failure_def)
next
  case (Suc left)
  show ?case
  proof (rule attempts_cases [of ex k "Suc left"])
    fix e left' assume *: "ex k = ExecError e" "\<not> is_timeout e" "Suc left = Suc left'"
      "attempts ex k (Suc left) = attempts ex (Suc k) left'"
    then have k: "plain_failure (ex k)" by (simp add: plain_failure_def)
    let ?r = "attempts ex (Suc k) left"
    have "\<forall>j. k \<le> j \<longrightarrow> j < retries ?r \<longrightarrow> plain_failure (ex j)"
      using k Suc [of "Suc k"] by (metis Suc_leI le_neq_implies_less)
    then show ?thesis using * Suc [of "Suc k"] by (simp add: Let_def)
  qed (auto simp: plain_failure_def)
qed

text \<open>
  The retry loop of a node.  The result is the outcome of the first attempt that does not fail
  in the ordinary way, with its number as the count of retries; a success carries that attempt's
  output; an error that mentions TIMEOUT is not retried; and the node fails only when the first
  attempt and all its retries failed.
\<close>

theorem retry_loop:
  "let r = attempts ex 0 left in
     retries r \<le> left \<and> (\<forall>j<retries r. plain_failure (ex j)) \<and> status r \<noteq> Skipped \<and>
     (status r = Success \<longleftrightarrow> (\<exists>v. ex (retries r) = ExecOk v \<and> node_output r = Some v)) \<and>
     (status r = TimedOut \<longleftrightarrow> (\<exists>e. ex (retries r) = ExecError e \<and> is_timeout e)) \<and>
     (status r = Failed \<longleftrightarrow> retries r = left \<and> plain_failure (ex left))"
  using attempts_spec [of ex 0 left] by (auto simp: Let_def)

section \<open>A layer\<close>

text \<open>Results depend on the results and outputs of the dependencies only.\<close>

lemma node_run_cong:
  assumes "\<And>d. d \<in> set (deps n) \<Longrightarrow> nodeResults st d = nodeResults st' d \<and> nodeOutputs st d = nodeOutputs st' d"
  shows "node_run config st n = node_run config st' n"
proof -
  have "depsFailed st n = depsFailed st' n" using assms by (simp add: depsFailed_def list_ex_iff)
  moreover have "node_inputs st n = node_inputs st' n" using assms by (simp add: node_inputs_def)
  ultimately show ?thesis by (simp add: node_run_def)
qed

definition layer_result :: "dag_spec \<Rightarrow> 'v executor option \<Rightarrow> 'v run_state \<Rightarrow> string \<Rightarrow> 'v node_result" where
  "layer_result spec config st i = node_run config st (the (node_of spec i))"

definition layer_state :: "dag_spec \<Rightarrow> 'v executor option \<Rightarrow> 'v run_state \<Rightarrow> string list \<Rightarrow> 'v run_state" where
  "layer_state spec config st layer =
     (let r = layer_result spec config st in
      \<lparr>nodeResults = (\<lambda>i. if i \<in> set layer then Some (r i) else nodeResults st i),
       nodeOutputs = (\<lambda>i. if i \<in> set layer \<and> status (r i) = Success then node_output (r i) else nodeOutputs st i),
       failedNodes = failedNodes st @ filter (\<lambda>i. status (r i) \<noteq> Success) layer\<rparr>)"

definition independent :: "dag_spec \<Rightarrow> string list \<Rightarrow> bool" where
  "independent spec layer \<longleftrightarrow>
     distinct layer \<and> (\<forall>i\<in>set layer. \<exists>n. node_of spec i = Some n \<and> set (deps n) \<inter> set layer = {})"

lemma run_layer_state:
  "independent spec layer \<Longrightarrow> run_layer spec config st layer = layer_state spec config st layer"
proof (induction layer rule: rev_induct)
  case Nil
  show ?case by (simp add: run_layer_def layer_state_def)
next
  case (snoc i layer)
  have ind: "independent spec layer" using snoc.prems by (auto simp: independent_def)
  obtain n where n: "node_of spec i = Some n" "set (deps n) \<inter> set layer = {}" "i \<notin> set layer"
    using snoc.prems by (auto simp: independent_def)
  let ?st = "layer_state spec config st layer"
  have "node_run config ?st n = node_run config st n"
    using n(2) by (intro node_run_cong) (auto simp: layer_state_def Let_def)
  then have "run_node spec config ?st i = record_result i (layer_result spec config st i) ?st"
    using n(1) by (simp add: run_node_def layer_result_def)
  also have "\<dots> = layer_state spec config st (layer @ [i])"
    using n(3) by (auto simp: record_result_def layer_state_def Let_def fun_eq_iff)
  finally show ?case using snoc.IH [OF ind] by (simp add: run_layer_def)
qed

lemma independent_perm: "independent spec layer \<Longrightarrow> mset layer' = mset layer \<Longrightarrow> independent spec layer'"
  unfolding independent_def by (metis mset_eq_imp_distinct_iff set_mset_mset)

lemma layers_independent:
  assumes "getLayers spec = Inr ls" "k < length ls"
  shows "independent spec (ls ! k)"
proof -
  obtain order where o: "topologicalSort spec = Inr order"
    using assms by (auto simp: getLayers_def split: sum.splits)
  note L = layer_facts [OF assms(1)]
  have dc: "distinct (concat ls)" and sc: "set (concat ls) = set (ids spec)"
    using L(1) kahn_sort.order_distinct [OF o]
    by (metis mset_eq_imp_distinct_iff) (metis L(1) set_mset_mset)
  have "\<exists>n. node_of spec i = Some n \<and> set (deps n) \<inter> set (ls ! k) = {}" if i: "i \<in> set (ls ! k)" for i
  proof -
    have "i \<in> set (ids spec)" using i assms(2) sc by (auto intro: nth_mem)
    then obtain n where n: "n \<in> set (nodes spec)" "nid n = i" by (auto simp: ids_def)
    then have "set (deps n) \<subseteq> (\<Union>j<k. set (ls ! j))" using L(3) assms(2) i by blast
    moreover have "set (ls ! j) \<inter> set (ls ! k) = {}" if "j < k" for j
      using concat_disjoint [OF dc that assms(2)] .
    ultimately have "set (deps n) \<inter> set (ls ! k) = {}" by blast
    then show ?thesis using kahn_sort.node_found [OF o n(1)] n(2) by auto
  qed
  moreover have "distinct (ls ! k)" using dc assms(2) by (simp add: distinct_concat_iff)
  ultimately show ?thesis by (simp add: independent_def)
qed

text \<open>
  The concurrency of a layer is harmless.  Running the nodes of a layer in any other order gives
  every node the same result and output, and the same nodes are reported as failed.
\<close>

theorem layer_order_irrelevant:
  assumes "getLayers spec = Inr ls" "k < length ls" "mset layer = mset (ls ! k)"
  shows "nodeResults (run_layer spec config st layer) = nodeResults (run_layer spec config st (ls ! k)) \<and>
    nodeOutputs (run_layer spec config st layer) = nodeOutputs (run_layer spec config st (ls ! k)) \<and>
    mset (failedNodes (run_layer spec config st layer)) = mset (failedNodes (run_layer spec config st (ls ! k)))"
proof -
  have i: "independent spec (ls ! k)" by (rule layers_independent [OF assms(1,2)])
  have j: "independent spec layer" by (rule independent_perm [OF i assms(3)])
  have "set layer = set (ls ! k)" using assms(3) by (metis set_mset_mset)
  then show ?thesis using assms(3)
    by (simp add: run_layer_state [OF i] run_layer_state [OF j] layer_state_def Let_def mset_filter)
qed

section \<open>A whole run\<close>

definition run_inv :: "dag_spec \<Rightarrow> 'v executor option \<Rightarrow> string set \<Rightarrow> 'v run_state \<Rightarrow> bool" where
  "run_inv spec config D st \<longleftrightarrow>
     dom (nodeResults st) = D \<and>
     (\<forall>n\<in>set (nodes spec). nid n \<in> D \<longrightarrow> set (deps n) \<subseteq> D \<and> nodeResults st (nid n) = Some (node_run config st n)) \<and>
     distinct (failedNodes st) \<and>
     (\<forall>i. i \<in> set (failedNodes st) \<longleftrightarrow> (\<exists>r. nodeResults st i = Some r \<and> status r \<noteq> Success))"

lemma run_inv_layer:
  assumes inv: "run_inv spec config D st" and ind: "independent spec layer" and new: "set layer \<inter> D = {}"
    and node: "\<And>n. n \<in> set (nodes spec) \<Longrightarrow> nid n \<in> set layer \<Longrightarrow> node_of spec (nid n) = Some n \<and> set (deps n) \<subseteq> D"
  shows "run_inv spec config (D \<union> set layer) (run_layer spec config st layer)"
proof -
  let ?st = "layer_state spec config st layer"
  have old: "nodeResults ?st d = nodeResults st d \<and> nodeOutputs ?st d = nodeOutputs st d" if "d \<in> D" for d
    using that new by (auto simp: layer_state_def Let_def)
  have same: "node_run config ?st n = node_run config st n" if "set (deps n) \<subseteq> D" for n
    using that old by (intro node_run_cong) blast
  have D: "dom (nodeResults st) = D" and inv_n: "\<And>n. n \<in> set (nodes spec) \<Longrightarrow> nid n \<in> D \<Longrightarrow>
      set (deps n) \<subseteq> D \<and> nodeResults st (nid n) = Some (node_run config st n)"
    and df: "distinct (failedNodes st)"
    and f: "\<And>i. i \<in> set (failedNodes st) \<longleftrightarrow> (\<exists>r. nodeResults st i = Some r \<and> status r \<noteq> Success)"
    using inv unfolding run_inv_def by blast+
  have "dom (nodeResults ?st) = D \<union> set layer" using D by (auto simp: layer_state_def Let_def split: if_splits)
  moreover have "set (deps n) \<subseteq> D \<union> set layer \<and> nodeResults ?st (nid n) = Some (node_run config ?st n)"
    if n: "n \<in> set (nodes spec)" "nid n \<in> D \<union> set layer" for n
  proof (cases "nid n \<in> D")
    case True
    then show ?thesis using inv_n [OF n(1)] old [of "nid n"] same [of n] by auto
  next
    case False
    then have "nid n \<in> set layer" using n(2) by simp
    then show ?thesis using node [OF n(1)] same [of n] by (auto simp: layer_state_def layer_result_def Let_def)
  qed
  moreover have "distinct (failedNodes ?st)"
    using df ind f D new by (auto simp: layer_state_def Let_def independent_def)
  moreover have "i \<in> set (failedNodes ?st) \<longleftrightarrow> (\<exists>r. nodeResults ?st i = Some r \<and> status r \<noteq> Success)" for i
    using f [of i] new D by (auto simp: layer_state_def Let_def)
  ultimately show ?thesis unfolding run_layer_state [OF ind] run_inv_def by blast
qed

lemma run_inv_final:
  assumes "getLayers spec = Inr ls"
  shows "run_inv spec config (set (ids spec)) (foldl (run_layer spec config) empty_run ls)"
proof -
  obtain order where o: "topologicalSort spec = Inr order"
    using assms by (auto simp: getLayers_def split: sum.splits)
  note L = layer_facts [OF assms]
  have dc: "distinct (concat ls)" using L(1,4) by (metis mset_eq_imp_distinct_iff)
  have "m \<le> length ls \<Longrightarrow>
      run_inv spec config (\<Union>j<m. set (ls ! j)) (foldl (run_layer spec config) empty_run (take m ls))" for m
  proof (induction m)
    case 0
    show ?case by (simp add: run_inv_def empty_run_def)
  next
    case (Suc m)
    have "run_inv spec config ((\<Union>j<m. set (ls ! j)) \<union> set (ls ! m))
        (run_layer spec config (foldl (run_layer spec config) empty_run (take m ls)) (ls ! m))"
    proof (rule run_inv_layer)
      show "run_inv spec config (\<Union>j<m. set (ls ! j)) (foldl (run_layer spec config) empty_run (take m ls))"
        using Suc by simp
      show "independent spec (ls ! m)" using layers_independent [OF assms] Suc.prems by simp
      show "set (ls ! m) \<inter> (\<Union>j<m. set (ls ! j)) = {}" using concat_disjoint [OF dc] Suc.prems by fastforce
      fix n assume "n \<in> set (nodes spec)" "nid n \<in> set (ls ! m)"
      then show "node_of spec (nid n) = Some n \<and> set (deps n) \<subseteq> (\<Union>j<m. set (ls ! j))"
        using L(3) [of n m] kahn_sort.node_found [OF o] Suc.prems by simp
    qed
    moreover have "(\<Union>j<Suc m. set (ls ! j)) = (\<Union>j<m. set (ls ! j)) \<union> set (ls ! m)" by (auto simp: less_Suc_eq)
    ultimately show ?case using Suc.prems by (simp add: take_Suc_conv_app_nth)
  qed
  from this [of "length ls"]
  have r: "run_inv spec config (\<Union>j<length ls. set (ls ! j)) (foldl (run_layer spec config) empty_run ls)" by simp
  have "set ls = (\<lambda>j. ls ! j) ` {..<length ls}" by (auto simp: set_conv_nth)
  then have "(\<Union>j<length ls. set (ls ! j)) = set (concat ls)" by simp
  also have "\<dots> = set (ids spec)" using L(1) by (metis set_mset_mset)
  finally show ?thesis using r by simp
qed

text \<open>
  C7: A run solves the graph.  Every node ends with exactly one result, which is what the node
  computes from the final results and outputs of its dependencies; the reported failures are
  the nodes without success, once each; and the run is a success when there are none, a failure when
  all nodes are among them, and partial otherwise.
\<close>

theorem run_solves_graph:
  assumes "runDag spec config = Inr (s, st)"
  shows "dom (nodeResults st) = set (ids spec) \<and>
    (\<forall>n\<in>set (nodes spec). nodeResults st (nid n) = Some (node_run config st n)) \<and>
    distinct (failedNodes st) \<and>
    set (failedNodes st) = {i. \<exists>r. nodeResults st i = Some r \<and> status r \<noteq> Success} \<and>
    (s = RunSuccess \<longleftrightarrow> (\<forall>i r. nodeResults st i = Some r \<longrightarrow> status r = Success)) \<and>
    (s = RunFailed \<longleftrightarrow> nodes spec \<noteq> [] \<and> (\<forall>i r. nodeResults st i = Some r \<longrightarrow> status r \<noteq> Success))"
proof -
  obtain ls where ls: "getLayers spec = Inr ls" "st = foldl (run_layer spec config) empty_run ls"
      "s = overall_status spec st"
    using assms by (auto simp: runDag_def Let_def split: sum.splits)
  have inv: "run_inv spec config (set (ids spec)) st" using run_inv_final [OF ls(1)] ls(2) by simp
  then have D: "dom (nodeResults st) = set (ids spec)" and df: "distinct (failedNodes st)"
    and F: "set (failedNodes st) = {i. \<exists>r. nodeResults st i = Some r \<and> status r \<noteq> Success}"
    unfolding run_inv_def by blast+
  have N: "\<forall>n\<in>set (nodes spec). nodeResults st (nid n) = Some (node_run config st n)"
    using inv unfolding run_inv_def ids_def by auto
  have sub: "set (failedNodes st) \<subseteq> set (ids spec)" using F D by auto
  have card: "card (set (ids spec)) = length (nodes spec)"
    using layer_facts(4) [OF ls(1)] by (metis distinct_card ids_def length_map)
  have lenF: "length (failedNodes st) = card (set (failedNodes st))" using df by (simp add: distinct_card)
  have "length (failedNodes st) \<le> length (nodes spec)"
    using card_mono [OF _ sub] card lenF by simp
  then have "s = RunFailed \<longleftrightarrow> failedNodes st \<noteq> [] \<and> length (failedNodes st) = length (nodes spec)"
    by (auto simp: ls(3) overall_status_def)
  also have "\<dots> \<longleftrightarrow> failedNodes st \<noteq> [] \<and> set (failedNodes st) = set (ids spec)"
  proof -
    have "length (failedNodes st) = length (nodes spec) \<longleftrightarrow> card (set (failedNodes st)) = card (set (ids spec))"
      by (simp only: lenF card)
    also have "\<dots> \<longleftrightarrow> set (failedNodes st) = set (ids spec)"
      using card_subset_eq [OF _ sub] by (metis finite_set)
    finally show ?thesis by simp
  qed
  also have "\<dots> \<longleftrightarrow> nodes spec \<noteq> [] \<and> (\<forall>i r. nodeResults st i = Some r \<longrightarrow> status r \<noteq> Success)"
  proof -
    have "set (failedNodes st) = set (ids spec) \<longleftrightarrow> (\<forall>i r. nodeResults st i = Some r \<longrightarrow> status r \<noteq> Success)"
      unfolding F D [symmetric] dom_def set_eq_iff by (auto simp: Ball_def) (metis option.inject)
    moreover have "set (ids spec) = {} \<longleftrightarrow> nodes spec = []" by (simp add: ids_def)
    ultimately show ?thesis by (metis set_empty)
  qed
  finally have rf: "s = RunFailed \<longleftrightarrow> nodes spec \<noteq> [] \<and> (\<forall>i r. nodeResults st i = Some r \<longrightarrow> status r \<noteq> Success)" .
  have "s = RunSuccess \<longleftrightarrow> set (failedNodes st) = {}" by (auto simp: ls(3) overall_status_def)
  then have "s = RunSuccess \<longleftrightarrow> (\<forall>i r. nodeResults st i = Some r \<longrightarrow> status r = Success)"
    unfolding F by blast
  then show ?thesis using D N df F rf by blast
qed

text \<open>
  Failures propagate as the policies say.  In the final state a node is skipped exactly when its
  policy is to abort and some dependency did not succeed; so a node with that policy that succeeded
  had only successful dependencies.
\<close>

theorem skip_iff_dependency_failed:
  assumes "runDag spec config = Inr (s, st)" "n \<in> set (nodes spec)" "nodeResults st (nid n) = Some r"
  shows "status r = Skipped \<longleftrightarrow> onFailure n = AbortOnFailure \<and>
    (\<exists>d\<in>set (deps n). \<exists>rd. nodeResults st d = Some rd \<and> status rd \<noteq> Success)"
proof -
  obtain ls where ls: "getLayers spec = Inr ls" "st = foldl (run_layer spec config) empty_run ls"
    using assms(1) by (auto simp: runDag_def Let_def split: sum.splits)
  have "r = node_run config st n"
    using run_inv_final [OF ls(1), of config] ls(2) assms(2,3) by (auto simp: run_inv_def ids_def)
  moreover have "depsFailed st n \<longleftrightarrow> (\<exists>d\<in>set (deps n). \<exists>rd. nodeResults st d = Some rd \<and> status rd \<noteq> Success)"
    by (auto simp: depsFailed_def list_ex_iff split: option.splits)
  moreover have "status (attempts ex 0 m) \<noteq> Skipped" for ex :: "nat \<Rightarrow> 'a exec_outcome" and m
    using attempts_spec [of ex 0 m] by (simp add: Let_def)
  ultimately show ?thesis by (auto simp: node_run_def skipped_result_def)
qed

section \<open>A concrete run\<close>

definition sample_node :: "string \<Rightarrow> string list \<Rightarrow> dag_node" where
  "sample_node i ds = \<lparr>nid = i, kind = CustomNode, deps = ds, retryPolicy = \<lparr>retry_max = 1, backoffMs = 0\<rparr>,
     timeoutMs = 1, onFailure = AbortOnFailure\<rparr>"

definition sample_spec :: dag_spec where
  "sample_spec = \<lparr>nodes = [sample_node ''b'' [''a''], sample_node ''a'' []], entry = ''a'', exit = ''b''\<rparr>"

definition failing :: "unit executor option" where "failing = Some (\<lambda>n k inputs. ExecError ''no'')"

lemma retry_loop_witness:
  "let r = attempts (\<lambda>k. if k = 2 then ExecOk () else ExecError ''busy'') 0 3 in
     status r = Success \<and> retries r = 2 \<and> (\<forall>j<2::nat. plain_failure (if j = 2 then ExecOk () else ExecError ''busy''))"
proof -
  let ?ex = "\<lambda>k::nat. if k = 2 then ExecOk () else ExecError ''busy''"
  have "status (attempts ?ex 0 3) = Success \<and> retries (attempts ?ex 0 3) = 2" by code_simp
  then show ?thesis using retry_loop [of ?ex 3] by (simp add: Let_def)
qed

lemma layer_order_irrelevant_witness:
  "mset (failedNodes (run_layer sample_spec failing empty_run [''a''])) =
   mset (failedNodes (run_layer sample_spec failing empty_run [''a'']))"
proof -
  have l: "getLayers sample_spec = Inr [[''a''], [''b'']]" by code_simp
  show ?thesis using layer_order_irrelevant [OF l, of 0 "[''a'']" failing empty_run] by simp
qed

lemma run_solves_graph_witness:
  "case runDag sample_spec failing of Inl _ \<Rightarrow> False
   | Inr (s, st) \<Rightarrow> s = RunFailed \<and> set (failedNodes st) = {''a'', ''b''}"
proof -
  have "(case runDag sample_spec failing of Inl _ \<Rightarrow> False
      | Inr (s, st) \<Rightarrow> s = RunFailed \<and> failedNodes st = [''a'', ''b''])" by code_simp
  then obtain st where r: "runDag sample_spec failing = Inr (RunFailed, st)" "failedNodes st = [''a'', ''b'']"
    by (auto split: sum.splits prod.splits)
  from run_solves_graph [OF r(1)] r show ?thesis by simp
qed

lemma skip_iff_dependency_failed_witness:
  "\<exists>st r. runDag sample_spec failing = Inr (RunFailed, st) \<and> nodeResults st ''b'' = Some r \<and> status r = Skipped"
proof -
  have "(case runDag sample_spec failing of Inl _ \<Rightarrow> False
      | Inr (s, st) \<Rightarrow> s = RunFailed \<and> map_option status (nodeResults st ''b'') = Some Skipped \<and>
          map_option status (nodeResults st ''a'') = Some Failed)" by code_simp
  then obtain st r ra where r: "runDag sample_spec failing = Inr (RunFailed, st)" "nodeResults st ''b'' = Some r"
      "nodeResults st ''a'' = Some ra" "status ra = Failed"
    by (auto split: sum.splits prod.splits)
  have "sample_node ''b'' [''a''] \<in> set (nodes sample_spec)" by (simp add: sample_spec_def)
  from skip_iff_dependency_failed [OF r(1) this, of r] r show ?thesis by (simp add: sample_node_def)
qed

end
