(* ===== verification/Dag_Persist.thy ===== *)
theory Dag_Persist
  imports Dag_Layers
begin

text \<open>
  The persistent runner of \<open>src/coordinator/dag/persist.ts\<close>: a run prepares the nodes in the order of
  the sort, saving its state after each, and then commits them; an interrupted run is resumed from the
  state in its file.  The executor and the hash are arguments, where \<open>None\<close> is a thrown error.  A call
  of \<open>run\<close> or \<open>resume\<close> executes a node at most once, so what the asynchronous executor answers in that
  call is a function; the call that resumes has an executor of its own.  A saved state is the snapshot
  that was written, its outputs are read back as JSON keeps them, and time stamps are left out.
\<close>

datatype node_phase = Pending | Preparing | Prepared | Committing | Committed | NodeFailed
datatype run_phase = PreparePhase | CommitPhase | Complete | Aborted

record 'v node_state =
  nphase :: node_phase
  noutput :: "'v option"
  outputHash :: "string option"
  nattempts :: nat

record 'v persistent_state =
  runId :: string
  pspec :: dag_spec
  rphase :: run_phase
  nodeStates :: "string \<rightharpoonup> 'v node_state"

record 'v persist_config =
  nodeExecutor :: "(dag_node \<Rightarrow> (string \<times> 'v option) list \<Rightarrow> 'v option) option"
  sha :: "'v \<Rightarrow> string option"

definition pending_node :: "'v node_state" where
  "pending_node = \<lparr>nphase = Pending, noutput = None, outputHash = None, nattempts = 0\<rparr>"

definition node_state :: "'v persistent_state \<Rightarrow> string \<Rightarrow> 'v node_state" where
  "node_state st i = (case nodeStates st i of None \<Rightarrow> pending_node | Some ns \<Rightarrow> ns)"

definition set_node :: "string \<Rightarrow> 'v node_state \<Rightarrow> 'v persistent_state \<Rightarrow> 'v persistent_state" where
  "set_node i ns st = st\<lparr>nodeStates := (nodeStates st)(i \<mapsto> ns)\<rparr>"

definition persistent_executeNode :: "'v persist_config \<Rightarrow> dag_node \<Rightarrow> 'v persistent_state \<Rightarrow> 'v option" where
  "persistent_executeNode config n st =
     (let inputs = map (\<lambda>d. (d, Option.bind (nodeStates st d) noutput)) (deps n) in
      case nodeExecutor config of Some f \<Rightarrow> f n inputs | None \<Rightarrow> None)"

text \<open>
  The body that \<open>run\<close> and \<open>resume\<close> share: the node's output and its hash, or the failure that aborts
  the run.  \<open>done\<close> is the phase after success.
\<close>

definition execute_step ::
  "'v persist_config \<Rightarrow> node_phase \<Rightarrow> 'v persistent_state \<Rightarrow> string \<Rightarrow> bool \<times> 'v persistent_state" where
  "execute_step config done_phase st i =
     (let ns = (node_state st i)\<lparr>nphase := Preparing, nattempts := nattempts (node_state st i) + 1\<rparr>;
          st1 = set_node i ns st;
          result = Option.bind (node_of (pspec st) i) (\<lambda>n. persistent_executeNode config n st1)
      in case result of
           None \<Rightarrow> (False, (set_node i (ns\<lparr>nphase := NodeFailed\<rparr>) st)\<lparr>rphase := Aborted\<rparr>)
         | Some v \<Rightarrow>
             (case sha config v of
                None \<Rightarrow> (False, (set_node i (ns\<lparr>noutput := Some v, nphase := NodeFailed\<rparr>) st)\<lparr>rphase := Aborted\<rparr>)
              | Some h \<Rightarrow>
                  (True, set_node i (ns\<lparr>noutput := Some v, outputHash := Some h, nphase := done_phase\<rparr>) st)))"

text \<open>Phase 1: the states saved, in order, the last state and whether the phase went through.\<close>

fun prepare_all ::
  "'v persist_config \<Rightarrow> string list \<Rightarrow> 'v persistent_state \<Rightarrow> 'v persistent_state list \<times> 'v persistent_state \<times> bool"
where
  "prepare_all config [] st = ([], st, True)"
| "prepare_all config (i # order) st =
     (case execute_step config Prepared st i of
        (False, st') \<Rightarrow> ([st'], st', False)
      | (True, st') \<Rightarrow>
          (let (saves, st'', ok) = prepare_all config order st' in (st' # saves, st'', ok)))"

definition commit_node :: "'v persistent_state \<Rightarrow> string \<Rightarrow> 'v persistent_state" where
  "commit_node st i = set_node i ((node_state st i)\<lparr>nphase := Committed\<rparr>) st"

definition initial_state :: "dag_spec \<Rightarrow> string \<Rightarrow> 'v persistent_state" where
  "initial_state spec rid = \<lparr>runId = rid, pspec = spec, rphase = PreparePhase,
     nodeStates = (\<lambda>i. if i \<in> set (ids spec) then Some pending_node else None)\<rparr>"

text \<open>All the states a run saves, and the last.\<close>

definition persistent_run ::
  "'v persist_config \<Rightarrow> dag_spec \<Rightarrow> string \<Rightarrow> dag_error + ('v persistent_state list \<times> 'v persistent_state)" where
  "persistent_run config spec rid =
     (case topologicalSort spec of Inl e \<Rightarrow> Inl e
      | Inr order \<Rightarrow>
          (let st0 = initial_state spec rid; (saves, st1, ok) = prepare_all config order st0
           in if \<not> ok then Inr (st0 # saves, st1)
              else (let st2 = st1\<lparr>rphase := CommitPhase\<rparr>;
                        st3 = (foldl commit_node st2 order)\<lparr>rphase := Complete\<rparr>
                    in Inr (st0 # saves @ [st2, st3], st3))))"

fun resume_all ::
  "'v persist_config \<Rightarrow> string list \<Rightarrow> 'v persistent_state \<Rightarrow> bool \<times> 'v persistent_state" where
  "resume_all config [] st = (True, st)"
| "resume_all config (i # order) st =
     (if nphase (node_state st i) = Committed \<or> nphase (node_state st i) = Prepared
      then resume_all config order st
      else (case execute_step config (if rphase st = CommitPhase then Committed else Prepared) st i of
              (False, st') \<Rightarrow> (False, st')
            | (True, st') \<Rightarrow> resume_all config order st'))"

text \<open>
  \<open>loadState\<close>: the cached state of this process, or else the file.  The argument \<open>revive\<close> is what
  \<open>JSON.parse\<close> makes of what \<open>JSON.stringify\<close> wrote of an output, which may be any value.
\<close>

definition revive_state :: "('v \<Rightarrow> 'v) \<Rightarrow> 'v persistent_state \<Rightarrow> 'v persistent_state" where
  "revive_state revive st =
     st\<lparr>nodeStates := (\<lambda>i. map_option (\<lambda>ns. ns\<lparr>noutput := map_option revive (noutput ns)\<rparr>) (nodeStates st i))\<rparr>"

definition persistent_loadState ::
  "('v \<Rightarrow> 'v) \<Rightarrow> 'v persistent_state option \<Rightarrow> 'v persistent_state option \<Rightarrow> 'v persistent_state option" where
  "persistent_loadState revive cached file_state =
     (case cached of Some st \<Rightarrow> Some st | None \<Rightarrow> map_option (revive_state revive) file_state)"

text \<open>\<open>loaded\<close> is what \<open>loadState\<close> found.\<close>

definition persistent_resume ::
  "'v persist_config \<Rightarrow> 'v persistent_state option \<Rightarrow> (dag_error option) + 'v persistent_state" where
  "persistent_resume config loaded =
     (case loaded of None \<Rightarrow> Inl None
      | Some st \<Rightarrow>
          if rphase st = Complete \<or> rphase st = Aborted then Inr st
          else (case topologicalSort (pspec st) of Inl e \<Rightarrow> Inl (Some e)
                | Inr order \<Rightarrow>
                    (case resume_all config order st of
                       (False, st') \<Rightarrow> Inr st'
                     | (True, st') \<Rightarrow> Inr (st'\<lparr>rphase := Complete\<rparr>))))"

definition persistent_abort :: "'v persistent_state option \<Rightarrow> 'v persistent_state option" where
  "persistent_abort loaded = map_option (\<lambda>st. st\<lparr>rphase := Aborted\<rparr>) loaded"

datatype result_status = ResultSuccess | ResultPartial | ResultFailed
datatype node_outcome = OutcomeSuccess | OutcomeFailed | OutcomeSkipped

definition node_outcome :: "'v node_state \<Rightarrow> node_outcome" where
  "node_outcome ns =
     (if nphase ns = Committed then OutcomeSuccess else if nphase ns = NodeFailed then OutcomeFailed
      else OutcomeSkipped)"

text \<open>
  \<open>stateToResult\<close>: the status, for each node its outcome, output and retries (an integer: a pending
  node reports -1), and the failed nodes.
\<close>

definition stateToResult ::
  "'v persistent_state \<Rightarrow> result_status \<times> (string \<rightharpoonup> node_outcome \<times> 'v option \<times> int) \<times> string list" where
  "stateToResult st =
     (let failed = filter (\<lambda>i. nphase (node_state st i) = NodeFailed) (ids (pspec st))
      in ((if rphase st = Complete then ResultSuccess
           else if length failed < length (ids (pspec st)) then ResultPartial else ResultFailed),
          (\<lambda>i. map_option (\<lambda>ns. (node_outcome ns, noutput ns, int (nattempts ns) - 1)) (nodeStates st i)),
          failed))"

definition reported :: "'v persistent_state \<Rightarrow> string \<Rightarrow> node_outcome option" where
  "reported st i = map_option fst (fst (snd (stateToResult st)) i)"

section \<open>Outputs that solve the graph\<close>

definition solves_on :: "'v persist_config \<Rightarrow> dag_spec \<Rightarrow> string set \<Rightarrow> (string \<Rightarrow> 'v) \<Rightarrow> bool" where
  "solves_on config spec X out \<longleftrightarrow>
     (\<forall>n\<in>set (nodes spec). nid n \<in> X \<longrightarrow>
        (\<exists>f. nodeExecutor config = Some f \<and> f n (map (\<lambda>d. (d, Some (out d))) (deps n)) = Some (out (nid n))) \<and>
        sha config (out (nid n)) \<noteq> None)"

abbreviation solves :: "'v persist_config \<Rightarrow> dag_spec \<Rightarrow> (string \<Rightarrow> 'v) \<Rightarrow> bool" where
  "solves config spec out \<equiv> solves_on config spec (set (ids spec)) out"

text \<open>A state in which the nodes of \<open>xs\<close> are prepared and the others pending.\<close>

definition at_prefix :: "dag_spec \<Rightarrow> (string \<Rightarrow> 'v) \<Rightarrow> string set \<Rightarrow> 'v persistent_state \<Rightarrow> bool" where
  "at_prefix spec out X st \<longleftrightarrow>
     pspec st = spec \<and> dom (nodeStates st) = set (ids spec) \<and>
     (\<forall>i\<in>set (ids spec).
        (i \<in> X \<longrightarrow> nphase (node_state st i) = Prepared \<and> noutput (node_state st i) = Some (out i)) \<and>
        (i \<notin> X \<longrightarrow> nphase (node_state st i) = Pending))"

lemma node_state_set [simp]:
  "node_state (set_node i ns st) j = (if j = i then ns else node_state st j)"
  "node_state (st\<lparr>rphase := p\<rparr>) j = node_state st j"
  by (auto simp: node_state_def set_node_def)

lemma set_node_simps [simp]:
  "pspec (set_node i ns st) = pspec st" "rphase (set_node i ns st) = rphase st"
  "dom (nodeStates (set_node i ns st)) = insert i (dom (nodeStates st))"
  by (auto simp: set_node_def)

text \<open>What a node with prepared dependencies is given.\<close>

lemma inputs_at_prefix:
  assumes p: "at_prefix spec out X st" and d: "set (deps n) \<subseteq> X" "i \<notin> X" "X \<subseteq> set (ids spec)"
  shows "map (\<lambda>d. (d, Option.bind (nodeStates (set_node i ns st) d) noutput)) (deps n) =
    map (\<lambda>d. (d, Some (out d))) (deps n)"
proof -
  have "Option.bind (nodeStates (set_node i ns st) d) noutput = Some (out d)" if "d \<in> set (deps n)" for d
  proof -
    have d: "d \<in> X" "d \<noteq> i" "d \<in> set (ids spec)" using that assms(2-4) by auto
    then obtain ns' where "nodeStates st d = Some ns'" using p by (auto simp: at_prefix_def)
    then show ?thesis using p d by (auto simp: at_prefix_def node_state_def set_node_def)
  qed
  then show ?thesis by simp
qed

lemma step_of_solution:
  assumes sol: "solves config spec out" and p: "at_prefix spec out X st"
    and n: "n \<in> set (nodes spec)" "node_of spec (nid n) = Some n" "set (deps n) \<subseteq> X" "nid n \<notin> X"
    and X: "X \<subseteq> set (ids spec)"
  shows "\<exists>ns. execute_step config ph st (nid n) = (True, set_node (nid n) ns st) \<and>
    nphase ns = ph \<and> noutput ns = Some (out (nid n))"
proof -
  have "nid n \<in> set (ids spec)" using n(1) by (auto simp: ids_def)
  then obtain f h where f: "nodeExecutor config = Some f"
      "f n (map (\<lambda>d. (d, Some (out d))) (deps n)) = Some (out (nid n))" "sha config (out (nid n)) = Some h"
    using sol n(1) unfolding solves_on_def by (metis not_None_eq)
  have "persistent_executeNode config n (set_node (nid n) ns st) = Some (out (nid n))" for ns
    unfolding persistent_executeNode_def Let_def inputs_at_prefix [OF p n(3,4) X] using f(1,2) by simp
  then show ?thesis using p n(2) f(3)
    by (simp add: execute_step_def at_prefix_def Let_def) (intro exI conjI, rule refl, simp_all)
qed

lemma execute_step_True:
  assumes "execute_step config ph st i = (True, st')"
  obtains n f v ns ns1 where "node_of (pspec st) i = Some n" "nodeExecutor config = Some f"
    "f n (map (\<lambda>d. (d, Option.bind (nodeStates (set_node i ns1 st) d) noutput)) (deps n)) = Some v"
    "sha config v \<noteq> None" "st' = set_node i ns st" "nphase ns = ph" "noutput ns = Some v"
proof -
  let ?ns = "(node_state st i)\<lparr>nphase := Preparing, nattempts := nattempts (node_state st i) + 1\<rparr>"
  obtain n v h where n: "node_of (pspec st) i = Some n"
      "persistent_executeNode config n (set_node i ?ns st) = Some v" "sha config v = Some h"
      "st' = set_node i (?ns\<lparr>noutput := Some v, outputHash := Some h, nphase := ph\<rparr>) st"
    using assms by (auto simp: execute_step_def Let_def bind_eq_Some_conv split: option.splits)
  then obtain f where "nodeExecutor config = Some f"
      "f n (map (\<lambda>d. (d, Option.bind (nodeStates (set_node i ?ns st) d) noutput)) (deps n)) = Some v"
    by (auto simp: persistent_executeNode_def Let_def split: option.splits)
  then show thesis
    using that [of n f ?ns v "?ns\<lparr>noutput := Some v, outputHash := Some h, nphase := ph\<rparr>"] n by simp
qed

lemma execute_step_False:
  "execute_step config ph st i = (False, st') \<Longrightarrow> \<exists>ns. st' = (set_node i ns st)\<lparr>rphase := Aborted\<rparr>"
  by (auto simp: execute_step_def Let_def split: option.splits)

lemma at_prefix_step:
  assumes "at_prefix spec out X st" "nphase ns = Prepared" "noutput ns = Some (out i)" "i \<in> set (ids spec)"
  shows "at_prefix spec out (insert i X) (set_node i ns st)"
  using assms by (auto simp: at_prefix_def)

lemma prepare_solution:
  assumes sol: "solves config spec out" and s: "topologicalSort spec = Inr (xs @ ys)"
    and p: "at_prefix spec out (set xs) st"
  shows "\<exists>saves st'. prepare_all config ys st = (saves, st', True) \<and> at_prefix spec out (set (xs @ ys)) st' \<and>
    rphase st' = rphase st \<and>
    (\<forall>s\<in>set saves. rphase s = rphase st \<and> (\<exists>us vs. xs @ ys = us @ vs \<and> at_prefix spec out (set us) s))"
  using s p
proof (induction ys arbitrary: xs st)
  case (Cons i ys)
  obtain n where n: "n \<in> set (nodes spec)" "nid n = i" "node_of spec i = Some n"
    using kahn_sort.node_exists [OF Cons.prems(1)] by auto
  have d: "set (deps n) \<subseteq> set xs" using kahn_sort.deps_before [OF Cons.prems(1) n(1,2)] .
  have i: "i \<notin> set xs" "set xs \<subseteq> set (ids spec)" "i \<in> set (ids spec)"
    using kahn_sort.order_distinct [OF Cons.prems(1)] kahn_sort.order_set [OF Cons.prems(1)] by auto
  obtain ns where ns: "execute_step config Prepared st i = (True, set_node i ns st)" "nphase ns = Prepared"
      "noutput ns = Some (out i)"
    using step_of_solution [OF sol Cons.prems(2) n(1), where ph = Prepared] n d i by auto
  let ?st = "set_node i ns st"
  have p: "at_prefix spec out (set (xs @ [i])) ?st"
    using at_prefix_step [OF Cons.prems(2) ns(2,3) i(3)] by simp
  obtain saves st' where r: "prepare_all config ys ?st = (saves, st', True)"
      "at_prefix spec out (set ((xs @ [i]) @ ys)) st'" "rphase st' = rphase ?st"
      "\<forall>s\<in>set saves. rphase s = rphase ?st \<and> (\<exists>us vs. (xs @ [i]) @ ys = us @ vs \<and> at_prefix spec out (set us) s)"
    using Cons.IH [of "xs @ [i]" ?st] Cons.prems(1) p by auto
  have "\<exists>us vs. xs @ i # ys = us @ vs \<and> at_prefix spec out (set us) ?st"
    using p by (intro exI [of _ "xs @ [i]"] exI [of _ ys]) simp
  then show ?case using ns(1) r by auto
qed simp

text \<open>
  The same for a state that was read back: its outputs are those of \<open>out\<close> up to \<open>rv\<close>.  A configuration
  can resume when its executor finds \<open>out\<close> up to \<open>rv\<close> from inputs that are so.
\<close>

definition revived_prefix ::
  "('v \<Rightarrow> 'v) \<Rightarrow> dag_spec \<Rightarrow> (string \<Rightarrow> 'v) \<Rightarrow> string set \<Rightarrow> 'v persistent_state \<Rightarrow> bool" where
  "revived_prefix rv spec out X st \<longleftrightarrow>
     pspec st = spec \<and> dom (nodeStates st) = set (ids spec) \<and>
     (\<forall>i\<in>set (ids spec).
        (i \<in> X \<longrightarrow> nphase (node_state st i) = Prepared \<and> map_option rv (noutput (node_state st i)) = Some (out i)) \<and>
        (i \<notin> X \<longrightarrow> nphase (node_state st i) = Pending))"

definition answer_of :: "'v persist_config \<Rightarrow> dag_node \<Rightarrow> (string \<times> 'v option) list \<Rightarrow> 'v option" where
  "answer_of config n ins = Option.bind (nodeExecutor config) (\<lambda>f. f n ins)"

definition resumable :: "('v \<Rightarrow> 'v) \<Rightarrow> 'v persist_config \<Rightarrow> dag_spec \<Rightarrow> (string \<Rightarrow> 'v) \<Rightarrow> bool" where
  "resumable rv config spec out \<longleftrightarrow>
     (\<forall>n\<in>set (nodes spec). \<forall>ins. map (map_prod id (map_option rv)) ins = map (\<lambda>d. (d, Some (out d))) (deps n) \<longrightarrow>
        (\<exists>v. answer_of config n ins = Some v \<and> rv v = out (nid n) \<and> sha config v \<noteq> None))"

lemma revive_node [simp]:
  "node_state (revive_state rv st) i = (node_state st i)\<lparr>noutput := map_option rv (noutput (node_state st i))\<rparr>"
  "rphase (revive_state rv st) = rphase st" "pspec (revive_state rv st) = pspec st"
  "dom (nodeStates (revive_state rv st)) = dom (nodeStates st)"
  by (auto simp: revive_state_def node_state_def pending_node_def split: option.splits)

lemma revived_prefix:
  assumes "at_prefix spec out X st" "\<And>v. rv (rv v) = rv v"
  shows "revived_prefix rv spec (rv \<circ> out) X (revive_state rv st)"
  using assms by (auto simp: at_prefix_def revived_prefix_def)

lemma executed_answer:
  "persistent_executeNode config n st = answer_of config n (map (\<lambda>d. (d, Option.bind (nodeStates st d) noutput)) (deps n))"
  by (simp add: persistent_executeNode_def answer_of_def Let_def split: option.splits)

lemma step_of_revived:
  assumes sol: "resumable rv config spec out" and p: "revived_prefix rv spec out X st"
    and n: "n \<in> set (nodes spec)" "node_of spec (nid n) = Some n" "set (deps n) \<subseteq> X" "nid n \<notin> X"
    and X: "X \<subseteq> set (ids spec)"
  shows "\<exists>ns. execute_step config ph st (nid n) = (True, set_node (nid n) ns st) \<and>
    nphase ns = ph \<and> map_option rv (noutput ns) = Some (out (nid n))"
proof -
  let ?ns = "(node_state st (nid n))\<lparr>nphase := Preparing, nattempts := nattempts (node_state st (nid n)) + 1\<rparr>"
  let ?st = "set_node (nid n) ?ns st"
  have "map_option rv (Option.bind (nodeStates ?st d) noutput) = Some (out d)" if "d \<in> set (deps n)" for d
  proof -
    have d: "d \<in> X" "d \<noteq> nid n" "d \<in> set (ids spec)" using that n(3,4) X by auto
    then obtain ns' where "nodeStates st d = Some ns'" using p by (auto simp: revived_prefix_def)
    then show ?thesis using p d by (auto simp: revived_prefix_def node_state_def set_node_def)
  qed
  then have "map (map_prod id (map_option rv)) (map (\<lambda>d. (d, Option.bind (nodeStates ?st d) noutput)) (deps n)) =
      map (\<lambda>d. (d, Some (out d))) (deps n)" by simp
  then obtain v where v: "persistent_executeNode config n ?st = Some v" "rv v = out (nid n)" "sha config v \<noteq> None"
    using sol n(1) unfolding resumable_def executed_answer by blast
  have "pspec st = spec" using p by (simp add: revived_prefix_def)
  then show ?thesis using n(2) v by (auto simp: execute_step_def Let_def)
qed

lemma revived_prefix_step:
  assumes "revived_prefix rv spec out X st" "nphase ns = Prepared" "map_option rv (noutput ns) = Some (out i)"
    "i \<in> set (ids spec)"
  shows "revived_prefix rv spec out (insert i X) (set_node i ns st)"
  using assms by (auto simp: revived_prefix_def)

lemma resume_solution:
  assumes sol: "resumable rv config spec out" and s: "topologicalSort spec = Inr (us @ ys)"
    and p: "revived_prefix rv spec out (X \<union> set us) st" and X: "X \<subseteq> set (us @ ys)"
    and ph: "rphase st = PreparePhase \<or> set ys \<subseteq> X"
  shows "\<exists>st'. resume_all config ys st = (True, st') \<and> revived_prefix rv spec out (set (us @ ys)) st'"
  using s p X ph
proof (induction ys arbitrary: us st)
  case Nil
  then have "X \<union> set us = set us" by auto
  then show ?case using Nil by simp
next
  case (Cons i ys)
  obtain n where n: "n \<in> set (nodes spec)" "nid n = i" "node_of spec i = Some n"
    using kahn_sort.node_exists [OF Cons.prems(1)] by auto
  have d: "set (deps n) \<subseteq> set us" using kahn_sort.deps_before [OF Cons.prems(1) n(1,2)] .
  have o: "i \<notin> set us" "set us \<subseteq> set (ids spec)" "i \<in> set (ids spec)" "X \<subseteq> set (ids spec)"
    using kahn_sort.order_distinct [OF Cons.prems(1)] kahn_sort.order_set [OF Cons.prems(1)] Cons.prems(3) by auto
  show ?case
  proof (cases "i \<in> X")
    case True
    then have "nphase (node_state st i) = Prepared" using Cons.prems(2) o(3) by (auto simp: revived_prefix_def)
    moreover have "revived_prefix rv spec out (X \<union> set (us @ [i])) st" using Cons.prems(2) True by (simp add: insert_absorb)
    ultimately show ?thesis using Cons.IH [of "us @ [i]" st] Cons.prems by auto
  next
    case False
    then have pp: "rphase st = PreparePhase" using Cons.prems(4) by auto
    have pend: "nphase (node_state st i) = Pending" using Cons.prems(2) False o(1,3) by (auto simp: revived_prefix_def)
    obtain ns where ns: "execute_step config Prepared st i = (True, set_node i ns st)" "nphase ns = Prepared"
        "map_option rv (noutput ns) = Some (out i)"
      using step_of_revived [OF sol Cons.prems(2) n(1), where ph = Prepared] n d o False by auto
    have "revived_prefix rv spec out (X \<union> set (us @ [i])) (set_node i ns st)"
      using revived_prefix_step [OF Cons.prems(2) ns(2,3) o(3)] by simp
    then show ?thesis using Cons.IH [of "us @ [i]" "set_node i ns st"] Cons.prems pp pend ns(1) by auto
  qed
qed

text \<open>A preparation that goes through has found outputs that solve the graph.\<close>

lemma prepare_solves:
  assumes "topologicalSort spec = Inr (xs @ ys)" "at_prefix spec out (set xs) st" "solves_on config spec (set xs) out"
    and "prepare_all config ys st = (saves, st', True)"
  shows "\<exists>out'. solves_on config spec (set (xs @ ys)) out'"
  using assms
proof (induction ys arbitrary: xs st out saves)
  case (Cons i ys)
  obtain st1 where st1: "execute_step config Prepared st i = (True, st1)"
      and rest: "\<exists>saves'. prepare_all config ys st1 = (saves', st', True)"
    using Cons.prems(4) by (auto split: prod.splits bool.splits)
  obtain n where n: "n \<in> set (nodes spec)" "nid n = i" "node_of spec i = Some n"
    using kahn_sort.node_exists [OF Cons.prems(1)] by auto
  have d: "set (deps n) \<subseteq> set xs" using kahn_sort.deps_before [OF Cons.prems(1) n(1,2)] .
  have i: "i \<notin> set xs" "set xs \<subseteq> set (ids spec)" "i \<in> set (ids spec)"
    using kahn_sort.order_distinct [OF Cons.prems(1)] kahn_sort.order_set [OF Cons.prems(1)] by auto
  have sp: "pspec st = spec" using Cons.prems(2) by (simp add: at_prefix_def)
  obtain n' f v ns ns1 where e0: "node_of (pspec st) i = Some n'"
      "nodeExecutor config = Some f"
      "f n' (map (\<lambda>d. (d, Option.bind (nodeStates (set_node i ns1 st) d) noutput)) (deps n')) = Some v"
      "sha config v \<noteq> None" "st1 = set_node i ns st" "nphase ns = Prepared" "noutput ns = Some v"
    by (rule execute_step_True [OF st1])
  moreover from this(1) have "n' = n" using n(3) sp by simp
  ultimately have e: "nodeExecutor config = Some f"
      "f n (map (\<lambda>d. (d, Option.bind (nodeStates (set_node i ns1 st) d) noutput)) (deps n)) = Some v"
      "sha config v \<noteq> None" "st1 = set_node i ns st" "nphase ns = Prepared" "noutput ns = Some v"
    by simp_all
  have fv: "f n (map (\<lambda>d. (d, Some (out d))) (deps n)) = Some v"
    using e(2) unfolding inputs_at_prefix [OF Cons.prems(2) d i(1,2)] .
  let ?out = "out(i := v)"
  have upd: "map (\<lambda>d. (d, Some (?out d))) (deps m) = map (\<lambda>d. (d, Some (out d))) (deps m)"
    if "set (deps m) \<subseteq> set xs" for m using that i(1) by auto
  have "at_prefix spec ?out (set xs) st" using Cons.prems(2) i(1) by (auto simp: at_prefix_def)
  then have p: "at_prefix spec ?out (set (xs @ [i])) st1"
    using at_prefix_step [of spec ?out "set xs" st ns i] e(4-6) i(3) by simp
  have sol: "solves_on config spec (set (xs @ [i])) ?out"
    unfolding solves_on_def
  proof (intro ballI impI)
    fix m assume m: "m \<in> set (nodes spec)" "nid m \<in> set (xs @ [i])"
    show "(\<exists>f. nodeExecutor config = Some f \<and> f m (map (\<lambda>d. (d, Some (?out d))) (deps m)) = Some (?out (nid m))) \<and>
        sha config (?out (nid m)) \<noteq> None"
    proof (cases "nid m = i")
      case True
      then have mn: "m = n" using kahn_sort.node_found [OF Cons.prems(1) m(1)] n(3) by simp
      have "f n (map (\<lambda>d. (d, Some (?out d))) (deps n)) = Some (?out (nid n))"
        using fv unfolding upd [OF d] n(2) by simp
      then show ?thesis using e(1,3) n(2) unfolding mn by (metis fun_upd_same)
    next
      case False
      then have mx: "nid m \<in> set xs" using m(2) by simp
      then obtain us vs where "xs = us @ nid m # vs" by (meson split_list)
      then have "set (deps m) \<subseteq> set us"
        using kahn_sort.deps_before [of spec us "nid m" "vs @ i # ys" m] Cons.prems(1) m(1) by simp
      then have "set (deps m) \<subseteq> set xs" using \<open>xs = us @ nid m # vs\<close> by auto
      then show ?thesis using Cons.prems(3) m(1) mx False unfolding solves_on_def by (simp only: upd) simp
    qed
  qed
  obtain saves' where saves': "prepare_all config ys st1 = (saves', st', True)" using rest by blast
  have top: "topologicalSort spec = Inr ((xs @ [i]) @ ys)" using Cons.prems(1) by simp
  show ?case using Cons.IH [OF top p sol saves'] by simp
qed auto

lemma commit_all:
  "node_state (foldl commit_node st order) i =
     (if i \<in> set order then (node_state st i)\<lparr>nphase := Committed\<rparr> else node_state st i)"
  by (induction order arbitrary: st) (auto simp: commit_node_def)

lemma commit_all_frame:
  "pspec (foldl commit_node st order) = pspec st"
  "dom (nodeStates (foldl commit_node st order)) = dom (nodeStates st) \<union> set order"
  by (induction order arbitrary: st) (auto simp: commit_node_def)

lemma initial_prefix: "at_prefix spec out {} (initial_state spec rid)"
  by (auto simp: at_prefix_def initial_state_def node_state_def pending_node_def split: if_splits)

text \<open>What a completed run saved on the way.\<close>

lemma completed_run:
  assumes "persistent_run config spec rid = Inr (saves, final)" "rphase final = Complete"
  obtains order out where "topologicalSort spec = Inr order" "solves config spec out"
    "\<And>i. i \<in> set (ids spec) \<Longrightarrow> noutput (node_state final i) = Some (out i) \<and> nphase (node_state final i) = Committed"
    "pspec final = spec" "dom (nodeStates final) = set (ids spec)"
    "\<And>s. s \<in> set saves \<Longrightarrow> rphase s \<noteq> Complete \<Longrightarrow>
       \<exists>us vs. order = us @ vs \<and> at_prefix spec out (set us) s \<and>
         (rphase s = PreparePhase \<or> rphase s = CommitPhase \<and> vs = [])"
proof -
  let ?st0 = "initial_state spec rid :: 'a persistent_state"
  obtain order where o: "topologicalSort spec = Inr order"
    using assms(1) by (auto simp: persistent_run_def split: sum.splits)
  obtain sv st1 ok where p: "prepare_all config order ?st0 = (sv, st1, ok)" by (metis prod_cases3)
  have nf: "prepare_all config ys st = (sv, st1, False) \<Longrightarrow> rphase st1 = Aborted" for ys st sv st1
    by (induction ys arbitrary: st sv) (auto split: prod.splits bool.splits dest!: execute_step_False)
  have ok: "ok"
    using assms o p nf by (cases ok) (auto simp: persistent_run_def Let_def)
  have "solves_on config spec (set []) undefined" by (simp add: solves_on_def)
  then obtain out where "solves_on config spec (set ([] @ order)) out"
    using prepare_solves [of spec "[]" order undefined ?st0 config sv st1] o p ok initial_prefix by auto
  then have sol: "solves config spec out" using kahn_sort.order_set [OF o] by simp
  have ip: "at_prefix spec out (set []) ?st0" using initial_prefix by simp
  obtain sv' st1' where q: "prepare_all config order ?st0 = (sv', st1', True)"
      "at_prefix spec out (set ([] @ order)) st1'" "rphase st1' = rphase ?st0"
      "\<forall>s\<in>set sv'. rphase s = rphase ?st0 \<and> (\<exists>us vs. [] @ order = us @ vs \<and> at_prefix spec out (set us) s)"
    using prepare_solution [OF sol _ ip, of order] o by auto
  have eq: "sv' = sv" "st1' = st1" using p q(1) by auto
  let ?st2 = "st1\<lparr>rphase := CommitPhase\<rparr>"
  have fin: "final = (foldl commit_node ?st2 order)\<lparr>rphase := Complete\<rparr>" "saves = ?st0 # sv @ [?st2, final]"
    using assms(1) o p ok by (auto simp: persistent_run_def Let_def)
  have p1: "at_prefix spec out (set order) st1" using q(2) eq by simp
  then have p2: "at_prefix spec out (set order) ?st2" by (simp add: at_prefix_def)
  have "noutput (node_state final i) = Some (out i) \<and> nphase (node_state final i) = Committed"
    if "i \<in> set (ids spec)" for i
    using that p1 kahn_sort.order_set [OF o] by (auto simp: fin(1) commit_all at_prefix_def)
  moreover have "pspec final = spec" "dom (nodeStates final) = set (ids spec)"
    using p1 kahn_sort.order_set [OF o] by (auto simp: fin(1) commit_all_frame at_prefix_def)
  moreover have "\<exists>us vs. order = us @ vs \<and> at_prefix spec out (set us) s \<and>
      (rphase s = PreparePhase \<or> rphase s = CommitPhase \<and> vs = [])"
    if s: "s \<in> set saves" "rphase s \<noteq> Complete" for s
  proof -
    have r0: "rphase ?st0 = PreparePhase" by (simp add: initial_state_def)
    from s fin consider "s = ?st0" | "s \<in> set sv" | "s = ?st2" by auto
    then show ?thesis
    proof cases
      case 1
      then show ?thesis using ip r0 by (intro exI [of _ "[]"] exI [of _ order]) simp
    next
      case 2
      then show ?thesis using q(4) eq r0 by auto
    next
      case 3
      then show ?thesis using p2 by (intro exI [of _ order] exI [of _ "[]"]) simp
    qed
  qed
  ultimately show thesis using that [OF o sol] by blast
qed

text \<open>
  Two configurations agree up to \<open>rv\<close> on a specification: on inputs that JSON cannot tell apart their
  executors both throw or both answer, with outputs that JSON cannot tell apart, and both can be hashed or
  neither.
\<close>

definition agree :: "('v \<Rightarrow> 'v) \<Rightarrow> dag_spec \<Rightarrow> 'v persist_config \<Rightarrow> 'v persist_config \<Rightarrow> bool" where
  "agree rv spec config config' \<longleftrightarrow>
     (\<forall>n\<in>set (nodes spec). \<forall>ins ins'.
        map (map_prod id (map_option rv)) ins = map (map_prod id (map_option rv)) ins' \<longrightarrow>
        map_option rv (answer_of config n ins) = map_option rv (answer_of config' n ins')) \<and>
     (\<forall>v v'. rv v = rv v' \<longrightarrow> (sha config v = None \<longleftrightarrow> sha config' v' = None))"

lemma agree_resumable:
  assumes "agree rv spec config config'" "solves config spec out" "\<And>v. rv (rv v) = rv v"
  shows "resumable rv config' spec (rv \<circ> out)"
  unfolding resumable_def
proof (intro ballI allI impI)
  fix n ins assume n: "n \<in> set (nodes spec)"
    and ins: "map (map_prod id (map_option rv)) ins = map (\<lambda>d. (d, Some ((rv \<circ> out) d))) (deps n)"
  let ?ins = "map (\<lambda>d. (d, Some (out d))) (deps n)"
  have "nid n \<in> set (ids spec)" using n by (auto simp: ids_def)
  then have out: "answer_of config n ?ins = Some (out (nid n))" "sha config (out (nid n)) \<noteq> None"
    using assms(2) n by (auto simp: solves_on_def answer_of_def)
  have "map (map_prod id (map_option rv)) ?ins = map (map_prod id (map_option rv)) ins" using ins by simp
  then have "map_option rv (answer_of config n ?ins) = map_option rv (answer_of config' n ins)"
    using assms(1) n unfolding agree_def by blast
  then obtain v where v: "answer_of config' n ins = Some v" "rv v = rv (out (nid n))"
    using out(1) by (cases "answer_of config' n ins") auto
  then have "sha config' v \<noteq> None" using assms(1) out(2) unfolding agree_def by metis
  then show "\<exists>v. answer_of config' n ins = Some v \<and> rv v = (rv \<circ> out) (nid n) \<and> sha config' v \<noteq> None"
    using v by auto
qed

lemma resumed:
  assumes "persistent_run config spec rid = Inr (saves, final)" "rphase final = Complete"
    and "s \<in> set saves" "rphase s \<noteq> Complete"
    and "agree rv spec config config'" "\<And>v. rv (rv v) = rv v"
  obtains s' where "persistent_resume config' (persistent_loadState rv None (Some s)) = Inr s'" "rphase s' = Complete"
    "pspec s' = spec" "dom (nodeStates s') = set (ids spec)"
    "\<And>i. i \<in> set (ids spec) \<Longrightarrow>
       map_option rv (noutput (node_state s' i)) = map_option rv (noutput (node_state final i)) \<and>
       nphase (node_state s' i) = Prepared"
proof -
  obtain order out where o: "topologicalSort spec = Inr order" "solves config spec out"
      "\<And>i. i \<in> set (ids spec) \<Longrightarrow> noutput (node_state final i) = Some (out i)"
      "\<exists>us vs. order = us @ vs \<and> at_prefix spec out (set us) s \<and>
         (rphase s = PreparePhase \<or> rphase s = CommitPhase \<and> vs = [])"
    using completed_run [OF assms(1,2)] assms(3,4) by metis
  then obtain us vs where us: "order = us @ vs" "at_prefix spec out (set us) s"
      "rphase s = PreparePhase \<or> rphase s = CommitPhase \<and> vs = []" by blast
  let ?s = "revive_state rv s"
  have "\<exists>st'. resume_all config' order ?s = (True, st') \<and> revived_prefix rv spec (rv \<circ> out) (set ([] @ order)) st'"
    using resume_solution [OF agree_resumable [OF assms(5) o(2) assms(6)], of "[]" order "set us" ?s]
      revived_prefix [OF us(2) assms(6)] o(1) us by auto
  then obtain st' where st': "resume_all config' order ?s = (True, st')"
      "revived_prefix rv spec (rv \<circ> out) (set order) st'" by auto
  have "pspec s = spec" using us(2) by (simp add: at_prefix_def)
  then have "persistent_resume config' (persistent_loadState rv None (Some s)) = Inr (st'\<lparr>rphase := Complete\<rparr>)"
    using st'(1) us(3) o(1) by (auto simp: persistent_resume_def persistent_loadState_def)
  moreover have "map_option rv (noutput (node_state (st'\<lparr>rphase := Complete\<rparr>) i)) = map_option rv (noutput (node_state final i)) \<and>
      nphase (node_state (st'\<lparr>rphase := Complete\<rparr>) i) = Prepared" if "i \<in> set (ids spec)" for i
    using that st'(2) o(3) kahn_sort.order_set [OF o(1)] by (auto simp: revived_prefix_def)
  ultimately show thesis using that [of "st'\<lparr>rphase := Complete\<rparr>"] st'(2) by (auto simp: revived_prefix_def)
qed

lemma prepare_phases:
  assumes "prepare_all config order st = (saves, st', ok)" "rphase st = PreparePhase" "t \<in> set saves"
  shows "rphase t \<noteq> Complete"
  using assms
proof (induction order arbitrary: st saves)
  case (Cons i order)
  have r: "execute_step config Prepared st i = (True, st1) \<Longrightarrow> rphase st1 = PreparePhase" for st1
    using Cons.prems(2) by (elim execute_step_True) simp
  show ?case
  proof (cases "execute_step config Prepared st i")
    case (Pair b st1)
    show ?thesis
    proof (cases b)
      case True
      obtain sv t' ok' where p: "prepare_all config order st1 = (sv, t', ok')" by (metis prod_cases3)
      then have "saves = st1 # sv" "t' = st'" "ok' = ok" using Cons.prems(1) Pair True by auto
      then show ?thesis using Cons.IH [of st1 sv] p r Pair True Cons.prems(3) by auto
    next
      case False
      then show ?thesis using Cons.prems(1,3) Pair execute_step_False by fastforce
    qed
  qed
qed auto

lemma completed_last:
  assumes "persistent_run config spec rid = Inr (saves, final)" "rphase final = Complete"
    and "s \<in> set saves" "rphase s = Complete"
  shows "s = final"
proof -
  obtain order where o: "topologicalSort spec = Inr order"
    using assms(1) by (auto simp: persistent_run_def split: sum.splits)
  obtain sv st1 ok where p: "prepare_all config order (initial_state spec rid) = (sv, st1, ok)" by (metis prod_cases3)
  have r0: "rphase (initial_state spec rid :: 'a persistent_state) = PreparePhase"
    by (simp add: initial_state_def)
  show ?thesis
    using assms o p r0 prepare_phases [OF p r0] by (auto simp: persistent_run_def Let_def split: if_splits)
qed

section \<open>Properties\<close>

text \<open>
  C34: A run that completes can be resumed, in a new process, from the file of any of its saves: the
  resumption completes, and every node has the output of the uninterrupted run, up to the JSON format of
  the files.  The new process has its own executor; the two executors are to agree on inputs that are the
  same in JSON, and to write and read an output twice is to be the same as once.
\<close>

theorem recovery_same_outputs:
  assumes "persistent_run config spec rid = Inr (saves, final)" "rphase final = Complete" "s \<in> set saves"
    and "agree revive spec config config'" "\<And>v. revive (revive v) = revive v"
  shows "\<exists>s'. persistent_resume config' (persistent_loadState revive None (Some s)) = Inr s' \<and> rphase s' = Complete \<and>
    (\<forall>i\<in>set (ids spec). map_option revive (noutput (node_state s' i)) = map_option revive (noutput (node_state final i)))"
proof (cases "rphase s = Complete")
  case True
  then have "s = final" using completed_last [OF assms(1,2)] assms(3) by blast
  moreover have "revive \<circ> revive = revive" using assms(5) by auto
  ultimately show ?thesis
    using assms(2) by (simp add: persistent_resume_def persistent_loadState_def option.map_comp)
next
  case False
  then show ?thesis using resumed [OF assms(1-3) _ assms(4,5)] by metis
qed

text \<open>
  A resumed run reports its work as skipped.  When an interrupted run is resumed and completes,
  its result has the status of success, but every node is left in the prepared phase and is
  reported as skipped, while the uninterrupted run reports every node as successful.
\<close>

theorem resumed_nodes_skipped:
  assumes "persistent_run config spec rid = Inr (saves, final)" "rphase final = Complete"
    and "s \<in> set saves" "rphase s \<noteq> Complete"
    and "agree revive spec config config'" "\<And>v. revive (revive v) = revive v"
  shows "\<exists>s'. persistent_resume config' (persistent_loadState revive None (Some s)) = Inr s' \<and>
    (\<forall>i\<in>set (ids spec). reported s' i = Some OutcomeSkipped \<and>
       reported final i = Some OutcomeSuccess) \<and>
    fst (stateToResult s') = ResultSuccess \<and> fst (stateToResult final) = ResultSuccess"
proof -
  obtain s' where s': "persistent_resume config' (persistent_loadState revive None (Some s)) = Inr s'" "rphase s' = Complete"
      "dom (nodeStates s') = set (ids spec)"
      "\<And>i. i \<in> set (ids spec) \<Longrightarrow> nphase (node_state s' i) = Prepared"
    using resumed [OF assms] by metis
  have f: "dom (nodeStates final) = set (ids spec)"
      "\<And>i. i \<in> set (ids spec) \<Longrightarrow> nphase (node_state final i) = Committed"
    using completed_run [OF assms(1,2)] by metis+
  have out: "reported t i = Some (node_outcome (node_state t i))" if "i \<in> dom (nodeStates t)"
    for t :: "'a persistent_state" and i
    using that by (auto simp: reported_def stateToResult_def node_state_def Let_def)
  have "reported s' i = Some OutcomeSkipped" if "i \<in> set (ids spec)" for i
    using out [of i s'] s'(3,4) that by (simp add: node_outcome_def)
  moreover have "reported final i = Some OutcomeSuccess" if "i \<in> set (ids spec)" for i
    using out [of i final] f that by (simp add: node_outcome_def)
  ultimately show ?thesis using s'(1,2) assms(2) by (auto simp: stateToResult_def Let_def)
qed

section \<open>A concrete crash\<close>

definition two_nodes :: dag_spec where
  "two_nodes = \<lparr>nodes = [\<lparr>nid = ''a'', kind = CustomNode, deps = [], retryPolicy = \<lparr>retry_max = 0, backoffMs = 0\<rparr>,
        timeoutMs = 1, onFailure = AbortOnFailure\<rparr>,
      \<lparr>nid = ''b'', kind = CustomNode, deps = [''a''], retryPolicy = \<lparr>retry_max = 0, backoffMs = 0\<rparr>,
        timeoutMs = 1, onFailure = AbortOnFailure\<rparr>], entry = ''a'', exit = ''b''\<rparr>"

text \<open>Outputs with a part that JSON drops, and a second executor that answers without it.\<close>

definition counting :: "bool \<Rightarrow> (nat \<times> bool) persist_config" where
  "counting extra = \<lparr>nodeExecutor = Some (\<lambda>n inputs. Some (length inputs, extra)), sha = (\<lambda>_. Some ''h'')\<rparr>"

lemma counting_agree: "agree (map_prod id (\<lambda>_. False)) two_nodes (counting True) (counting False)"
  by (auto simp: agree_def counting_def answer_of_def dest: map_eq_imp_length_eq)

lemma two_nodes_run:
  obtains saves final where "persistent_run (counting True) two_nodes ''r'' = Inr (saves, final)" "rphase final = Complete"
    "1 < length saves" "rphase (saves ! 1) = PreparePhase"
proof -
  have "(case persistent_run (counting True) two_nodes ''r'' of Inl _ \<Rightarrow> False
      | Inr (saves, final) \<Rightarrow> rphase final = Complete \<and> map rphase saves =
          [PreparePhase, PreparePhase, PreparePhase, CommitPhase, Complete])" by code_simp
  then obtain saves final where r: "persistent_run (counting True) two_nodes ''r'' = Inr (saves, final)" "rphase final = Complete"
      "map rphase saves = [PreparePhase, PreparePhase, PreparePhase, CommitPhase, Complete]"
    by (auto split: sum.splits prod.splits)
  have "length saves = 5" using arg_cong [OF r(3), of length] by simp
  moreover have "rphase (saves ! 1) = PreparePhase"
    using arg_cong [OF r(3), of "\<lambda>l. l ! 1"] calculation by simp
  ultimately show thesis using that r by simp
qed

lemma recovery_same_outputs_witness:
  "\<exists>saves final s'. persistent_run (counting True) two_nodes ''r'' = Inr (saves, final) \<and>
     persistent_resume (counting False) (persistent_loadState (map_prod id (\<lambda>_. False)) None (Some (saves ! 1))) = Inr s' \<and>
     rphase s' = Complete"
proof -
  obtain saves final where r: "persistent_run (counting True) two_nodes ''r'' = Inr (saves, final)" "rphase final = Complete"
    "1 < length saves" "rphase (saves ! 1) = PreparePhase" by (rule two_nodes_run)
  have "map_prod id (\<lambda>_. False) (map_prod id (\<lambda>_. False) v) = map_prod id (\<lambda>_. False) v" for v :: "nat \<times> bool"
    by (cases v) simp
  from recovery_same_outputs [OF r(1,2) nth_mem [OF r(3)] counting_agree this] show ?thesis using r(1) by blast
qed

lemma resumed_nodes_skipped_witness:
  "\<exists>saves final s'. persistent_run (counting True) two_nodes ''r'' = Inr (saves, final) \<and>
     persistent_resume (counting False) (persistent_loadState (map_prod id (\<lambda>_. False)) None (Some (saves ! 1))) = Inr s' \<and>
     reported s' ''a'' = Some OutcomeSkipped"
proof -
  obtain saves final where r: "persistent_run (counting True) two_nodes ''r'' = Inr (saves, final)" "rphase final = Complete"
    "1 < length saves" "rphase (saves ! 1) = PreparePhase" by (rule two_nodes_run)
  have idem: "map_prod id (\<lambda>_. False) (map_prod id (\<lambda>_. False) v) = map_prod id (\<lambda>_. False) v" for v :: "nat \<times> bool"
    by (cases v) simp
  have "''a'' \<in> set (ids two_nodes)" by (simp add: two_nodes_def ids_def)
  then show ?thesis
    using resumed_nodes_skipped [OF r(1,2) nth_mem [OF r(3)] _ counting_agree idem] r(1,4) by auto
qed

end
