(* ===== verification/Dag_Templates.thy ===== *)
theory Dag_Templates
  imports Dag_Layers Js_Strings
begin

text \<open>
  The orchestration patterns of \<open>src/coordinator/dag/templates.ts\<close>.  A template fixes everything of a
  node but its \<open>config\<close>, which the runners do not read.
\<close>

definition DEFAULT_RETRY :: retry_policy where
  "DEFAULT_RETRY = \<lparr>retry_max = 1, backoffMs = 500\<rparr>"

definition DEFAULT_TIMEOUT :: nat where "DEFAULT_TIMEOUT = 30000"

definition node_with :: "string \<Rightarrow> node_kind \<Rightarrow> string list \<Rightarrow> retry_policy option \<Rightarrow> failure_policy option \<Rightarrow> dag_node"
where
  "node_with i k ds retry failure =
     \<lparr>nid = i, kind = k, deps = ds,
      retryPolicy = (case retry of None \<Rightarrow> DEFAULT_RETRY | Some r \<Rightarrow> r), timeoutMs = DEFAULT_TIMEOUT,
      onFailure = (case failure of None \<Rightarrow> AbortOnFailure | Some f \<Rightarrow> f)\<rparr>"

definition plain_node :: "string \<Rightarrow> node_kind \<Rightarrow> string list \<Rightarrow> dag_node" where
  "plain_node i k ds = node_with i k ds None None"

definition linearDag :: dag_spec where
  "linearDag =
     \<lparr>nodes = [plain_node ''planner'' Planner [], plain_node ''executor'' Executor [''planner''],
               plain_node ''critic'' Critic [''executor''], plain_node ''verifier'' Verifier [''critic'']],
      entry = ''planner'', exit = ''verifier''\<rparr>"

definition reflexionDag :: "nat \<Rightarrow> dag_spec" where
  "reflexionDag maxRetries =
     \<lparr>nodes = [plain_node ''planner'' Planner [],
               node_with ''executor'' Executor [''planner''] (Some \<lparr>retry_max = maxRetries, backoffMs = 500\<rparr>) None,
               plain_node ''critic'' Critic [''executor''], plain_node ''verifier'' Verifier [''critic'']],
      entry = ''planner'', exit = ''verifier''\<rparr>"

definition executor_id :: "nat \<Rightarrow> string" where "executor_id i = ''executor-'' @ decimal i"

definition mapReduceDag :: "nat \<Rightarrow> dag_spec" where
  "mapReduceDag executorCount =
     (let executors = map (\<lambda>i. node_with (executor_id i) Executor [''planner''] None (Some ContinueOnFailure))
            [0..<executorCount]
      in \<lparr>nodes = plain_node ''planner'' Planner [] # executors @
            [plain_node ''reducer'' Reducer (map nid executors), plain_node ''critic'' Critic [''reducer''],
             plain_node ''verifier'' Verifier [''critic'']],
          entry = ''planner'', exit = ''verifier''\<rparr>)"

definition debateDag :: dag_spec where
  "debateDag =
     \<lparr>nodes = [plain_node ''planner'' Planner [], plain_node ''executor-a'' Executor [''planner''],
               plain_node ''executor-b'' Executor [''planner''],
               plain_node ''voter'' Voter [''executor-a'', ''executor-b''], plain_node ''verifier'' Verifier [''voter'']],
      entry = ''planner'', exit = ''verifier''\<rparr>"

definition planExecuteVerifyDag :: dag_spec where
  "planExecuteVerifyDag =
     \<lparr>nodes = [plain_node ''plan'' Planner [], plain_node ''execute'' Executor [''plan''],
               node_with ''verify'' Verifier [''execute''] (Some \<lparr>retry_max = 0, backoffMs = 0\<rparr>) None],
      entry = ''plan'', exit = ''verify''\<rparr>"

section \<open>Names of executors\<close>

lemma executor_id_inj: "inj_on executor_id A"
  using decimal.enc_inj by (auto simp: executor_id_def intro!: inj_onI)

lemma executor_id_fresh [simp]:
  "executor_id i \<noteq> ''planner''" "executor_id i \<noteq> ''reducer''" "executor_id i \<noteq> ''critic''" "executor_id i \<noteq> ''verifier''"
  "''planner'' \<noteq> executor_id i" "''reducer'' \<noteq> executor_id i" "''critic'' \<noteq> executor_id i" "''verifier'' \<noteq> executor_id i"
  by (auto simp: executor_id_def)

text \<open>A depth for each name, to show that the graph has no cycle.\<close>

definition map_reduce_rank :: "string \<Rightarrow> nat" where
  "map_reduce_rank i = (if i = ''planner'' then 0 else if i = ''reducer'' then 2 else if i = ''critic'' then 3
     else if i = ''verifier'' then 4 else 1)"

definition runs_from_entry_to_exit :: "dag_spec \<Rightarrow> bool" where
  "runs_from_entry_to_exit spec \<longleftrightarrow>
     (case topologicalSort spec of Inl _ \<Rightarrow> False
      | Inr order \<Rightarrow> order \<noteq> [] \<and> hd order = entry spec \<and> last order = exit spec)"

lemma runnable_by_rank:
  assumes "distinct (ids spec)" "known_deps spec" "nodes spec \<noteq> []"
    and rank: "\<And>n d. n \<in> set (nodes spec) \<Longrightarrow> d \<in> set (deps n) \<Longrightarrow> rank d < (rank (nid n) :: nat)"
    and first: "\<And>n. n \<in> set (nodes spec) \<Longrightarrow> deps n = [] \<Longrightarrow> nid n = entry spec"
    and last: "\<And>i. i \<in> set (ids spec) \<Longrightarrow> i \<noteq> exit spec \<Longrightarrow> \<exists>n\<in>set (nodes spec). i \<in> set (deps n)"
  shows "runs_from_entry_to_exit spec"
proof -
  obtain order where o: "topologicalSort spec = Inr order"
    using sort_complete [OF assms(1,2), of rank] rank by blast
  then have e: "execution_order spec order" by (rule kahn_sort.sound)
  then have s: "set order = set (ids spec)" by (simp add: execution_order_def)
  then have ne: "order \<noteq> []" using assms(3) by (auto simp: ids_def)
  obtain n where "n \<in> set (nodes spec)" "nid n = hd order" "deps n = []" using order_hd [OF e ne] .
  then have "hd order = entry spec" using first by metis
  moreover have "last order = exit spec"
    using order_last [OF e ne] last [of "List.last order"] ne s last_in_set by metis
  ultimately show ?thesis using o ne by (simp add: runs_from_entry_to_exit_def)
qed

lemma map_reduce_nodes:
  "nodes (mapReduceDag n) =
     plain_node ''planner'' Planner [] #
     map (\<lambda>i. node_with (executor_id i) Executor [''planner''] None (Some ContinueOnFailure)) [0..<n] @
     [plain_node ''reducer'' Reducer (map executor_id [0..<n]), plain_node ''critic'' Critic [''reducer''],
      plain_node ''verifier'' Verifier [''critic'']]"
  "entry (mapReduceDag n) = ''planner''" "exit (mapReduceDag n) = ''verifier''"
  by (simp_all add: mapReduceDag_def node_with_def Let_def comp_def)

lemma node_fields [simp]:
  "nid (node_with i k ds r f) = i" "deps (node_with i k ds r f) = ds"
  "nid (plain_node i k ds) = i" "deps (plain_node i k ds) = ds"
  by (simp_all add: node_with_def plain_node_def)

lemma map_reduce_ids:
  "ids (mapReduceDag n) = ''planner'' # map executor_id [0..<n] @ [''reducer'', ''critic'', ''verifier'']"
  by (simp add: ids_def map_reduce_nodes comp_def)

lemma map_reduce_rank_simps [simp]:
  "map_reduce_rank ''planner'' = 0" "map_reduce_rank (executor_id i) = 1" "map_reduce_rank ''reducer'' = 2"
  "map_reduce_rank ''critic'' = 3" "map_reduce_rank ''verifier'' = 4"
  by (simp_all add: map_reduce_rank_def)

lemma map_reduce_runnable:
  assumes "0 < n" shows "runs_from_entry_to_exit (mapReduceDag n)"
proof (rule runnable_by_rank [where rank = map_reduce_rank])
  have "executor_id i \<notin> set [''reducer'', ''critic'', ''verifier'', ''planner'']" for i by simp
  then show "distinct (ids (mapReduceDag n))"
    by (simp add: map_reduce_ids distinct_map executor_id_inj image_iff del: list.set)
      (simp add: disjoint_iff image_iff)
  show "known_deps (mapReduceDag n)"
    by (simp add: known_deps_def map_reduce_ids map_reduce_nodes) blast
  show "nodes (mapReduceDag n) \<noteq> []" by (simp add: map_reduce_nodes)
  fix m d assume "m \<in> set (nodes (mapReduceDag n))" "d \<in> set (deps m)"
  then show "map_reduce_rank d < map_reduce_rank (nid m)"
    by (simp add: map_reduce_nodes) (elim disjE imageE; simp; elim imageE; simp)
next
  fix m assume "m \<in> set (nodes (mapReduceDag n))" "deps m = []"
  then show "nid m = entry (mapReduceDag n)"
    using assms by (simp add: map_reduce_nodes) (elim disjE imageE; simp)
next
  fix i assume "i \<in> set (ids (mapReduceDag n))" "i \<noteq> exit (mapReduceDag n)"
  then show "\<exists>m\<in>set (nodes (mapReduceDag n)). i \<in> set (deps m)"
    using assms by (simp add: map_reduce_ids map_reduce_nodes) (elim disjE; auto)
qed

text \<open>A template whose nodes are listed in an order of execution.\<close>

definition position :: "string list \<Rightarrow> string \<Rightarrow> nat" where
  "position xs i = length (takeWhile (\<lambda>j. j \<noteq> i) xs)"

lemmas template_defs = ids_def known_deps_def position_def

lemma linear_runnable: "runs_from_entry_to_exit linearDag"
  by (rule runnable_by_rank [where rank = "position (ids linearDag)"])
    (simp_all add: linearDag_def template_defs, (elim disjE; simp)+)

lemma reflexion_runnable: "runs_from_entry_to_exit (reflexionDag m)"
  by (rule runnable_by_rank [where rank = "position (ids (reflexionDag m))"])
    (simp_all add: reflexionDag_def template_defs, (elim disjE; simp)+)

lemma debate_runnable: "runs_from_entry_to_exit debateDag"
  by (rule runnable_by_rank [where rank = "position (ids debateDag)"])
    (simp_all add: debateDag_def template_defs, (elim disjE; simp)+)

lemma plan_runnable: "runs_from_entry_to_exit planExecuteVerifyDag"
  by (rule runnable_by_rank [where rank = "position (ids planExecuteVerifyDag)"])
    (simp_all add: planExecuteVerifyDag_def template_defs, (elim disjE; simp)+)

text \<open>
  Every orchestration template is a runnable graph: the sort succeeds, its result starts with
  the entry node and ends with the exit node.  This holds for every number of retries and, with at
  least one executor, for every width of the map-reduce pattern.
\<close>

theorem templates_runnable:
  "runs_from_entry_to_exit linearDag \<and> runs_from_entry_to_exit (reflexionDag m) \<and>
   runs_from_entry_to_exit (mapReduceDag (Suc n)) \<and> runs_from_entry_to_exit debateDag \<and>
   runs_from_entry_to_exit planExecuteVerifyDag"
  by (simp add: linear_runnable reflexion_runnable map_reduce_runnable debate_runnable plan_runnable)

end
