(* ===== verification/Command_Queue.thy ===== *)
theory Command_Queue
  imports Js_Strings "HOL-Library.Multiset"
begin

text \<open>
  The unified command queue, \<open>src/utils/messageQueueManager.ts\<close>, and the processor that the REPL
  runs between turns, \<open>src/utils/queueProcessor.ts\<close>.  The module's state is a record; every operation
  returns it updated.  Commands are objects: \<open>cmd_ref\<close> is the identity that \<open>remove\<close> compares, and
  enqueueing copies the command into a new object (its orphaned permission, which the queue does not
  look at, is left out).  Feature flags and the clock are arguments.
\<close>

datatype prompt_mode = BashMode | PromptMode | OrphanedPermission | TaskNotification
datatype queue_priority = Now | Next | Later
datatype content_block = TextBlock string | Base64Image string string | OtherBlock
datatype command_value = TextValue string | BlocksValue "content_block list"
datatype command_origin = HumanOrigin | ChannelOrigin | OtherOrigin

record pasted_content =
  pasted_id :: int
  pasted_is_image :: bool
  pasted_content :: string
  mediaType :: "string option"
  filename :: "string option"

record queued_command =
  cmd_ref :: nat
  cmd_value :: command_value
  cmd_mode :: prompt_mode
  cmd_priority :: "queue_priority option"
  cmd_uuid :: "string option"
  pastedContents :: "pasted_content list"
  preExpansionValue :: "string option"
  skipSlashCommands :: bool
  bridgeOrigin :: bool
  isMeta :: bool
  origin :: "command_origin option"
  workload :: "string option"
  agentId :: "string option"

primrec PRIORITY_ORDER :: "queue_priority \<Rightarrow> nat" where
  "PRIORITY_ORDER Now = 0"
| "PRIORITY_ORDER Next = 1"
| "PRIORITY_ORDER Later = 2"

lemma PRIORITY_ORDER_inj: "PRIORITY_ORDER p = PRIORITY_ORDER q \<Longrightarrow> p = q"
  by (cases p; cases q) simp_all

instantiation queue_priority :: linorder
begin

definition less_eq_queue_priority :: "queue_priority \<Rightarrow> queue_priority \<Rightarrow> bool" where
  "p \<le> q \<longleftrightarrow> PRIORITY_ORDER p \<le> PRIORITY_ORDER q"

definition less_queue_priority :: "queue_priority \<Rightarrow> queue_priority \<Rightarrow> bool" where
  "p < q \<longleftrightarrow> PRIORITY_ORDER p < PRIORITY_ORDER q"

instance
  by standard (auto simp: less_eq_queue_priority_def less_queue_priority_def dest: PRIORITY_ORDER_inj)

end

section \<open>State\<close>

datatype queue_op = EnqueueOp | DequeueOp | RemoveOp | PopAllOp

text \<open>\<open>emitted\<close> counts the notifications of subscribers, \<open>fresh\<close> is the next object identity.\<close>

record queue_state =
  commandQueue :: "queued_command list"
  snapshot :: "queued_command list"
  emitted :: nat
  oplog :: "(queue_op \<times> string option) list"
  fresh :: nat

definition empty_queue :: queue_state where
  "empty_queue = \<lparr>commandQueue = [], snapshot = [], emitted = 0, oplog = [], fresh = 0\<rparr>"

definition notifySubscribers :: "queue_state \<Rightarrow> queue_state" where
  "notifySubscribers s = s\<lparr>snapshot := commandQueue s, emitted := emitted s + 1\<rparr>"

definition logOperation :: "queue_op \<Rightarrow> string option \<Rightarrow> queue_state \<Rightarrow> queue_state" where
  "logOperation op c s = s\<lparr>oplog := oplog s @ [(op, c)]\<rparr>"

definition log_times :: "queue_op \<Rightarrow> nat \<Rightarrow> queue_state \<Rightarrow> queue_state" where
  "log_times op n s = s\<lparr>oplog := oplog s @ replicate n (op, None)\<rparr>"

definition text_of_value :: "command_value \<Rightarrow> string option" where
  "text_of_value v = (case v of TextValue t \<Rightarrow> Some t | BlocksValue _ \<Rightarrow> None)"

section \<open>Operations\<close>

definition prio :: "queued_command \<Rightarrow> queue_priority" where
  "prio c = (case cmd_priority c of None \<Rightarrow> Next | Some p \<Rightarrow> p)"

definition enqueue_with :: "queue_priority \<Rightarrow> queued_command \<Rightarrow> queue_state \<Rightarrow> queue_state" where
  "enqueue_with dflt c s =
     logOperation EnqueueOp (text_of_value (cmd_value c))
       (notifySubscribers
         (s\<lparr>commandQueue := commandQueue s @
              [c\<lparr>cmd_ref := fresh s, cmd_priority := Some (case cmd_priority c of None \<Rightarrow> dflt | Some p \<Rightarrow> p)\<rparr>],
            fresh := fresh s + 1\<rparr>))"

definition enqueue :: "queued_command \<Rightarrow> queue_state \<Rightarrow> queue_state" where
  "enqueue = enqueue_with Next"

definition enqueuePendingNotification :: "queued_command \<Rightarrow> queue_state \<Rightarrow> queue_state" where
  "enqueuePendingNotification = enqueue_with Later"

text \<open>
  The search loop of \<open>dequeue\<close> and \<open>peek\<close>: the index and priority of the best candidate so far, none
  standing for -1 and infinity.
\<close>

fun best_from ::
  "(queued_command \<Rightarrow> bool) \<Rightarrow> nat \<Rightarrow> (nat \<times> nat) option \<Rightarrow> queued_command list \<Rightarrow> (nat \<times> nat) option"
where
  "best_from f i best [] = best"
| "best_from f i best (c # cs) =
     best_from f (i + 1)
       (if \<not> f c then best
        else (let priority = PRIORITY_ORDER (prio c) in
              case best of None \<Rightarrow> Some (i, priority)
              | Some (bestIdx, bestPriority) \<Rightarrow> if priority < bestPriority then Some (i, priority) else best)) cs"

definition bestIdx :: "(queued_command \<Rightarrow> bool) \<Rightarrow> queued_command list \<Rightarrow> nat option" where
  "bestIdx f q = map_option fst (best_from f 0 None q)"

definition splice1 :: "nat \<Rightarrow> 'a list \<Rightarrow> 'a list" where
  "splice1 i xs = take i xs @ drop (Suc i) xs"

definition dequeue :: "(queued_command \<Rightarrow> bool) \<Rightarrow> queue_state \<Rightarrow> queued_command option \<times> queue_state" where
  "dequeue f s =
     (if commandQueue s = [] then (None, s)
      else (case bestIdx f (commandQueue s) of None \<Rightarrow> (None, s)
            | Some i \<Rightarrow>
                (Some (commandQueue s ! i),
                 logOperation DequeueOp None
                   (notifySubscribers (s\<lparr>commandQueue := splice1 i (commandQueue s)\<rparr>)))))"

definition peek :: "(queued_command \<Rightarrow> bool) \<Rightarrow> queue_state \<Rightarrow> queued_command option" where
  "peek f s = (if commandQueue s = [] then None
     else map_option (\<lambda>i. commandQueue s ! i) (bestIdx f (commandQueue s)))"

definition dequeueAll :: "queue_state \<Rightarrow> queued_command list \<times> queue_state" where
  "dequeueAll s =
     (if commandQueue s = [] then ([], s)
      else (commandQueue s,
            log_times DequeueOp (length (commandQueue s)) (notifySubscribers (s\<lparr>commandQueue := []\<rparr>))))"

definition dequeueAllMatching ::
  "(queued_command \<Rightarrow> bool) \<Rightarrow> queue_state \<Rightarrow> queued_command list \<times> queue_state" where
  "dequeueAllMatching P s =
     (let matched = filter P (commandQueue s); remaining = filter (\<lambda>c. \<not> P c) (commandQueue s)
      in if matched = [] then ([], s)
         else (matched, log_times DequeueOp (length matched) (notifySubscribers (s\<lparr>commandQueue := remaining\<rparr>))))"

text \<open>\<open>remove\<close> is called with references; here \<open>remove_commands\<close>, as \<open>remove\<close> is taken.\<close>

definition remove_commands :: "queued_command list \<Rightarrow> queue_state \<Rightarrow> queue_state" where
  "remove_commands commandsToRemove s =
     (if commandsToRemove = [] then s
      else (let rest = filter (\<lambda>c. cmd_ref c \<notin> set (map cmd_ref commandsToRemove)) (commandQueue s);
                s1 = s\<lparr>commandQueue := rest\<rparr>;
                s2 = (if length rest \<noteq> length (commandQueue s) then notifySubscribers s1 else s1)
            in log_times RemoveOp (length commandsToRemove) s2))"

text \<open>The backwards loop of \<open>removeByFilter\<close> over the first \<open>i\<close> commands.\<close>

fun remove_back ::
  "(queued_command \<Rightarrow> bool) \<Rightarrow> nat \<Rightarrow> queued_command list \<Rightarrow> queued_command list \<Rightarrow>
     queued_command list \<times> queued_command list" where
  "remove_back P 0 q removed = (removed, q)"
| "remove_back P (Suc i) q removed =
     (if P (q ! i) then remove_back P i (splice1 i q) (q ! i # removed) else remove_back P i q removed)"

definition removeByFilter ::
  "(queued_command \<Rightarrow> bool) \<Rightarrow> queue_state \<Rightarrow> queued_command list \<times> queue_state" where
  "removeByFilter P s =
     (let (removed, q) = remove_back P (length (commandQueue s)) (commandQueue s) [];
          s1 = s\<lparr>commandQueue := q\<rparr>
      in (removed, if removed = [] then s1 else log_times RemoveOp (length removed) (notifySubscribers s1)))"

definition clearCommandQueue :: "queue_state \<Rightarrow> queue_state" where
  "clearCommandQueue s = (if commandQueue s = [] then s else notifySubscribers (s\<lparr>commandQueue := []\<rparr>))"

definition resetCommandQueue :: "queue_state \<Rightarrow> queue_state" where
  "resetCommandQueue s = s\<lparr>commandQueue := [], snapshot := []\<rparr>"

definition recheckCommandQueue :: "queue_state \<Rightarrow> queue_state" where
  "recheckCommandQueue s = (if commandQueue s \<noteq> [] then notifySubscribers s else s)"

definition getCommandsByMaxPriority :: "queue_priority \<Rightarrow> queue_state \<Rightarrow> queued_command list" where
  "getCommandsByMaxPriority maxPriority s =
     filter (\<lambda>c. PRIORITY_ORDER (prio c) \<le> PRIORITY_ORDER maxPriority) (commandQueue s)"

section \<open>Editing the queue\<close>

definition isPromptInputModeEditable :: "prompt_mode \<Rightarrow> bool" where
  "isPromptInputModeEditable mode \<longleftrightarrow> mode \<noteq> TaskNotification"

definition isQueuedCommandEditable :: "queued_command \<Rightarrow> bool" where
  "isQueuedCommandEditable c \<longleftrightarrow> isPromptInputModeEditable (cmd_mode c) \<and> \<not> isMeta c"

definition isQueuedCommandVisible :: "bool \<Rightarrow> bool \<Rightarrow> queued_command \<Rightarrow> bool" where
  "isQueuedCommandVisible kairos kairosChannels c \<longleftrightarrow>
     ((kairos \<or> kairosChannels) \<and> origin c = Some ChannelOrigin) \<or> isQueuedCommandEditable c"

definition extractTextContent :: "content_block list \<Rightarrow> string \<Rightarrow> string" where
  "extractTextContent blocks separator =
     js_join separator (concat (map (\<lambda>b. case b of TextBlock t \<Rightarrow> [t] | _ \<Rightarrow> []) blocks))"

definition extractTextFromValue :: "command_value \<Rightarrow> string" where
  "extractTextFromValue v = (case v of TextValue t \<Rightarrow> t | BlocksValue bs \<Rightarrow> extractTextContent bs [NL])"

fun image_blocks :: "int \<Rightarrow> nat \<Rightarrow> content_block list \<Rightarrow> pasted_content list" where
  "image_blocks startId k [] = []"
| "image_blocks startId k (Base64Image d mt # bs) =
     \<lparr>pasted_id = startId + int k, pasted_is_image = True, pasted_content = d, mediaType = Some mt,
      filename = Some (''image'' @ decimal (k + 1))\<rparr> # image_blocks startId (k + 1) bs"
| "image_blocks startId k (b # bs) = image_blocks startId k bs"

definition extractImagesFromValue :: "command_value \<Rightarrow> int \<Rightarrow> pasted_content list" where
  "extractImagesFromValue v startId =
     (case v of TextValue _ \<Rightarrow> [] | BlocksValue bs \<Rightarrow> image_blocks startId 0 bs)"

fun popped_images :: "int \<Rightarrow> queued_command list \<Rightarrow> pasted_content list" where
  "popped_images nextImageId [] = []"
| "popped_images nextImageId (c # cs) =
     (let cmdImages = extractImagesFromValue (cmd_value c) nextImageId
      in filter pasted_is_image (pastedContents c) @ cmdImages @
           popped_images (nextImageId + int (length cmdImages)) cs)"

definition popAllEditable ::
  "int \<Rightarrow> string \<Rightarrow> nat \<Rightarrow> queue_state \<Rightarrow> (string \<times> nat \<times> pasted_content list) option \<times> queue_state"
where
  "popAllEditable now_ms currentInput currentCursorOffset s =
     (let editable = filter isQueuedCommandEditable (commandQueue s);
          nonEditable = filter (\<lambda>c. \<not> isQueuedCommandEditable c) (commandQueue s)
      in if commandQueue s = [] \<or> editable = [] then (None, s)
         else (let queuedTexts = map (extractTextFromValue \<circ> cmd_value) editable;
                   newInput = js_join [NL] (filter (\<lambda>t. t \<noteq> []) (queuedTexts @ [currentInput]));
                   cursorOffset = length (js_join [NL] queuedTexts) + 1 + currentCursorOffset
               in (Some (newInput, cursorOffset, popped_images now_ms editable),
                   notifySubscribers
                     ((fold (\<lambda>c. logOperation PopAllOp (text_of_value (cmd_value c))) editable s)
                        \<lparr>commandQueue := nonEditable\<rparr>))))"

section \<open>What a turn may take from the queue\<close>

definition isSlashCommand :: "queued_command \<Rightarrow> bool" where
  "isSlashCommand c \<longleftrightarrow>
     (case cmd_value c of TextValue t \<Rightarrow> starts_with ''/'' (js_trim t) \<and> \<not> skipSlashCommands c
      | BlocksValue _ \<Rightarrow> False)"

datatype defer_reason = PriorityBelowThreshold | SlashCommandReason | DifferentAgent | SystemCommandDeferred

record turn_input =
  maxPriority :: queue_priority
  on_main_thread :: bool
  currentAgentId :: "string option"
  allowSystemNotifications :: bool

definition isForCurrentQueryThread :: "queued_command \<Rightarrow> turn_input \<Rightarrow> bool" where
  "isForCurrentQueryThread c i \<longleftrightarrow>
     (if on_main_thread i then agentId c = None else cmd_mode c = TaskNotification \<and> agentId c = currentAgentId i)"

definition isSystemGeneratedQueuedCommand :: "queued_command \<Rightarrow> bool" where
  "isSystemGeneratedQueuedCommand c \<longleftrightarrow>
     cmd_mode c = TaskNotification \<or> isMeta c \<or> (origin c \<noteq> None \<and> origin c \<noteq> Some HumanOrigin)"

record turn_decision =
  attachable :: "queued_command list"
  deferred :: "(queued_command \<times> defer_reason) list"
  deferredReasonCounts :: "defer_reason \<Rightarrow> nat"

definition defer_cmd :: "queued_command \<Rightarrow> defer_reason \<Rightarrow> turn_decision \<Rightarrow> turn_decision" where
  "defer_cmd c r d = d\<lparr>deferred := deferred d @ [(c, r)],
     deferredReasonCounts := (deferredReasonCounts d)(r := deferredReasonCounts d r + 1)\<rparr>"

definition select_step :: "turn_input \<Rightarrow> turn_decision \<Rightarrow> queued_command \<Rightarrow> turn_decision" where
  "select_step i d c =
     (if PRIORITY_ORDER (prio c) > PRIORITY_ORDER (maxPriority i) then defer_cmd c PriorityBelowThreshold d
      else if isSlashCommand c then defer_cmd c SlashCommandReason d
      else if \<not> isForCurrentQueryThread c i then defer_cmd c DifferentAgent d
      else if \<not> allowSystemNotifications i \<and> isSystemGeneratedQueuedCommand c then defer_cmd c SystemCommandDeferred d
      else d\<lparr>attachable := attachable d @ [c]\<rparr>)"

definition selectQueuedCommandsForQueryTurn :: "queued_command list \<Rightarrow> turn_input \<Rightarrow> turn_decision" where
  "selectQueuedCommandsForQueryTurn commands i =
     foldl (select_step i) \<lparr>attachable = [], deferred = [], deferredReasonCounts = (\<lambda>_. 0)\<rparr> commands"

section \<open>The processor\<close>

text \<open>\<open>queueProcessor.ts\<close> has its own test for slash commands, which looks into the first text block.\<close>

definition first_text :: "content_block list \<Rightarrow> string option" where
  "first_text bs = (case find (\<lambda>b. case b of TextBlock _ \<Rightarrow> True | _ \<Rightarrow> False) bs of Some (TextBlock t) \<Rightarrow> Some t | _ \<Rightarrow> None)"

definition processor_isSlashCommand :: "queued_command \<Rightarrow> bool" where
  "processor_isSlashCommand c \<longleftrightarrow>
     (case cmd_value c of TextValue t \<Rightarrow> starts_with ''/'' (js_trim t)
      | BlocksValue bs \<Rightarrow> (case first_text bs of None \<Rightarrow> False | Some t \<Rightarrow> starts_with ''/'' (js_trim t)))"

definition isMainThread :: "queued_command \<Rightarrow> bool" where
  "isMainThread c \<longleftrightarrow> agentId c = None"

text \<open>The commands given to \<open>executeInput\<close>, if any, and the queue that is left.\<close>

definition processQueueIfReady :: "queue_state \<Rightarrow> queued_command list option \<times> queue_state" where
  "processQueueIfReady s =
     (case peek isMainThread s of None \<Rightarrow> (None, s)
      | Some next \<Rightarrow>
          if processor_isSlashCommand next \<or> cmd_mode next = BashMode
          then (case dequeue isMainThread s of (c, s') \<Rightarrow> (map_option (\<lambda>c. [c]) c, s'))
          else (let (commands, s') =
                      dequeueAllMatching
                        (\<lambda>c. isMainThread c \<and> \<not> processor_isSlashCommand c \<and> cmd_mode c = cmd_mode next) s
                in if commands = [] then (None, s') else (Some commands, s')))"

text \<open>The callers of the processor call it until it has nothing to process, at most \<open>fuel\<close> times.\<close>

fun process_all :: "nat \<Rightarrow> queue_state \<Rightarrow> queued_command list list \<times> queue_state" where
  "process_all 0 s = ([], s)"
| "process_all (Suc fuel) s =
     (case processQueueIfReady s of
        (None, s') \<Rightarrow> ([], s')
      | (Some batch, s') \<Rightarrow> (let (batches, s'') = process_all fuel s' in (batch # batches, s'')))"

text \<open>The loop \<open>while ((command = dequeue(filter)))\<close> of the streaming mode, \<open>src/cli/print.ts\<close>.\<close>

fun drain :: "('s \<Rightarrow> 'c option \<times> 's) \<Rightarrow> nat \<Rightarrow> 's \<Rightarrow> 'c list \<times> 's" where
  "drain take_best 0 s = ([], s)"
| "drain take_best (Suc fuel) s =
     (case take_best s of
        (None, s') \<Rightarrow> ([], s')
      | (Some c, s') \<Rightarrow> (let (cs, s'') = drain take_best fuel s' in (c # cs, s'')))"

end
