(* ===== verification/Queue_Order.thy ===== *)
theory Queue_Order
  imports Command_Queue
begin

text \<open>
  Properties of the command queue: the order in which it hands out commands, stated through the
  interface of a priority queue, the invariant of the module and the progress of the processor.
\<close>

section \<open>The interface of a priority queue\<close>

text \<open>
  Taking the best element that passes a filter: nothing is lost, nothing in front is as urgent, and
  elements of one key leave in the order they came.
\<close>

locale priority_queue =
  fixes take_best :: "('c \<Rightarrow> bool) \<Rightarrow> 's \<Rightarrow> 'c option \<times> 's"
    and contents :: "'s \<Rightarrow> 'c list"
    and key :: "'c \<Rightarrow> 'k::linorder"
  assumes take_None: "take_best f s = (None, s') \<Longrightarrow> s' = s \<and> filter f (contents s) = []"
    and take_Some: "take_best f s = (Some c, s') \<Longrightarrow>
      \<exists>xs ys. contents s = xs @ c # ys \<and> contents s' = xs @ ys \<and> f c \<and>
        (\<forall>x\<in>set xs. f x \<longrightarrow> key c < key x) \<and> (\<forall>y\<in>set ys. f y \<longrightarrow> key c \<le> key y)"

lemma insort_key_first: "(\<And>y. y \<in> set ys \<Longrightarrow> k c \<le> k y) \<Longrightarrow> insort_key k c (sort_key k ys) = c # sort_key k ys"
  by (cases "sort_key k ys") (auto dest: arg_cong [of _ _ set])

lemma sort_key_first:
  assumes "\<And>x. x \<in> set xs \<Longrightarrow> k c < k x" "\<And>y. y \<in> set ys \<Longrightarrow> k c \<le> k y"
  shows "sort_key k (xs @ c # ys) = c # sort_key k (xs @ ys)"
  using assms
proof (induction xs)
  case Nil
  then show ?case by (simp add: insort_key_first)
next
  case (Cons x xs)
  then have "\<not> k x \<le> k c" by (simp add: not_le)
  then show ?case using Cons by simp
qed

context priority_queue
begin

lemma drain_sorted:
  assumes "length (filter f (contents s)) \<le> fuel" "drain (take_best f) fuel s = (cs, s')"
  shows "cs = sort_key key (filter f (contents s)) \<and> contents s' = filter (\<lambda>c. \<not> f c) (contents s)"
  using assms
proof (induction fuel arbitrary: s cs s')
  case 0
  then show ?case by (auto simp: filter_empty_conv filter_id_conv)
next
  case (Suc fuel)
  obtain r s1 where r: "take_best f s = (r, s1)" by (cases "take_best f s")
  show ?case
  proof (cases r)
    case None
    then have "s1 = s" "filter f (contents s) = []" using take_None r by blast+
    then show ?thesis using Suc.prems(2) r None by (auto simp: filter_empty_conv filter_id_conv)
  next
    case (Some c)
    obtain xs ys where c: "contents s = xs @ c # ys" "contents s1 = xs @ ys" "f c"
        "\<And>x. x \<in> set xs \<Longrightarrow> f x \<Longrightarrow> key c < key x" "\<And>y. y \<in> set ys \<Longrightarrow> f y \<Longrightarrow> key c \<le> key y"
      using take_Some [of f s c s1] r Some by auto
    obtain ds where d: "drain (take_best f) fuel s1 = (ds, s')" "cs = c # ds"
      using Suc.prems(2) r Some by (auto split: prod.splits)
    have "sort_key key (filter f (contents s)) = c # sort_key key (filter f (contents s1))"
      using sort_key_first [of "filter f xs" key c "filter f ys"] c by simp
    moreover have "filter (\<lambda>c. \<not> f c) (contents s) = filter (\<lambda>c. \<not> f c) (contents s1)" using c by simp
    moreover have "length (filter f (contents s1)) \<le> fuel" using Suc.prems(1) c by simp
    ultimately show ?thesis using Suc.IH [OF _ d(1)] d(2) by simp
  qed
qed

lemma drain_all:
  assumes "length (filter f (contents s)) < fuel"
  shows "\<exists>s'. drain (take_best f) fuel s = (sort_key key (filter f (contents s)), s') \<and>
    contents s' = filter (\<lambda>c. \<not> f c) (contents s)"
  using drain_sorted [of f s fuel] assms by (cases "drain (take_best f) fuel s") simp

end

section \<open>The search loop\<close>

text \<open>
  The candidate after the whole queue: it passes the filter, the ones in front are less urgent and
  the ones behind at most as urgent.
\<close>

definition is_best :: "(queued_command \<Rightarrow> bool) \<Rightarrow> queued_command list \<Rightarrow> nat \<Rightarrow> bool" where
  "is_best f q i \<longleftrightarrow> i < length q \<and> f (q ! i) \<and>
     (\<forall>j<i. f (q ! j) \<longrightarrow> prio (q ! i) < prio (q ! j)) \<and>
     (\<forall>j. i < j \<longrightarrow> j < length q \<longrightarrow> f (q ! j) \<longrightarrow> prio (q ! i) \<le> prio (q ! j))"

definition best_so_far :: "(queued_command \<Rightarrow> bool) \<Rightarrow> queued_command list \<Rightarrow> (nat \<times> nat) option \<Rightarrow> bool" where
  "best_so_far f q b \<longleftrightarrow>
     (case b of None \<Rightarrow> filter f q = []
      | Some (i, p) \<Rightarrow> is_best f q i \<and> p = PRIORITY_ORDER (prio (q ! i)))"

lemma is_best_snoc_new:
  assumes "f c" "\<And>j. j < length q \<Longrightarrow> f (q ! j) \<Longrightarrow> prio c < prio (q ! j)"
  shows "is_best f (q @ [c]) (length q)"
  using assms by (auto simp: is_best_def nth_append)

lemma is_best_snoc_old:
  assumes "is_best f q i" "f c \<Longrightarrow> prio (q ! i) \<le> prio c"
  shows "is_best f (q @ [c]) i"
  using assms by (auto simp: is_best_def nth_append less_Suc_eq)

lemma is_best_least: "is_best f q i \<Longrightarrow> j < length q \<Longrightarrow> f (q ! j) \<Longrightarrow> prio (q ! i) \<le> prio (q ! j)"
  by (cases i j rule: linorder_cases) (auto simp: is_best_def)

lemma best_from_spec: "best_so_far f q b \<Longrightarrow> best_so_far f (q @ cs) (best_from f (length q) b cs)"
proof (induction cs arbitrary: q b)
  case (Cons c cs)
  have "best_so_far f (q @ [c])
     (if \<not> f c then b
      else (let priority = PRIORITY_ORDER (prio c) in
            case b of None \<Rightarrow> Some (length q, priority)
            | Some (j, bestPriority) \<Rightarrow> if priority < bestPriority then Some (length q, priority) else b))"
    (is "best_so_far f _ ?b")
  proof (cases b)
    case None
    then have "filter f q = []" using Cons.prems by (simp add: best_so_far_def)
    then show ?thesis using None
      by (auto simp: best_so_far_def Let_def filter_empty_conv intro!: is_best_snoc_new)
  next
    case (Some ip)
    obtain i where ip: "ip = (i, PRIORITY_ORDER (prio (q ! i)))" and i: "is_best f q i"
      using Cons.prems Some by (cases ip) (simp add: best_so_far_def)
    have "i < length q" using i by (simp add: is_best_def)
    show ?thesis
    proof (cases "f c \<and> prio c < prio (q ! i)")
      case True
      then have "is_best f (q @ [c]) (length q)"
        using is_best_least [OF i] by (intro is_best_snoc_new) (auto intro: less_le_trans)
      then show ?thesis using True Some ip by (simp add: best_so_far_def Let_def less_queue_priority_def)
    next
      case False
      then have "is_best f (q @ [c]) i" using i by (intro is_best_snoc_old) (auto simp: not_less)
      then show ?thesis using False Some ip \<open>i < length q\<close>
        by (auto simp: best_so_far_def Let_def less_queue_priority_def nth_append)
    qed
  qed
  from Cons.IH [OF this] show ?case by simp
qed simp

lemma bestIdx_spec:
  "(case bestIdx f q of None \<Rightarrow> filter f q = [] | Some i \<Rightarrow> is_best f q i)"
  using best_from_spec [of f "[]" None q]
  by (auto simp: best_so_far_def bestIdx_def split: option.splits)

lemma bestIdx_None: "bestIdx f q = None \<longleftrightarrow> filter f q = []"
  using bestIdx_spec [of f q] by (auto simp: is_best_def filter_empty_conv split: option.splits)

interpretation command_queue: priority_queue dequeue commandQueue prio
proof
  fix f s s' assume "dequeue f s = (None, s')"
  then show "s' = s \<and> filter f (commandQueue s) = []"
    by (auto simp: dequeue_def bestIdx_None split: if_splits option.splits)
next
  fix f s c s' assume d: "dequeue f s = (Some c, s')"
  then obtain i where i: "bestIdx f (commandQueue s) = Some i" "c = commandQueue s ! i"
      "commandQueue s' = splice1 i (commandQueue s)"
    by (auto simp: dequeue_def logOperation_def notifySubscribers_def split: if_splits option.splits)
  then have b: "is_best f (commandQueue s) i" using bestIdx_spec [of f "commandQueue s"] by simp
  let ?q = "commandQueue s"
  have "?q = take i ?q @ c # drop (Suc i) ?q" using b i(2) by (simp add: is_best_def id_take_nth_drop)
  moreover have "f x \<longrightarrow> prio c < prio x" if "x \<in> set (take i ?q)" for x
    using that b i(2) by (auto simp: in_set_conv_nth is_best_def)
  moreover have "f y \<longrightarrow> prio c \<le> prio y" if "y \<in> set (drop (Suc i) ?q)" for y
    using that b i(2) by (auto simp: in_set_conv_nth is_best_def)
  ultimately show "\<exists>xs ys. commandQueue s = xs @ c # ys \<and> commandQueue s' = xs @ ys \<and> f c \<and>
      (\<forall>x\<in>set xs. f x \<longrightarrow> prio c < prio x) \<and> (\<forall>y\<in>set ys. f y \<longrightarrow> prio c \<le> prio y)"
    using b i by (intro exI [of _ "take i ?q"] exI [of _ "drop (Suc i) ?q"]) (auto simp: splice1_def is_best_def)
qed

lemma peek_is_best:
  "peek f s = Some c \<Longrightarrow> \<exists>i. bestIdx f (commandQueue s) = Some i \<and> is_best f (commandQueue s) i \<and> c = commandQueue s ! i"
  using bestIdx_spec [of f "commandQueue s"] by (auto simp: peek_def split: if_splits option.splits)

lemma peek_None: "peek f s = None \<longleftrightarrow> filter f (commandQueue s) = []"
  by (auto simp: peek_def bestIdx_None)

lemma peek_dequeue: "peek f s = Some c \<Longrightarrow> \<exists>s'. dequeue f s = (Some c, s')"
  by (auto simp: peek_def dequeue_def split: if_splits)

lemma peek_Some:
  assumes "peek f s = Some c"
  shows "c \<in> set (commandQueue s)" "f c" "\<And>d. d \<in> set (commandQueue s) \<Longrightarrow> f d \<Longrightarrow> prio c \<le> prio d"
proof -
  obtain i where i: "is_best f (commandQueue s) i" "c = commandQueue s ! i"
    using peek_is_best [OF assms] by blast
  then show "c \<in> set (commandQueue s)" "f c" by (auto simp: is_best_def)
  fix d assume "d \<in> set (commandQueue s)" "f d"
  then show "prio c \<le> prio d" using is_best_least [OF i(1)] i(2) by (auto simp: in_set_conv_nth)
qed

section \<open>The processor\<close>

definition batch_ok :: "queued_command list \<Rightarrow> bool" where
  "batch_ok b \<longleftrightarrow> b \<noteq> [] \<and> list_all isMainThread b \<and>
     (length b = 1 \<or> list_all (\<lambda>c. \<not> processor_isSlashCommand c \<and> cmd_mode c \<noteq> BashMode \<and> cmd_mode c = cmd_mode (hd b)) b)"

text \<open>Every batch holds a command that is at least as urgent as all that come later.\<close>

fun urgent_first :: "queued_command list list \<Rightarrow> bool" where
  "urgent_first [] = True"
| "urgent_first (b # bs) = (list_ex (\<lambda>c. list_all (\<lambda>d. prio c \<le> prio d) (concat bs)) b \<and> urgent_first bs)"

lemma mset_filter_split:
  "(\<And>c. P c \<Longrightarrow> f c) \<Longrightarrow>
     mset (filter f q) = mset (filter P q) + mset (filter f (filter (\<lambda>c. \<not> P c) q))"
  by (induction q) (auto simp del: mset_filter filter_filter)

lemma process_step_None:
  assumes "processQueueIfReady s = (None, s')"
  shows "s' = s \<and> filter isMainThread (commandQueue s) = []"
proof (cases "peek isMainThread s")
  case None
  then show ?thesis using assms by (simp add: processQueueIfReady_def) (simp add: peek_None)
next
  case (Some c)
  obtain t where t: "dequeue isMainThread s = (Some c, t)" using peek_dequeue [OF Some] by blast
  have "c \<in> set (commandQueue s)" "isMainThread c" using peek_Some [OF Some] by auto
  then show ?thesis using assms Some t
    by (auto simp: processQueueIfReady_def dequeueAllMatching_def Let_def filter_empty_conv split: if_splits)
qed

lemma process_step_Some:
  assumes "processQueueIfReady s = (Some batch, s')"
  shows "batch_ok batch"
    and "mset (filter isMainThread (commandQueue s)) = mset batch + mset (filter isMainThread (commandQueue s'))"
    and "filter (\<lambda>c. \<not> isMainThread c) (commandQueue s') = filter (\<lambda>c. \<not> isMainThread c) (commandQueue s)"
    and "\<exists>c\<in>set batch. \<forall>d\<in>set (commandQueue s). isMainThread d \<longrightarrow> prio c \<le> prio d"
proof -
  obtain next_c where n: "peek isMainThread s = Some next_c"
    using assms by (auto simp: processQueueIfReady_def split: option.splits)
  note p = peek_Some [OF n]
  have "batch_ok batch \<and>
    mset (filter isMainThread (commandQueue s)) = mset batch + mset (filter isMainThread (commandQueue s')) \<and>
    filter (\<lambda>c. \<not> isMainThread c) (commandQueue s') = filter (\<lambda>c. \<not> isMainThread c) (commandQueue s) \<and>
    next_c \<in> set batch"
  proof (cases "processor_isSlashCommand next_c \<or> cmd_mode next_c = BashMode")
    case True
    then obtain t where t: "dequeue isMainThread s = (Some next_c, t)" using peek_dequeue [OF n] by blast
    then have b: "batch = [next_c]" "s' = t" using assms True n by (auto simp: processQueueIfReady_def)
    show ?thesis using command_queue.take_Some [OF t] p(2) unfolding b by (auto simp: batch_ok_def)
  next
    case False
    let ?P = "\<lambda>c. isMainThread c \<and> \<not> processor_isSlashCommand c \<and> cmd_mode c = cmd_mode next_c"
    have b: "batch = filter ?P (commandQueue s)" "commandQueue s' = filter (\<lambda>c. \<not> ?P c) (commandQueue s)"
      using assms False n
      by (auto simp: processQueueIfReady_def dequeueAllMatching_def Let_def log_times_def notifySubscribers_def
          split: if_splits)
    have next_in: "next_c \<in> set batch" using p False by (simp add: b(1))
    then have "hd batch \<in> set batch" by (cases batch) auto
    then have "cmd_mode (hd batch) = cmd_mode next_c" by (simp add: b(1))
    moreover have "batch \<noteq> []" using next_in by auto
    moreover have "list_all (\<lambda>c. ?P c) batch" by (simp add: b(1) list_all_iff)
    ultimately have ok: "batch_ok batch" using False by (auto simp: batch_ok_def list_all_iff)
    have "mset (filter isMainThread (commandQueue s)) =
        mset batch + mset (filter isMainThread (commandQueue s'))"
      unfolding b by (rule mset_filter_split) blast
    moreover have "filter (\<lambda>c. \<not> isMainThread c) (filter (\<lambda>c. \<not> ?P c) q) = filter (\<lambda>c. \<not> isMainThread c) q" for q
      by (induction q) auto
    ultimately show ?thesis using next_in ok unfolding b(2) by blast
  qed
  then show "batch_ok batch"
    "mset (filter isMainThread (commandQueue s)) = mset batch + mset (filter isMainThread (commandQueue s'))"
    "filter (\<lambda>c. \<not> isMainThread c) (commandQueue s') = filter (\<lambda>c. \<not> isMainThread c) (commandQueue s)"
    "\<exists>c\<in>set batch. \<forall>d\<in>set (commandQueue s). isMainThread d \<longrightarrow> prio c \<le> prio d"
    using p(3) by blast+
qed

lemma process_all_spec:
  assumes "length (filter isMainThread (commandQueue s)) < fuel" "process_all fuel s = (batches, s')"
  shows "commandQueue s' = filter (\<lambda>c. \<not> isMainThread c) (commandQueue s) \<and>
    mset (concat batches) = mset (filter isMainThread (commandQueue s)) \<and>
    list_all batch_ok batches \<and> urgent_first batches"
  using assms
proof (induction fuel arbitrary: s batches)
  case (Suc fuel)
  obtain r s1 where r: "processQueueIfReady s = (r, s1)" by (cases "processQueueIfReady s")
  show ?case
  proof (cases r)
    case None
    then have "s1 = s" "filter isMainThread (commandQueue s) = []" using process_step_None r by blast+
    then show ?thesis using Suc.prems(2) r None by (auto simp: filter_empty_conv filter_id_conv)
  next
    case (Some b)
    obtain bs where bs: "process_all fuel s1 = (bs, s')" "batches = b # bs"
      using Suc.prems(2) r Some by (auto split: prod.splits)
    note step = process_step_Some [OF r [unfolded Some]]
    have "length (filter isMainThread (commandQueue s)) = length b + length (filter isMainThread (commandQueue s1))"
      using arg_cong [OF step(2), of size] by (simp only: size_union size_mset)
    moreover have "b \<noteq> []" using step(1) by (simp add: batch_ok_def)
    ultimately have "length (filter isMainThread (commandQueue s1)) < fuel" using Suc.prems(1) by (cases b) auto
    note IH = Suc.IH [OF this bs(1)]
    have "set (concat bs) \<subseteq> set (filter isMainThread (commandQueue s))"
      using IH step(2) by (metis mset_eq_setD mset_subset_eq_add_right set_mset_mono set_mset_mset)
    then have later: "d \<in> set (commandQueue s) \<and> isMainThread d" if "d \<in> set (concat bs)" for d using that by auto
    obtain c where c: "c \<in> set b" "\<forall>d\<in>set (commandQueue s). isMainThread d \<longrightarrow> prio c \<le> prio d"
      using step(4) by blast
    then have "list_all (\<lambda>d. prio c \<le> prio d) (concat bs)" using later unfolding list_all_iff by blast
    then have "urgent_first batches" using c(1) IH unfolding bs(2) urgent_first.simps list_ex_iff by blast
    then show ?thesis using IH step(1-3) bs(2) by simp
  qed
qed simp

section \<open>The invariant of the module\<close>

text \<open>A call of one of the module's operations.\<close>

datatype queue_call =
    CallEnqueue queued_command | CallNotify queued_command
  | CallDequeue "queued_command \<Rightarrow> bool" | CallDequeueAll | CallDequeueMatching "queued_command \<Rightarrow> bool"
  | CallRemove "queued_command list" | CallRemoveByFilter "queued_command \<Rightarrow> bool"
  | CallClear | CallReset | CallRecheck | CallPopAllEditable int string nat

primrec queue_step :: "queue_state \<Rightarrow> queue_call \<Rightarrow> queue_state" where
  "queue_step s (CallEnqueue c) = enqueue c s"
| "queue_step s (CallNotify c) = enqueuePendingNotification c s"
| "queue_step s (CallDequeue f) = snd (dequeue f s)"
| "queue_step s CallDequeueAll = snd (dequeueAll s)"
| "queue_step s (CallDequeueMatching f) = snd (dequeueAllMatching f s)"
| "queue_step s (CallRemove cs) = remove_commands cs s"
| "queue_step s (CallRemoveByFilter f) = snd (removeByFilter f s)"
| "queue_step s CallClear = clearCommandQueue s"
| "queue_step s CallReset = resetCommandQueue s"
| "queue_step s CallRecheck = recheckCommandQueue s"
| "queue_step s (CallPopAllEditable now_ms t i) = snd (popAllEditable now_ms t i s)"

text \<open>
  The snapshot is the queue, every queued command has a priority, and the commands are objects of
  their own.
\<close>

definition queue_inv :: "queue_state \<Rightarrow> bool" where
  "queue_inv s \<longleftrightarrow> snapshot s = commandQueue s \<and> distinct (map cmd_ref (commandQueue s)) \<and>
     (\<forall>c\<in>set (commandQueue s). cmd_ref c < fresh s \<and> cmd_priority c \<noteq> None)"

text \<open>Operations that only take commands out keep the invariant when they renew the snapshot.\<close>

lemma subseq_distinct: "subseq xs ys \<Longrightarrow> (distinct ys \<longrightarrow> distinct xs) \<and> set xs \<subseteq> set ys"
  by (induction rule: list_emb.induct) auto

lemma subseq_splice1: "subseq (splice1 i q) q"
proof (cases "i < length q")
  case True
  then have "q = take i q @ q ! i # drop (Suc i) q" by (simp add: id_take_nth_drop)
  moreover have "subseq (take i q @ drop (Suc i) q) (take i q @ q ! i # drop (Suc i) q)"
    by (intro list_emb_append_mono) auto
  ultimately show ?thesis by (simp add: splice1_def)
qed (simp add: splice1_def)

lemma subseq_remove_back: "remove_back P i q removed = (removed', q') \<Longrightarrow> subseq q' q"
  by (induction P i q removed rule: remove_back.induct)
    (auto split: if_splits intro: subseq_order.trans [OF _ subseq_splice1])

lemma remove_back_none: "remove_back P i q removed = ([], q') \<Longrightarrow> q' = q"
proof -
  have "removed' \<noteq> []" if "remove_back P i q removed = (removed', q')" "removed \<noteq> []" for removed removed' q q' i
    using that by (induction P i q removed rule: remove_back.induct) (auto split: if_splits)
  then show "remove_back P i q removed = ([], q') \<Longrightarrow> q' = q"
    by (induction P i q removed rule: remove_back.induct) (fastforce split: if_splits)+
qed

text \<open>Operations that take commands out keep the invariant when they renew the snapshot.\<close>

lemma queue_inv_sub:
  assumes "queue_inv s" "subseq (commandQueue s') (commandQueue s)" "snapshot s' = commandQueue s'" "fresh s' = fresh s"
  shows "queue_inv s'"
proof -
  have "set (commandQueue s') \<subseteq> set (commandQueue s)" using subseq_distinct [OF assms(2)] by blast
  moreover have "distinct (map cmd_ref (commandQueue s'))"
    using subseq_distinct [OF subseq_map [OF assms(2), of cmd_ref]] assms(1) by (auto simp: queue_inv_def)
  ultimately show ?thesis using assms by (auto simp: queue_inv_def)
qed

lemma queue_inv_enqueue: "queue_inv s \<Longrightarrow> queue_inv (enqueue_with p c s)"
  by (auto simp: queue_inv_def enqueue_with_def logOperation_def notifySubscribers_def)

lemmas queue_op_defs = logOperation_def notifySubscribers_def log_times_def

lemma pop_log_frame:
  "commandQueue (fold (\<lambda>c. logOperation op (f c)) cs s) = commandQueue s"
  "fresh (fold (\<lambda>c. logOperation op (f c)) cs s) = fresh s"
  by (induction cs arbitrary: s) (auto simp: logOperation_def)

lemma queue_step_inv: "queue_inv s \<Longrightarrow> queue_inv (queue_step s e)"
proof -
  assume inv: "queue_inv s"
  then have sn: "snapshot s = commandQueue s" by (simp add: queue_inv_def)
  note sub = queue_inv_sub [OF inv]
  show ?thesis
  proof (cases e)
    case (CallDequeue f)
    show ?thesis unfolding CallDequeue
      by (rule sub) (auto simp: dequeue_def queue_op_defs sn subseq_splice1 split: option.splits)
  next
    case CallDequeueAll
    show ?thesis unfolding CallDequeueAll by (rule sub) (auto simp: dequeueAll_def queue_op_defs sn)
  next
    case (CallDequeueMatching f)
    show ?thesis unfolding CallDequeueMatching
      by (rule sub) (auto simp: dequeueAllMatching_def queue_op_defs sn Let_def)
  next
    case (CallRemove cs)
    have "filter (\<lambda>c. P c) q = q" if "length (filter P q) = length q" for P and q :: "queued_command list"
      using that by (metis filter_True length_filter_less less_irrefl)
    then show ?thesis unfolding CallRemove
      by (intro sub) (auto simp: remove_commands_def queue_op_defs sn Let_def)
  next
    case (CallRemoveByFilter f)
    obtain r q where r: "remove_back f (length (commandQueue s)) (commandQueue s) [] = (r, q)"
      by (cases "remove_back f (length (commandQueue s)) (commandQueue s) []")
    show ?thesis unfolding CallRemoveByFilter using subseq_remove_back [OF r] r sn
      by (intro sub) (auto simp: removeByFilter_def queue_op_defs Let_def dest: remove_back_none)
  next
    case (CallEnqueue c)
    show ?thesis using queue_inv_enqueue [OF inv] by (simp add: CallEnqueue enqueue_def)
  next
    case (CallNotify c)
    show ?thesis using queue_inv_enqueue [OF inv] by (simp add: CallNotify enqueuePendingNotification_def)
  next
    case (CallPopAllEditable n t i)
    show ?thesis unfolding CallPopAllEditable
      by (rule sub) (auto simp: popAllEditable_def notifySubscribers_def sn Let_def pop_log_frame)
  qed (use inv in \<open>auto simp: clearCommandQueue_def resetCommandQueue_def recheckCommandQueue_def queue_inv_def notifySubscribers_def\<close>)
qed

interpretation command_queue_module: machine queue_step queue_inv
  by unfold_locales (rule queue_step_inv)

section \<open>Two surprises\<close>

definition text_command :: "string \<Rightarrow> queue_priority \<Rightarrow> queued_command" where
  "text_command t p = \<lparr>cmd_ref = 0, cmd_value = TextValue t, cmd_mode = PromptMode, cmd_priority = Some p,
     cmd_uuid = None, pastedContents = [], preExpansionValue = None, skipSlashCommands = False,
     bridgeOrigin = False, isMeta = False, origin = None, workload = None, agentId = None\<rparr>"

text \<open>A batch is in the order of the queue: a command that can wait stands before an urgent one.\<close>

lemma batch_not_by_priority:
  "map_option (map prio) (fst (processQueueIfReady
     (enqueue (text_command ''urgent'' Now) (enqueue (text_command ''relaxed'' Later) empty_queue)))) =
   Some [Later, Now]"
  by code_simp

text \<open>With an empty input, popping a queued text puts the cursor behind the end of the new input.\<close>

lemma cursor_behind_input:
  assumes "t \<noteq> []"
  shows "map_option (\<lambda>(txt, cursor, _). (txt, cursor)) (fst (popAllEditable now_ms [] 0
     (enqueue (text_command t Next) empty_queue))) = Some (t, length t + 1)"
  using assms
  by (simp add: popAllEditable_def enqueue_def enqueue_with_def text_command_def empty_queue_def queue_op_defs
      isQueuedCommandEditable_def isPromptInputModeEditable_def extractTextFromValue_def)

section \<open>Properties\<close>

text \<open>
  C35: The queue is a stable priority queue.  Draining it through any filter, as the streaming mode
  does with the main thread's commands, hands out the commands that pass the filter sorted by
  urgency, commands of one urgency in the order they were enqueued, and leaves the others in the
  queue as they were.
\<close>

theorem drain_order:
  "\<exists>s'. drain (dequeue f) (Suc (length (commandQueue s))) s = (sort_key prio (filter f (commandQueue s)), s') \<and>
     commandQueue s' = filter (\<lambda>c. \<not> f c) (commandQueue s)"
  using command_queue.drain_all [of f s "Suc (length (commandQueue s))"] by (simp add: le_imp_less_Suc)

text \<open>
  C36: The processor executes every command of the main thread exactly once and never stalls.
  Called until it has nothing to do, it empties the queue but for the commands of subagents, which
  stay in order; its batches are single commands or commands of one mode that are neither slash
  commands nor shell commands, and each batch holds a command as urgent as any that comes later.
\<close>

theorem processor_drains:
  "let (batches, s') = process_all (Suc (length (commandQueue s))) s in
     commandQueue s' = filter (\<lambda>c. \<not> isMainThread c) (commandQueue s) \<and>
     mset (concat batches) = mset (filter isMainThread (commandQueue s)) \<and>
     list_all batch_ok batches \<and> urgent_first batches"
  using process_all_spec [of s "Suc (length (commandQueue s))"]
  by (cases "process_all (Suc (length (commandQueue s))) s") (simp add: le_imp_less_Suc)

text \<open>
  The module never shows a stale or corrupt queue.  After any sequence of calls, the snapshot
  that subscribers read is the queue itself, every queued command has its own identity and an
  explicit priority.
\<close>

theorem queue_module_invariant:
  "queue_inv (foldl queue_step empty_queue calls)"
  by (rule command_queue_module.run_inv) (simp add: queue_inv_def empty_queue_def)

end
