(* ===== verification/Query_Guard.thy ===== *)
theory Query_Guard
  imports Prelude
begin

text \<open>
  The state machine of the query lifecycle, \<open>src/utils/QueryGuard.ts\<close>.  Its methods are
  synchronous; \<open>changes\<close> counts the notifications of subscribers.  The history of a guard is the
  list of calls made on it.
\<close>

datatype guard_status = Idle | Dispatching | Running

record query_guard =
  gstatus :: guard_status
  generation :: nat
  changes :: nat

definition new_guard :: query_guard where
  "new_guard = \<lparr>gstatus = Idle, generation = 0, changes = 0\<rparr>"

definition guard_notify :: "query_guard \<Rightarrow> query_guard" where
  "guard_notify g = g\<lparr>changes := changes g + 1\<rparr>"

definition reserve :: "query_guard \<Rightarrow> bool \<times> query_guard" where
  "reserve g = (if gstatus g \<noteq> Idle then (False, g) else (True, guard_notify (g\<lparr>gstatus := Dispatching\<rparr>)))"

definition cancelReservation :: "query_guard \<Rightarrow> query_guard" where
  "cancelReservation g = (if gstatus g \<noteq> Dispatching then g else guard_notify (g\<lparr>gstatus := Idle\<rparr>))"

definition tryStart :: "query_guard \<Rightarrow> nat option \<times> query_guard" where
  "tryStart g =
     (if gstatus g = Running then (None, g)
      else (let g' = guard_notify (g\<lparr>gstatus := Running, generation := generation g + 1\<rparr>) in (Some (generation g'), g')))"

definition end_query :: "nat \<Rightarrow> query_guard \<Rightarrow> bool \<times> query_guard" where
  "end_query n g =
     (if generation g \<noteq> n then (False, g)
      else if gstatus g \<noteq> Running then (False, g)
      else (True, guard_notify (g\<lparr>gstatus := Idle\<rparr>)))"

definition forceEnd :: "query_guard \<Rightarrow> query_guard" where
  "forceEnd g = (if gstatus g = Idle then g else guard_notify (g\<lparr>gstatus := Idle, generation := generation g + 1\<rparr>))"

definition isActive :: "query_guard \<Rightarrow> bool" where
  "isActive g \<longleftrightarrow> gstatus g \<noteq> Idle"

lemmas guard_defs = reserve_def cancelReservation_def tryStart_def end_query_def forceEnd_def guard_notify_def

section \<open>Histories\<close>

datatype guard_call = Reserve | CancelReservation | TryStart | End nat | ForceEnd

primrec guard_step :: "query_guard \<Rightarrow> guard_call \<Rightarrow> query_guard" where
  "guard_step g Reserve = snd (reserve g)"
| "guard_step g CancelReservation = cancelReservation g"
| "guard_step g TryStart = snd (tryStart g)"
| "guard_step g (End n) = snd (end_query n g)"
| "guard_step g ForceEnd = forceEnd g"

text \<open>
  After the query of generation \<open>n\<close> has ended, a running query is a later one.
\<close>

definition ended :: "nat \<Rightarrow> query_guard \<Rightarrow> bool" where
  "ended n g \<longleftrightarrow> n \<le> generation g \<and> (gstatus g = Running \<longrightarrow> n < generation g)"

interpretation ended_query: machine guard_step "ended n"
proof
  fix g e assume "ended n g"
  then show "ended n (guard_step g e)"
    by (cases e) (auto simp: ended_def guard_defs Let_def)
qed

definition running_as :: "nat \<Rightarrow> query_guard \<Rightarrow> bool" where
  "running_as n g \<longleftrightarrow> gstatus g = Running \<and> generation g = n"

definition ends :: "nat \<Rightarrow> guard_call \<Rightarrow> bool" where
  "ends n e \<longleftrightarrow> e = End n \<or> e = ForceEnd"

lemma running_step:
  assumes "running_as n g"
  shows "if ends n e then ended n (guard_step g e) else running_as n (guard_step g e)"
  using assms by (cases e) (auto simp: ends_def ended_def running_as_def guard_defs)

lemma running_history:
  assumes "running_as n g"
  shows "if list_ex (ends n) es then ended n (foldl guard_step g es) else running_as n (foldl guard_step g es)"
  using assms
proof (induction es arbitrary: g)
  case (Cons e es)
  then show ?case using running_step [OF Cons.prems, of e] ended_query.run_inv [of n "guard_step g e" es]
    by (cases "ends n e") simp_all
qed simp

lemma started: "tryStart g = (Some n, g') \<Longrightarrow> running_as n g'"
  by (auto simp: tryStart_def running_as_def guard_notify_def Let_def split: if_splits)

text \<open>
  While a query runs, no other can be started or dispatched: both calls are refused and change
  nothing, in every history between its start and its end.
\<close>

lemma exclusive_query:
  assumes "tryStart g = (Some n, g')" "\<not> list_ex (ends n) calls"
  shows "let h = foldl guard_step g' calls in
    tryStart h = (None, h) \<and> reserve h = (False, h) \<and> cancelReservation h = h \<and> isActive h"
  using running_history [OF started [OF assms(1)], of calls] assms(2)
  by (simp add: running_as_def Let_def tryStart_def reserve_def cancelReservation_def isActive_def)

section \<open>Properties\<close>

text \<open>
  Only the current query cleans up.  Once a query has been started with its generation, its
  later call of \<open>end\<close> succeeds exactly when no call of \<open>end\<close> for that generation and no forced end
  came in between, whatever else was called; so each query ends at most once and a cancelled query
  never ends its successor.
\<close>

theorem end_once:
  assumes "tryStart g = (Some n, g')"
  shows "fst (end_query n (foldl guard_step g' calls)) \<longleftrightarrow> \<not> list_ex (ends n) calls"
  using running_history [OF started [OF assms], of calls]
  by (auto simp: running_as_def ended_def end_query_def split: if_splits)

lemma end_once_witness:
  "fst (end_query 1 (foldl guard_step (snd (tryStart new_guard)) [Reserve, TryStart, End 0])) \<and>
   \<not> fst (end_query 1 (foldl guard_step (snd (tryStart new_guard)) [ForceEnd, TryStart]))"
proof -
  have "tryStart new_guard = (Some 1, snd (tryStart new_guard))" by code_simp
  from end_once [OF this, of "[Reserve, TryStart, End 0]"] end_once [OF this, of "[ForceEnd, TryStart]"]
  show ?thesis by (simp add: ends_def)
qed

end
