(* ===== verification/Tool_Orchestration.thy ===== *)
theory Tool_Orchestration
  imports Js_Strings
begin

text \<open>
  The execution of the tool calls of a turn, \<open>src/services/tools/toolOrchestration.ts\<close>, with the
  reading of a tool's semantics in \<open>toolLifecycle.ts\<close>, the search of a tool in \<open>src/Tool.ts\<close> and
  the generator \<open>all\<close> of \<open>src/utils/generators.ts\<close> that runs generators concurrently up to a cap.
  A tool's own run and the batch gate are arguments.  A generator is the list of what it will
  yield; which of the running generators comes next is a schedule, a list of indices.
\<close>

section \<open>Tools\<close>

text \<open>\<open>None\<close> as the value of a predicate is a thrown error, \<open>Inl\<close> as the parsed input a failed parse.\<close>

datatype interrupt_behavior = CancelOnInterrupt | BlockOnInterrupt

record ('i, 'p) tool =
  tool_name :: string
  tool_aliases :: "string list"
  inputSchema :: "'i \<Rightarrow> string + 'p"
  tool_isConcurrencySafe :: "'p \<Rightarrow> bool option"
  tool_isReadOnly :: "'p \<Rightarrow> bool option"
  tool_isDestructive :: "('p \<Rightarrow> bool option) option"
  tool_interruptBehavior :: "interrupt_behavior option option"

record 'i tool_use =
  use_id :: string
  use_name :: string
  use_input :: 'i

definition toolMatchesName :: "('i, 'p) tool \<Rightarrow> string \<Rightarrow> bool" where
  "toolMatchesName t n \<longleftrightarrow> tool_name t = n \<or> n \<in> set (tool_aliases t)"

definition findToolByName :: "('i, 'p) tool list \<Rightarrow> string \<Rightarrow> ('i, 'p) tool option" where
  "findToolByName tools n = find (\<lambda>t. toolMatchesName t n) tools"

record execution_semantics =
  toolFound :: bool
  inputParsed :: bool
  isConcurrencySafe :: bool
  isReadOnly :: bool
  isDestructive :: bool
  inputError :: "string option"

definition safelyBoolean :: "bool option \<Rightarrow> bool" where
  "safelyBoolean r = (case r of None \<Rightarrow> False | Some b \<Rightarrow> b)"

definition getDsxuToolExecutionSemantics :: "('i, 'p) tool option \<Rightarrow> 'i \<Rightarrow> execution_semantics" where
  "getDsxuToolExecutionSemantics t i =
     (case t of
        None \<Rightarrow> \<lparr>toolFound = False, inputParsed = False, isConcurrencySafe = False, isReadOnly = False,
                  isDestructive = False, inputError = Some ''tool_not_found''\<rparr>
      | Some t \<Rightarrow>
          (case inputSchema t i of
             Inl e \<Rightarrow> \<lparr>toolFound = True, inputParsed = False, isConcurrencySafe = False, isReadOnly = False,
                        isDestructive = False, inputError = Some e\<rparr>
           | Inr d \<Rightarrow> \<lparr>toolFound = True, inputParsed = True,
                        isConcurrencySafe = safelyBoolean (tool_isConcurrencySafe t d),
                        isReadOnly = safelyBoolean (tool_isReadOnly t d),
                        isDestructive = safelyBoolean (case tool_isDestructive t of None \<Rightarrow> Some False | Some f \<Rightarrow> f d),
                        inputError = None\<rparr>))"

definition safe_use :: "('i, 'p) tool list \<Rightarrow> 'i tool_use \<Rightarrow> bool" where
  "safe_use tools u \<longleftrightarrow>
     isConcurrencySafe (getDsxuToolExecutionSemantics (findToolByName tools (use_name u)) (use_input u))"

section \<open>Batches\<close>

type_synonym 'i batch = "bool \<times> 'i tool_use list"

definition partition_step :: "('i, 'p) tool list \<Rightarrow> 'i batch list \<Rightarrow> 'i tool_use \<Rightarrow> 'i batch list" where
  "partition_step tools acc u =
     (let safe = safe_use tools u in
      if safe \<and> acc \<noteq> [] \<and> fst (last acc)
      then butlast acc @ [(fst (last acc), snd (last acc) @ [u])]
      else acc @ [(safe, [u])])"

definition partitionToolCalls :: "('i, 'p) tool list \<Rightarrow> 'i tool_use list \<Rightarrow> 'i batch list" where
  "partitionToolCalls tools uses = foldl (partition_step tools) [] uses"

section \<open>Running generators concurrently\<close>

text \<open>
  The state of \<open>all\<close>: the generators that wait, those with an outstanding promise, and what was
  yielded.  A generator carries a tag.
\<close>

record ('t, 'v) pool =
  waiting :: "('t \<times> 'v list) list"
  running :: "('t \<times> 'v list) list"
  yielded :: "('t \<times> 'v) list"

definition all_start :: "int \<Rightarrow> ('t \<times> 'v list) list \<Rightarrow> ('t, 'v) pool" where
  "all_start cap gs = \<lparr>waiting = drop (nat cap) gs, running = take (nat cap) gs, yielded = []\<rparr>"

text \<open>The promise of the \<open>i\<close>-th running generator wins the race.\<close>

definition all_pick :: "nat \<Rightarrow> ('t, 'v) pool \<Rightarrow> ('t, 'v) pool" where
  "all_pick i p =
     (let (t, vs) = running p ! i; rest = take i (running p) @ drop (Suc i) (running p) in
      case vs of
        v # vs' \<Rightarrow> p\<lparr>running := rest @ [(t, vs')], yielded := yielded p @ [(t, v)]\<rparr>
      | [] \<Rightarrow> (case waiting p of
                 [] \<Rightarrow> p\<lparr>running := rest\<rparr>
               | g # gs \<Rightarrow> p\<lparr>waiting := gs, running := rest @ [g]\<rparr>))"

text \<open>A schedule picks among the running generators until none is left.\<close>

fun all_run :: "nat list \<Rightarrow> ('t, 'v) pool \<Rightarrow> ('t, 'v) pool option" where
  "all_run sched p =
     (if running p = [] then Some p
      else (case sched of [] \<Rightarrow> None | i # sched' \<Rightarrow>
              if i < length (running p) then all_run sched' (all_pick i p) else None))"

declare all_run.simps [simp del]

definition getMaxToolUseConcurrency :: "string option \<Rightarrow> string option \<Rightarrow> int" where
  "getMaxToolUseConcurrency env archivedEnv =
     (let read = (\<lambda>e. case parseInt10 (case e of None \<Rightarrow> [] | Some s \<Rightarrow> s) of None \<Rightarrow> 0 | Some n \<Rightarrow> n)
      in if read env \<noteq> 0 then read env else if read archivedEnv \<noteq> 0 then read archivedEnv else 10)"

section \<open>Running the tools of a turn\<close>

text \<open>
  What the generator of a tool call does: it marks the call as in progress, yields updates with a
  message and a change of the context, and marks the call as complete.
\<close>

datatype ('m, 'c) action = Mark string | Emit "'m option" "(string \<times> ('c \<Rightarrow> 'c)) option" | Unmark string

record ('i, 'm, 'c) runner =
  runToolUse :: "'i tool_use \<Rightarrow> 'c \<Rightarrow> ('m option \<times> (string \<times> ('c \<Rightarrow> 'c)) option) list"
  batchGate :: "'c \<Rightarrow> 'i tool_use list \<Rightarrow> 'i tool_use \<Rightarrow> 'm option"

definition tool_generator ::
  "('i, 'm, 'c) runner \<Rightarrow> 'i tool_use list \<Rightarrow> 'c \<Rightarrow> 'i tool_use \<Rightarrow> ('m, 'c) action list" where
  "tool_generator r all_uses ctx u =
     (case batchGate r ctx all_uses u of
        Some message \<Rightarrow> [Emit (Some message) None]
      | None \<Rightarrow> Mark (use_id u) # map (\<lambda>(m, f). Emit m f) (runToolUse r u ctx) @ [Unmark (use_id u)])"

record ('m, 'c) turn =
  turn_context :: 'c
  inProgress :: "string set"
  updates :: "('m option \<times> 'c) list"

definition mark :: "('m, 'c) action \<Rightarrow> string set \<Rightarrow> string set" where
  "mark a ids = (case a of Mark i \<Rightarrow> insert i ids | Unmark i \<Rightarrow> ids - {i} | Emit _ _ \<Rightarrow> ids)"

text \<open>One action of \<open>runToolsSerially\<close>: a change of the context takes effect at once.\<close>

definition serial_action :: "('m, 'c) turn \<Rightarrow> ('m, 'c) action \<Rightarrow> ('m, 'c) turn" where
  "serial_action s a =
     (case a of
        Emit m f \<Rightarrow>
          (let c = (case f of None \<Rightarrow> turn_context s | Some (_, g) \<Rightarrow> g (turn_context s))
           in s\<lparr>turn_context := c, updates := updates s @ [(m, c)]\<rparr>)
      | _ \<Rightarrow> s\<lparr>inProgress := mark a (inProgress s)\<rparr>)"

definition runToolsSerially ::
  "('i, 'm, 'c) runner \<Rightarrow> 'i tool_use list \<Rightarrow> 'i tool_use list \<Rightarrow> ('m, 'c) turn \<Rightarrow> ('m, 'c) turn" where
  "runToolsSerially r all_uses uses s =
     foldl (\<lambda>s u. foldl serial_action s (tool_generator r all_uses (turn_context s) u)) s uses"

text \<open>
  The concurrent batch: every generator sees the context of the batch's start; the changes are
  queued by the id they carry and applied afterwards in the order of the blocks.
\<close>

definition queued_modifiers :: "('t \<times> ('m, 'c) action) list \<Rightarrow> string \<Rightarrow> ('c \<Rightarrow> 'c) list" where
  "queued_modifiers acts i =
     concat (map (\<lambda>(_, a). case a of Emit _ (Some (j, f)) \<Rightarrow> if j = i then [f] else [] | _ \<Rightarrow> []) acts)"

definition emitted_messages :: "('t \<times> ('m, 'c) action) list \<Rightarrow> 'm option list" where
  "emitted_messages acts = concat (map (\<lambda>(_, a). case a of Emit m _ \<Rightarrow> [m] | _ \<Rightarrow> []) acts)"

definition apply_queued :: "('t \<times> ('m, 'c) action) list \<Rightarrow> 'i tool_use list \<Rightarrow> 'c \<Rightarrow> 'c" where
  "apply_queued acts uses ctx = foldl (\<lambda>c u. foldl (\<lambda>c f. f c) c (queued_modifiers acts (use_id u))) ctx uses"

definition concurrent_pool ::
  "('i, 'm, 'c) runner \<Rightarrow> int \<Rightarrow> 'i tool_use list \<Rightarrow> 'i tool_use list \<Rightarrow> 'c \<Rightarrow> (nat, ('m, 'c) action) pool" where
  "concurrent_pool r cap all_uses uses ctx =
     all_start cap (map (\<lambda>k. (k, tool_generator r all_uses ctx (uses ! k))) [0..<length uses])"

definition runToolsConcurrently ::
  "('i, 'm, 'c) runner \<Rightarrow> int \<Rightarrow> nat list \<Rightarrow> 'i tool_use list \<Rightarrow> 'i tool_use list \<Rightarrow> ('m, 'c) turn \<Rightarrow>
     ('m, 'c) turn option" where
  "runToolsConcurrently r cap sched all_uses uses s =
     (case all_run sched (concurrent_pool r cap all_uses uses (turn_context s)) of
        None \<Rightarrow> None
      | Some p \<Rightarrow>
          (let acts = yielded p; c = apply_queued acts uses (turn_context s)
           in Some \<lparr>turn_context = c, inProgress = fold mark (map snd acts) (inProgress s),
                    updates = updates s @ map (\<lambda>m. (m, turn_context s)) (emitted_messages acts) @ [(None, c)]\<rparr>))"

text \<open>\<open>runTools\<close>: one schedule for each batch.\<close>

fun run_batches ::
  "('i, 'm, 'c) runner \<Rightarrow> int \<Rightarrow> nat list list \<Rightarrow> 'i tool_use list \<Rightarrow> 'i batch list \<Rightarrow> ('m, 'c) turn \<Rightarrow>
     ('m, 'c) turn option" where
  "run_batches r cap scheds all_uses [] s = Some s"
| "run_batches r cap [] all_uses (b # bs) s = None"
| "run_batches r cap (sched # scheds) all_uses ((safe, uses) # bs) s =
     (case (if safe then runToolsConcurrently r cap sched all_uses uses s
            else Some (runToolsSerially r all_uses uses s)) of
        None \<Rightarrow> None
      | Some s' \<Rightarrow> run_batches r cap scheds all_uses bs s')"

definition runTools ::
  "('i, 'm, 'c) runner \<Rightarrow> int \<Rightarrow> nat list list \<Rightarrow> ('i, 'p) tool list \<Rightarrow> 'i tool_use list \<Rightarrow> ('m, 'c) turn \<Rightarrow>
     ('m, 'c) turn option" where
  "runTools r cap scheds tools uses s = run_batches r cap scheds uses (partitionToolCalls tools uses) s"

end
