(* ===== verification/Tool_Batches.thy ===== *)
theory Tool_Batches
  imports Tool_Orchestration "HOL-Library.Multiset"
begin

text \<open>
  Properties of the orchestration of tool calls: the batches, the pool of concurrent generators, and
  the equivalence of a concurrent turn with a serial one.
\<close>

section \<open>Batches\<close>

definition batch_wf :: "('i, 'p) tool list \<Rightarrow> 'i batch \<Rightarrow> bool" where
  "batch_wf tools b \<longleftrightarrow> snd b \<noteq> [] \<and> list_all (\<lambda>u. safe_use tools u = fst b) (snd b) \<and> (fst b \<or> length (snd b) = 1)"

definition merged :: "'i batch list \<Rightarrow> bool" where
  "merged bs \<longleftrightarrow> successively (\<lambda>b c. \<not> (fst b \<and> fst c)) bs"

lemma partition_snoc:
  "partitionToolCalls tools (uses @ [u]) = partition_step tools (partitionToolCalls tools uses) u"
  by (simp add: partitionToolCalls_def)

lemma partition_spec:
  "concat (map snd (partitionToolCalls tools uses)) = uses \<and>
   list_all (batch_wf tools) (partitionToolCalls tools uses) \<and> merged (partitionToolCalls tools uses)"
proof (induction uses rule: rev_induct)
  case (snoc u uses)
  let ?acc = "partitionToolCalls tools uses"
  show ?case
  proof (cases "?acc" rule: rev_cases)
    case Nil
    then have "uses = []" using snoc by simp
    then show ?thesis by (simp add: partitionToolCalls_def partition_step_def batch_wf_def merged_def)
  next
    case acc: (snoc bs b)
    show ?thesis
    proof (cases "safe_use tools u \<and> fst b")
      case True
      then show ?thesis using snoc acc
        by (auto simp: partition_snoc partition_step_def batch_wf_def merged_def successively_append_iff)
    next
      case False
      then show ?thesis using snoc acc
        by (auto simp: partition_snoc partition_step_def Let_def batch_wf_def merged_def successively_append_iff)
    qed
  qed
qed (simp add: partitionToolCalls_def merged_def)

section \<open>The pool\<close>

definition yielded_by :: "('t, 'v) pool \<Rightarrow> 't \<Rightarrow> 'v list" where
  "yielded_by p t = map snd (filter (\<lambda>x. fst x = t) (yielded p))"

definition outstanding :: "('t, 'v) pool \<Rightarrow> ('t \<times> 'v list) list" where
  "outstanding p = running p @ waiting p"

definition left_of :: "('t \<times> 'v list) list \<Rightarrow> 't \<Rightarrow> 'v list" where
  "left_of gs t = (case find (\<lambda>g. fst g = t) gs of None \<Rightarrow> [] | Some g \<Rightarrow> snd g)"

lemma left_of_distinct: "distinct (map fst gs) \<Longrightarrow> (t, vs) \<in> set gs \<Longrightarrow> left_of gs t = vs"
  by (induction gs) (auto simp: left_of_def rev_image_eqI)

lemma left_of_absent: "t \<notin> fst ` set gs \<Longrightarrow> left_of gs t = []"
  by (induction gs) (auto simp: left_of_def)

lemma left_of_SomeE:
  assumes "v \<in> set (left_of gs t)"
  obtains vs where "(t, vs) \<in> set gs" "v \<in> set vs"
  using assms that by (cases "find (\<lambda>g. fst g = t) gs") (auto simp: left_of_def dest: find_SomeD)

text \<open>
  Each generator's yields and rest make up the generator, no more than the cap run at a time, and
  the pool keeps its generators busy.
\<close>

definition pool_inv :: "nat \<Rightarrow> ('t \<times> 'v list) list \<Rightarrow> ('t, 'v) pool \<Rightarrow> bool" where
  "pool_inv cap gs p \<longleftrightarrow>
     distinct (map fst (outstanding p)) \<and> length (running p) \<le> cap \<and>
     (length (running p) = cap \<or> waiting p = []) \<and>
     (\<forall>t. yielded_by p t @ left_of (outstanding p) t = left_of gs t) \<and>
     mset (map snd (yielded p)) + mset (concat (map snd (outstanding p))) = mset (concat (map snd gs))"

definition pool_work :: "('t, 'v) pool \<Rightarrow> nat" where
  "pool_work p = sum_list (map (\<lambda>g. Suc (length (snd g))) (outstanding p))"

lemma pool_inv_start: "distinct (map fst gs) \<Longrightarrow> pool_inv (nat cap) gs (all_start cap gs)"
  by (auto simp: pool_inv_def all_start_def outstanding_def yielded_by_def)

text \<open>A pick takes the generator apart, in one of three ways.\<close>

lemma pick_cases:
  assumes "i < length (running p)"
  obtains (one_value) us t v vs ws where "running p = us @ (t, v # vs) # ws"
      "all_pick i p = p\<lparr>running := us @ ws @ [(t, vs)], yielded := yielded p @ [(t, v)]\<rparr>"
    | (exhausted) us t ws where "running p = us @ (t, []) # ws" "waiting p = []" "all_pick i p = p\<lparr>running := us @ ws\<rparr>"
    | (next_one) us t ws g gs where "running p = us @ (t, []) # ws" "waiting p = g # gs"
      "all_pick i p = p\<lparr>waiting := gs, running := us @ ws @ [g]\<rparr>"
proof -
  obtain t vs where g: "running p ! i = (t, vs)" by (cases "running p ! i")
  have s: "running p = take i (running p) @ (t, vs) # drop (Suc i) (running p)"
    using id_take_nth_drop [OF assms] g by simp
  show thesis
  proof (cases vs)
    case (Cons v vs')
    then show thesis using one_value [of "take i (running p)" t v vs' "drop (Suc i) (running p)"] s g
      by (simp add: all_pick_def)
  next
    case Nil
    show thesis
    proof (cases "waiting p")
      case none: Nil
      then show thesis using exhausted [of "take i (running p)" t "drop (Suc i) (running p)"] s g Nil none
        by (simp add: all_pick_def)
    next
      case (Cons h hs)
      then show thesis using next_one [of "take i (running p)" t "drop (Suc i) (running p)" h hs] s g Nil
        by (simp add: all_pick_def)
    qed
  qed
qed

lemma yielded_by_snoc:
  "yielded_by (p\<lparr>running := r, yielded := yielded p @ [(t, v)]\<rparr>) t' = yielded_by p t' @ (if t' = t then [v] else [])"
  "yielded_by (p\<lparr>running := r\<rparr>) t' = yielded_by p t'"
  "yielded_by (p\<lparr>waiting := w\<rparr>) t' = yielded_by p t'"
  by (auto simp: yielded_by_def)

lemma left_of_append: "left_of (gs @ hs) t = (if t \<in> fst ` set gs then left_of gs t else left_of hs t)"
  by (induction gs) (auto simp: left_of_def)

lemma left_of_Cons: "left_of (g # gs) t = (if fst g = t then snd g else left_of gs t)"
  by (simp add: left_of_def)

lemma left_of_Nil: "left_of [] t = []" by (simp add: left_of_def)

lemma pool_inv_pick:
  assumes "pool_inv cap gs p" "i < length (running p)"
  shows "pool_inv cap gs (all_pick i p) \<and> pool_work (all_pick i p) < pool_work p"
  using assms(2)
proof (cases rule: pick_cases)
  case (one_value us t v vs ws)
  have d: "t \<notin> fst ` set us" "t \<notin> fst ` set ws" "t \<notin> fst ` set (waiting p)"
    using assms(1) one_value(1) by (auto simp: pool_inv_def outstanding_def)
  have "yielded_by (all_pick i p) t' @ left_of (outstanding (all_pick i p)) t' =
      yielded_by p t' @ left_of (outstanding p) t'" for t'
    using d by (auto simp: one_value outstanding_def yielded_by_snoc left_of_append left_of_Cons left_of_absent)
  then show ?thesis using assms(1) one_value d
    by (auto simp: pool_inv_def pool_work_def outstanding_def ac_simps)
next
  case (exhausted us t ws)
  have d: "t \<notin> fst ` set us" "t \<notin> fst ` set ws" using assms(1) exhausted(1) by (auto simp: pool_inv_def outstanding_def)
  have "yielded_by (all_pick i p) t' @ left_of (outstanding (all_pick i p)) t' =
      yielded_by p t' @ left_of (outstanding p) t'" for t'
    using d by (auto simp: exhausted outstanding_def yielded_by_snoc left_of_append left_of_Cons left_of_absent left_of_Nil)
  then show ?thesis using assms(1) exhausted d by (auto simp: pool_inv_def pool_work_def outstanding_def ac_simps)
next
  case (next_one us t ws g gs')
  have d: "t \<notin> fst ` set us" "t \<notin> fst ` set ws" "t \<noteq> fst g" "t \<notin> fst ` set gs'"
    using assms(1) next_one(1,2) by (auto simp: pool_inv_def outstanding_def)
  have "yielded_by (all_pick i p) t' @ left_of (outstanding (all_pick i p)) t' =
      yielded_by p t' @ left_of (outstanding p) t'" for t'
    using d by (auto simp: next_one outstanding_def yielded_by_snoc left_of_append left_of_Cons left_of_absent left_of_Nil)
  then show ?thesis using assms(1) next_one d by (auto simp: pool_inv_def pool_work_def outstanding_def ac_simps)
qed

lemma all_run_inv: "all_run sched p = Some q \<Longrightarrow> pool_inv cap gs p \<Longrightarrow> pool_inv cap gs q \<and> running q = []"
proof (induction sched arbitrary: p)
  case (Cons i sched)
  then show ?case
    by (subst (asm) (2) all_run.simps) (auto split: if_splits dest: pool_inv_pick)
qed (auto simp: all_run.simps split: if_splits)

text \<open>What a finished run has yielded.\<close>

lemma all_complete:
  assumes "all_run sched (all_start cap gs) = Some p" "distinct (map fst gs)" "1 \<le> cap"
  shows "yielded_by p t = left_of gs t" "mset (map snd (yielded p)) = mset (concat (map snd gs))" "waiting p = []"
proof -
  have inv: "pool_inv (nat cap) gs p" "running p = []"
    using all_run_inv [OF assms(1) pool_inv_start [OF assms(2)]] by auto
  then show w: "waiting p = []" using assms(3) by (auto simp: pool_inv_def)
  show "yielded_by p t = left_of gs t" "mset (map snd (yielded p)) = mset (concat (map snd gs))"
    using inv w by (auto simp: pool_inv_def outstanding_def left_of_Nil)
qed

text \<open>Whatever generator wins each race, the run ends: here the first one always does.\<close>

lemma all_terminates: "pool_inv cap gs p \<Longrightarrow> \<exists>sched q. all_run sched p = Some q"
proof (induction "pool_work p" arbitrary: p rule: less_induct)
  case less
  show ?case
  proof (cases "running p = []")
    case True
    then have "all_run [] p = Some p" by (simp add: all_run.simps)
    then show ?thesis by blast
  next
    case False
    then have "pool_inv cap gs (all_pick 0 p)" "pool_work (all_pick 0 p) < pool_work p"
      using pool_inv_pick [OF less.prems, of 0] by auto
    then obtain sched q where "all_run sched (all_pick 0 p) = Some q" using less.hyps by blast
    then have "all_run (0 # sched) p = Some q" using False by (subst all_run.simps) simp
    then show ?thesis by blast
  qed
qed

text \<open>With a negative cap nothing runs: the batch ends at once and every call in it is lost.\<close>

lemma negative_cap_runs_nothing:
  assumes "cap < 0"
  shows "all_run sched (all_start cap gs) = Some (all_start cap gs) \<and> yielded (all_start cap gs) = []"
  using assms by (subst all_run.simps) (simp add: all_start_def)

lemma negative_cap_from_environment: "getMaxToolUseConcurrency (Some ''-1'') None = -1"
  by code_simp

lemma filter_restrict: "(\<And>x. x \<in> set xs \<Longrightarrow> P x \<Longrightarrow> Q x) \<Longrightarrow> filter P xs = filter P (filter Q xs)"
  by (induction xs) auto

text \<open>What only one generator can yield comes in the order of that generator.\<close>

lemma filter_yielded:
  assumes "all_run sched (all_start cap gs) = Some p" "distinct (map fst gs)" "1 \<le> cap" "(t, vs) \<in> set gs"
    and "\<And>t' vs' v. (t', vs') \<in> set gs \<Longrightarrow> t' \<noteq> t \<Longrightarrow> v \<in> set vs' \<Longrightarrow> \<not> P v"
  shows "filter P (map snd (yielded p)) = filter P vs"
proof -
  have "\<not> P (snd x)" if "x \<in> set (yielded p)" "fst x \<noteq> t" for x
  proof -
    have "snd x \<in> set (yielded_by p (fst x))" using that(1) by (force simp: yielded_by_def)
    then have "snd x \<in> set (left_of gs (fst x))" using all_complete(1) [OF assms(1-3)] by simp
    then obtain vs' where "(fst x, vs') \<in> set gs" "snd x \<in> set vs'" by (rule left_of_SomeE)
    then show ?thesis using assms(5) that(2) by blast
  qed
  then have "filter (P \<circ> snd) (yielded p) = filter (P \<circ> snd) (filter (\<lambda>x. fst x = t) (yielded p))"
    by (intro filter_restrict) auto
  then have "filter P (map snd (yielded p)) = filter P (yielded_by p t)" by (simp add: filter_map yielded_by_def)
  then show ?thesis using all_complete(1) [OF assms(1-3)] left_of_distinct [OF assms(2,4)] by simp
qed

end
