(* ===== verification/Tool_Turns.thy ===== *)
theory Tool_Turns
  imports Tool_Batches
begin

text \<open>
  A turn that runs its safe batches concurrently has the effect of one that runs every call
  serially, whatever the schedule, and every turn can be finished.
\<close>

section \<open>What a list of actions does\<close>

definition mods :: "('m, 'c) action list \<Rightarrow> ('c \<Rightarrow> 'c) list" where
  "mods acts = concat (map (\<lambda>a. case a of Emit _ (Some (_, f)) \<Rightarrow> [f] | _ \<Rightarrow> []) acts)"

definition msgs :: "('m, 'c) action list \<Rightarrow> 'm option list" where
  "msgs acts = concat (map (\<lambda>a. case a of Emit m _ \<Rightarrow> [m] | _ \<Rightarrow> []) acts)"

definition carries :: "string \<Rightarrow> ('m, 'c) action \<Rightarrow> bool" where
  "carries i a \<longleftrightarrow> (case a of Emit _ (Some (j, _)) \<Rightarrow> j = i | _ \<Rightarrow> False)"

definition concerns :: "string \<Rightarrow> ('m, 'c) action \<Rightarrow> bool" where
  "concerns i a \<longleftrightarrow> a = Mark i \<or> a = Unmark i"

definition said :: "('m, 'c) turn \<Rightarrow> 'm option list" where
  "said s = filter (\<lambda>m. m \<noteq> None) (map fst (updates s))"

definition same_turn :: "('m, 'c) turn \<Rightarrow> ('m, 'c) turn \<Rightarrow> bool" where
  "same_turn s t \<longleftrightarrow> turn_context s = turn_context t \<and> inProgress s = inProgress t \<and> mset (said s) = mset (said t)"

abbreviation apply_mods :: "('c \<Rightarrow> 'c) list \<Rightarrow> 'c \<Rightarrow> 'c" where
  "apply_mods fs c \<equiv> foldl (\<lambda>c f. f c) c fs"

lemma mods_Cons: "mods (a # acts) = mods [a] @ mods acts"
  by (simp add: mods_def)

lemma msgs_Cons: "msgs (a # acts) = msgs [a] @ msgs acts"
  by (simp add: msgs_def)

lemma serial_action_one:
  "turn_context (serial_action s a) = apply_mods (mods [a]) (turn_context s)"
  "inProgress (serial_action s a) = mark a (inProgress s)"
  "said (serial_action s a) = said s @ filter (\<lambda>m. m \<noteq> None) (msgs [a])"
  by (cases a; simp add: serial_action_def mods_def msgs_def mark_def said_def Let_def split: option.split)+

lemma serial_actions:
  "turn_context (foldl serial_action s acts) = apply_mods (mods acts) (turn_context s)"
  "inProgress (foldl serial_action s acts) = fold mark acts (inProgress s)"
  "said (foldl serial_action s acts) = said s @ filter (\<lambda>m. m \<noteq> None) (msgs acts)"
proof (induction acts arbitrary: s)
  case (Cons a acts)
  { case 1 show ?case by (simp add: Cons.IH serial_action_one mods_Cons [of a acts]) }
  { case 2 show ?case by (simp add: Cons.IH serial_action_one) }
  { case 3 show ?case by (simp add: Cons.IH serial_action_one msgs_Cons [of a acts]) }
qed (simp_all add: mods_def msgs_def)

lemma queued_modifiers_mods: "queued_modifiers acts i = mods (filter (carries i) (map snd acts))"
  by (induction acts) (auto simp: queued_modifiers_def mods_def carries_def split: action.splits option.splits)

lemma emitted_messages_msgs: "emitted_messages acts = msgs (map snd acts)"
  by (induction acts) (auto simp: emitted_messages_def msgs_def)

lemma mark_one: "i \<in> mark a S \<longleftrightarrow> a = Mark i \<or> (a \<noteq> Unmark i \<and> i \<in> S)"
  by (cases a) (auto simp: mark_def)

lemma mark_cong: "(i \<in> S \<longleftrightarrow> i \<in> T) \<Longrightarrow> i \<in> fold mark acts S \<longleftrightarrow> i \<in> fold mark acts T"
  by (induction acts arbitrary: S T) (simp_all add: mark_one)

lemma mark_iff: "i \<in> fold mark acts S \<longleftrightarrow> i \<in> fold mark (filter (concerns i) acts) S"
proof (induction acts arbitrary: S)
  case (Cons a acts)
  show ?case
  proof (cases "concerns i a")
    case True
    then show ?thesis using Cons.IH [of "mark a S"] by simp
  next
    case False
    then have "i \<in> mark a S \<longleftrightarrow> i \<in> S" by (auto simp: concerns_def mark_one)
    then show ?thesis using Cons.IH [of "mark a S"] mark_cong [of i "mark a S" S "filter (concerns i) acts"] False by simp
  qed
qed simp

lemma mset_msgs: "mset acts = mset acts' \<Longrightarrow> mset (msgs acts) = mset (msgs acts')"
proof -
  have "mset (msgs acts) = (\<Sum>a\<in>#mset acts. mset (case a of Emit m _ \<Rightarrow> [m] | _ \<Rightarrow> []))" for acts :: "('a, 'b) action list"
    by (induction acts) (auto simp: msgs_def)
  then show "mset acts = mset acts' \<Longrightarrow> mset (msgs acts) = mset (msgs acts')" by metis
qed

section \<open>The generators of a batch\<close>

text \<open>The contract of \<open>runToolUse\<close>: a change of the context carries the id of its own call.\<close>

definition own_ids :: "('i, 'm, 'c) runner \<Rightarrow> bool" where
  "own_ids r \<longleftrightarrow> (\<forall>u c m j f. (m, Some (j, f)) \<in> set (runToolUse r u c) \<longrightarrow> j = use_id u)"

text \<open>
  A call that only reads: what it yields is determined by a part of the context, the view, and its changes
  of the context leave that part alone.
\<close>

definition reads_only :: "('c \<Rightarrow> 'v) \<Rightarrow> ('i, 'm, 'c) runner \<Rightarrow> 'i tool_use list \<Rightarrow> 'i tool_use \<Rightarrow> bool" where
  "reads_only view r all_uses u \<longleftrightarrow>
     (\<forall>c c'. view c = view c' \<longrightarrow> tool_generator r all_uses c u = tool_generator r all_uses c' u) \<and>
     (\<forall>c c' m j f. Emit m (Some (j, f)) \<in> set (tool_generator r all_uses c u) \<longrightarrow> view (f c') = view c')"

lemma own_idsD: "own_ids r \<Longrightarrow> (m, Some (j, f)) \<in> set (runToolUse r u c) \<Longrightarrow> j = use_id u"
  unfolding own_ids_def by blast

lemma generator_ids:
  assumes "a \<in> set (tool_generator r all_uses c u)"
  shows "concerns i a \<Longrightarrow> i = use_id u" "own_ids r \<Longrightarrow> carries i a \<Longrightarrow> i = use_id u"
proof -
  show "concerns i a \<Longrightarrow> i = use_id u"
    using assms by (auto simp: tool_generator_def concerns_def split: option.splits prod.splits)
  assume own: "own_ids r" and "carries i a"
  then obtain m f where a: "a = Emit m (Some (i, f))" by (auto simp: carries_def split: action.splits option.splits)
  then have "(m, Some (i, f)) \<in> set (runToolUse r u c)"
    using assms by (auto simp: tool_generator_def split: option.splits prod.splits)
  then show "i = use_id u" by (rule own_idsD [OF own])
qed

lemma generator_mods:
  assumes "own_ids r"
  shows "mods (filter (carries (use_id u)) (tool_generator r all_uses c u)) = mods (tool_generator r all_uses c u)"
proof -
  have "mods (filter (carries i) acts) = mods acts"
    if "\<And>a j. a \<in> set acts \<Longrightarrow> carries j a \<Longrightarrow> j = i" for i and acts :: "('b, 'c) action list"
    using that
  proof (induction acts)
    case (Cons a acts)
    have "carries i a \<or> (\<forall>j. \<not> carries j a)" using Cons.prems [of a] by auto
    then show ?case using Cons by (auto simp: mods_def carries_def split: action.splits option.splits)
  qed simp
  then show ?thesis using generator_ids(2) [OF _ assms] by blast
qed

lemma filter_concat_one:
  assumes "u \<in> set us" "distinct (map use_id us)" "\<And>w a. w \<in> set us \<Longrightarrow> a \<in> set (g w) \<Longrightarrow> P a \<Longrightarrow> use_id w = use_id u"
  shows "filter P (concat (map g us)) = filter P (g u)"
proof -
  obtain xs ys where us: "us = xs @ u # ys" using assms(1) by (meson split_list)
  have "filter P (concat (map g ws)) = []" if "set ws \<subseteq> set us" "use_id u \<notin> use_id ` set ws" for ws
  proof -
    have "\<not> P a" if "w \<in> set ws" "a \<in> set (g w)" for w a
      using assms(3) [of w a] that \<open>set ws \<subseteq> set us\<close> \<open>use_id u \<notin> use_id ` set ws\<close> by (metis image_eqI subsetD)
    then show ?thesis by (auto simp: filter_empty_conv)
  qed
  note none = this
  have "filter P (concat (map g xs)) = []" "filter P (concat (map g ys)) = []"
    using assms(2) us by (auto intro!: none)
  then show ?thesis using us by simp
qed

text \<open>
  A schedule interleaves the generators; a selection that at most one of them satisfies sees the
  same as if they had run one after the other.
\<close>

lemma batch_filter:
  assumes p: "all_run sched (concurrent_pool r cap all_uses uses c) = Some p" "1 \<le> cap" "distinct (map use_id uses)"
    and P: "\<And>u a. u \<in> set uses \<Longrightarrow> a \<in> set (tool_generator r all_uses c u) \<Longrightarrow> P a \<Longrightarrow> use_id u = i"
  shows "filter P (map snd (yielded p)) = filter P (concat (map (tool_generator r all_uses c) uses))"
    "mset (map snd (yielded p)) = mset (concat (map (tool_generator r all_uses c) uses))"
proof -
  let ?g = "tool_generator r all_uses c"
  let ?gs = "map (\<lambda>k. (k, ?g (uses ! k))) [0..<length uses]"
  note run = p(1) [unfolded concurrent_pool_def]
  have d: "distinct (map fst ?gs)" by (simp add: comp_def)
  have "map snd ?gs = map ?g uses" by (rule nth_equalityI) simp_all
  then have all: "concat (map snd ?gs) = concat (map ?g uses)" by simp
  then show m: "mset (map snd (yielded p)) = mset (concat (map ?g uses))"
    using all_complete(2) [OF run d p(2)] by simp
  show "filter P (map snd (yielded p)) = filter P (concat (map ?g uses))"
  proof (cases "\<exists>u\<in>set uses. use_id u = i")
    case True
    then obtain k where k: "k < length uses" "use_id (uses ! k) = i" by (auto simp: in_set_conv_nth)
    have "filter P (map snd (yielded p)) = filter P (?g (uses ! k))"
    proof (rule filter_yielded [OF run d p(2)])
      show "(k, ?g (uses ! k)) \<in> set ?gs" using k by simp
      fix t vs v assume t: "(t, vs) \<in> set ?gs" "t \<noteq> k" "v \<in> set vs"
      then have "t < length uses" "vs = ?g (uses ! t)" by auto
      moreover have "use_id (uses ! t) \<noteq> i" using calculation(1) t(2) k p(3) by (metis distinct_map nth_eq_iff_index_eq inj_on_contraD nth_mem)
      ultimately show "\<not> P v" using P [of "uses ! t" v] t(3) by auto
    qed
    also have "\<dots> = filter P (concat (map ?g uses))"
      using filter_concat_one [of "uses ! k" uses ?g P] k p(3) P by simp
    finally show ?thesis .
  next
    case False
    then have "filter P (concat (map ?g uses)) = []" using P by (fastforce simp: filter_empty_conv)
    moreover have "set (map snd (yielded p)) = set (concat (map ?g uses))" using mset_eq_setD [OF m] .
    ultimately show ?thesis by (metis filter_empty_conv)
  qed
qed

section \<open>A concurrent batch is like a serial one\<close>

lemma mods_view:
  assumes "\<And>m j f c. Emit m (Some (j, f)) \<in> set acts \<Longrightarrow> view (f c) = view c"
  shows "view (apply_mods (mods acts) c) = view c"
  using assms
proof (induction acts arbitrary: c)
  case (Cons a acts)
  have IH: "view (apply_mods (mods acts) c) = view c" for c by (rule Cons.IH) (use Cons.prems in auto)
  show ?case
  proof (cases "\<exists>m j f. a = Emit m (Some (j, f))")
    case True
    then obtain m j f where a: "a = Emit m (Some (j, f))" by blast
    then have "view (f c) = view c" by (intro Cons.prems [of m j]) simp
    then show ?thesis using IH [of "f c"] a by (simp add: mods_def)
  next
    case False
    then have "mods (a # acts) = mods acts" by (cases a) (auto simp: mods_def split: option.splits)
    then show ?thesis using IH by simp
  qed
qed (simp add: mods_def)

lemma serial_batch:
  assumes "list_all (reads_only view r all_uses) uses" "view (turn_context s) = view c"
  shows "runToolsSerially r all_uses uses s = foldl serial_action s (concat (map (tool_generator r all_uses c) uses))"
  using assms
proof (induction uses arbitrary: s)
  case (Cons u uses)
  let ?g = "tool_generator r all_uses"
  have u: "reads_only view r all_uses u" using Cons.prems(1) by simp
  then have g: "?g (turn_context s) u = ?g c u" using Cons.prems(2) unfolding reads_only_def by blast
  have "view (turn_context (foldl serial_action s (?g c u))) = view (turn_context s)"
    unfolding serial_actions(1) by (rule mods_view) (use u in \<open>unfold reads_only_def, blast\<close>)
  then show ?case using Cons g by (simp add: runToolsSerially_def)
qed (simp add: runToolsSerially_def)

lemma apply_mods_concat:
  "apply_mods (mods (concat (map g us))) c = foldl (\<lambda>c u. apply_mods (mods (g u)) c) c us"
  by (induction us arbitrary: c) (simp_all add: mods_def)

lemma concurrent_batch:
  assumes run: "runToolsConcurrently r cap sched all_uses uses s = Some s'" and cap: "1 \<le> cap"
    and ids: "distinct (map use_id uses)" "own_ids r" and free: "list_all (reads_only view r all_uses) uses"
  shows "same_turn s' (runToolsSerially r all_uses uses s)"
proof -
  let ?c = "turn_context s" and ?g = "tool_generator r all_uses (turn_context s)"
  obtain p where p: "all_run sched (concurrent_pool r cap all_uses uses ?c) = Some p"
    using run by (auto simp: runToolsConcurrently_def split: option.splits)
  let ?acts = "yielded p"
  have s': "s' = \<lparr>turn_context = apply_queued ?acts uses ?c, inProgress = fold mark (map snd ?acts) (inProgress s),
      updates = updates s @ map (\<lambda>m. (m, ?c)) (emitted_messages ?acts) @ [(None, apply_queued ?acts uses ?c)]\<rparr>"
    using run p by (simp add: runToolsConcurrently_def Let_def)
  note filt = batch_filter(1) [OF p cap ids(1)] and all = batch_filter(2) [OF p cap ids(1)]
  have mods_u: "queued_modifiers ?acts (use_id u) = mods (?g u)" if "u \<in> set uses" for u
  proof -
    have "filter (carries (use_id u)) (map snd ?acts) = filter (carries (use_id u)) (concat (map ?g uses))"
      by (rule filt [where i = "use_id u"]) (use generator_ids(2) [OF _ ids(2)] in metis)
    also have "\<dots> = filter (carries (use_id u)) (?g u)"
      by (rule filter_concat_one [OF that ids(1)]) (use generator_ids(2) [OF _ ids(2)] in metis)
    finally show ?thesis using generator_mods [OF ids(2)] by (simp add: queued_modifiers_mods)
  qed
  have "apply_queued ?acts uses ?c = foldl (\<lambda>c u. apply_mods (mods (?g u)) c) ?c uses"
    unfolding apply_queued_def by (rule foldl_cong) (simp_all add: mods_u)
  then have ctx_eq: "turn_context s' = turn_context (runToolsSerially r all_uses uses s)"
    by (simp add: s' serial_batch [OF free refl] serial_actions(1) apply_mods_concat)
  have "filter (concerns i) (map snd ?acts) = filter (concerns i) (concat (map ?g uses))" for i
    by (rule filt [where i = i]) (use generator_ids(1) in metis)
  then have "i \<in> fold mark (map snd ?acts) (inProgress s) \<longleftrightarrow> i \<in> fold mark (concat (map ?g uses)) (inProgress s)" for i
    using mark_iff [of i "map snd ?acts"] mark_iff [of i "concat (map ?g uses)"] by metis
  then have marks: "inProgress s' = inProgress (runToolsSerially r all_uses uses s)"
    unfolding serial_batch [OF free refl] serial_actions(2) by (auto simp: s')
  have "mset (msgs (map snd ?acts)) = mset (msgs (concat (map ?g uses)))"
    by (rule mset_msgs) (rule all [where P = "\<lambda>_. False" and i = "[]"], simp)
  moreover have "said s' = said s @ filter (\<lambda>m. m \<noteq> None) (msgs (map snd ?acts))"
    by (simp add: s' said_def emitted_messages_msgs comp_def)
  ultimately have "mset (said s') = mset (said (runToolsSerially r all_uses uses s))"
    by (simp only: serial_batch [OF free refl] serial_actions(3) mset_append mset_filter)
  then show ?thesis using ctx_eq marks by (simp add: same_turn_def)
qed

section \<open>A turn\<close>

lemma same_turn_serial:
  "same_turn s t \<Longrightarrow> same_turn (runToolsSerially r all_uses uses s) (runToolsSerially r all_uses uses t)"
proof (induction uses arbitrary: s t)
  case (Cons u uses)
  have "same_turn (foldl serial_action s acts) (foldl serial_action t acts)" for acts
    using Cons.prems by (simp add: same_turn_def serial_actions)
  then have "same_turn (foldl serial_action s (tool_generator r all_uses (turn_context s) u))
      (foldl serial_action t (tool_generator r all_uses (turn_context t) u))"
    using Cons.prems by (simp add: same_turn_def)
  from Cons.IH [OF this] show ?case by (simp add: runToolsSerially_def)
qed (simp add: runToolsSerially_def)

lemma serial_append:
  "runToolsSerially r all_uses (us @ ws) s = runToolsSerially r all_uses ws (runToolsSerially r all_uses us s)"
  by (simp add: runToolsSerially_def)

text \<open>A batch that may run concurrently consists of calls that only read, under their own ids.\<close>

definition batch_safe :: "('c \<Rightarrow> 'v) \<Rightarrow> ('i, 'm, 'c) runner \<Rightarrow> 'i tool_use list \<Rightarrow> 'i batch \<Rightarrow> bool" where
  "batch_safe view r all_uses b \<longleftrightarrow>
     fst b \<longrightarrow> list_all (reads_only view r all_uses) (snd b) \<and> distinct (map use_id (snd b))"

lemma run_batches_serial:
  assumes "1 \<le> cap" "own_ids r"
    and "list_all (batch_safe view r all_uses) bs" "run_batches r cap scheds all_uses bs s = Some s'" "same_turn s t"
  shows "same_turn s' (runToolsSerially r all_uses (concat (map snd bs)) t)"
  using assms(3-5)
proof (induction bs arbitrary: scheds s t)
  case Nil
  then show ?case by (simp add: runToolsSerially_def)
next
  case (Cons b bs)
  obtain safe uses where b: "b = (safe, uses)" by (cases b)
  let ?step = "\<lambda>sched. if safe then runToolsConcurrently r cap sched all_uses uses s
      else Some (runToolsSerially r all_uses uses s)"
  obtain sched scheds' where sc: "scheds = sched # scheds'" using Cons.prems(2) b by (cases scheds) auto
  obtain s1 where s1: "?step sched = Some s1" "run_batches r cap scheds' all_uses bs s1 = Some s'"
    using Cons.prems(2) unfolding b sc by (cases "?step sched") auto
  have "same_turn s1 (runToolsSerially r all_uses uses s)"
  proof (cases safe)
    case True
    then show ?thesis using concurrent_batch [OF _ assms(1) _ assms(2), of sched all_uses uses s s1 view] s1(1) Cons.prems(1) b
      by (simp add: batch_safe_def)
  qed (use s1(1) in \<open>simp add: same_turn_def\<close>)
  moreover have "same_turn (runToolsSerially r all_uses uses s) (runToolsSerially r all_uses uses t)"
    by (rule same_turn_serial) (rule Cons.prems(3))
  ultimately have "same_turn s1 (runToolsSerially r all_uses uses t)" by (simp add: same_turn_def)
  then show ?case using Cons.IH [OF _ s1(2)] Cons.prems(1) b by (simp add: serial_append)
qed

lemma run_batches_finish: "\<exists>scheds s'. run_batches r cap scheds all_uses bs s = Some s'"
proof (induction bs arbitrary: s)
  case (Cons b bs)
  obtain safe uses where b: "b = (safe, uses)" by (cases b)
  have "\<exists>sched s1. (if safe then runToolsConcurrently r cap sched all_uses uses s else Some (runToolsSerially r all_uses uses s)) = Some s1"
  proof (cases safe)
    case True
    have "distinct (map fst (map (\<lambda>k. (k, tool_generator r all_uses (turn_context s) (uses ! k))) [0..<length uses]))"
      by (simp add: comp_def)
    then obtain sched p where "all_run sched (concurrent_pool r cap all_uses uses (turn_context s)) = Some p"
      using all_terminates [OF pool_inv_start] unfolding concurrent_pool_def by blast
    then show ?thesis using True by (intro exI [of _ sched]) (simp add: runToolsConcurrently_def Let_def)
  qed simp
  then obtain sched s1 where s1: "(if safe then runToolsConcurrently r cap sched all_uses uses s
      else Some (runToolsSerially r all_uses uses s)) = Some s1" by blast
  obtain scheds s' where "run_batches r cap scheds all_uses bs s1 = Some s'" using Cons.IH by blast
  then have "run_batches r cap (sched # scheds) all_uses (b # bs) s = Some s'" using s1 b by simp
  then show ?case by blast
qed (auto intro: exI [of _ "[]"])

lemma turn_batches_safe:
  assumes "\<And>u. u \<in> set uses \<Longrightarrow> safe_use tools u \<Longrightarrow> reads_only view r uses u" "distinct (map use_id uses)"
  shows "list_all (batch_safe view r uses) (partitionToolCalls tools uses)"
proof -
  note p = partition_spec [of tools uses]
  have "batch_safe view r uses b" if b: "b \<in> set (partitionToolCalls tools uses)" for b
  proof -
    obtain xs ys where "partitionToolCalls tools uses = xs @ b # ys" using b by (meson split_list)
    then have u: "uses = concat (map snd xs) @ snd b @ concat (map snd ys)" using p by (metis concat.simps(2) concat_append list.simps(9) map_append)
    then have "distinct (map use_id (snd b))" using assms(2) by (metis distinct_append map_append)
    moreover have "batch_wf tools b" using p b by (simp add: list_all_iff)
    moreover have "set (snd b) \<subseteq> set uses" using u by (metis Un_iff set_append subsetI)
    ultimately show ?thesis using assms(1) by (auto simp: batch_safe_def batch_wf_def list_all_iff)
  qed
  then show ?thesis by (simp add: list_all_iff)
qed

section \<open>Properties\<close>

text \<open>
  The batches of a turn are its calls, cut where they must be.  Put together they are the calls
  in their order; a batch is one unsafe call or a run of concurrency-safe ones, and no two
  neighbouring batches are both safe, so that nothing that may run together is separated.
\<close>

theorem batches_partition:
  "concat (map snd (partitionToolCalls tools uses)) = uses \<and>
   list_all (batch_wf tools) (partitionToolCalls tools uses) \<and>
   successively (\<lambda>b c. \<not> (fst b \<and> fst c)) (partitionToolCalls tools uses)"
  using partition_spec [of tools uses] by (simp add: merged_def)

text \<open>
  C8: Running tools concurrently is like running them one after the other.  Suppose that some part of the
  context determines what the concurrency-safe calls yield and that they do not change it, that changes of
  the context carry the id of their call, that the calls have distinct ids and that the cap is positive.
  Then a turn that ends, under whatever schedule, ends with the context and the calls marked as in progress
  of the turn that runs all calls serially, and with the same messages up to their order.
\<close>

theorem concurrent_turn_serializable:
  assumes "runTools r cap scheds tools uses s = Some s'" "1 \<le> cap" "own_ids r" "distinct (map use_id uses)"
    and "\<forall>u\<in>set uses. safe_use tools u \<longrightarrow> reads_only view r uses u"
  shows "turn_context s' = turn_context (runToolsSerially r uses uses s) \<and>
    inProgress s' = inProgress (runToolsSerially r uses uses s) \<and>
    mset (said s') = mset (said (runToolsSerially r uses uses s))"
proof -
  have "list_all (batch_safe view r uses) (partitionToolCalls tools uses)"
    using turn_batches_safe assms(4,5) by blast
  from run_batches_serial [OF assms(2,3) this assms(1) [unfolded runTools_def], of s]
  show ?thesis using partition_spec [of tools uses] by (simp add: same_turn_def)
qed

text \<open>A reading and a writing tool, to see the theorem at work on three calls.\<close>

definition sample_tools :: "(nat, nat) tool list" where
  "sample_tools =
     [\<lparr>tool_name = ''Read'', tool_aliases = [], inputSchema = Inr, tool_isConcurrencySafe = (\<lambda>_. Some True),
       tool_isReadOnly = (\<lambda>_. Some True), tool_isDestructive = None,
       tool_interruptBehavior = None\<rparr>,
      \<lparr>tool_name = ''Edit'', tool_aliases = [], inputSchema = Inr, tool_isConcurrencySafe = (\<lambda>_. Some False),
       tool_isReadOnly = (\<lambda>_. Some False), tool_isDestructive = None,
       tool_interruptBehavior = None\<rparr>]"

definition sample_uses :: "nat tool_use list" where
  "sample_uses = [\<lparr>use_id = ''a'', use_name = ''Read'', use_input = 1\<rparr>, \<lparr>use_id = ''b'', use_name = ''Read'', use_input = 2\<rparr>,
     \<lparr>use_id = ''c'', use_name = ''Edit'', use_input = 3\<rparr>]"

text \<open>The first number of the context is read by all and changed by the edit only.\<close>

definition sample_runner :: "(nat, nat, nat \<times> nat) runner" where
  "sample_runner = \<lparr>runToolUse = (\<lambda>u c. [(Some (fst c + use_input u), None),
       (None, Some (use_id u, \<lambda>c. (if use_name u = ''Edit'' then Suc (fst c) else fst c, 10 * snd c + use_input u)))]),
     batchGate = (\<lambda>_ _ _. None)\<rparr>"

definition sample_turn :: "(nat, nat \<times> nat) turn" where
  "sample_turn = \<lparr>turn_context = (0, 0), inProgress = {}, updates = []\<rparr>"

lemma concurrent_turn_serializable_witness:
  "\<exists>scheds s'. runTools sample_runner 10 scheds sample_tools sample_uses sample_turn = Some s' \<and> turn_context s' = (1, 123)"
proof -
  obtain scheds s' where run: "runTools sample_runner 10 scheds sample_tools sample_uses sample_turn = Some s'"
    unfolding runTools_def using run_batches_finish by blast
  have own: "own_ids sample_runner" by (auto simp: own_ids_def sample_runner_def)
  have d: "distinct (map use_id sample_uses)" by (simp add: sample_uses_def)
  have edit: "\<not> safe_use sample_tools \<lparr>use_id = ''c'', use_name = ''Edit'', use_input = 3\<rparr>" by code_simp
  have free: "\<forall>u\<in>set sample_uses. safe_use sample_tools u \<longrightarrow> reads_only fst sample_runner sample_uses u"
    using edit by (auto simp: reads_only_def sample_runner_def tool_generator_def sample_uses_def)
  have "turn_context (runToolsSerially sample_runner sample_uses sample_uses sample_turn) = (1, 123)" by code_simp
  then show ?thesis using concurrent_turn_serializable [OF run _ own d free] run by auto
qed

end
