(* ===== verification/Streaming_Executor.thy ===== *)
theory Streaming_Executor
  imports Tool_Orchestration
begin

text \<open>
  The executor of tool calls that arrive while the model's answer streams in,
  \<open>src/services/tools/StreamingToolExecutor.ts\<close>.  The code is asynchronous; what runs without an
  \<open>await\<close> is one step of the model.  An activation is a call of \<open>processQueue\<close> that is suspended at
  its \<open>await\<close> (or not yet begun), kept as the index at which its loop goes on.  What the running
  tools yield and when they end, the user's interruption and the consumer's reads are events.
\<close>

section \<open>State\<close>

datatype tool_status = Queued | Executing | Completed | Yielded
datatype abort_reason = SiblingError | UserInterrupted | StreamingFallback
datatype parent_abort = InterruptAbort | OtherAbort

text \<open>Messages of tools are opaque; those the executor makes carry the id, content and result text.\<close>

datatype 'm exec_message = FromTool 'm | ErrorResult string string string

record ('i, 'm, 'c) tracked =
  block :: "'i tool_use"
  tstatus :: tool_status
  tsafe :: bool
  results :: "'m exec_message list option"
  pendingProgress :: "'m list"
  contextModifiers :: "('c \<Rightarrow> 'c) list"
  messages :: "'m exec_message list"
  thisToolErrored :: bool

text \<open>The last two fields are the local variables of a running \<open>collectResults\<close>.\<close>

record ('i, 'm, 'c) executor_state =
  tools :: "('i, 'm, 'c) tracked list"
  exec_context :: 'c
  hasErrored :: bool
  erroredToolDescription :: string
  discarded :: bool
  parentAborted :: "parent_abort option"
  inProgressIDs :: "string set"
  interruptible :: bool
  activations :: "nat list"
  emitted_results :: "(nat \<times> 'm exec_message) list"

text \<open>
  The code around the executor: the tools, the batch gate, the message for an unknown tool, the text
  that describes a call's input, the classification of messages, and texts of the user interface.
\<close>

record ('i, 'p, 'm, 'c) exec_config =
  toolDefinitions :: "('i, 'p) tool list"
  exec_gate :: "'c \<Rightarrow> 'i tool_use list \<Rightarrow> 'i tool_use \<Rightarrow> 'm option"
  unavailable :: "'i tool_use \<Rightarrow> 'm"
  input_summary :: "'i \<Rightarrow> string option"
  is_progress :: "'m \<Rightarrow> bool"
  is_error_result :: "'m \<Rightarrow> bool"
  reject_content :: string
  ellipsis :: string

definition new_executor :: "'c \<Rightarrow> ('i, 'm, 'c) executor_state" where
  "new_executor c = \<lparr>tools = [], exec_context = c, hasErrored = False, erroredToolDescription = [],
     discarded = False, parentAborted = None, inProgressIDs = {}, interruptible = False,
     activations = [], emitted_results = []\<rparr>"

definition new_tracked :: "'i tool_use \<Rightarrow> tool_status \<Rightarrow> bool \<Rightarrow> 'm exec_message list option \<Rightarrow> ('i, 'm, 'c) tracked" where
  "new_tracked u st safe rs = \<lparr>block = u, tstatus = st, tsafe = safe, results = rs, pendingProgress = [],
     contextModifiers = [], messages = [], thisToolErrored = False\<rparr>"

section \<open>Helpers of the class\<close>

definition getToolInterruptBehavior ::
  "('i, 'p, 'm, 'c) exec_config \<Rightarrow> ('i, 'm, 'c) tracked \<Rightarrow> interrupt_behavior" where
  "getToolInterruptBehavior cfg t =
     (case findToolByName (toolDefinitions cfg) (use_name (block t)) of
        None \<Rightarrow> BlockOnInterrupt
      | Some d \<Rightarrow> (case tool_interruptBehavior d of Some (Some b) \<Rightarrow> b | _ \<Rightarrow> BlockOnInterrupt))"

definition getAbortReason ::
  "('i, 'p, 'm, 'c) exec_config \<Rightarrow> ('i, 'm, 'c) executor_state \<Rightarrow> ('i, 'm, 'c) tracked \<Rightarrow> abort_reason option" where
  "getAbortReason cfg s t =
     (if discarded s then Some StreamingFallback
      else if hasErrored s then Some SiblingError
      else (case parentAborted s of
              None \<Rightarrow> None
            | Some InterruptAbort \<Rightarrow>
                if getToolInterruptBehavior cfg t = CancelOnInterrupt then Some UserInterrupted else None
            | Some OtherAbort \<Rightarrow> Some UserInterrupted))"

definition getToolDescription :: "('i, 'p, 'm, 'c) exec_config \<Rightarrow> 'i tool_use \<Rightarrow> string" where
  "getToolDescription cfg u =
     (case input_summary cfg (use_input u) of
        None \<Rightarrow> use_name u
      | Some summary \<Rightarrow>
          if summary = [] then use_name u
          else use_name u @ ''('' @ (if length summary > 40 then take 40 summary @ ellipsis cfg else summary) @ '')'')"

definition createSyntheticErrorMessage ::
  "('i, 'p, 'm, 'c) exec_config \<Rightarrow> ('i, 'm, 'c) executor_state \<Rightarrow> string \<Rightarrow> abort_reason \<Rightarrow> 'm exec_message" where
  "createSyntheticErrorMessage cfg s toolUseId reason =
     (case reason of
        UserInterrupted \<Rightarrow> ErrorResult toolUseId (reject_content cfg) ''User rejected tool use''
      | StreamingFallback \<Rightarrow>
          ErrorResult toolUseId ''<tool_use_error>Error: Streaming fallback - tool execution discarded</tool_use_error>''
            ''Streaming fallback - tool execution discarded''
      | SiblingError \<Rightarrow>
          (let desc = erroredToolDescription s;
               msg = (if desc \<noteq> [] then ''Cancelled: parallel tool call '' @ desc @ '' errored''
                      else ''Cancelled: parallel tool call errored'')
           in ErrorResult toolUseId (''<tool_use_error>'' @ msg @ ''</tool_use_error>'') msg))"

definition executing_tools :: "('i, 'm, 'c) executor_state \<Rightarrow> ('i, 'm, 'c) tracked list" where
  "executing_tools s = filter (\<lambda>t. tstatus t = Executing) (tools s)"

definition updateInterruptibleState ::
  "('i, 'p, 'm, 'c) exec_config \<Rightarrow> ('i, 'm, 'c) executor_state \<Rightarrow> ('i, 'm, 'c) executor_state" where
  "updateInterruptibleState cfg s = s\<lparr>interruptible :=
     (executing_tools s \<noteq> [] \<and> list_all (\<lambda>t. getToolInterruptBehavior cfg t = CancelOnInterrupt) (executing_tools s))\<rparr>"

definition canExecuteTool :: "('i, 'm, 'c) executor_state \<Rightarrow> bool \<Rightarrow> bool" where
  "canExecuteTool s safe \<longleftrightarrow> executing_tools s = [] \<or> safe \<and> list_all tsafe (executing_tools s)"

definition set_tool :: "nat \<Rightarrow> ('i, 'm, 'c) tracked \<Rightarrow> ('i, 'm, 'c) executor_state \<Rightarrow> ('i, 'm, 'c) executor_state" where
  "set_tool i t s = s\<lparr>tools := (tools s)[i := t]\<rparr>"

section \<open>Running a tool\<close>

text \<open>
  The end of a run: the results are published, and the \<open>finally\<close> of the promise will call
  \<open>processQueue\<close> anew.
\<close>

definition complete_tool ::
  "('i, 'p, 'm, 'c) exec_config \<Rightarrow> nat \<Rightarrow> 'm exec_message list \<Rightarrow> ('i, 'm, 'c) executor_state \<Rightarrow> ('i, 'm, 'c) executor_state" where
  "complete_tool cfg i rs s =
     (let t = tools s ! i;
          s1 = updateInterruptibleState cfg (set_tool i (t\<lparr>results := Some rs, tstatus := Completed\<rparr>) s)
      in s1\<lparr>activations := 0 # activations s1\<rparr>)"

text \<open>
  The part of \<open>executeTool\<close> before its first \<open>await\<close>: a call that is already aborted gets a
  synthetic result and is complete at once.
\<close>

definition begin_tool ::
  "('i, 'p, 'm, 'c) exec_config \<Rightarrow> nat \<Rightarrow> ('i, 'm, 'c) executor_state \<Rightarrow> ('i, 'm, 'c) executor_state" where
  "begin_tool cfg i s =
     (let t = (tools s ! i)\<lparr>tstatus := Executing, messages := [], contextModifiers := [], thisToolErrored := False\<rparr>;
          s1 = set_tool i t s
      in updateInterruptibleState cfg (s1\<lparr>inProgressIDs := insert (use_id (block t)) (inProgressIDs s1)\<rparr>))"

definition executeTool ::
  "('i, 'p, 'm, 'c) exec_config \<Rightarrow> nat \<Rightarrow> ('i, 'm, 'c) executor_state \<Rightarrow> ('i, 'm, 'c) executor_state" where
  "executeTool cfg i s =
     (let s1 = begin_tool cfg i s; t = tools s1 ! i
      in case getAbortReason cfg s1 t of
           Some reason \<Rightarrow> complete_tool cfg i [createSyntheticErrorMessage cfg s1 (use_id (block t)) reason] s1
         | None \<Rightarrow> s1)"

text \<open>
  \<open>processQueue\<close> from index \<open>k\<close> to its next \<open>await\<close>: it starts at most one tool and is then
  suspended, or it ends.  The number of tools still to visit bounds the loop.
\<close>

fun pq_run ::
  "('i, 'p, 'm, 'c) exec_config \<Rightarrow> nat \<Rightarrow> nat \<Rightarrow> ('i, 'm, 'c) executor_state \<Rightarrow> ('i, 'm, 'c) executor_state" where
  "pq_run cfg 0 k s = s"
| "pq_run cfg (Suc n) k s =
     (if tstatus (tools s ! k) \<noteq> Queued then pq_run cfg n (k + 1) s
      else if canExecuteTool s (tsafe (tools s ! k))
      then (let s' = executeTool cfg k s in s'\<lparr>activations := (k + 1) # activations s'\<rparr>)
      else if \<not> tsafe (tools s ! k) then s
      else pq_run cfg n (k + 1) s)"

definition processQueue ::
  "('i, 'p, 'm, 'c) exec_config \<Rightarrow> nat \<Rightarrow> ('i, 'm, 'c) executor_state \<Rightarrow> ('i, 'm, 'c) executor_state" where
  "processQueue cfg k s = pq_run cfg (length (tools s) - k) k s"

definition addTool ::
  "('i, 'p, 'm, 'c) exec_config \<Rightarrow> 'i tool_use \<Rightarrow> 'i tool_use list \<Rightarrow> ('i, 'm, 'c) executor_state \<Rightarrow>
     ('i, 'm, 'c) executor_state" where
  "addTool cfg u assistantBatch s =
     (let add = (\<lambda>t. s\<lparr>tools := tools s @ [t]\<rparr>) in
      case exec_gate cfg (exec_context s) assistantBatch u of
        Some message \<Rightarrow> add (new_tracked u Completed True (Some [FromTool message]))
      | None \<Rightarrow>
          (case findToolByName (toolDefinitions cfg) (use_name u) of
             None \<Rightarrow> add (new_tracked u Completed True (Some [FromTool (unavailable cfg u)]))
           | Some d \<Rightarrow>
               processQueue cfg 0
                 (add (new_tracked u Queued (isConcurrencySafe (getDsxuToolExecutionSemantics (Some d) (use_input u))) None))))"

text \<open>The generator of a running tool has ended, with its changes of the context.\<close>

definition finish_tool ::
  "('i, 'p, 'm, 'c) exec_config \<Rightarrow> nat \<Rightarrow> ('i, 'm, 'c) executor_state \<Rightarrow> ('i, 'm, 'c) executor_state" where
  "finish_tool cfg i s =
     (let t = tools s ! i; s1 = complete_tool cfg i (messages t) s
      in if \<not> tsafe t then s1\<lparr>exec_context := foldl (\<lambda>c f. f c) (exec_context s1) (contextModifiers t)\<rparr> else s1)"

definition throw_tool ::
  "('i, 'p, 'm, 'c) exec_config \<Rightarrow> nat \<Rightarrow> string \<Rightarrow> ('i, 'm, 'c) executor_state \<Rightarrow> ('i, 'm, 'c) executor_state" where
  "throw_tool cfg i errorMessage s =
     (let u = block (tools s ! i);
          text = ''Error calling tool ('' @ use_name u @ ''): '' @ errorMessage
      in complete_tool cfg i [ErrorResult (use_id u) (''<tool_use_error>'' @ text @ ''</tool_use_error>'') text] s)"

text \<open>The body of the loop over the updates of a running tool.\<close>

definition tool_update ::
  "('i, 'p, 'm, 'c) exec_config \<Rightarrow> nat \<Rightarrow> 'm \<Rightarrow> ('c \<Rightarrow> 'c) option \<Rightarrow> ('i, 'm, 'c) executor_state \<Rightarrow>
     ('i, 'm, 'c) executor_state" where
  "tool_update cfg i message modifier s =
     (let t = tools s ! i in
      case (if thisToolErrored t then None else getAbortReason cfg s t) of
        Some reason \<Rightarrow>
          finish_tool cfg i
            (set_tool i (t\<lparr>messages := messages t @ [createSyntheticErrorMessage cfg s (use_id (block t)) reason]\<rparr>) s)
      | None \<Rightarrow>
          (let isErrorResult = is_error_result cfg message;
               t1 = (if isErrorResult then t\<lparr>thisToolErrored := True\<rparr> else t);
               s1 = (if isErrorResult \<and> use_name (block t) = ''Bash''
                     then s\<lparr>hasErrored := True, erroredToolDescription := getToolDescription cfg (block t)\<rparr> else s);
               t2 = (if is_progress cfg message then t1\<lparr>pendingProgress := pendingProgress t1 @ [message]\<rparr>
                     else t1\<lparr>messages := messages t1 @ [FromTool message]\<rparr>);
               t3 = (case modifier of None \<Rightarrow> t2 | Some f \<Rightarrow> t2\<lparr>contextModifiers := contextModifiers t2 @ [f]\<rparr>)
           in set_tool i t3 s1))"

section \<open>The consumer\<close>

text \<open>
  \<open>getCompletedResults\<close> from tool \<open>k\<close> on, run to its end.  Results are recorded with the index of
  their tool; progress messages leave their queue.
\<close>

fun collect_from :: "nat \<Rightarrow> nat \<Rightarrow> ('i, 'm, 'c) executor_state \<Rightarrow> ('i, 'm, 'c) executor_state" where
  "collect_from 0 k s = s"
| "collect_from (Suc n) k s =
     (let t = (tools s ! k)\<lparr>pendingProgress := []\<rparr>; s1 = set_tool k t s in
      if tstatus t = Yielded then collect_from n (k + 1) s1
      else (case (tstatus t, results t) of
              (Completed, Some rs) \<Rightarrow>
                collect_from n (k + 1)
                  ((set_tool k (t\<lparr>tstatus := Yielded\<rparr>) s1)
                     \<lparr>emitted_results := emitted_results s1 @ map (\<lambda>m. (k, m)) rs,
                      inProgressIDs := inProgressIDs s1 - {use_id (block t)}\<rparr>)
            | _ \<Rightarrow> if tstatus t = Executing \<and> \<not> tsafe t then s1 else collect_from n (k + 1) s1))"

definition getCompletedResults :: "('i, 'm, 'c) executor_state \<Rightarrow> ('i, 'm, 'c) executor_state" where
  "getCompletedResults s = (if discarded s then s else collect_from (length (tools s)) 0 s)"

section \<open>Events\<close>

datatype ('i, 'm, 'c) exec_event =
    Add "'i tool_use" "'i tool_use list"
  | Resume nat
  | Poke
  | Update nat 'm "('c \<Rightarrow> 'c) option"
  | Finish nat
  | Throw nat string
  | Discard
  | AbortParent parent_abort
  | ReadResults

definition is_executing :: "('i, 'm, 'c) executor_state \<Rightarrow> nat \<Rightarrow> bool" where
  "is_executing s i \<longleftrightarrow> i < length (tools s) \<and> tstatus (tools s ! i) = Executing"

text \<open>
  The guard of an event and its effect.  \<open>Resume j\<close> continues the \<open>j\<close>-th activation; \<open>Poke\<close> is the
  call of \<open>processQueue\<close> in \<open>getRemainingResults\<close>.
\<close>

definition exec_enabled :: "('i, 'm, 'c) executor_state \<Rightarrow> ('i, 'm, 'c) exec_event \<Rightarrow> bool" where
  "exec_enabled s e =
     (case e of Resume j \<Rightarrow> j < length (activations s)
      | Update i _ _ \<Rightarrow> is_executing s i | Finish i \<Rightarrow> is_executing s i | Throw i _ \<Rightarrow> is_executing s i
      | _ \<Rightarrow> True)"

primrec exec_step ::
  "('i, 'p, 'm, 'c) exec_config \<Rightarrow> ('i, 'm, 'c) executor_state \<Rightarrow> ('i, 'm, 'c) exec_event \<Rightarrow> ('i, 'm, 'c) executor_state"
where
  "exec_step cfg s (Add u us) = addTool cfg u us s"
| "exec_step cfg s (Resume j) =
     processQueue cfg (activations s ! j)
       (s\<lparr>activations := take j (activations s) @ drop (Suc j) (activations s)\<rparr>)"
| "exec_step cfg s Poke = processQueue cfg 0 s"
| "exec_step cfg s (Update i message modifier) = tool_update cfg i message modifier s"
| "exec_step cfg s (Finish i) = finish_tool cfg i s"
| "exec_step cfg s (Throw i err) = throw_tool cfg i err s"
| "exec_step cfg s Discard = s\<lparr>discarded := True\<rparr>"
| "exec_step cfg s (AbortParent a) = s\<lparr>parentAborted := Some a\<rparr>"
| "exec_step cfg s ReadResults = getCompletedResults s"

inductive exec_reachable :: "('i, 'p, 'm, 'c) exec_config \<Rightarrow> ('i, 'm, 'c) executor_state \<Rightarrow> bool"
  for cfg :: "('i, 'p, 'm, 'c) exec_config" where
  start: "exec_reachable cfg (new_executor c)"
| step: "exec_reachable cfg s \<Longrightarrow> exec_enabled s e \<Longrightarrow> exec_reachable cfg (exec_step cfg s e)"

end
