(* ===== verification/Streaming_Safety.thy ===== *)
theory Streaming_Safety
  imports Streaming_Executor
begin

text \<open>
  Safety and progress of the streaming executor, by rule induction over the reachable states: unsafe
  calls run alone and in order, no queued call is forgotten, and every result reaches the consumer
  once.
\<close>

section \<open>The schedule\<close>

definition queued :: "('i, 'm, 'c) executor_state \<Rightarrow> nat \<Rightarrow> bool" where
  "queued s i \<longleftrightarrow> i < length (tools s) \<and> tstatus (tools s ! i) = Queued"

definition unsafe_executing :: "('i, 'm, 'c) executor_state \<Rightarrow> bool" where
  "unsafe_executing s \<longleftrightarrow> (\<exists>i. is_executing s i \<and> \<not> tsafe (tools s ! i))"

text \<open>
  An unsafe call runs alone; no call queued in front of a running one; an activation has no queued
  call behind it.
\<close>

definition sched_inv :: "('i, 'm, 'c) executor_state \<Rightarrow> bool" where
  "sched_inv s \<longleftrightarrow>
     (\<forall>i j. is_executing s i \<longrightarrow> is_executing s j \<longrightarrow> i \<noteq> j \<longrightarrow> tsafe (tools s ! i)) \<and>
     (\<forall>i j. is_executing s j \<longrightarrow> i < j \<longrightarrow> \<not> queued s i) \<and>
     (\<forall>k\<in>set (activations s). k \<le> length (tools s) \<and> (\<forall>i<k. \<not> queued s i))"

text \<open>No lost wake-up: while a call is queued, something is running or \<open>processQueue\<close> will go on.\<close>

definition live :: "('i, 'm, 'c) executor_state \<Rightarrow> bool" where
  "live s \<longleftrightarrow> (\<exists>i. queued s i) \<longrightarrow> (\<exists>i. is_executing s i) \<or> activations s \<noteq> []"

text \<open>Both depend on the status and safety of the calls and on the activations only.\<close>

definition view :: "('i, 'm, 'c) executor_state \<Rightarrow> (tool_status \<times> bool) list" where
  "view s = map (\<lambda>t. (tstatus t, tsafe t)) (tools s)"

lemma is_executing_view: "is_executing s i \<longleftrightarrow> i < length (view s) \<and> fst (view s ! i) = Executing"
  by (auto simp: is_executing_def view_def)

lemma queued_view: "queued s i \<longleftrightarrow> i < length (view s) \<and> fst (view s ! i) = Queued"
  by (auto simp: queued_def view_def)

lemma safe_view: "is_executing s i \<Longrightarrow> tsafe (tools s ! i) = snd (view s ! i)"
  by (auto simp: is_executing_def view_def)

lemma length_view [simp]: "length (view s) = length (tools s)"
  by (simp add: view_def)

lemma can_execute:
  "canExecuteTool s safe \<longleftrightarrow> (\<forall>i. \<not> is_executing s i) \<or> safe \<and> \<not> unsafe_executing s"
  by (fastforce simp: canExecuteTool_def executing_tools_def unsafe_executing_def is_executing_def filter_empty_conv
      list_all_iff in_set_conv_nth)

text \<open>How the operations change the view.\<close>

lemma view_updates [simp]:
  "view (updateInterruptibleState cfg s) = view s"
  "view (s\<lparr>activations := a\<rparr>) = view s" "view (s\<lparr>inProgressIDs := d\<rparr>) = view s"
  "view (s\<lparr>exec_context := c\<rparr>) = view s" "view (s\<lparr>discarded := b\<rparr>) = view s" "view (s\<lparr>parentAborted := p\<rparr>) = view s"
  "view (s\<lparr>hasErrored := b\<rparr>) = view s" "view (s\<lparr>erroredToolDescription := e\<rparr>) = view s"
  "view (s\<lparr>emitted_results := r\<rparr>) = view s"
  by (simp_all add: view_def updateInterruptibleState_def)

lemma activations_updates [simp]:
  "activations (updateInterruptibleState cfg s) = activations s" "activations (set_tool i t s) = activations s"
  by (simp_all add: updateInterruptibleState_def set_tool_def)

lemma view_set_tool: "view (set_tool i t s) = (view s)[i := (tstatus t, tsafe t)]"
  by (simp add: view_def set_tool_def map_update)

lemma tsafe_view: "i < length (tools s) \<Longrightarrow> tsafe (tools s ! i) = snd (view s ! i)"
  by (simp add: view_def)

lemma view_complete_tool:
  "i < length (tools s) \<Longrightarrow> view (complete_tool cfg i rs s) = (view s)[i := (Completed, snd (view s ! i))]"
  "activations (complete_tool cfg i rs s) = 0 # activations s"
  by (simp_all add: complete_tool_def Let_def view_set_tool tsafe_view)

lemma view_finish_tool:
  "i < length (tools s) \<Longrightarrow> view (finish_tool cfg i s) = (view s)[i := (Completed, snd (view s ! i))]"
  "activations (finish_tool cfg i s) = 0 # activations s"
  by (simp_all add: finish_tool_def Let_def view_complete_tool)

lemma tools_set_tool: "length (tools (set_tool i t s)) = length (tools s)"
  by (simp add: set_tool_def)

lemma tools_updateInterruptible [simp]: "tools (updateInterruptibleState cfg s) = tools s"
  by (simp add: updateInterruptibleState_def)

lemma view_begin_tool:
  "k < length (tools s) \<Longrightarrow> view (begin_tool cfg k s) = (view s)[k := (Executing, snd (view s ! k))]"
  "activations (begin_tool cfg k s) = activations s" "length (tools (begin_tool cfg k s)) = length (tools s)"
  by (simp_all add: begin_tool_def Let_def view_set_tool tsafe_view tools_set_tool)

lemma view_executeTool:
  assumes "k < length (tools s)"
  shows "\<exists>st. (st = Executing \<or> st = Completed) \<and> view (executeTool cfg k s) = (view s)[k := (st, snd (view s ! k))] \<and>
    (activations (executeTool cfg k s) = activations s \<or> activations (executeTool cfg k s) = 0 # activations s)"
proof (cases "getAbortReason cfg (begin_tool cfg k s) (tools (begin_tool cfg k s) ! k)")
  case None
  then show ?thesis using assms by (auto simp: executeTool_def Let_def view_begin_tool)
next
  case (Some r)
  then show ?thesis using assms
    by (intro exI [of _ Completed]) (simp add: executeTool_def Let_def view_complete_tool view_begin_tool)
qed

section \<open>Every step keeps the schedule\<close>

text \<open>The invariant on a view and a list of activations.\<close>

definition vexec :: "(tool_status \<times> bool) list \<Rightarrow> nat \<Rightarrow> bool" where
  "vexec v i \<longleftrightarrow> i < length v \<and> fst (v ! i) = Executing"

definition vqueued :: "(tool_status \<times> bool) list \<Rightarrow> nat \<Rightarrow> bool" where
  "vqueued v i \<longleftrightarrow> i < length v \<and> fst (v ! i) = Queued"

definition vsched :: "(tool_status \<times> bool) list \<Rightarrow> nat set \<Rightarrow> bool" where
  "vsched v acts \<longleftrightarrow>
     (\<forall>i j. vexec v i \<longrightarrow> vexec v j \<longrightarrow> i \<noteq> j \<longrightarrow> snd (v ! i)) \<and>
     (\<forall>i j. vexec v j \<longrightarrow> i < j \<longrightarrow> \<not> vqueued v i) \<and>
     (\<forall>k\<in>acts. k \<le> length v \<and> (\<forall>i<k. \<not> vqueued v i))"

lemma is_executing_vexec: "is_executing s i \<longleftrightarrow> vexec (view s) i"
  by (simp add: vexec_def is_executing_view)

lemma queued_vqueued: "queued s i \<longleftrightarrow> vqueued (view s) i"
  by (simp add: vqueued_def queued_view)

lemma vexec_safe: "vexec (view s) i \<Longrightarrow> tsafe (tools s ! i) = snd (view s ! i)"
  by (simp add: vexec_def tsafe_view)

lemma sched_inv_view: "sched_inv s \<longleftrightarrow> vsched (view s) (set (activations s))"
  by (simp add: sched_inv_def vsched_def is_executing_vexec queued_vqueued vexec_safe cong: imp_cong)

lemma vexec_update: "i < length v \<Longrightarrow> vexec (v[i := x]) j \<longleftrightarrow> (if j = i then fst x = Executing else vexec v j)"
  by (auto simp: vexec_def nth_list_update)

lemma vqueued_update: "i < length v \<Longrightarrow> vqueued (v[i := x]) j \<longleftrightarrow> (if j = i then fst x = Queued else vqueued v j)"
  by (auto simp: vqueued_def nth_list_update)

lemma vsched_complete:
  assumes "vsched v acts" "i < length v" "\<not> vqueued v i" "st = Completed \<or> st = Yielded"
  shows "vsched (v[i := (st, b)]) acts"
  using assms by (auto simp: vsched_def vexec_update vqueued_update nth_list_update)

lemma vsched_append:
  assumes "vsched v acts" "st = Completed \<or> st = Queued"
  shows "vsched (v @ [(st, b)]) acts"
proof -
  have e: "vexec (v @ [(st, b)]) i \<longleftrightarrow> vexec v i" for i
    using assms(2) by (auto simp: vexec_def nth_append less_Suc_eq)
  have q: "vqueued (v @ [(st, b)]) i \<longleftrightarrow> vqueued v i" if "i < length v" for i
    using that by (auto simp: vqueued_def nth_append)
  have l: "vexec v i \<Longrightarrow> i < length v" for i by (simp add: vexec_def)
  have "\<not> vqueued (v @ [(st, b)]) i" if "vexec v j" "i < j" for i j
    using assms(1) that q [of i] l [of j] by (auto simp: vsched_def)
  moreover have "\<not> vqueued (v @ [(st, b)]) i" if "k \<in> acts" "i < k" for i k
    using assms(1) that q [of i] by (auto simp: vsched_def)
  ultimately show ?thesis using assms(1) e l by (auto simp: vsched_def nth_append)
qed

lemma append_completed:
  "vqueued (v @ [(Completed, b)]) i \<longleftrightarrow> vqueued v i" "vexec (v @ [(Completed, b)]) i \<longleftrightarrow> vexec v i"
  by (auto simp: vqueued_def vexec_def nth_append less_Suc_eq)

lemma view_add: "view (s\<lparr>tools := tools s @ [t]\<rparr>) = view s @ [(tstatus t, tsafe t)]"
  by (simp add: view_def)

lemma vsched_start:
  assumes "vsched v acts" "vqueued v k" "\<And>i. i < k \<Longrightarrow> \<not> vqueued v i" "st = Executing \<or> st = Completed"
    and "(\<forall>i. \<not> vexec v i) \<or> snd (v ! k) \<and> (\<forall>i. vexec v i \<longrightarrow> snd (v ! i))"
  shows "vsched (v[k := (st, snd (v ! k))]) (insert (Suc k) acts)"
proof -
  have k: "k < length v" using assms(2) by (simp add: vqueued_def)
  show ?thesis
    using assms k by (auto simp: vsched_def vexec_update vqueued_update nth_list_update less_Suc_eq)
qed

lemma vsched_zero: "vsched v acts \<Longrightarrow> vsched v (insert 0 acts)"
  by (simp add: vsched_def)

lemma vsched_subset: "vsched v acts \<Longrightarrow> acts' \<subseteq> acts \<Longrightarrow> vsched v acts'"
  by (auto simp: vsched_def)

lemma live_view: "live s \<longleftrightarrow> ((\<exists>i. vqueued (view s) i) \<longrightarrow> (\<exists>i. vexec (view s) i) \<or> activations s \<noteq> [])"
  by (simp add: live_def is_executing_vexec queued_vqueued)

lemma unsafe_view: "unsafe_executing s \<longleftrightarrow> (\<exists>i. vexec (view s) i \<and> \<not> snd (view s ! i))"
  by (auto simp: unsafe_executing_def is_executing_vexec vexec_safe)

text \<open>
  The heart of the matter: wherever the loop of \<open>processQueue\<close> is, the calls it has passed are not
  queued, or an unsafe call is running and nothing can start before it ends.
\<close>

lemma pq_run_sched:
  assumes "vsched (view s) (set (activations s))" "k + n = length (tools s)"
    and "(\<forall>i<k. \<not> vqueued (view s) i) \<or> unsafe_executing s"
  shows "sched_inv (pq_run cfg n k s) \<and> live (pq_run cfg n k s)"
  using assms
proof (induction n arbitrary: k)
  case 0
  have "vqueued (view s) i \<Longrightarrow> \<exists>j. vexec (view s) j" for i
    using 0 by (auto simp: vqueued_def unsafe_view)
  then show ?case using 0(1) by (auto simp: sched_inv_view live_view)
next
  case (Suc n)
  have k: "k < length (tools s)" using Suc.prems(2) by simp
  have status: "tstatus (tools s ! k) = Queued \<longleftrightarrow> vqueued (view s) k" using k by (simp add: vqueued_def view_def)
  show ?case
  proof (cases "vqueued (view s) k")
    case False
    then have "(\<forall>i<Suc k. \<not> vqueued (view s) i) \<or> unsafe_executing s" using Suc.prems(3) by (auto simp: less_Suc_eq)
    then show ?thesis using Suc.IH [of "Suc k"] Suc.prems(1,2) False status by simp
  next
    case True
    show ?thesis
    proof (cases "canExecuteTool s (tsafe (tools s ! k))")
      case can: True
      then have c: "(\<forall>i. \<not> vexec (view s) i) \<or> snd (view s ! k) \<and> (\<forall>i. vexec (view s) i \<longrightarrow> snd (view s ! i))"
        using k by (auto simp: can_execute is_executing_vexec unsafe_view tsafe_view)
      then have "\<not> vqueued (view s) i" if "i < k" for i using that Suc.prems(3) by (auto simp: unsafe_view)
      note start = vsched_start [OF Suc.prems(1) True this _ c]
      let ?s' = "executeTool cfg k s"
      obtain st where "st = Executing \<or> st = Completed" "view ?s' = (view s)[k := (st, snd (view s ! k))]"
          "activations ?s' = activations s \<or> activations ?s' = 0 # activations s"
        using view_executeTool [OF k, of cfg] by blast
      then have "vsched (view ?s') (insert (Suc k) (set (activations ?s')))"
        using start [of st] vsched_zero [of "view ?s'" "insert (Suc k) (set (activations s))"]
        by (auto simp: insert_commute)
      then show ?thesis using True can status by (simp add: sched_inv_view live_view Let_def)
    next
      case cannot: False
      then have "\<exists>i. vexec (view s) i" by (auto simp: can_execute is_executing_vexec)
      moreover have "unsafe_executing s" if "tsafe (tools s ! k)" using cannot that by (simp add: can_execute)
      ultimately show ?thesis using True cannot status Suc.IH [of "Suc k"] Suc.prems(1,2)
        by (auto simp: sched_inv_view live_view)
    qed
  qed
qed

lemma processQueue_sched:
  assumes "vsched (view s) (set (activations s))" "k \<le> length (tools s)" "\<And>i. i < k \<Longrightarrow> \<not> vqueued (view s) i"
  shows "sched_inv (processQueue cfg k s) \<and> live (processQueue cfg k s)"
  unfolding processQueue_def by (rule pq_run_sched) (use assms in auto)

lemma complete_sched:
  assumes "vsched (view s) (set (activations s))" "is_executing s i"
    and "view s' = (view s)[i := (Completed, b)]" "activations s' = 0 # activations s"
  shows "sched_inv s' \<and> live s'"
proof -
  have "i < length (view s)" "\<not> vqueued (view s) i" using assms(2) by (auto simp: is_executing_vexec vexec_def vqueued_def)
  then have "vsched (view s') (set (activations s))" unfolding assms(3) by (intro vsched_complete assms(1)) auto
  then show ?thesis using vsched_zero assms(4) by (simp add: sched_inv_view live_view)
qed

lemma view_quiet:
  "i < length (tools s) \<Longrightarrow> tstatus t = tstatus (tools s ! i) \<Longrightarrow> tsafe t = tsafe (tools s ! i) \<Longrightarrow> view (set_tool i t s) = view s"
proof -
  assume i: "i < length (tools s)" "tstatus t = tstatus (tools s ! i)" "tsafe t = tsafe (tools s ! i)"
  then have "(tstatus t, tsafe t) = view s ! i" by (simp add: view_def)
  then show ?thesis by (simp add: view_set_tool)
qed

lemma tool_update_view:
  assumes "is_executing s i"
  shows "view (tool_update cfg i m f s) = view s \<and> activations (tool_update cfg i m f s) = activations s \<or>
    view (tool_update cfg i m f s) = (view s)[i := (Completed, snd (view s ! i))] \<and>
    activations (tool_update cfg i m f s) = 0 # activations s"
proof (cases "if thisToolErrored (tools s ! i) then None else getAbortReason cfg s (tools s ! i)")
  case (Some r)
  have i: "i < length (tools s)" using assms by (simp add: is_executing_def)
  then show ?thesis using Some
    by (simp add: tool_update_def Let_def view_finish_tool tools_set_tool view_quiet)
next
  case None
  have i: "i < length (tools s)" using assms by (simp add: is_executing_def)
  define t3 where "t3 = (\<lambda>t1 :: ('a, 'b, 'c) tracked.
      let t2 = (if is_progress cfg m then t1\<lparr>pendingProgress := pendingProgress t1 @ [m]\<rparr>
          else t1\<lparr>messages := messages t1 @ [FromTool m]\<rparr>)
      in case f of None \<Rightarrow> t2 | Some f \<Rightarrow> t2\<lparr>contextModifiers := contextModifiers t2 @ [f]\<rparr>)"
  have "tstatus (t3 t) = tstatus t \<and> tsafe (t3 t) = tsafe t" for t
    by (simp add: t3_def Let_def split: option.split)
  moreover have "\<exists>s1 t1. tool_update cfg i m f s = set_tool i (t3 t1) s1 \<and> view s1 = view s \<and> tools s1 = tools s \<and>
      activations s1 = activations s \<and> tstatus t1 = tstatus (tools s ! i) \<and> tsafe t1 = tsafe (tools s ! i)"
    unfolding tool_update_def Let_def None t3_def option.case by (intro exI conjI, rule refl) simp_all
  ultimately show ?thesis using view_quiet i by (metis activations_updates(2))
qed

text \<open>Reading results only turns completed calls into yielded ones.\<close>

lemma yield_sched:
  assumes "vsched (view s) A" "k < length (tools s)" "tstatus (tools s ! k) = Completed"
    and "view s' = (view s)[k := (Yielded, b)]"
  shows "vsched (view s') A \<and> (\<forall>i. vqueued (view s') i \<longleftrightarrow> vqueued (view s) i) \<and> (\<forall>i. vexec (view s') i \<longleftrightarrow> vexec (view s) i)"
proof -
  have c: "\<not> vqueued (view s) k" "\<not> vexec (view s) k" using assms(2,3) by (auto simp: vqueued_def vexec_def view_def)
  then show ?thesis using assms(1,2) unfolding assms(4)
    by (auto simp: vsched_complete vqueued_update vexec_update)
qed

lemma collect_sched:
  "k + n = length (tools s) \<Longrightarrow> vsched (view s) A \<Longrightarrow>
     vsched (view (collect_from n k s)) A \<and> activations (collect_from n k s) = activations s \<and>
     (\<forall>i. vqueued (view (collect_from n k s)) i \<longleftrightarrow> vqueued (view s) i) \<and>
     (\<forall>i. vexec (view (collect_from n k s)) i \<longleftrightarrow> vexec (view s) i)"
proof (induction n arbitrary: k s)
  case (Suc n)
  have k: "k < length (tools s)" using Suc.prems(1) by simp
  let ?t = "(tools s ! k)\<lparr>pendingProgress := []\<rparr>" and ?s1 = "set_tool k ((tools s ! k)\<lparr>pendingProgress := []\<rparr>) s"
  have v1: "view ?s1 = view s" using k by (intro view_quiet) auto
  have l1: "length (tools ?s1) = length (tools s)" by (simp add: tools_set_tool)
  note skip = Suc.IH [of "Suc k" ?s1]
  show ?case
  proof (cases "tstatus ?t = Completed \<and> results ?t \<noteq> None")
    case True
    then obtain rs where c: "tstatus (tools s ! k) = Completed" "results (tools s ! k) = Some rs" by auto
    define s2 where "s2 = (set_tool k (?t\<lparr>tstatus := Yielded\<rparr>) ?s1)
       \<lparr>emitted_results := emitted_results ?s1 @ map (\<lambda>m. (k, m)) rs, inProgressIDs := inProgressIDs ?s1 - {use_id (block ?t)}\<rparr>"
    have run: "collect_from (Suc n) k s = collect_from n (Suc k) s2" using c by (simp add: s2_def Let_def)
    have v2: "view s2 = (view s)[k := (Yielded, tsafe (tools s ! k))]" by (simp add: s2_def view_set_tool v1)
    note y = yield_sched [OF Suc.prems(2) k c(1) v2]
    have "activations s2 = activations s" "length (tools s2) = length (tools s)" by (simp_all add: s2_def tools_set_tool)
    then show ?thesis using Suc.IH [of "Suc k" s2] Suc.prems(1) y unfolding run by simp
  next
    case False
    then have "collect_from (Suc n) k s = ?s1 \<or> collect_from (Suc n) k s = collect_from n (Suc k) ?s1"
      by (cases "tstatus ?t"; cases "results ?t") (simp_all add: Let_def)
    then show ?thesis using skip Suc.prems v1 l1 by auto
  qed
qed simp

section \<open>Every reachable state\<close>

lemma throw_completes: "\<exists>rs. throw_tool cfg i err s = complete_tool cfg i rs s"
  unfolding throw_tool_def Let_def by (rule exI) (rule refl)

lemma sched_step:
  assumes "sched_inv s" "live s" "exec_enabled s e"
  shows "sched_inv (exec_step cfg s e) \<and> live (exec_step cfg s e)"
proof -
  have v: "vsched (view s) (set (activations s))" using assms(1) by (simp add: sched_inv_view)
  have quiet: "sched_inv s' \<and> live s'" if "view s' = view s" "activations s' = activations s" for s'
    using that assms(1,2) by (simp add: sched_inv_view live_view)
  show ?thesis
  proof (cases e)
    case (Add u us)
    have done_call: "sched_inv (s\<lparr>tools := tools s @ [new_tracked u Completed True r]\<rparr>) \<and>
        live (s\<lparr>tools := tools s @ [new_tracked u Completed True r]\<rparr>)" for r
      using vsched_append [OF v, of Completed True] assms(2)
      by (simp add: sched_inv_view live_view view_add new_tracked_def append_completed)
    have queue: "sched_inv (processQueue cfg 0 (s\<lparr>tools := tools s @ [new_tracked u Queued b None]\<rparr>)) \<and>
        live (processQueue cfg 0 (s\<lparr>tools := tools s @ [new_tracked u Queued b None]\<rparr>))" for b
      using vsched_append [OF v, of Queued b] by (intro processQueue_sched) (simp_all add: view_add new_tracked_def)
    show ?thesis using done_call queue by (simp add: Add addTool_def Let_def split: option.split)
  next
    case (Resume j)
    let ?s = "s\<lparr>activations := take j (activations s) @ drop (Suc j) (activations s)\<rparr>"
    have j: "activations s ! j \<in> set (activations s)" using assms(3) Resume by (simp add: exec_enabled_def)
    have "set (activations ?s) \<subseteq> set (activations s)" by (auto dest: in_set_takeD in_set_dropD)
    then have "vsched (view ?s) (set (activations ?s))" using vsched_subset [OF v] by simp
    then show ?thesis unfolding Resume exec_step.simps
      by (rule processQueue_sched) (use v j in \<open>auto simp: vsched_def\<close>)
  next
    case Poke
    show ?thesis unfolding Poke exec_step.simps by (rule processQueue_sched [OF v]) auto
  next
    case (Update i m f)
    have i: "is_executing s i" using assms(3) Update by (simp add: exec_enabled_def)
    show ?thesis using tool_update_view [OF i, of cfg m f] quiet complete_sched [OF v i] by (auto simp: Update)
  next
    case (Finish i)
    have i: "is_executing s i" "i < length (tools s)" using assms(3) Finish by (auto simp: exec_enabled_def is_executing_def)
    show ?thesis using complete_sched [OF v i(1)] view_finish_tool [where i = i and s = s and cfg = cfg] i(2) by (simp add: Finish)
  next
    case (Throw i err)
    have i: "is_executing s i" "i < length (tools s)" using assms(3) Throw by (auto simp: exec_enabled_def is_executing_def)
    obtain rs where "throw_tool cfg i err s = complete_tool cfg i rs s" by (metis throw_completes)
    then show ?thesis using complete_sched [OF v i(1) view_complete_tool(1) [OF i(2)] view_complete_tool(2)]
      by (simp add: Throw)
  next
    case Discard
    show ?thesis unfolding Discard exec_step.simps by (rule quiet) simp_all
  next
    case (AbortParent a)
    show ?thesis unfolding AbortParent exec_step.simps by (rule quiet) simp_all
  next
    case ReadResults
    show ?thesis
    proof (cases "discarded s")
      case False
      then show ?thesis using collect_sched [OF _ v, of 0 "length (tools s)"] assms(2)
        by (simp add: ReadResults getCompletedResults_def sched_inv_view live_view)
    qed (use assms in \<open>simp add: ReadResults getCompletedResults_def\<close>)
  qed
qed

interpretation streaming: machine
  "\<lambda>s e. if exec_enabled s e then exec_step cfg s e else s" "\<lambda>s. sched_inv s \<and> live s" for cfg
  by unfold_locales (auto dest: sched_step)

lemma reachable_sched: "exec_reachable cfg s \<Longrightarrow> sched_inv s \<and> live s"
proof (induction rule: exec_reachable.induct)
  case (start c)
  show ?case by (simp add: sched_inv_def live_def new_executor_def is_executing_def queued_def)
qed (simp add: sched_step)

section \<open>Every result once\<close>

definition emitted_by :: "('i, 'm, 'c) executor_state \<Rightarrow> nat \<Rightarrow> 'm exec_message list" where
  "emitted_by s i = map snd (filter (\<lambda>x. fst x = i) (emitted_results s))"

definition call_ok :: "'m exec_message list \<Rightarrow> ('i, 'm, 'c) tracked \<Rightarrow> bool" where
  "call_ok out t \<longleftrightarrow>
     (tstatus t = Completed \<longrightarrow> results t \<noteq> None) \<and>
     (if tstatus t = Yielded then results t = Some out else out = [])"

definition out_inv :: "('i, 'm, 'c) executor_state \<Rightarrow> bool" where
  "out_inv s \<longleftrightarrow> (\<forall>i<length (tools s). call_ok (emitted_by s i) (tools s ! i)) \<and>
     (\<forall>x\<in>set (emitted_results s). fst x < length (tools s))"

lemma out_inv_updates [simp]:
  "out_inv (updateInterruptibleState cfg s) = out_inv s"
  "out_inv (s\<lparr>activations := a\<rparr>) = out_inv s" "out_inv (s\<lparr>inProgressIDs := d\<rparr>) = out_inv s"
  "out_inv (s\<lparr>exec_context := c\<rparr>) = out_inv s" "out_inv (s\<lparr>discarded := b\<rparr>) = out_inv s"
  "out_inv (s\<lparr>parentAborted := p\<rparr>) = out_inv s"
  "out_inv (s\<lparr>hasErrored := b\<rparr>) = out_inv s" "out_inv (s\<lparr>erroredToolDescription := e\<rparr>) = out_inv s"
  by (simp_all add: out_inv_def emitted_by_def updateInterruptibleState_def)

lemma out_inv_set:
  assumes "out_inv s" "call_ok (emitted_by s i) (tools s ! i) \<Longrightarrow> call_ok (emitted_by s i) t"
  shows "out_inv (set_tool i t s)"
proof -
  have "call_ok (emitted_by s j) ((tools s)[i := t] ! j)" if "j < length (tools s)" for j
    using assms that by (cases "j = i") (simp_all add: out_inv_def)
  then show ?thesis using assms(1) by (simp add: out_inv_def set_tool_def emitted_by_def)
qed

lemma nth_set_tool [simp]: "i < length (tools s) \<Longrightarrow> tools (set_tool i t s) ! i = t"
  by (simp add: set_tool_def)

lemma out_inv_add:
  assumes "out_inv s" "call_ok [] t"
  shows "out_inv (s\<lparr>tools := tools s @ [t]\<rparr>)"
proof -
  have "emitted_by s (length (tools s)) = []" using assms(1) by (auto simp: out_inv_def emitted_by_def filter_empty_conv)
  then show ?thesis using assms by (auto simp: out_inv_def emitted_by_def nth_append less_Suc_eq)
qed

lemma out_inv_complete:
  assumes "out_inv s" "tstatus (tools s ! i) \<noteq> Yielded"
  shows "out_inv (complete_tool cfg i rs s)"
  unfolding complete_tool_def Let_def using assms
  by (simp only: out_inv_updates) (rule out_inv_set, auto simp: call_ok_def)

lemma out_inv_begin:
  assumes "out_inv s" "tstatus (tools s ! i) \<noteq> Yielded"
  shows "out_inv (begin_tool cfg i s)"
  unfolding begin_tool_def Let_def using assms
  by (simp only: out_inv_updates) (rule out_inv_set, auto simp: call_ok_def)

lemma begin_status: "i < length (tools s) \<Longrightarrow> tstatus (tools (begin_tool cfg i s) ! i) = Executing"
  by (simp add: begin_tool_def Let_def)

lemma out_inv_execute:
  assumes "out_inv s" "i < length (tools s)" "tstatus (tools s ! i) \<noteq> Yielded"
  shows "out_inv (executeTool cfg i s)"
  unfolding executeTool_def Let_def using out_inv_begin [OF assms(1,3), of cfg] begin_status [OF assms(2), of cfg]
  by (simp split: option.split add: out_inv_complete)

lemma out_inv_pq_run: "out_inv s \<Longrightarrow> k + n \<le> length (tools s) \<Longrightarrow> out_inv (pq_run cfg n k s)"
  by (induction n arbitrary: k) (simp_all add: Let_def out_inv_execute)

lemma out_inv_processQueue: "out_inv s \<Longrightarrow> k \<le> length (tools s) \<Longrightarrow> out_inv (processQueue cfg k s)"
  unfolding processQueue_def by (rule out_inv_pq_run) simp_all

lemma out_inv_finish:
  assumes "out_inv s" "tstatus (tools s ! i) \<noteq> Yielded"
  shows "out_inv (finish_tool cfg i s)"
  using out_inv_complete [OF assms, of cfg] by (simp add: finish_tool_def Let_def)

lemma out_inv_collect: "out_inv s \<Longrightarrow> k + n \<le> length (tools s) \<Longrightarrow> out_inv (collect_from n k s)"
proof (induction n arbitrary: k s)
  case (Suc n)
  have k: "k < length (tools s)" using Suc.prems(2) by simp
  let ?t = "(tools s ! k)\<lparr>pendingProgress := []\<rparr>" and ?s1 = "set_tool k ((tools s ! k)\<lparr>pendingProgress := []\<rparr>) s"
  have o1: "out_inv ?s1" by (rule out_inv_set [OF Suc.prems(1)]) (simp add: call_ok_def)
  have l1: "length (tools ?s1) = length (tools s)" by (simp add: tools_set_tool)
  show ?case
  proof (cases "tstatus ?t = Completed \<and> results ?t \<noteq> None")
    case True
    then obtain rs where c: "tstatus (tools s ! k) = Completed" "results (tools s ! k) = Some rs" by auto
    define s2 where "s2 = (set_tool k (?t\<lparr>tstatus := Yielded\<rparr>) ?s1)
       \<lparr>emitted_results := emitted_results ?s1 @ map (\<lambda>m. (k, m)) rs, inProgressIDs := inProgressIDs ?s1 - {use_id (block ?t)}\<rparr>"
    have run: "collect_from (Suc n) k s = collect_from n (Suc k) s2" using c by (simp add: s2_def Let_def)
    have "emitted_by s2 i = emitted_by s i @ (if i = k then rs else [])" for i
      by (auto simp: emitted_by_def s2_def set_tool_def filter_map comp_def)
    moreover have "emitted_by s k = []" using Suc.prems(1) k c(1) by (simp add: out_inv_def call_ok_def)
    ultimately have "out_inv s2" using Suc.prems(1) k c
      by (auto simp: out_inv_def s2_def set_tool_def nth_list_update call_ok_def)
    moreover have "length (tools s2) = length (tools s)" by (simp add: s2_def tools_set_tool)
    ultimately show ?thesis using Suc.IH [of s2 "Suc k"] Suc.prems(2) unfolding run by simp
  next
    case False
    then have "collect_from (Suc n) k s = ?s1 \<or> collect_from (Suc n) k s = collect_from n (Suc k) ?s1"
      by (cases "tstatus ?t"; cases "results ?t") (simp_all add: Let_def)
    then show ?thesis using Suc.IH [of ?s1 "Suc k"] Suc.prems(2) o1 l1 by auto
  qed
qed simp

lemma out_inv_update:
  assumes "out_inv s" "is_executing s i"
  shows "out_inv (tool_update cfg i m f s)"
proof -
  have i: "i < length (tools s)" "tstatus (tools s ! i) = Executing" using assms(2) by (auto simp: is_executing_def)
  then have e: "emitted_by s i = []" using assms(1) by (simp add: out_inv_def call_ok_def)
  have busy: "out_inv (set_tool i t s')"
    if "tools s' = tools s" "emitted_results s' = emitted_results s" "tstatus t = Executing" for t s'
  proof -
    have "out_inv s' \<longleftrightarrow> out_inv s" using that(1,2) by (simp add: out_inv_def emitted_by_def)
    moreover have "emitted_by s' i = []" using e that(2) by (simp add: emitted_by_def)
    ultimately show ?thesis using assms(1) that(3) by (intro out_inv_set) (simp_all add: call_ok_def)
  qed
  show ?thesis
  proof (cases "if thisToolErrored (tools s ! i) then None else getAbortReason cfg s (tools s ! i)")
    case (Some r)
    then show ?thesis unfolding tool_update_def Let_def Some option.case
      by (intro out_inv_finish busy) (use i in \<open>simp_all add: set_tool_def\<close>)
  next
    case None
    show ?thesis unfolding tool_update_def Let_def None option.case
      by (rule busy) (use i in \<open>simp_all split: option.split\<close>)
  qed
qed

lemma out_inv_step:
  assumes "out_inv s" "sched_inv s" "exec_enabled s e"
  shows "out_inv (exec_step cfg s e)"
proof (cases e)
  case (Add u us)
  have "call_ok [] t \<Longrightarrow> out_inv (s\<lparr>tools := tools s @ [t]\<rparr>)" for t by (rule out_inv_add [OF assms(1)])
  then show ?thesis
    by (auto simp: Add addTool_def Let_def call_ok_def new_tracked_def intro!: out_inv_processQueue split: option.split)
next
  case (Resume j)
  then have "activations s ! j \<in> set (activations s)" using assms(3) by (simp add: exec_enabled_def)
  then have "activations s ! j \<le> length (tools s)" using assms(2) by (simp add: sched_inv_def)
  then show ?thesis using assms(1) by (simp add: Resume out_inv_processQueue)
next
  case (Throw i err)
  obtain rs where "throw_tool cfg i err s = complete_tool cfg i rs s" by (metis throw_completes)
  then show ?thesis using assms(1,3) by (simp add: Throw exec_enabled_def is_executing_def out_inv_complete)
next
  case ReadResults
  then show ?thesis using assms(1) by (simp add: getCompletedResults_def out_inv_collect)
qed (use assms in \<open>simp_all add: out_inv_processQueue out_inv_update out_inv_finish exec_enabled_def is_executing_def\<close>)

lemma reachable_out: "exec_reachable cfg s \<Longrightarrow> out_inv s"
proof (induction rule: exec_reachable.induct)
  case (start c)
  show ?case by (simp add: out_inv_def new_executor_def)
next
  case (step s e)
  then show ?case using out_inv_step reachable_sched by blast
qed

section \<open>Properties\<close>

text \<open>
  C6: An unsafe call has the machine to itself.  Whenever a call that is not concurrency-safe is
  executing, no other call is, and every call that arrived before it is finished: it was not left in
  the queue and is not running; two calls run together only when both are safe.
\<close>

theorem unsafe_call_runs_alone:
  assumes "exec_reachable cfg s" "is_executing s j" "\<not> tsafe (tools s ! j)"
  shows "(\<forall>i. is_executing s i \<longrightarrow> i = j) \<and>
    (\<forall>i<j. tstatus (tools s ! i) = Completed \<or> tstatus (tools s ! i) = Yielded)"
proof -
  have inv: "sched_inv s" using reachable_sched [OF assms(1)] by blast
  have alone: "i = j" if "is_executing s i" for i using inv assms(2,3) that by (auto simp: sched_inv_def)
  have "tstatus (tools s ! i) = Completed \<or> tstatus (tools s ! i) = Yielded" if "i < j" for i
  proof -
    have "i < length (tools s)" using assms(2) that by (simp add: is_executing_def)
    moreover have "\<not> queued s i" using inv assms(2) that by (auto simp: sched_inv_def)
    moreover have "\<not> is_executing s i" using alone that by auto
    ultimately show ?thesis by (cases "tstatus (tools s ! i)") (auto simp: queued_def is_executing_def)
  qed
  then show ?thesis using alone by blast
qed

text \<open>
  C30: No call is forgotten.  In every reachable state with a queued call, a call is executing, whose
  end starts the queue again, or an activation of the queue is due to continue.
\<close>

theorem no_lost_wakeup:
  assumes "exec_reachable cfg s" "i < length (tools s)" "tstatus (tools s ! i) = Queued"
  shows "(\<exists>j. is_executing s j) \<or> activations s \<noteq> []"
  using reachable_sched [OF assms(1)] assms(2,3) by (auto simp: live_def queued_def)

text \<open>
  C31: Every result reaches the consumer exactly once.  For each call, what has been handed out is
  nothing until the call is yielded, and from then on exactly its results, in their order.
\<close>

theorem results_once:
  assumes "exec_reachable cfg s" "i < length (tools s)"
  shows "if tstatus (tools s ! i) = Yielded then results (tools s ! i) = Some (emitted_by s i) else emitted_by s i = []"
  using reachable_out [OF assms(1)] assms(2) by (auto simp: out_inv_def call_ok_def split: if_splits)

section \<open>Concrete runs\<close>

definition stream_tools :: "(nat, nat) tool list" where
  "stream_tools =
     [\<lparr>tool_name = ''Read'', tool_aliases = [], inputSchema = Inr, tool_isConcurrencySafe = (\<lambda>_. Some True),
       tool_isReadOnly = (\<lambda>_. Some True), tool_isDestructive = None, tool_interruptBehavior = None\<rparr>,
      \<lparr>tool_name = ''Edit'', tool_aliases = [], inputSchema = Inr, tool_isConcurrencySafe = (\<lambda>_. Some False),
       tool_isReadOnly = (\<lambda>_. Some False), tool_isDestructive = None, tool_interruptBehavior = None\<rparr>]"

definition stream_config :: "(nat, nat, nat, unit) exec_config" where
  "stream_config = \<lparr>toolDefinitions = stream_tools, exec_gate = (\<lambda>_ _ _. None), unavailable = (\<lambda>_. 0),
     input_summary = (\<lambda>_. None), is_progress = (\<lambda>_. False), is_error_result = (\<lambda>_. False),
     reject_content = [], ellipsis = []\<rparr>"

definition call :: "string \<Rightarrow> string \<Rightarrow> nat tool_use" where
  "call i n = \<lparr>use_id = i, use_name = n, use_input = 0\<rparr>"

definition run_events :: "(nat, nat, unit) exec_event list \<Rightarrow> (nat, nat, unit) executor_state" where
  "run_events es = foldl (\<lambda>s e. if exec_enabled s e then exec_step stream_config s e else s) (new_executor ()) es"

lemma run_events_reachable: "exec_reachable stream_config (run_events es)"
proof (induction es rule: rev_induct)
  case Nil
  show ?case by (simp add: run_events_def exec_reachable.start)
next
  case (snoc e es)
  then show ?case by (simp add: run_events_def exec_reachable.step)
qed

text \<open>
  A read is followed by an edit: the edit waits.  When the read has ended and the queue goes on, the
  edit runs.
\<close>

definition read_then_edit :: "(nat, nat, unit) exec_event list" where
  "read_then_edit = [Add (call ''a'' ''Read'') [], Add (call ''b'' ''Edit'') [], Finish 0, Resume 0]"

lemma unsafe_call_runs_alone_witness:
  "is_executing (run_events read_then_edit) 1 \<and> tstatus (tools (run_events read_then_edit) ! 0) = Completed"
proof -
  have e: "is_executing (run_events read_then_edit) 1" "\<not> tsafe (tools (run_events read_then_edit) ! 1)"
    by (code_simp, code_simp)
  have "tstatus (tools (run_events read_then_edit) ! 0) \<noteq> Yielded" by code_simp
  then show ?thesis using unsafe_call_runs_alone [OF run_events_reachable e] e(1) by blast
qed

lemma no_lost_wakeup_witness:
  "let s = run_events (take 2 read_then_edit) in
     tstatus (tools s ! 1) = Queued \<and> ((\<exists>j. is_executing s j) \<or> activations s \<noteq> [])"
proof -
  let ?s = "run_events (take 2 read_then_edit)"
  have q: "1 < length (tools ?s)" "tstatus (tools ?s ! 1) = Queued" by (code_simp, code_simp)
  show ?thesis using no_lost_wakeup [OF run_events_reachable q] q by (simp add: Let_def)
qed

lemma results_once_witness:
  "let s = run_events [Add (call ''a'' ''Read'') [], Update 0 7 None, Finish 0, ReadResults] in
     tstatus (tools s ! 0) = Yielded \<and> results (tools s ! 0) = Some (emitted_by s 0)"
proof -
  let ?s = "run_events [Add (call ''a'' ''Read'') [], Update 0 7 None, Finish 0, ReadResults]"
  have q: "0 < length (tools ?s)" "tstatus (tools ?s ! 0) = Yielded" by (code_simp, code_simp)
  show ?thesis using results_once [OF run_events_reachable q(1)] q(2) by (simp add: Let_def)
qed

text \<open>
  The comment of the class promises results in the order the calls were received.  A safe call that
  ends first is handed out first.
\<close>

lemma results_overtake:
  "map fst (emitted_results (run_events
     [Add (call ''a'' ''Read'') [], Add (call ''b'' ''Read'') [], Update 1 7 None, Finish 1, ReadResults,
      Update 0 8 None, Finish 0, ReadResults])) = [1, 0]"
  by code_simp

end
