(* ===== verification/Cron.thy ===== *)
theory Cron
  imports Js_Strings
begin

text \<open>
  Cron expressions, \<open>src/utils/cron.ts\<close>: parsing a five-field expression into lists of values, and the
  next run after a date.  A local date is a record of its fields in the proleptic Gregorian calendar;
  the time zone is one without daylight saving, so that the setters of the language's Date are
  arithmetic on the fields.  The display of schedules is not modelled.
\<close>

section \<open>Parsing\<close>

record cron_fields =
  minute :: "nat list"
  hour :: "nat list"
  dayOfMonth :: "nat list"
  month :: "nat list"
  dayOfWeek :: "nat list"

record field_range =
  range_min :: nat
  range_max :: nat

definition FIELD_RANGES :: "field_range list" where
  "FIELD_RANGES = [\<lparr>range_min = 0, range_max = 59\<rparr>, \<lparr>range_min = 0, range_max = 23\<rparr>,
     \<lparr>range_min = 1, range_max = 31\<rparr>, \<lparr>range_min = 1, range_max = 12\<rparr>, \<lparr>range_min = 0, range_max = 6\<rparr>]"

text \<open>The loop \<open>for (i = lo; i <= hi; i += step)\<close>.\<close>

function steps_from :: "nat \<Rightarrow> nat \<Rightarrow> nat \<Rightarrow> nat list" where
  "steps_from lo hi step = (if step = 0 \<or> lo > hi then [] else lo # steps_from (lo + step) hi step)"
  by pat_completeness auto
termination
  by (relation "measure (\<lambda>(lo, hi, step). Suc hi - lo)") auto

declare steps_from.simps [simp del]

definition digits :: "string \<Rightarrow> nat option" where
  "digits s = (if s \<noteq> [] \<and> list_all is_digit_char s then Some (undecimal s) else None)"

text \<open>\<open>/^\*(?:\/(\d+))?$/\<close>: the step, 1 when there is none.\<close>

definition stepMatch :: "string \<Rightarrow> nat option" where
  "stepMatch part =
     (case part of
        [] \<Rightarrow> None
      | c # rest \<Rightarrow>
          if c \<noteq> CHR ''*'' then None
          else (case rest of [] \<Rightarrow> Some 1 | d # ds \<Rightarrow> if d = CHR ''/'' then digits ds else None))"

text \<open>\<open>/^(\d+)-(\d+)(?:\/(\d+))?$/\<close>\<close>

definition rangeMatch :: "string \<Rightarrow> (nat \<times> nat \<times> nat) option" where
  "rangeMatch part =
     (let a = takeWhile is_digit_char part; r1 = dropWhile is_digit_char part in
      case r1 of
        [] \<Rightarrow> None
      | c # r2 \<Rightarrow>
          if c \<noteq> CHR ''-'' then None
          else
            (let b = takeWhile is_digit_char r2; r3 = dropWhile is_digit_char r2 in
             case (digits a, digits b) of
               (Some lo, Some hi) \<Rightarrow>
                 (case r3 of [] \<Rightarrow> Some (lo, hi, 1)
                  | d # ds \<Rightarrow> if d = CHR ''/'' then map_option (\<lambda>st. (lo, hi, st)) (digits ds) else None)
             | _ \<Rightarrow> None))"

text \<open>The values one part of a field adds.\<close>

definition expandPart :: "field_range \<Rightarrow> string \<Rightarrow> nat list option" where
  "expandPart r part =
     (let mn = range_min r; mx = range_max r; isDow = (mn = 0 \<and> mx = 6) in
      case stepMatch part of
        Some step \<Rightarrow> if step < 1 then None else Some (steps_from mn mx step)
      | None \<Rightarrow>
          (case rangeMatch part of
             Some (lo, hi, step) \<Rightarrow>
               (let effMax = (if isDow then 7 else mx) in
                if lo > hi \<or> step < 1 \<or> lo < mn \<or> hi > effMax then None
                else Some (map (\<lambda>i. if isDow \<and> i = 7 then 0 else i) (steps_from lo hi step)))
           | None \<Rightarrow>
               (case digits part of
                  Some k \<Rightarrow>
                    (let n = (if isDow \<and> k = 7 then 0 else k) in if n < mn \<or> n > mx then None else Some [n])
                | None \<Rightarrow> None)))"

fun expandParts :: "field_range \<Rightarrow> string list \<Rightarrow> nat list option" where
  "expandParts r [] = Some []"
| "expandParts r (p # ps) =
     (case expandPart r p of None \<Rightarrow> None
      | Some xs \<Rightarrow> (case expandParts r ps of None \<Rightarrow> None | Some ys \<Rightarrow> Some (xs @ ys)))"

definition expandField :: "string \<Rightarrow> field_range \<Rightarrow> nat list option" where
  "expandField field r =
     (case expandParts r (js_split '','' field) of
        None \<Rightarrow> None
      | Some out \<Rightarrow> if out = [] then None else Some (sort (remdups out)))"

text \<open>\<open>expr.trim().split(/\s+/)\<close>; the empty text splits into one empty part.\<close>

function split_spaces :: "string \<Rightarrow> string \<Rightarrow> string list" where
  "split_spaces cur [] = [rev cur]"
| "split_spaces cur (c # s) =
     (if is_js_space c then rev cur # split_spaces [] (dropWhile is_js_space s) else split_spaces (c # cur) s)"
  by pat_completeness auto
termination
  by (relation "measure (length \<circ> snd)") (auto simp: less_Suc_eq_le length_dropWhile_le)

definition parseCronExpression :: "string \<Rightarrow> cron_fields option" where
  "parseCronExpression expr =
     (let parts = split_spaces [] (js_trim expr) in
      if length parts \<noteq> 5 then None
      else (case map (\<lambda>i. expandField (parts ! i) (FIELD_RANGES ! i)) [0..<5] of
              [Some a, Some b, Some c, Some d, Some e] \<Rightarrow>
                Some \<lparr>minute = a, hour = b, dayOfMonth = c, month = d, dayOfWeek = e\<rparr>
            | _ \<Rightarrow> None))"

section \<open>Local dates\<close>

record local_date =
  d_year :: nat
  d_month :: nat
  d_date :: nat
  d_day :: nat
  d_hour :: nat
  d_minute :: nat

definition leap_year :: "nat \<Rightarrow> bool" where
  "leap_year y \<longleftrightarrow> y mod 4 = 0 \<and> (y mod 100 \<noteq> 0 \<or> y mod 400 = 0)"

definition days_in_month :: "nat \<Rightarrow> nat \<Rightarrow> nat" where
  "days_in_month y m =
     (if m = 2 then (if leap_year y then 29 else 28) else if m \<in> set [4, 6, 9, 11] then 30 else 31)"

text \<open>The first of the next month: \<open>setMonth(getMonth() + 1, 1)\<close> and \<open>setHours(0, 0, 0, 0)\<close>.\<close>

definition next_month :: "local_date \<Rightarrow> local_date" where
  "next_month t =
     \<lparr>d_year = (if d_month t = 12 then d_year t + 1 else d_year t),
      d_month = (if d_month t = 12 then 1 else d_month t + 1), d_date = 1,
      d_day = (d_day t + (days_in_month (d_year t) (d_month t) + 1 - d_date t)) mod 7,
      d_hour = 0, d_minute = 0\<rparr>"

text \<open>Midnight of the next day: \<open>setDate(getDate() + 1)\<close> and \<open>setHours(0, 0, 0, 0)\<close>.\<close>

definition next_day :: "local_date \<Rightarrow> local_date" where
  "next_day t =
     (if d_date t < days_in_month (d_year t) (d_month t)
      then t\<lparr>d_date := d_date t + 1, d_day := (d_day t + 1) mod 7, d_hour := 0, d_minute := 0\<rparr>
      else next_month t)"

definition next_hour :: "local_date \<Rightarrow> local_date" where
  "next_hour t = (if d_hour t < 23 then t\<lparr>d_hour := d_hour t + 1, d_minute := 0\<rparr> else next_day t)"

definition next_minute :: "local_date \<Rightarrow> local_date" where
  "next_minute t = (if d_minute t < 59 then t\<lparr>d_minute := d_minute t + 1\<rparr> else next_hour t)"

definition valid_date :: "local_date \<Rightarrow> bool" where
  "valid_date t \<longleftrightarrow> 1 \<le> d_month t \<and> d_month t \<le> 12 \<and> 1 \<le> d_date t \<and>
     d_date t \<le> days_in_month (d_year t) (d_month t) \<and> d_day t < 7 \<and> d_hour t < 24 \<and> d_minute t < 60"

section \<open>The next run\<close>

definition dayMatches :: "cron_fields \<Rightarrow> local_date \<Rightarrow> bool" where
  "dayMatches f t =
     (let domWild = (length (dayOfMonth f) = 31); dowWild = (length (dayOfWeek f) = 7);
          dom = (d_date t \<in> set (dayOfMonth f)); dow = (d_day t \<in> set (dayOfWeek f))
      in if domWild \<and> dowWild then True else if domWild then dow else if dowWild then dom else dom \<or> dow)"

text \<open>One iteration of the loop: the date is returned or moved forward.\<close>

definition cron_step :: "cron_fields \<Rightarrow> local_date \<Rightarrow> local_date option" where
  "cron_step f t =
     (if d_month t \<notin> set (month f) then Some (next_month t)
      else if \<not> dayMatches f t then Some (next_day t)
      else if d_hour t \<notin> set (hour f) then Some (next_hour t)
      else if d_minute t \<notin> set (minute f) then Some (next_minute t)
      else None)"

definition cron_loop :: "nat \<Rightarrow> cron_fields \<Rightarrow> local_date \<Rightarrow> local_date option" where
  "cron_loop fuel f t = search_loop (cron_step f) fuel t"

definition maxIter :: nat where "maxIter = 366 * 24 * 60"

text \<open>\<open>from\<close> is given to the minute; its seconds are cut off first.\<close>

definition computeNextCronRun :: "cron_fields \<Rightarrow> local_date \<Rightarrow> local_date option" where
  "computeNextCronRun f from_date = cron_loop maxIter f (next_minute from_date)"

end
