(* ===== verification/Cron_Next.thy ===== *)
theory Cron_Next
  imports Cron
begin

text \<open>
  The next run of a schedule is the first matching minute: the jumps of the search over months, days
  and hours miss nothing.  The minute-by-minute walk is the reference.
\<close>

section \<open>Parsed fields\<close>

definition field_wf :: "field_range \<Rightarrow> nat list \<Rightarrow> bool" where
  "field_wf r xs \<longleftrightarrow> xs \<noteq> [] \<and> sorted_wrt (<) xs \<and> set xs \<subseteq> {range_min r..range_max r}"

definition fields_wf :: "cron_fields \<Rightarrow> bool" where
  "fields_wf f \<longleftrightarrow> field_wf (FIELD_RANGES ! 0) (minute f) \<and> field_wf (FIELD_RANGES ! 1) (hour f) \<and>
     field_wf (FIELD_RANGES ! 2) (dayOfMonth f) \<and> field_wf (FIELD_RANGES ! 3) (month f) \<and>
     field_wf (FIELD_RANGES ! 4) (dayOfWeek f)"

lemma steps_from_bounds: "x \<in> set (steps_from lo hi step) \<Longrightarrow> lo \<le> x \<and> x \<le> hi"
proof (induction lo hi step rule: steps_from.induct)
  case (1 lo hi step)
  then show ?case by (cases "step = 0 \<or> lo > hi") (auto simp: steps_from.simps [of lo hi step])
qed

lemma expandPart_bounds:
  assumes "expandPart r part = Some xs" "x \<in> set xs" "range_min r \<le> range_max r"
  shows "range_min r \<le> x \<and> x \<le> range_max r"
  using assms
  by (auto simp: expandPart_def Let_def dest!: steps_from_bounds split: option.splits if_splits prod.splits)

lemma expandParts_bounds:
  "expandParts r ps = Some xs \<Longrightarrow> range_min r \<le> range_max r \<Longrightarrow> set xs \<subseteq> {range_min r..range_max r}"
proof (induction ps arbitrary: xs)
  case (Cons p ps)
  then show ?case by (auto split: option.splits dest!: expandPart_bounds)
qed simp

lemma expandField_wf:
  assumes "expandField field r = Some xs" "range_min r \<le> range_max r"
  shows "field_wf r xs"
proof -
  obtain out where out: "expandParts r (js_split '','' field) = Some out" "out \<noteq> []" "xs = sort (remdups out)"
    using assms(1) by (auto simp: expandField_def split: option.splits if_splits)
  have "sorted_wrt (<) xs" unfolding out(3) by (simp add: strict_sorted_iff)
  moreover have "set xs = set out" by (simp add: out(3))
  ultimately show ?thesis using expandParts_bounds [OF out(1) assms(2)] out(2) by (auto simp: field_wf_def)
qed

lemma parse_wf: "parseCronExpression expr = Some f \<Longrightarrow> fields_wf f"
proof -
  assume p: "parseCronExpression expr = Some f"
  define e where "e = (\<lambda>i. expandField (split_spaces [] (js_trim expr) ! i) (FIELD_RANGES ! i))"
  have l: "map e [0..<5] = [e 0, e 1, e 2, e 3, e 4]" by (simp add: upt_rec numeral_eq_Suc)
  have "(case map e [0..<5] of [Some a, Some b, Some c, Some d, Some e] \<Rightarrow>
      Some \<lparr>minute = a, hour = b, dayOfMonth = c, month = d, dayOfWeek = e\<rparr> | _ \<Rightarrow> None) = Some f"
    using p unfolding parseCronExpression_def Let_def e_def by (simp split: if_splits)
  then obtain a b c d g where v: "e 0 = Some a" "e 1 = Some b" "e 2 = Some c" "e 3 = Some d" "e 4 = Some g"
      "f = \<lparr>minute = a, hour = b, dayOfMonth = c, month = d, dayOfWeek = g\<rparr>"
    unfolding l by (cases "e 0"; cases "e 1"; cases "e 2"; cases "e 3"; cases "e 4") auto
  have r: "range_min (FIELD_RANGES ! i) \<le> range_max (FIELD_RANGES ! i)" if "i \<in> set [0, 1, 2, 3, 4]" for i
    using that by (auto simp: FIELD_RANGES_def)
  show ?thesis using v expandField_wf [OF v(1) [unfolded e_def] r] expandField_wf [OF v(2) [unfolded e_def] r]
      expandField_wf [OF v(3) [unfolded e_def] r] expandField_wf [OF v(4) [unfolded e_def] r]
      expandField_wf [OF v(5) [unfolded e_def] r]
    by (simp add: fields_wf_def)
qed

section \<open>When a schedule runs\<close>

text \<open>
  The schedule's meaning: the minute, hour and month are listed, and the day is, by its date and its
  weekday when one of the two lists is complete, by either when both are restricted.
\<close>

definition runs_on :: "cron_fields \<Rightarrow> local_date \<Rightarrow> bool" where
  "runs_on f t \<longleftrightarrow>
     (if set (dayOfMonth f) = {1..31} \<or> set (dayOfWeek f) = {0..6}
      then d_date t \<in> set (dayOfMonth f) \<and> d_day t \<in> set (dayOfWeek f)
      else d_date t \<in> set (dayOfMonth f) \<or> d_day t \<in> set (dayOfWeek f))"

definition runs_at :: "cron_fields \<Rightarrow> local_date \<Rightarrow> bool" where
  "runs_at f t \<longleftrightarrow> d_month t \<in> set (month f) \<and> d_hour t \<in> set (hour f) \<and> d_minute t \<in> set (minute f) \<and>
     runs_on f t"

lemma runs_on_time [simp]: "runs_on f (t\<lparr>d_hour := h, d_minute := m\<rparr>) = runs_on f t"
  by (simp add: runs_on_def)

lemma full_field:
  assumes "field_wf r xs"
  shows "length xs = Suc (range_max r) - range_min r \<longleftrightarrow> set xs = {range_min r..range_max r}"
proof -
  have "distinct xs" using assms by (simp add: field_wf_def strict_sorted_iff)
  then have c: "card (set xs) = length xs" by (rule distinct_card)
  have sub: "set xs \<subseteq> {range_min r..range_max r}" using assms by (simp add: field_wf_def)
  show ?thesis
  proof
    assume "length xs = Suc (range_max r) - range_min r"
    then show "set xs = {range_min r..range_max r}" using c sub by (intro card_subset_eq) auto
  next
    assume "set xs = {range_min r..range_max r}"
    then show "length xs = Suc (range_max r) - range_min r" using c by simp
  qed
qed

lemma valid_date_ranges: "valid_date t \<Longrightarrow> d_date t \<in> {1..31} \<and> d_day t \<in> {0..6}"
  by (auto simp: valid_date_def days_in_month_def split: if_splits)

lemma dayMatches_spec:
  assumes "fields_wf f" "valid_date t"
  shows "dayMatches f t \<longleftrightarrow> runs_on f t"
proof -
  have "length (dayOfMonth f) = 31 \<longleftrightarrow> set (dayOfMonth f) = {1..31}" "length (dayOfWeek f) = 7 \<longleftrightarrow> set (dayOfWeek f) = {0..6}"
    using full_field [of "FIELD_RANGES ! 2" "dayOfMonth f"] full_field [of "FIELD_RANGES ! 4" "dayOfWeek f"] assms(1)
    by (simp_all add: fields_wf_def FIELD_RANGES_def)
  then show ?thesis using valid_date_ranges [OF assms(2)] by (auto simp: dayMatches_def runs_on_def Let_def)
qed

lemma cron_step_None:
  "fields_wf f \<Longrightarrow> valid_date t \<Longrightarrow> cron_step f t = None \<longleftrightarrow> runs_at f t"
  using dayMatches_spec [of f t] by (auto simp: cron_step_def runs_at_def)

section \<open>Jumps\<close>

text \<open>From \<open>t\<close> to \<open>t'\<close> in minutes, with \<open>P\<close> on the way.\<close>

definition jump :: "(local_date \<Rightarrow> bool) \<Rightarrow> local_date \<Rightarrow> local_date \<Rightarrow> bool" where
  "jump P t t' \<longleftrightarrow> (\<exists>k. t' = (next_minute ^^ Suc k) t \<and> (\<forall>j\<le>k. P ((next_minute ^^ j) t)))"

lemma jump_minute: "P t \<Longrightarrow> jump P t (next_minute t)"
  unfolding jump_def by (rule exI [of _ 0]) simp

lemma jump_trans:
  assumes "jump P t u" "jump P u v"
  shows "jump P t v"
proof -
  obtain k where k: "u = (next_minute ^^ Suc k) t" "\<And>j. j \<le> k \<Longrightarrow> P ((next_minute ^^ j) t)"
    using assms(1) by (auto simp: jump_def)
  obtain l where l: "v = (next_minute ^^ Suc l) u" "\<And>j. j \<le> l \<Longrightarrow> P ((next_minute ^^ j) u)"
    using assms(2) by (auto simp: jump_def)
  have shift: "(next_minute ^^ j) u = (next_minute ^^ (j + Suc k)) t" for j by (simp only: k(1) funpow_add comp_apply)
  have "v = (next_minute ^^ Suc (l + Suc k)) t" using l(1) shift [of "Suc l"] by (simp only: add_Suc)
  moreover have "P ((next_minute ^^ j) t)" if "j \<le> l + Suc k" for j
  proof (cases "j \<le> k")
    case False
    then have "j = (j - Suc k) + Suc k" "j - Suc k \<le> l" using that by auto
    then show ?thesis using l(2) shift by metis
  qed (use k(2) in blast)
  ultimately show ?thesis unfolding jump_def by blast
qed

lemma jump_hour: "(\<And>m. P (t\<lparr>d_minute := m\<rparr>)) \<Longrightarrow> jump P t (next_hour t)"
proof (induction "59 - d_minute t" arbitrary: t)
  case 0
  then have "next_minute t = next_hour t" "P t" using 0(2) [of "d_minute t"] by (simp_all add: next_minute_def)
  then show ?case using jump_minute [of P t] by simp
next
  case (Suc n)
  have "next_minute t = t\<lparr>d_minute := d_minute t + 1\<rparr>" using Suc(2) by (simp add: next_minute_def)
  then have "jump P t (t\<lparr>d_minute := d_minute t + 1\<rparr>)" using jump_minute [of P t] Suc(3) [of "d_minute t"] by simp
  moreover have "jump P (t\<lparr>d_minute := d_minute t + 1\<rparr>) (next_hour (t\<lparr>d_minute := d_minute t + 1\<rparr>))"
    by (rule Suc(1)) (use Suc(2,3) in auto)
  moreover have "next_hour (t\<lparr>d_minute := d_minute t + 1\<rparr>) = next_hour t"
    by (simp add: next_hour_def next_day_def next_month_def)
  ultimately show ?case by (metis jump_trans)
qed

lemma jump_day: "(\<And>h m. P (t\<lparr>d_hour := h, d_minute := m\<rparr>)) \<Longrightarrow> jump P t (next_day t)"
proof (induction "23 - d_hour t" arbitrary: t)
  case 0
  have "P (t\<lparr>d_minute := m\<rparr>)" for m using 0(2) [where h = "d_hour t" and m = m] by simp
  then have "jump P t (next_hour t)" by (rule jump_hour)
  then show ?case using 0(1) by (simp add: next_hour_def)
next
  case (Suc n)
  let ?u = "t\<lparr>d_hour := d_hour t + 1, d_minute := 0\<rparr>"
  have "P (t\<lparr>d_minute := m\<rparr>)" for m using Suc(3) [where h = "d_hour t" and m = m] by simp
  then have "jump P t (next_hour t)" by (rule jump_hour)
  moreover have "next_hour t = ?u" using Suc(2) by (simp add: next_hour_def)
  moreover have "jump P ?u (next_day ?u)" by (rule Suc(1)) (use Suc(2,3) in auto)
  moreover have "next_day ?u = next_day t" by (simp add: next_day_def next_month_def)
  ultimately show ?case by (metis jump_trans)
qed

lemma jump_month:
  "(\<And>u. d_year u = d_year t \<Longrightarrow> d_month u = d_month t \<Longrightarrow> P u) \<Longrightarrow> jump P t (next_month t)"
proof (induction "days_in_month (d_year t) (d_month t) - d_date t" arbitrary: t)
  case 0
  have "jump P t (next_day t)" by (rule jump_day) (use 0(2) in simp)
  then show ?case using 0(1) by (simp add: next_day_def)
next
  case (Suc n)
  let ?u = "t\<lparr>d_date := d_date t + 1, d_day := (d_day t + 1) mod 7, d_hour := 0, d_minute := 0\<rparr>"
  have less: "d_date t < days_in_month (d_year t) (d_month t)" using Suc(2) by simp
  have "jump P t (next_day t)" by (rule jump_day) (use Suc(3) in simp)
  moreover have "next_day t = ?u" using less by (simp add: next_day_def)
  moreover have "jump P ?u (next_month ?u)" by (rule Suc(1)) (use Suc(2,3) in auto)
  moreover have "next_month ?u = next_month t"
  proof -
    have "((d_day t + 1) mod 7 + (days_in_month (d_year t) (d_month t) - d_date t)) mod 7 =
        (d_day t + (days_in_month (d_year t) (d_month t) + 1 - d_date t)) mod 7"
      using less by (metis Suc_diff_le Suc_eq_plus1 add.assoc add.commute less_imp_le mod_add_left_eq plus_1_eq_Suc)
    then show ?thesis by (simp add: next_month_def)
  qed
  ultimately show ?case by (metis jump_trans)
qed

lemma cron_step_jump:
  assumes "fields_wf f" "valid_date t" "cron_step f t = Some t'"
  shows "jump (\<lambda>u. \<not> runs_at f u) t t'"
proof -
  have same_day: "dayMatches f (t\<lparr>d_hour := h, d_minute := m\<rparr>) = dayMatches f t" for h m
    by (simp add: dayMatches_def)
  have no_day: "\<not> runs_at f (t\<lparr>d_hour := h, d_minute := m\<rparr>)" if "\<not> dayMatches f t" for h m
    using that by (simp add: runs_at_def dayMatches_spec [OF assms(1,2)])
  consider "d_month t \<notin> set (month f)" "t' = next_month t"
    | "\<not> dayMatches f t" "t' = next_day t"
    | "d_hour t \<notin> set (hour f)" "t' = next_hour t"
    | "d_minute t \<notin> set (minute f)" "t' = next_minute t"
    using assms(3) by (auto simp: cron_step_def split: if_splits)
  then show ?thesis
  proof cases
    case 1
    then show ?thesis by (auto simp: runs_at_def intro!: jump_month)
  next
    case 2
    then show ?thesis using no_day by (auto intro!: jump_day)
  next
    case 3
    then show ?thesis by (auto simp: runs_at_def intro!: jump_hour)
  next
    case 4
    then show ?thesis by (auto simp: runs_at_def intro!: jump_minute)
  qed
qed

lemma days_in_month_pos: "1 \<le> days_in_month y m"
  by (simp add: days_in_month_def)

lemma valid_next_month: "valid_date t \<Longrightarrow> valid_date (next_month t)"
  using days_in_month_pos by (auto simp: valid_date_def next_month_def)

lemma valid_next_minute: "valid_date t \<Longrightarrow> valid_date (next_minute t)"
proof -
  assume v: "valid_date t"
  have "valid_date (next_day t)" using v valid_next_month [OF v] by (auto simp: next_day_def valid_date_def)
  then have "valid_date (next_hour t)" using v by (auto simp: next_hour_def valid_date_def)
  then show ?thesis using v by (auto simp: next_minute_def valid_date_def)
qed

interpretation cron_search: leaping_search next_minute "runs_at f" "cron_step f" "\<lambda>t. fields_wf f \<and> valid_date t" for f
proof
  fix s s' assume "fields_wf f \<and> valid_date s" "cron_step f s = Some s'"
  then show "\<exists>k. s' = (next_minute ^^ Suc k) s \<and> (\<forall>j\<le>k. \<not> runs_at f ((next_minute ^^ j) s))"
    using cron_step_jump unfolding jump_def by blast
qed (auto simp: cron_step_None valid_next_minute)

lemma next_run_search:
  assumes "fields_wf f" "valid_date t"
  shows "case computeNextCronRun f t of
    Some t' \<Rightarrow> \<exists>n. t' = (next_minute ^^ Suc n) t \<and> runs_at f t' \<and> (\<forall>j<n. \<not> runs_at f ((next_minute ^^ Suc j) t))
  | None \<Rightarrow> \<forall>j<366 * 24 * 60. \<not> runs_at f ((next_minute ^^ Suc j) t)"
proof -
  have ok: "fields_wf f \<and> valid_date (next_minute t)" using assms valid_next_minute by blast
  have shift: "(next_minute ^^ j) (next_minute t) = (next_minute ^^ Suc j) t" for j by (simp add: funpow_swap1)
  show ?thesis
  proof (cases "computeNextCronRun f t")
    case None
    then show ?thesis using cron_search.search_None [OF ok] shift
      by (auto simp: computeNextCronRun_def cron_loop_def maxIter_def)
  next
    case (Some t')
    then show ?thesis using cron_search.search_Some [OF ok] shift
      by (auto simp: computeNextCronRun_def cron_loop_def)
  qed
qed

section \<open>Schedules that never run\<close>

definition feb_31 :: cron_fields where
  "feb_31 = \<lparr>minute = [0], hour = [0], dayOfMonth = [31], month = [2], dayOfWeek = [0, 1, 2, 3, 4, 5, 6]\<rparr>"

lemma feb_31_parses: "parseCronExpression ''0 0 31 2 *'' = Some feb_31"
  by code_simp

text \<open>
  The comment calls a missing next run impossible for a valid expression, but this valid one has no
  run at any date.
\<close>

lemma feb_31_never: "valid_date t \<Longrightarrow> \<not> runs_at feb_31 t"
  by (auto simp: runs_at_def runs_on_def feb_31_def valid_date_def days_in_month_def split: if_splits)

lemma feb_31_no_next: "valid_date t \<Longrightarrow> computeNextCronRun feb_31 t = None"
proof -
  assume v: "valid_date t"
  have "fields_wf feb_31" by (rule parse_wf [OF feb_31_parses])
  from next_run_search [OF this v] show ?thesis
    using feb_31_never cron_search.ok_ticks valid_next_minute v
    by (cases "computeNextCronRun feb_31 t") (auto, metis funpow_swap1 \<open>fields_wf feb_31\<close>)
qed

section \<open>Properties\<close>

text \<open>
  C38: A parsed schedule is well-formed: every field is a non-empty, strictly increasing list of
  values in its range, with Sunday always written as 0.
\<close>

theorem parsed_fields_wf:
  assumes "parseCronExpression expr = Some f"
  shows "fields_wf f"
  by (rule parse_wf [OF assms])

lemma parsed_fields_wf_witness:
  "parseCronExpression ''*/15 9-17/4 * * 5-7'' =
     Some \<lparr>minute = [0, 15, 30, 45], hour = [9, 13, 17], dayOfMonth = [1..<32], month = [1..<13], dayOfWeek = [0, 5, 6]\<rparr> \<and>
   fields_wf \<lparr>minute = [0, 15, 30, 45], hour = [9, 13, 17], dayOfMonth = [1..<32], month = [1..<13], dayOfWeek = [0, 5, 6]\<rparr>"
proof -
  have p: "parseCronExpression ''*/15 9-17/4 * * 5-7'' =
     Some \<lparr>minute = [0, 15, 30, 45], hour = [9, 13, 17], dayOfMonth = [1..<32], month = [1..<13], dayOfWeek = [0, 5, 6]\<rparr>"
    by code_simp
  from parsed_fields_wf [OF this] p show ?thesis by blast
qed

text \<open>
  C37: The next run is the first one.  The date computed for a parsed schedule is reached from the
  start by single minutes, the schedule runs then and at no minute before, although the search
  jumps over months, days and hours; when no date is returned, the schedule does not run in any of
  the next 366 days.
\<close>

theorem next_run_first:
  assumes "parseCronExpression expr = Some f" "valid_date t"
  shows "case computeNextCronRun f t of
    Some t' \<Rightarrow> \<exists>n. t' = (next_minute ^^ Suc n) t \<and> runs_at f t' \<and> (\<forall>j<n. \<not> runs_at f ((next_minute ^^ Suc j) t))
  | None \<Rightarrow> \<forall>j<366 * 24 * 60. \<not> runs_at f ((next_minute ^^ Suc j) t)"
  by (rule next_run_search [OF parse_wf [OF assms(1)] assms(2)])

definition late_february :: local_date where
  "late_february = \<lparr>d_year = 2024, d_month = 2, d_date = 27, d_day = 2, d_hour = 23, d_minute = 59\<rparr>"

definition leap_day :: local_date where
  "leap_day = \<lparr>d_year = 2024, d_month = 2, d_date = 29, d_day = 4, d_hour = 0, d_minute = 0\<rparr>"

lemma next_run_first_witness:
  "\<exists>f n. parseCronExpression ''0 0 29 2 *'' = Some f \<and> computeNextCronRun f late_february = Some leap_day \<and>
     leap_day = (next_minute ^^ Suc n) late_february \<and> runs_at f leap_day"
proof -
  define f where "f = \<lparr>minute = [0], hour = [0], dayOfMonth = [29], month = [2], dayOfWeek = [0, 1, 2, 3, 4, 5, 6]\<rparr>"
  have p: "parseCronExpression ''0 0 29 2 *'' = Some f" unfolding f_def by code_simp
  have v: "valid_date late_february" by (simp add: valid_date_def late_february_def days_in_month_def)
  have "search_loop (cron_step f) 3 (next_minute late_february) = Some leap_day"
    unfolding f_def by code_simp
  from search_loop_more [OF this, of "maxIter - 3"]
  have "search_loop (cron_step f) (3 + (maxIter - 3)) (next_minute late_february) = Some leap_day" .
  moreover have "3 + (maxIter - 3) = maxIter" by (simp add: maxIter_def)
  ultimately have "computeNextCronRun f late_february = Some leap_day"
    by (simp only: computeNextCronRun_def cron_loop_def)
  with next_run_first [OF p v] p show ?thesis by auto
qed

end
