(* ===== verification/Keybindings.thy ===== *)
theory Keybindings
  imports Prelude
begin

text \<open>
  Keybindings: the notation of keystrokes and chords (\<open>src/keybindings/parser.ts\<close>), the match of a key
  press (\<open>match.ts\<close>), the resolution of presses to actions (\<open>resolver.ts\<close>) and the normal form that
  reserved shortcuts are compared in (\<open>reservedShortcuts.ts\<close>).  Keys are named by texts with arrows in
  them, so a text is a list of UTF-16 code units, as numbers.  Lower case is modelled for the
  letters up to code unit 255.
\<close>

section \<open>Texts of code units\<close>

type_synonym utext = "nat list"

definition u :: "string \<Rightarrow> utext" where "u s = map of_char s"

definition ARROW_UP :: utext where "ARROW_UP = [0x2191]"
definition ARROW_DOWN :: utext where "ARROW_DOWN = [0x2193]"
definition ARROW_LEFT :: utext where "ARROW_LEFT = [0x2190]"
definition ARROW_RIGHT :: utext where "ARROW_RIGHT = [0x2192]"

definition lower_unit :: "nat \<Rightarrow> nat" where
  "lower_unit c = (if 65 \<le> c \<and> c \<le> 90 \<or> 192 \<le> c \<and> c \<le> 222 \<and> c \<noteq> 215 then c + 32 else c)"

definition u_lower :: "utext \<Rightarrow> utext" where "u_lower t = map lower_unit t"

definition u_space :: "nat \<Rightarrow> bool" where
  "u_space c \<longleftrightarrow> 9 \<le> c \<and> c \<le> 13 \<or> 0x2000 \<le> c \<and> c \<le> 0x200A \<or>
     c \<in> set [32, 160, 0x1680, 0x2028, 0x2029, 0x202F, 0x205F, 0x3000, 0xFEFF]"

definition u_trim :: "utext \<Rightarrow> utext" where
  "u_trim t = rev (dropWhile u_space (rev (dropWhile u_space t)))"

text \<open>\<open>t.split(c)\<close> for one code unit, and \<open>t.split(/\s+/)\<close>.\<close>

fun u_split :: "nat \<Rightarrow> utext \<Rightarrow> utext list" where
  "u_split c [] = [[]]"
| "u_split c (x # t) =
     (if x = c then [] # u_split c t else (case u_split c t of p # ps \<Rightarrow> (x # p) # ps | [] \<Rightarrow> [[x]]))"

function u_words :: "utext \<Rightarrow> utext \<Rightarrow> utext list" where
  "u_words cur [] = [rev cur]"
| "u_words cur (c # t) =
     (if u_space c then rev cur # u_words [] (dropWhile u_space t) else u_words (c # cur) t)"
  by pat_completeness auto
termination
  by (relation "measure (length \<circ> snd)") (auto simp: less_Suc_eq_le length_dropWhile_le)

fun u_join :: "utext \<Rightarrow> utext list \<Rightarrow> utext" where
  "u_join sep [] = []"
| "u_join sep [p] = p"
| "u_join sep (p # q # ps) = p @ sep @ u_join sep (q # ps)"

section \<open>Keystrokes\<close>

record keystroke =
  key :: utext
  with_ctrl :: bool
  with_alt :: bool
  with_shift :: bool
  with_meta :: bool
  with_super :: bool

definition no_keystroke :: keystroke where
  "no_keystroke = \<lparr>key = [], with_ctrl = False, with_alt = False, with_shift = False, with_meta = False, with_super = False\<rparr>"

definition key_alias :: "utext \<Rightarrow> utext" where
  "key_alias l =
     (if l = u ''esc'' then u ''escape'' else if l = u ''return'' then u ''enter'' else if l = u ''space'' then u '' ''
      else if l = ARROW_UP then u ''up'' else if l = ARROW_DOWN then u ''down''
      else if l = ARROW_LEFT then u ''left'' else if l = ARROW_RIGHT then u ''right'' else l)"

text \<open>The \<open>switch\<close> on one part of the notation, in lower case.\<close>

definition apply_part :: "keystroke \<Rightarrow> utext \<Rightarrow> keystroke" where
  "apply_part ks l =
     (if l \<in> set [u ''ctrl'', u ''control''] then ks\<lparr>with_ctrl := True\<rparr>
      else if l \<in> set [u ''alt'', u ''opt'', u ''option''] then ks\<lparr>with_alt := True\<rparr>
      else if l = u ''shift'' then ks\<lparr>with_shift := True\<rparr>
      else if l = u ''meta'' then ks\<lparr>with_meta := True\<rparr>
      else if l \<in> set [u ''cmd'', u ''command'', u ''super'', u ''win''] then ks\<lparr>with_super := True\<rparr>
      else ks\<lparr>key := key_alias l\<rparr>)"

definition parseKeystroke :: "utext \<Rightarrow> keystroke" where
  "parseKeystroke input = foldl (\<lambda>ks part. apply_part ks (u_lower part)) no_keystroke (u_split 43 input)"

definition parseChord :: "utext \<Rightarrow> keystroke list" where
  "parseChord input =
     (if input = u '' '' then [parseKeystroke (u ''space'')] else map parseKeystroke (u_words [] (u_trim input)))"

definition keyToDisplayName :: "utext \<Rightarrow> utext" where
  "keyToDisplayName k =
     (if k = u ''escape'' then u ''Esc'' else if k = u '' '' then u ''Space'' else if k = u ''tab'' then u ''tab''
      else if k = u ''enter'' then u ''Enter'' else if k = u ''backspace'' then u ''Backspace''
      else if k = u ''delete'' then u ''Delete'' else if k = u ''up'' then ARROW_UP else if k = u ''down'' then ARROW_DOWN
      else if k = u ''left'' then ARROW_LEFT else if k = u ''right'' then ARROW_RIGHT
      else if k = u ''pageup'' then u ''PageUp'' else if k = u ''pagedown'' then u ''PageDown''
      else if k = u ''home'' then u ''Home'' else if k = u ''end'' then u ''End'' else k)"

definition keystroke_parts :: "keystroke \<Rightarrow> utext list" where
  "keystroke_parts ks =
     (if with_ctrl ks then [u ''ctrl''] else []) @ (if with_alt ks then [u ''alt''] else []) @
     (if with_shift ks then [u ''shift''] else []) @ (if with_meta ks then [u ''meta''] else []) @
     (if with_super ks then [u ''cmd''] else []) @ [keyToDisplayName (key ks)]"

definition keystrokeToString :: "keystroke \<Rightarrow> utext" where
  "keystrokeToString ks = u_join [43] (keystroke_parts ks)"

definition chordToString :: "keystroke list \<Rightarrow> utext" where
  "chordToString chord = u_join [32] (map keystrokeToString chord)"

datatype display_platform = MacOS | OtherPlatform

definition keystrokeToDisplayString :: "display_platform \<Rightarrow> keystroke \<Rightarrow> utext" where
  "keystrokeToDisplayString platform ks =
     u_join [43]
       ((if with_ctrl ks then [u ''ctrl''] else []) @
        (if with_alt ks \<or> with_meta ks then [if platform = MacOS then u ''opt'' else u ''alt''] else []) @
        (if with_shift ks then [u ''shift''] else []) @
        (if with_super ks then [if platform = MacOS then u ''cmd'' else u ''super''] else []) @
        [keyToDisplayName (key ks)])"

definition chordToDisplayString :: "display_platform \<Rightarrow> keystroke list \<Rightarrow> utext" where
  "chordToDisplayString platform chord = u_join [32] (map (keystrokeToDisplayString platform) chord)"

text \<open>A binding without an action removes what it shadows.\<close>

record binding =
  chord :: "keystroke list"
  action :: "string option"
  binding_context :: string

record keybinding_block =
  block_context :: string
  block_bindings :: "(utext \<times> string option) list"

definition parseBindings :: "keybinding_block list \<Rightarrow> binding list" where
  "parseBindings blocks =
     concat (map (\<lambda>b. map (\<lambda>(k, a). \<lparr>chord = parseChord k, action = a, binding_context = block_context b\<rparr>)
       (block_bindings b)) blocks)"

section \<open>Key presses\<close>

datatype special_key =
    EscapeKey | ReturnKey | TabKey | BackspaceKey | DeleteKey | UpArrow | DownArrow | LeftArrow | RightArrow
  | PageUp | PageDown | WheelUp | WheelDown | HomeKey | EndKey

text \<open>The terminal's report: its flags, of which several may be set, and the modifiers.\<close>

record ink_key =
  flags :: "special_key \<Rightarrow> bool"
  ink_ctrl :: bool
  ink_shift :: bool
  ink_meta :: bool
  ink_super :: bool

definition special_names :: "(special_key \<times> string) list" where
  "special_names = [(EscapeKey, ''escape''), (ReturnKey, ''enter''), (TabKey, ''tab''), (BackspaceKey, ''backspace''),
     (DeleteKey, ''delete''), (UpArrow, ''up''), (DownArrow, ''down''), (LeftArrow, ''left''), (RightArrow, ''right''),
     (PageUp, ''pageup''), (PageDown, ''pagedown''), (WheelUp, ''wheelup''), (WheelDown, ''wheeldown''),
     (HomeKey, ''home''), (EndKey, ''end'')]"

definition getKeyName :: "utext \<Rightarrow> ink_key \<Rightarrow> utext option" where
  "getKeyName input k =
     (case find (\<lambda>(f, _). flags k f) special_names of
        Some (_, name) \<Rightarrow> Some (u name)
      | None \<Rightarrow> if length input = 1 then Some (u_lower input) else None)"

text \<open>The modifiers are given with the meta flag apart, as it is ignored for the escape key.\<close>

definition modifiersMatch :: "ink_key \<Rightarrow> bool \<Rightarrow> keystroke \<Rightarrow> bool" where
  "modifiersMatch k meta target \<longleftrightarrow>
     \<not> (ink_ctrl k \<noteq> with_ctrl target) \<and> \<not> (ink_shift k \<noteq> with_shift target) \<and>
     \<not> (meta \<noteq> (with_alt target \<or> with_meta target)) \<and> \<not> (ink_super k \<noteq> with_super target)"

definition matchesKeystroke :: "utext \<Rightarrow> ink_key \<Rightarrow> keystroke \<Rightarrow> bool" where
  "matchesKeystroke input k target \<longleftrightarrow>
     (if getKeyName input k \<noteq> Some (key target) then False
      else if flags k EscapeKey then modifiersMatch k False target
      else modifiersMatch k (ink_meta k) target)"

definition matchesBinding :: "utext \<Rightarrow> ink_key \<Rightarrow> binding \<Rightarrow> bool" where
  "matchesBinding input k b \<longleftrightarrow>
     (case chord b of [ks] \<Rightarrow> matchesKeystroke input k ks | _ \<Rightarrow> False)"

section \<open>Resolution\<close>

datatype resolve_result = Match string | NoMatch | Unbound
datatype chord_result = Resolved resolve_result | ChordStarted "keystroke list" | ChordCancelled

definition resolve_binding :: "binding option \<Rightarrow> resolve_result" where
  "resolve_binding b = (case b of None \<Rightarrow> NoMatch
     | Some b \<Rightarrow> (case action b of None \<Rightarrow> Unbound | Some a \<Rightarrow> Match a))"

definition last_match :: "(binding \<Rightarrow> bool) \<Rightarrow> binding list \<Rightarrow> binding option" where
  "last_match P bs = foldl (\<lambda>m b. if P b then Some b else m) None bs"

definition resolveKey :: "utext \<Rightarrow> ink_key \<Rightarrow> string list \<Rightarrow> binding list \<Rightarrow> resolve_result" where
  "resolveKey input k activeContexts bindings =
     resolve_binding
       (last_match (\<lambda>b. length (chord b) = 1 \<and> binding_context b \<in> set activeContexts \<and> matchesBinding input k b) bindings)"

definition getBindingDisplayText :: "string \<Rightarrow> string \<Rightarrow> binding list \<Rightarrow> utext option" where
  "getBindingDisplayText a c bindings =
     map_option (chordToString \<circ> chord) (find (\<lambda>b. action b = Some a \<and> binding_context b = c) (rev bindings))"

definition buildKeystroke :: "utext \<Rightarrow> ink_key \<Rightarrow> keystroke option" where
  "buildKeystroke input k =
     (case getKeyName input k of
        None \<Rightarrow> None
      | Some keyName \<Rightarrow>
          if keyName = [] then None
          else (let effectiveMeta = (if flags k EscapeKey then False else ink_meta k)
                in Some \<lparr>key = keyName, with_ctrl = ink_ctrl k, with_alt = effectiveMeta, with_shift = ink_shift k,
                         with_meta = effectiveMeta, with_super = ink_super k\<rparr>))"

definition keystrokesEqual :: "keystroke \<Rightarrow> keystroke \<Rightarrow> bool" where
  "keystrokesEqual a b \<longleftrightarrow> key a = key b \<and> with_ctrl a = with_ctrl b \<and> with_shift a = with_shift b \<and>
     (with_alt a \<or> with_meta a) = (with_alt b \<or> with_meta b) \<and> with_super a = with_super b"

definition chordPrefixMatches :: "keystroke list \<Rightarrow> binding \<Rightarrow> bool" where
  "chordPrefixMatches pre b \<longleftrightarrow>
     (if length pre \<ge> length (chord b) then False
      else list_all (\<lambda>i. keystrokesEqual (pre ! i) (chord b ! i)) [0..<length pre])"

definition chordExactlyMatches :: "keystroke list \<Rightarrow> binding \<Rightarrow> bool" where
  "chordExactlyMatches c b \<longleftrightarrow>
     (if length c \<noteq> length (chord b) then False
      else list_all (\<lambda>i. keystrokesEqual (c ! i) (chord b ! i)) [0..<length c])"

definition chordWinners :: "keystroke list \<Rightarrow> binding list \<Rightarrow> utext \<rightharpoonup> string option" where
  "chordWinners testChord bs =
     foldl (\<lambda>m b. if length (chord b) > length testChord \<and> chordPrefixMatches testChord b
                  then m(chordToString (chord b) \<mapsto> action b) else m) (\<lambda>_. None) bs"

definition hasLongerChords :: "keystroke list \<Rightarrow> binding list \<Rightarrow> bool" where
  "hasLongerChords testChord bs \<longleftrightarrow>
     list_ex (\<lambda>b. case chordWinners testChord bs (chordToString (chord b)) of Some (Some a) \<Rightarrow> True | _ \<Rightarrow> False) bs"

definition resolveKeyWithChordState ::
  "utext \<Rightarrow> ink_key \<Rightarrow> string list \<Rightarrow> binding list \<Rightarrow> keystroke list option \<Rightarrow> chord_result" where
  "resolveKeyWithChordState input k activeContexts bindings pending =
     (if flags k EscapeKey \<and> pending \<noteq> None then ChordCancelled
      else (case buildKeystroke input k of
              None \<Rightarrow> if pending \<noteq> None then ChordCancelled else Resolved NoMatch
            | Some currentKeystroke \<Rightarrow>
                (let testChord = (case pending of Some p \<Rightarrow> p @ [currentKeystroke] | None \<Rightarrow> [currentKeystroke]);
                     contextBindings = filter (\<lambda>b. binding_context b \<in> set activeContexts) bindings
                 in if hasLongerChords testChord contextBindings then ChordStarted testChord
                    else (case last_match (chordExactlyMatches testChord) contextBindings of
                            Some b \<Rightarrow> Resolved (resolve_binding (Some b))
                          | None \<Rightarrow> if pending \<noteq> None then ChordCancelled else Resolved NoMatch))))"

section \<open>The normal form of reserved shortcuts\<close>

definition modifier_words :: "utext list" where
  "modifier_words = map u [''ctrl'', ''control'', ''alt'', ''opt'', ''option'', ''meta'', ''cmd'', ''command'', ''shift'']"

definition modifier_name :: "utext \<Rightarrow> utext" where
  "modifier_name l =
     (if l = u ''control'' then u ''ctrl'' else if l = u ''option'' \<or> l = u ''opt'' then u ''alt''
      else if l = u ''command'' \<or> l = u ''cmd'' then u ''cmd'' else l)"

fun u_le :: "utext \<Rightarrow> utext \<Rightarrow> bool" where
  "u_le [] t = True"
| "u_le (x # s) [] = False"
| "u_le (x # s) (y # t) = (x < y \<or> x = y \<and> u_le s t)"

fun u_insert :: "utext \<Rightarrow> utext list \<Rightarrow> utext list" where
  "u_insert x [] = [x]"
| "u_insert x (y # ys) = (if u_le x y then x # y # ys else y # u_insert x ys)"

definition normalizeStep :: "utext \<Rightarrow> utext" where
  "normalizeStep st =
     (let lowers = map (u_lower \<circ> u_trim) (u_split 43 st);
          modifiers = map modifier_name (filter (\<lambda>l. l \<in> set modifier_words) lowers);
          mainKey = foldl (\<lambda>m l. if l \<in> set modifier_words then m else l) [] lowers
      in u_join [43] (foldr u_insert modifiers [] @ [mainKey]))"

definition normalizeKeyForComparison :: "utext \<Rightarrow> utext" where
  "normalizeKeyForComparison k = u_join [32] (map normalizeStep (u_words [] (u_trim k)))"

end
