(* ===== verification/Keybinding_Laws.thy ===== *)
theory Keybinding_Laws
  imports Keybindings
begin

text \<open>
  The notation of keystrokes is stable under printing and parsing, and the two resolvers of key
  presses agree.
\<close>

section \<open>Splitting and joining\<close>

lemma u_split_ne [simp]: "u_split c t \<noteq> []"
  by (induction t) (auto split: list.splits)

lemma u_split_parts: "p \<in> set (u_split c t) \<Longrightarrow> c \<notin> set p"
  by (induction t arbitrary: p) (auto split: list.splits if_splits)

lemma u_split_plain: "c \<notin> set p \<Longrightarrow> u_split c (p @ c # t) = p # u_split c t"
  by (induction p) auto

lemma u_split_last: "c \<notin> set p \<Longrightarrow> u_split c p = [p]"
  by (induction p) auto

lemma u_split_join: "ps \<noteq> [] \<Longrightarrow> (\<And>p. p \<in> set ps \<Longrightarrow> c \<notin> set p) \<Longrightarrow> u_split c (u_join [c] ps) = ps"
  by (induction "[c]" ps rule: u_join.induct) (auto simp: u_split_last u_split_plain)

section \<open>Canonical keys\<close>

text \<open>Texts of characters are told apart by their characters, and an arrow is not among them.\<close>

lemma u_inj [simp]: "u s = u t \<longleftrightarrow> s = t"
  by (simp add: u_def inj_map_eq_map inj_def)

lemma u_units: "x \<in> set (u s) \<Longrightarrow> x < 256"
  by (auto simp: u_def)

lemma plus_in_text [simp]: "43 \<in> set (u s) \<longleftrightarrow> CHR ''+'' \<in> set s"
proof -
  have "of_char CHR ''+'' \<in> set (u s) \<longleftrightarrow> CHR ''+'' \<in> set s"
    unfolding u_def set_map by (rule inj_image_mem_iff) (auto simp: inj_def)
  then show ?thesis by simp
qed

lemma u_Nil_iff [simp]: "u s = [] \<longleftrightarrow> s = []" "[] = u s \<longleftrightarrow> s = []"
  by (auto simp: u_def)

lemma arrow_not_text [simp]:
  "ARROW_UP \<noteq> u s" "ARROW_DOWN \<noteq> u s" "ARROW_LEFT \<noteq> u s" "ARROW_RIGHT \<noteq> u s"
  "u s \<noteq> ARROW_UP" "u s \<noteq> ARROW_DOWN" "u s \<noteq> ARROW_LEFT" "u s \<noteq> ARROW_RIGHT"
  using u_units [of _ s] by (fastforce simp: ARROW_UP_def ARROW_DOWN_def ARROW_LEFT_def ARROW_RIGHT_def)+

lemma arrows_distinct [simp]:
  "ARROW_UP \<noteq> ARROW_DOWN" "ARROW_UP \<noteq> ARROW_LEFT" "ARROW_UP \<noteq> ARROW_RIGHT" "ARROW_DOWN \<noteq> ARROW_UP"
  "ARROW_DOWN \<noteq> ARROW_LEFT" "ARROW_DOWN \<noteq> ARROW_RIGHT" "ARROW_LEFT \<noteq> ARROW_UP" "ARROW_LEFT \<noteq> ARROW_DOWN"
  "ARROW_LEFT \<noteq> ARROW_RIGHT" "ARROW_RIGHT \<noteq> ARROW_UP" "ARROW_RIGHT \<noteq> ARROW_DOWN" "ARROW_RIGHT \<noteq> ARROW_LEFT"
  by (simp_all add: ARROW_UP_def ARROW_DOWN_def ARROW_LEFT_def ARROW_RIGHT_def)

lemma lower_unit_idem [simp]: "lower_unit (lower_unit c) = lower_unit c"
  by (simp add: lower_unit_def)

lemma u_lower_idem [simp]: "u_lower (u_lower t) = u_lower t"
  by (simp add: u_lower_def comp_def)

lemma lower_plus: "43 \<in> set (u_lower t) \<longleftrightarrow> 43 \<in> set t"
  by (force simp: u_lower_def lower_unit_def)

lemma lower_arrow [simp]:
  "u_lower ARROW_UP = ARROW_UP" "u_lower ARROW_DOWN = ARROW_DOWN"
  "u_lower ARROW_LEFT = ARROW_LEFT" "u_lower ARROW_RIGHT = ARROW_RIGHT"
  by (simp_all add: u_lower_def lower_unit_def ARROW_UP_def ARROW_DOWN_def ARROW_LEFT_def ARROW_RIGHT_def)

lemma lower_names [simp]:
  "u_lower (u ''Esc'') = u ''esc''" "u_lower (u ''Space'') = u ''space''" "u_lower (u ''Enter'') = u ''enter''"
  "u_lower (u ''Backspace'') = u ''backspace''" "u_lower (u ''Delete'') = u ''delete''"
  "u_lower (u ''PageUp'') = u ''pageup''" "u_lower (u ''PageDown'') = u ''pagedown''"
  "u_lower (u ''Home'') = u ''home''" "u_lower (u ''End'') = u ''end''"
  "u_lower (u ''ctrl'') = u ''ctrl''" "u_lower (u ''alt'') = u ''alt''" "u_lower (u ''shift'') = u ''shift''"
  "u_lower (u ''meta'') = u ''meta''" "u_lower (u ''cmd'') = u ''cmd''"
  by (simp_all add: u_lower_def lower_unit_def u_def)

lemma lower_plain: "list_all (\<lambda>c. \<not> (65 \<le> c \<and> c \<le> 90) \<and> c < 192) t \<Longrightarrow> u_lower t = t"
  by (induction t) (auto simp: u_lower_def lower_unit_def)

definition notation_words :: "utext list" where
  "notation_words = map u [''ctrl'', ''control'', ''alt'', ''opt'', ''option'', ''shift'', ''meta'', ''cmd'', ''command'',
     ''super'', ''win'', ''esc'', ''return'', ''space''] @ [ARROW_UP, ARROW_DOWN, ARROW_LEFT, ARROW_RIGHT]"

text \<open>The names of keys the parser produces.\<close>

definition canonical_key :: "utext \<Rightarrow> bool" where
  "canonical_key k \<longleftrightarrow> 43 \<notin> set k \<and> u_lower k = k \<and> k \<notin> set notation_words"

lemma canonical_constants:
  "canonical_key []" "canonical_key (u ''escape'')" "canonical_key (u ''enter'')" "canonical_key (u '' '')"
  "canonical_key (u ''up'')" "canonical_key (u ''down'')" "canonical_key (u ''left'')" "canonical_key (u ''right'')"
proof -
  have [simp]: "u_lower (u s) = u s" "43 \<notin> set (u s)"
    if "s \<in> set [[], ''escape'', ''enter'', '' '', ''up'', ''down'', ''left'', ''right'']" for s
    using that by (auto intro!: lower_plain simp: u_def)
  have "canonical_key (u s)" if "s \<in> set [[], ''escape'', ''enter'', '' '', ''up'', ''down'', ''left'', ''right'']" for s
    using that by (simp add: canonical_key_def) (auto simp: notation_words_def)
  from this [of "[]"] this [of "''escape''"] this [of "''enter''"] this [of "'' ''"] this [of "''up''"]
    this [of "''down''"] this [of "''left''"] this [of "''right''"]
  show "canonical_key []" "canonical_key (u ''escape'')" "canonical_key (u ''enter'')" "canonical_key (u '' '')"
    "canonical_key (u ''up'')" "canonical_key (u ''down'')" "canonical_key (u ''left'')" "canonical_key (u ''right'')"
    by (simp_all add: u_def [of "[]"])
qed

lemma canonical_alias:
  assumes "43 \<notin> set l" "u_lower l = l"
    "l \<notin> set (map u [''ctrl'', ''control'', ''alt'', ''opt'', ''option'', ''shift'', ''meta'', ''cmd'', ''command'', ''super'', ''win''])"
  shows "canonical_key (key_alias l)"
  unfolding key_alias_def using canonical_constants assms
  by (simp add: canonical_key_def notation_words_def)

lemma canonical_apply_part:
  assumes "canonical_key (key ks)" "43 \<notin> set l" "u_lower l = l"
  shows "canonical_key (key (apply_part ks l))"
  using assms(1) canonical_alias [OF assms(2,3)] by (simp add: apply_part_def)

lemma canonical_parse: "canonical_key (key (parseKeystroke input))"
proof -
  have "canonical_key (key (foldl (\<lambda>ks part. apply_part ks (u_lower part)) ks parts))"
    if "canonical_key (key ks)" "\<And>p. p \<in> set parts \<Longrightarrow> 43 \<notin> set p" for ks parts
    using that
    by (induction parts arbitrary: ks) (simp_all add: canonical_apply_part lower_plus)
  then show ?thesis unfolding parseKeystroke_def
    by (simp add: no_keystroke_def canonical_constants u_split_parts)
qed

lemma display_no_plus: "43 \<notin> set k \<Longrightarrow> 43 \<notin> set (keyToDisplayName k)"
  by (simp add: keyToDisplayName_def ARROW_UP_def ARROW_DOWN_def ARROW_LEFT_def ARROW_RIGHT_def)

lemma apply_modifier:
  "apply_part ks (u_lower (u ''ctrl'')) = ks\<lparr>with_ctrl := True\<rparr>" "apply_part ks (u_lower (u ''alt'')) = ks\<lparr>with_alt := True\<rparr>"
  "apply_part ks (u_lower (u ''shift'')) = ks\<lparr>with_shift := True\<rparr>" "apply_part ks (u_lower (u ''meta'')) = ks\<lparr>with_meta := True\<rparr>"
  "apply_part ks (u_lower (u ''cmd'')) = ks\<lparr>with_super := True\<rparr>"
  by (simp_all add: apply_part_def)

lemma apply_display:
  assumes "canonical_key k"
  shows "apply_part ks (u_lower (keyToDisplayName k)) = ks\<lparr>key := k\<rparr>"
proof (cases "keyToDisplayName k = k")
  case True
  have "u_lower k = k" "k \<notin> set notation_words" using assms by (auto simp: canonical_key_def)
  then show ?thesis unfolding True
    by (simp add: apply_part_def key_alias_def notation_words_def)
next
  case False
  then show ?thesis
    by (simp add: keyToDisplayName_def split: if_splits) (simp_all add: apply_part_def key_alias_def)
qed

lemma foldl_if: "foldl f a (if b then [x] else []) = (if b then f a x else a)"
  by simp

lemma set_modifier:
  "(if b then ks\<lparr>with_ctrl := True\<rparr> else ks) = ks\<lparr>with_ctrl := b \<or> with_ctrl ks\<rparr>"
  "(if b then ks\<lparr>with_alt := True\<rparr> else ks) = ks\<lparr>with_alt := b \<or> with_alt ks\<rparr>"
  "(if b then ks\<lparr>with_shift := True\<rparr> else ks) = ks\<lparr>with_shift := b \<or> with_shift ks\<rparr>"
  "(if b then ks\<lparr>with_meta := True\<rparr> else ks) = ks\<lparr>with_meta := b \<or> with_meta ks\<rparr>"
  "(if b then ks\<lparr>with_super := True\<rparr> else ks) = ks\<lparr>with_super := b \<or> with_super ks\<rparr>"
  by (simp_all split: if_split)

text \<open>The parser run over the parts that the printer writes.\<close>

lemma apply_parts:
  assumes "canonical_key (key ks)"
  shows "foldl (\<lambda>ks part. apply_part ks (u_lower part)) no_keystroke (keystroke_parts ks) = ks"
proof -
  let ?f = "\<lambda>ks part. apply_part ks (u_lower part)"
  have "foldl ?f no_keystroke (keystroke_parts ks) =
      no_keystroke\<lparr>with_ctrl := with_ctrl ks, with_alt := with_alt ks, with_shift := with_shift ks,
        with_meta := with_meta ks, with_super := with_super ks, key := key ks\<rparr>"
    unfolding keystroke_parts_def foldl_append foldl_if apply_modifier set_modifier foldl.simps
      apply_display [OF assms] unfolding no_keystroke_def keystroke.simps simp_thms ..
  then show ?thesis by (simp add: no_keystroke_def)
qed

lemma keystroke_parse_print:
  assumes "canonical_key (key ks)"
  shows "parseKeystroke (keystrokeToString ks) = ks"
proof -
  have d: "43 \<notin> set (keyToDisplayName (key ks))"
    using assms by (intro display_no_plus) (simp add: canonical_key_def)
  have "43 \<notin> set p" if "p \<in> set (keystroke_parts ks)" for p
    using that d unfolding keystroke_parts_def by (auto split: if_splits)
  then have "u_split 43 (keystrokeToString ks) = keystroke_parts ks"
    unfolding keystrokeToString_def by (intro u_split_join) (auto simp: keystroke_parts_def)
  then have "parseKeystroke (keystrokeToString ks) =
      foldl (\<lambda>ks part. apply_part ks (u_lower part)) no_keystroke (keystroke_parts ks)"
    by (simp add: parseKeystroke_def)
  also have "\<dots> = ks" by (rule apply_parts [OF assms])
  finally show ?thesis .
qed

interpretation keystrokes: normalising_codec keystrokeToString parseKeystroke "\<lambda>ks. canonical_key (key ks)"
  by unfold_locales (rule keystroke_parse_print canonical_parse, assumption?)+

section \<open>Resolution\<close>

lemma keyName_nonempty: "getKeyName input k = Some n \<Longrightarrow> n \<noteq> []"
proof -
  assume g: "getKeyName input k = Some n"
  show "n \<noteq> []"
  proof (cases "find (\<lambda>(f, _). flags k f) special_names")
    case None
    then show ?thesis using g by (auto simp: getKeyName_def u_lower_def split: if_splits)
  next
    case (Some x)
    then have "x \<in> set special_names" using find_SomeD by fastforce
    then have "snd x \<noteq> []" by (auto simp: special_names_def)
    then show ?thesis using g Some by (cases x; cases "snd x") (auto simp: getKeyName_def)
  qed
qed

text \<open>A press matches a keystroke exactly when the keystroke built from it is equal to it.\<close>

lemma matches_build:
  "matchesKeystroke input k target \<longleftrightarrow> (case buildKeystroke input k of None \<Rightarrow> False | Some ks \<Rightarrow> keystrokesEqual ks target)"
  using keyName_nonempty [of input k]
  by (cases "getKeyName input k") (auto simp: matchesKeystroke_def buildKeystroke_def modifiersMatch_def keystrokesEqual_def Let_def)

lemma last_match_filter: "last_match P (filter Q bs) = last_match (\<lambda>b. Q b \<and> P b) bs"
proof -
  have "foldl (\<lambda>m b. if P b then Some b else m) m (filter Q bs) = foldl (\<lambda>m b. if Q b \<and> P b then Some b else m) m bs" for m
    by (induction bs arbitrary: m) auto
  then show ?thesis by (simp add: last_match_def)
qed

lemma exact_single:
  "buildKeystroke input k = Some ks \<Longrightarrow> chordExactlyMatches [ks] b \<longleftrightarrow> matchesBinding input k b"
  by (cases "chord b" rule: remdups_adj.cases) (auto simp: chordExactlyMatches_def matchesBinding_def matches_build)

lemma single_matches: "matchesBinding input k b \<Longrightarrow> length (chord b) = 1"
  by (auto simp: matchesBinding_def split: list.splits)

lemma resolvers:
  assumes "\<not> (\<exists>ks. buildKeystroke input k = Some ks \<and>
      hasLongerChords [ks] (filter (\<lambda>b. binding_context b \<in> set activeContexts) bindings))"
  shows "resolveKeyWithChordState input k activeContexts bindings None = Resolved (resolveKey input k activeContexts bindings)"
proof (cases "buildKeystroke input k")
  case None
  then have "\<not> matchesBinding input k b" for b by (auto simp: matchesBinding_def matches_build split: list.split)
  then have "last_match (\<lambda>b. length (chord b) = 1 \<and> binding_context b \<in> set activeContexts \<and> matchesBinding input k b) bindings = None"
    by (simp add: last_match_def) (induction bindings, auto)
  then show ?thesis using None by (simp add: resolveKeyWithChordState_def resolveKey_def resolve_binding_def)
next
  case (Some ks)
  have "(\<lambda>b. binding_context b \<in> set activeContexts \<and> chordExactlyMatches [ks] b) =
      (\<lambda>b. length (chord b) = 1 \<and> binding_context b \<in> set activeContexts \<and> matchesBinding input k b)"
    using exact_single [OF Some] single_matches by auto
  then show ?thesis using assms Some
    by (simp add: resolveKeyWithChordState_def resolveKey_def last_match_filter resolve_binding_def split: option.split)
qed

section \<open>Boundaries of the notation\<close>

lemmas notation_eval = parseKeystroke_def apply_part_def key_alias_def u_def u_lower_def lower_unit_def no_keystroke_def
  ARROW_UP_def ARROW_DOWN_def ARROW_LEFT_def ARROW_RIGHT_def u_trim_def u_space_def

text \<open>The key of the sign that separates the parts cannot be written.\<close>

lemma plus_key_lost: "key (parseKeystroke (u ''ctrl++'')) = []"
  by (simp add: notation_eval)

lemma plus_key_unbindable:
  assumes "getKeyName input k = Some (u ''+'')"
  shows "\<not> matchesKeystroke input k (parseKeystroke t)"
proof -
  have "key (parseKeystroke t) \<noteq> u ''+''"
    using canonical_parse [of t] plus_in_text [of "''+''"] by (auto simp: canonical_key_def simp del: plus_in_text)
  then show ?thesis using assms by (simp add: matchesKeystroke_def)
qed

text \<open>A shortcut of the super key loses its modifier in the normal form, under two of its four names.\<close>

lemma super_not_normalised:
  "normalizeKeyForComparison (u ''super+c'') = u ''c''"
  "normalizeKeyForComparison (u ''cmd+c'') = u ''cmd+c''"
  "parseKeystroke (u ''super+c'') = parseKeystroke (u ''cmd+c'')"
  by (simp_all add: normalizeKeyForComparison_def normalizeStep_def modifier_words_def modifier_name_def Let_def notation_eval)

text \<open>
  Removing a chord under the other name of its modifier: the chord is unbound when it is pressed, but
  its first keystroke still waits for it, as the chords are grouped by their texts.
\<close>

definition plain_key :: ink_key where
  "plain_key = \<lparr>flags = (\<lambda>_. False), ink_ctrl = False, ink_shift = False, ink_meta = False, ink_super = False\<rparr>"

definition removed_chord :: "string \<Rightarrow> binding list" where
  "removed_chord chord_text =
     [\<lparr>chord = parseChord (u ''alt+x k''), action = Some ''app:cut'', binding_context = ''Global''\<rparr>,
      \<lparr>chord = parseChord (u chord_text), action = None, binding_context = ''Global''\<rparr>]"

lemmas removed_eval = resolveKeyWithChordState_def buildKeystroke_def getKeyName_def special_names_def plain_key_def
  removed_chord_def parseChord_def hasLongerChords_def chordWinners_def chordPrefixMatches_def chordExactlyMatches_def
  keystrokesEqual_def chordToString_def keystrokeToString_def keystroke_parts_def keyToDisplayName_def
  last_match_def resolve_binding_def Let_def notation_eval

lemma removed_chord_waits:
  "resolveKeyWithChordState (u ''x'') (plain_key\<lparr>ink_meta := True\<rparr>) [''Global''] (removed_chord ''meta+x k'') None =
     ChordStarted [no_keystroke\<lparr>key := u ''x'', with_alt := True, with_meta := True\<rparr>]"
  "resolveKeyWithChordState (u ''x'') (plain_key\<lparr>ink_meta := True\<rparr>) [''Global''] (removed_chord ''alt+x k'') None =
     Resolved NoMatch"
  "resolveKeyWithChordState (u ''k'') plain_key [''Global''] (removed_chord ''meta+x k'')
     (Some [parseKeystroke (u ''meta+x'')]) = Resolved Unbound"
  by (simp_all add: removed_eval)

section \<open>Properties\<close>

text \<open>
  What the parser of keystrokes understands, the printer writes back: for every text, printing the
  parsed keystroke and parsing it again gives the same keystroke, so texts of keystrokes can be
  compared and stored in place of the keystrokes.
\<close>

theorem keystroke_roundtrip: "parseKeystroke (keystrokeToString (parseKeystroke t)) = parseKeystroke t"
  by (rule keystrokes.dec_normal)

text \<open>
  The resolver with chords agrees with the resolver of single keys: outside a chord, a press
  starts a chord exactly when an active binding with a longer chord it begins is left by the later bindings,
  and else it resolves to the very result, match, removed binding or none, of the simple resolver.
\<close>

theorem resolvers_agree:
  "resolveKeyWithChordState input k activeContexts bindings None =
     (case buildKeystroke input k of
        None \<Rightarrow> Resolved (resolveKey input k activeContexts bindings)
      | Some ks \<Rightarrow>
          if hasLongerChords [ks] (filter (\<lambda>b. binding_context b \<in> set activeContexts) bindings) then ChordStarted [ks]
          else Resolved (resolveKey input k activeContexts bindings))"
  using resolvers [of input k activeContexts bindings]
  by (cases "buildKeystroke input k") (auto simp: resolveKeyWithChordState_def)

end
