(* ===== verification/Messages.thy ===== *)
theory Messages
  imports Permission_Rules Tool_Orchestration
begin

text \<open>
  The messages of a conversation and the small operations on them that \<open>src/utils/messages.ts\<close> builds
  a request from: merging the contents of user messages, folding texts into tool results, and
  stripping references, callers and media.  A message keeps the fields these operations read.
\<close>

section \<open>Content\<close>

text \<open>
  The content blocks of the API; the items of a tool result are blocks of the same kind.  A caller is
  absent, null or a value, a tool reference may lack its tool's name.
\<close>

datatype media = Image media_source | Document string
  and media_source = Base64 string | Url string

datatype tool_input = InputFields "(string \<times> string) list" | InputOther string
datatype server_kind = ServerToolUse | McpToolUse

datatype block =
    TextBlock string
  | MediaBlock media
  | SearchResult string
  | ToolReference "string option"
  | ToolUseBlock string string tool_input "string option option"
  | ToolResultBlock string tr_content bool
  | Thinking string
  | RedactedThinking string
  | ConnectorText string
  | ServerUse server_kind string string
  | ServerResult string string
  and tr_content = NoContent | StringContent string | Items "block list"

datatype user_content = Str string | Blocks "block list"

record user_message =
  user_uuid :: string
  isMeta :: bool
  user_isVirtual :: bool
  user_content :: user_content
  sourceToolUseID :: "string option"

record assistant_message =
  assistant_uuid :: string
  message_id :: "string option"
  model_name :: string
  isApiErrorMessage :: bool
  assistant_isVirtual :: bool
  assistant_content :: "block list"

datatype api_message = UserMessage user_message | AssistantMessage assistant_message

text \<open>The messages of a session; attachments are of any type.\<close>

datatype 'a message =
    Plain api_message
  | Attachment 'a
  | SystemMessage string string string
  | Progress

section \<open>Kinds of blocks\<close>

fun is_text :: "block \<Rightarrow> bool" where
  "is_text (TextBlock t) = True"
| "is_text _ = False"

fun is_tool_result :: "block \<Rightarrow> bool" where
  "is_tool_result (ToolResultBlock i c e) = True"
| "is_tool_result _ = False"

fun is_tool_use :: "block \<Rightarrow> bool" where
  "is_tool_use (ToolUseBlock i n inp c) = True"
| "is_tool_use _ = False"

fun isThinkingBlock :: "block \<Rightarrow> bool" where
  "isThinkingBlock (Thinking t) = True"
| "isThinkingBlock (RedactedThinking t) = True"
| "isThinkingBlock _ = False"

fun isToolReferenceBlock :: "block \<Rightarrow> bool" where
  "isToolReferenceBlock (ToolReference n) = True"
| "isToolReferenceBlock _ = False"

fun isAdvisorBlock :: "block \<Rightarrow> bool" where
  "isAdvisorBlock (ServerResult ty i) = (ty = ''advisor_tool_result'')"
| "isAdvisorBlock (ServerUse k i n) = (k = ServerToolUse \<and> n = ''advisor'')"
| "isAdvisorBlock _ = False"

fun isMedia :: "block \<Rightarrow> bool" where
  "isMedia (MediaBlock m) = True"
| "isMedia _ = False"

fun is_user :: "api_message \<Rightarrow> bool" where
  "is_user (UserMessage u) = True"
| "is_user (AssistantMessage a) = False"

definition NO_CONTENT_MESSAGE :: string where "NO_CONTENT_MESSAGE = ''(no content)''"
definition SYNTHETIC_MODEL :: string where "SYNTHETIC_MODEL = ''<synthetic>''"
definition TOOL_REFERENCE_TURN_BOUNDARY :: string where "TOOL_REFERENCE_TURN_BOUNDARY = ''Tool loaded.''"
definition SYSTEM_REMINDER :: string where "SYSTEM_REMINDER = ''<system-reminder>''"

text \<open>The content of a new user message is never the empty text.\<close>

definition createUserMessage :: "string \<Rightarrow> user_content \<Rightarrow> bool \<Rightarrow> user_message" where
  "createUserMessage uuid content meta =
     \<lparr>user_uuid = uuid, isMeta = meta, user_isVirtual = False,
      user_content = (if content = Str [] then Str NO_CONTENT_MESSAGE else content), sourceToolUseID = None\<rparr>"

definition isSyntheticApiErrorMessage :: "'a message \<Rightarrow> bool" where
  "isSyntheticApiErrorMessage m =
     (case m of Plain (AssistantMessage a) \<Rightarrow> isApiErrorMessage a \<and> model_name a = SYNTHETIC_MODEL | _ \<Rightarrow> False)"

definition isSystemLocalCommandMessage :: "'a message \<Rightarrow> bool" where
  "isSystemLocalCommandMessage m = (case m of SystemMessage subtype c u \<Rightarrow> subtype = ''local_command'' | _ \<Rightarrow> False)"

section \<open>The environment of a request\<close>

text \<open>Feature gates, as they answer while a request is built, and the build's feature flags.\<close>

record api_env =
  chair_sermon :: bool
  toolref_defer :: bool
  toolSearchEnabled :: bool
  snipRuntimeEnabled :: bool
  test_mode :: bool
  build_features :: features

section \<open>Folding texts into a tool result\<close>

definition PARAGRAPH :: string where "PARAGRAPH = [NL, NL]"

text \<open>Appending a block to a content whose adjacent texts are merged.\<close>

definition merge_item :: "block list \<Rightarrow> block \<Rightarrow> block list" where
  "merge_item merged b =
     (case b of
        TextBlock t \<Rightarrow>
          (let t = js_trim t in
           if t = [] then merged
           else if merged = [] then [TextBlock t]
           else (case last merged of
                   TextBlock prev \<Rightarrow> butlast merged @ [TextBlock (prev @ PARAGRAPH @ t)]
                 | _ \<Rightarrow> merged @ [TextBlock t]))
      | _ \<Rightarrow> merged @ [b])"

fun block_text :: "block \<Rightarrow> string" where
  "block_text (TextBlock t) = t"
| "block_text _ = []"

text \<open>\<open>None\<close> when a tool reference forbids other content.\<close>

definition smooshIntoToolResult :: "string \<Rightarrow> tr_content \<Rightarrow> bool \<Rightarrow> block list \<Rightarrow> block option" where
  "smooshIntoToolResult i existing err blocks =
     (if blocks = [] then Some (ToolResultBlock i existing err)
      else if (case existing of Items bs \<Rightarrow> list_ex isToolReferenceBlock bs | _ \<Rightarrow> False) then None
      else (let blocks = (if err then filter is_text blocks else blocks) in
            if err \<and> blocks = [] then Some (ToolResultBlock i existing err)
            else if list_all is_text blocks \<and> (case existing of Items bs \<Rightarrow> False | _ \<Rightarrow> True)
            then (let old = (case existing of StringContent s \<Rightarrow> s | _ \<Rightarrow> []);
                      parts = filter (\<lambda>s. s \<noteq> []) (js_trim old # map (\<lambda>b. js_trim (block_text b)) blocks)
                  in Some (ToolResultBlock i (StringContent (js_join PARAGRAPH parts)) err))
            else (let base = (case existing of
                                NoContent \<Rightarrow> []
                              | StringContent s \<Rightarrow> if js_trim s \<noteq> [] then [TextBlock (js_trim s)] else []
                              | Items bs \<Rightarrow> bs)
                  in Some (ToolResultBlock i (Items (foldl merge_item [] (base @ blocks))) err))))"

section \<open>Merging user messages\<close>

definition normalizeUserTextContent :: "user_content \<Rightarrow> block list" where
  "normalizeUserTextContent c = (case c of Str t \<Rightarrow> [TextBlock t] | Blocks bs \<Rightarrow> bs)"

definition joinTextAtSeam :: "block list \<Rightarrow> block list \<Rightarrow> block list" where
  "joinTextAtSeam a b =
     (if a \<noteq> [] \<and> b \<noteq> [] \<and> is_text (last a) \<and> is_text (hd b)
      then butlast a @ [TextBlock (block_text (last a) @ [NL])] @ b
      else a @ b)"

definition hoistToolResults :: "block list \<Rightarrow> block list" where
  "hoistToolResults content = filter is_tool_result content @ filter (\<lambda>b. \<not> is_tool_result b) content"

definition mergeUserContentBlocks :: "api_env \<Rightarrow> block list \<Rightarrow> block list \<Rightarrow> block list" where
  "mergeUserContentBlocks env a b =
     (case (if a = [] then None else Some (last a)) of
        Some (ToolResultBlock i c e) \<Rightarrow>
          if \<not> chair_sermon env
          then (case c of
                  StringContent s \<Rightarrow>
                    if list_all is_text b then butlast a @ [the (smooshIntoToolResult i c e b)] else a @ b
                | _ \<Rightarrow> a @ b)
          else (let toSmoosh = filter (\<lambda>x. \<not> is_tool_result x) b; toolResults = filter is_tool_result b in
                if toSmoosh = [] then a @ b
                else (case smooshIntoToolResult i c e toSmoosh of
                        None \<Rightarrow> a @ b
                      | Some smooshed \<Rightarrow> butlast a @ [smooshed] @ toolResults))
      | _ \<Rightarrow> a @ b)"

definition mergeUserMessagesAndToolResults :: "api_env \<Rightarrow> user_message \<Rightarrow> user_message \<Rightarrow> user_message" where
  "mergeUserMessagesAndToolResults env a b =
     a\<lparr>user_content := Blocks (hoistToolResults (mergeUserContentBlocks env
          (normalizeUserTextContent (user_content a)) (normalizeUserTextContent (user_content b))))\<rparr>"

definition mergeUserMessages :: "api_env \<Rightarrow> user_message \<Rightarrow> user_message \<Rightarrow> user_message" where
  "mergeUserMessages env a b =
     (let content = Blocks (hoistToolResults (joinTextAtSeam
            (normalizeUserTextContent (user_content a)) (normalizeUserTextContent (user_content b))))
      in if snipRuntimeEnabled env
         then a\<lparr>isMeta := isMeta a \<and> isMeta b,
                user_uuid := (if isMeta a then user_uuid b else user_uuid a), user_content := content\<rparr>
         else a\<lparr>user_uuid := (if isMeta a then user_uuid b else user_uuid a), user_content := content\<rparr>)"

definition mergeAssistantMessages :: "assistant_message \<Rightarrow> assistant_message \<Rightarrow> assistant_message" where
  "mergeAssistantMessages a b = a\<lparr>assistant_content := assistant_content a @ assistant_content b\<rparr>"

text \<open>The loop that merges neighbours: the last message pushed and the next one.\<close>

definition push_merging :: "api_env \<Rightarrow> api_message list \<Rightarrow> api_message \<Rightarrow> api_message list" where
  "push_merging env out m =
     (case (m, if out = [] then None else Some (last out)) of
        (UserMessage u, Some (UserMessage prev)) \<Rightarrow> butlast out @ [UserMessage (mergeUserMessages env prev u)]
      | _ \<Rightarrow> out @ [m])"

definition mergeAdjacentUserMessages :: "api_env \<Rightarrow> api_message list \<Rightarrow> api_message list" where
  "mergeAdjacentUserMessages env ms = foldl (push_merging env) [] ms"

end
