(* ===== verification/Message_Passes.thy ===== *)
theory Message_Passes
  imports Messages
begin

text \<open>
  The passes over the messages of a request: those of \<open>src/utils/messages.ts\<close> that strip references,
  callers, thinking and empty messages, that move and fold reminders, and the limits on media of
  \<open>src/utils/imageValidation.ts\<close> and \<open>src/services/api/dsxuTransport.ts\<close>.
\<close>

definition on_blocks :: "(block list \<Rightarrow> block list) \<Rightarrow> user_message \<Rightarrow> user_message" where
  "on_blocks f u = (case user_content u of Str s \<Rightarrow> u | Blocks bs \<Rightarrow> u\<lparr>user_content := Blocks (f bs)\<rparr>)"

definition on_users :: "(user_message \<Rightarrow> user_message) \<Rightarrow> api_message list \<Rightarrow> api_message list" where
  "on_users f = map (\<lambda>m. case m of UserMessage u \<Rightarrow> UserMessage (f u) | AssistantMessage a \<Rightarrow> m)"

definition on_assistants :: "(assistant_message \<Rightarrow> assistant_message) \<Rightarrow> api_message list \<Rightarrow> api_message list" where
  "on_assistants f = map (\<lambda>m. case m of UserMessage u \<Rightarrow> m | AssistantMessage a \<Rightarrow> AssistantMessage (f a))"

section \<open>Tool references\<close>

text \<open>The name of a reference, when it has one that is not empty.\<close>

fun reference_name :: "block \<Rightarrow> string option" where
  "reference_name (ToolReference (Some n)) = (if n = [] then None else Some n)"
| "reference_name _ = None"

definition unavailable_reference :: "features \<Rightarrow> string list \<Rightarrow> block \<Rightarrow> bool" where
  "unavailable_reference fl available b =
     (case reference_name b of None \<Rightarrow> False | Some n \<Rightarrow> normalizeArchivedToolName fl n \<notin> set available)"

text \<open>Removing items of the tool results, with a note in place of a content that is emptied.\<close>

fun strip_items :: "(block \<Rightarrow> bool) \<Rightarrow> string \<Rightarrow> block \<Rightarrow> block" where
  "strip_items P note (ToolResultBlock i (Items bs) e) =
     ToolResultBlock i (Items (if filter (\<lambda>c. \<not> P c) bs = [] then [TextBlock note] else filter (\<lambda>c. \<not> P c) bs)) e"
| "strip_items P note b = b"

fun has_item :: "(block \<Rightarrow> bool) \<Rightarrow> block \<Rightarrow> bool" where
  "has_item P (ToolResultBlock i (Items bs) e) = list_ex P bs"
| "has_item P b = False"

definition stripUnavailableToolReferencesFromUserMessage :: "features \<Rightarrow> string list \<Rightarrow> user_message \<Rightarrow> user_message" where
  "stripUnavailableToolReferencesFromUserMessage fl available =
     on_blocks (\<lambda>bs. if list_ex (has_item (unavailable_reference fl available)) bs
        then map (strip_items (unavailable_reference fl available)
               ''[Tool references removed - tools no longer available]'') bs
        else bs)"

definition contentHasToolReference :: "block list \<Rightarrow> bool" where
  "contentHasToolReference content = list_ex (has_item isToolReferenceBlock) content"

definition stripToolReferenceBlocksFromUserMessage :: "user_message \<Rightarrow> user_message" where
  "stripToolReferenceBlocksFromUserMessage =
     on_blocks (\<lambda>bs. if contentHasToolReference bs
        then map (strip_items isToolReferenceBlock ''[Tool references removed - tool search not enabled]'') bs
        else bs)"

fun has_caller :: "block \<Rightarrow> bool" where
  "has_caller (ToolUseBlock i n inp (Some (Some c))) = True"
| "has_caller _ = False"

fun drop_caller :: "block \<Rightarrow> block" where
  "drop_caller (ToolUseBlock i n inp c) = ToolUseBlock i n inp None"
| "drop_caller b = b"

definition stripCallerFieldFromAssistantMessage :: "assistant_message \<Rightarrow> assistant_message" where
  "stripCallerFieldFromAssistantMessage a =
     (if list_ex has_caller (assistant_content a)
      then a\<lparr>assistant_content := map drop_caller (assistant_content a)\<rparr> else a)"

section \<open>Reminders\<close>

definition wrapInSystemReminder :: "string \<Rightarrow> string" where
  "wrapInSystemReminder content = SYSTEM_REMINDER @ [NL] @ content @ [NL] @ ''</system-reminder>''"

fun is_reminder :: "block \<Rightarrow> bool" where
  "is_reminder (TextBlock t) = starts_with SYSTEM_REMINDER t"
| "is_reminder _ = False"

fun wrap_block :: "block \<Rightarrow> block" where
  "wrap_block (TextBlock t) =
     (if starts_with SYSTEM_REMINDER t then TextBlock t else TextBlock (wrapInSystemReminder t))"
| "wrap_block b = b"

definition ensureSystemReminderWrap :: "user_message \<Rightarrow> user_message" where
  "ensureSystemReminderWrap u =
     (case user_content u of
        Str s \<Rightarrow> if starts_with SYSTEM_REMINDER s then u else u\<lparr>user_content := Str (wrapInSystemReminder s)\<rparr>
      | Blocks bs \<Rightarrow> u\<lparr>user_content := Blocks (map wrap_block bs)\<rparr>)"

text \<open>The content with its reminders folded into its last tool result.\<close>

definition smoosh_reminders :: "block list \<Rightarrow> block list" where
  "smoosh_reminders content =
     (if \<not> list_ex is_tool_result content then content
      else (let srText = filter is_reminder content; kept = filter (\<lambda>b. \<not> is_reminder b) content in
            if srText = [] then content
            else (case find (\<lambda>i. is_tool_result (kept ! i)) (rev [0..<length kept]) of
                    None \<Rightarrow> content
                  | Some lastTrIdx \<Rightarrow>
                      (case kept ! lastTrIdx of
                         ToolResultBlock i c e \<Rightarrow>
                           (case smooshIntoToolResult i c e srText of
                              None \<Rightarrow> content
                            | Some smooshed \<Rightarrow> take lastTrIdx kept @ [smooshed] @ drop (lastTrIdx + 1) kept)
                       | _ \<Rightarrow> content))))"

definition smooshSystemReminderSiblings :: "api_message list \<Rightarrow> api_message list" where
  "smooshSystemReminderSiblings = on_users (on_blocks smoosh_reminders)"

fun sanitize_block :: "block \<Rightarrow> block" where
  "sanitize_block (ToolResultBlock i (Items bs) True) =
     (if list_all is_text bs then ToolResultBlock i (Items bs) True
      else (let texts = map block_text (filter is_text bs)
            in ToolResultBlock i (Items (if texts \<noteq> [] then [TextBlock (js_join PARAGRAPH texts)] else [])) True))"
| "sanitize_block b = b"

definition sanitizeErrorToolResultContent :: "api_message list \<Rightarrow> api_message list" where
  "sanitizeErrorToolResultContent = on_users (on_blocks (map sanitize_block))"

text \<open>One turn of the loop that moves the texts beside a tool reference to a later tool result.\<close>

definition user_blocks :: "api_message \<Rightarrow> block list option" where
  "user_blocks m = (case m of UserMessage u \<Rightarrow> (case user_content u of Blocks bs \<Rightarrow> Some bs | Str s \<Rightarrow> None)
                     | AssistantMessage a \<Rightarrow> None)"

definition relocation_target :: "api_message \<Rightarrow> bool" where
  "relocation_target m =
     (case user_blocks m of None \<Rightarrow> False | Some cc \<Rightarrow> list_ex is_tool_result cc \<and> \<not> contentHasToolReference cc)"

definition set_blocks :: "block list \<Rightarrow> api_message \<Rightarrow> api_message" where
  "set_blocks bs m = (case m of UserMessage u \<Rightarrow> UserMessage (u\<lparr>user_content := Blocks bs\<rparr>) | AssistantMessage a \<Rightarrow> m)"

definition relocate_from :: "api_message list \<Rightarrow> nat \<Rightarrow> api_message list" where
  "relocate_from ms i =
     (case user_blocks (ms ! i) of
        None \<Rightarrow> ms
      | Some content \<Rightarrow>
          if \<not> contentHasToolReference content then ms
          else (let textSiblings = filter is_text content in
                if textSiblings = [] then ms
                else (case find (\<lambda>j. relocation_target (ms ! j)) [i + 1..<length ms] of
                        None \<Rightarrow> ms
                      | Some j \<Rightarrow>
                          (case user_blocks (ms ! j) of
                             None \<Rightarrow> ms
                           | Some cc \<Rightarrow> ms[i := set_blocks (filter (\<lambda>b. \<not> is_text b) content) (ms ! i),
                                           j := set_blocks (cc @ textSiblings) (ms ! j)]))))"

definition relocateToolReferenceSiblings :: "api_message list \<Rightarrow> api_message list" where
  "relocateToolReferenceSiblings ms = foldl relocate_from ms [0..<length ms]"

section \<open>Assistant messages\<close>

text \<open>The last assistant message does not end in thinking.\<close>

definition trim_thinking :: "block list \<Rightarrow> block list" where
  "trim_thinking content =
     (if content = [] \<or> \<not> isThinkingBlock (last content) then content
      else (let kept = rev (dropWhile isThinkingBlock (rev content))
            in if kept = [] then [TextBlock ''[No message content]''] else kept))"

definition filterTrailingThinkingFromLastAssistant :: "api_message list \<Rightarrow> api_message list" where
  "filterTrailingThinkingFromLastAssistant ms =
     (case (if ms = [] then None else Some (last ms)) of
        Some (AssistantMessage a) \<Rightarrow>
          butlast ms @ [AssistantMessage (a\<lparr>assistant_content := trim_thinking (assistant_content a)\<rparr>)]
      | _ \<Rightarrow> ms)"

definition hasOnlyWhitespaceTextContent :: "block list \<Rightarrow> bool" where
  "hasOnlyWhitespaceTextContent content \<longleftrightarrow>
     content \<noteq> [] \<and> list_all (\<lambda>b. is_text b \<and> js_trim (block_text b) = []) content"

definition whitespace_only :: "api_message \<Rightarrow> bool" where
  "whitespace_only m = (case m of UserMessage u \<Rightarrow> False
     | AssistantMessage a \<Rightarrow> hasOnlyWhitespaceTextContent (assistant_content a))"

definition filterWhitespaceOnlyAssistantMessages :: "api_env \<Rightarrow> api_message list \<Rightarrow> api_message list" where
  "filterWhitespaceOnlyAssistantMessages env ms =
     (let filtered = filter (\<lambda>m. \<not> whitespace_only m) ms
      in if length filtered = length ms then ms else foldl (push_merging env) [] filtered)"

definition ensureNonEmptyAssistantContent :: "api_message list \<Rightarrow> api_message list" where
  "ensureNonEmptyAssistantContent ms =
     (if ms = [] then ms
      else on_assistants (\<lambda>a. if assistant_content a = []
             then a\<lparr>assistant_content := [TextBlock NO_CONTENT_MESSAGE]\<rparr> else a) (butlast ms) @ [last ms])"

text \<open>Thinking without any other content under the same id of a response.\<close>

definition ids_with_content :: "api_message list \<Rightarrow> string list" where
  "ids_with_content ms = concat (map (\<lambda>m. case m of UserMessage u \<Rightarrow> []
     | AssistantMessage a \<Rightarrow>
         (case message_id a of
            Some i \<Rightarrow> if list_ex (\<lambda>b. \<not> isThinkingBlock b) (assistant_content a) \<and> i \<noteq> [] then [i] else []
          | None \<Rightarrow> [])) ms)"

definition orphaned_thinking :: "string list \<Rightarrow> api_message \<Rightarrow> bool" where
  "orphaned_thinking ids m = (case m of UserMessage u \<Rightarrow> False
     | AssistantMessage a \<Rightarrow>
         assistant_content a \<noteq> [] \<and> list_all isThinkingBlock (assistant_content a) \<and>
         \<not> (case message_id a of Some i \<Rightarrow> i \<noteq> [] \<and> i \<in> set ids | None \<Rightarrow> False))"

definition filterOrphanedThinkingOnlyMessages :: "api_message list \<Rightarrow> api_message list" where
  "filterOrphanedThinkingOnlyMessages ms = filter (\<lambda>m. \<not> orphaned_thinking (ids_with_content ms) m) ms"

definition no_response_left :: "block list \<Rightarrow> bool" where
  "no_response_left bs = list_all (\<lambda>b. isThinkingBlock b \<or> is_text b \<and> js_trim (block_text b) = []) bs"

definition stripAdvisorBlocks :: "api_message list \<Rightarrow> api_message list" where
  "stripAdvisorBlocks = on_assistants (\<lambda>a.
     let filtered = filter (\<lambda>b. \<not> isAdvisorBlock b) (assistant_content a)
     in if length filtered = length (assistant_content a) then a
        else if no_response_left filtered then a\<lparr>assistant_content := filtered @ [TextBlock ''[Advisor response]'']\<rparr>
        else a\<lparr>assistant_content := filtered\<rparr>)"

text \<open>The input of a tool call as the API gets it: without the fields the client adds.\<close>

definition normalizeToolInputForAPI :: "string \<Rightarrow> tool_input \<Rightarrow> tool_input" where
  "normalizeToolInputForAPI tool inp =
     (case inp of
        InputOther j \<Rightarrow> inp
      | InputFields fs \<Rightarrow>
          if tool = ''ExitPlanMode'' then
            (if list_ex (\<lambda>(k, _). k \<in> set [''plan'', ''planFilePath'']) fs
             then InputFields (filter (\<lambda>(k, _). k \<notin> set [''plan'', ''planFilePath'']) fs) else inp)
          else if tool = ''Edit'' then
            (if list_ex (\<lambda>(k, _). k = ''edits'') fs
             then InputFields (filter (\<lambda>(k, _). k \<notin> set [''old_string'', ''new_string'', ''replace_all'']) fs) else inp)
          else inp)"

definition normalize_tool_use :: "('i, 'p) tool list \<Rightarrow> bool \<Rightarrow> block \<Rightarrow> block" where
  "normalize_tool_use tools toolSearch b =
     (case b of
        ToolUseBlock i n inp c \<Rightarrow>
          (let tool = findToolByName tools n;
               normalizedInput = (case tool of Some t \<Rightarrow> normalizeToolInputForAPI (tool_name t) inp | None \<Rightarrow> inp);
               canonicalName = (case tool of Some t \<Rightarrow> tool_name t | None \<Rightarrow> n)
           in ToolUseBlock i canonicalName normalizedInput (if toolSearch then c else None))
      | _ \<Rightarrow> b)"

section \<open>Limits on media\<close>

definition API_IMAGE_MAX_BASE64_SIZE :: nat where "API_IMAGE_MAX_BASE64_SIZE = 5 * 1024 * 1024"
definition API_MAX_MEDIA_PER_REQUEST :: nat where "API_MAX_MEDIA_PER_REQUEST = 100"

text \<open>Index and size of the images beside the texts of a user message that are too large.\<close>

definition base64_images :: "api_message list \<Rightarrow> string list" where
  "base64_images ms = concat (map (\<lambda>m. case user_blocks m of None \<Rightarrow> []
     | Some bs \<Rightarrow> concat (map (\<lambda>b. case b of MediaBlock (Image (Base64 d)) \<Rightarrow> [d] | _ \<Rightarrow> []) bs)) ms)"

definition oversized_images :: "api_message list \<Rightarrow> (nat \<times> nat) list" where
  "oversized_images ms =
     filter (\<lambda>(i, n). n > API_IMAGE_MAX_BASE64_SIZE)
       (zip [1..<length (base64_images ms) + 1] (map length (base64_images ms)))"

text \<open>The error carries the images that are too large.\<close>

definition validateImagesForAPI :: "api_message list \<Rightarrow> (nat \<times> nat) list + unit" where
  "validateImagesForAPI ms = (if oversized_images ms \<noteq> [] then Inl (oversized_images ms) else Inr ())"

fun media_of_block :: "block \<Rightarrow> nat" where
  "media_of_block (ToolResultBlock i (Items bs) e) = length (filter isMedia bs)"
| "media_of_block b = (if isMedia b then 1 else 0)"

definition message_blocks :: "api_message \<Rightarrow> block list option" where
  "message_blocks m = (case m of UserMessage u \<Rightarrow> (case user_content u of Blocks bs \<Rightarrow> Some bs | Str s \<Rightarrow> None)
                        | AssistantMessage a \<Rightarrow> Some (assistant_content a))"

definition media_count :: "api_message list \<Rightarrow> nat" where
  "media_count ms = sum_list (map (\<lambda>m. case message_blocks m of None \<Rightarrow> 0
     | Some bs \<Rightarrow> sum_list (map media_of_block bs)) ms)"

text \<open>Filtering out the first \<open>n\<close> media, with the number that is still to be removed.\<close>

fun remove_media :: "nat \<Rightarrow> block list \<Rightarrow> nat \<times> block list" where
  "remove_media n [] = (n, [])"
| "remove_media n (b # bs) =
     (if n > 0 \<and> isMedia b then remove_media (n - 1) bs
      else (let (n', bs') = remove_media n bs in (n', b # bs')))"

fun remove_nested :: "nat \<Rightarrow> block list \<Rightarrow> nat \<times> block list" where
  "remove_nested n [] = (n, [])"
| "remove_nested n (ToolResultBlock i (Items bs) e # rest) =
     (let (n1, bs') = remove_media n bs; (n2, rest') = remove_nested n1 rest
      in (n2, ToolResultBlock i (Items bs') e # rest'))"
| "remove_nested n (b # rest) = (let (n', rest') = remove_nested n rest in (n', b # rest'))"

definition strip_content :: "nat \<Rightarrow> block list \<Rightarrow> nat \<times> block list" where
  "strip_content n bs = (let (n1, bs1) = remove_nested n bs in remove_media n1 bs1)"

definition set_message_blocks :: "block list \<Rightarrow> api_message \<Rightarrow> api_message" where
  "set_message_blocks bs m = (case m of UserMessage u \<Rightarrow> UserMessage (u\<lparr>user_content := Blocks bs\<rparr>)
     | AssistantMessage a \<Rightarrow> AssistantMessage (a\<lparr>assistant_content := bs\<rparr>))"

fun strip_media :: "nat \<Rightarrow> api_message list \<Rightarrow> api_message list" where
  "strip_media toRemove [] = []"
| "strip_media toRemove (m # ms) =
     (case message_blocks m of
        None \<Rightarrow> m # strip_media toRemove ms
      | Some bs \<Rightarrow>
          if toRemove = 0 then m # strip_media toRemove ms
          else (let (n, bs') = strip_content toRemove bs in set_message_blocks bs' m # strip_media n ms))"

definition stripExcessMediaItems :: "api_message list \<Rightarrow> nat \<Rightarrow> api_message list" where
  "stripExcessMediaItems ms limit =
     (if media_count ms \<le> limit then ms else strip_media (media_count ms - limit) ms)"

end
