(* ===== verification/Api_Pairing.thy ===== *)
theory Api_Pairing
  imports Message_Passes
begin

text \<open>
  The pairing of tool calls with their results in a request, \<open>ensureToolResultPairing\<close> of
  \<open>src/utils/messages.ts\<close>: the repair of a conversation, the condition of the API that it
  establishes, and the strict mode that refuses to repair.
\<close>

section \<open>The repair\<close>

definition SYNTHETIC_TOOL_RESULT_PLACEHOLDER :: string where
  "SYNTHETIC_TOOL_RESULT_PLACEHOLDER =
     ''<tool_use_error>'' @ [NL] @ ''Tool result missing due to internal error.'' @ [NL] @
     ''blocked=tool_use_did_not_complete'' @ [NL] @
     ''next=do_not_assume_tool_succeeded; rerun_or_verify_with_actual_tool_result'' @ [NL] @ ''</tool_use_error>''"

fun result_id :: "block \<Rightarrow> string option" where
  "result_id (ToolResultBlock i c e) = Some i"
| "result_id _ = None"

fun call_id :: "block \<Rightarrow> string option" where
  "call_id (ToolUseBlock i n inp c) = Some i"
| "call_id _ = None"

definition result_ids :: "block list \<Rightarrow> string list" where
  "result_ids bs = List.map_filter result_id bs"

definition call_ids :: "block list \<Rightarrow> string list" where
  "call_ids bs = List.map_filter call_id bs"

text \<open>The server-side results within one assistant message, and the call that waits for one.\<close>

fun server_result_id :: "block \<Rightarrow> string option" where
  "server_result_id (ServerResult ty i) = Some i"
| "server_result_id (ToolResultBlock i c e) = Some i"
| "server_result_id _ = None"

definition server_resolved :: "string list \<Rightarrow> block \<Rightarrow> bool" where
  "server_resolved ids b = (case b of ServerUse k i n \<Rightarrow> i \<in> set ids | _ \<Rightarrow> True)"

text \<open>The filter over an assistant's content, with the identities of all calls seen so far.\<close>

fun dedupe_calls :: "string list \<Rightarrow> string list \<Rightarrow> block list \<Rightarrow> string list \<times> block list" where
  "dedupe_calls server seen [] = (seen, [])"
| "dedupe_calls server seen (b # bs) =
     (case call_id b of
        Some i \<Rightarrow>
          if i \<in> set seen then dedupe_calls server seen bs
          else (let (seen', bs') = dedupe_calls server (i # seen) bs in (seen', b # bs'))
      | None \<Rightarrow>
          (let (seen', bs') = dedupe_calls server seen bs
           in (seen', if server_resolved server b then b # bs' else bs')))"

text \<open>The results that remain: of known calls, each once.\<close>

fun dedupe_results :: "string list \<Rightarrow> string list \<Rightarrow> block list \<Rightarrow> block list" where
  "dedupe_results orphaned seen [] = []"
| "dedupe_results orphaned seen (b # bs) =
     (case result_id b of
        Some i \<Rightarrow>
          if i \<in> set orphaned then dedupe_results orphaned seen bs
          else if i \<in> set seen then dedupe_results orphaned seen bs
          else b # dedupe_results orphaned (i # seen) bs
      | None \<Rightarrow> b # dedupe_results orphaned seen bs)"

record pairing_state =
  paired_result :: "api_message list"
  allSeenToolUseIds :: "string list"
  repaired :: bool

definition push :: "api_message \<Rightarrow> pairing_state \<Rightarrow> pairing_state" where
  "push m s = s\<lparr>paired_result := paired_result s @ [m]\<rparr>"

definition synthetic_blocks :: "string list \<Rightarrow> block list" where
  "synthetic_blocks missingIds =
     map (\<lambda>i. ToolResultBlock i (StringContent SYNTHETIC_TOOL_RESULT_PLACEHOLDER) True) missingIds"

text \<open>A user message that comes to its own turn of the loop.\<close>

definition pair_user :: "user_message \<Rightarrow> pairing_state \<Rightarrow> pairing_state" where
  "pair_user u s =
     (let after_assistant = (paired_result s \<noteq> [] \<and> \<not> is_user (last (paired_result s)))
      in case user_content u of
        Str t \<Rightarrow> push (UserMessage u) s
      | Blocks bs \<Rightarrow>
          if after_assistant then push (UserMessage u) s
          else (let stripped = filter (\<lambda>b. \<not> is_tool_result b) bs in
                if length stripped = length bs then push (UserMessage u) s
                else if stripped \<noteq> [] then
                  push (UserMessage (u\<lparr>user_content := Blocks stripped\<rparr>)) (s\<lparr>repaired := True\<rparr>)
                else if paired_result s = [] then
                  push (UserMessage (u\<lparr>user_content :=
                    Blocks [TextBlock ''[Orphaned tool result removed due to conversation resume]'']\<rparr>)) (s\<lparr>repaired := True\<rparr>)
                else s\<lparr>repaired := True\<rparr>))"

text \<open>An assistant message: its calls are made unique, its unresolved server calls dropped.\<close>

definition pair_assistant :: "assistant_message \<Rightarrow> pairing_state \<Rightarrow> pairing_state \<times> block list" where
  "pair_assistant a s =
     (let content = assistant_content a;
          (seen, finalContent) = dedupe_calls (List.map_filter server_result_id content) (allSeenToolUseIds s) content;
          changed = (length finalContent \<noteq> length content);
          sent = (if finalContent = [] then [TextBlock ''[Tool use interrupted]''] else finalContent);
          msg = (if changed then a\<lparr>assistant_content := sent\<rparr> else a)
      in (push (AssistantMessage msg) (s\<lparr>allSeenToolUseIds := seen, repaired := repaired s \<or> changed\<rparr>), finalContent))"

text \<open>
  The user message after an assistant message, patched: results are added for the calls without
  one, and results of other calls and second results are dropped.
\<close>

definition patch_user :: "api_env \<Rightarrow> string \<Rightarrow> string list \<Rightarrow> user_message \<Rightarrow> user_message" where
  "patch_user env uuid toolUseIds u =
     (let existing = (case user_content u of Blocks bs \<Rightarrow> result_ids bs | Str t \<Rightarrow> []);
          missingIds = filter (\<lambda>i. i \<notin> set existing) toolUseIds;
          orphanedIds = filter (\<lambda>i. i \<notin> set toolUseIds) existing;
          content = (case user_content u of Blocks bs \<Rightarrow> bs | Str t \<Rightarrow> [TextBlock t]);
          content = (if orphanedIds \<noteq> [] \<or> \<not> distinct existing then dedupe_results orphanedIds [] content else content);
          patched = synthetic_blocks missingIds @ content
      in if patched = [] then createUserMessage uuid (Str NO_CONTENT_MESSAGE) True
         else if chair_sermon env then u\<lparr>user_content := Blocks (smoosh_reminders patched)\<rparr>
         else u\<lparr>user_content := Blocks patched\<rparr>)"

definition mismatch :: "string list \<Rightarrow> string list \<Rightarrow> bool" where
  "mismatch toolUseIds existing \<longleftrightarrow>
     filter (\<lambda>i. i \<notin> set existing) toolUseIds \<noteq> [] \<or> filter (\<lambda>i. i \<notin> set toolUseIds) existing \<noteq> [] \<or>
     \<not> distinct existing"

text \<open>The loop; \<open>uuids\<close> gives the identity of a message made while \<open>n\<close> messages are left.\<close>

fun pair_loop :: "api_env \<Rightarrow> (nat \<Rightarrow> string) \<Rightarrow> api_message list \<Rightarrow> pairing_state \<Rightarrow> pairing_state" where
  "pair_loop env uuids [] s = s"
| "pair_loop env uuids (UserMessage u # ms) s = pair_loop env uuids ms (pair_user u s)"
| "pair_loop env uuids (AssistantMessage a # ms) s =
     (let (s', sent) = pair_assistant a s; toolUseIds = call_ids sent in
      case ms of
        UserMessage u # ms' \<Rightarrow>
          if mismatch toolUseIds (case user_content u of Blocks bs \<Rightarrow> result_ids bs | Str t \<Rightarrow> [])
          then pair_loop env uuids ms' (push (UserMessage (patch_user env (uuids (length ms)) toolUseIds u)) (s'\<lparr>repaired := True\<rparr>))
          else pair_loop env uuids ms s'
      | _ \<Rightarrow>
          if toolUseIds \<noteq> []
          then pair_loop env uuids ms
                 (push (UserMessage (createUserMessage (uuids (length ms)) (Blocks (synthetic_blocks toolUseIds)) True))
                    (s'\<lparr>repaired := True\<rparr>))
          else pair_loop env uuids ms s')"

definition pairing_start :: pairing_state where
  "pairing_start = \<lparr>paired_result = [], allSeenToolUseIds = [], repaired = False\<rparr>"

text \<open>In strict mode a repair is an error.\<close>

definition ensureToolResultPairing ::
  "api_env \<Rightarrow> (nat \<Rightarrow> string) \<Rightarrow> bool \<Rightarrow> api_message list \<Rightarrow> string + api_message list" where
  "ensureToolResultPairing env uuids strict ms =
     (let s = pair_loop env uuids ms pairing_start
      in if repaired s \<and> strict then Inl ''tool_use/tool_result pairing mismatch'' else Inr (paired_result s))"

end
