(* ===== verification/Api_Request.thy ===== *)
theory Api_Request
  imports Api_Pairing
begin

text \<open>
  The messages of a request: \<open>normalizeMessagesForAPI\<close> of \<open>src/utils/messages.ts\<close> and the steps of
  \<open>queryModel\<close> (\<open>src/services/api/dsxuTransport.ts\<close>) from the messages of the session to those that are sent.
  The rendering of attachments as user messages is an argument.
\<close>

section \<open>Attachments\<close>

definition isStoppingPoint :: "'a message \<Rightarrow> bool" where
  "isStoppingPoint m =
     (case m of
        Plain (AssistantMessage a) \<Rightarrow> True
      | Plain (UserMessage u) \<Rightarrow> (case user_content u of Blocks (b # bs) \<Rightarrow> is_tool_result b | _ \<Rightarrow> False)
      | _ \<Rightarrow> False)"

text \<open>The scan from the bottom: the result so far and the attachments met, both in reverse.\<close>

definition reorder_step :: "'a message list \<times> 'a message list \<Rightarrow> 'a message \<Rightarrow> 'a message list \<times> 'a message list" where
  "reorder_step st m =
     (let (result, pendingAttachments) = st in
      case m of
        Attachment a \<Rightarrow> (result, pendingAttachments @ [m])
      | _ \<Rightarrow> if isStoppingPoint m \<and> pendingAttachments \<noteq> [] then (result @ pendingAttachments @ [m], [])
             else (result @ [m], pendingAttachments))"

definition reorderAttachmentsForAPI :: "'a message list \<Rightarrow> 'a message list" where
  "reorderAttachmentsForAPI ms =
     (let (result, pendingAttachments) = foldl reorder_step ([], []) (rev ms) in rev (result @ pendingAttachments))"

definition is_virtual :: "'a message \<Rightarrow> bool" where
  "is_virtual m = (case m of Plain (UserMessage u) \<Rightarrow> user_isVirtual u
     | Plain (AssistantMessage a) \<Rightarrow> assistant_isVirtual a | _ \<Rightarrow> False)"

section \<open>Media that the API has rejected\<close>

datatype media_type = DocumentType | ImageType

fun has_type :: "media_type list \<Rightarrow> block \<Rightarrow> bool" where
  "has_type ts (MediaBlock (Document d)) = (DocumentType \<in> set ts)"
| "has_type ts (MediaBlock (Image i)) = (ImageType \<in> set ts)"
| "has_type ts _ = False"

definition getPdfTooLargeErrorMessage :: "bool \<Rightarrow> string" where
  "getPdfTooLargeErrorMessage nonInteractive = ''PDF too large (max 100 pages, 20MB). '' @
     (if nonInteractive then ''Try reading the file a different way (e.g., extract text with pdftotext).''
      else ''Double press esc to go back and try again, or use pdftotext to convert to text first.'')"

definition getPdfPasswordProtectedErrorMessage :: "bool \<Rightarrow> string" where
  "getPdfPasswordProtectedErrorMessage nonInteractive = ''PDF is password protected. '' @
     (if nonInteractive then ''Try using a CLI tool to extract or convert the PDF.''
      else ''Please double press esc to edit your message and try again.'')"

definition getPdfInvalidErrorMessage :: "bool \<Rightarrow> string" where
  "getPdfInvalidErrorMessage nonInteractive = ''The PDF file was not valid. '' @
     (if nonInteractive then ''Try converting it to text first (e.g., pdftotext).''
      else ''Double press esc to go back and try again with a different file.'')"

definition getImageTooLargeErrorMessage :: "bool \<Rightarrow> string" where
  "getImageTooLargeErrorMessage nonInteractive = ''Image was too large. '' @
     (if nonInteractive then ''Try resizing the image or using a different approach.''
      else ''Double press esc to go back and try again with a smaller image.'')"

definition getRequestTooLargeErrorMessage :: "bool \<Rightarrow> string" where
  "getRequestTooLargeErrorMessage nonInteractive = ''Request too large (max 20MB). '' @
     (if nonInteractive then ''Try with a smaller file.''
      else ''Double press esc to go back and try with a smaller file.'')"

definition errorToBlockTypes :: "bool \<Rightarrow> string \<rightharpoonup> media_type list" where
  "errorToBlockTypes ni = map_of
     [(getPdfTooLargeErrorMessage ni, [DocumentType]), (getPdfPasswordProtectedErrorMessage ni, [DocumentType]),
      (getPdfInvalidErrorMessage ni, [DocumentType]), (getImageTooLargeErrorMessage ni, [ImageType]),
      (getRequestTooLargeErrorMessage ni, [DocumentType, ImageType])]"

text \<open>The media types an error message of the client asks to strip.\<close>

definition error_types :: "bool \<Rightarrow> 'a message \<Rightarrow> media_type list option" where
  "error_types ni m =
     (if \<not> isSyntheticApiErrorMessage m then None
      else (case m of
              Plain (AssistantMessage a) \<Rightarrow>
                (case assistant_content a of TextBlock t # bs \<Rightarrow> if t = [] then None else errorToBlockTypes ni t | _ \<Rightarrow> None)
            | _ \<Rightarrow> None))"

text \<open>The nearest meta user message before the error, over the messages before it in reverse.\<close>

fun nearest_meta :: "'a message list \<Rightarrow> string option" where
  "nearest_meta [] = None"
| "nearest_meta (m # ms) =
     (case m of
        Plain (UserMessage u) \<Rightarrow> if isMeta u then Some (user_uuid u) else None
      | _ \<Rightarrow> if isSyntheticApiErrorMessage m then nearest_meta ms else None)"

fun strip_targets :: "bool \<Rightarrow> 'a message list \<Rightarrow> 'a message list \<Rightarrow> (string \<times> media_type list) list" where
  "strip_targets ni before [] = []"
| "strip_targets ni before (m # ms) =
     (case (error_types ni m, nearest_meta before) of
        (Some types, Some uuid) \<Rightarrow> (uuid, types) # strip_targets ni (m # before) ms
      | _ \<Rightarrow> strip_targets ni (m # before) ms)"

definition types_for :: "(string \<times> media_type list) list \<Rightarrow> string \<Rightarrow> media_type list" where
  "types_for targets uuid = concat (map snd (filter (\<lambda>(i, _). i = uuid) targets))"

section \<open>The normalisation of the messages\<close>

text \<open>\<open>None\<close> when nothing of the message is left.\<close>

definition strip_rejected :: "(string \<times> media_type list) list \<Rightarrow> user_message \<Rightarrow> user_message option" where
  "strip_rejected targets u =
     (let typesToStrip = types_for targets (user_uuid u) in
      if typesToStrip \<noteq> [] \<and> isMeta u
      then (case user_content u of
              Blocks bs \<Rightarrow>
                (let filtered = filter (\<lambda>b. \<not> has_type typesToStrip b) bs
                 in if filtered = [] then None
                    else if length filtered < length bs then Some (u\<lparr>user_content := Blocks filtered\<rparr>) else Some u)
            | Str t \<Rightarrow> Some u)
      else Some u)"

fun starts_boundary :: "block \<Rightarrow> bool" where
  "starts_boundary (TextBlock t) = starts_with TOOL_REFERENCE_TURN_BOUNDARY t"
| "starts_boundary _ = False"

definition add_turn_boundary :: "user_message \<Rightarrow> user_message" where
  "add_turn_boundary = on_blocks (\<lambda>bs.
     if \<not> list_ex starts_boundary bs \<and> contentHasToolReference bs
     then bs @ [TextBlock TOOL_REFERENCE_TURN_BOUNDARY] else bs)"

definition normalize_user ::
  "api_env \<Rightarrow> string list \<Rightarrow> (string \<times> media_type list) list \<Rightarrow> user_message \<Rightarrow> user_message option" where
  "normalize_user env available targets u =
     map_option (\<lambda>u. if toolref_defer env then u else add_turn_boundary u)
       (strip_rejected targets
          (if \<not> toolSearchEnabled env then stripToolReferenceBlocksFromUserMessage u
           else stripUnavailableToolReferencesFromUserMessage (build_features env) available u))"

definition normalize_assistant :: "api_env \<Rightarrow> ('i, 'p) tool list \<Rightarrow> assistant_message \<Rightarrow> assistant_message" where
  "normalize_assistant env tools a =
     a\<lparr>assistant_content := map (normalize_tool_use tools (toolSearchEnabled env)) (assistant_content a)\<rparr>"

definition isToolResultMessage :: "user_message \<Rightarrow> bool" where
  "isToolResultMessage u = (case user_content u of Str t \<Rightarrow> False | Blocks bs \<Rightarrow> list_ex is_tool_result bs)"

text \<open>The walk back, over the result in reverse, to a message of the same response.\<close>

fun merge_back :: "assistant_message \<Rightarrow> api_message list \<Rightarrow> api_message list option" where
  "merge_back n [] = None"
| "merge_back n (UserMessage u # ms) =
     (if isToolResultMessage u then map_option (\<lambda>r. UserMessage u # r) (merge_back n ms) else None)"
| "merge_back n (AssistantMessage a # ms) =
     (if message_id a = message_id n then Some (AssistantMessage (mergeAssistantMessages a n) # ms)
      else map_option (\<lambda>r. AssistantMessage a # r) (merge_back n ms))"

definition push_assistant :: "api_message list \<Rightarrow> assistant_message \<Rightarrow> api_message list" where
  "push_assistant result n =
     (case merge_back n (rev result) of Some r \<Rightarrow> rev r | None \<Rightarrow> result @ [AssistantMessage n])"

definition push_attachment :: "api_env \<Rightarrow> api_message list \<Rightarrow> user_message list \<Rightarrow> api_message list" where
  "push_attachment env result raw =
     (let rendered = (if chair_sermon env then map ensureSystemReminderWrap raw else raw) in
      case (if result = [] then None else Some (last result)) of
        Some (UserMessage u) \<Rightarrow> butlast result @ [UserMessage (foldl (mergeUserMessagesAndToolResults env) u rendered)]
      | _ \<Rightarrow> result @ map UserMessage rendered)"

definition normalize_step ::
  "api_env \<Rightarrow> ('a \<Rightarrow> user_message list) \<Rightarrow> ('i, 'p) tool list \<Rightarrow> (string \<times> media_type list) list \<Rightarrow>
   api_message list \<Rightarrow> 'a message \<Rightarrow> api_message list" where
  "normalize_step env attach tools targets result m =
     (case m of
        SystemMessage subtype content uuid \<Rightarrow> push_merging env result (UserMessage (createUserMessage uuid (Str content) False))
      | Plain (UserMessage u) \<Rightarrow>
          (case normalize_user env (map tool_name tools) targets u of
             None \<Rightarrow> result
           | Some n \<Rightarrow> push_merging env result (UserMessage n))
      | Plain (AssistantMessage a) \<Rightarrow> push_assistant result (normalize_assistant env tools a)
      | Attachment att \<Rightarrow> push_attachment env result (attach att)
      | Progress \<Rightarrow> result)"

definition is_sent :: "'a message \<Rightarrow> bool" where
  "is_sent m \<longleftrightarrow> \<not> ((case m of Progress \<Rightarrow> True
      | SystemMessage s c u \<Rightarrow> \<not> isSystemLocalCommandMessage m | _ \<Rightarrow> False) \<or> isSyntheticApiErrorMessage m)"

definition api_passes :: "api_env \<Rightarrow> api_message list \<Rightarrow> api_message list" where
  "api_passes env result =
     (let relocated = (if toolref_defer env then relocateToolReferenceSiblings result else result);
          withFilteredOrphans = filterOrphanedThinkingOnlyMessages relocated;
          withFilteredThinking = filterTrailingThinkingFromLastAssistant withFilteredOrphans;
          withFilteredWhitespace = filterWhitespaceOnlyAssistantMessages env withFilteredThinking;
          withNonEmpty = ensureNonEmptyAssistantContent withFilteredWhitespace;
          smooshed = (if chair_sermon env
            then smooshSystemReminderSiblings (mergeAdjacentUserMessages env withNonEmpty) else withNonEmpty)
      in sanitizeErrorToolResultContent smooshed)"

section \<open>Tags for the messages\<close>

definition digit_of :: "char \<Rightarrow> nat option" where
  "digit_of c =
     (let n = of_char c :: nat in
      if 48 \<le> n \<and> n \<le> 57 then Some (n - 48)
      else if 97 \<le> n \<and> n \<le> 102 then Some (n - 87)
      else if 65 \<le> n \<and> n \<le> 70 then Some (n - 55) else None)"

fun hex_prefix :: "nat \<Rightarrow> string \<Rightarrow> nat" where
  "hex_prefix acc [] = acc"
| "hex_prefix acc (c # s) = (case digit_of c of None \<Rightarrow> acc | Some d \<Rightarrow> hex_prefix (16 * acc + d) s)"

fun base36 :: "nat \<Rightarrow> string" where
  "base36 n =
     (let d = n mod 36; c = char_of (if d < 10 then 48 + d else 87 + d)
      in if n < 36 then [c] else base36 (n div 36) @ [c])"

declare base36.simps [simp del]

text \<open>The identities are UUIDs; a text that does not start with a hexadecimal digit is no number.\<close>

definition deriveShortMessageId :: "string \<Rightarrow> string" where
  "deriveShortMessageId uuid =
     (let hex = take 10 (filter (\<lambda>c. c \<noteq> CHR ''-'') uuid) in
      if hex = [] \<or> digit_of (hd hex) = None then ''NaN'' else take 6 (base36 (hex_prefix 0 hex)))"

definition appendMessageTagToUserMessage :: "user_message \<Rightarrow> user_message" where
  "appendMessageTagToUserMessage u =
     (if isMeta u then u
      else (let tag = [NL] @ ''[id:'' @ deriveShortMessageId (user_uuid u) @ '']'' in
            case user_content u of
              Str t \<Rightarrow> u\<lparr>user_content := Str (t @ tag)\<rparr>
            | Blocks bs \<Rightarrow>
                (case find (\<lambda>i. is_text (bs ! i)) (rev [0..<length bs]) of
                   None \<Rightarrow> u
                 | Some i \<Rightarrow> u\<lparr>user_content := Blocks (bs[i := TextBlock (block_text (bs ! i) @ tag)])\<rparr>)))"

text \<open>The error is the list of the images that are too large.\<close>

definition normalizeMessagesForAPI ::
  "api_env \<Rightarrow> bool \<Rightarrow> ('a \<Rightarrow> user_message list) \<Rightarrow> ('i, 'p) tool list \<Rightarrow> 'a message list \<Rightarrow>
   (nat \<times> nat) list + api_message list" where
  "normalizeMessagesForAPI env nonInteractive attach tools messages =
     (let reordered = filter (\<lambda>m. \<not> is_virtual m) (reorderAttachmentsForAPI messages);
          targets = strip_targets nonInteractive [] reordered;
          result = foldl (normalize_step env attach tools targets) [] (filter is_sent reordered);
          sanitized = api_passes env result;
          tagged = (if snipRuntimeEnabled env \<and> \<not> test_mode env
                    then on_users appendMessageTagToUserMessage sanitized else sanitized)
      in case validateImagesForAPI tagged of Inl e \<Rightarrow> Inl e | Inr _ \<Rightarrow> Inr tagged)"

section \<open>The messages of a request\<close>

datatype request_error = ImagesTooLarge "(nat \<times> nat) list" | PairingMismatch string

text \<open>
  The part of \<open>queryModel\<close> between the session's messages and those of the request: \<open>useToolSearch\<close> is the
  answer for the selected model, \<open>advisor\<close> that the request has the advisor's beta header.
\<close>

definition messages_for_request ::
  "api_env \<Rightarrow> bool \<Rightarrow> ('a \<Rightarrow> user_message list) \<Rightarrow> (nat \<Rightarrow> string) \<Rightarrow> bool \<Rightarrow> bool \<Rightarrow> bool \<Rightarrow>
   ('i, 'p) tool list \<Rightarrow> 'a message list \<Rightarrow> request_error + api_message list" where
  "messages_for_request env nonInteractive attach uuids strict useToolSearch advisor tools messages =
     (case normalizeMessagesForAPI env nonInteractive attach tools messages of
        Inl e \<Rightarrow> Inl (ImagesTooLarge e)
      | Inr ms \<Rightarrow>
          (let ms = (if \<not> useToolSearch
                     then on_assistants stripCallerFieldFromAssistantMessage
                            (on_users stripToolReferenceBlocksFromUserMessage ms)
                     else ms)
           in case ensureToolResultPairing env uuids strict ms of
                Inl e \<Rightarrow> Inl (PairingMismatch e)
              | Inr ms \<Rightarrow>
                  (let ms = (if advisor then ms else stripAdvisorBlocks ms)
                   in Inr (stripExcessMediaItems ms API_MAX_MEDIA_PER_REQUEST))))"

end
