(* ===== verification/Api_Pairing_Laws.thy ===== *)
theory Api_Pairing_Laws
  imports Api_Pairing
begin

text \<open>
  What the repair of tool calls and results establishes: the condition of the API, exactly when it
  is not met already.
\<close>

section \<open>The condition of the API\<close>

fun message_calls :: "api_message \<Rightarrow> string list" where
  "message_calls (UserMessage u) = []"
| "message_calls (AssistantMessage a) = call_ids (assistant_content a)"

fun message_results :: "api_message \<Rightarrow> string list" where
  "message_results (UserMessage u) = (case user_content u of Blocks bs \<Rightarrow> result_ids bs | Str t \<Rightarrow> [])"
| "message_results (AssistantMessage a) = []"

text \<open>
  The calls that wait for results.  A user message has the results of the calls that wait, of each one
  exactly, and no others; an assistant message comes only when no call waits.
\<close>

fun await :: "string list option \<Rightarrow> api_message \<Rightarrow> string list option" where
  "await None m = None"
| "await (Some pend) (UserMessage u) =
     (if distinct (message_results (UserMessage u)) \<and> set (message_results (UserMessage u)) = set pend
      then Some [] else None)"
| "await (Some pend) (AssistantMessage a) =
     (if pend = [] then Some (message_calls (AssistantMessage a)) else None)"

definition calls_answered :: "api_message list \<Rightarrow> bool" where
  "calls_answered ms \<longleftrightarrow> foldl await (Some []) ms = Some []"

definition all_calls :: "api_message list \<Rightarrow> string list" where
  "all_calls ms = concat (map message_calls ms)"

fun server_complete :: "api_message \<Rightarrow> bool" where
  "server_complete (UserMessage u) = True"
| "server_complete (AssistantMessage a) =
     list_all (server_resolved (List.map_filter server_result_id (assistant_content a))) (assistant_content a)"

definition api_paired :: "api_message list \<Rightarrow> bool" where
  "api_paired ms \<longleftrightarrow> calls_answered ms \<and> distinct (all_calls ms) \<and> list_all server_complete ms"

lemma all_calls_simps [simp]:
  "all_calls [] = []" "all_calls (m # ms) = message_calls m @ all_calls ms"
  "all_calls (ms @ ns) = all_calls ms @ all_calls ns"
  by (simp_all add: all_calls_def)

lemma await_None [simp]: "foldl await None ms = None"
  by (induction ms) auto

section \<open>Identities in contents\<close>

lemma ids_Nil [simp]: "result_ids [] = []" "call_ids [] = []"
  by (simp_all add: result_ids_def call_ids_def List.map_filter_simps)

lemma ids_Cons [simp]:
  "result_ids (b # bs) = (case result_id b of Some i \<Rightarrow> i # result_ids bs | None \<Rightarrow> result_ids bs)"
  "call_ids (b # bs) = (case call_id b of Some i \<Rightarrow> i # call_ids bs | None \<Rightarrow> call_ids bs)"
  by (simp_all add: result_ids_def call_ids_def List.map_filter_simps split: option.split)

lemma ids_append [simp]:
  "result_ids (bs @ cs) = result_ids bs @ result_ids cs" "call_ids (bs @ cs) = call_ids bs @ call_ids cs"
  by (induction bs) (auto split: option.split)

lemma is_tool_result_id: "is_tool_result b \<longleftrightarrow> result_id b \<noteq> None"
  by (cases b) auto

lemma result_ids_none: "list_all (\<lambda>b. \<not> is_tool_result b) bs \<Longrightarrow> result_ids bs = []"
  by (induction bs) (auto simp: is_tool_result_id)

lemma result_ids_stripped [simp]: "result_ids (filter (\<lambda>b. \<not> is_tool_result b) bs) = []"
  by (rule result_ids_none) (simp add: list_all_iff)

lemma result_ids_empty: "result_ids bs = [] \<longleftrightarrow> list_all (\<lambda>b. \<not> is_tool_result b) bs"
  by (induction bs) (auto simp: is_tool_result_id split: option.split)

lemma synthetic_ids [simp]: "result_ids (synthetic_blocks ids) = ids"
  by (induction ids) (auto simp: synthetic_blocks_def)

lemma dedupe_results_ids:
  "distinct (result_ids (dedupe_results orphaned seen bs)) \<and>
   set (result_ids (dedupe_results orphaned seen bs)) = set (result_ids bs) - set orphaned - set seen"
  by (induction orphaned seen bs rule: dedupe_results.induct) (auto split: option.splits)

text \<open>The filter over an assistant's content, for given identities of server results.\<close>

lemma dedupe_calls_spec:
  assumes "dedupe_calls server seen bs = (seen', bs')"
  shows "distinct (call_ids bs') \<and> set (call_ids bs') \<inter> set seen = {} \<and> set seen' = set seen \<union> set (call_ids bs')"
  using assms
proof (induction bs arbitrary: seen seen' bs')
  case (Cons b bs)
  show ?case
  proof (cases "call_id b")
    case None
    obtain s t where st: "dedupe_calls server seen bs = (s, t)" by (cases "dedupe_calls server seen bs")
    show ?thesis using None Cons.prems Cons.IH [OF st] st by (auto split: if_splits)
  next
    case (Some i)
    obtain s t where st: "dedupe_calls server (i # seen) bs = (s, t)" by (cases "dedupe_calls server (i # seen) bs")
    show ?thesis
    proof (cases "i \<in> set seen")
      case True
      then show ?thesis using Some Cons.prems Cons.IH [of seen] by simp
    next
      case False
      then show ?thesis using Some Cons.prems Cons.IH [OF st] st by auto
    qed
  qed
qed simp

lemma map_filter_Cons [simp]:
  "List.map_filter f (b # bs) = (case f b of Some i \<Rightarrow> i # List.map_filter f bs | None \<Rightarrow> List.map_filter f bs)"
  by (simp add: List.map_filter_simps)

lemma map_filter_Nil [simp]: "List.map_filter f [] = []"
  by (simp add: List.map_filter_simps)

lemma dedupe_calls_server:
  assumes "dedupe_calls server seen bs = (seen', bs')"
  shows "list_all (server_resolved server) bs' \<and>
    List.map_filter server_result_id bs' = List.map_filter server_result_id bs"
  using assms
proof (induction server seen bs arbitrary: seen' bs' rule: dedupe_calls.induct)
  case (2 server seen b bs)
  have use: "call_id b = Some i \<Longrightarrow> server_resolved server b \<and> server_result_id b = None" for i
    by (cases b) (auto simp: server_resolved_def)
  have lost: "\<not> server_resolved server b \<Longrightarrow> server_result_id b = None"
    by (cases b) (auto simp: server_resolved_def)
  show ?case using 2 use lost by (auto split: option.splits prod.splits if_splits)
qed simp

lemma dedupe_calls_length:
  assumes "dedupe_calls server seen bs = (seen', bs')"
  shows "length bs' \<le> length bs \<and> (length bs' = length bs \<longrightarrow> bs' = bs)"
  using assms
proof (induction server seen bs arbitrary: seen' bs' rule: dedupe_calls.induct)
  case (2 server seen b bs)
  then show ?case by (fastforce split: option.splits prod.splits if_splits)
qed simp

text \<open>Nothing is filtered from a content in order.\<close>

lemma dedupe_calls_same:
  assumes "distinct (call_ids bs)" "set (call_ids bs) \<inter> set seen = {}" "list_all (server_resolved server) bs"
  shows "snd (dedupe_calls server seen bs) = bs"
  using assms
  by (induction server seen bs rule: dedupe_calls.induct) (auto split: option.splits prod.splits)

lemma smoosh_id: "smooshIntoToolResult i c e bs = Some b \<Longrightarrow> \<exists>c'. b = ToolResultBlock i c' e"
  by (auto simp: smooshIntoToolResult_def Let_def split: if_splits)

lemma reminder_ids: "result_ids (filter (\<lambda>b. \<not> is_reminder b) bs) = result_ids bs"
proof (induction bs)
  case (Cons b bs)
  then show ?case by (cases b) auto
qed simp

lemma smoosh_reminders_ids [simp]: "result_ids (smoosh_reminders bs) = result_ids bs"
proof -
  define kept where "kept = filter (\<lambda>b. \<not> is_reminder b) bs"
  have split: "result_ids kept = result_ids (take n kept @ [smooshed] @ drop (n + 1) kept)"
    if "n < length kept" "kept ! n = ToolResultBlock i c e" "smooshIntoToolResult i c e t = Some smooshed"
    for n i c e t smooshed
  proof -
    have "kept = take n kept @ [kept ! n] @ drop (n + 1) kept" using id_take_nth_drop [OF that(1)] by simp
    then have "result_ids kept = result_ids (take n kept @ [kept ! n] @ drop (n + 1) kept)" by metis
    then show ?thesis using that(2) smoosh_id [OF that(3)] by (auto simp del: append.simps)
  qed
  show ?thesis
    unfolding smoosh_reminders_def Let_def kept_def [symmetric]
    by (auto split: option.split block.split dest!: find_rev_upt_SomeD split [symmetric]
        simp: reminder_ids [of bs, folded kept_def] simp del: append.simps ids_append)
qed

section \<open>The loop\<close>

lemma mismatch_iff: "mismatch ids existing \<longleftrightarrow> \<not> (distinct existing \<and> set existing = set ids)"
  by (auto simp: mismatch_def filter_empty_conv)

lemma results_fold: "(case user_content u of Blocks bs \<Rightarrow> result_ids bs | Str t \<Rightarrow> []) = message_results (UserMessage u)"
  by (simp split: user_content.split)

definition pairing_inv :: "pairing_state \<Rightarrow> api_message list \<Rightarrow> bool" where
  "pairing_inv s rest \<longleftrightarrow>
     (\<exists>pend. foldl await (Some []) (paired_result s) = Some pend \<and>
        (if paired_result s \<noteq> [] \<and> \<not> is_user (last (paired_result s))
         then (case rest of UserMessage u # _ \<Rightarrow> \<not> mismatch pend (message_results (UserMessage u)) | _ \<Rightarrow> pend = [])
         else pend = [])) \<and>
     distinct (all_calls (paired_result s)) \<and> set (all_calls (paired_result s)) = set (allSeenToolUseIds s) \<and>
     list_all server_complete (paired_result s)"

lemma patched_results:
  assumes ids: "distinct toolUseIds"
  shows "distinct (message_results (UserMessage (patch_user env uuid toolUseIds u))) \<and>
    set (message_results (UserMessage (patch_user env uuid toolUseIds u))) = set toolUseIds"
proof -
  define existing where "existing = message_results (UserMessage u)"
  define orphaned where "orphaned = filter (\<lambda>i. i \<notin> set toolUseIds) existing"
  define content where "content = (case user_content u of Blocks bs \<Rightarrow> bs | Str t \<Rightarrow> [TextBlock t])"
  define content' where
    "content' = (if orphaned \<noteq> [] \<or> \<not> distinct existing then dedupe_results orphaned [] content else content)"
  define patched where "patched = synthetic_blocks (filter (\<lambda>i. i \<notin> set existing) toolUseIds) @ content'"
  have ex: "result_ids content = existing"
    by (simp add: content_def existing_def split: user_content.split)
  have c: "distinct (result_ids content') \<and> set (result_ids content') = set existing \<inter> set toolUseIds"
    using dedupe_results_ids [of orphaned "[]" content] ex
    by (auto simp: content'_def orphaned_def filter_empty_conv)
  then have r: "distinct (result_ids patched) \<and> set (result_ids patched) = set toolUseIds"
    using ids by (auto simp: patched_def)
  have p: "patch_user env uuid toolUseIds u =
      (if patched = [] then createUserMessage uuid (Str NO_CONTENT_MESSAGE) True
       else if chair_sermon env then u\<lparr>user_content := Blocks (smoosh_reminders patched)\<rparr>
       else u\<lparr>user_content := Blocks patched\<rparr>)"
    unfolding patch_user_def results_fold Let_def patched_def content'_def content_def orphaned_def existing_def ..
  show ?thesis
  proof (cases "patched = []")
    case True
    then show ?thesis using r p by (simp add: createUserMessage_def NO_CONTENT_MESSAGE_def)
  next
    case False
    then show ?thesis using r p by simp
  qed
qed

lemma pairing_inv_repaired [simp]: "pairing_inv (s\<lparr>repaired := r\<rparr>) ms = pairing_inv s ms"
  by (simp add: pairing_inv_def)

lemma push_user_inv:
  assumes "foldl await (Some []) (paired_result s) = Some pend"
    "distinct (message_results (UserMessage u))" "set (message_results (UserMessage u)) = set pend"
    "distinct (all_calls (paired_result s))" "set (all_calls (paired_result s)) = set (allSeenToolUseIds s)"
    "list_all server_complete (paired_result s)"
  shows "pairing_inv (push (UserMessage u) s) ms"
  using assms by (simp add: pairing_inv_def push_def del: message_results.simps)

text \<open>A user message at its own turn is kept, stripped of stray results, or dropped.\<close>

lemma pair_user_cases:
  obtains (kept) "pair_user u s = push (UserMessage u) s"
      "paired_result s \<noteq> [] \<and> \<not> is_user (last (paired_result s)) \<or> message_results (UserMessage u) = []"
  | (replaced) u' where "pair_user u s = push (UserMessage u') (s\<lparr>repaired := True\<rparr>)" "message_results (UserMessage u') = []"
      "message_results (UserMessage u) \<noteq> []" "\<not> (paired_result s \<noteq> [] \<and> \<not> is_user (last (paired_result s)))"
  | (dropped) "pair_user u s = s\<lparr>repaired := True\<rparr>" "message_results (UserMessage u) \<noteq> []" "paired_result s \<noteq> []" "is_user (last (paired_result s))"
proof (cases "user_content u")
  case (Str t)
  then show ?thesis using kept by (simp add: pair_user_def)
next
  case (Blocks bs)
  define stripped where "stripped = filter (\<lambda>b. \<not> is_tool_result b) bs"
  have same: "result_ids bs = []" if "length stripped = length bs"
    using that result_ids_stripped [of bs] by (metis filter_id_conv filter_True length_filter_less nat_neq_iff stripped_def)
  show ?thesis
  proof (cases "paired_result s \<noteq> [] \<and> \<not> is_user (last (paired_result s))")
    case True
    then show ?thesis using kept Blocks by (simp add: pair_user_def)
  next
    case False
    then have f: "(paired_result s \<noteq> [] \<and> \<not> is_user (last (paired_result s))) = False" by simp
    have eq: "pair_user u s =
        (if length stripped = length bs then push (UserMessage u) s
         else if stripped \<noteq> [] then push (UserMessage (u\<lparr>user_content := Blocks stripped\<rparr>)) (s\<lparr>repaired := True\<rparr>)
         else if paired_result s = [] then
           push (UserMessage (u\<lparr>user_content :=
             Blocks [TextBlock ''[Orphaned tool result removed due to conversation resume]'']\<rparr>)) (s\<lparr>repaired := True\<rparr>)
         else s\<lparr>repaired := True\<rparr>)"
      by (simp only: pair_user_def Let_def Blocks user_content.case f if_False stripped_def)
    show ?thesis
    proof (cases "length stripped = length bs")
      case True
      then show ?thesis using kept eq Blocks same by simp
    next
      case ne: False
      then have nonempty: "message_results (UserMessage u) \<noteq> []"
        using Blocks result_ids_empty [of bs] by (auto simp: stripped_def list_all_iff)
      show ?thesis
      proof (cases "stripped = [] \<and> paired_result s \<noteq> []")
        case True
        then show ?thesis using dropped nonempty eq ne False by simp
      next
        case nd: False
        let ?c = "if stripped \<noteq> [] then stripped
          else [TextBlock ''[Orphaned tool result removed due to conversation resume]'']"
        have "pair_user u s = push (UserMessage (u\<lparr>user_content := Blocks ?c\<rparr>)) (s\<lparr>repaired := True\<rparr>)"
          using eq ne nd by auto
        then show ?thesis using replaced nonempty False by (simp add: stripped_def)
      qed
    qed
  qed
qed

lemma pair_user_inv:
  assumes "pairing_inv s (UserMessage u # ms)"
  shows "pairing_inv (pair_user u s) ms"
proof -
  obtain pend where pend: "foldl await (Some []) (paired_result s) = Some pend"
      "if paired_result s \<noteq> [] \<and> \<not> is_user (last (paired_result s))
       then \<not> mismatch pend (message_results (UserMessage u)) else pend = []"
    and rest: "distinct (all_calls (paired_result s))" "set (all_calls (paired_result s)) = set (allSeenToolUseIds s)"
      "list_all server_complete (paired_result s)"
    using assms unfolding pairing_inv_def list.case api_message.case by blast
  show ?thesis
  proof (cases rule: pair_user_cases [of u s])
    case kept
    then show ?thesis using pend rest push_user_inv [of s pend u]
      by (auto simp: mismatch_iff simp del: message_results.simps split: if_splits)
  next
    case (replaced u')
    then have "pairing_inv (push (UserMessage u') s) ms"
      using pend rest by (intro push_user_inv [of s pend u']) (simp_all del: message_results.simps)
    then show ?thesis using replaced by (simp add: push_def pairing_inv_def)
  next
    case dropped
    then show ?thesis using pend rest by (simp add: pairing_inv_def)
  qed
qed

text \<open>What an assistant message adds to the conversation.\<close>

lemma pair_assistant_result:
  assumes "pair_assistant a s = (s', sent)"
  obtains a' where "paired_result s' = paired_result s @ [AssistantMessage a']" "call_ids (assistant_content a') = call_ids sent"
    "distinct (call_ids sent)" "set (call_ids sent) \<inter> set (allSeenToolUseIds s) = {}"
    "set (allSeenToolUseIds s') = set (allSeenToolUseIds s) \<union> set (call_ids sent)"
    "server_complete (AssistantMessage a')"
proof -
  define content where "content = assistant_content a"
  obtain seen final where d: "dedupe_calls (List.map_filter server_result_id content) (allSeenToolUseIds s) content = (seen, final)"
    by (cases "dedupe_calls (List.map_filter server_result_id content) (allSeenToolUseIds s) content")
  define a' where "a' = (if length final \<noteq> length content
    then a\<lparr>assistant_content := (if final = [] then [TextBlock ''[Tool use interrupted]''] else final)\<rparr> else a)"
  have eq: "s' = push (AssistantMessage a') (s\<lparr>allSeenToolUseIds := seen, repaired := repaired s \<or> length final \<noteq> length content\<rparr>)"
    "sent = final"
    using assms d unfolding pair_assistant_def Let_def content_def [symmetric] a'_def by auto
  have same: "length final = length content \<Longrightarrow> final = content" using dedupe_calls_length [OF d] by simp
  then have "assistant_content a' = (if final = [] \<and> content \<noteq> [] then [TextBlock ''[Tool use interrupted]''] else final)"
    by (auto simp: a'_def content_def)
  then have "call_ids (assistant_content a') = call_ids sent" "server_complete (AssistantMessage a')"
    using dedupe_calls_server [OF d] eq(2) by (simp_all add: server_resolved_def)
  then show ?thesis
    using that [of a'] eq dedupe_calls_spec [OF d] by (simp add: push_def)
qed

lemma pair_assistant_inv:
  assumes "pairing_inv s (AssistantMessage a # ms)" "pair_assistant a s = (s', sent)"
  shows "foldl await (Some []) (paired_result s') = Some (call_ids sent)" "distinct (call_ids sent)"
    "distinct (all_calls (paired_result s'))" "set (all_calls (paired_result s')) = set (allSeenToolUseIds s')"
    "list_all server_complete (paired_result s')" "paired_result s' \<noteq> []" "\<not> is_user (last (paired_result s'))"
proof -
  obtain a' where a': "paired_result s' = paired_result s @ [AssistantMessage a']" "call_ids (assistant_content a') = call_ids sent"
    "distinct (call_ids sent)" "set (call_ids sent) \<inter> set (allSeenToolUseIds s) = {}"
    "set (allSeenToolUseIds s') = set (allSeenToolUseIds s) \<union> set (call_ids sent)" "server_complete (AssistantMessage a')"
    using pair_assistant_result [OF assms(2)] .
  have "foldl await (Some []) (paired_result s) = Some []" "distinct (all_calls (paired_result s))"
    "set (all_calls (paired_result s)) = set (allSeenToolUseIds s)" "list_all server_complete (paired_result s)"
    using assms(1) unfolding pairing_inv_def list.case api_message.case by (auto split: if_splits)
  with a' show "foldl await (Some []) (paired_result s') = Some (call_ids sent)" "distinct (call_ids sent)"
    "distinct (all_calls (paired_result s'))" "set (all_calls (paired_result s')) = set (allSeenToolUseIds s')"
    "list_all server_complete (paired_result s')" "paired_result s' \<noteq> []" "\<not> is_user (last (paired_result s'))"
    by (auto simp del: server_complete.simps)
qed

text \<open>The turns of the loop: a user message, an assistant message with its patched successor, or on its own.\<close>

lemma pair_loop_cases:
  obtains (finished) "ms = []"
  | (user) u rest where "ms = UserMessage u # rest" "pair_loop env uuids ms s = pair_loop env uuids rest (pair_user u s)"
  | (patch) a u rest s' sent where "ms = AssistantMessage a # UserMessage u # rest" "pair_assistant a s = (s', sent)"
      "mismatch (call_ids sent) (message_results (UserMessage u))"
      "pair_loop env uuids ms s = pair_loop env uuids rest
         (push (UserMessage (patch_user env (uuids (length (UserMessage u # rest))) (call_ids sent) u)) (s'\<lparr>repaired := True\<rparr>))"
  | (add) a rest s' sent where "ms = AssistantMessage a # rest" "pair_assistant a s = (s', sent)" "call_ids sent \<noteq> []"
      "\<nexists>u rest'. rest = UserMessage u # rest'" "pair_loop env uuids ms s = pair_loop env uuids rest
         (push (UserMessage (createUserMessage (uuids (length rest)) (Blocks (synthetic_blocks (call_ids sent))) True))
           (s'\<lparr>repaired := True\<rparr>))"
  | (fine) a rest s' sent where "ms = AssistantMessage a # rest" "pair_assistant a s = (s', sent)"
      "case rest of UserMessage u # _ \<Rightarrow> \<not> mismatch (call_ids sent) (message_results (UserMessage u)) | _ \<Rightarrow> call_ids sent = []"
      "pair_loop env uuids ms s = pair_loop env uuids rest s'"
proof (cases ms)
  case (Cons m rest)
  show ?thesis
  proof (cases m)
    case (UserMessage u)
    then show ?thesis using user Cons by simp
  next
    case (AssistantMessage a)
    obtain s' sent where p: "pair_assistant a s = (s', sent)" by (cases "pair_assistant a s")
    show ?thesis
    proof (cases "\<exists>u rest'. rest = UserMessage u # rest'")
      case True
      then obtain u rest' where r: "rest = UserMessage u # rest'" by blast
      show ?thesis
        using patch [of a u rest' s' sent] fine [of a rest s' sent] Cons AssistantMessage p r
        by (cases "mismatch (call_ids sent) (message_results (UserMessage u))")
          (simp_all add: results_fold Let_def del: message_results.simps pair_loop.simps(2))
    next
      case False
      then have no_user: "\<nexists>u rest'. rest = UserMessage u # rest'" by blast
      from False have "rest = [] \<or> (\<exists>b rest'. rest = AssistantMessage b # rest')"
        by (metis api_message.exhaust list.exhaust)
      then show ?thesis
        using add [of a rest s' sent] fine [of a rest s' sent] Cons AssistantMessage p no_user
        by (cases "call_ids sent = []") (auto simp: Let_def simp del: pair_loop.simps(2) split: prod.splits)
    qed
  qed
qed (use finished in simp)

lemma push_synthetic_inv:
  assumes "pairing_inv s (AssistantMessage a # ms)" "pair_assistant a s = (s', sent)"
    "distinct (message_results (UserMessage u))" "set (message_results (UserMessage u)) = set (call_ids sent)"
  shows "pairing_inv (push (UserMessage u) (s'\<lparr>repaired := True\<rparr>)) rest"
  using push_user_inv [of "s'\<lparr>repaired := True\<rparr>"] pair_assistant_inv [OF assms(1,2)] assms(3,4) by simp

lemma pair_loop_inv: "pairing_inv s ms \<Longrightarrow> pairing_inv (pair_loop env uuids ms s) []"
proof (induction "length ms" arbitrary: ms s rule: less_induct)
  case less
  show ?case
  proof (cases rule: pair_loop_cases [where ms = ms and env = env and uuids = uuids and s = s])
    case finished
    then show ?thesis using less.prems by simp
  next
    case (user u rest)
    then show ?thesis using less pair_user_inv by simp
  next
    case (patch a u rest s' sent)
    have "distinct (call_ids sent)" using pair_assistant_inv(2) less.prems patch(1,2) by blast
    then show ?thesis
      using less.hyps patch push_synthetic_inv [OF less.prems [unfolded patch(1)] patch(2)] patched_results by simp
  next
    case (add a rest s' sent)
    have "distinct (call_ids sent)" using pair_assistant_inv(2) less.prems add(1,2) by blast
    then show ?thesis
      using less.hyps add push_synthetic_inv [OF less.prems [unfolded add(1)] add(2)] by (simp add: createUserMessage_def)
  next
    case (fine a rest s' sent)
    then have "pairing_inv s' rest"
      using pair_assistant_inv [OF less.prems [unfolded fine(1)] fine(2)] unfolding pairing_inv_def by simp
    then show ?thesis using less.hyps fine by simp
  qed
qed

lemma repaired_sound: "api_paired (paired_result (pair_loop env uuids ms pairing_start))"
proof -
  have "pairing_inv pairing_start ms" by (simp add: pairing_inv_def pairing_start_def)
  then have "pairing_inv (pair_loop env uuids ms pairing_start) []" by (rule pair_loop_inv)
  then show ?thesis by (auto simp: pairing_inv_def api_paired_def calls_answered_def split: if_splits)
qed

section \<open>When nothing is repaired\<close>

lemma pair_assistant_same:
  assumes "pair_assistant a s = (s', sent)" "\<not> repaired s'"
  shows "\<not> repaired s" "paired_result s' = paired_result s @ [AssistantMessage a]"
  using assms by (auto simp: pair_assistant_def push_def Let_def split: prod.splits)

lemma unrepaired_same:
  "\<not> repaired (pair_loop env uuids ms s) \<Longrightarrow> \<not> repaired s \<and> paired_result (pair_loop env uuids ms s) = paired_result s @ ms"
proof (induction "length ms" arbitrary: ms s rule: less_induct)
  case less
  show ?case
  proof (cases rule: pair_loop_cases [where ms = ms and env = env and uuids = uuids and s = s])
    case finished
    then show ?thesis using less.prems by simp
  next
    case (user u rest)
    have IH: "\<not> repaired (pair_user u s) \<and> paired_result (pair_loop env uuids ms s) = paired_result (pair_user u s) @ rest"
      using less.hyps [of rest "pair_user u s"] less.prems user by simp
    show ?thesis
      by (cases rule: pair_user_cases [of u s]) (use IH user in \<open>simp_all add: push_def\<close>)
  next
    case (patch a u rest s' sent)
    then show ?thesis using less.hyps [of rest] less.prems by (force simp: push_def)
  next
    case (add a rest s' sent)
    then show ?thesis using less.hyps [of rest] less.prems by (force simp: push_def)
  next
    case (fine a rest s' sent)
    then have "\<not> repaired s' \<and> paired_result (pair_loop env uuids ms s) = paired_result s' @ rest"
      using less.hyps [of rest s'] less.prems by simp
    then show ?thesis using pair_assistant_same [OF fine(2)] fine(1) by simp
  qed
qed

definition expects :: "pairing_state \<Rightarrow> api_message list \<Rightarrow> bool" where
  "expects s ms \<longleftrightarrow> \<not> repaired s \<and> foldl await (Some []) (paired_result s @ ms) = Some [] \<and>
     distinct (all_calls (paired_result s @ ms)) \<and> set (allSeenToolUseIds s) = set (all_calls (paired_result s)) \<and>
     list_all server_complete ms"

lemma await_last_user:
  "foldl await (Some []) ms = Some pend \<Longrightarrow> \<not> (ms \<noteq> [] \<and> \<not> is_user (last ms)) \<Longrightarrow> pend = []"
proof (induction ms rule: rev_induct)
  case (snoc m ms)
  then show ?case
    by (cases m; cases "foldl await (Some []) ms") (auto split: if_splits)
qed simp

lemma expects_user:
  assumes "expects s (UserMessage u # ms)"
  shows "pair_user u s = push (UserMessage u) s" "expects (pair_user u s) ms"
proof -
  obtain pend where pend: "foldl await (Some []) (paired_result s) = Some pend"
    using assms by (cases "foldl await (Some []) (paired_result s)") (auto simp: expects_def)
  have ok: "set (message_results (UserMessage u)) = set pend"
    using assms pend by (auto simp: expects_def simp del: message_results.simps split: if_splits)
  show kept: "pair_user u s = push (UserMessage u) s"
  proof (cases rule: pair_user_cases [of u s])
    case (replaced u')
    then have "pend = []" using await_last_user [OF pend] by blast
    then show ?thesis using replaced(3) ok by (metis empty_set set_empty)
  next
    case dropped
    then have "pend = []" using await_last_user [OF pend] by blast
    then show ?thesis using dropped(2) ok by (metis empty_set set_empty)
  qed blast
  show "expects (pair_user u s) ms"
    using assms unfolding kept by (simp add: expects_def push_def del: message_results.simps)
qed

lemma expects_assistant:
  assumes "expects s (AssistantMessage a # ms)" "pair_assistant a s = (s', sent)"
  shows "sent = assistant_content a" "expects s' ms" "foldl await (Some (call_ids sent)) ms = Some []"
proof -
  obtain pend where pend: "foldl await (Some []) (paired_result s) = Some pend"
    using assms by (cases "foldl await (Some []) (paired_result s)") (auto simp: expects_def)
  then have p: "pend = []" "foldl await (Some (call_ids (assistant_content a))) ms = Some []"
    using assms by (auto simp: expects_def split: if_splits)
  have same: "snd (dedupe_calls (List.map_filter server_result_id (assistant_content a)) (allSeenToolUseIds s)
      (assistant_content a)) = assistant_content a"
    using assms(1) by (intro dedupe_calls_same) (auto simp: expects_def)
  then show sent: "sent = assistant_content a"
    using assms(2) by (auto simp: pair_assistant_def Let_def split: prod.splits)
  have s': "paired_result s' = paired_result s @ [AssistantMessage a]" "repaired s' = repaired s"
    using assms(2) same by (auto simp: pair_assistant_def push_def Let_def split: prod.splits)
  obtain a' where "set (allSeenToolUseIds s') = set (allSeenToolUseIds s) \<union> set (call_ids sent)"
    using pair_assistant_result [OF assms(2)] by metis
  then show "expects s' ms" using assms(1) s' sent by (auto simp: expects_def)
  show "foldl await (Some (call_ids sent)) ms = Some []" using p sent by simp
qed

lemma expects_unrepaired: "expects s ms \<Longrightarrow> \<not> repaired (pair_loop env uuids ms s)"
proof (induction "length ms" arbitrary: ms s rule: less_induct)
  case less
  show ?case
  proof (cases rule: pair_loop_cases [where ms = ms and env = env and uuids = uuids and s = s])
    case finished
    then show ?thesis using less.prems by (simp add: expects_def)
  next
    case (user u rest)
    then show ?thesis using less expects_user(2) by simp
  next
    case (patch a u rest s' sent)
    then have "foldl await (Some (call_ids sent)) (UserMessage u # rest) = Some []"
      using expects_assistant(3) less.prems by blast
    then show ?thesis using patch(3) by (simp add: mismatch_iff del: message_results.simps split: if_splits)
  next
    case (add a rest s' sent)
    then have aw: "foldl await (Some (call_ids sent)) rest = Some []" using expects_assistant(3) less.prems by blast
    show ?thesis
    proof (cases rest)
      case (Cons m r)
      then show ?thesis using aw add(3,4) by (cases m) auto
    qed (use aw add(3) in simp)
  next
    case (fine a rest s' sent)
    then show ?thesis using less expects_assistant(2) by simp
  qed
qed

lemma repaired_iff: "repaired (pair_loop env uuids ms pairing_start) \<longleftrightarrow> \<not> api_paired ms"
proof
  assume r: "repaired (pair_loop env uuids ms pairing_start)"
  show "\<not> api_paired ms"
  proof
    assume "api_paired ms"
    then have "expects pairing_start ms"
      by (simp add: expects_def pairing_start_def api_paired_def calls_answered_def)
    then show False using expects_unrepaired r by blast
  qed
next
  assume n: "\<not> api_paired ms"
  show "repaired (pair_loop env uuids ms pairing_start)"
  proof (rule ccontr)
    assume u: "\<not> repaired (pair_loop env uuids ms pairing_start)"
    then have "paired_result (pair_loop env uuids ms pairing_start) = ms"
      using unrepaired_same by (fastforce simp: pairing_start_def)
    then show False using n repaired_sound [of env uuids ms] by simp
  qed
qed

section \<open>Properties\<close>

text \<open>
  C5: Every conversation is repaired to one the API accepts: each user message carries exactly
  one result for every call of the assistant message before it and no other results, every call is
  followed by its results, the identities of calls are unique in the whole conversation and every
  server-side call has its result in its own message.  The repair is a normal form: repairing again, even
  in strict mode, changes nothing.
\<close>

theorem repaired_conversation_paired:
  "\<exists>r. ensureToolResultPairing env uuids False ms = Inr r \<and> api_paired r \<and>
     ensureToolResultPairing env uuids' True r = Inr r"
proof -
  define r where "r = paired_result (pair_loop env uuids ms pairing_start)"
  have r: "api_paired r" unfolding r_def by (rule repaired_sound)
  then have u: "\<not> repaired (pair_loop env uuids' r pairing_start)" by (simp add: repaired_iff)
  then have "paired_result (pair_loop env uuids' r pairing_start) = r"
    using unrepaired_same by (fastforce simp: pairing_start_def)
  then show ?thesis using r u by (auto simp: ensureToolResultPairing_def Let_def r_def)
qed

text \<open>
  C29: Strict mode refuses exactly the conversations that need a repair: it returns a conversation
  as it is when the API would accept it, and is an error otherwise.
\<close>

theorem strict_mode_exact:
  "ensureToolResultPairing env uuids True ms =
     (if api_paired ms then Inr ms else Inl ''tool_use/tool_result pairing mismatch'')"
  using repaired_iff [of env uuids ms] unrepaired_same [of env uuids ms pairing_start]
  by (auto simp: ensureToolResultPairing_def Let_def pairing_start_def)

end
