(* ===== verification/Api_Request_Laws.thy ===== *)
theory Api_Request_Laws
  imports Api_Request Api_Pairing_Laws "HOL-Library.Multiset"
begin

text \<open>
  What is kept on the way from the session to the request: no tool call or result is lost or made up,
  user messages are merged, calls and results are paired, the media stay within the limit.
\<close>

section \<open>The calls and results of a conversation\<close>

datatype tool_event = Call string | Result string

definition message_events :: "api_message \<Rightarrow> tool_event multiset" where
  "message_events m = mset (map Call (message_calls m)) + mset (map Result (message_results m))"

definition tool_events :: "api_message list \<Rightarrow> tool_event multiset" where
  "tool_events ms = sum_list (map message_events ms)"

lemma tool_events_simps [simp]:
  "tool_events [] = {#}" "tool_events (m # ms) = message_events m + tool_events ms"
  "tool_events (ms @ ns) = tool_events ms + tool_events ns" "tool_events (rev ms) = tool_events ms"
  by (induction ms) (simp_all add: tool_events_def)

lemma user_events: "message_events (UserMessage u) = mset (map Result (result_ids (normalizeUserTextContent (user_content u))))"
  by (simp add: message_events_def normalizeUserTextContent_def split: user_content.split)

lemma assistant_events: "message_events (AssistantMessage a) = mset (map Call (call_ids (assistant_content a)))"
  by (simp add: message_events_def)

lemma events_map: "(\<And>m. m \<in> set ms \<Longrightarrow> message_events (f m) = message_events m) \<Longrightarrow> tool_events (map f ms) = tool_events ms"
  by (induction ms) auto

lemma events_filter: "(\<And>m. m \<in> set ms \<Longrightarrow> \<not> P m \<Longrightarrow> message_events m = {#}) \<Longrightarrow> tool_events (filter P ms) = tool_events ms"
  by (induction ms) auto

lemma events_butlast_last: "ms \<noteq> [] \<Longrightarrow> tool_events ms = tool_events (butlast ms) + message_events (last ms)"
  by (induction ms rule: rev_induct) auto

lemma events_update:
  "message_events m = message_events (ms ! i) \<Longrightarrow> tool_events (ms[i := m]) = tool_events ms"
proof (induction ms arbitrary: i)
  case (Cons a ms)
  then show ?case by (cases i) simp_all
qed simp

section \<open>Contents\<close>

lemma result_ids_map: "(\<And>b. result_id (h b) = result_id b) \<Longrightarrow> result_ids (map h bs) = result_ids bs"
  by (induction bs) (simp_all split: option.split)

lemma call_ids_map: "(\<And>b. call_id (h b) = call_id b) \<Longrightarrow> call_ids (map h bs) = call_ids bs"
  by (induction bs) (simp_all split: option.split)

lemma result_ids_filter: "(\<And>b. \<not> P b \<Longrightarrow> result_id b = None) \<Longrightarrow> result_ids (filter P bs) = result_ids bs"
  by (induction bs) (auto split: option.split)

lemma call_ids_filter: "(\<And>b. \<not> P b \<Longrightarrow> call_id b = None) \<Longrightarrow> call_ids (filter P bs) = call_ids bs"
  by (induction bs) (auto split: option.split)

lemma text_no_id: "is_text b \<Longrightarrow> result_id b = None" "is_text b \<Longrightarrow> call_id b = None"
  by (cases b; simp)+

lemma thinking_no_id: "isThinkingBlock b \<Longrightarrow> call_id b = None"
  by (cases b) simp_all

lemma texts_no_result: "list_all is_text bs \<Longrightarrow> result_ids bs = []"
  by (induction bs) (auto simp: text_no_id)

lemma hoist_ids [simp]: "result_ids (hoistToolResults bs) = result_ids bs"
proof -
  have "result_ids (filter is_tool_result bs) = result_ids bs"
    by (rule result_ids_filter) (simp add: is_tool_result_id)
  then show ?thesis by (simp add: hoistToolResults_def)
qed

lemma join_ids [simp]: "result_ids (joinTextAtSeam a b) = result_ids a @ result_ids b"
proof (cases "a \<noteq> [] \<and> is_text (last a)")
  case True
  then have "result_ids a = result_ids (butlast a) @ result_ids [last a]"
    by (metis append_butlast_last_id ids_append(1))
  then show ?thesis using True by (simp add: joinTextAtSeam_def text_no_id)
qed (auto simp: joinTextAtSeam_def)

lemma merge_content_ids:
  "mset (result_ids (mergeUserContentBlocks env a b)) = mset (result_ids a) + mset (result_ids b)"
proof (cases "\<exists>i c e. a \<noteq> [] \<and> last a = ToolResultBlock i c e")
  case True
  then obtain i c e where a: "a \<noteq> []" "last a = ToolResultBlock i c e" by blast
  then have ra: "result_ids a = result_ids (butlast a) @ [i]"
    by (metis append_butlast_last_id ids_append(1) ids_Cons(1) ids_Nil(1) option.case(2) result_id.simps(1))
  show ?thesis
  proof (cases "chair_sermon env")
    case True
    have "result_ids (filter is_tool_result b) = result_ids b"
      by (rule result_ids_filter) (simp add: is_tool_result_id)
    then show ?thesis using a ra True
      by (auto simp: mergeUserContentBlocks_def Let_def split: option.split dest!: smoosh_id)
  next
    case False
    have "result_ids b = [] \<and> (\<exists>c'. the (smooshIntoToolResult i c e b) = ToolResultBlock i c' e)"
      if "c = StringContent s" "list_all is_text b" for s
      using that by (auto simp: texts_no_result smooshIntoToolResult_def Let_def)
    then show ?thesis using a ra False
      by (auto simp: mergeUserContentBlocks_def split: tr_content.split)
  qed
next
  case False
  then have "mergeUserContentBlocks env a b = a @ b"
    by (cases "last a") (auto simp: mergeUserContentBlocks_def)
  then show ?thesis by simp
qed

section \<open>Messages\<close>

named_theorems keeps_events \<open>passes that keep the calls and results of a conversation\<close>

lemma user_events_eq:
  "mset (result_ids (normalizeUserTextContent (user_content u))) = mset (result_ids (normalizeUserTextContent (user_content v)))
     \<Longrightarrow> message_events (UserMessage u) = message_events (UserMessage v)"
  unfolding user_events mset_map by simp

lemma on_blocks_events:
  "(\<And>bs. mset (result_ids (f bs)) = mset (result_ids bs)) \<Longrightarrow>
     message_events (UserMessage (on_blocks f u)) = message_events (UserMessage u)"
  by (rule user_events_eq) (simp add: on_blocks_def normalizeUserTextContent_def split: user_content.split)

lemma on_users_events:
  "(\<And>u. message_events (UserMessage (f u)) = message_events (UserMessage u)) \<Longrightarrow> tool_events (on_users f ms) = tool_events ms"
  unfolding on_users_def by (rule events_map) (simp split: api_message.split)

lemma on_assistants_events:
  "(\<And>a. call_ids (assistant_content (f a)) = call_ids (assistant_content a)) \<Longrightarrow> tool_events (on_assistants f ms) = tool_events ms"
  unfolding on_assistants_def by (rule events_map) (simp add: assistant_events split: api_message.split)

lemma merge_users_events:
  "message_events (UserMessage (mergeUserMessages env a b)) = message_events (UserMessage a) + message_events (UserMessage b)"
  by (simp add: user_events mergeUserMessages_def Let_def normalizeUserTextContent_def)

lemma merge_results_events:
  "message_events (UserMessage (mergeUserMessagesAndToolResults env a b)) =
     message_events (UserMessage a) + message_events (UserMessage b)"
proof -
  have "mset (result_ids (normalizeUserTextContent (user_content (mergeUserMessagesAndToolResults env a b)))) =
      mset (result_ids (normalizeUserTextContent (user_content a))) + mset (result_ids (normalizeUserTextContent (user_content b)))"
    by (simp add: mergeUserMessagesAndToolResults_def normalizeUserTextContent_def merge_content_ids)
  then show ?thesis unfolding user_events mset_map by simp
qed

lemma push_merging_events [simp]: "tool_events (push_merging env out m) = tool_events out + message_events m"
proof (cases "\<exists>u prev. m = UserMessage u \<and> out \<noteq> [] \<and> last out = UserMessage prev")
  case True
  then obtain u prev where "m = UserMessage u" "out \<noteq> []" "last out = UserMessage prev" by blast
  then show ?thesis using events_butlast_last [of out]
    by (simp add: push_merging_def merge_users_events add.assoc)
next
  case False
  then have "push_merging env out m = out @ [m]"
    by (auto simp: push_merging_def split: api_message.split option.split)
  then show ?thesis by simp
qed

lemma foldl_push_events [simp]: "tool_events (foldl (push_merging env) out ms) = tool_events out + tool_events ms"
  by (induction ms arbitrary: out) (simp_all add: add.assoc)

lemma merge_back_events:
  "merge_back n ms = Some r \<Longrightarrow> tool_events r = tool_events ms + message_events (AssistantMessage n)"
  by (induction n ms arbitrary: r rule: merge_back.induct)
    (auto simp: assistant_events mergeAssistantMessages_def add.assoc add.commute add.left_commute split: if_splits)

lemma push_assistant_events [simp]:
  "tool_events (push_assistant result n) = tool_events result + message_events (AssistantMessage n)"
  using merge_back_events [of n "rev result"] by (auto simp: push_assistant_def split: option.split)

lemma wrap_events: "message_events (UserMessage (ensureSystemReminderWrap u)) = message_events (UserMessage u)"
proof (rule user_events_eq)
  have "result_ids (map wrap_block bs) = result_ids bs" for bs
    by (rule result_ids_map) (case_tac b, simp_all)
  then show "mset (result_ids (normalizeUserTextContent (user_content (ensureSystemReminderWrap u)))) =
      mset (result_ids (normalizeUserTextContent (user_content u)))"
    by (auto simp: ensureSystemReminderWrap_def normalizeUserTextContent_def split: user_content.split)
qed

lemma push_attachment_events [simp]:
  "tool_events (push_attachment env result raw) = tool_events result + tool_events (map UserMessage raw)"
proof -
  define rendered where "rendered = (if chair_sermon env then map ensureSystemReminderWrap raw else raw)"
  have "tool_events (map UserMessage (map ensureSystemReminderWrap raw)) = tool_events (map UserMessage raw)"
    by (induction raw) (simp_all add: wrap_events)
  then have r: "tool_events (map UserMessage rendered) = tool_events (map UserMessage raw)" by (simp add: rendered_def)
  have fold: "message_events (UserMessage (foldl (mergeUserMessagesAndToolResults env) u us)) =
      message_events (UserMessage u) + tool_events (map UserMessage us)" for u us
    by (induction us arbitrary: u) (simp_all add: merge_results_events add.assoc)
  show ?thesis
  proof (cases "\<exists>u. result \<noteq> [] \<and> last result = UserMessage u")
    case True
    then obtain u where "result \<noteq> []" "last result = UserMessage u" by blast
    then show ?thesis using events_butlast_last [of result] r fold
      by (simp add: push_attachment_def rendered_def [symmetric] Let_def add.assoc)
  next
    case False
    then have "push_attachment env result raw = result @ map UserMessage rendered"
      by (auto simp: push_attachment_def rendered_def [symmetric] Let_def split: api_message.split)
    then show ?thesis using r by simp
  qed
qed

section \<open>Passes\<close>

lemma strip_items_ids [simp]: "result_ids (map (strip_items P note) bs) = result_ids bs"
  by (rule result_ids_map) (case_tac "(P, note, b)" rule: strip_items.cases, simp_all)

lemma strip_reference_events [keeps_events]:
  "message_events (UserMessage (stripToolReferenceBlocksFromUserMessage u)) = message_events (UserMessage u)"
  "message_events (UserMessage (stripUnavailableToolReferencesFromUserMessage fl available u)) = message_events (UserMessage u)"
  unfolding stripToolReferenceBlocksFromUserMessage_def stripUnavailableToolReferencesFromUserMessage_def
  by (rule on_blocks_events; simp)+

lemma strip_caller_events [keeps_events]:
  "call_ids (assistant_content (stripCallerFieldFromAssistantMessage a)) = call_ids (assistant_content a)"
proof -
  have "call_ids (map drop_caller bs) = call_ids bs" for bs by (rule call_ids_map) (case_tac b, simp_all)
  then show ?thesis by (simp add: stripCallerFieldFromAssistantMessage_def)
qed

lemma boundary_events [keeps_events]: "message_events (UserMessage (add_turn_boundary u)) = message_events (UserMessage u)"
  unfolding add_turn_boundary_def by (rule on_blocks_events) simp

lemma sanitize_events [keeps_events]: "tool_events (sanitizeErrorToolResultContent ms) = tool_events ms"
proof -
  have "result_ids (map sanitize_block bs) = result_ids bs" for bs
    by (rule result_ids_map) (case_tac b rule: sanitize_block.cases, simp_all add: Let_def)
  then show ?thesis unfolding sanitizeErrorToolResultContent_def
    by (intro on_users_events on_blocks_events) simp
qed

lemma smoosh_events [keeps_events]: "tool_events (smooshSystemReminderSiblings ms) = tool_events ms"
  unfolding smooshSystemReminderSiblings_def by (intro on_users_events on_blocks_events) simp

lemma tag_events [keeps_events]: "tool_events (on_users appendMessageTagToUserMessage ms) = tool_events ms"
proof (rule on_users_events)
  fix u
  have "result_ids (bs[i := TextBlock t]) = result_ids bs" if "find (\<lambda>i. is_text (bs ! i)) (rev [0..<length bs]) = Some i" for bs i t
  proof -
    have i: "i < length bs" "is_text (bs ! i)" using find_rev_upt_SomeD [OF that] by simp_all
    have "bs = take i bs @ bs ! i # drop (Suc i) bs" using id_take_nth_drop [OF i(1)] .
    then have "result_ids bs = result_ids (take i bs) @ result_ids (drop (Suc i) bs)"
      using i(2) by (metis (no_types) ids_append(1) ids_Cons(1) option.case(1) text_no_id(1))
    then show ?thesis using i(1) by (simp add: upd_conv_take_nth_drop)
  qed
  then show "message_events (UserMessage (appendMessageTagToUserMessage u)) = message_events (UserMessage u)"
    by (intro user_events_eq)
      (auto simp: appendMessageTagToUserMessage_def normalizeUserTextContent_def Let_def split: user_content.split option.split)
qed

lemma orphans_events [keeps_events]: "tool_events (filterOrphanedThinkingOnlyMessages ms) = tool_events ms"
proof -
  have "call_ids bs = []" if "list_all isThinkingBlock bs" for bs
    using that by (induction bs) (auto simp: thinking_no_id)
  then show ?thesis unfolding filterOrphanedThinkingOnlyMessages_def
    by (intro events_filter) (auto simp: orphaned_thinking_def assistant_events split: api_message.splits)
qed

lemma trim_thinking_ids [simp]: "call_ids (trim_thinking bs) = call_ids bs"
proof -
  have "call_ids (rev (dropWhile isThinkingBlock (rev bs))) = call_ids bs"
    by (induction bs rule: rev_induct) (auto simp: thinking_no_id)
  then show ?thesis unfolding trim_thinking_def Let_def by (cases "rev (dropWhile isThinkingBlock (rev bs)) = []") auto
qed

lemma trailing_events [keeps_events]: "tool_events (filterTrailingThinkingFromLastAssistant ms) = tool_events ms"
  using events_butlast_last [of ms]
  by (auto simp: filterTrailingThinkingFromLastAssistant_def assistant_events split: api_message.split)

lemma whitespace_events [keeps_events]: "tool_events (filterWhitespaceOnlyAssistantMessages env ms) = tool_events ms"
proof -
  have "call_ids bs = []" if "list_all (\<lambda>b. is_text b \<and> js_trim (block_text b) = []) bs" for bs
    using that by (induction bs) (auto simp: text_no_id)
  then have "tool_events (filter (\<lambda>m. \<not> whitespace_only m) ms) = tool_events ms"
    by (intro events_filter)
      (auto simp: whitespace_only_def hasOnlyWhitespaceTextContent_def assistant_events split: api_message.splits)
  then show ?thesis by (simp add: filterWhitespaceOnlyAssistantMessages_def Let_def)
qed

lemma nonempty_events [keeps_events]: "tool_events (ensureNonEmptyAssistantContent ms) = tool_events ms"
proof -
  have "tool_events (on_assistants (\<lambda>a. if assistant_content a = []
      then a\<lparr>assistant_content := [TextBlock NO_CONTENT_MESSAGE]\<rparr> else a) xs) = tool_events xs" for xs
    by (rule on_assistants_events) simp
  then show ?thesis using events_butlast_last [of ms] by (simp add: ensureNonEmptyAssistantContent_def)
qed

lemma adjacent_events [keeps_events]: "tool_events (mergeAdjacentUserMessages env ms) = tool_events ms"
  by (simp add: mergeAdjacentUserMessages_def)

lemma blocks_events: "user_blocks m = Some bs \<Longrightarrow> message_events m = mset (map Result (result_ids bs))"
  by (auto simp: user_blocks_def user_events normalizeUserTextContent_def split: api_message.splits user_content.splits)

lemma set_blocks_events: "user_blocks m = Some bs \<Longrightarrow> message_events (set_blocks cs m) = mset (map Result (result_ids cs))"
  by (auto simp: user_blocks_def set_blocks_def user_events normalizeUserTextContent_def split: api_message.splits user_content.splits)

lemma relocate_from_events: "tool_events (relocate_from ms i) = tool_events ms"
proof -
  have "tool_events (ms[i := set_blocks (filter (\<lambda>b. \<not> is_text b) content) (ms ! i), j := set_blocks (cc @ filter is_text content) (ms ! j)])
      = tool_events ms"
    if "user_blocks (ms ! i) = Some content" "user_blocks (ms ! j) = Some cc" "i < j" for content cc j
  proof -
    have "result_ids (filter (\<lambda>b. \<not> is_text b) content) = result_ids content"
      by (rule result_ids_filter) (simp add: text_no_id)
    moreover have "result_ids (filter is_text content) = []" by (rule texts_no_result) (simp add: list_all_iff)
    ultimately show ?thesis
      using that by (simp add: events_update set_blocks_events blocks_events)
  qed
  then show ?thesis
    by (auto simp: relocate_from_def Let_def find_Some_iff split: option.split)
qed

lemma relocate_events [keeps_events]: "tool_events (relocateToolReferenceSiblings ms) = tool_events ms"
proof -
  have "tool_events (foldl relocate_from ms is) = tool_events ms" for "is"
    by (induction "is" arbitrary: ms) (simp_all add: relocate_from_events)
  then show ?thesis by (simp add: relocateToolReferenceSiblings_def)
qed

lemma api_passes_events: "tool_events (api_passes env ms) = tool_events ms"
  by (simp add: api_passes_def Let_def keeps_events)

section \<open>The normalisation\<close>

lemma has_type_no_id: "has_type ts b \<Longrightarrow> result_id b = None"
  by (cases b) auto

lemma rejected_ids: "result_ids (filter (\<lambda>b. \<not> has_type ts b) bs) = result_ids bs"
  by (rule result_ids_filter) (simp add: has_type_no_id)

lemma strip_rejected_events:
  "case strip_rejected targets u of
     None \<Rightarrow> message_events (UserMessage u) = {#}
   | Some v \<Rightarrow> message_events (UserMessage v) = message_events (UserMessage u)"
proof -
  have "result_ids bs = []" if "filter (\<lambda>b. \<not> has_type ts b) bs = []" for ts bs
    using rejected_ids [of ts bs] that by simp
  then show ?thesis
    by (auto simp: strip_rejected_def Let_def user_events normalizeUserTextContent_def rejected_ids split: user_content.split)
qed

lemma normalize_user_events:
  "case normalize_user env available targets u of
     None \<Rightarrow> message_events (UserMessage u) = {#}
   | Some v \<Rightarrow> message_events (UserMessage v) = message_events (UserMessage u)"
proof -
  define w where "w = (if \<not> toolSearchEnabled env then stripToolReferenceBlocksFromUserMessage u
    else stripUnavailableToolReferencesFromUserMessage (build_features env) available u)"
  have "message_events (UserMessage w) = message_events (UserMessage u)" by (simp add: w_def keeps_events)
  then show ?thesis using strip_rejected_events [where targets = targets and u = w]
    by (cases "strip_rejected targets w") (auto simp: normalize_user_def w_def [symmetric] keeps_events)
qed

lemma normalize_assistant_events:
  "message_events (AssistantMessage (normalize_assistant env tools a)) = message_events (AssistantMessage a)"
proof -
  have "call_ids (map (normalize_tool_use tools b) bs) = call_ids bs" for b bs
    by (rule call_ids_map) (simp add: normalize_tool_use_def Let_def split: block.split)
  then show ?thesis by (simp add: normalize_assistant_def assistant_events)
qed

text \<open>The calls and results a message of the session stands for.\<close>

definition session_events :: "('a \<Rightarrow> user_message list) \<Rightarrow> 'a message \<Rightarrow> tool_event multiset" where
  "session_events attach m =
     (case m of Plain m \<Rightarrow> message_events m | Attachment a \<Rightarrow> tool_events (map UserMessage (attach a)) | _ \<Rightarrow> {#})"

lemma normalize_step_events:
  "tool_events (normalize_step env attach tools targets result m) = tool_events result + session_events attach m"
proof (cases m)
  case (Plain n)
  show ?thesis
  proof (cases n)
    case (UserMessage u)
    then show ?thesis using Plain normalize_user_events [where env = env and available = "map tool_name tools" and targets = targets and u = u]
      by (auto simp: normalize_step_def session_events_def split: option.splits)
  qed (use Plain in \<open>simp add: normalize_step_def session_events_def normalize_assistant_events\<close>)
qed (simp_all add: normalize_step_def session_events_def user_events createUserMessage_def normalizeUserTextContent_def)

lemma normalize_events:
  "tool_events (foldl (normalize_step env attach tools targets) result ms) =
     tool_events result + sum_list (map (session_events attach) ms)"
  by (induction ms arbitrary: result) (simp_all add: normalize_step_events add.assoc)

lemma reorder_mset: "mset (reorderAttachmentsForAPI ms) = mset ms"
proof -
  have "mset (fst (foldl reorder_step st xs) @ snd (foldl reorder_step st xs)) = mset (fst st @ snd st) + mset xs"
    for st and xs :: "'a message list"
  proof (induction xs arbitrary: st)
    case (Cons m xs)
    have "mset (fst (reorder_step st m) @ snd (reorder_step st m)) = mset (fst st @ snd st) + {#m#}"
      by (cases m) (auto simp: reorder_step_def split: prod.split)
    then show ?case using Cons.IH [of "reorder_step st m"] by simp
  qed simp
  from this [of "([], [])" "rev ms"] show ?thesis
    by (simp add: reorderAttachmentsForAPI_def split_beta add.commute)
qed

lemma sum_list_mset_eq: "mset xs = mset ys \<Longrightarrow> sum_list (map f xs) = sum_list (map f ys)"
  for f :: "'a \<Rightarrow> 'b::comm_monoid_add"
  by (metis mset_map sum_mset_sum_list)

section \<open>Neighbours\<close>

text \<open>No two user messages in a row.\<close>

fun users_apart :: "api_message list \<Rightarrow> bool" where
  "users_apart (m # n # ms) \<longleftrightarrow> \<not> (is_user m \<and> is_user n) \<and> users_apart (n # ms)"
| "users_apart _ = True"

lemma users_apart_snoc:
  "users_apart (ms @ [m]) \<longleftrightarrow> users_apart ms \<and> \<not> (is_user m \<and> ms \<noteq> [] \<and> is_user (last ms))"
  by (induction ms rule: users_apart.induct) auto

lemma users_apart_map: "(\<And>m. is_user (f m) = is_user m) \<Longrightarrow> users_apart (map f ms) = users_apart ms"
  by (induction ms rule: users_apart.induct) simp_all

lemma push_merging_apart: "users_apart out \<Longrightarrow> users_apart (push_merging env out m)"
proof (cases "\<exists>u prev. m = UserMessage u \<and> out \<noteq> [] \<and> last out = UserMessage prev")
  case True
  then obtain u prev where m: "m = UserMessage u" "out \<noteq> []" "last out = UserMessage prev" by blast
  assume "users_apart out"
  then have "users_apart (butlast out @ [last out])" unfolding append_butlast_last_id [OF m(2)] .
  then show ?thesis using m by (simp add: push_merging_def users_apart_snoc)
next
  case False
  then have "push_merging env out m = out @ [m]" by (auto simp: push_merging_def split: api_message.split option.split)
  moreover assume "users_apart out"
  moreover have "\<not> (is_user m \<and> out \<noteq> [] \<and> is_user (last out))" using False by (cases m; cases "last out") auto
  ultimately show ?thesis by (simp add: users_apart_snoc)
qed

lemma merge_adjacent_apart: "users_apart (mergeAdjacentUserMessages env ms)"
proof -
  have "users_apart (foldl (push_merging env) out ms)" if "users_apart out" for out
    using that by (induction ms arbitrary: out) (simp_all add: push_merging_apart)
  then show ?thesis by (simp add: mergeAdjacentUserMessages_def)
qed

lemma on_users_apart: "users_apart (on_users f ms) = users_apart ms"
  unfolding on_users_def by (rule users_apart_map) (simp split: api_message.split)

lemma on_assistants_apart: "users_apart (on_assistants f ms) = users_apart ms"
  unfolding on_assistants_def by (rule users_apart_map) (simp split: api_message.split)

lemma api_passes_apart: "chair_sermon env \<Longrightarrow> users_apart (api_passes env ms)"
  by (simp add: api_passes_def Let_def sanitizeErrorToolResultContent_def smooshSystemReminderSiblings_def
      on_users_apart merge_adjacent_apart)

text \<open>The repair of the pairing keeps users apart.\<close>

definition apart_inv :: "pairing_state \<Rightarrow> api_message list \<Rightarrow> bool" where
  "apart_inv s ms \<longleftrightarrow> users_apart (paired_result s) \<and> users_apart ms \<and>
     \<not> (paired_result s \<noteq> [] \<and> is_user (last (paired_result s)) \<and> ms \<noteq> [] \<and> is_user (hd ms))"

lemma users_apart_Cons: "users_apart (m # ms) \<longleftrightarrow> users_apart ms \<and> \<not> (is_user m \<and> ms \<noteq> [] \<and> is_user (hd ms))"
  by (cases ms) auto

lemma apart_push:
  "apart_inv s (m # ms) \<Longrightarrow> is_user n = is_user m \<Longrightarrow> apart_inv (push n s) ms"
  by (auto simp: apart_inv_def push_def users_apart_snoc users_apart_Cons)

lemma apart_repaired [simp]: "apart_inv (s\<lparr>repaired := r\<rparr>) ms = apart_inv s ms"
  by (simp add: apart_inv_def)

lemma apart_assistant:
  assumes "apart_inv s (AssistantMessage a # ms)" "pair_assistant a s = (s', sent)"
  shows "apart_inv s' ms" "paired_result s' \<noteq> [] \<and> \<not> is_user (last (paired_result s'))"
proof -
  obtain a' where "paired_result s' = paired_result s @ [AssistantMessage a']"
    using pair_assistant_result [OF assms(2)] by metis
  then show "apart_inv s' ms" "paired_result s' \<noteq> [] \<and> \<not> is_user (last (paired_result s'))"
    using assms(1) by (simp_all add: apart_inv_def users_apart_snoc users_apart_Cons)
qed

lemma apart_add:
  "apart_inv s ms \<Longrightarrow> \<not> (ms \<noteq> [] \<and> is_user (hd ms)) \<Longrightarrow> paired_result s \<noteq> [] \<and> \<not> is_user (last (paired_result s)) \<Longrightarrow>
     apart_inv (push m s) ms"
  by (auto simp: apart_inv_def push_def users_apart_snoc)

lemma apart_loop: "apart_inv s ms \<Longrightarrow> users_apart (paired_result (pair_loop env uuids ms s))"
proof (induction "length ms" arbitrary: ms s rule: less_induct)
  case less
  show ?case
  proof (cases rule: pair_loop_cases [where ms = ms and env = env and uuids = uuids and s = s])
    case finished
    then show ?thesis using less.prems by (simp add: apart_inv_def)
  next
    case (user u rest)
    have "apart_inv (pair_user u s) rest"
    proof (cases rule: pair_user_cases [of u s])
      case dropped
      then show ?thesis using less.prems user by (simp add: apart_inv_def)
    qed (use less.prems user in \<open>auto intro: apart_push\<close>)
    then show ?thesis using less.hyps user by simp
  next
    case (patch a u rest s' sent)
    have "apart_inv s' (UserMessage u # rest)" using apart_assistant(1) less.prems patch(1,2) by blast
    then show ?thesis using less.hyps patch apart_push [of "s'\<lparr>repaired := True\<rparr>"] by simp
  next
    case (add a rest s' sent)
    have "\<not> (rest \<noteq> [] \<and> is_user (hd rest))" using add(4) by (cases rest; cases "hd rest") auto
    then show ?thesis
      using less.hyps add apart_assistant [OF less.prems [unfolded add(1)] add(2)] apart_add [of "s'\<lparr>repaired := True\<rparr>" rest] by simp
  next
    case (fine a rest s' sent)
    then show ?thesis using less apart_assistant(1) by simp
  qed
qed

section \<open>The last passes\<close>

text \<open>What the pairing sees of a message.\<close>

definition shape :: "api_message \<Rightarrow> bool \<times> string list \<times> string list" where
  "shape m = (is_user m, message_calls m, message_results m)"

lemma await_shape: "shape m = shape n \<Longrightarrow> await p m = await p n"
  by (cases p; cases m; cases n) (auto simp: shape_def)

lemma shapes_calls:
  "map shape ms = map shape ns \<Longrightarrow> calls_answered ms = calls_answered ns \<and> all_calls ms = all_calls ns \<and> users_apart ms = users_apart ns"
proof -
  assume eq: "map shape ms = map shape ns"
  have "foldl await p ms = foldl await p ns" for p
    using eq
  proof (induction ms arbitrary: ns p)
    case (Cons m ms)
    then obtain n ns' where n: "ns = n # ns'" "shape m = shape n" "map shape ms = map shape ns'" by (cases ns) auto
    then show ?case using Cons.IH [OF n(3)] await_shape [OF n(2)] by simp
  qed simp
  moreover have "all_calls xs = concat (map (fst \<circ> snd) (map shape xs))" for xs
    by (simp add: all_calls_def shape_def comp_def)
  then have "all_calls ms = all_calls ns" using eq by metis
  moreover have "users_apart xs = users_apart ys" if "map is_user xs = map is_user ys" for xs ys
    using that by (induction xs ys rule: list_induct2') (auto simp: users_apart_Cons hd_map neq_Nil_conv)
  then have "users_apart ms = users_apart ns" if "map is_user ms = map is_user ns" using that .
  moreover have "map is_user ms = map is_user ns"
  proof -
    have "map is_user xs = map fst (map shape xs)" for xs by (simp add: shape_def)
    then show "map is_user ms = map is_user ns" using eq by metis
  qed
  ultimately show ?thesis by (simp add: calls_answered_def)
qed

lemma advisor_shape: "map shape (stripAdvisorBlocks ms) = map shape ms"
proof -
  have "call_ids (filter (\<lambda>b. \<not> isAdvisorBlock b) bs) = call_ids bs" for bs
    by (rule call_ids_filter) (case_tac b, simp_all)
  then show ?thesis by (simp add: stripAdvisorBlocks_def on_assistants_def shape_def Let_def split: api_message.split)
qed

lemma media_no_id: "isMedia b \<Longrightarrow> result_id b = None \<and> call_id b = None"
  by (cases b) simp_all

lemma remove_media_ids:
  "result_ids (snd (remove_media n bs)) = result_ids bs \<and> call_ids (snd (remove_media n bs)) = call_ids bs"
  by (induction n bs rule: remove_media.induct) (auto simp: media_no_id split_beta Let_def split: option.split)

lemma remove_nested_Cons:
  "remove_nested n (b # rest) =
     (case b of
        ToolResultBlock i (Items bs) e \<Rightarrow>
          (fst (remove_nested (fst (remove_media n bs)) rest),
           ToolResultBlock i (Items (snd (remove_media n bs))) e # snd (remove_nested (fst (remove_media n bs)) rest))
      | _ \<Rightarrow> (fst (remove_nested n rest), b # snd (remove_nested n rest)))"
  by (cases "(n, b # rest)" rule: remove_nested.cases) (auto simp: split_beta Let_def split: tr_content.split)

lemma remove_nested_ids:
  "result_ids (snd (remove_nested n bs)) = result_ids bs \<and> call_ids (snd (remove_nested n bs)) = call_ids bs"
  by (induction bs arbitrary: n) (auto simp: remove_nested_Cons split: block.split tr_content.split)

lemma strip_content_ids:
  "result_ids (snd (strip_content n bs)) = result_ids bs \<and> call_ids (snd (strip_content n bs)) = call_ids bs"
  using remove_nested_ids [of n bs] remove_media_ids [of "fst (remove_nested n bs)" "snd (remove_nested n bs)"]
  by (simp add: strip_content_def split_beta Let_def)

lemma set_message_shape:
  "message_blocks m = Some bs \<Longrightarrow> result_ids cs = result_ids bs \<Longrightarrow> call_ids cs = call_ids bs \<Longrightarrow>
     shape (set_message_blocks cs m) = shape m"
  by (cases m) (auto simp: message_blocks_def set_message_blocks_def shape_def split: user_content.splits)

lemma strip_media_shape: "map shape (strip_media n ms) = map shape ms"
  by (induction ms arbitrary: n) (auto simp: split_beta Let_def set_message_shape strip_content_ids split: option.split)

lemma excess_media_shape: "map shape (stripExcessMediaItems ms limit) = map shape ms"
  by (simp add: stripExcessMediaItems_def strip_media_shape)

section \<open>The limit on media\<close>

definition top_media :: "block list \<Rightarrow> nat" where
  "top_media bs = length (filter isMedia bs)"

fun nested_media :: "block \<Rightarrow> nat" where
  "nested_media (ToolResultBlock i (Items bs) e) = top_media bs"
| "nested_media b = 0"

lemma nested_media_none: "(\<And>i cs e. b \<noteq> ToolResultBlock i (Items cs) e) \<Longrightarrow> nested_media b = 0"
  by (cases b rule: nested_media.cases) auto

lemma media_split: "sum_list (map media_of_block bs) = sum_list (map nested_media bs) + top_media bs"
  by (induction bs) (simp add: top_media_def, case_tac a rule: nested_media.cases, simp_all add: top_media_def)

lemma remove_media_count:
  "top_media (snd (remove_media n bs)) = top_media bs - n \<and> fst (remove_media n bs) = n - top_media bs \<and>
     sum_list (map nested_media (snd (remove_media n bs))) = sum_list (map nested_media bs)"
proof (induction n bs rule: remove_media.induct)
  case (2 n b bs)
  have "isMedia b \<Longrightarrow> nested_media b = 0" by (cases b) simp_all
  then show ?case using 2 by (cases "n > 0 \<and> isMedia b") (auto simp: top_media_def split_beta Let_def)
qed (simp add: top_media_def)

lemma remove_nested_count:
  "sum_list (map nested_media (snd (remove_nested n bs))) = sum_list (map nested_media bs) - n \<and>
     fst (remove_nested n bs) = n - sum_list (map nested_media bs) \<and>
     top_media (snd (remove_nested n bs)) = top_media bs"
proof (induction bs arbitrary: n)
  case (Cons b bs)
  show ?case
  proof (cases "\<exists>i cs e. b = ToolResultBlock i (Items cs) e")
    case True
    then obtain i cs e where b: "b = ToolResultBlock i (Items cs) e" by blast
    show ?thesis using Cons.IH [of "fst (remove_media n cs)"] remove_media_count [of n cs]
      by (auto simp: b remove_nested_Cons top_media_def)
  next
    case False
    then have "remove_nested n (b # bs) = (fst (remove_nested n bs), b # snd (remove_nested n bs))" "nested_media b = 0"
      by (auto simp: remove_nested_Cons split: block.split tr_content.split intro: nested_media_none)
    then show ?thesis using Cons.IH [of n] by (simp add: top_media_def)
  qed
qed (simp add: top_media_def)

lemma strip_content_count:
  "sum_list (map media_of_block (snd (strip_content n bs))) = sum_list (map media_of_block bs) - n \<and>
     fst (strip_content n bs) = n - sum_list (map media_of_block bs)"
  using remove_nested_count [of n bs] remove_media_count [of "fst (remove_nested n bs)" "snd (remove_nested n bs)"]
  by (auto simp: strip_content_def split_beta Let_def media_split)

lemma message_blocks_set: "message_blocks m = Some bs \<Longrightarrow> message_blocks (set_message_blocks cs m) = Some cs"
  by (auto simp: message_blocks_def set_message_blocks_def split: api_message.split user_content.splits)

lemma media_count_Cons:
  "media_count (m # ms) =
     (case message_blocks m of None \<Rightarrow> 0 | Some bs \<Rightarrow> sum_list (map media_of_block bs)) + media_count ms"
  by (simp add: media_count_def)

lemma strip_media_count: "media_count (strip_media n ms) = media_count ms - n"
proof (induction ms arbitrary: n)
  case (Cons m ms)
  show ?case
  proof (cases "message_blocks m")
    case None
    then show ?thesis using Cons.IH by (simp add: media_count_Cons)
  next
    case (Some bs)
    then show ?thesis using Cons.IH strip_content_count [of n bs]
      by (auto simp: media_count_Cons message_blocks_set split_beta Let_def)
  qed
qed (simp add: media_count_def)

lemma excess_media_count: "media_count (stripExcessMediaItems ms limit) = min limit (media_count ms)"
  by (simp add: stripExcessMediaItems_def strip_media_count)

section \<open>Results that are errors\<close>

text \<open>The result of a failed call holds nothing but text.\<close>

fun plain_error :: "block \<Rightarrow> bool" where
  "plain_error (ToolResultBlock i (Items bs) True) = list_all is_text bs"
| "plain_error b = True"

fun plain_errors :: "api_message \<Rightarrow> bool" where
  "plain_errors (UserMessage u) = list_all plain_error (normalizeUserTextContent (user_content u))"
| "plain_errors (AssistantMessage a) = True"

lemma plain_text [simp]: "is_text b \<Longrightarrow> plain_error b"
  by (cases b) simp_all

lemma plain_success [simp]: "plain_error (ToolResultBlock i c False)"
  by (cases c) simp_all

lemma plain_on_blocks:
  "(\<And>bs. list_all plain_error bs \<Longrightarrow> list_all plain_error (f bs)) \<Longrightarrow>
     plain_errors (UserMessage u) \<Longrightarrow> plain_errors (UserMessage (on_blocks f u))"
  by (simp add: on_blocks_def normalizeUserTextContent_def split: user_content.splits)

lemma plain_on_users:
  "list_all plain_errors ms \<Longrightarrow> (\<And>u. plain_errors (UserMessage u) \<Longrightarrow> plain_errors (UserMessage (f u))) \<Longrightarrow>
     list_all plain_errors (on_users f ms)"
  unfolding on_users_def by (auto simp: list_all_iff split: api_message.split simp del: plain_errors.simps(1))

lemma plain_on_assistants: "list_all plain_errors (on_assistants f ms) = list_all plain_errors ms"
  unfolding on_assistants_def by (induction ms) (auto split: api_message.split)

lemma sanitized_plain: "list_all plain_errors (sanitizeErrorToolResultContent ms)"
proof -
  have "plain_error (sanitize_block b)" for b
    by (cases b rule: sanitize_block.cases) (auto simp: Let_def)
  then show ?thesis
    by (auto simp: sanitizeErrorToolResultContent_def on_users_def on_blocks_def normalizeUserTextContent_def list_all_iff
        split: api_message.split user_content.split)
qed

lemma tag_plain: "plain_errors (UserMessage u) \<Longrightarrow> plain_errors (UserMessage (appendMessageTagToUserMessage u))"
  by (auto simp: appendMessageTagToUserMessage_def normalizeUserTextContent_def Let_def list_all_iff
      split: user_content.splits option.split dest!: set_update_subset_insert [THEN subsetD])

lemma strip_items_plain: "plain_error b \<Longrightarrow> plain_error (strip_items P note b)"
  by (cases "(P, note, b)" rule: strip_items.cases; cases b rule: plain_error.cases) (auto simp: list_all_iff)

lemma strip_reference_plain:
  "plain_errors (UserMessage u) \<Longrightarrow> plain_errors (UserMessage (stripToolReferenceBlocksFromUserMessage u))"
  unfolding stripToolReferenceBlocksFromUserMessage_def
  by (rule plain_on_blocks) (auto simp: list_all_iff strip_items_plain)

lemma merge_items_text:
  "list_all is_text merged \<Longrightarrow> list_all is_text bs \<Longrightarrow> list_all is_text (foldl merge_item merged bs)"
proof (induction bs arbitrary: merged)
  case (Cons b bs)
  then obtain t where t: "b = TextBlock t" by (cases b) auto
  have "list_all is_text (merge_item merged b)" using Cons.prems(1)
    by (auto simp: t merge_item_def Let_def list_all_iff dest: in_set_butlastD split: block.split)
  then show ?case using Cons by simp
qed simp

lemma smoosh_plain:
  assumes "smooshIntoToolResult i c e bs = Some b" "plain_error (ToolResultBlock i c e)"
  shows "plain_error b"
proof (cases e)
  case True
  have texts: "list_all is_text (filter is_text bs)" by (simp add: list_all_iff)
  show ?thesis
  proof (cases c)
    case (Items cs)
    then have "list_all is_text (foldl merge_item [] (cs @ filter is_text bs))"
      using assms(2) True texts by (intro merge_items_text) auto
    then show ?thesis using assms True Items texts
      by (auto simp: smooshIntoToolResult_def Let_def split: if_splits)
  qed (use assms True texts in \<open>auto simp: smooshIntoToolResult_def Let_def split: if_splits\<close>)
next
  case False
  then obtain c' where "b = ToolResultBlock i c' False" using smoosh_id [OF assms(1)] by blast
  then show ?thesis by (cases c') auto
qed

lemma smoosh_reminders_plain: "list_all plain_error bs \<Longrightarrow> list_all plain_error (smoosh_reminders bs)"
proof -
  assume bs: "list_all plain_error bs"
  define kept where "kept = filter (\<lambda>b. \<not> is_reminder b) bs"
  have k: "list_all plain_error kept" using bs by (simp add: kept_def list_all_iff)
  have "list_all plain_error (take n kept @ [b] @ drop (n + 1) kept)"
    if "n < length kept" "kept ! n = ToolResultBlock i c e" "smooshIntoToolResult i c e t = Some b" for n i c e t b
  proof -
    have "plain_error (kept ! n)" using k that(1) by (simp add: list_all_length)
    then have "plain_error b" using smoosh_plain [OF that(3)] that(2) by simp
    then show ?thesis using k by (auto simp: list_all_iff dest: in_set_takeD in_set_dropD)
  qed
  then show ?thesis using bs
    unfolding smoosh_reminders_def Let_def kept_def [symmetric]
    by (auto split: option.split block.split dest!: find_rev_upt_SomeD simp del: append.simps)
qed

lemma dedupe_subset: "set (dedupe_results orphaned seen bs) \<subseteq> set bs"
  by (induction orphaned seen bs rule: dedupe_results.induct) (auto split: option.splits if_splits)

lemma patch_plain: "plain_errors (UserMessage u) \<Longrightarrow> plain_errors (UserMessage (patch_user env uuid ids u))"
proof -
  assume u: "plain_errors (UserMessage u)"
  have syn: "list_all plain_error (synthetic_blocks is)" for "is" by (simp add: synthetic_blocks_def list_all_iff)
  have ded: "list_all plain_error bs \<Longrightarrow> list_all plain_error (dedupe_results os seen bs)" for os seen bs
    using dedupe_subset [of os seen bs] by (auto simp: list_all_iff)
  show ?thesis using u syn ded
    by (auto simp: patch_user_def Let_def createUserMessage_def NO_CONTENT_MESSAGE_def normalizeUserTextContent_def
        smoosh_reminders_plain split: user_content.splits)
qed

lemma pair_user_plain:
  assumes "list_all plain_errors (paired_result s)" "plain_errors (UserMessage u)"
  shows "list_all plain_errors (paired_result (pair_user u s))"
proof -
  have "list_all plain_error bs \<Longrightarrow> list_all plain_error (filter P bs)" for P bs
    by (simp add: list_all_iff)
  then show ?thesis using assms
    by (auto simp: pair_user_def push_def Let_def normalizeUserTextContent_def split: user_content.splits)
qed

lemma pair_loop_plain:
  "list_all plain_errors (paired_result s) \<Longrightarrow> list_all plain_errors ms \<Longrightarrow>
     list_all plain_errors (paired_result (pair_loop env uuids ms s))"
proof (induction "length ms" arbitrary: ms s rule: less_induct)
  case less
  have after: "list_all plain_errors (paired_result s')" if p: "pair_assistant a s = (s', sent)" for a s' sent
  proof -
    obtain a' where "paired_result s' = paired_result s @ [AssistantMessage a']"
      using pair_assistant_result [OF p] by metis
    then show ?thesis using less.prems(1) by simp
  qed
  show ?case
  proof (cases rule: pair_loop_cases [where ms = ms and env = env and uuids = uuids and s = s])
    case finished
    then show ?thesis using less.prems by simp
  next
    case (user u rest)
    then show ?thesis using less pair_user_plain by simp
  next
    case (patch a u rest s' sent)
    then show ?thesis using less after [OF patch(2)] patch_plain [of u]
      by (simp add: push_def del: plain_errors.simps(1))
  next
    case (add a rest s' sent)
    have "list_all plain_error (synthetic_blocks is)" for "is" by (simp add: synthetic_blocks_def list_all_iff)
    then show ?thesis using less add after [OF add(2)]
      by (simp add: push_def createUserMessage_def normalizeUserTextContent_def)
  next
    case (fine a rest s' sent)
    then show ?thesis using less after [OF fine(2)] by simp
  qed
qed

lemma remove_media_plain: "list_all is_text bs \<Longrightarrow> list_all is_text (snd (remove_media n bs))"
  "list_all plain_error bs \<Longrightarrow> list_all plain_error (snd (remove_media n bs))"
  by (induction n bs rule: remove_media.induct) (auto simp: split_beta Let_def)

lemma remove_nested_plain: "list_all plain_error bs \<Longrightarrow> list_all plain_error (snd (remove_nested n bs))"
proof (induction bs arbitrary: n)
  case (Cons b bs)
  show ?case using Cons.prems Cons.IH remove_media_plain(1)
    by (cases b rule: plain_error.cases) (auto simp: remove_nested_Cons split: tr_content.split)
qed simp

lemma excess_media_plain: "list_all plain_errors ms \<Longrightarrow> list_all plain_errors (stripExcessMediaItems ms limit)"
proof -
  have content: "list_all plain_error bs \<Longrightarrow> list_all plain_error (snd (strip_content n bs))" for n bs
    by (simp add: strip_content_def split_beta Let_def remove_media_plain remove_nested_plain)
  have set_blocks: "plain_errors m \<Longrightarrow> message_blocks m = Some bs \<Longrightarrow> plain_errors (set_message_blocks (snd (strip_content n bs)) m)"
    for m bs n
    using content by (cases m) (auto simp: message_blocks_def set_message_blocks_def normalizeUserTextContent_def split: user_content.splits)
  have "list_all plain_errors ms \<Longrightarrow> list_all plain_errors (strip_media n ms)" for n
    by (induction ms arbitrary: n) (auto simp: split_beta Let_def set_blocks split: option.split)
  then show "list_all plain_errors ms \<Longrightarrow> list_all plain_errors (stripExcessMediaItems ms limit)"
    by (simp add: stripExcessMediaItems_def)
qed

section \<open>The request\<close>

lemma normalized:
  assumes "normalizeMessagesForAPI env ni attach tools messages = Inr r"
  shows "tool_events r = sum_list (map (session_events attach) (filter (\<lambda>m. \<not> is_virtual m \<and> is_sent m) messages))"
    "list_all plain_errors r" "chair_sermon env \<Longrightarrow> users_apart r"
proof -
  define reordered where "reordered = filter (\<lambda>m. \<not> is_virtual m) (reorderAttachmentsForAPI messages)"
  define passed where "passed = api_passes env (foldl (normalize_step env attach tools (strip_targets ni [] reordered)) []
    (filter is_sent reordered))"
  have r: "r = (if snipRuntimeEnabled env \<and> \<not> test_mode env then on_users appendMessageTagToUserMessage passed else passed)"
    using assms unfolding normalizeMessagesForAPI_def Let_def reordered_def [symmetric] passed_def [symmetric]
    by (auto split: sum.splits)
  have "mset (filter is_sent reordered) = mset (filter (\<lambda>m. \<not> is_virtual m \<and> is_sent m) messages)"
    unfolding mset_filter reordered_def reorder_mset filter_filter_mset by (simp add: conj_commute)
  then have "tool_events passed = sum_list (map (session_events attach) (filter (\<lambda>m. \<not> is_virtual m \<and> is_sent m) messages))"
    using sum_list_mset_eq by (fastforce simp: passed_def api_passes_events normalize_events)
  then show "tool_events r = sum_list (map (session_events attach) (filter (\<lambda>m. \<not> is_virtual m \<and> is_sent m) messages))"
    by (simp add: r tag_events)
  have "list_all plain_errors passed" by (simp add: passed_def api_passes_def Let_def sanitized_plain)
  then show "list_all plain_errors r" using plain_on_users tag_plain by (simp add: r)
  show "users_apart r" if "chair_sermon env" using api_passes_apart [OF that] by (simp add: r passed_def on_users_apart)
qed

lemma requested:
  assumes "messages_for_request env ni attach uuids strict useToolSearch advisor tools messages = Inr r"
  obtains ms p where "normalizeMessagesForAPI env ni attach tools messages = Inr ms"
    "paired_result (pair_loop env uuids (if \<not> useToolSearch then on_assistants stripCallerFieldFromAssistantMessage
       (on_users stripToolReferenceBlocksFromUserMessage ms) else ms) pairing_start) = p"
    "r = stripExcessMediaItems (if advisor then p else stripAdvisorBlocks p) API_MAX_MEDIA_PER_REQUEST"
  using assms unfolding messages_for_request_def ensureToolResultPairing_def Let_def
  by (auto split: sum.splits if_splits)

lemma stripped_keeps:
  assumes "list_all plain_errors ms"
  shows "list_all plain_errors (if b then on_assistants stripCallerFieldFromAssistantMessage
      (on_users stripToolReferenceBlocksFromUserMessage ms) else ms)"
    "users_apart (if b then on_assistants stripCallerFieldFromAssistantMessage
      (on_users stripToolReferenceBlocksFromUserMessage ms) else ms) = users_apart ms"
  using assms plain_on_users [OF assms strip_reference_plain]
  by (auto simp: plain_on_assistants on_assistants_apart on_users_apart)

lemma request_shape:
  "map shape (stripExcessMediaItems (if advisor then p else stripAdvisorBlocks p) limit) = map shape p"
  by (simp add: excess_media_shape advisor_shape)

section \<open>Properties\<close>

text \<open>
  C27: No tool call and no tool result is lost, doubled or made up on the way to the API: the calls and
  results of the normalised messages are, as a bag, those of the messages of the session that are
  sent, attachments included, whatever is merged, moved, folded, stripped or dropped on the way.
\<close>

theorem normalisation_keeps_calls_and_results:
  "case normalizeMessagesForAPI env nonInteractive attach tools messages of
     Inl oversized \<Rightarrow> oversized \<noteq> []
   | Inr r \<Rightarrow> tool_events r =
       sum_list (map (session_events attach) (filter (\<lambda>m. \<not> is_virtual m \<and> is_sent m) messages))"
  using normalized(1) [of env nonInteractive attach tools messages]
  by (auto simp: normalizeMessagesForAPI_def validateImagesForAPI_def Let_def split: sum.splits if_splits)

text \<open>
  C28: A request that is built satisfies the conditions of the API on tools and media: every call is
  followed by exactly its results, calls are unique, the results of failed calls are plain text,
  and there are at most a hundred images and documents.
\<close>

theorem request_valid:
  "case messages_for_request env nonInteractive attach uuids strict useToolSearch advisor tools messages of
     Inl e \<Rightarrow> (case e of ImagesTooLarge images \<Rightarrow> images \<noteq> [] | PairingMismatch t \<Rightarrow> strict)
   | Inr r \<Rightarrow> calls_answered r \<and> distinct (all_calls r) \<and> list_all plain_errors r \<and>
       media_count r \<le> API_MAX_MEDIA_PER_REQUEST"
proof (cases "messages_for_request env nonInteractive attach uuids strict useToolSearch advisor tools messages")
  case (Inl e)
  then show ?thesis
    by (auto simp: messages_for_request_def ensureToolResultPairing_def normalizeMessagesForAPI_def validateImagesForAPI_def Let_def
        split: sum.splits if_splits)
next
  case (Inr r)
  obtain ms p where ms: "normalizeMessagesForAPI env nonInteractive attach tools messages = Inr ms"
    "paired_result (pair_loop env uuids (if \<not> useToolSearch then on_assistants stripCallerFieldFromAssistantMessage
       (on_users stripToolReferenceBlocksFromUserMessage ms) else ms) pairing_start) = p"
    "r = stripExcessMediaItems (if advisor then p else stripAdvisorBlocks p) API_MAX_MEDIA_PER_REQUEST"
    using requested [OF Inr] by blast
  have "calls_answered p" "distinct (all_calls p)" using repaired_sound ms(2) by (auto simp: api_paired_def)
  moreover have "list_all plain_errors p"
    unfolding ms(2) [symmetric]
    by (intro pair_loop_plain stripped_keeps normalized(2) [OF ms(1)]) (simp add: pairing_start_def)
  then have "list_all plain_errors r"
    unfolding ms(3) by (intro excess_media_plain) (simp add: stripAdvisorBlocks_def plain_on_assistants)
  ultimately show ?thesis
    using Inr ms(3) shapes_calls [OF request_shape [of advisor p API_MAX_MEDIA_PER_REQUEST]] by (simp add: excess_media_count)
qed

text \<open>
  When the reminders are folded into tool results, the roles of a request alternate: no two user
  messages follow each other, whatever the passes have dropped between them and whatever the repair
  of the pairing has added.
\<close>

theorem request_users_apart:
  assumes "chair_sermon env"
    "messages_for_request env nonInteractive attach uuids strict useToolSearch advisor tools messages = Inr r"
  shows "users_apart r"
proof -
  obtain ms p where ms: "normalizeMessagesForAPI env nonInteractive attach tools messages = Inr ms"
    "paired_result (pair_loop env uuids (if \<not> useToolSearch then on_assistants stripCallerFieldFromAssistantMessage
       (on_users stripToolReferenceBlocksFromUserMessage ms) else ms) pairing_start) = p"
    "r = stripExcessMediaItems (if advisor then p else stripAdvisorBlocks p) API_MAX_MEDIA_PER_REQUEST"
    using requested [OF assms(2)] by blast
  have "users_apart p"
    unfolding ms(2) [symmetric] using stripped_keeps(2) [OF normalized(2) [OF ms(1)]] normalized(3) [OF ms(1) assms(1)]
    by (intro apart_loop) (simp add: apart_inv_def pairing_start_def)
  then show ?thesis
    using ms(3) shapes_calls [OF request_shape [of advisor p API_MAX_MEDIA_PER_REQUEST]] by simp
qed

section \<open>Conversations at the edges\<close>

definition plain_env :: api_env where
  "plain_env = \<lparr>chair_sermon = True, toolref_defer = False, toolSearchEnabled = True, snipRuntimeEnabled = False,
     test_mode = False, build_features = \<lparr>kairos = False, transcript_classifier = False,
       bash_classifier = False, powershell_auto_mode = False\<rparr>\<rparr>"

definition said :: "string \<Rightarrow> user_content \<Rightarrow> api_message" where
  "said uuid c = UserMessage \<lparr>user_uuid = uuid, isMeta = False, user_isVirtual = False, user_content = c, sourceToolUseID = None\<rparr>"

definition answered :: "string \<Rightarrow> block list \<Rightarrow> api_message" where
  "answered i bs = AssistantMessage \<lparr>assistant_uuid = i, message_id = Some i, model_name = ''model'',
     isApiErrorMessage = False, assistant_isVirtual = False, assistant_content = bs\<rparr>"

definition interrupted :: "unit message list" where
  "interrupted = [Plain (said ''1'' (Str ''a'')), Plain (answered ''2'' [Thinking ''t'']), Plain (said ''3'' (Str ''b''))]"

lemma no_media: "media_count [] = 0" "media_count (said i (Str t) # ms) = media_count ms"
  "media_count (said i (Blocks bs) # ms) = sum_list (map media_of_block bs) + media_count ms"
  by (simp_all add: media_count_def message_blocks_def said_def)

lemma texts_checked:
  "validateImagesForAPI [said i (Blocks [TextBlock s, TextBlock t])] = Inr ()" "validateImagesForAPI [said i (Str s), said j (Str t)] = Inr ()"
  by (simp_all add: validateImagesForAPI_def oversized_images_def base64_images_def user_blocks_def said_def)

text \<open>The conversation after the passes.\<close>

definition passed :: "api_env \<Rightarrow> api_message list" where
  "passed env =
  (let ms = filter (\<lambda>m. \<not> is_virtual m) (reorderAttachmentsForAPI interrupted)
   in api_passes env (foldl (normalize_step env (\<lambda>_. []) ([] :: (unit, unit) tool list) (strip_targets True [] ms)) [] (filter is_sent ms)))"

lemma passed_values: "passed plain_env = [said ''1'' (Blocks [TextBlock [CHR ''a'', NL], TextBlock ''b''])]"
  "passed (plain_env\<lparr>chair_sermon := False\<rparr>) = [said ''1'' (Str ''a''), said ''3'' (Str ''b'')]"
  by (code_simp, code_simp)

lemma paired:
  "ensureToolResultPairing plain_env (\<lambda>_. ''u'') False [said i (Blocks [TextBlock s, TextBlock t])] = Inr [said i (Blocks [TextBlock s, TextBlock t])]"
  "ensureToolResultPairing e (\<lambda>_. ''u'') False [said i (Str s), said j (Str t)] = Inr [said i (Str s), said j (Str t)]"
  by (simp_all add: ensureToolResultPairing_def pairing_start_def pair_user_def push_def said_def Let_def)

lemma request_of_passed:
  "messages_for_request env True (\<lambda>_. []) (\<lambda>_. ''u'') False True True ([] :: (unit, unit) tool list) interrupted = Inr (passed env)"
  if "snipRuntimeEnabled env = False" "validateImagesForAPI (passed env) = Inr ()"
    "ensureToolResultPairing env (\<lambda>_. ''u'') False (passed env) = Inr (passed env)" "media_count (passed env) = 0"
  using that unfolding messages_for_request_def normalizeMessagesForAPI_def passed_def Let_def
  by (simp add: stripExcessMediaItems_def)

lemma interrupted_merged:
  "messages_for_request plain_env True (\<lambda>_. []) (\<lambda>_. ''u'') False True True ([] :: (unit, unit) tool list) interrupted =
     Inr [said ''1'' (Blocks [TextBlock [CHR ''a'', NL], TextBlock ''b''])]"
  using request_of_passed [of plain_env]
  by (simp add: passed_values texts_checked paired no_media plain_env_def [THEN arg_cong [of _ _ snipRuntimeEnabled]])

theorem request_users_apart_witness:
  "\<exists>r. messages_for_request plain_env True (\<lambda>_. []) (\<lambda>_. ''u'') False True True ([] :: (unit, unit) tool list) interrupted = Inr r \<and>
     users_apart r"
  using request_users_apart [OF _ interrupted_merged] interrupted_merged by (auto simp: plain_env_def)

text \<open>Without the gate the passes can leave two user messages in a row.\<close>

lemma users_not_merged:
  "messages_for_request (plain_env\<lparr>chair_sermon := False\<rparr>) True (\<lambda>_. []) (\<lambda>_. ''u'') False True True
     ([] :: (unit, unit) tool list) interrupted = Inr [said ''1'' (Str ''a''), said ''3'' (Str ''b'')]"
  using request_of_passed [of "plain_env\<lparr>chair_sermon := False\<rparr>"]
  by (simp add: passed_values texts_checked paired no_media plain_env_def [THEN arg_cong [of _ _ snipRuntimeEnabled]])

text \<open>A whitespace answer dropped from the end leaves an answer that ends in thinking at the end.\<close>

lemma thinking_left_at_the_end:
  "api_passes plain_env [said ''1'' (Str ''a''), answered ''2'' [TextBlock ''b'', Thinking ''t''], answered ''3'' [TextBlock '' '']] =
     [said ''1'' (Str ''a''), answered ''2'' [TextBlock ''b'', Thinking ''t'']]"
  by code_simp

text \<open>Dropping the oldest media can leave a user message without any content.\<close>

lemma emptied_message:
  "stripExcessMediaItems [said ''1'' (Blocks [MediaBlock m]), said ''2'' (Blocks [MediaBlock n])] 1 =
     [said ''1'' (Blocks []), said ''2'' (Blocks [MediaBlock n])]"
  by (simp add: stripExcessMediaItems_def media_count_def message_blocks_def said_def strip_content_def set_message_blocks_def)

text \<open>The check of the size of images does not look into tool results.\<close>

lemma nested_images_unchecked:
  "validateImagesForAPI [said uuid (Blocks [ToolResultBlock i (Items [MediaBlock (Image (Base64 d))]) e])] = Inr ()"
  by (simp add: validateImagesForAPI_def oversized_images_def base64_images_def user_blocks_def said_def)

end
