(* ===== verification/Posix_Paths.thy ===== *)
theory Posix_Paths
  imports Js_Strings "HOL-Library.Sublist"
begin

text \<open>
  The functions on paths of the language's standard library that the modelled sources use, on POSIX
  platforms: normalisation, joining, resolving against a directory, the directory of a path and the
  path from one directory to another.  A path is a string; its segments are what its slashes separate.
  The lemmas reduce them to operations on lists of segments.  The Unicode normalisation NFC is the
  identity on code units up to 255 and does not appear.
\<close>

section \<open>Segments\<close>

text \<open>\<open>s.split(c)\<close> for a separator of one character.\<close>

fun split_at_char :: "char \<Rightarrow> string \<Rightarrow> string list" where
  "split_at_char c [] = [[]]"
| "split_at_char c (x # s) =
     (if x = c then [] # split_at_char c s
      else (case split_at_char c s of [] \<Rightarrow> [[x]] | p # ps \<Rightarrow> (x # p) # ps))"

abbreviation segments :: "string \<Rightarrow> string list" where
  "segments \<equiv> split_at_char (CHR ''/'')"

abbreviation join_path :: "string list \<Rightarrow> string" where
  "join_path \<equiv> js_join ''/''"

definition is_absolute :: "string \<Rightarrow> bool" where
  "is_absolute p \<longleftrightarrow> p \<noteq> [] \<and> hd p = CHR ''/''"

text \<open>
  \<open>normalizeString\<close>: empty and single dots disappear, a double dot removes the segment before it, or
  stays where the path may lead above its start.
\<close>

definition norm_step :: "bool \<Rightarrow> string list \<Rightarrow> string \<Rightarrow> string list" where
  "norm_step up ss s =
     (if s = [] \<or> s = ''.'' then ss
      else if s = ''..'' then
        (if ss \<noteq> [] \<and> last ss \<noteq> ''..'' then butlast ss else if up then ss @ [''..''] else ss)
      else ss @ [s])"

definition norm_segments :: "bool \<Rightarrow> string \<Rightarrow> string list" where
  "norm_segments up p = foldl (norm_step up) [] (segments p)"

section \<open>The library's functions\<close>

definition path_normalize :: "string \<Rightarrow> string" where
  "path_normalize p =
     (if p = [] then ''.''
      else (let body = join_path (norm_segments (\<not> is_absolute p) p); trailing = (last p = CHR ''/'')
            in if body = [] then (if is_absolute p then ''/'' else if trailing then ''./'' else ''.'')
               else (if is_absolute p then ''/'' else []) @ body @ (if trailing then ''/'' else [])))"

definition path_join :: "string list \<Rightarrow> string" where
  "path_join ps =
     (let joined = join_path (filter (\<lambda>p. p \<noteq> []) ps)
      in if joined = [] then ''.'' else path_normalize joined)"

text \<open>
  \<open>resolve\<close> prepends from the right until the path is absolute; the last resort is the directory of the
  process.
\<close>

fun resolve_from :: "string \<Rightarrow> string list \<Rightarrow> string \<Rightarrow> string" where
  "resolve_from process_cwd [] acc = process_cwd @ ''/'' @ acc"
| "resolve_from process_cwd (p # ps) acc =
     (if p = [] then resolve_from process_cwd ps acc
      else if is_absolute p then p @ ''/'' @ acc
      else resolve_from process_cwd ps (p @ ''/'' @ acc))"

definition path_resolve :: "string \<Rightarrow> string list \<Rightarrow> string" where
  "path_resolve process_cwd ps =
     (let full = resolve_from process_cwd (rev ps) []; body = join_path (norm_segments (\<not> is_absolute full) full)
      in if is_absolute full then ''/'' @ body else if body = [] then ''.'' else body)"

text \<open>The slash that closes the directory of \<open>p\<close> is the last one before the last segment, not the root.\<close>

definition path_dirname :: "string \<Rightarrow> string" where
  "path_dirname p =
     (if p = [] then ''.''
      else (let stem = dropWhile (\<lambda>c. c \<noteq> CHR ''/'') (dropWhile (\<lambda>c. c = CHR ''/'') (rev (tl p)));
                n = length stem
            in if stem = [] then (if is_absolute p then ''/'' else ''.'')
               else if is_absolute p \<and> n = 1 then ''//''
               else take n p))"

definition path_basename :: "string \<Rightarrow> string" where
  "path_basename p = rev (takeWhile (\<lambda>c. c \<noteq> CHR ''/'') (dropWhile (\<lambda>c. c = CHR ''/'') (rev p)))"

fun common_prefix :: "string list \<Rightarrow> string list \<Rightarrow> nat" where
  "common_prefix (x # xs) (y # ys) = (if x = y then Suc (common_prefix xs ys) else 0)"
| "common_prefix _ _ = 0"

definition path_relative :: "string \<Rightarrow> string \<Rightarrow> string \<Rightarrow> string" where
  "path_relative process_cwd base target =
     (if base = target then []
      else (let f = norm_segments False (path_resolve process_cwd [base]);
                t = norm_segments False (path_resolve process_cwd [target]);
                k = common_prefix f t
            in join_path (replicate (length f - k) ''..'' @ drop k t)))"

section \<open>Lemmas\<close>

lemma split_char_ne [simp]: "split_at_char c s \<noteq> []"
  by (induction s) (auto split: list.splits)

lemma split_char_append: "split_at_char c (s @ c # t) = split_at_char c s @ split_at_char c t"
  by (induction s) (auto split: list.splits)

lemma split_char_absent: "c \<notin> set s \<Longrightarrow> split_at_char c s = [s]"
  by (induction s) auto

lemma split_char_parts: "x \<in> set (split_at_char c s) \<Longrightarrow> c \<notin> set x"
  by (induction s arbitrary: x) (auto split: list.splits if_splits)

lemma split_char_join:
  "ss \<noteq> [] \<Longrightarrow> \<forall>x\<in>set ss. c \<notin> set x \<Longrightarrow> split_at_char c (js_join [c] ss) = ss"
proof (induction "[c]" ss rule: js_join.induct)
  case (3 x y xs)
  then have "split_at_char c (x @ c # js_join [c] (y # xs)) = [x] @ (y # xs)"
    by (simp add: split_char_append split_char_absent)
  then show ?case by simp
qed (auto simp: split_char_absent)

lemma split_char_map:
  assumes "\<And>x. f x = c \<longleftrightarrow> x = c"
  shows "split_at_char c (map f s) = map (map f) (split_at_char c s)"
  by (induction s) (auto simp: assms split: list.splits)

lemma join_map: "f c = c \<Longrightarrow> map f (js_join [c] ss) = js_join [c] (map (map f) ss)"
proof (induction "[c]" ss rule: js_join.induct)
  case (3 x y xs)
  then show ?case by simp
qed simp_all

lemma join_eq_Nil: "js_join (c # sep) ss = [] \<longleftrightarrow> ss = [] \<or> ss = [[]]"
  by (cases "(c # sep, ss)" rule: js_join.cases) simp_all

lemma split_char_subset: "x \<in> set (split_at_char c s) \<Longrightarrow> set x \<subseteq> set s"
proof (induction s arbitrary: x)
  case (Cons a s)
  obtain q qs where q: "split_at_char c s = q # qs" by (cases "split_at_char c s") auto
  show ?case
    using Cons.prems Cons.IH [of q] Cons.IH [of x] by (auto simp: q split: if_splits)
qed simp

lemma join_last:
  "ss \<noteq> [] \<Longrightarrow> \<forall>s\<in>set ss. s \<noteq> [] \<Longrightarrow> join_path ss \<noteq> [] \<and> last (join_path ss) = last (last ss)"
  by (induction "''/''" ss rule: js_join.induct) auto

text \<open>Segments that normalisation leaves alone.\<close>

definition clean_segment :: "string \<Rightarrow> bool" where
  "clean_segment s \<longleftrightarrow> s \<noteq> [] \<and> s \<noteq> ''.'' \<and> s \<noteq> ''..'' \<and> CHR ''/'' \<notin> set s"

lemma norm_clean:
  "(\<And>s. s \<in> set ss \<Longrightarrow> clean_segment s) \<Longrightarrow> foldl (norm_step up) acc ss = acc @ ss"
  by (induction ss arbitrary: acc) (auto simp: norm_step_def clean_segment_def)

lemma norm_step_clean:
  "\<forall>s\<in>set acc. clean_segment s \<Longrightarrow> CHR ''/'' \<notin> set s \<Longrightarrow> x \<in> set (norm_step False acc s) \<Longrightarrow>
     clean_segment x"
  by (auto simp: norm_step_def clean_segment_def dest: in_set_butlastD split: if_splits)

lemma norm_fold_clean:
  "\<forall>s\<in>set acc. clean_segment s \<Longrightarrow> \<forall>s\<in>set ss. CHR ''/'' \<notin> set s \<Longrightarrow>
     \<forall>x\<in>set (foldl (norm_step False) acc ss). clean_segment x"
proof (induction ss arbitrary: acc)
  case (Cons s ss)
  then have "\<forall>x\<in>set (norm_step False acc s). clean_segment x" by (auto intro: norm_step_clean)
  with Cons show ?case by simp
qed simp

lemma norm_segments_clean: "x \<in> set (norm_segments False p) \<Longrightarrow> clean_segment x"
  using norm_fold_clean [of "[]" "segments p"] split_char_parts
  by (fastforce simp: norm_segments_def)

lemma norm_segments_trailing: "norm_segments up (p @ ''/'') = norm_segments up p"
  by (simp add: norm_segments_def split_char_append [of "CHR ''/''" p "[]", simplified] norm_step_def)

lemma norm_segments_root: "norm_segments up (CHR ''/'' # p) = norm_segments up p"
  by (simp add: norm_segments_def norm_step_def)

lemma norm_segments_join:
  assumes "\<And>s. s \<in> set ss \<Longrightarrow> clean_segment s"
  shows "norm_segments up (join_path ss) = ss"
proof (cases "ss = []")
  case False
  then have "segments (join_path ss) = ss"
    using assms by (intro split_char_join) (auto simp: clean_segment_def)
  then show ?thesis using norm_clean [OF assms, of ss up "[]"] by (simp add: norm_segments_def)
qed (simp add: norm_segments_def norm_step_def)

lemma is_absolute_Cons [simp]: "is_absolute (c # p) \<longleftrightarrow> c = CHR ''/''" "\<not> is_absolute []"
  by (simp_all add: is_absolute_def)

lemma is_absolute_append: "p \<noteq> [] \<Longrightarrow> is_absolute (p @ q) = is_absolute p"
  by (simp add: is_absolute_def)

lemma resolve_absolute:
  assumes "is_absolute p"
  shows "path_resolve d [p] = ''/'' @ join_path (norm_segments False p)"
proof -
  have "p \<noteq> []" using assms by auto
  then show ?thesis
    using assms norm_segments_trailing [of False p] by (simp add: path_resolve_def is_absolute_append)
qed

lemma resolve_segments:
  "is_absolute p \<Longrightarrow> norm_segments False (path_resolve d [p]) = norm_segments False p"
  by (simp add: resolve_absolute norm_segments_root norm_segments_join norm_segments_clean)

lemma clean_join_last:
  assumes "\<And>s. s \<in> set ss \<Longrightarrow> clean_segment s" "ss \<noteq> []"
  shows "join_path ss \<noteq> []" "last (join_path ss) \<in> set (last ss)"
proof -
  have l: "last ss \<noteq> []" "\<forall>s\<in>set ss. s \<noteq> []" using assms by (simp_all add: clean_segment_def)
  then show "join_path ss \<noteq> []" "last (join_path ss) \<in> set (last ss)"
    using join_last [OF assms(2) l(2)] by simp_all
qed

lemma normalize_last:
  "is_absolute p \<Longrightarrow> last p \<noteq> CHR ''/'' \<Longrightarrow> path_normalize p = ''/'' @ join_path (norm_segments False p)"
  by (cases "p = []") (simp_all add: path_normalize_def Let_def)

text \<open>The path between two directories.\<close>

lemma common_prefix_le: "common_prefix xs ys \<le> length xs" "common_prefix xs ys \<le> length ys"
  by (induction xs ys rule: common_prefix.induct) auto

lemma common_prefix_iff: "common_prefix xs ys = length xs \<longleftrightarrow> prefix xs ys"
  by (induction xs ys rule: common_prefix.induct) auto

lemma common_prefix_full: "common_prefix xs xs = length xs"
  by (simp add: common_prefix_iff)

definition segments_between :: "string list \<Rightarrow> string list \<Rightarrow> string list" where
  "segments_between f t =
     (let k = common_prefix f t in replicate (length f - k) ''..'' @ drop k t)"

lemma path_relative_between:
  "path_relative d base target =
     join_path (segments_between (norm_segments False (path_resolve d [base]))
                  (norm_segments False (path_resolve d [target])))"
  by (cases "base = target") (simp_all add: path_relative_def segments_between_def common_prefix_full Let_def)

lemma relative_absolute:
  assumes "is_absolute base" "is_absolute target"
  shows "path_relative d base target =
     join_path (segments_between (norm_segments False base) (norm_segments False target))"
  by (simp only: path_relative_between resolve_segments assms)

lemma segments_between_set:
  "x \<in> set (segments_between f t) \<Longrightarrow> x = ''..'' \<or> x \<in> set t"
  by (auto simp: segments_between_def Let_def dest: in_set_dropD)

lemma segments_between_prefix:
  "prefix f t \<Longrightarrow> segments_between f t = drop (length f) t"
  "\<not> prefix f t \<Longrightarrow> ''..'' \<in> set (segments_between f t)"
  using common_prefix_le(1) [of f t]
  by (auto simp: segments_between_def Let_def common_prefix_iff [symmetric])

lemma segments_between_Nil: "segments_between f t = [] \<longleftrightarrow> f = t"
proof
  assume "segments_between f t = []"
  then have "prefix f t" "drop (length f) t = []"
    using segments_between_prefix [of f t] by (metis list.set_cases list.distinct(1) empty_iff empty_set)+
  then show "f = t" by (auto simp: prefix_def)
qed (simp add: segments_between_def common_prefix_full)

lemma relative_Nil:
  assumes "is_absolute base" "is_absolute target"
  shows "path_relative d base target = [] \<longleftrightarrow> norm_segments False base = norm_segments False target"
proof -
  let ?ss = "segments_between (norm_segments False base) (norm_segments False target)"
  have "[] \<notin> set (norm_segments False target)"
    using norm_segments_clean [of "[]" target] by (auto simp: clean_segment_def)
  then have "[] \<notin> set ?ss" by (auto dest: segments_between_set)
  then have "?ss \<noteq> [[]]" by (metis list.set_intros(1))
  then have "join_path ?ss = [] \<longleftrightarrow> ?ss = []" by (simp only: join_eq_Nil) simp
  then show ?thesis by (simp only: relative_absolute [OF assms] segments_between_Nil)
qed

text \<open>Lower case.\<close>

lemma lower_char_slash: "lower_char c = CHR ''/'' \<longleftrightarrow> c = CHR ''/''"
proof -
  have other: "char_of n \<noteq> CHR ''/''" if "48 \<le> n" "n < 256" for n :: nat
  proof
    assume "char_of n = CHR ''/''"
    then have "(of_char (char_of n) :: nat) = 47" by simp
    moreover have "of_char (char_of n) = n" using that(2) by (simp add: of_char_of)
    ultimately show False using that(1) by simp
  qed
  show ?thesis
  proof
    assume "lower_char c = CHR ''/''"
    then show "c = CHR ''/''"
      by (auto simp: lower_char_def Let_def other split: if_splits)
  qed (simp add: lower_char_def)
qed

lemma lower_segments: "segments (toLowerCase p) = map toLowerCase (segments p)"
  unfolding toLowerCase_def by (rule split_char_map) (rule lower_char_slash)

lemma lower_absolute [simp]: "is_absolute (toLowerCase p) = is_absolute p"
  by (cases p) (simp_all add: toLowerCase_def lower_char_slash)

section \<open>Prefixes of strings and of segments\<close>

lemma starts_with_prefix: "starts_with p s = prefix p s"
  by (metis append_eq_conv_conj prefix_def starts_with_def)

definition terminated :: "string list \<Rightarrow> string" where
  "terminated ss = concat (map (\<lambda>s. s @ ''/'') ss)"

lemma join_terminated: "ss \<noteq> [] \<Longrightarrow> join_path ss @ ''/'' = terminated ss"
  by (induction "''/''" ss rule: js_join.induct) (simp_all add: terminated_def)

lemma prefix_until:
  "c \<notin> set r \<Longrightarrow> c \<notin> set t \<Longrightarrow> prefix (r @ c # x) (t @ c # y) \<longleftrightarrow> r = t \<and> prefix x y"
proof (induction r arbitrary: t)
  case Nil
  then show ?case by (cases t) auto
next
  case (Cons a r)
  then show ?case by (cases t) auto
qed

lemma terminated_prefix:
  "\<forall>x\<in>set rs \<union> set ts. CHR ''/'' \<notin> set x \<Longrightarrow> prefix (terminated rs) (terminated ts) \<longleftrightarrow> prefix rs ts"
proof (induction rs arbitrary: ts)
  case (Cons r rs)
  then show ?case
    by (cases ts) (auto simp: terminated_def prefix_until)
qed (simp add: terminated_def)

text \<open>A path is a directory or below it, in the way the sources test it.\<close>

lemma at_or_below:
  "n = d \<or> starts_with (d @ ''/'') n \<longleftrightarrow> prefix (d @ ''/'') (n @ ''/'')"
  by (auto simp: starts_with_prefix)

lemma at_or_below_segments:
  assumes "\<forall>x\<in>set rs \<union> set ts. clean_segment x" "rs \<noteq> []"
  shows "''/'' @ join_path ts = ''/'' @ join_path rs \<or>
     starts_with ((''/'' @ join_path rs) @ ''/'') (''/'' @ join_path ts) \<longleftrightarrow> prefix rs ts"
proof (cases "ts = []")
  case True
  have "clean_segment x" if "x \<in> set rs" for x using assms(1) that by blast
  then have "rs \<noteq> [[]]" unfolding clean_segment_def by (metis list.set_intros(1))
  then have j: "join_path rs \<noteq> []" using assms(2) by (simp only: join_eq_Nil) simp
  have "\<not> prefix ((''/'' @ join_path rs) @ ''/'') ((''/'' @ join_path ts) @ ''/'')"
  proof
    assume "prefix ((''/'' @ join_path rs) @ ''/'') ((''/'' @ join_path ts) @ ''/'')"
    then have "length ((''/'' @ join_path rs) @ ''/'') \<le> length ((''/'' @ join_path ts) @ ''/'')"
      by (rule prefix_length_le)
    moreover have "length (join_path ts) = 0" using True by simp
    ultimately have "length (join_path rs) \<le> 0" by (simp only: length_append list.size)
    with j show False by simp
  qed
  moreover have "\<not> prefix rs ts" using True assms(2) by simp
  ultimately show ?thesis unfolding at_or_below by blast
next
  case False
  have "\<forall>x\<in>set rs \<union> set ts. CHR ''/'' \<notin> set x" using assms(1) by (auto simp: clean_segment_def)
  then have "prefix (terminated rs) (terminated ts) \<longleftrightarrow> prefix rs ts" by (rule terminated_prefix)
  then have "prefix (''/'' @ join_path rs @ ''/'') (''/'' @ join_path ts @ ''/'') \<longleftrightarrow> prefix rs ts"
    by (simp only: join_terminated assms(2) False same_prefix_prefix not_False_eq_True)
  then show ?thesis unfolding at_or_below by (simp only: append_assoc)
qed

end
