(* ===== verification/File_Paths.thy ===== *)
theory File_Paths
  imports Posix_Paths
begin

text \<open>
  Paths and the file system: \<open>src/utils/path.ts\<close> and the resolution of symbolic links for permission
  checks in \<open>src/utils/fsOperations.ts\<close>, on POSIX platforms.  The process (its directories and its
  platform) and the answers of the operating system are arguments; a call that throws answers \<open>None\<close>.
\<close>

section \<open>The process and the operating system\<close>

datatype platform = Macos | Linux | Wsl

record process =
  platform :: platform
  homedir :: string
  process_cwd :: string
  cwd :: string
  originalCwd :: string

datatype file_kind = RegularFile | Directory | SymbolicLink | SpecialFile

record file_system =
  existsSync :: "string \<Rightarrow> bool"
  lstatSync :: "string \<Rightarrow> file_kind option"
  readlinkSync :: "string \<Rightarrow> string option"
  realpathSync :: "string \<Rightarrow> string option"
  stat_isDirectory :: "string \<Rightarrow> bool option"

section \<open>\<open>path.ts\<close>\<close>

definition expandPath_from :: "process \<Rightarrow> string \<Rightarrow> string \<Rightarrow> string + string" where
  "expandPath_from pr baseDir path =
     (if CHR 0x00 \<in> set path \<or> CHR 0x00 \<in> set baseDir then Inl ''Path contains null bytes''
      else
        (let trimmedPath = js_trim path
         in if trimmedPath = [] then Inr (path_normalize baseDir)
            else if trimmedPath = ''~'' then Inr (homedir pr)
            else if starts_with ''~/'' trimmedPath then Inr (path_join [homedir pr, drop 2 trimmedPath])
            else if is_absolute trimmedPath then Inr (path_normalize trimmedPath)
            else Inr (path_resolve (process_cwd pr) [baseDir, trimmedPath])))"

definition expandPath :: "process \<Rightarrow> string \<Rightarrow> string + string" where
  "expandPath pr path = expandPath_from pr (cwd pr) path"

definition toRelativePath :: "process \<Rightarrow> string \<Rightarrow> string" where
  "toRelativePath pr absolutePath =
     (let relativePath = path_relative (process_cwd pr) (cwd pr) absolutePath
      in if starts_with ''..'' relativePath then absolutePath else relativePath)"

definition unc_path :: "string \<Rightarrow> bool" where
  "unc_path p \<longleftrightarrow> starts_with [BS, BS] p \<or> starts_with ''//'' p"

definition getDirectoryForPath :: "process \<Rightarrow> file_system \<Rightarrow> string \<Rightarrow> string + string" where
  "getDirectoryForPath pr fs path =
     and_then (expandPath pr path) (\<lambda>absolutePath.
       Inr (if unc_path absolutePath then path_dirname absolutePath
            else if stat_isDirectory fs absolutePath = Some True then absolutePath
            else path_dirname absolutePath))"

text \<open>
  The regular expression looks for two dots between separators, a slash or a backslash, or the ends.
\<close>

definition split_separators :: "string \<Rightarrow> string list" where
  "split_separators p = concat (map (split_at_char BS) (segments p))"

definition containsPathTraversal :: "string \<Rightarrow> bool" where
  "containsPathTraversal p \<longleftrightarrow> ''..'' \<in> set (split_separators p)"

definition MAX_SANITIZED_LENGTH :: nat where
  "MAX_SANITIZED_LENGTH = 200"

text \<open>\<open>sanitizePath\<close> of \<open>sessionStoragePortable.ts\<close>; the hash of long names is an argument.\<close>

definition sanitizePath :: "(string \<Rightarrow> string) \<Rightarrow> string \<Rightarrow> string" where
  "sanitizePath hash name =
     (let sanitized = map (\<lambda>c. if alphanumeric c then c else CHR ''-'') name
      in if length sanitized \<le> MAX_SANITIZED_LENGTH then sanitized
         else take MAX_SANITIZED_LENGTH sanitized @ ''-'' @ hash name)"

definition normalizePathForConfigKey :: "string \<Rightarrow> string" where
  "normalizePathForConfigKey path = replace_char BS ''/'' (path_normalize path)"

section \<open>Symbolic links\<close>

record resolved_path =
  resolvedPath :: string
  isSymlink :: bool
  isCanonical :: bool

definition safeResolvePath :: "file_system \<Rightarrow> string \<Rightarrow> resolved_path" where
  "safeResolvePath fs p =
     (let unresolved = \<lparr>resolvedPath = p, isSymlink = False, isCanonical = False\<rparr>
      in if starts_with ''//'' p \<or> starts_with [BS, BS] p then unresolved
         else (case lstatSync fs p of
             None \<Rightarrow> unresolved
           | Some SpecialFile \<Rightarrow> unresolved
           | Some _ \<Rightarrow>
               (case realpathSync fs p of
                  None \<Rightarrow> unresolved
                | Some r \<Rightarrow> \<lparr>resolvedPath = r, isSymlink = (r \<noteq> p), isCanonical = True\<rparr>)))"

definition isDuplicatePath :: "file_system \<Rightarrow> string \<Rightarrow> string list \<Rightarrow> bool \<times> string list" where
  "isDuplicatePath fs p loadedPaths =
     (let r = resolvedPath (safeResolvePath fs p)
      in if r \<in> set loadedPaths then (True, loadedPaths) else (False, set_add r loadedPaths))"

definition rejoin :: "string \<Rightarrow> string list \<Rightarrow> string" where
  "rejoin p ss = (if ss = [] then p else path_join (p # ss))"

definition link_target :: "process \<Rightarrow> string \<Rightarrow> string \<Rightarrow> string" where
  "link_target pr link target =
     (if is_absolute target then target else path_resolve (process_cwd pr) [path_dirname link, target])"

text \<open>
  The walk up to the deepest existing ancestor.  \<open>Inl\<close> is the throw of \<open>readlinkSync\<close>.  Each step
  shortens the path, but for the empty path, which becomes the dot at which the walk ends.
\<close>

lemma length_dropWhile_hd: "xs \<noteq> [] \<Longrightarrow> P (hd xs) \<Longrightarrow> Suc (length (dropWhile P xs)) \<le> length xs"
  using length_dropWhile_le [of P "tl xs"] by (cases xs) simp_all

lemma strip_last:
  assumes "dropWhile (\<lambda>c. c \<noteq> s) (dropWhile (\<lambda>c. c = s) xs) \<noteq> []"
  shows "Suc (length (dropWhile (\<lambda>c. c \<noteq> s) (dropWhile (\<lambda>c. c = s) xs))) \<le> length xs"
proof -
  let ?ys = "dropWhile (\<lambda>c. c = s) xs"
  have "?ys \<noteq> []" using assms by (metis dropWhile.simps(1))
  moreover from this have "hd ?ys \<noteq> s" by (rule hd_dropWhile)
  ultimately have "Suc (length (dropWhile (\<lambda>c. c \<noteq> s) ?ys)) \<le> length ?ys"
    by (rule length_dropWhile_hd)
  also have "length ?ys \<le> length xs" by (rule length_dropWhile_le)
  finally show ?thesis .
qed

definition dirname_stem :: "string \<Rightarrow> string" where
  "dirname_stem d = dropWhile (\<lambda>c. c \<noteq> CHR ''/'') (dropWhile (\<lambda>c. c = CHR ''/'') (rev (tl d)))"

lemma path_dirname_stem:
  "d \<noteq> [] \<Longrightarrow> path_dirname d =
     (if dirname_stem d = [] then (if is_absolute d then ''/'' else ''.'')
      else if is_absolute d \<and> length (dirname_stem d) = 1 then ''//'' else take (length (dirname_stem d)) d)"
  unfolding path_dirname_def Let_def dirname_stem_def by simp

lemma length_dirname:
  assumes "path_dirname d \<noteq> d" "d \<noteq> []"
  shows "path_dirname d = ''.'' \<or> length (path_dirname d) < length d"
proof -
  show ?thesis
  proof (cases "dirname_stem d = []")
    case True
    then show ?thesis using path_dirname_stem [OF assms(2)] assms by (cases d; cases "tl d") auto
  next
    case False
    then have "Suc (length (dirname_stem d)) \<le> length (tl d)"
      using strip_last [of "CHR ''/''" "rev (tl d)"] unfolding dirname_stem_def by simp
    then show ?thesis using path_dirname_stem [OF assms(2)] False by auto
  qed
qed

lemma dirname_fixed [simp]: "path_dirname ''.'' = ''.''" "path_dirname [] = ''.''"
  by (simp_all add: path_dirname_def)

function deepest_ancestor ::
  "process \<Rightarrow> file_system \<Rightarrow> string \<Rightarrow> string list \<Rightarrow> unit + string option" where
  "deepest_ancestor pr fs dir ss =
     (if dir = path_dirname dir then Inr None
      else (case lstatSync fs dir of
          None \<Rightarrow> deepest_ancestor pr fs (path_dirname dir) (path_basename dir # ss)
        | Some SymbolicLink \<Rightarrow>
            (case realpathSync fs dir of
               Some r \<Rightarrow> Inr (Some (rejoin r ss))
             | None \<Rightarrow>
                 (case readlinkSync fs dir of
                    None \<Rightarrow> Inl ()
                  | Some target \<Rightarrow> Inr (Some (rejoin (link_target pr dir target) ss))))
        | Some _ \<Rightarrow>
            (case realpathSync fs dir of
               Some r \<Rightarrow> Inr (if r \<noteq> dir then Some (rejoin r ss) else None)
             | None \<Rightarrow> Inr None)))"
  by pat_completeness auto
termination
proof (relation "measure (\<lambda>(pr, fs, dir, ss). if dir = ''.'' then 0 else if dir = [] then 1 else Suc (length dir))")
  fix pr :: process and fs :: file_system and dir :: string and ss :: "string list"
  assume d: "dir \<noteq> path_dirname dir"
  then have "dir \<noteq> ''.''" by (metis dirname_fixed(1))
  then show "((pr, fs, path_dirname dir, path_basename dir # ss), pr, fs, dir, ss) \<in>
      measure (\<lambda>(pr, fs, dir, ss). if dir = ''.'' then 0 else if dir = [] then 1 else Suc (length dir))"
    using d length_dirname [of dir] by (cases "dir = []") auto
qed simp

declare deepest_ancestor.simps [simp del]

definition resolveDeepestExistingAncestorSync :: "process \<Rightarrow> file_system \<Rightarrow> string \<Rightarrow> unit + string option" where
  "resolveDeepestExistingAncestorSync pr fs absolutePath = deepest_ancestor pr fs absolutePath []"

text \<open>
  The chain of links from a path: the paths collected, in order.  The loop has the source's limit of
  forty links; a throw ends it with what is collected.
\<close>

definition maxDepth :: nat where
  "maxDepth = 40"

fun link_chain ::
  "process \<Rightarrow> file_system \<Rightarrow> string \<Rightarrow> nat \<Rightarrow> string \<Rightarrow> string list \<Rightarrow> string list \<Rightarrow> string list" where
  "link_chain pr fs path 0 current visited pathSet = pathSet"
| "link_chain pr fs path (Suc depth) current visited pathSet =
     (if current \<in> set visited then pathSet
      else if \<not> existsSync fs current then
        (if current = path
         then (case resolveDeepestExistingAncestorSync pr fs path of
                 Inr (Some r) \<Rightarrow> set_add r pathSet
               | _ \<Rightarrow> pathSet)
         else pathSet)
      else (case lstatSync fs current of
          Some SymbolicLink \<Rightarrow>
            (case readlinkSync fs current of
               None \<Rightarrow> pathSet
             | Some target \<Rightarrow>
                 (let absoluteTarget = link_target pr current target
                  in link_chain pr fs path depth absoluteTarget (current # visited)
                       (set_add absoluteTarget pathSet)))
        | _ \<Rightarrow> pathSet))"

definition untilde :: "process \<Rightarrow> string \<Rightarrow> string" where
  "untilde pr p =
     (if p = ''~'' then homedir pr
      else if starts_with ''~/'' p then path_join [homedir pr, drop 2 p] else p)"

definition getPathsForPermissionCheck :: "process \<Rightarrow> file_system \<Rightarrow> string \<Rightarrow> string list" where
  "getPathsForPermissionCheck pr fs inputPath =
     (let path = untilde pr inputPath
      in if starts_with ''//'' path \<or> starts_with [BS, BS] path then [path]
         else (let pathSet = link_chain pr fs path maxDepth path [] [path];
                   r = safeResolvePath fs path
               in if isSymlink r \<and> resolvedPath r \<noteq> path then set_add (resolvedPath r) pathSet else pathSet))"

section \<open>Where a write lands\<close>

text \<open>
  The operating system resolves every link of a path that exists.  For a new file it resolves the
  directory that exists and keeps the rest.  A dangling link is not covered by this specification.
\<close>

function destination :: "file_system \<Rightarrow> string \<Rightarrow> string list \<Rightarrow> string option" where
  "destination fs dir ss =
     (case realpathSync fs dir of
        Some r \<Rightarrow> Some (rejoin r ss)
      | None \<Rightarrow>
          (if lstatSync fs dir = None \<and> dir \<noteq> path_dirname dir
           then destination fs (path_dirname dir) (path_basename dir # ss) else None))"
  by pat_completeness auto
termination
proof (relation "measure (\<lambda>(fs, dir, ss). if dir = ''.'' then 0 else if dir = [] then 1 else Suc (length dir))")
  fix fs :: file_system and dir :: string and ss :: "string list"
  assume d: "lstatSync fs dir = None \<and> dir \<noteq> path_dirname dir"
  then have "dir \<noteq> ''.''" by (metis dirname_fixed(1))
  then show "((fs, path_dirname dir, path_basename dir # ss), fs, dir, ss) \<in>
      measure (\<lambda>(fs, dir, ss). if dir = ''.'' then 0 else if dir = [] then 1 else Suc (length dir))"
    using d length_dirname [of dir] by (cases "dir = []") auto
qed simp

declare destination.simps [simp del]

text \<open>
  What the manual of the system calls states: existence is resolvability, a resolved path is absolute
  and canonical, and the root is itself.
\<close>

definition canonical_path :: "string \<Rightarrow> bool" where
  "canonical_path p \<longleftrightarrow> p = ''/'' @ join_path (norm_segments False p)"

definition file_system_laws :: "file_system \<Rightarrow> bool" where
  "file_system_laws fs \<longleftrightarrow>
     (\<forall>p. existsSync fs p \<longleftrightarrow> realpathSync fs p \<noteq> None) \<and>
     (\<forall>p. realpathSync fs p \<noteq> None \<longrightarrow> lstatSync fs p \<noteq> None) \<and>
     (\<forall>p r. realpathSync fs p = Some r \<longrightarrow> canonical_path r) \<and>
     realpathSync fs ''/'' = Some ''/''"

lemma file_system_lawsD:
  assumes "file_system_laws fs"
  shows "existsSync fs p \<longleftrightarrow> realpathSync fs p \<noteq> None"
    and "realpathSync fs p = Some r \<Longrightarrow> \<exists>k. lstatSync fs p = Some k"
    and "realpathSync fs p = Some r \<Longrightarrow> canonical_path r"
    and "realpathSync fs ''/'' = Some ''/''"
  using assms unfolding file_system_laws_def by (blast, blast, blast, blast)

lemma canonical_absolute: "canonical_path r \<Longrightarrow> is_absolute r"
  unfolding canonical_path_def by (metis append_Cons is_absolute_Cons(1))

lemma absolute_fixed: "dir = path_dirname dir \<Longrightarrow> is_absolute dir \<Longrightarrow> dir = ''/''"
proof -
  assume d: "dir = path_dirname dir" "is_absolute dir"
  then have ne: "dir \<noteq> []" by auto
  show "dir = ''/''"
  proof (cases "dirname_stem dir = []")
    case False
    then have "Suc (length (dirname_stem dir)) \<le> length (tl dir)"
      using strip_last [of "CHR ''/''" "rev (tl dir)"] unfolding dirname_stem_def by simp
    moreover have "dir = ''//'' \<or> dir = take (length (dirname_stem dir)) dir"
      using d path_dirname_stem [OF ne] False by (auto split: if_splits)
    then have "length dir = 2 \<or> length dir \<le> length (dirname_stem dir)"
      by (metis length_take linorder_le_cases min.absorb1 min.absorb2 numeral_2_eq_2 length_Cons list.size(3))
    ultimately show ?thesis using False by (cases "dirname_stem dir"; cases dir) auto
  qed (use d path_dirname_stem [OF ne] in simp)
qed

definition names :: "string \<Rightarrow> string list" where
  "names p = filter (\<lambda>s. s \<noteq> []) (segments p)"

lemma names_slash: "names (p @ CHR ''/'' # q) = names p @ names q"
  by (simp add: names_def split_char_append)

lemma names_simps [simp]: "names [] = []" "names (CHR ''/'' # p) = names p"
  by (simp_all add: names_def)

lemma names_slashes: "set q \<subseteq> {CHR ''/''} \<Longrightarrow> names (p @ q) = names p"
proof (induction q rule: rev_induct)
  case (snoc c q)
  then show ?case using names_slash [of "p @ q" "[]"] by simp
qed simp

lemma norm_names: "norm_segments up p = foldl (norm_step up) [] (names p)"
proof -
  have "foldl (norm_step up) acc ss = foldl (norm_step up) acc (filter (\<lambda>s. s \<noteq> []) ss)" for acc ss
    by (induction ss arbitrary: acc) (simp_all add: norm_step_def)
  then show ?thesis by (simp add: norm_segments_def names_def)
qed

lemma names_dirname:
  assumes "is_absolute d"
  shows "names d = names (path_dirname d) @ names (path_basename d)"
proof -
  obtain t where d: "d = CHR ''/'' # t" using assms by (cases d) auto
  define A where "A = takeWhile (\<lambda>c. c = CHR ''/'') (rev t)"
  define ys where "ys = dropWhile (\<lambda>c. c = CHR ''/'') (rev t)"
  define B where "B = takeWhile (\<lambda>c. c \<noteq> CHR ''/'') ys"
  define stem where "stem = dropWhile (\<lambda>c. c \<noteq> CHR ''/'') ys"
  have "rev t = A @ B @ stem" by (simp add: A_def ys_def B_def stem_def)
  then have t: "t = rev stem @ rev B @ rev A" by (metis append.assoc rev_append rev_rev_ident)
  have A: "set (rev A) \<subseteq> {CHR ''/''}" by (auto simp: A_def dest: set_takeWhileD)
  have base: "path_basename d = rev B"
  proof (cases "ys = []")
    case True
    then have "path_basename d = []" by (simp add: path_basename_def d ys_def dropWhile_append)
    then show ?thesis using True by (simp add: B_def)
  next
    case False
    then have "dropWhile (\<lambda>c. c = CHR ''/'') (rev t @ ''/'') = ys @ ''/''"
      unfolding ys_def by (auto simp: dropWhile_append)
    then show ?thesis
      by (simp add: path_basename_def d B_def takeWhile_tail)
  qed
  have "stem = dirname_stem d" by (simp add: stem_def ys_def dirname_stem_def d)
  then have dir: "path_dirname d =
      (if stem = [] then ''/'' else if length stem = 1 then ''//'' else take (length stem) d)"
    using path_dirname_stem [of d] assms by (simp add: is_absolute_def)
  have "names d = names (path_dirname d) @ names (rev B)"
  proof (cases stem)
    case Nil
    then have "path_dirname d = ''/''" using dir by simp
    moreover have "names d = names (rev B)" using names_slashes [OF A, of "rev B"] by (simp add: d t Nil)
    ultimately show ?thesis by simp
  next
    case (Cons c st)
    have "c = CHR ''/''" using hd_dropWhile [of "\<lambda>c. c \<noteq> CHR ''/''" ys] Cons unfolding stem_def
      by (metis list.distinct(1) list.sel(1))
    then have whole: "d = (CHR ''/'' # rev st) @ CHR ''/'' # (rev B @ rev A)" by (simp add: d t Cons)
    have "take (length stem) d = CHR ''/'' # rev st" by (simp add: whole Cons)
    then have "path_dirname d = (if st = [] then ''//'' else CHR ''/'' # rev st)" using dir Cons by simp
    then have "names (path_dirname d) = names (CHR ''/'' # rev st)" by simp
    moreover have "names d = names (CHR ''/'' # rev st) @ names (rev B @ rev A)"
      unfolding whole by (rule names_slash)
    ultimately show ?thesis by (simp add: names_slashes [OF A])
  qed
  then show ?thesis by (simp add: base)
qed

lemma names_join:
  "names (join_path ps) = concat (map names ps)"
  by (induction "''/''" ps rule: js_join.induct) (simp_all add: names_slash)

lemma concat_names_filter: "concat (map names (filter (\<lambda>p. p \<noteq> []) ps)) = concat (map names ps)"
  by (induction ps) simp_all

lemma normalize_absolute:
  assumes "is_absolute p"
  shows "norm_segments False (path_normalize p) = norm_segments False p" "is_absolute (path_normalize p)"
proof -
  let ?ss = "norm_segments False p"
  have "[] \<notin> set ?ss" using norm_segments_clean [of "[]" p] by (auto simp: clean_segment_def)
  then have body: "join_path ?ss = [] \<longleftrightarrow> ?ss = []"
    by (auto simp: join_eq_Nil)
  have p: "p \<noteq> []" using assms by auto
  have join: "norm_segments False (join_path ?ss) = ?ss"
    by (rule norm_segments_join) (rule norm_segments_clean)
  have trail: "norm_segments False (join_path ?ss @ ''/'') = ?ss"
    using norm_segments_trailing [of False "join_path ?ss"] join by simp
  have root: "norm_segments False ''/'' = []" by (simp add: norm_names)
  show "norm_segments False (path_normalize p) = ?ss" "is_absolute (path_normalize p)"
    using assms p body join trail root by (auto simp: path_normalize_def Let_def norm_segments_root)
qed

lemma join_absolute:
  assumes "is_absolute d"
  shows "norm_segments False (path_join (d # ss)) = foldl (norm_step False) [] (names d @ concat (map names ss))"
proof -
  let ?j = "join_path (filter (\<lambda>p. p \<noteq> []) (d # ss))"
  have d: "d \<noteq> []" using assms by auto
  then have "is_absolute ?j"
    using assms by (cases "filter (\<lambda>p. p \<noteq> []) ss") (auto simp: is_absolute_append)
  then have "norm_segments False (path_join (d # ss)) = norm_segments False ?j"
    using normalize_absolute(1) [of ?j] by (cases "?j = []") (simp_all add: path_join_def Let_def)
  also have "\<dots> = foldl (norm_step False) [] (names d @ concat (map names ss))"
    by (simp add: norm_names names_join concat_names_filter del: filter.simps(2) js_join.simps)
  finally show ?thesis .
qed

lemma rejoin_absolute:
  "is_absolute d \<Longrightarrow>
     norm_segments False (rejoin d ss) = foldl (norm_step False) [] (names d @ concat (map names ss))"
  using join_absolute [of d ss] by (cases "ss = []") (simp_all add: rejoin_def norm_names)

lemma rejoin_dirname:
  "is_absolute d \<Longrightarrow> is_absolute (path_dirname d) \<Longrightarrow>
     norm_segments False (rejoin (path_dirname d) (path_basename d # ss)) = norm_segments False (rejoin d ss)"
  by (simp add: rejoin_absolute names_dirname)

lemma dirname_absolute: "is_absolute d \<Longrightarrow> is_absolute (path_dirname d)"
proof -
  assume d: "is_absolute d"
  then have "d \<noteq> []" by auto
  have "is_absolute (take n d)" if "n \<noteq> 0" for n using d that by (cases d; cases n) simp_all
  then have "is_absolute (take (length (dirname_stem d)) d)" if "dirname_stem d \<noteq> []" using that by simp
  then show "is_absolute (path_dirname d)" by (simp add: path_dirname_stem [OF \<open>d \<noteq> []\<close>] d)
qed

section \<open>The checked paths cover the destination\<close>

lemma link_chain_mono: "set pathSet \<subseteq> set (link_chain pr fs path depth current visited pathSet)"
proof (induction depth arbitrary: current visited pathSet)
  case (Suc depth)
  have "set pathSet \<subseteq> set (link_chain pr fs path depth t vs (set_add t pathSet))" for t vs
    using Suc [of "set_add t pathSet" t vs] by auto
  then show ?case
    by (auto simp: Let_def split: option.splits sum.splits file_kind.splits)
qed simp

lemma original_checked: "untilde pr p \<in> set (getPathsForPermissionCheck pr fs p)"
  using link_chain_mono [of "[untilde pr p]" pr fs "untilde pr p" maxDepth "untilde pr p" "[]"]
  by (auto simp: getPathsForPermissionCheck_def Let_def)

text \<open>The walk finds the destination, or finds that no link is involved.\<close>

lemma deepest_destination:
  assumes "file_system_laws fs" "is_absolute dir" "destination fs dir ss = Some q"
  shows "deepest_ancestor pr fs dir ss = Inr (Some q) \<or>
    deepest_ancestor pr fs dir ss = Inr None \<and> norm_segments False q = norm_segments False (rejoin dir ss)"
  using assms
proof (induction fs dir ss rule: destination.induct)
  case (1 fs dir ss)
  note laws = file_system_lawsD [OF 1(2)] and abs = 1(3) and q = 1(4)
  show ?case
  proof (cases "realpathSync fs dir")
    case (Some r)
    then have qr: "q = rejoin r ss" using q by (simp add: destination.simps [of fs dir])
    obtain k where k: "lstatSync fs dir = Some k" using laws(2) [OF Some] by blast
    show ?thesis
    proof (cases "dir = path_dirname dir")
      case True
      then have "deepest_ancestor pr fs dir ss = Inr None" by (subst deepest_ancestor.simps) simp
      moreover have "dir = ''/''" using True abs by (rule absolute_fixed)
      then have "r = dir" using laws(4) Some by simp
      ultimately show ?thesis using qr by simp
    next
      case False
      then show ?thesis
        using Some k qr by (subst (1 2) deepest_ancestor.simps) (cases k; simp)
    qed
  next
    case None
    then have l: "lstatSync fs dir = None" "dir \<noteq> path_dirname dir"
      and d: "destination fs (path_dirname dir) (path_basename dir # ss) = Some q"
      using q by (auto simp: destination.simps [of fs dir] split: if_splits)
    have up: "is_absolute (path_dirname dir)" using abs by (rule dirname_absolute)
    have "deepest_ancestor pr fs dir ss = deepest_ancestor pr fs (path_dirname dir) (path_basename dir # ss)"
      using l by (subst deepest_ancestor.simps) simp
    then show ?thesis
      using "1.IH" [OF None _ 1(2) up d] l rejoin_dirname [OF abs up, of ss] by simp
  qed
qed

text \<open>The form of a destination: a resolved directory and the rest of the path.\<close>

lemma destination_form:
  "destination fs dir ss = Some q \<Longrightarrow>
     \<exists>d r ss'. realpathSync fs d = Some r \<and> q = rejoin r (ss' @ ss) \<and>
       (ss' = [] \<and> d = dir \<or> ss' \<noteq> [] \<and> last ss' = path_basename dir)"
proof (induction fs dir ss rule: destination.induct)
  case (1 fs dir ss)
  show ?case
  proof (cases "realpathSync fs dir")
    case (Some r)
    then show ?thesis using 1(2) by (intro exI [of _ dir] exI [of _ r] exI [of _ "[]"]) (simp add: destination.simps [of fs dir])
  next
    case None
    then have l: "lstatSync fs dir = None \<and> dir \<noteq> path_dirname dir"
      and d: "destination fs (path_dirname dir) (path_basename dir # ss) = Some q"
      using 1(2) by (auto simp: destination.simps [of fs dir] split: if_splits)
    obtain e r ss' where "realpathSync fs e = Some r" "q = rejoin r (ss' @ path_basename dir # ss)"
      using "1.IH" [OF None l d] by blast
    then show ?thesis
      by (intro exI [of _ e] exI [of _ r] exI [of _ "ss' @ [path_basename dir]"]) simp
  qed
qed

text \<open>
  C9: Where a write lands is among the paths that are checked, or is the path itself up to its spelling:
  for a path that exists its resolved form, for a new file the resolved directory that exists with the
  rest of the path.  The file system obeys its documented laws, the path is absolute and neither a
  network path nor a device, and its destination is determined: going up from the path, the first name
  that the system knows resolves, so no dangling link is met.
\<close>

theorem destination_checked:
  assumes "file_system_laws fs" "is_absolute p" "\<not> unc_path p" "lstatSync fs p \<noteq> Some SpecialFile"
    and "destination fs p [] = Some q"
  shows "q \<in> set (getPathsForPermissionCheck pr fs p) \<or> norm_segments False q = norm_segments False p"
proof -
  have p: "untilde pr p = p" using assms(2) by (cases p) (auto simp: untilde_def starts_with_def)
  let ?paths = "getPathsForPermissionCheck pr fs p"
  have own: "p \<in> set ?paths" using original_checked [of pr p fs] p by simp
  have paths: "set (link_chain pr fs p maxDepth p [] [p]) \<subseteq> set ?paths"
    "isSymlink (safeResolvePath fs p) \<Longrightarrow> resolvedPath (safeResolvePath fs p) \<in> set ?paths"
    using assms(3) own by (auto simp: getPathsForPermissionCheck_def p unc_path_def Let_def)
  show ?thesis
  proof (cases "realpathSync fs p")
    case (Some r)
    then have "q = r" using assms(5) by (simp add: destination.simps [of fs p] rejoin_def)
    obtain k where k: "lstatSync fs p = Some k" "k \<noteq> SpecialFile"
      using file_system_lawsD(2) [OF assms(1) Some] assms(4) by auto
    then have "safeResolvePath fs p = \<lparr>resolvedPath = r, isSymlink = (r \<noteq> p), isCanonical = True\<rparr>"
      using assms(3) Some by (cases k) (auto simp: safeResolvePath_def unc_path_def)
    then have "r \<in> set ?paths" using paths(2) own by (cases "r = p") simp_all
    then show ?thesis using \<open>q = r\<close> by blast
  next
    case None
    then have missing: "\<not> existsSync fs p" using file_system_lawsD(1) [OF assms(1)] by simp
    consider "deepest_ancestor pr fs p [] = Inr (Some q)"
      | "norm_segments False q = norm_segments False p"
      using deepest_destination [OF assms(1,2,5), of pr] by (auto simp: rejoin_def)
    then show ?thesis
    proof cases
      case 1
      then have "q \<in> set (link_chain pr fs p maxDepth p [] [p])"
        using missing by (simp add: maxDepth_def numeral_eq_Suc resolveDeepestExistingAncestorSync_def)
      then show ?thesis using paths(1) by blast
    qed simp
  qed
qed

lemma basename_last:
  assumes "p \<noteq> []" "last p \<noteq> CHR ''/''"
  shows "path_basename p \<noteq> []" "last (path_basename p) = last p"
proof -
  obtain x xs where x: "rev p = x # xs" using assms(1) by (cases "rev p") auto
  then have "last p = x" by (metis hd_rev list.sel(1))
  then show "path_basename p \<noteq> []" "last (path_basename p) = last p"
    using x assms(2) by (simp_all add: path_basename_def)
qed

lemma join_nonempty_last: "ps \<noteq> [] \<Longrightarrow> last ps \<noteq> [] \<Longrightarrow> join_path ps \<noteq> [] \<and> last (join_path ps) = last (last ps)"
  by (induction "''/''" ps rule: js_join.induct) auto

lemma last_filter: "xs \<noteq> [] \<Longrightarrow> P (last xs) \<Longrightarrow> last (filter P xs) = last xs"
  by (cases xs rule: rev_cases) simp_all

lemma path_join_last:
  assumes "is_absolute d" "ss \<noteq> []" "last ss \<noteq> []" "last (last ss) \<noteq> CHR ''/''"
  shows "path_join (d # ss) = ''/'' @ join_path (norm_segments False (path_join (d # ss)))"
proof -
  let ?ps = "filter (\<lambda>p. p \<noteq> []) (d # ss)"
  have d: "d \<noteq> []" using assms(1) by auto
  have l: "?ps \<noteq> []" "last ?ps = last ss"
    using d last_filter [of "d # ss" "\<lambda>p. p \<noteq> []"] assms(2,3) by simp_all
  then have j: "join_path ?ps \<noteq> []" "last (join_path ?ps) = last (last ss)"
    using join_nonempty_last [of ?ps] assms(3) by simp_all
  have abs: "is_absolute (join_path ?ps)"
    using assms(1) d by (cases "filter (\<lambda>p. p \<noteq> []) ss") (auto simp: is_absolute_append)
  have "path_join (d # ss) = path_normalize (join_path ?ps)" using j(1) by (simp add: path_join_def Let_def)
  moreover have "path_normalize (join_path ?ps) = ''/'' @ join_path (norm_segments False (path_normalize (join_path ?ps)))"
    using normalize_last [OF abs] j(2) assms(4) unfolding normalize_absolute(1) [OF abs] by metis
  ultimately show ?thesis by metis
qed

text \<open>A destination is absolute and canonical.\<close>

lemma destination_canonical:
  assumes "file_system_laws fs" "p \<noteq> []" "last p \<noteq> CHR ''/''" "destination fs p [] = Some q"
  shows "canonical_path q"
proof -
  obtain d r ss where r: "realpathSync fs d = Some r" and q: "q = rejoin r ss"
    and ss: "ss = [] \<or> ss \<noteq> [] \<and> last ss = path_basename p"
    using destination_form [OF assms(4)] by auto
  have canon: "canonical_path r" using file_system_lawsD(3) [OF assms(1) r] .
  show ?thesis
  proof (cases "ss = []")
    case False
    then have "last ss \<noteq> []" "last (last ss) \<noteq> CHR ''/''"
      using ss basename_last [OF assms(2,3)] assms(3) by simp_all
    then have "canonical_path (path_join (r # ss))"
      unfolding canonical_path_def by (rule path_join_last [OF canonical_absolute [OF canon] False])
    then show ?thesis using q False by (simp add: rejoin_def)
  qed (use canon q in \<open>simp add: rejoin_def\<close>)
qed

section \<open>An example\<close>

text \<open>A working directory with a link to another directory and a chain of two links that dangles.\<close>

definition linked_directory :: file_system where
  "linked_directory =
     \<lparr>existsSync = (\<lambda>p. p \<in> set [''/'', ''/w'', ''/etc'', ''/w/d'']),
      lstatSync = map_of [(''/'', Directory), (''/w'', Directory), (''/etc'', Directory),
        (''/w/d'', SymbolicLink), (''/w/a'', SymbolicLink), (''/w/b'', SymbolicLink)],
      readlinkSync = map_of [(''/w/d'', ''/etc''), (''/w/a'', ''b''), (''/w/b'', ''/etc/x'')],
      realpathSync = map_of [(''/'', ''/''), (''/w'', ''/w''), (''/etc'', ''/etc''), (''/w/d'', ''/etc'')],
      stat_isDirectory = map_of [(''/'', True), (''/w'', True), (''/etc'', True), (''/w/d'', True)]\<rparr>"

lemma canonical_examples: "canonical_path ''/''" "canonical_path ''/w''" "canonical_path ''/etc''"
  by code_simp+

lemma linked_directory_laws: "file_system_laws linked_directory"
  unfolding file_system_laws_def
  by (auto simp: linked_directory_def canonical_examples split: if_splits)

definition example_process :: process where
  "example_process = \<lparr>platform = Linux, homedir = ''/h'', process_cwd = ''/w'', cwd = ''/w'', originalCwd = ''/w''\<rparr>"

lemma example_destination: "destination linked_directory ''/w/d/new'' [] = Some ''/etc/new''"
  by code_simp

theorem destination_checked_witness:
  "''/etc/new'' \<in> set (getPathsForPermissionCheck example_process linked_directory ''/w/d/new'') \<or>
     norm_segments False ''/etc/new'' = norm_segments False ''/w/d/new''"
  by (rule destination_checked [OF linked_directory_laws _ _ _ example_destination]) code_simp+

text \<open>
  A chain of two dangling links: the operating system creates the file behind both, the checked paths
  end at the first target.
\<close>

lemma dangling_chain_unchecked:
  "getPathsForPermissionCheck example_process linked_directory ''/w/a'' = [''/w/a'', ''/w/b'']"
  "readlinkSync linked_directory ''/w/b'' = Some ''/etc/x''" "lstatSync linked_directory ''/etc/x'' = None"
  by code_simp+

end
