(* ===== verification/Workspace_Policy.thy ===== *)
theory Workspace_Policy
  imports File_Paths
begin

text \<open>
  The guard of the product's own files and the policy of a workspace,
  \<open>src/dsxu/engine/workspace-policy.ts\<close>: tests whether a path lies inside one of several roots.  The
  variables of the environment are arguments; an unset one is \<open>None\<close>.
\<close>

section \<open>Inside a root\<close>

definition normalizeForInside :: "process \<Rightarrow> string \<Rightarrow> string" where
  "normalizeForInside pr path =
     rev (dropWhile (\<lambda>c. c = BS \<or> c = CHR ''/'') (rev (path_resolve (process_cwd pr) [path])))"

definition isInside :: "process \<Rightarrow> string \<Rightarrow> string \<Rightarrow> bool" where
  "isInside pr target root \<longleftrightarrow>
     (let normalizedTarget = normalizeForInside pr target; normalizedRoot = normalizeForInside pr root
      in normalizedTarget = normalizedRoot \<or> starts_with (normalizedRoot @ [BS]) normalizedTarget \<or>
         starts_with (normalizedRoot @ ''/'') normalizedTarget)"

section \<open>Policies\<close>

datatype access_action = ReadAction | WriteAction | ExecuteAction

record workspace_policy =
  workspaceId :: string
  allowedRoots :: "string list"
  blockedRoots :: "string list"
  projectOnlyWrite :: bool

text \<open>A decision without its random identifier.\<close>

record policy_decision =
  policy_allowed :: bool
  policy_reason :: string
  normalizedPath :: string
  policy_action :: access_action
  matchedRoot :: "string option"

definition decision :: "bool \<Rightarrow> string \<Rightarrow> string \<Rightarrow> access_action \<Rightarrow> policy_decision" where
  "decision allowed why path action =
     \<lparr>policy_allowed = allowed, policy_reason = why, normalizedPath = path, policy_action = action,
      matchedRoot = None\<rparr>"

definition productCoreDecision ::
  "bool \<Rightarrow> string \<Rightarrow> string \<Rightarrow> access_action \<Rightarrow> string option \<Rightarrow> policy_decision" where
  "productCoreDecision allowed why path action root =
     \<lparr>policy_allowed = allowed, policy_reason = why, normalizedPath = path, policy_action = action,
      matchedRoot = root\<rparr>"

definition evaluateWorkspacePolicy ::
  "process \<Rightarrow> workspace_policy \<Rightarrow> string \<Rightarrow> access_action \<Rightarrow> policy_decision" where
  "evaluateWorkspacePolicy pr policy path action =
     (let normalized = path_resolve (process_cwd pr) [path];
          resolveRoot = (\<lambda>root. path_resolve (process_cwd pr) [root]);
          inAllowedRoot = list_ex (isInside pr normalized) (map resolveRoot (allowedRoots policy));
          inBlockedRoot = list_ex (isInside pr normalized) (map resolveRoot (blockedRoots policy))
      in if inBlockedRoot then decision False ''path is inside blockedRoots'' normalized action
         else if \<not> inAllowedRoot then decision False ''path is outside allowedRoots'' normalized action
         else if projectOnlyWrite policy \<and> action = WriteAction \<and> \<not> inAllowedRoot
         then decision False ''projectOnlyWrite denied write outside project roots'' normalized action
         else decision True ''workspace policy allowed'' normalized action)"

section \<open>The guard of the product's core\<close>

fun uniqueRoots_from :: "process \<Rightarrow> string list \<Rightarrow> string option list \<Rightarrow> string list" where
  "uniqueRoots_from pr seen [] = []"
| "uniqueRoots_from pr seen (None # roots) = uniqueRoots_from pr seen roots"
| "uniqueRoots_from pr seen (Some root # roots) =
     (let resolvedRoot = path_resolve (process_cwd pr) [root]; key = normalizeForInside pr resolvedRoot
      in if root = [] \<or> key \<in> set seen then uniqueRoots_from pr seen roots
         else resolvedRoot # uniqueRoots_from pr (key # seen) roots)"

definition uniqueRoots :: "process \<Rightarrow> string option list \<Rightarrow> string list" where
  "uniqueRoots pr roots = uniqueRoots_from pr [] roots"

text \<open>
  The list of roots in a variable: split at the delimiter of the platform, a colon, then at line ends; a
  carriage return before a line end is trimmed with the other spaces.
\<close>

definition splitRootList :: "string option \<Rightarrow> string list" where
  "splitRootList value =
     (case value of
        None \<Rightarrow> []
      | Some v \<Rightarrow>
          filter (\<lambda>part. part \<noteq> [])
            (map js_trim (concat (map (split_at_char NL) (split_at_char (CHR '':'') v)))))"

record core_env =
  PRODUCT_CORE_ROOT :: "string option"
  INSTALL_ROOT :: "string option"
  PRODUCT_CORE_ROOTS :: "string option"
  ALLOW_PRODUCT_CORE_MUTATION :: "string option"
  DEV_ALLOW_CORE_MUTATION :: "string option"

definition getProductCoreGuardRootsFromEnv :: "process \<Rightarrow> core_env \<Rightarrow> string list" where
  "getProductCoreGuardRootsFromEnv pr env =
     uniqueRoots pr ([PRODUCT_CORE_ROOT env, INSTALL_ROOT env] @ map Some (splitRootList (PRODUCT_CORE_ROOTS env)))"

definition isProductCoreGuardBypassed :: "core_env \<Rightarrow> bool" where
  "isProductCoreGuardBypassed env \<longleftrightarrow>
     ALLOW_PRODUCT_CORE_MUTATION env = Some ''1'' \<or> DEV_ALLOW_CORE_MUTATION env = Some ''1''"

definition evaluateProductCoreGuard ::
  "process \<Rightarrow> string \<Rightarrow> access_action \<Rightarrow> string list \<Rightarrow> bool \<Rightarrow> policy_decision" where
  "evaluateProductCoreGuard pr path action roots allowCoreMutation =
     (let normalized = path_resolve (process_cwd pr) [path] in
      case find (isInside pr normalized) (uniqueRoots pr (map Some roots)) of
        None \<Rightarrow> productCoreDecision True ''path is outside DSXU product core roots'' normalized action None
      | Some root \<Rightarrow>
          if action = ReadAction
          then productCoreDecision True ''read inside DSXU product core is allowed'' normalized action (Some root)
          else if allowCoreMutation
          then productCoreDecision True ''explicit DSXU product-core mutation override is enabled'' normalized action (Some root)
          else productCoreDecision False ''write/execute inside DSXU product core root is blocked by Product Core Guard''
                 normalized action (Some root))"

section \<open>Tool permissions\<close>

datatype tool_access = ReadOnly | WriteLocal | WriteExternal
datatype dsxu_decision = DsxuAllow | DsxuWarn | DsxuBlock | DsxuConfirm
datatype risk_level = LowRisk | MediumRisk | HighRisk | CriticalRisk

record dsxu_permission =
  schemaId :: string
  dsxu_verdict :: dsxu_decision
  riskLevel :: risk_level
  dsxu_reason :: string

definition evaluateDSXUToolPermission ::
  "tool_access \<Rightarrow> bool option \<Rightarrow> bool \<Rightarrow> bool \<Rightarrow> string option \<Rightarrow> dsxu_permission" where
  "evaluateDSXUToolPermission access allows requiresConfirmation hasExternalEffect why =
     (if hasExternalEffect \<or> access = WriteExternal
      then \<lparr>schemaId = ''dsxu.permission.external'',
            dsxu_verdict = (if allows = Some True then DsxuConfirm else DsxuBlock), riskLevel = HighRisk,
            dsxu_reason = or_text why ''external side effect requires DSXU governance approval''\<rparr>
      else if requiresConfirmation \<or> access = WriteLocal
      then \<lparr>schemaId = ''dsxu.permission.write-local'', dsxu_verdict = DsxuConfirm, riskLevel = MediumRisk,
            dsxu_reason = or_text why ''workspace write requires explicit DSXU confirmation''\<rparr>
      else \<lparr>schemaId = ''dsxu.permission.read-only'',
            dsxu_verdict = (if allows = Some False then DsxuWarn else DsxuAllow),
            riskLevel = (if allows = Some False then MediumRisk else LowRisk),
            dsxu_reason = or_text why (if allows = Some False then ''permission confidence degraded''
                                       else ''read-only operation allowed'')\<rparr>)"

section \<open>The test is exact\<close>

lemma no_backslash_join:
  "(\<And>s. s \<in> set ss \<Longrightarrow> BS \<notin> set s) \<Longrightarrow> BS \<notin> set (join_path ss)"
  by (induction "''/''" ss rule: js_join.induct) auto

lemma norm_no_backslash: "BS \<notin> set p \<Longrightarrow> x \<in> set (norm_segments False p) \<Longrightarrow> BS \<notin> set x"
proof -
  assume p: "BS \<notin> set p" "x \<in> set (norm_segments False p)"
  have "set (norm_step False acc s) \<subseteq> set acc \<union> {s}" for acc s
    by (auto simp: norm_step_def dest: in_set_butlastD)
  then have "set (foldl (norm_step False) acc ss) \<subseteq> set acc \<union> set ss" for acc ss
    by (induction ss arbitrary: acc) (simp, fastforce)
  from this [of "[]" "segments p"] have "x \<in> set (segments p)" using p(2) by (auto simp: norm_segments_def)
  then show "BS \<notin> set x" using p(1) split_char_subset by blast
qed

lemma normalizeForInside_segments:
  assumes "is_absolute p" "BS \<notin> set p"
  shows "normalizeForInside pr p @ ''/'' = ''/'' @ terminated (norm_segments False p)"
proof (cases "norm_segments False p = []")
  case True
  then show ?thesis
    by (simp add: normalizeForInside_def resolve_absolute assms terminated_def)
next
  case False
  let ?ss = "norm_segments False p"
  have clean: "s \<in> set ?ss \<Longrightarrow> clean_segment s" for s by (rule norm_segments_clean)
  have j: "join_path ?ss \<noteq> []" "last (join_path ?ss) \<in> set (last ?ss)"
    by (rule clean_join_last [OF clean False], assumption)+
  have "last ?ss \<in> set ?ss" using False by simp
  then have "CHR ''/'' \<notin> set (last ?ss)" "BS \<notin> set (last ?ss)"
    using clean norm_no_backslash [OF assms(2)] unfolding clean_segment_def by blast+
  then have "last (join_path ?ss) \<noteq> CHR ''/''" "last (join_path ?ss) \<noteq> BS" using j(2) by metis+
  then have "normalizeForInside pr p = ''/'' @ join_path ?ss"
    using j(1) by (cases "rev (join_path ?ss)")
      (auto simp: normalizeForInside_def resolve_absolute assms(1) last_rev hd_rev [symmetric])
  then show ?thesis using join_terminated [OF False] by simp
qed

lemma isInside_prefix:
  assumes "is_absolute t" "BS \<notin> set t" "is_absolute r" "BS \<notin> set r"
  shows "isInside pr t r \<longleftrightarrow> prefix (norm_segments False r) (norm_segments False t)"
proof -
  let ?t = "normalizeForInside pr t" and ?r = "normalizeForInside pr r"
  have "BS \<notin> set (terminated (norm_segments False t))"
    using norm_no_backslash [OF assms(2)] by (auto simp: terminated_def)
  then have "BS \<notin> set (?t @ ''/'')" using normalizeForInside_segments [OF assms(1,2), of pr] by simp
  then have "\<not> starts_with (?r @ [BS]) ?t" by (auto simp: starts_with_prefix dest: set_mono_prefix)
  then have "isInside pr t r \<longleftrightarrow> prefix (?r @ ''/'') (?t @ ''/'')"
    unfolding isInside_def Let_def at_or_below [symmetric] by blast
  also have "\<dots> \<longleftrightarrow> prefix (terminated (norm_segments False r)) (terminated (norm_segments False t))"
    by (simp add: normalizeForInside_segments assms)
  also have "\<dots> \<longleftrightarrow> prefix (norm_segments False r) (norm_segments False t)"
    using norm_segments_clean by (intro terminated_prefix) (auto simp: clean_segment_def)
  finally show ?thesis .
qed

end
