(* ===== verification/Session_Paths.thy ===== *)
theory Session_Paths
  imports Permission_Gate Workspace_Policy
begin

text \<open>
  The paths that belong to a session: configuration, settings, plans, memories and temporary files, as
  \<open>src/utils/permissions/filesystem.ts\<close>, \<open>src/memdir/paths.ts\<close>, \<open>src/tools/AgentTool/agentMemory.ts\<close>
  and \<open>src/utils/settings/settings.ts\<close> compute them from the environment.  The environment is a record;
  the matcher of ignore patterns, a third-party package, is one of its fields: it answers the pattern
  that ignores a relative path, if any, or throws.
\<close>

section \<open>The environment\<close>

record harness =
  proc :: process
  disk :: file_system
  ruleFeatures :: features
  ignoreTest :: "string list \<Rightarrow> string \<Rightarrow> string + string option"
  dsxuRuntime :: bool
  configHome :: string
  archivedConfigHome :: string
  coworkSettings :: bool
  managedSettingsFile :: string
  flagSettingsFile :: "string option"
  plansDirectory :: string
  planSlug :: string
  pathHash :: "string \<Rightarrow> string"
  sessionId :: string
  scratchpadGate :: bool
  tmpdirEnv :: "string option"
  archivedTmpdirEnv :: "string option"
  uid :: nat
  productVersion :: string
  processNonce :: string
  templatesFeature :: bool
  jobDirEnv :: "string option"
  coreEnv :: core_env
  remoteMemoryDir :: "string option"
  memoryPathOverride :: "string option"
  autoMemoryDirectory :: "rule_source \<Rightarrow> string option"
  canonicalGitRoot :: "string option"
  projectRoot :: string

text \<open>The directories of the process.\<close>

abbreviation home_of :: "harness \<Rightarrow> string" where "home_of h \<equiv> homedir (proc h)"
abbreviation cwd_of :: "harness \<Rightarrow> string" where "cwd_of h \<equiv> cwd (proc h)"
abbreviation originalCwd_of :: "harness \<Rightarrow> string" where "originalCwd_of h \<equiv> originalCwd (proc h)"

definition expand :: "harness \<Rightarrow> string \<Rightarrow> string + string" where
  "expand h p = expandPath (proc h) p"

definition checkedPaths :: "harness \<Rightarrow> string \<Rightarrow> string list" where
  "checkedPaths h p = getPathsForPermissionCheck (proc h) (disk h) p"

definition DSXU_CONFIG_DIR_NAME :: string where
  "DSXU_CONFIG_DIR_NAME = ''.dsxu''"

definition ARCHIVED_CONFIG_DIR_NAME :: string where
  "ARCHIVED_CONFIG_DIR_NAME = ''.claude''"

definition getRuntimeConfigHomeDir :: "harness \<Rightarrow> string" where
  "getRuntimeConfigHomeDir h = (if dsxuRuntime h then configHome h else archivedConfigHome h)"

section \<open>Settings files\<close>

definition getSettingsRootPathForSource :: "harness \<Rightarrow> rule_source \<Rightarrow> string" where
  "getSettingsRootPathForSource h s =
     (let resolve = (\<lambda>p. path_resolve (process_cwd (proc h)) [p])
      in case s of
        UserSettings \<Rightarrow> resolve (getRuntimeConfigHomeDir h)
      | FlagSettings \<Rightarrow>
          (case flagSettingsFile h of
             Some f \<Rightarrow> if f \<noteq> [] then path_dirname (resolve f) else resolve (originalCwd_of h)
           | None \<Rightarrow> resolve (originalCwd_of h))
      | _ \<Rightarrow> resolve (originalCwd_of h))"

definition getSettingsFilePathForSource :: "harness \<Rightarrow> rule_source \<Rightarrow> string option" where
  "getSettingsFilePathForSource h s =
     (case s of
        UserSettings \<Rightarrow>
          Some (path_join [getSettingsRootPathForSource h s,
            if coworkSettings h then ''cowork_settings.json'' else ''settings.json''])
      | ProjectSettings \<Rightarrow>
          Some (path_join [getSettingsRootPathForSource h s, path_join [''.dsxu'', ''settings.json'']])
      | LocalSettings \<Rightarrow>
          Some (path_join [getSettingsRootPathForSource h s, path_join [''.dsxu'', ''settings.local.json'']])
      | PolicySettings \<Rightarrow> Some (managedSettingsFile h)
      | FlagSettings \<Rightarrow> flagSettingsFile h
      | _ \<Rightarrow> None)"

definition SETTING_SOURCES :: "rule_source list" where
  "SETTING_SOURCES = [UserSettings, ProjectSettings, LocalSettings, FlagSettings, PolicySettings]"

definition getSettingsPaths :: "harness \<Rightarrow> string list" where
  "getSettingsPaths h = List.map_filter (getSettingsFilePathForSource h) SETTING_SOURCES"

section \<open>Plans, projects and temporary files\<close>

definition isSessionPlanFile :: "harness \<Rightarrow> string \<Rightarrow> bool" where
  "isSessionPlanFile h absolutePath \<longleftrightarrow>
     (let normalized = path_normalize absolutePath
      in starts_with (path_join [plansDirectory h, planSlug h]) normalized \<and> ends_with ''.md'' normalized)"

definition getProjectDir :: "harness \<Rightarrow> string \<Rightarrow> string" where
  "getProjectDir h dir =
     path_join [path_join [getRuntimeConfigHomeDir h, ''projects''], sanitizePath (pathHash h) dir]"

definition getSessionMemoryDir :: "harness \<Rightarrow> string" where
  "getSessionMemoryDir h = path_join [getProjectDir h (cwd_of h), sessionId h, ''session-memory''] @ ''/''"

definition getSessionMemoryPath :: "harness \<Rightarrow> string" where
  "getSessionMemoryPath h = path_join [getSessionMemoryDir h, ''summary.md'']"

definition isSessionMemoryPath :: "harness \<Rightarrow> string \<Rightarrow> bool" where
  "isSessionMemoryPath h p \<longleftrightarrow> starts_with (getSessionMemoryDir h) (path_normalize p)"

text \<open>\<open>p === dir || p.startsWith(dir + sep)\<close>.\<close>

definition at_or_inside :: "string \<Rightarrow> string \<Rightarrow> bool" where
  "at_or_inside dir p \<longleftrightarrow> p = dir \<or> starts_with (dir @ ''/'') p"

definition isProjectDirPath :: "harness \<Rightarrow> string \<Rightarrow> bool" where
  "isProjectDirPath h p \<longleftrightarrow> at_or_inside (getProjectDir h (cwd_of h)) (path_normalize p)"

definition getToolResultsDir :: "harness \<Rightarrow> string" where
  "getToolResultsDir h =
     path_join [path_join [getProjectDir h (originalCwd_of h), sessionId h], ''tool-results'']"

definition getDsxuTempDirName :: "harness \<Rightarrow> string" where
  "getDsxuTempDirName h = ''dsxu-'' @ decimal (uid h)"

definition getDsxuTempDir :: "harness \<Rightarrow> string" where
  "getDsxuTempDir h =
     (let base = or_text (tmpdirEnv h) (or_text (archivedTmpdirEnv h) ''/tmp'');
          resolved = (case realpathSync (disk h) base of Some r \<Rightarrow> r | None \<Rightarrow> base)
      in path_join [resolved, getDsxuTempDirName h] @ ''/'')"

definition getBundledSkillsRoot :: "harness \<Rightarrow> string" where
  "getBundledSkillsRoot h =
     path_join [getDsxuTempDir h, ''bundled-skills'', productVersion h, processNonce h]"

definition getProjectTempDir :: "harness \<Rightarrow> string" where
  "getProjectTempDir h = path_join [getDsxuTempDir h, sanitizePath (pathHash h) (originalCwd_of h)] @ ''/''"

definition getScratchpadDir :: "harness \<Rightarrow> string" where
  "getScratchpadDir h = path_join [getProjectTempDir h, sessionId h, ''scratchpad'']"

definition isScratchpadPath :: "harness \<Rightarrow> string \<Rightarrow> bool" where
  "isScratchpadPath h p \<longleftrightarrow> scratchpadGate h \<and> at_or_inside (getScratchpadDir h) (path_normalize p)"

section \<open>Memories\<close>

definition getMemoryBaseDir :: "harness \<Rightarrow> string" where
  "getMemoryBaseDir h = or_text (remoteMemoryDir h) (configHome h)"

definition letter :: "char \<Rightarrow> bool" where
  "letter c \<longleftrightarrow> c \<in> set ''abcdefghijklmnopqrstuvwxyzABCDEFGHIJKLMNOPQRSTUVWXYZ''"

definition strip_separators :: "string \<Rightarrow> string" where
  "strip_separators p = rev (dropWhile (\<lambda>c. c = CHR ''/'' \<or> c = BS) (rev p))"

definition acceptable_memory_path :: "string \<Rightarrow> string option" where
  "acceptable_memory_path candidate =
     (let normalized = strip_separators (path_normalize candidate)
      in if \<not> is_absolute normalized \<or> length normalized < 3 \<or>
            (case normalized of [c, d] \<Rightarrow> letter c \<and> d = CHR '':'' | _ \<Rightarrow> False) \<or>
            unc_path normalized \<or> CHR 0x00 \<in> set normalized
         then None else Some (normalized @ ''/''))"

definition validateMemoryPath :: "harness \<Rightarrow> string option \<Rightarrow> bool \<Rightarrow> string option" where
  "validateMemoryPath h raw expandTilde =
     (case raw of
        None \<Rightarrow> None
      | Some candidate \<Rightarrow>
          if candidate = [] then None
          else if expandTilde \<and> (starts_with ''~/'' candidate \<or> starts_with [CHR ''~'', BS] candidate)
          then (let rest = drop 2 candidate;
                    restNorm = path_normalize (if rest = [] then ''.'' else rest)
                in if restNorm = ''.'' \<or> restNorm = ''..'' then None
                   else acceptable_memory_path (path_join [home_of h, rest]))
          else acceptable_memory_path candidate)"

definition getAutoMemPathOverride :: "harness \<Rightarrow> string option" where
  "getAutoMemPathOverride h = validateMemoryPath h (memoryPathOverride h) False"

definition hasAutoMemPathOverride :: "harness \<Rightarrow> bool" where
  "hasAutoMemPathOverride h \<longleftrightarrow> getAutoMemPathOverride h \<noteq> None"

definition first_some :: "'a option list \<Rightarrow> 'a option" where
  "first_some xs = (case List.map_filter (\<lambda>x. x) xs of [] \<Rightarrow> None | x # _ \<Rightarrow> Some x)"

definition getAutoMemPathSetting :: "harness \<Rightarrow> string option" where
  "getAutoMemPathSetting h =
     validateMemoryPath h
       (first_some (map (autoMemoryDirectory h) [PolicySettings, FlagSettings, LocalSettings, UserSettings])) True"

definition getAutoMemBase :: "harness \<Rightarrow> string" where
  "getAutoMemBase h = (case canonicalGitRoot h of Some r \<Rightarrow> r | None \<Rightarrow> projectRoot h)"

definition getAutoMemPath :: "harness \<Rightarrow> string" where
  "getAutoMemPath h =
     (case first_some [getAutoMemPathOverride h, getAutoMemPathSetting h] of
        Some p \<Rightarrow> p
      | None \<Rightarrow> path_join [path_join [getMemoryBaseDir h, ''projects''],
                  sanitizePath (pathHash h) (getAutoMemBase h), ''memory''] @ ''/'')"

definition isAutoMemPath :: "harness \<Rightarrow> string \<Rightarrow> bool" where
  "isAutoMemPath h p \<longleftrightarrow> starts_with (getAutoMemPath h) (path_normalize p)"

definition getProjectStateDirName :: "harness \<Rightarrow> string" where
  "getProjectStateDirName h = (if dsxuRuntime h then ''.dsxu'' else ''.claude'')"

definition includes_text :: "string \<Rightarrow> string \<Rightarrow> bool" where
  "includes_text t s \<longleftrightarrow> list_ex (\<lambda>i. starts_with t (drop i s)) [0..<Suc (length s)]"

definition isAgentMemoryPath :: "harness \<Rightarrow> string \<Rightarrow> bool" where
  "isAgentMemoryPath h absolutePath \<longleftrightarrow>
     (let p = path_normalize absolutePath
      in starts_with (path_join [getMemoryBaseDir h, ''agent-memory''] @ ''/'') p \<or>
         starts_with (path_join [cwd_of h, getProjectStateDirName h, ''agent-memory''] @ ''/'') p \<or>
         (if or_text (remoteMemoryDir h) [] \<noteq> []
          then includes_text ''/agent-memory-local/'' p \<and>
               starts_with (path_join [or_text (remoteMemoryDir h) [], ''projects''] @ ''/'') p
          else starts_with (path_join [cwd_of h, getProjectStateDirName h, ''agent-memory-local''] @ ''/'') p))"

end
