(* ===== verification/File_Permissions.thy ===== *)
theory File_Permissions
  imports Session_Paths
begin

text \<open>
  The permission checks of the tools that read and write files,
  \<open>src/utils/permissions/filesystem.ts\<close>, on POSIX platforms.  A check may throw, on a path with a null
  byte or when the matcher of ignore patterns rejects a path; it returns a sum.
\<close>

section \<open>Dangerous names\<close>

definition ARCHIVED_CONFIG_FILE_NAME :: string where
  "ARCHIVED_CONFIG_FILE_NAME = ARCHIVED_CONFIG_DIR_NAME @ ''.json''"

definition DANGEROUS_FILES :: "string list" where
  "DANGEROUS_FILES =
     [''.gitconfig'', ''.gitmodules'', ''.bashrc'', ''.bash_profile'', ''.zshrc'', ''.zprofile'', ''.profile'',
      ''.ripgreprc'', ''.mcp.json'', ''.dsxu.json'', ARCHIVED_CONFIG_FILE_NAME]"

definition DANGEROUS_DIRECTORIES :: "string list" where
  "DANGEROUS_DIRECTORIES = [''.git'', ''.vscode'', ''.idea'', DSXU_CONFIG_DIR_NAME, ARCHIVED_CONFIG_DIR_NAME]"

definition normalizeCaseForComparison :: "string \<Rightarrow> string" where
  "normalizeCaseForComparison p = toLowerCase p"

text \<open>
  The loop over the segments: a configuration directory that \<open>worktrees\<close> follows is skipped.
\<close>

fun dangerous_segments :: "string list \<Rightarrow> bool" where
  "dangerous_segments [] = False"
| "dangerous_segments (segment # rest) =
     (case find (\<lambda>dir. normalizeCaseForComparison segment = normalizeCaseForComparison dir) DANGEROUS_DIRECTORIES of
        None \<Rightarrow> dangerous_segments rest
      | Some dir \<Rightarrow>
          if (dir = DSXU_CONFIG_DIR_NAME \<or> dir = ARCHIVED_CONFIG_DIR_NAME) \<and>
             (case rest of [] \<Rightarrow> False | next # _ \<Rightarrow> next \<noteq> [] \<and> normalizeCaseForComparison next = ''worktrees'')
          then dangerous_segments rest else True)"

definition isDangerousFilePathToAutoEdit :: "harness \<Rightarrow> string \<Rightarrow> string + bool" where
  "isDangerousFilePathToAutoEdit h path =
     and_then (expand h path) (\<lambda>absolutePath.
       let pathSegments = segments absolutePath; fileName = last pathSegments
       in Inr (unc_path path \<or> dangerous_segments pathSegments \<or>
               fileName \<noteq> [] \<and>
               list_ex (\<lambda>f. normalizeCaseForComparison f = normalizeCaseForComparison fileName) DANGEROUS_FILES))"

section \<open>Suspicious names\<close>

definition has_short_name :: "string \<Rightarrow> bool" where
  "has_short_name p \<longleftrightarrow>
     list_ex (\<lambda>i. p ! i = CHR ''~'' \<and> is_digit_char (p ! Suc i)) [0..<length p - 1]"

definition DOS_DEVICES :: "string list" where
  "DOS_DEVICES =
     [''con'', ''prn'', ''aux'', ''nul'',
      ''com1'', ''com2'', ''com3'', ''com4'', ''com5'', ''com6'', ''com7'', ''com8'', ''com9'',
      ''lpt1'', ''lpt2'', ''lpt3'', ''lpt4'', ''lpt5'', ''lpt6'', ''lpt7'', ''lpt8'', ''lpt9'']"

text \<open>\<open>containsVulnerableUncPath\<close> answers \<open>false\<close> on every POSIX platform.\<close>

definition hasSuspiciousWindowsPathPattern :: "platform \<Rightarrow> string \<Rightarrow> bool" where
  "hasSuspiciousWindowsPathPattern pf path \<longleftrightarrow>
     pf = Wsl \<and> CHR '':'' \<in> set (drop 2 path) \<or>
     has_short_name path \<or>
     starts_with [BS, BS, CHR ''?'', BS] path \<or> starts_with [BS, BS, CHR ''.'', BS] path \<or>
     starts_with ''//?/'' path \<or> starts_with ''//./'' path \<or>
     path \<noteq> [] \<and> (last path = CHR ''.'' \<or> is_js_space (last path)) \<or>
     list_ex (\<lambda>d. ends_with (CHR ''.'' # d) (toLowerCase path)) DOS_DEVICES \<or>
     list_ex (\<lambda>c. 3 \<le> length c \<and> set c \<subseteq> {CHR ''.''}) (split_separators path)"

section \<open>Working directories\<close>

text \<open>The aliases of two system directories on one of the platforms, by regular expressions.\<close>

definition mac_alias :: "string \<Rightarrow> string" where
  "mac_alias p =
     (let q = (if starts_with ''/private/var/'' p then ''/var/'' @ drop 13 p else p)
      in if starts_with ''/private/tmp/'' q then ''/tmp/'' @ drop 13 q
         else if q = ''/private/tmp'' then ''/tmp'' else q)"

definition relativePath :: "harness \<Rightarrow> string \<Rightarrow> string \<Rightarrow> string" where
  "relativePath h base target = path_relative (process_cwd (proc h)) base target"

definition pathInWorkingPath :: "harness \<Rightarrow> string \<Rightarrow> string \<Rightarrow> string + bool" where
  "pathInWorkingPath h path workingPath =
     and_then (expand h path) (\<lambda>absolutePath.
     and_then (expand h workingPath) (\<lambda>absoluteWorkingPath.
       let relative = relativePath h (normalizeCaseForComparison (mac_alias absoluteWorkingPath))
                        (normalizeCaseForComparison (mac_alias absolutePath))
       in Inr (if relative = [] then True
               else if containsPathTraversal relative then False
               else \<not> is_absolute relative)))"

definition allWorkingDirectories :: "harness \<Rightarrow> tool_context \<Rightarrow> string list" where
  "allWorkingDirectories h ctx =
     foldl (\<lambda>dirs d. set_add d dirs) [originalCwd_of h] (map fst (additionalWorkingDirectories ctx))"

definition pathInAllowedWorkingPath :: "harness \<Rightarrow> tool_context \<Rightarrow> string list \<Rightarrow> string + bool" where
  "pathInAllowedWorkingPath h ctx pathsToCheck =
     (let workingPaths = concat (map (checkedPaths h) (allWorkingDirectories h ctx))
      in all_throw (\<lambda>p. exists_throw (\<lambda>w. pathInWorkingPath h p w) workingPaths) pathsToCheck)"

section \<open>Configuration files\<close>

definition isDsxuSettingsPath :: "harness \<Rightarrow> string \<Rightarrow> string + bool" where
  "isDsxuSettingsPath h filePath =
     and_then (expand h filePath) (\<lambda>expandedPath.
       let p = normalizeCaseForComparison expandedPath
       in Inr (ends_with ''/.dsxu/settings.json'' p \<or> ends_with ''/.dsxu/settings.local.json'' p \<or>
               ends_with (''/'' @ ARCHIVED_CONFIG_DIR_NAME @ ''/settings.json'') p \<or>
               ends_with (''/'' @ ARCHIVED_CONFIG_DIR_NAME @ ''/settings.local.json'') p \<or>
               list_ex (\<lambda>s. normalizeCaseForComparison s = p) (getSettingsPaths h)))"

definition protected_dirs :: "harness \<Rightarrow> string list" where
  "protected_dirs h =
     concat (map (\<lambda>configDir. map (\<lambda>sub. path_join [originalCwd_of h, configDir, sub])
         [''commands'', ''agents'', ''skills''])
       [DSXU_CONFIG_DIR_NAME, ARCHIVED_CONFIG_DIR_NAME])"

definition isDsxuConfigFilePath :: "harness \<Rightarrow> string \<Rightarrow> string + bool" where
  "isDsxuConfigFilePath h filePath =
     and_then (isDsxuSettingsPath h filePath) (\<lambda>b.
       if b then Inr True else exists_throw (\<lambda>dir. pathInWorkingPath h filePath dir) (protected_dirs h))"

text \<open>
  The skill that a file belongs to, with a pattern for the rule that covers it; the loop over the two
  separators runs twice with the same one.
\<close>

definition skill_bases :: "harness \<Rightarrow> (string \<times> string) list" where
  "skill_bases h =
     [(path_join [originalCwd_of h, DSXU_CONFIG_DIR_NAME, ''skills''], ''/.dsxu/skills/''),
      (path_join [configHome h, ''skills''], ''~/.dsxu/skills/''),
      (path_join [originalCwd_of h, ARCHIVED_CONFIG_DIR_NAME, ''skills''],
       ''/'' @ ARCHIVED_CONFIG_DIR_NAME @ ''/skills/''),
      (path_join [home_of h, ARCHIVED_CONFIG_DIR_NAME, ''skills''],
       ''~/'' @ ARCHIVED_CONFIG_DIR_NAME @ ''/skills/'')]"

fun expand_bases :: "harness \<Rightarrow> (string \<times> string) list \<Rightarrow> string + (string \<times> string) list" where
  "expand_bases h [] = Inr []"
| "expand_bases h ((dir, pre) # bases) =
     and_then (expand h dir) (\<lambda>d. and_then (expand_bases h bases) (\<lambda>ds. Inr ((d, pre) # ds)))"

definition glob_char :: "char \<Rightarrow> bool" where
  "glob_char c \<longleftrightarrow> c \<in> set ''*?[]''"

definition skill_in_base :: "string \<Rightarrow> string \<Rightarrow> string \<Rightarrow> (string \<times> string) option" where
  "skill_in_base absolutePath dir pre =
     (let rest = drop (length dir + 1) absolutePath;
          skillName = takeWhile (\<lambda>c. c \<noteq> CHR ''/'') rest
      in if CHR ''/'' \<notin> set rest \<or> skillName = [] then None
         else if skillName = ''.'' \<or> includes_text ''..'' skillName then None
         else if list_ex glob_char skillName then None
         else Some (skillName, pre @ skillName @ ''/**''))"

definition getDsxuSkillScope :: "harness \<Rightarrow> string \<Rightarrow> string + (string \<times> string) option" where
  "getDsxuSkillScope h filePath =
     and_then (expand h filePath) (\<lambda>absolutePath.
     and_then (expand_bases h (skill_bases h)) (\<lambda>bases.
       Inr (case find (\<lambda>(dir, pre). starts_with (normalizeCaseForComparison dir @ ''/'')
                         (normalizeCaseForComparison absolutePath)) bases of
              None \<Rightarrow> None
            | Some (dir, pre) \<Rightarrow> skill_in_base absolutePath dir pre)))"

section \<open>Safety\<close>

datatype path_safety = SafePath | UnsafePath string bool

definition product_core_block :: "harness \<Rightarrow> string list \<Rightarrow> string option" where
  "product_core_block h pathsToCheck =
     (let roots = getProductCoreGuardRootsFromEnv (proc h) (coreEnv h)
      in if roots = [] then None
         else first_some (map (\<lambda>p.
           let g = evaluateProductCoreGuard (proc h) p WriteAction roots (isProductCoreGuardBypassed (coreEnv h))
           in if policy_allowed g then None else matchedRoot g) pathsToCheck))"

definition checkPathSafetyForAutoEdit :: "harness \<Rightarrow> string \<Rightarrow> string list \<Rightarrow> string + path_safety" where
  "checkPathSafetyForAutoEdit h path pathsToCheck =
     (case product_core_block h pathsToCheck of
        Some root \<Rightarrow>
          Inr (UnsafePath (''DSXU requested permissions to edit '' @ path @
            '', but it is inside the DSXU product core root ('' @ root @
            ''). Product Core Guard blocks project work from mutating DSXU core files.'') False)
      | None \<Rightarrow>
          if list_ex (hasSuspiciousWindowsPathPattern (platform (proc h))) pathsToCheck
          then Inr (UnsafePath (''DSXU requested permissions to write to '' @ path @
            '', which contains a suspicious Windows path pattern that requires manual approval.'') False)
          else
            and_then (exists_throw (isDsxuConfigFilePath h) pathsToCheck) (\<lambda>config.
              if config
              then Inr (UnsafePath (''DSXU requested permissions to write to '' @ path @
                '', but you haven't granted it yet.'') True)
              else
                and_then (exists_throw (isDangerousFilePathToAutoEdit h) pathsToCheck) (\<lambda>dangerous.
                  Inr (if dangerous
                    then UnsafePath (''DSXU requested permissions to edit '' @ path @
                      '' which is a sensitive file.'') True
                    else SafePath))))"

section \<open>Rules as ignore patterns\<close>

definition rootPathForSource :: "harness \<Rightarrow> rule_source \<Rightarrow> string + string" where
  "rootPathForSource h s =
     (case s of
        CliArg \<Rightarrow> expand h (originalCwd_of h)
      | CommandSource \<Rightarrow> expand h (originalCwd_of h)
      | Session \<Rightarrow> expand h (originalCwd_of h)
      | _ \<Rightarrow> Inr (getSettingsRootPathForSource h s))"

definition prependDirSep :: "string \<Rightarrow> string" where
  "prependDirSep p = path_join [''/'', p]"

definition normalizePatternToPath :: "harness \<Rightarrow> string \<Rightarrow> string \<Rightarrow> string \<Rightarrow> string option" where
  "normalizePatternToPath h patternRoot pattern rootPath =
     (let fullPattern = path_join [patternRoot, pattern]
      in if patternRoot = rootPath then Some (prependDirSep pattern)
         else if starts_with (rootPath @ ''/'') fullPattern
         then Some (prependDirSep (drop (length rootPath) fullPattern))
         else (let rel = path_relative (process_cwd (proc h)) rootPath patternRoot
               in if rel = [] \<or> starts_with ''../'' rel \<or> rel = ''..'' then None
                  else Some (prependDirSep (path_join [rel, pattern]))))"

text \<open>A map from roots to patterns, \<open>None\<close> the absent root; its entries are in insertion order.\<close>

definition normalizePatternsToPath :: "harness \<Rightarrow> (string option \<times> string list) list \<Rightarrow> string \<Rightarrow> string list" where
  "normalizePatternsToPath h patternsByRoot root =
     foldl (\<lambda>result (patternRoot, patterns).
         case patternRoot of
           None \<Rightarrow> result
         | Some r \<Rightarrow> foldl (\<lambda>result p. case normalizePatternToPath h r p root of
                 None \<Rightarrow> result | Some q \<Rightarrow> set_add q result) result patterns)
       (foldl (\<lambda>result p. set_add p result) []
         (case map_of patternsByRoot None of None \<Rightarrow> [] | Some ps \<Rightarrow> ps))
       patternsByRoot"

definition patternWithRoot :: "harness \<Rightarrow> string \<Rightarrow> rule_source \<Rightarrow> string + (string \<times> string option)" where
  "patternWithRoot h pattern s =
     (if starts_with ''//'' pattern then Inr (drop 1 pattern, Some ''/'')
      else if starts_with ''~/'' pattern then Inr (drop 1 pattern, Some (home_of h))
      else if starts_with ''/'' pattern then
        and_then (rootPathForSource h s) (\<lambda>root. Inr (pattern, Some root))
      else Inr (if starts_with ''./'' pattern then drop 2 pattern else pattern, None))"

datatype file_access = EditAccess | ReadAccess

definition FILE_EDIT_TOOL_NAME :: string where "FILE_EDIT_TOOL_NAME = ''Edit''"
definition FILE_READ_TOOL_NAME :: string where "FILE_READ_TOOL_NAME = ''Read''"

definition tool_of_access :: "file_access \<Rightarrow> string" where
  "tool_of_access a = (case a of EditAccess \<Rightarrow> FILE_EDIT_TOOL_NAME | ReadAccess \<Rightarrow> FILE_READ_TOOL_NAME)"

type_synonym rules_by_root = "(string option \<times> (string \<times> permission_rule) list) list"

definition add_pattern :: "string option \<Rightarrow> string \<Rightarrow> permission_rule \<Rightarrow> rules_by_root \<Rightarrow> rules_by_root" where
  "add_pattern root relativePattern rule m =
     AList.update root
       (AList.update relativePattern rule (case map_of m root of None \<Rightarrow> [] | Some ps \<Rightarrow> ps)) m"

fun group_by_root ::
  "harness \<Rightarrow> (string \<times> permission_rule) list \<Rightarrow> rules_by_root \<Rightarrow> string + rules_by_root" where
  "group_by_root h [] m = Inr m"
| "group_by_root h ((pattern, rule) # rules) m =
     and_then (patternWithRoot h pattern (source rule)) (\<lambda>(relativePattern, root).
       group_by_root h rules (add_pattern root relativePattern rule m))"

definition getPatternsByRoot ::
  "harness \<Rightarrow> tool_context \<Rightarrow> file_access \<Rightarrow> permission_behavior \<Rightarrow> string + rules_by_root" where
  "getPatternsByRoot h ctx access behavior =
     group_by_root h (getRuleByContentsForToolName (ruleFeatures h) ctx (tool_of_access access) behavior) []"

definition getFileReadIgnorePatterns ::
  "harness \<Rightarrow> tool_context \<Rightarrow> string + (string option \<times> string list) list" where
  "getFileReadIgnorePatterns h ctx =
     and_then (getPatternsByRoot h ctx ReadAccess Deny) (\<lambda>m.
       Inr (map (\<lambda>(root, patternMap). (root, map fst patternMap)) m))"

definition adjust_pattern :: "string \<Rightarrow> string" where
  "adjust_pattern p = (if ends_with ''/**'' p then take (length p - 3) p else p)"

text \<open>One root: whether its patterns match, and the rule of the pattern that matched, if it is found.\<close>

definition match_root ::
  "harness \<Rightarrow> string \<Rightarrow> string option \<Rightarrow> (string \<times> permission_rule) list \<Rightarrow>
     string + permission_rule option option" where
  "match_root h file root patternMap =
     (let rel = relativePath h (case root of Some r \<Rightarrow> r | None \<Rightarrow> cwd_of h) file
      in if starts_with ''../'' rel then Inr None
         else if rel = [] then Inr None
         else
           and_then (ignoreTest h (map (\<lambda>p. adjust_pattern (fst p)) patternMap) rel) (\<lambda>hit.
             Inr (case hit of
                    None \<Rightarrow> None
                  | Some original \<Rightarrow>
                      (case map_of patternMap (original @ ''/**'') of
                         Some rule \<Rightarrow> Some (Some rule)
                       | None \<Rightarrow> Some (map_of patternMap original)))))"

definition matchingRuleForInput ::
  "harness \<Rightarrow> string \<Rightarrow> tool_context \<Rightarrow> file_access \<Rightarrow> permission_behavior \<Rightarrow>
     string + permission_rule option" where
  "matchingRuleForInput h path ctx access behavior =
     and_then (expand h path) (\<lambda>file.
     and_then (getPatternsByRoot h ctx access behavior) (\<lambda>patternsByRoot.
     and_then (find_throw (\<lambda>(root, patternMap). match_root h file root patternMap) patternsByRoot) (\<lambda>hit.
       Inr (case hit of None \<Rightarrow> None | Some r \<Rightarrow> r))))"

text \<open>The first rule that matches one of the paths.\<close>

definition rule_for_paths ::
  "harness \<Rightarrow> string list \<Rightarrow> tool_context \<Rightarrow> file_access \<Rightarrow> permission_behavior \<Rightarrow>
     string + permission_rule option" where
  "rule_for_paths h paths ctx access behavior =
     find_throw (\<lambda>p. matchingRuleForInput h p ctx access behavior) paths"

section \<open>Internal paths\<close>

definition internal_allow :: "'i \<Rightarrow> string \<Rightarrow> 'i permission_result" where
  "internal_allow input why = PAllow (Some input) (Some (OtherReason why))"

definition inside_job_dir :: "harness \<Rightarrow> string \<Rightarrow> bool" where
  "inside_job_dir h absolutePath \<longleftrightarrow>
     templatesFeature h \<and> or_text (jobDirEnv h) [] \<noteq> [] \<and>
     (let jobDirForms = map path_normalize (checkedPaths h (or_text (jobDirEnv h) []));
          jobsRootForms = map path_normalize (checkedPaths h (path_join [configHome h, ''jobs'']))
      in list_all (\<lambda>jd. list_ex (\<lambda>jr. starts_with (jr @ ''/'') jd) jobsRootForms) jobDirForms \<and>
         list_all (\<lambda>p. list_ex (\<lambda>jd. at_or_inside jd (path_normalize p)) jobDirForms)
           (checkedPaths h absolutePath))"

definition checkEditableInternalPath :: "harness \<Rightarrow> string \<Rightarrow> 'i \<Rightarrow> 'i permission_result" where
  "checkEditableInternalPath h absolutePath input =
     (let normalized = path_normalize absolutePath
      in if isSessionPlanFile h normalized
         then internal_allow input ''Plan files for current session are allowed for writing''
         else if isScratchpadPath h normalized
         then internal_allow input ''Scratchpad files for current session are allowed for writing''
         else if inside_job_dir h absolutePath
         then internal_allow input ''Job directory files for current job are allowed for writing''
         else if isAgentMemoryPath h normalized
         then internal_allow input ''Agent memory files are allowed for writing''
         else if \<not> hasAutoMemPathOverride h \<and> isAutoMemPath h normalized
         then internal_allow input ''auto memory files are allowed for writing''
         else if normalizeCaseForComparison normalized =
                 normalizeCaseForComparison (path_join [originalCwd_of h, DSXU_CONFIG_DIR_NAME, ''launch.json''])
         then internal_allow input ''Preview launch config is allowed for writing''
         else PPassthrough [] None None None)"

definition checkReadableInternalPath :: "harness \<Rightarrow> string \<Rightarrow> 'i \<Rightarrow> 'i permission_result" where
  "checkReadableInternalPath h absolutePath input =
     (let normalized = path_normalize absolutePath;
          toolResultsDir = getToolResultsDir h;
          toolResultsDirWithSep = (if ends_with ''/'' toolResultsDir then toolResultsDir else toolResultsDir @ ''/'');
          tasksDir = path_join [configHome h, ''tasks''] @ ''/'';
          teamsReadDir = path_join [configHome h, ''teams''] @ ''/''
      in if isSessionMemoryPath h normalized
         then internal_allow input ''Session memory files are allowed for reading''
         else if isProjectDirPath h normalized
         then internal_allow input ''Project directory files are allowed for reading''
         else if isSessionPlanFile h normalized
         then internal_allow input ''Plan files for current session are allowed for reading''
         else if normalized = toolResultsDir \<or> starts_with toolResultsDirWithSep normalized
         then internal_allow input ''Tool result files are allowed for reading''
         else if isScratchpadPath h normalized
         then internal_allow input ''Scratchpad files for current session are allowed for reading''
         else if starts_with (getProjectTempDir h) normalized
         then internal_allow input ''Project temp directory files are allowed for reading''
         else if isAgentMemoryPath h normalized
         then internal_allow input ''Agent memory files are allowed for reading''
         else if isAutoMemPath h normalized
         then internal_allow input ''auto memory files are allowed for reading''
         else if normalized = butlast tasksDir \<or> starts_with tasksDir normalized
         then internal_allow input ''Task files are allowed for reading''
         else if normalized = butlast teamsReadDir \<or> starts_with teamsReadDir normalized
         then internal_allow input ''Team files are allowed for reading''
         else if starts_with (getBundledSkillsRoot h @ ''/'') normalized
         then internal_allow input ''Bundled skill reference files are allowed for reading''
         else PPassthrough [] None None None)"

section \<open>Suggestions\<close>

datatype file_operation = ReadOperation | WriteOperation | CreateOperation

definition accept_edits_suggestion :: "tool_context \<Rightarrow> permission_update list" where
  "accept_edits_suggestion ctx =
     (if mode ctx = DefaultMode \<or> mode ctx = PlanMode then [SetMode Session AcceptEdits] else [])"

definition generateSuggestions ::
  "harness \<Rightarrow> string \<Rightarrow> file_operation \<Rightarrow> tool_context \<Rightarrow> string list \<Rightarrow> string + permission_update list" where
  "generateSuggestions h filePath operation ctx pathsToCheck =
     and_then (pathInAllowedWorkingPath h ctx pathsToCheck) (\<lambda>inside.
       if operation = ReadOperation \<and> \<not> inside then
         and_then (getDirectoryForPath (proc h) (disk h) filePath) (\<lambda>dirPath.
           Inr (List.map_filter (\<lambda>dir. createReadRuleSuggestion (\<lambda>p. p) dir Session) (checkedPaths h dirPath)))
       else if operation = WriteOperation \<or> operation = CreateOperation then
         (if \<not> inside then
            and_then (getDirectoryForPath (proc h) (disk h) filePath) (\<lambda>dirPath.
              Inr (accept_edits_suggestion ctx @ [AddDirectories Session (checkedPaths h dirPath)]))
          else Inr (accept_edits_suggestion ctx))
       else Inr (accept_edits_suggestion ctx))"

section \<open>The checks\<close>

record 'i file_tool =
  file_tool_name :: string
  getPath :: "('i \<Rightarrow> string + string) option"

definition requested_access :: "string \<Rightarrow> string \<Rightarrow> string" where
  "requested_access verb path =
     ''DSXU requested permissions to '' @ verb @ '' '' @ path @ '', but you haven't granted it yet.''"

definition requested_tool :: "string \<Rightarrow> 'i permission_result" where
  "requested_tool name =
     PAsk (''DSXU requested permissions to use '' @ name @ '', but you haven't granted it yet.'') None None None None"

definition config_folder_prefixes :: "string list" where
  "config_folder_prefixes =
     map (\<lambda>pattern. take (length pattern - 2) pattern)
       [''/.dsxu/**'', ''~/.dsxu/**'', ''/'' @ ARCHIVED_CONFIG_DIR_NAME @ ''/**'',
        ''~/'' @ ARCHIVED_CONFIG_DIR_NAME @ ''/**'']"

definition config_folder_rule :: "permission_rule \<Rightarrow> bool" where
  "config_folder_rule rule \<longleftrightarrow>
     (case ruleContent (ruleValue rule) of
        None \<Rightarrow> False
      | Some c \<Rightarrow>
          c \<noteq> [] \<and> list_ex (\<lambda>pre. starts_with pre c) config_folder_prefixes \<and>
          \<not> includes_text ''..'' c \<and> ends_with ''/**'' c)"

definition session_rules_only :: "tool_context \<Rightarrow> tool_context" where
  "session_rules_only ctx =
     ctx\<lparr>alwaysAllowRules := (\<lambda>s. if s = Session then alwaysAllowRules ctx Session else [])\<rparr>"

definition deny_by_rule :: "string \<Rightarrow> string \<Rightarrow> permission_rule \<Rightarrow> 'i permission_result" where
  "deny_by_rule verb path rule =
     PDeny (''Permission to '' @ verb @ '' '' @ path @ '' has been denied.'') (RuleReason rule)"

definition ask_by_rule :: "string \<Rightarrow> string \<Rightarrow> permission_rule \<Rightarrow> 'i permission_result" where
  "ask_by_rule verb path rule = PAsk (requested_access verb path) None (Some (RuleReason rule)) None None"

definition allow_by_rule :: "'i \<Rightarrow> permission_rule \<Rightarrow> 'i permission_result" where
  "allow_by_rule input rule = PAllow (Some input) (Some (RuleReason rule))"

text \<open>Steps 1.7 to 5 of the write check.\<close>

definition safety_question ::
  "harness \<Rightarrow> tool_context \<Rightarrow> string \<Rightarrow> string list \<Rightarrow> string \<Rightarrow> bool \<Rightarrow> string + 'i permission_result" where
  "safety_question h ctx path paths message classifierApprovable =
     and_then (getDsxuSkillScope h path) (\<lambda>skillScope.
     and_then (case skillScope of
         Some (_, pattern) \<Rightarrow>
           Inr [AddRules Session [\<lparr>toolName = FILE_EDIT_TOOL_NAME, ruleContent = Some pattern\<rparr>] Allow]
       | None \<Rightarrow> generateSuggestions h path WriteOperation ctx paths) (\<lambda>suggestions.
       Inr (PAsk message None (Some (SafetyCheck message classifierApprovable)) (Some suggestions) None)))"

definition write_after_safety ::
  "harness \<Rightarrow> tool_context \<Rightarrow> 'i \<Rightarrow> string \<Rightarrow> string list \<Rightarrow> string + 'i permission_result" where
  "write_after_safety h ctx input path paths =
     and_then (rule_for_paths h paths ctx EditAccess Ask) (\<lambda>askRule.
       case askRule of
         Some rule \<Rightarrow> Inr (ask_by_rule ''write to'' path rule)
       | None \<Rightarrow>
     and_then (pathInAllowedWorkingPath h ctx paths) (\<lambda>isInWorkingDir.
       if mode ctx = AcceptEdits \<and> isInWorkingDir
       then Inr (PAllow (Some input) (Some (ModeReason (mode ctx))))
       else
     and_then (matchingRuleForInput h path ctx EditAccess Allow) (\<lambda>allowRule.
       case allowRule of
         Some rule \<Rightarrow> Inr (allow_by_rule input rule)
       | None \<Rightarrow>
     and_then (generateSuggestions h path WriteOperation ctx paths) (\<lambda>suggestions.
       Inr (PAsk (requested_access ''write to'' path) None
              (if \<not> isInWorkingDir then Some (WorkingDir ''Path is outside allowed working directories'') else None)
              (Some suggestions) None)))))"

definition write_check ::
  "harness \<Rightarrow> tool_context \<Rightarrow> 'i \<Rightarrow> string \<Rightarrow> string list \<Rightarrow> string + 'i permission_result" where
  "write_check h ctx input path paths =
     and_then (rule_for_paths h paths ctx EditAccess Deny) (\<lambda>denyRule.
       case denyRule of
         Some rule \<Rightarrow> Inr (deny_by_rule ''edit'' path rule)
       | None \<Rightarrow>
     and_then (expand h path) (\<lambda>absolutePathForEdit.
       case checkEditableInternalPath h absolutePathForEdit input of
         PPassthrough _ _ _ _ \<Rightarrow>
     and_then (matchingRuleForInput h path (session_rules_only ctx) EditAccess Allow) (\<lambda>configFolderAllowRule.
       case (case configFolderAllowRule of
               Some rule \<Rightarrow> if config_folder_rule rule then Some rule else None | None \<Rightarrow> None) of
         Some rule \<Rightarrow> Inr (allow_by_rule input rule)
       | None \<Rightarrow>
     and_then (checkPathSafetyForAutoEdit h path paths) (\<lambda>safetyCheck.
       case safetyCheck of
         UnsafePath message classifierApprovable \<Rightarrow> safety_question h ctx path paths message classifierApprovable
       | SafePath \<Rightarrow> write_after_safety h ctx input path paths))
       | internalEditResult \<Rightarrow> Inr internalEditResult))"

definition checkWritePermissionForTool ::
  "harness \<Rightarrow> 'i file_tool \<Rightarrow> 'i \<Rightarrow> tool_context \<Rightarrow> string list option \<Rightarrow> string + 'i permission_result" where
  "checkWritePermissionForTool h t input ctx precomputed =
     (case getPath t of
        None \<Rightarrow> Inr (requested_tool (file_tool_name t))
      | Some get \<Rightarrow> and_then (get input) (\<lambda>path.
          write_check h ctx input path
            (case precomputed of Some ps \<Rightarrow> ps | None \<Rightarrow> checkedPaths h path)))"

text \<open>Steps 3 to 12 of the read check, after the two tests of the form of the path.\<close>

definition read_by_rules ::
  "harness \<Rightarrow> 'i file_tool \<Rightarrow> 'i \<Rightarrow> tool_context \<Rightarrow> string \<Rightarrow> string list \<Rightarrow> string + 'i permission_result" where
  "read_by_rules h t input ctx path paths =
     and_then (rule_for_paths h paths ctx ReadAccess Deny) (\<lambda>denyRule.
       case denyRule of
         Some rule \<Rightarrow> Inr (deny_by_rule ''read'' path rule)
       | None \<Rightarrow>
     and_then (rule_for_paths h paths ctx ReadAccess Ask) (\<lambda>askRule.
       case askRule of
         Some rule \<Rightarrow> Inr (ask_by_rule ''read from'' path rule)
       | None \<Rightarrow>
     and_then (checkWritePermissionForTool h t input ctx (Some paths)) (\<lambda>editResult.
       if is_allow editResult then Inr editResult
       else
     and_then (pathInAllowedWorkingPath h ctx paths) (\<lambda>isInWorkingDir.
       if isInWorkingDir then Inr (PAllow (Some input) (Some (ModeReason DefaultMode)))
       else
     and_then (expand h path) (\<lambda>absolutePath.
       case checkReadableInternalPath h absolutePath input of
         PPassthrough _ _ _ _ \<Rightarrow>
     and_then (matchingRuleForInput h path ctx ReadAccess Allow) (\<lambda>allowRule.
       case allowRule of
         Some rule \<Rightarrow> Inr (allow_by_rule input rule)
       | None \<Rightarrow>
     and_then (generateSuggestions h path ReadOperation ctx paths) (\<lambda>suggestions.
       Inr (PAsk (requested_access ''read from'' path) None
              (Some (WorkingDir ''Path is outside allowed working directories'')) (Some suggestions) None)))
       | internalReadResult \<Rightarrow> Inr internalReadResult)))))"

definition checkReadPermissionForTool ::
  "harness \<Rightarrow> 'i file_tool \<Rightarrow> 'i \<Rightarrow> tool_context \<Rightarrow> string + 'i permission_result" where
  "checkReadPermissionForTool h t input ctx =
     (case getPath t of
        None \<Rightarrow> Inr (requested_tool (file_tool_name t))
      | Some get \<Rightarrow> and_then (get input) (\<lambda>path.
          let paths = checkedPaths h path
          in if list_ex unc_path paths
             then Inr (PAsk (''DSXU requested permissions to read from '' @ path @
               '', which appears to be a UNC path that could access network resources.'') None
               (Some (OtherReason ''UNC path detected (defense-in-depth check)'')) None None)
             else if list_ex (hasSuspiciousWindowsPathPattern (platform (proc h))) paths
             then Inr (PAsk (''DSXU requested permissions to read from '' @ path @
               '', which contains a suspicious Windows path pattern that requires manual approval.'') None
               (Some (OtherReason (''Path contains suspicious Windows-specific patterns (alternate data streams, '' @
                 ''short names, long path prefixes, or three or more consecutive dots) that require manual verification'')))
               None None)
             else read_by_rules h t input ctx path paths))"

end
