(* ===== verification/File_Permission_Laws.thy ===== *)
theory File_Permission_Laws
  imports File_Permissions
begin

text \<open>
  What the file permission checks guarantee: working directories are tested exactly, protected files
  and denied files stay protected wherever a path leads, and the gate keeps it so in every mode.
\<close>

section \<open>Expanded paths\<close>

definition absolute_process :: "process \<Rightarrow> bool" where
  "absolute_process pr \<longleftrightarrow> is_absolute (homedir pr) \<and> is_absolute (cwd pr)"

lemma path_join_is_absolute: "is_absolute d \<Longrightarrow> is_absolute (path_join (d # ss))"
proof -
  assume d: "is_absolute d"
  let ?j = "join_path (filter (\<lambda>p. p \<noteq> []) (d # ss))"
  have "d \<noteq> []" using d by auto
  then have "is_absolute ?j"
    using d by (cases "filter (\<lambda>p. p \<noteq> []) ss") (auto simp: is_absolute_append)
  then show ?thesis using normalize_absolute(2) [of ?j] by (auto simp: path_join_def Let_def)
qed

lemma path_resolve_is_absolute: "is_absolute d \<Longrightarrow> is_absolute (path_resolve c [d, p])"
  by (cases "p = []"; cases d) (auto simp: path_resolve_def Let_def is_absolute_append)

lemma expand_absolute:
  assumes "absolute_process (proc h)" "expand h p = Inr a"
  shows "is_absolute a"
  using assms
  by (auto simp: expand_def expandPath_def expandPath_from_def absolute_process_def Let_def
      normalize_absolute(2) path_join_is_absolute path_resolve_is_absolute split: if_splits)

lemma trim_none: "s \<noteq> [] \<Longrightarrow> \<not> is_js_space (hd s) \<Longrightarrow> \<not> is_js_space (last s) \<Longrightarrow> js_trim s = s"
  by (simp add: js_trim_def dropWhile_eq_self_iff [THEN iffD2] hd_rev)

lemma expand_of_absolute:
  assumes "is_absolute p" "js_trim p = p" "expand h p = Inr a"
  shows "a = path_normalize p"
  using assms by (cases p) (auto simp: expand_def expandPath_def expandPath_from_def Let_def starts_with_def split: if_splits)

section \<open>Inside a working directory\<close>

text \<open>
  The place of an expanded path, for the comparison of directories: its names in lower case, after the
  aliases.
\<close>

definition location :: "string \<Rightarrow> string list" where
  "location a = norm_segments False (normalizeCaseForComparison (mac_alias a))"

lemma mac_alias_absolute: "is_absolute p \<Longrightarrow> is_absolute (mac_alias p)"
  by (auto simp: mac_alias_def Let_def)

lemma traversal_join:
  assumes "ss \<noteq> []" "\<forall>x\<in>set ss. CHR ''/'' \<notin> set x"
  shows "containsPathTraversal (join_path ss) \<longleftrightarrow> (\<exists>x\<in>set ss. ''..'' \<in> set (split_at_char BS x))"
  using split_char_join [OF assms] by (simp add: containsPathTraversal_def split_separators_def)

lemma join_not_absolute:
  "\<forall>x\<in>set ss. x \<noteq> [] \<and> CHR ''/'' \<notin> set x \<Longrightarrow> \<not> is_absolute (join_path ss)"
  by (cases "(''/'', ss)" rule: js_join.cases) (auto simp: neq_Nil_conv is_absolute_def)

text \<open>
  The test for a working directory is exact: a path is inside if and only if the names of the
  directory are the first names of the path, both in lower case and after the aliases, and no name that
  follows hides two dots behind a backslash.
\<close>

theorem working_directory_exact:
  assumes "absolute_process (proc h)" "expand h p = Inr a" "expand h w = Inr b"
  shows "pathInWorkingPath h p w = Inr (prefix (location b) (location a) \<and>
    list_all (\<lambda>s. ''..'' \<notin> set (split_at_char BS s)) (drop (length (location b)) (location a)))"
proof -
  let ?f = "location b" and ?t = "location a" and ?ss = "segments_between (location b) (location a)"
  have abs: "is_absolute (normalizeCaseForComparison (mac_alias a))"
      "is_absolute (normalizeCaseForComparison (mac_alias b))"
    using expand_absolute [OF assms(1)] assms(2,3)
    by (simp_all add: normalizeCaseForComparison_def mac_alias_absolute)
  have rel: "relativePath h (normalizeCaseForComparison (mac_alias b)) (normalizeCaseForComparison (mac_alias a)) =
      join_path ?ss"
    unfolding relativePath_def location_def by (rule relative_absolute [OF abs(2,1)])
  have parts: "x \<noteq> [] \<and> CHR ''/'' \<notin> set x" if "x \<in> set ?ss" for x
    using segments_between_set [OF that] norm_segments_clean [of x]
    by (auto simp: location_def clean_segment_def)
  have empty: "join_path ?ss = [] \<longleftrightarrow> ?ss = []" using parts [of "[]"] by (auto simp: join_eq_Nil)
  have dots: "''..'' \<in> set (split_at_char BS ''..'')" by code_simp
  consider "?ss = []" | "?ss \<noteq> []" "prefix ?f ?t" | "?ss \<noteq> []" "\<not> prefix ?f ?t" by blast
  then show ?thesis
  proof cases
    case 1
    then show ?thesis
      using assms(2,3) rel empty by (simp add: pathInWorkingPath_def Let_def) (simp add: segments_between_Nil)
  next
    case 2
    then have "?ss = drop (length ?f) ?t" by (simp add: segments_between_prefix)
    then show ?thesis
      using 2 assms(2,3) rel empty parts traversal_join [of ?ss] join_not_absolute [of ?ss]
      by (auto simp: pathInWorkingPath_def list_all_iff)
  next
    case 3
    then have "containsPathTraversal (join_path ?ss)"
      using traversal_join [of ?ss] parts dots segments_between_prefix(2) by blast
    then show ?thesis using 3 assms(2,3) rel empty by (simp add: pathInWorkingPath_def)
  qed
qed

section \<open>Protected places\<close>

definition protected_name :: "string \<Rightarrow> bool" where
  "protected_name s \<longleftrightarrow>
     s \<noteq> [] \<and> list_ex (\<lambda>f. normalizeCaseForComparison f = normalizeCaseForComparison s) DANGEROUS_FILES"

definition protected_place :: "string list \<Rightarrow> bool" where
  "protected_place ss \<longleftrightarrow> dangerous_segments ss \<or> ss \<noteq> [] \<and> protected_name (last ss)"

lemma dangerous_Nil: "dangerous_segments ([] # ss) = dangerous_segments ss"
  by (simp add: dangerous_segments.simps DANGEROUS_DIRECTORIES_def DSXU_CONFIG_DIR_NAME_def ARCHIVED_CONFIG_DIR_NAME_def
      normalizeCaseForComparison_def toLowerCase_def)

declare dangerous_segments.simps [simp del]

text \<open>The segments of a normalised absolute path.\<close>

lemma segments_join: "ss \<noteq> [] \<Longrightarrow> segments (join_path ss) = concat (map segments ss)"
  by (induction "''/''" ss rule: js_join.induct) (simp_all add: split_char_append)

lemma segments_normalize:
  assumes "is_absolute p" "last p \<noteq> CHR ''/''"
  shows "segments (path_normalize p) = [] # norm_segments False p \<or>
     norm_segments False p = [] \<and> path_normalize p = ''/''"
proof -
  let ?ss = "norm_segments False p"
  have p: "p \<noteq> []" using assms by auto
  have clean: "\<forall>s\<in>set ?ss. clean_segment s" using norm_segments_clean by blast
  show ?thesis
  proof (cases "?ss = []")
    case True
    then show ?thesis using assms p by (simp add: path_normalize_def)
  next
    case False
    have "?ss \<noteq> [[]]" using clean by (metis clean_segment_def list.set_intros(1))
    with False have "join_path ?ss \<noteq> []" by (simp only: join_eq_Nil) simp
    then have "path_normalize p = CHR ''/'' # join_path ?ss" using assms p by (simp add: path_normalize_def)
    moreover have "segments (join_path ?ss) = ?ss"
      using False clean by (intro split_char_join) (auto simp: clean_segment_def)
    ultimately show ?thesis by simp
  qed
qed

lemma not_suspicious_trim:
  assumes "is_absolute p" "\<not> hasSuspiciousWindowsPathPattern pf p"
  shows "js_trim p = p"
proof -
  have "p \<noteq> []" using assms(1) by auto
  moreover have "\<not> is_js_space (hd p)" using assms(1) by (cases p) (simp_all add: is_js_space_def)
  moreover have "\<not> is_js_space (last p)"
    using assms(2) \<open>p \<noteq> []\<close> by (simp add: hasSuspiciousWindowsPathPattern_def)
  ultimately show ?thesis by (rule trim_none)
qed

text \<open>What the safety check establishes for each path.\<close>

lemma safe_paths:
  assumes "checkPathSafetyForAutoEdit h path paths = Inr SafePath" "c \<in> set paths"
  shows "product_core_block h paths = None"
    and "\<not> hasSuspiciousWindowsPathPattern (platform (proc h)) c"
    and "isDsxuConfigFilePath h c = Inr False"
    and "isDangerousFilePathToAutoEdit h c = Inr False"
  using assms
  by (auto simp: checkPathSafetyForAutoEdit_def and_then_Inr exists_throw_False list_ex_iff
      split: option.splits if_splits)

lemma safe_path_unprotected:
  assumes "is_absolute c" "last c \<noteq> CHR ''/''"
    and "\<not> hasSuspiciousWindowsPathPattern pf c" "isDangerousFilePathToAutoEdit h c = Inr False"
  shows "\<not> protected_place (norm_segments False c)"
proof -
  obtain a where a: "expand h c = Inr a" using assms(4) by (auto simp: isDangerousFilePathToAutoEdit_def and_then_Inr)
  then have n: "a = path_normalize c"
    using expand_of_absolute [OF assms(1) not_suspicious_trim [OF assms(1,3)]] by blast
  have d: "\<not> dangerous_segments (segments a)"
      "last (segments a) = [] \<or> \<not> protected_name (last (segments a))"
    using assms(4) a by (auto simp: isDangerousFilePathToAutoEdit_def protected_name_def Let_def)
  show ?thesis
  proof (cases "norm_segments False c = []")
    case False
    then have "segments a = [] # norm_segments False c" using segments_normalize [OF assms(1,2)] n by blast
    then show ?thesis
      using d False norm_segments_clean [of "last (norm_segments False c)" c]
      by (auto simp: protected_place_def dangerous_Nil clean_segment_def)
  qed (simp add: protected_place_def dangerous_segments.simps)
qed

section \<open>The write check\<close>

lemma write_check_cases:
  assumes "write_check h ctx input path paths = Inr r" "expand h path = Inr a"
    and "\<not> is_allow (checkEditableInternalPath h a input)"
    and "\<And>rule. matchingRuleForInput h path (session_rules_only ctx) EditAccess Allow = Inr (Some rule) \<Longrightarrow>
      \<not> config_folder_rule rule"
  obtains (denied) rule where "rule_for_paths h paths ctx EditAccess Deny = Inr (Some rule)"
      "r = deny_by_rule ''edit'' path rule"
  | (unsafe) m b sugg where "checkPathSafetyForAutoEdit h path paths = Inr (UnsafePath m b)"
      "r = PAsk m None (Some (SafetyCheck m b)) (Some sugg) None"
  | (safe) "checkPathSafetyForAutoEdit h path paths = Inr SafePath"
      "rule_for_paths h paths ctx EditAccess Deny = Inr None" "write_after_safety h ctx input path paths = Inr r"
proof -
  have internal: "checkEditableInternalPath h a input = PPassthrough [] None None None"
    using assms(3) by (simp add: checkEditableInternalPath_def internal_allow_def Let_def split: if_splits)
  obtain dr where dr: "rule_for_paths h paths ctx EditAccess Deny = Inr dr"
    using assms(1) by (auto simp: write_check_def and_then_Inr)
  show thesis
  proof (cases dr)
    case (Some rule)
    then show ?thesis using denied dr assms(1) by (simp add: write_check_def)
  next
    case None
    then obtain cr where cr: "matchingRuleForInput h path (session_rules_only ctx) EditAccess Allow = Inr cr"
      using dr assms(1,2) internal by (auto simp: write_check_def and_then_Inr)
    have "(case cr of Some rule \<Rightarrow> if config_folder_rule rule then Some rule else None | None \<Rightarrow> None) = None"
      using assms(4) cr by (auto split: option.splits)
    then obtain sc where sc: "checkPathSafetyForAutoEdit h path paths = Inr sc"
      "(case sc of UnsafePath m b \<Rightarrow> safety_question h ctx path paths m b
         | SafePath \<Rightarrow> write_after_safety h ctx input path paths) = Inr r"
      using dr None cr assms(1,2) internal by (auto simp: write_check_def and_then_Inr)
    show ?thesis
    proof (cases sc)
      case SafePath
      then show ?thesis using safe sc dr None by simp
    next
      case (UnsafePath m b)
      then show ?thesis using unsafe sc by (auto simp: safety_question_def and_then_Inr)
    qed
  qed
qed

section \<open>Protected places stay protected\<close>

text \<open>The setting of a write: a tool with a path, and where a write to it lands.\<close>

definition write_lands :: "harness \<Rightarrow> 'i file_tool \<Rightarrow> 'i \<Rightarrow> string \<Rightarrow> string \<Rightarrow> bool" where
  "write_lands h t input p q \<longleftrightarrow>
     (\<exists>get. getPath t = Some get \<and> get input = Inr p) \<and>
     file_system_laws (disk h) \<and> is_absolute p \<and> \<not> unc_path p \<and> last p \<noteq> CHR ''/'' \<and>
     lstatSync (disk h) p \<noteq> Some SpecialFile \<and> destination (disk h) p [] = Some q"

lemma write_lands_check:
  assumes "write_lands h t input p q"
  shows "checkWritePermissionForTool h t input ctx None = write_check h ctx input p (checkedPaths h p)"
  using assms by (auto simp: write_lands_def checkWritePermissionForTool_def)

lemma write_lands_checked:
  assumes "write_lands h t input p q"
  obtains c where "c \<in> set (checkedPaths h p)" "is_absolute c" "last c \<noteq> CHR ''/''"
    "norm_segments False c = norm_segments False q"
  | "norm_segments False q = []"
proof (cases "norm_segments False q = []")
  case False
  have p: "is_absolute p" "last p \<noteq> CHR ''/''" "p \<noteq> []" using assms by (auto simp: write_lands_def)
  have d: "q \<in> set (checkedPaths h p) \<or> norm_segments False q = norm_segments False p"
    using destination_checked [of "disk h" p q "proc h"] assms by (auto simp: write_lands_def checkedPaths_def)
  have "untilde (proc h) p = p" using p(1) by (cases p) (auto simp: untilde_def starts_with_def)
  then have own: "p \<in> set (checkedPaths h p)"
    using original_checked [of "proc h" p "disk h"] by (simp add: checkedPaths_def)
  have canon: "canonical_path q"
    using destination_canonical [OF _ p(3,2)] assms by (auto simp: write_lands_def)
  then have q: "q = ''/'' @ join_path (norm_segments False q)" by (simp add: canonical_path_def)
  have j: "join_path (norm_segments False q) \<noteq> []"
      "last (join_path (norm_segments False q)) \<in> set (last (norm_segments False q))"
    using clean_join_last [of "norm_segments False q"] norm_segments_clean False by blast+
  have "last (norm_segments False q) \<in> set (norm_segments False q)" using False by simp
  then have "CHR ''/'' \<notin> set (last (norm_segments False q))"
    using norm_segments_clean unfolding clean_segment_def by blast
  then have "last q \<noteq> CHR ''/''" using j q by (metis last_appendR)
  then show thesis using d own p canonical_absolute [OF canon] that(1) by metis
qed (rule that(2))

definition no_carve_out :: "harness \<Rightarrow> tool_context \<Rightarrow> 'i \<Rightarrow> string \<Rightarrow> bool" where
  "no_carve_out h ctx input p \<longleftrightarrow>
     (case expand h p of Inl e \<Rightarrow> True | Inr a \<Rightarrow> \<not> is_allow (checkEditableInternalPath h a input)) \<and>
     (case matchingRuleForInput h p (session_rules_only ctx) EditAccess Allow of
        Inr (Some rule) \<Rightarrow> \<not> config_folder_rule rule | _ \<Rightarrow> True)"

text \<open>
  C10: A write that lands in a protected place, a directory such as \<open>.git\<close> or a file such
  as \<open>.bashrc\<close> in any spelling, is denied or answered with a safety check, whatever the
  mode and the rules.  The path is absolute, without a slash at its end, and neither a network path nor
  a device, no dangling link is on its way, and the file system obeys its documented laws
  (\<open>write_lands\<close>); the check does not throw, and neither of two carve-outs applies: an
  internal path of the session, and a session rule for the configuration folder.
\<close>

theorem protected_write_answer:
  assumes "write_lands h t input p q" "protected_place (norm_segments False q)"
    and "no_carve_out h ctx input p"
    and "checkWritePermissionForTool h t input ctx None = Inr r"
  shows "is_deny r \<or> (\<exists>m b sugg. r = PAsk m None (Some (SafetyCheck m b)) (Some sugg) None)"
proof -
  have w: "write_check h ctx input p (checkedPaths h p) = Inr r"
    using assms(4) write_lands_check [OF assms(1)] by simp
  have carve: "\<not> config_folder_rule rule"
    if "matchingRuleForInput h p (session_rules_only ctx) EditAccess Allow = Inr (Some rule)" for rule
    using assms(3) that by (simp add: no_carve_out_def)
  have unsafe: "checkPathSafetyForAutoEdit h p (checkedPaths h p) \<noteq> Inr SafePath"
  proof
    assume s: "checkPathSafetyForAutoEdit h p (checkedPaths h p) = Inr SafePath"
    from assms(1) show False
    proof (cases rule: write_lands_checked)
      case (1 c)
      then show False
        using safe_path_unprotected [of c _ h] safe_paths [OF s 1(1)] assms(2) by metis
    qed (use assms(2) in \<open>simp add: protected_place_def dangerous_segments.simps\<close>)
  qed
  show ?thesis
  proof (cases "rule_for_paths h (checkedPaths h p) ctx EditAccess Deny = Inr None")
    case True
    then obtain a where a: "expand h p = Inr a" using w by (auto simp: write_check_def and_then_Inr)
    then have "\<not> is_allow (checkEditableInternalPath h a input)" using assms(3) by (simp add: no_carve_out_def)
    from w a this carve show ?thesis
      by (cases rule: write_check_cases) (use unsafe True in auto)
  next
    case False
    then show ?thesis
      using w by (auto simp: write_check_def and_then_Inr deny_by_rule_def split: option.splits)
  qed
qed

section \<open>Through the gate\<close>

text \<open>The gate calls the write check as the tool's own check; a throw is logged and read as no opinion.\<close>

definition check_outcome :: "string + 'i permission_result \<Rightarrow> 'i check_outcome" where
  "check_outcome r = (case r of Inl e \<Rightarrow> CheckFailed | Inr x \<Rightarrow> CheckResult x)"

definition uses_write_check :: "'i gate_env \<Rightarrow> harness \<Rightarrow> 'i file_tool \<Rightarrow> 'i \<Rightarrow> bool" where
  "uses_write_check env h t input \<longleftrightarrow>
     (\<forall>n s. checkPermissions env n s =
        check_outcome (checkWritePermissionForTool h t input (toolPermissionContext s) None))"

definition reaches_tool_check :: "'i gate_env \<Rightarrow> tool \<Rightarrow> gate_session \<Rightarrow> bool" where
  "reaches_tool_check env tu s \<longleftrightarrow>
     canSandboxAutoAllow env tu \<or> getAskRuleForTool (build env) (toolPermissionContext s) tu = None"

lemma uses_write_check_result:
  "uses_write_check env h t input \<Longrightarrow>
     checkWritePermissionForTool h t input (toolPermissionContext s) None = Inr r \<Longrightarrow>
     tool_check env tu s = Inr r"
  by (simp add: uses_write_check_def check_outcome_def tool_check_def)

text \<open>
  C2: When a write lands in a protected place and the gate allows it, in bypass mode or any other, then
  it is by auto mode, with the licence of auto mode, or by a hook of a headless agent.  The path is as
  for C1; neither carve-out applies (\<open>no_carve_out\<close>: the path is no internal path of the
  session, and no session rule for the configuration folder matches it), the check of the tool does not
  throw, and no ask rule for the whole tool answers before it.
\<close>

theorem bypass_keeps_protection:
  assumes "uses_write_check env h t input" "write_lands h t input p q"
    and "protected_place (norm_segments False q)" "no_carve_out h (toolPermissionContext s) input p"
    and "checkWritePermissionForTool h t input (toolPermissionContext s) None = Inr r"
    and "reaches_tool_check env tu s"
    and "hasPermissionsToUseTool env tu input s = (Inr d, s')" "is_allow d"
  shows "auto_licence env tu (after_inner env (after_check env s)) r \<or>
    hook_licence env (after_inner env (after_check env s))"
proof -
  have tc: "tool_check env tu s = Inr r" using uses_write_check_result [OF assms(1,5)] .
  have "is_deny r \<or> safety_result r"
    using protected_write_answer [OF assms(2-5)] by (auto simp: safety_result_def)
  then have na: "\<not> direct_licence env tu s d" using tc by (auto simp: direct_licence_def)
  have "getDenyRuleForTool (build env) (toolPermissionContext s) tu = None"
    and lic: "\<exists>q s1. hasPermissionsToUseToolInner env tu input s = (Inr q, s1) \<and> is_ask q \<and>
      (auto_licence env tu (after_inner env s1) q \<or> hook_licence env (after_inner env s1))"
    using licence_of_allow [OF assms(7,8)] na by blast+
  then have "hasPermissionsToUseToolInner env tu input s \<in> {(Inl [], s), (Inr r, after_check env s)}"
    using tc assms(6) \<open>is_deny r \<or> safety_result r\<close>
    by (auto simp: hasPermissionsToUseToolInner_def Let_def reaches_tool_check_def split: if_splits)
  then show ?thesis using lic by auto
qed

text \<open>The rule that matches depends on the names of a path, not on its spelling.\<close>

lemma match_root_cong:
  assumes "is_absolute a" "is_absolute b" "norm_segments False a = norm_segments False b"
  shows "match_root h a root m = match_root h b root m"
proof -
  have "relativePath h base a = relativePath h base b" for base
    unfolding relativePath_def path_relative_between
    by (simp only: resolve_segments [OF assms(1)] resolve_segments [OF assms(2)] assms(3))
  then show ?thesis by (simp add: match_root_def)
qed

lemma matching_cong:
  assumes "is_absolute p" "js_trim p = p" "is_absolute q" "js_trim q = q"
    and "norm_segments False p = norm_segments False q"
    and "expand h p = Inr a" "expand h q = Inr b"
  shows "matchingRuleForInput h p ctx access behavior = matchingRuleForInput h q ctx access behavior"
proof -
  have ab: "a = path_normalize p" "b = path_normalize q" using expand_of_absolute assms by blast+
  have "match_root h a = match_root h b"
    by (intro ext match_root_cong) (simp_all add: ab normalize_absolute assms)
  then show ?thesis by (simp add: matchingRuleForInput_def assms(6,7))
qed

text \<open>
  C1: If a deny rule matches the place where a write lands, the gate denies the call whatever the mode,
  the classifier and the hooks.  The check of the tool is that of the file tools
  (\<open>uses_write_check\<close>).  The path is absolute, without a slash at its end, and neither a
  network path nor a device, no dangling link is on its way, and the file system obeys its documented
  laws (\<open>write_lands\<close>: the place where the write lands is determined by the links that
  resolve); neither the path nor the place has space around it.  The call is not aborted, no ask rule
  for the whole tool answers before the check of the tool (\<open>reaches_tool_check\<close>), and no
  match of a deny rule against the checked paths throws.
\<close>

theorem denied_destination:
  assumes "uses_write_check env h t input" "write_lands h t input p q" "js_trim p = p" "js_trim q = q"
    and "\<forall>c\<in>set (checkedPaths h p). \<exists>x. matchingRuleForInput h c (toolPermissionContext s) EditAccess Deny = Inr x"
    and "matchingRuleForInput h q (toolPermissionContext s) EditAccess Deny = Inr (Some rule)"
    and "\<not> aborted s" "reaches_tool_check env tu s"
  shows "\<exists>r s'. is_deny r \<and> hasPermissionsToUseTool env tu input s = (Inr r, s')"
proof -
  let ?ctx = "toolPermissionContext s"
  have p: "is_absolute p" "p \<noteq> []" "last p \<noteq> CHR ''/''" using assms(2) by (auto simp: write_lands_def)
  have q: "is_absolute q"
    using destination_canonical [OF _ p(2,3)] assms(2) canonical_absolute by (auto simp: write_lands_def)
  have "untilde (proc h) p = p" using p(1) by (cases p) (auto simp: untilde_def starts_with_def)
  then have own: "p \<in> set (checkedPaths h p)"
    using original_checked [of "proc h" p "disk h"] by (simp add: checkedPaths_def)
  have "\<exists>c\<in>set (checkedPaths h p). matchingRuleForInput h c ?ctx EditAccess Deny \<noteq> Inr None"
  proof (cases "q \<in> set (checkedPaths h p)")
    case False
    then have "norm_segments False p = norm_segments False q"
      using destination_checked [of "disk h" p q "proc h"] assms(2) by (auto simp: write_lands_def checkedPaths_def)
    moreover obtain a b where "expand h p = Inr a" "expand h q = Inr b"
      using assms(5,6) own by (fastforce simp: matchingRuleForInput_def and_then_Inr)
    ultimately have "matchingRuleForInput h p ?ctx EditAccess Deny = Inr (Some rule)"
      using matching_cong [OF p(1) assms(3) q assms(4)] assms(6) by simp
    then show ?thesis using own by force
  qed (use assms(6) in force)
  then have "rule_for_paths h (checkedPaths h p) ?ctx EditAccess Deny \<noteq> Inr None"
    by (auto simp: rule_for_paths_def find_throw_None)
  moreover have "\<exists>x. find_throw f xs = Inr x" if "\<forall>c\<in>set xs. \<exists>x. f c = Inr x"
    for f :: "string \<Rightarrow> string + permission_rule option" and xs
    using that by (induction xs) (auto split: option.split)
  then have "\<exists>x. rule_for_paths h (checkedPaths h p) ?ctx EditAccess Deny = Inr x"
    using assms(5) by (simp add: rule_for_paths_def)
  ultimately obtain r where "rule_for_paths h (checkedPaths h p) ?ctx EditAccess Deny = Inr (Some r)"
    by (metis option.exhaust)
  then have "checkWritePermissionForTool h t input ?ctx None = Inr (deny_by_rule ''edit'' p r)"
    by (simp add: write_lands_check [OF assms(2)] write_check_def)
  then have "tool_check env tu s = Inr (deny_by_rule ''edit'' p r)"
    using uses_write_check_result [OF assms(1)] by blast
  then have "\<exists>r s1. hasPermissionsToUseToolInner env tu input s = (Inr r, s1) \<and> is_deny r"
    using assms(7,8)
    by (auto simp: hasPermissionsToUseToolInner_def Let_def reaches_tool_check_def deny_by_rule_def
        split: option.split)
  then show ?thesis by (fastforce simp: hasPermissionsToUseTool_def Let_def)
qed

section \<open>Suggestions for skills\<close>

lemma includes_text_iff: "includes_text t s \<longleftrightarrow> (\<exists>a b. s = a @ t @ b)"
proof
  assume "includes_text t s"
  then obtain i where "take (length t) (drop i s) = t" by (auto simp: includes_text_def list_ex_iff starts_with_def)
  then have "s = take i s @ t @ drop (length t) (drop i s)" by (metis append_take_drop_id)
  then show "\<exists>a b. s = a @ t @ b" by blast
next
  assume "\<exists>a b. s = a @ t @ b"
  then obtain a b where s: "s = a @ t @ b" by blast
  then have "starts_with t (drop (length a) s)" "length a \<in> set [0..<Suc (length s)]"
    by (auto simp: starts_with_def)
  then show "includes_text t s" by (auto simp: includes_text_def list_ex_iff simp del: upt_Suc)
qed

lemma two_dots_append:
  "includes_text ''..'' (xs @ CHR ''/'' # ys) \<longleftrightarrow> includes_text ''..'' xs \<or> includes_text ''..'' ys"
proof
  assume "includes_text ''..'' (xs @ CHR ''/'' # ys)"
  then obtain a b where ab: "xs @ CHR ''/'' # ys = a @ ''..'' @ b" by (auto simp: includes_text_iff)
  from ab show "includes_text ''..'' xs \<or> includes_text ''..'' ys"
    unfolding includes_text_iff by (force simp: append_eq_append_conv2 append_eq_Cons_conv Cons_eq_append_conv)
next
  assume "includes_text ''..'' xs \<or> includes_text ''..'' ys"
  then show "includes_text ''..'' (xs @ CHR ''/'' # ys)"
    unfolding includes_text_iff by (metis append.assoc append_Cons)
qed

lemma skill_prefixes:
  assumes "(d, pre) \<in> set (skill_bases h)"
  shows "pre \<in> {''/.dsxu/skills/'', ''~/.dsxu/skills/'', ''/.claude/skills/'', ''~/.claude/skills/''}"
  using assms by (auto simp: skill_bases_def ARCHIVED_CONFIG_DIR_NAME_def)

lemma expand_bases_prefixes: "expand_bases h bs = Inr ds \<Longrightarrow> map snd ds = map snd bs"
  by (induction bs arbitrary: ds) (auto simp: and_then_Inr)

lemma skill_scope_form:
  assumes "getDsxuSkillScope h p = Inr (Some (n, pat))"
  obtains pre where "pat = pre @ n @ ''/**''" "\<not> includes_text ''..'' n"
    "pre \<in> {''/.dsxu/skills/'', ''~/.dsxu/skills/'', ''/.claude/skills/'', ''~/.claude/skills/''}"
proof -
  obtain a bases where b: "expand_bases h (skill_bases h) = Inr bases"
      "(case find (\<lambda>(dir, pre). starts_with (normalizeCaseForComparison dir @ ''/'')
           (normalizeCaseForComparison a)) bases of
          None \<Rightarrow> None | Some (dir, pre) \<Rightarrow> skill_in_base a dir pre) = Some (n, pat)"
    using assms by (auto simp: getDsxuSkillScope_def and_then_Inr)
  then obtain d pre where c: "(d, pre) \<in> set bases" "skill_in_base a d pre = Some (n, pat)"
    by (auto split: option.splits dest!: find_SomeD)
  then have "pre \<in> set (map snd (skill_bases h))"
    using expand_bases_prefixes [OF b(1)] c(1) by (metis image_eqI set_map snd_conv)
  then show thesis
    using that c(2) skill_prefixes by (auto simp: skill_in_base_def Let_def split: if_splits)
qed

text \<open>
  The rule that a question about a skill suggests, stored as the string that the session keeps, is a
  rule that the next write check honours before the safety check: its folder is a configuration folder,
  it holds no two dots, and it ends with the pattern for everything below.
\<close>

theorem skill_suggestion_honoured:
  assumes "getDsxuSkillScope h p = Inr (Some (n, pat))"
  shows "config_folder_rule \<lparr>source = Session, ruleBehavior = Allow,
    ruleValue = permissionRuleValueFromString fl
      (permissionRuleValueToString \<lparr>toolName = FILE_EDIT_TOOL_NAME, ruleContent = Some pat\<rparr>)\<rparr>"
proof -
  obtain pre where pat: "pat = pre @ n @ ''/**''" "\<not> includes_text ''..'' n"
    and pre: "pre \<in> {''/.dsxu/skills/'', ''~/.dsxu/skills/'', ''/.claude/skills/'', ''~/.claude/skills/''}"
    using skill_scope_form [OF assms] .
  have "normalizeArchivedToolName fl ''Edit'' = ''Edit''"
    by (simp add: normalizeArchivedToolName_def ARCHIVED_TOOL_NAME_ALIASES_def tool_name_defs)
  moreover have "trailing_backslashes ''Edit'' = 0" by code_simp
  ultimately have "permissionRuleValueFromString fl
      (permissionRuleValueToString \<lparr>toolName = FILE_EDIT_TOOL_NAME, ruleContent = Some pat\<rparr>) =
      \<lparr>toolName = FILE_EDIT_TOOL_NAME, ruleContent = Some pat\<rparr>"
    using pat pre
    by (intro rule.dec_enc) (auto simp: normal_rule_def FILE_EDIT_TOOL_NAME_def no_paren_first)
  moreover have "\<not> includes_text ''..'' (pre @ n @ ''/**'')"
  proof -
    have "\<not> includes_text ''..'' ''**''" by code_simp
    then have tail: "\<not> includes_text ''..'' (n @ CHR ''/'' # ''**'')" using pat(2) two_dots_append by simp
    have "\<not> includes_text ''..'' ''/.dsxu/skills''" "\<not> includes_text ''..'' ''~/.dsxu/skills''"
      "\<not> includes_text ''..'' ''/.claude/skills''" "\<not> includes_text ''..'' ''~/.claude/skills''"
      by code_simp+
    moreover have "pre \<in> {''/.dsxu/skills'' @ ''/'', ''~/.dsxu/skills'' @ ''/'', ''/.claude/skills'' @ ''/'',
        ''~/.claude/skills'' @ ''/''}" using pre by simp
    ultimately obtain q where q: "pre = q @ ''/''" "\<not> includes_text ''..'' q" by blast
    have "\<not> includes_text ''..'' (q @ CHR ''/'' # (n @ CHR ''/'' # ''**''))"
      using q(2) tail two_dots_append by metis
    then show ?thesis by (simp add: q(1))
  qed
  moreover have "list_ex (\<lambda>c. starts_with c pat) config_folder_prefixes"
    using pre by (auto simp: pat(1) config_folder_prefixes_def ARCHIVED_CONFIG_DIR_NAME_def starts_with_def)
  ultimately show ?thesis
    by (simp add: config_folder_rule_def pat(1) ends_with_def)
qed

end
