(* ===== verification/File_Examples.thy ===== *)
theory File_Examples
  imports File_Permission_Laws
begin

text \<open>
  The properties of the file checks at a concrete session, and places where the checks answer less than
  their comments promise.
\<close>

section \<open>A session\<close>

text \<open>A repository \<open>/w\<close> with a link \<open>/w/g\<close> to its \<open>.git\<close>.\<close>

definition repository :: file_system where
  "repository =
     \<lparr>existsSync = (\<lambda>p. p \<in> set [''/'', ''/w'', ''/w/.git'', ''/w/g'', ''/w/src'']),
      lstatSync = map_of [(''/'', Directory), (''/w'', Directory), (''/w/.git'', Directory),
        (''/w/g'', SymbolicLink), (''/w/src'', Directory)],
      readlinkSync = map_of [(''/w/g'', ''.git'')],
      realpathSync = map_of [(''/'', ''/''), (''/w'', ''/w''), (''/w/.git'', ''/w/.git''), (''/w/g'', ''/w/.git''),
        (''/w/src'', ''/w/src'')],
      stat_isDirectory = map_of [(''/'', True), (''/w'', True), (''/w/.git'', True), (''/w/g'', True),
        (''/w/src'', True)]\<rparr>"

text \<open>A matcher for anchored patterns without stars; it rejects the paths that the package rejects.\<close>

definition anchored_match :: "string list \<Rightarrow> string \<Rightarrow> string + string option" where
  "anchored_match patterns rel =
     (if rel = ''..'' \<or> starts_with ''../'' rel \<or> starts_with ''./'' rel \<or> is_absolute rel
      then Inl ''path should be a path.relative()d string''
      else Inr (find (\<lambda>p. starts_with ''/'' p \<and> at_or_inside (drop 1 p) rel) patterns))"

definition example_harness :: harness where
  "example_harness =
     \<lparr>proc = example_process, disk = repository, ruleFeatures = all_off, ignoreTest = anchored_match,
      dsxuRuntime = True, configHome = ''/h/.dsxu'', archivedConfigHome = ''/h/.claude'', coworkSettings = False,
      managedSettingsFile = ''/etc/dsxu/settings.json'', flagSettingsFile = None, plansDirectory = ''/h/.dsxu/plans'',
      planSlug = ''blue-fox'', pathHash = (\<lambda>_. ''0''), sessionId = ''s1'', scratchpadGate = True,
      tmpdirEnv = None, archivedTmpdirEnv = None, uid = 7, productVersion = ''1.0'', processNonce = ''n'',
      templatesFeature = False, jobDirEnv = None,
      coreEnv = \<lparr>PRODUCT_CORE_ROOT = None, INSTALL_ROOT = None, PRODUCT_CORE_ROOTS = None,
        ALLOW_PRODUCT_CORE_MUTATION = None, DEV_ALLOW_CORE_MUTATION = None\<rparr>,
      remoteMemoryDir = None, memoryPathOverride = None, autoMemoryDirectory = (\<lambda>_. None),
      canonicalGitRoot = Some ''/w'', projectRoot = ''/w''\<rparr>"

definition edit_tool :: "string file_tool" where
  "edit_tool = \<lparr>file_tool_name = ''Edit'', getPath = Some Inr\<rparr>"

lemma example_proc [simp]: "proc example_harness = example_process" "disk example_harness = repository"
  by (simp_all add: example_harness_def)

lemma canonical_repository: "canonical_path ''/w/.git''" "canonical_path ''/w/src''"
  by code_simp+

lemma repository_laws: "file_system_laws repository"
  unfolding file_system_laws_def
  by (auto simp: repository_def canonical_examples canonical_repository split: if_splits)

lemma example_lands: "write_lands example_harness edit_tool ''/w/g/config'' ''/w/g/config'' ''/w/.git/config''"
  unfolding write_lands_def example_proc
  by (intro conjI repository_laws) (simp add: edit_tool_def, code_simp+)

section \<open>The properties at work\<close>

lemma working_directory_exact_witness:
  "pathInWorkingPath example_harness ''/W/src/../lib/a.ts'' ''/w'' = Inr True"
proof -
  have "pathInWorkingPath example_harness ''/W/src/../lib/a.ts'' ''/w'' = Inr (prefix (location ''/w'') (location ''/W/lib/a.ts'') \<and>
    list_all (\<lambda>s. ''..'' \<notin> set (split_at_char BS s)) (drop (length (location ''/w'')) (location ''/W/lib/a.ts'')))"
    by (rule working_directory_exact) code_simp+
  moreover have "prefix (location ''/w'') (location ''/W/lib/a.ts'')" by code_simp
  moreover have "list_all (\<lambda>s. ''..'' \<notin> set (split_at_char BS s))
      (drop (length (location ''/w'')) (location ''/W/lib/a.ts''))" by code_simp
  ultimately show ?thesis by simp
qed


definition git_question :: "string permission_result" where
  "git_question =
     PAsk ''DSXU requested permissions to edit /w/g/config which is a sensitive file.'' None
       (Some (SafetyCheck ''DSXU requested permissions to edit /w/g/config which is a sensitive file.'' True))
       (Some []) None"

lemma example_question:
  "checkWritePermissionForTool example_harness edit_tool ''/w/g/config''
     headless_context None = Inr git_question"
  by code_simp

lemma example_no_carve_out:
  "no_carve_out example_harness headless_context ''/w/g/config'' ''/w/g/config''"
  by code_simp

lemma example_protected: "protected_place (norm_segments False ''/w/.git/config'')"
  by code_simp

lemma protected_write_answer_witness:
  "is_deny git_question \<or>
   (\<exists>m b sugg. git_question = PAsk m None (Some (SafetyCheck m b)) (Some sugg) None)"
  by (rule protected_write_answer [OF example_lands example_protected example_no_carve_out example_question])

text \<open>The gate with the write check as the tool's own check.\<close>

definition file_env :: "string hook_result list \<Rightarrow> string gate_env" where
  "file_env hs = (calm_env CheckFailed (ClassifierThrew []) hs)
     \<lparr>checkPermissions := (\<lambda>n s. check_outcome
        (checkWritePermissionForTool example_harness edit_tool ''/w/g/config'' (toolPermissionContext s) None))\<rparr>"

lemma file_env_simps [simp]:
  "build (file_env hs) = build (calm_env CheckFailed (ClassifierThrew []) hs :: string gate_env)" "hooks (file_env hs) = hs"
  "\<not> canSandboxAutoAllow (file_env hs) t"
  "after_check (file_env hs) s = s" "after_inner (file_env hs) s = s" "after_hooks (file_env hs) s = s"
  "auto_applies (file_env hs) ctx = auto_applies (calm_env CheckFailed (ClassifierThrew []) hs :: string gate_env) ctx"
  by (simp_all add: file_env_def calm_env_def all_off_def canSandboxAutoAllow_def auto_applies_def)

lemma file_env_uses: "uses_write_check (file_env hs) example_harness edit_tool ''/w/g/config''"
  by (simp add: uses_write_check_def file_env_def)

lemma headless_rules [simp]:
  "getDenyRuleForTool f headless_context t = None" "getAskRuleForTool f headless_context t = None"
  using no_rules(1,2) [of f BypassPermissions _ t]
  by (simp_all add: headless_context_def getDenyRuleForTool_def getDenyRules_def getAskRuleForTool_def getAskRules_def)

lemma bypass_keeps_protection_witness:
  "auto_licence (file_env [HookAllow None None]) (plain_tool ''Edit'') (calm_session headless_context) git_question \<or>
   hook_licence (file_env [HookAllow None None]) (calm_session headless_context)"
proof -
  let ?env = "file_env [HookAllow None None]" and ?s = "calm_session headless_context" and ?t = "plain_tool ''Edit''"
  have check: "checkWritePermissionForTool example_harness edit_tool ''/w/g/config'' (toolPermissionContext ?s) None =
      Inr git_question"
    by (simp add: example_question)
  have carve: "no_carve_out example_harness (toolPermissionContext ?s) ''/w/g/config'' ''/w/g/config''"
    by (simp add: example_no_carve_out)
  have reach: "reaches_tool_check ?env ?t ?s" by (simp add: reaches_tool_check_def)
  have "tool_check ?env ?t ?s = Inr git_question"
    using uses_write_check_result [OF file_env_uses check] .
  then have "hasPermissionsToUseToolInner ?env ?t ''/w/g/config'' ?s = (Inr git_question, ?s)"
    by (simp add: hasPermissionsToUseToolInner_def ask_rule_result_def safety_result_def git_question_def)
  then have "hasPermissionsToUseTool ?env ?t ''/w/g/config'' ?s =
      (Inr (PAllow (Some ''/w/g/config'') (Some (HookReason ''PermissionRequest'' None))), ?s)"
    by (simp add: hasPermissionsToUseTool_def headless_decision_def auto_applies_def headless_context_def git_question_def)
  from bypass_keeps_protection [OF file_env_uses example_lands example_protected carve check reach this]
  show ?thesis by simp
qed

definition git_denied :: tool_context where
  "git_denied = context_with BypassPermissions [''Edit(//w/.git/**)''] []"

lemma denied_destination_witness:
  "\<exists>r s'. is_deny r \<and>
     hasPermissionsToUseTool (file_env [HookAllow None None]) (plain_tool ''Edit'') ''/w/g/config''
       (calm_session git_denied) = (Inr r, s')"
proof -
  let ?s = "calm_session git_denied"
  have paths: "checkedPaths example_harness ''/w/g/config'' = [''/w/g/config'', ''/w/.git/config'']" by code_simp
  let ?rule = "\<lparr>source = UserSettings, ruleBehavior = Deny,
    ruleValue = \<lparr>toolName = ''Edit'', ruleContent = Some ''//w/.git/**''\<rparr>\<rparr>"
  have "matchingRuleForInput example_harness ''/w/g/config'' git_denied EditAccess Deny = Inr None" by code_simp
  moreover have hit: "matchingRuleForInput example_harness ''/w/.git/config'' git_denied EditAccess Deny = Inr (Some ?rule)"
    by code_simp
  ultimately have "\<forall>c\<in>set (checkedPaths example_harness ''/w/g/config'').
      \<exists>x. matchingRuleForInput example_harness c (toolPermissionContext ?s) EditAccess Deny = Inr x"
    by (simp add: paths)
  moreover have "js_trim ''/w/g/config'' = ''/w/g/config''" "js_trim ''/w/.git/config'' = ''/w/.git/config''" by code_simp+
  moreover have "reaches_tool_check (file_env [HookAllow None None]) (plain_tool ''Edit'') ?s"
    by (simp add: reaches_tool_check_def git_denied_def)
  ultimately show ?thesis
    using denied_destination [OF file_env_uses example_lands, where rule = ?rule and s = ?s] hit by simp
qed

lemma example_skill:
  "getDsxuSkillScope example_harness ''/w/.dsxu/skills/(a)/x.md'' = Inr (Some (''(a)'', ''/.dsxu/skills/(a)/**''))"
  by code_simp

lemma skill_suggestion_honoured_witness:
  "config_folder_rule \<lparr>source = Session, ruleBehavior = Allow,
    ruleValue = permissionRuleValueFromString all_off
      (permissionRuleValueToString \<lparr>toolName = FILE_EDIT_TOOL_NAME, ruleContent = Some ''/.dsxu/skills/(a)/**''\<rparr>)\<rparr>"
  by (rule skill_suggestion_honoured [OF example_skill])

section \<open>Less than promised\<close>

text \<open>
  The read check asks about the form of a path before it looks at the deny rules.  The question is not a
  safety check, so that the bypass mode answers it: a path with a tilde before a digit is read in spite
  of the rule that denies it.
\<close>

definition read_denied :: tool_context where
  "read_denied = context_with BypassPermissions [''Read(//w/.git/**)''] []"

definition form_question :: "string permission_result" where
  "form_question =
     PAsk ''DSXU requested permissions to read from /w/.git/a~1, which contains a suspicious Windows path pattern that requires manual approval.''
       None (Some (OtherReason (''Path contains suspicious Windows-specific patterns (alternate data streams, '' @
         ''short names, long path prefixes, or three or more consecutive dots) that require manual verification'')))
       None None"

lemma denied_read_bypassed:
  "matchingRuleForInput example_harness ''/w/.git/a~1'' read_denied ReadAccess Deny \<noteq> Inr None"
  "checkReadPermissionForTool example_harness edit_tool ''/w/.git/a~1'' read_denied = Inr form_question"
  "\<exists>u. hasPermissionsToUseTool (calm_env (CheckResult form_question) (ClassifierThrew []) []) (plain_tool ''Read'')
     ''/w/.git/a~1'' (calm_session (context_with BypassPermissions [] [])) =
     (Inr (PAllow (Some u) (Some (ModeReason BypassPermissions))), calm_session (context_with BypassPermissions [] []))"
proof -
  show "matchingRuleForInput example_harness ''/w/.git/a~1'' read_denied ReadAccess Deny \<noteq> Inr None" by code_simp
  show "checkReadPermissionForTool example_harness edit_tool ''/w/.git/a~1'' read_denied = Inr form_question" by code_simp
  let ?env = "calm_env (CheckResult form_question) (ClassifierThrew []) []"
  let ?s = "calm_session (context_with BypassPermissions [] [])" and ?t = "plain_tool ''Read''"
  have "hasPermissionsToUseToolInner ?env ?t ''/w/.git/a~1'' ?s =
      (Inr (after_rules ?env ?t ''/w/.git/a~1'' (context_with BypassPermissions [] []) form_question), ?s)"
    by (subst calm_inner [where r = form_question])
      (simp_all add: tool_check_def form_question_def ask_rule_result_def safety_result_def)
  then show "\<exists>u. hasPermissionsToUseTool ?env ?t ''/w/.git/a~1'' ?s =
      (Inr (PAllow (Some u) (Some (ModeReason BypassPermissions))), ?s)"
    by (simp add: hasPermissionsToUseTool_def after_rules_def reset_on_allow_def)
qed

text \<open>
  A rule for everything below a root, such as the home directory, becomes the empty pattern, which the
  matcher of ignore patterns skips as it skips a blank line.
\<close>

lemma home_rule_is_blank:
  "getPatternsByRoot example_harness (context_with DefaultMode [''Edit(~/**)''] []) EditAccess Deny =
     Inr [(Some ''/h'', [(''/**'', \<lparr>source = UserSettings, ruleBehavior = Deny,
       ruleValue = \<lparr>toolName = ''Edit'', ruleContent = Some ''~/**''\<rparr>\<rparr>)])]"
  "adjust_pattern ''/**'' = []"
  by code_simp+

text \<open>
  A check of the parent of a rule's root hands two dots to the matcher, which rejects them: the whole
  check throws, and the gate goes on without the answer of the check.
\<close>

lemma parent_of_root_throws:
  "matchingRuleForInput example_harness ''/'' (context_with DefaultMode [''Read(secret)''] []) ReadAccess Deny =
     Inl ''path should be a path.relative()d string''"
  by code_simp

text \<open>The test for a plan file of the session accepts the plans of other sessions with a longer name.\<close>

lemma other_plan_accepted: "isSessionPlanFile example_harness ''/h/.dsxu/plans/blue-foxes/x.md''"
  by code_simp

text \<open>
  The session rule for the configuration folder looks at the path as it is written: through a link in
  that folder it allows a write that lands in a protected place.
\<close>

definition linked_config :: file_system where
  "linked_config =
     \<lparr>existsSync = (\<lambda>p. p \<in> set [''/'', ''/w'', ''/w/.git'', ''/w/.dsxu'', ''/w/.dsxu/l'']),
      lstatSync = map_of [(''/'', Directory), (''/w'', Directory), (''/w/.git'', Directory),
        (''/w/.dsxu'', Directory), (''/w/.dsxu/l'', SymbolicLink)],
      readlinkSync = map_of [(''/w/.dsxu/l'', ''../.git'')],
      realpathSync = map_of [(''/'', ''/''), (''/w'', ''/w''), (''/w/.git'', ''/w/.git''),
        (''/w/.dsxu'', ''/w/.dsxu''), (''/w/.dsxu/l'', ''/w/.git'')],
      stat_isDirectory = map_of [(''/w/.dsxu/l'', True)]\<rparr>"

definition config_allowed :: tool_context where
  "config_allowed = (context_with DefaultMode [] [])
     \<lparr>alwaysAllowRules := (\<lambda>s. if s = Session then [''Edit(/.dsxu/**)''] else [])\<rparr>"

lemma config_rule_escapes:
  "destination linked_config ''/w/.dsxu/l/config'' [] = Some ''/w/.git/config''"
  "checkWritePermissionForTool (example_harness\<lparr>disk := linked_config, ignoreTest := (\<lambda>ps rel.
       Inr (find (\<lambda>p. at_or_inside (drop 1 p) rel) ps))\<rparr>) edit_tool ''/w/.dsxu/l/config'' config_allowed None =
     Inr (PAllow (Some ''/w/.dsxu/l/config'') (Some (RuleReason \<lparr>source = Session, ruleBehavior = Allow,
       ruleValue = \<lparr>toolName = ''Edit'', ruleContent = Some ''/.dsxu/**''\<rparr>\<rparr>)))"
  by code_simp+

end
