(* ===== verification/Auto_Rules.thy ===== *)
theory Auto_Rules
  imports Permission_Updates
begin

text \<open>
  Allow rules that would bypass the classifier of auto mode, \<open>src/utils/permissions/permissionSetup.ts\<close>
  and \<open>dangerousPatterns.ts\<close>: how they are recognised, taken out of the context and put back.  The
  test for an internal build is an argument; the display form of a source, a relative path, is left out.
\<close>

section \<open>Dangerous rules\<close>

definition CROSS_PLATFORM_CODE_EXEC :: "string list" where
  "CROSS_PLATFORM_CODE_EXEC =
     [''python'', ''python3'', ''python2'', ''node'', ''deno'', ''tsx'', ''ruby'', ''perl'', ''php'', ''lua'',
      ''npx'', ''bunx'', ''npm run'', ''yarn run'', ''pnpm run'', ''bun run'', ''bash'', ''sh'', ''ssh'']"

definition DANGEROUS_BASH_PATTERNS :: "bool \<Rightarrow> string list" where
  "DANGEROUS_BASH_PATTERNS ant =
     CROSS_PLATFORM_CODE_EXEC @ [''zsh'', ''fish'', ''eval'', ''exec'', ''env'', ''xargs'', ''sudo''] @
     (if ant then [''fa run'', ''coo'', ''gh'', ''gh api'', ''curl'', ''wget'', ''git'', ''kubectl'', ''aws'',
        ''gcloud'', ''gsutil''] else [])"

definition POWERSHELL_PATTERNS :: "string list" where
  "POWERSHELL_PATTERNS =
     CROSS_PLATFORM_CODE_EXEC @
     [''pwsh'', ''powershell'', ''cmd'', ''wsl'', ''iex'', ''invoke-expression'', ''icm'', ''invoke-command'',
      ''start-process'', ''saps'', ''start'', ''start-job'', ''sajb'', ''start-threadjob'', ''register-objectevent'',
      ''register-engineevent'', ''register-wmievent'', ''register-scheduledjob'', ''new-pssession'', ''nsn'',
      ''enter-pssession'', ''etsn'', ''add-type'', ''new-object'']"

definition dangerous_shape :: "string \<Rightarrow> string \<Rightarrow> bool" where
  "dangerous_shape content pattern \<longleftrightarrow>
     content = pattern \<or> content = pattern @ '':*'' \<or> content = pattern @ ''*'' \<or> content = pattern @ '' *'' \<or>
     starts_with (pattern @ '' -'') content \<and> ends_with ''*'' content"

definition isDangerousBashPermission :: "bool \<Rightarrow> string \<Rightarrow> string option \<Rightarrow> bool" where
  "isDangerousBashPermission ant name rule_content \<longleftrightarrow>
     name = BASH_TOOL_NAME \<and>
     (case rule_content of
        None \<Rightarrow> True
      | Some c \<Rightarrow>
          (let content = toLowerCase (js_trim c)
           in c = [] \<or> content = ''*'' \<or>
              list_ex (\<lambda>p. dangerous_shape content (toLowerCase p)) (DANGEROUS_BASH_PATTERNS ant)))"

text \<open>\<open>npm run\<close> has the executable \<open>npm.exe run\<close>.\<close>

definition exe_form :: "string \<Rightarrow> string" where
  "exe_form pattern =
     takeWhile (\<lambda>c. c \<noteq> CHR '' '') pattern @ ''.exe'' @ dropWhile (\<lambda>c. c \<noteq> CHR '' '') pattern"

definition isDangerousPowerShellPermission :: "string \<Rightarrow> string option \<Rightarrow> bool" where
  "isDangerousPowerShellPermission name rule_content \<longleftrightarrow>
     name = POWERSHELL_TOOL_NAME \<and>
     (case rule_content of
        None \<Rightarrow> True
      | Some c \<Rightarrow>
          (let content = toLowerCase (js_trim c)
           in c = [] \<or> content = ''*'' \<or>
              list_ex (\<lambda>p. dangerous_shape content p \<or> dangerous_shape content (exe_form p)) POWERSHELL_PATTERNS))"

definition isDangerousTaskPermission :: "features \<Rightarrow> string \<Rightarrow> bool" where
  "isDangerousTaskPermission fl name \<longleftrightarrow> normalizeArchivedToolName fl name = AGENT_TOOL_NAME"

definition isDangerousClassifierPermission :: "features \<Rightarrow> bool \<Rightarrow> string \<Rightarrow> string option \<Rightarrow> bool" where
  "isDangerousClassifierPermission fl ant name rule_content \<longleftrightarrow>
     ant \<and> name = ''Tmux'' \<or>
     isDangerousBashPermission ant name rule_content \<or>
     isDangerousPowerShellPermission name rule_content \<or> isDangerousTaskPermission fl name"

abbreviation dangerous_value :: "features \<Rightarrow> bool \<Rightarrow> rule_value \<Rightarrow> bool" where
  "dangerous_value fl ant v \<equiv> isDangerousClassifierPermission fl ant (toolName v) (ruleContent v)"

record dangerous_info =
  info_value :: rule_value
  info_source :: rule_source
  ruleDisplay :: string

text \<open>
  The regular expression for a tool of the command line: a name, and in parentheses a content without a
  closing parenthesis.
\<close>

definition cli_spec :: "string \<Rightarrow> (string \<times> string option) option" where
  "cli_spec spec =
     (let name = takeWhile (\<lambda>c. c \<noteq> LP) spec; rest = dropWhile (\<lambda>c. c \<noteq> LP) spec
      in if name = [] then None
         else if rest = [] then Some (js_trim name, None)
         else if 2 \<le> length rest \<and> last rest = RP \<and> RP \<notin> set (butlast rest)
         then Some (js_trim name, Some (js_trim (butlast (tl rest))))
         else None)"

definition rule_display :: "rule_value \<Rightarrow> string" where
  "rule_display v =
     (case ruleContent v of
        Some c \<Rightarrow> if c \<noteq> [] then toolName v @ ''('' @ c @ '')'' else toolName v @ ''(*)''
      | None \<Rightarrow> toolName v @ ''(*)'')"

definition findDangerousClassifierPermissions ::
  "features \<Rightarrow> bool \<Rightarrow> permission_rule list \<Rightarrow> string list \<Rightarrow> dangerous_info list" where
  "findDangerousClassifierPermissions fl ant rules cliAllowedTools =
     List.map_filter (\<lambda>rule.
       if ruleBehavior rule = Allow \<and> dangerous_value fl ant (ruleValue rule)
       then Some \<lparr>info_value = ruleValue rule, info_source = source rule, ruleDisplay = rule_display (ruleValue rule)\<rparr>
       else None) rules @
     List.map_filter (\<lambda>spec.
       case cli_spec spec of
         None \<Rightarrow> None
       | Some (name, content) \<Rightarrow>
           if isDangerousClassifierPermission fl ant name content
           then Some \<lparr>info_value = \<lparr>toolName = name, ruleContent = content\<rparr>, info_source = CliArg,
             ruleDisplay = (if content \<noteq> None \<and> content \<noteq> Some [] then spec else name @ ''(*)'')\<rparr>
           else None) cliAllowedTools"

section \<open>Overly broad rules\<close>

definition isOverlyBroadBashAllowRule :: "rule_value \<Rightarrow> bool" where
  "isOverlyBroadBashAllowRule v \<longleftrightarrow> toolName v = BASH_TOOL_NAME \<and> ruleContent v = None"

definition isOverlyBroadPowerShellAllowRule :: "rule_value \<Rightarrow> bool" where
  "isOverlyBroadPowerShellAllowRule v \<longleftrightarrow> toolName v = POWERSHELL_TOOL_NAME \<and> ruleContent v = None"

text \<open>The two finders differ in the name of the tool only.\<close>

definition find_overly_broad ::
  "string \<Rightarrow> (rule_value \<Rightarrow> bool) \<Rightarrow> features \<Rightarrow> permission_rule list \<Rightarrow> string list \<Rightarrow> dangerous_info list" where
  "find_overly_broad name broad fl rules cliAllowedTools =
     List.map_filter (\<lambda>rule.
       if ruleBehavior rule = Allow \<and> broad (ruleValue rule)
       then Some \<lparr>info_value = ruleValue rule, info_source = source rule, ruleDisplay = name @ ''(*)''\<rparr>
       else None) rules @
     List.map_filter (\<lambda>spec.
       let parsed = permissionRuleValueFromString fl spec
       in if broad parsed then Some \<lparr>info_value = parsed, info_source = CliArg, ruleDisplay = name @ ''(*)''\<rparr>
          else None) cliAllowedTools"

definition findOverlyBroadBashPermissions ::
  "features \<Rightarrow> permission_rule list \<Rightarrow> string list \<Rightarrow> dangerous_info list" where
  "findOverlyBroadBashPermissions = find_overly_broad BASH_TOOL_NAME isOverlyBroadBashAllowRule"

definition findOverlyBroadPowerShellPermissions ::
  "features \<Rightarrow> permission_rule list \<Rightarrow> string list \<Rightarrow> dangerous_info list" where
  "findOverlyBroadPowerShellPermissions = find_overly_broad POWERSHELL_TOOL_NAME isOverlyBroadPowerShellAllowRule"

section \<open>Taking rules out and putting them back\<close>

definition isPermissionUpdateDestination :: "rule_source \<Rightarrow> bool" where
  "isPermissionUpdateDestination s \<longleftrightarrow> s \<in> {UserSettings, ProjectSettings, LocalSettings, Session, CliArg}"

definition group_by_destination :: "dangerous_info list \<Rightarrow> (rule_source \<times> rule_value list) list" where
  "group_by_destination perms =
     foldl (\<lambda>g p.
       if \<not> isPermissionUpdateDestination (info_source p) then g
       else AList.update (info_source p)
              ((case map_of g (info_source p) of None \<Rightarrow> [] | Some vs \<Rightarrow> vs) @ [info_value p]) g) [] perms"

definition removeDangerousPermissions :: "tool_context \<Rightarrow> dangerous_info list \<Rightarrow> tool_context" where
  "removeDangerousPermissions ctx perms =
     foldl (\<lambda>c (destination, rules). applyPermissionUpdate c (RemoveRules destination rules Allow)) ctx
       (group_by_destination perms)"

text \<open>
  \<open>Object.entries\<close> of the rules of a context.  The order of the sources has no influence: the rules of
  different sources are handled apart.
\<close>

definition RULE_SOURCES :: "rule_source list" where
  "RULE_SOURCES =
     [UserSettings, ProjectSettings, LocalSettings, FlagSettings, PolicySettings, CliArg, CommandSource, Session]"

definition allow_rules_of :: "features \<Rightarrow> tool_context \<Rightarrow> permission_rule list" where
  "allow_rules_of fl ctx =
     concat (map (\<lambda>s. map (\<lambda>r. \<lparr>source = s, ruleBehavior = Allow, ruleValue = permissionRuleValueFromString fl r\<rparr>)
       (alwaysAllowRules ctx s)) RULE_SOURCES)"

definition stash_of :: "dangerous_info list \<Rightarrow> rules_by_source" where
  "stash_of perms =
     foldl (\<lambda>st p.
       if \<not> isPermissionUpdateDestination (info_source p) then st
       else st(info_source p := st (info_source p) @ [permissionRuleValueToString (info_value p)])) (\<lambda>_. []) perms"

definition stripDangerousPermissionsForAutoMode :: "features \<Rightarrow> bool \<Rightarrow> tool_context \<Rightarrow> tool_context" where
  "stripDangerousPermissionsForAutoMode fl ant ctx =
     (let dangerousPermissions = findDangerousClassifierPermissions fl ant (allow_rules_of fl ctx) []
      in if dangerousPermissions = []
         then ctx\<lparr>strippedDangerousRules :=
                Some (case strippedDangerousRules ctx of None \<Rightarrow> (\<lambda>_. []) | Some st \<Rightarrow> st)\<rparr>
         else (removeDangerousPermissions ctx dangerousPermissions)
                \<lparr>strippedDangerousRules := Some (stash_of dangerousPermissions)\<rparr>)"

definition restoreDangerousPermissions :: "features \<Rightarrow> tool_context \<Rightarrow> tool_context" where
  "restoreDangerousPermissions fl ctx =
     (case strippedDangerousRules ctx of
        None \<Rightarrow> ctx
      | Some stash \<Rightarrow>
          (foldl (\<lambda>c s. if stash s = [] then c
             else applyPermissionUpdate c (AddRules s (map (permissionRuleValueFromString fl) (stash s)) Allow))
            ctx RULE_SOURCES)\<lparr>strippedDangerousRules := None\<rparr>)"

section \<open>What stripping and restoring do\<close>

definition dangerous_string :: "features \<Rightarrow> bool \<Rightarrow> string \<Rightarrow> bool" where
  "dangerous_string fl ant r \<longleftrightarrow> dangerous_value fl ant (permissionRuleValueFromString fl r)"

lemma in_rule_sources [simp]: "s \<in> set RULE_SOURCES"
  by (cases s) (simp_all add: RULE_SOURCES_def)

lemma distinct_sources [simp]: "distinct RULE_SOURCES"
  by (simp add: RULE_SOURCES_def)

definition info_of :: "features \<Rightarrow> rule_source \<Rightarrow> string \<Rightarrow> dangerous_info" where
  "info_of fl s r =
     (let v = permissionRuleValueFromString fl r
      in \<lparr>info_value = v, info_source = s, ruleDisplay = rule_display v\<rparr>)"

lemma info_of_simps [simp]:
  "info_value (info_of fl s r) = permissionRuleValueFromString fl r" "info_source (info_of fl s r) = s"
  by (simp_all add: info_of_def Let_def)

text \<open>The dangerous rules of a context, source by source.\<close>

lemma map_filter_found:
  "List.map_filter (\<lambda>x. if P x then Some (f x) else None) xs = map f (filter P xs)"
  by (induction xs) (simp_all add: List.map_filter_simps)

lemma found_rules:
  "findDangerousClassifierPermissions fl ant (allow_rules_of fl ctx) [] =
     concat (map (\<lambda>s. map (info_of fl s) (filter (dangerous_string fl ant) (alwaysAllowRules ctx s))) RULE_SOURCES)"
proof -
  have one: "map (\<lambda>rule. \<lparr>info_value = ruleValue rule, info_source = source rule, ruleDisplay = rule_display (ruleValue rule)\<rparr>)
      (filter (\<lambda>rule. ruleBehavior rule = Allow \<and> dangerous_value fl ant (ruleValue rule))
        (map (\<lambda>r. \<lparr>source = s, ruleBehavior = Allow, ruleValue = permissionRuleValueFromString fl r\<rparr>) rs)) =
      map (info_of fl s) (filter (dangerous_string fl ant) rs)" for s rs
    by (induction rs) (simp_all add: dangerous_string_def info_of_def Let_def)
  have dist: "map f (filter P (concat (map g xs))) = concat (map (\<lambda>x. map f (filter P (g x))) xs)"
    for f :: "permission_rule \<Rightarrow> dangerous_info" and P and g :: "rule_source \<Rightarrow> permission_rule list" and xs
    by (induction xs) simp_all
  show ?thesis
    unfolding findDangerousClassifierPermissions_def map_filter_found allow_rules_of_def dist one
    by (simp add: List.map_filter_simps)
qed

lemma filter_source:
  "distinct ss \<Longrightarrow>
     filter (\<lambda>p. info_source p = s) (concat (map (\<lambda>t. map (info_of fl t) (f t)) ss)) =
       (if s \<in> set ss then map (info_of fl s) (f s) else [])"
  by (induction ss) (auto simp: filter_map comp_def filter_empty_conv)

definition at_destination :: "rule_source \<Rightarrow> dangerous_info \<Rightarrow> bool" where
  "at_destination s p \<longleftrightarrow> isPermissionUpdateDestination s \<and> info_source p = s"

lemma group_by_destination:
  "map_of (group_by_destination perms) s =
     (if filter (at_destination s) perms = [] then None else Some (map info_value (filter (at_destination s) perms)))"
  "distinct (map fst (group_by_destination perms))"
proof (induction perms arbitrary: s rule: rev_induct)
  case (snoc p perms)
  have g: "group_by_destination (perms @ [p]) =
      (if \<not> isPermissionUpdateDestination (info_source p) then group_by_destination perms
       else AList.update (info_source p)
         ((case map_of (group_by_destination perms) (info_source p) of None \<Rightarrow> [] | Some vs \<Rightarrow> vs) @ [info_value p])
         (group_by_destination perms))"
    by (simp add: group_by_destination_def)
  { case 1 show ?case using snoc.IH(1) by (auto simp: g update_conv' at_destination_def [abs_def]) }
  { case 2 show ?case using snoc.IH(2) by (simp add: g distinct_update) }
qed (simp_all add: group_by_destination_def)

lemma stash_of: "stash_of perms s = map (permissionRuleValueToString \<circ> info_value) (filter (at_destination s) perms)"
  by (induction perms rule: rev_induct) (auto simp: stash_of_def at_destination_def)


text \<open>
  The rules of a session are kept in the normal form of the printer: rules from disk are printed values,
  and those of the command line are normalised.
\<close>

definition normal_rules :: "features \<Rightarrow> rules_by_source \<Rightarrow> bool" where
  "normal_rules fl rs \<longleftrightarrow> (\<forall>s r. isPermissionUpdateDestination s \<longrightarrow> r \<in> set (rs s) \<longrightarrow> normalizeEntry fl r = r)"

lemma normal_entry [simp]: "normalizeEntry fl (normalizeEntry fl r) = normalizeEntry fl r"
  by (simp add: normalizeEntry_def rule.normal_idem)

lemma remove_fold:
  "distinct (map fst g) \<Longrightarrow>
     alwaysAllowRules (foldl (\<lambda>c (d, vs). applyPermissionUpdate c (RemoveRules d vs Allow)) ctx g) s =
       (case map_of g s of
          None \<Rightarrow> alwaysAllowRules ctx s
        | Some vs \<Rightarrow> filter (\<lambda>r. r \<notin> permissionRuleValueToString ` set vs) (alwaysAllowRules ctx s))"
proof (induction g arbitrary: ctx)
  case (Cons x g)
  obtain d vs where x: "x = (d, vs)" by (cases x)
  have "alwaysAllowRules (applyPermissionUpdate ctx (RemoveRules d vs Allow)) t =
      (if t = d then filter (\<lambda>r. r \<notin> permissionRuleValueToString ` set vs) (alwaysAllowRules ctx d)
       else alwaysAllowRules ctx t)" for t
    by (simp add: set_rules_def rules_of_def)
  moreover have "map_of g d = None" using Cons.prems by (simp add: x map_of_eq_None_iff)
  ultimately show ?case using Cons by (auto simp: x split: option.splits)
qed simp

lemma remove_frame:
  "foldl (\<lambda>c (d, vs). applyPermissionUpdate c (RemoveRules d vs Allow)) ctx g =
     ctx\<lparr>alwaysAllowRules :=
       alwaysAllowRules (foldl (\<lambda>c (d, vs). applyPermissionUpdate c (RemoveRules d vs Allow)) ctx g)\<rparr>"
proof (induction g rule: rev_induct)
  case (snoc x g)
  let ?F = "\<lambda>g. foldl (\<lambda>c (d, vs). applyPermissionUpdate c (RemoveRules d vs Allow)) ctx g"
  obtain X where "?F (g @ [x]) = (?F g)\<lparr>alwaysAllowRules := X\<rparr>"
    by (cases x) (auto simp: set_rules_def rules_of_def Let_def)
  moreover have "(?F g)\<lparr>alwaysAllowRules := X\<rparr> = ctx\<lparr>alwaysAllowRules := X\<rparr>" by (subst snoc.IH) simp
  ultimately show ?case by simp
qed simp

definition kept :: "features \<Rightarrow> bool \<Rightarrow> rules_by_source \<Rightarrow> rules_by_source" where
  "kept fl ant rs s =
     (if isPermissionUpdateDestination s then filter (\<lambda>r. \<not> dangerous_string fl ant r) (rs s) else rs s)"

definition taken :: "features \<Rightarrow> bool \<Rightarrow> rules_by_source \<Rightarrow> rules_by_source" where
  "taken fl ant rs s = (if isPermissionUpdateDestination s then filter (dangerous_string fl ant) (rs s) else [])"

lemma found_at:
  "filter (at_destination s) (findDangerousClassifierPermissions fl ant (allow_rules_of fl ctx) []) =
     (if isPermissionUpdateDestination s
      then map (info_of fl s) (filter (dangerous_string fl ant) (alwaysAllowRules ctx s)) else [])"
proof (cases "isPermissionUpdateDestination s")
  case True
  then have "at_destination s = (\<lambda>p. info_source p = s)" by (simp add: at_destination_def fun_eq_iff)
  then show ?thesis
    using True filter_source [OF distinct_sources, of s fl "\<lambda>t. filter (dangerous_string fl ant) (alwaysAllowRules ctx t)"]
    by (simp add: found_rules)
qed (simp add: at_destination_def filter_empty_conv)

lemma strip_context:
  fixes ant :: bool
  assumes "normal_rules fl (alwaysAllowRules ctx)"
  defines "found \<equiv> findDangerousClassifierPermissions fl ant (allow_rules_of fl ctx) []"
  shows "stripDangerousPermissionsForAutoMode fl ant ctx =
    ctx\<lparr>alwaysAllowRules := kept fl ant (alwaysAllowRules ctx),
      strippedDangerousRules := Some (if found = []
        then (case strippedDangerousRules ctx of None \<Rightarrow> (\<lambda>_. []) | Some st \<Rightarrow> st)
        else taken fl ant (alwaysAllowRules ctx))\<rparr>"
proof -
  have same: "permissionRuleValueToString (permissionRuleValueFromString fl r) = r"
    if "isPermissionUpdateDestination s" "r \<in> set (alwaysAllowRules ctx s)" for s r
    using assms(1) that by (auto simp: normal_rules_def normalizeEntry_def)
  have stash: "stash_of found = taken fl ant (alwaysAllowRules ctx)"
    using same by (auto simp: fun_eq_iff stash_of found_def found_at taken_def intro!: map_idI)
  have rules: "alwaysAllowRules (removeDangerousPermissions ctx found) = kept fl ant (alwaysAllowRules ctx)"
  proof
    fix s
    have "permissionRuleValueToString ` permissionRuleValueFromString fl ` {x \<in> set (alwaysAllowRules ctx s). D x} =
        {x \<in> set (alwaysAllowRules ctx s). D x}" if "isPermissionUpdateDestination s" for D
      using same [OF that] by (force simp: image_image)
    then show "alwaysAllowRules (removeDangerousPermissions ctx found) s = kept fl ant (alwaysAllowRules ctx) s"
      unfolding removeDangerousPermissions_def remove_fold [OF group_by_destination(2)] group_by_destination(1)
        found_def found_at kept_def
      by (auto simp: filter_empty_conv simp del: filter_set intro!: filter_cong filter_True [symmetric])
  qed
  have frame: "removeDangerousPermissions ctx found = ctx\<lparr>alwaysAllowRules := kept fl ant (alwaysAllowRules ctx)\<rparr>"
    unfolding rules [symmetric] removeDangerousPermissions_def by (rule remove_frame)
  show ?thesis
  proof (cases "found = []")
    case True
    have "\<not> dangerous_string fl ant r"
      if "isPermissionUpdateDestination t" "r \<in> set (alwaysAllowRules ctx t)" for t r
      using found_at [of t fl ant ctx] True that by (auto simp: found_def filter_empty_conv)
    then have "kept fl ant (alwaysAllowRules ctx) = alwaysAllowRules ctx"
      by (auto simp: fun_eq_iff kept_def intro!: filter_True)
    then show ?thesis using True by (simp add: stripDangerousPermissionsForAutoMode_def found_def [symmetric])
  next
    case False
    then show ?thesis
      by (simp add: stripDangerousPermissionsForAutoMode_def found_def [symmetric] frame stash)
  qed
qed


lemma restore_fold:
  "distinct ss \<Longrightarrow>
     foldl (\<lambda>c s. if stash s = [] then c
       else applyPermissionUpdate c (AddRules s (map (permissionRuleValueFromString fl) (stash s)) Allow)) ctx ss =
     ctx\<lparr>alwaysAllowRules := (\<lambda>s. alwaysAllowRules ctx s @
       (if s \<in> set ss then map (normalizeEntry fl) (stash s) else []))\<rparr>"
proof (induction ss rule: rev_induct)
  case (snoc s ss)
  let ?F = "foldl (\<lambda>c s. if stash s = [] then c
    else applyPermissionUpdate c (AddRules s (map (permissionRuleValueFromString fl) (stash s)) Allow)) ctx"
  have F: "?F ss = ctx\<lparr>alwaysAllowRules := (\<lambda>s. alwaysAllowRules ctx s @
       (if s \<in> set ss then map (normalizeEntry fl) (stash s) else []))\<rparr>"
    using snoc by simp
  have "s \<notin> set ss" using snoc.prems by simp
  then show ?case
    by (simp add: F set_rules_def rules_of_def fun_eq_iff normalizeEntry_def)
qed simp

lemma restore_context:
  "restoreDangerousPermissions fl ctx =
     (case strippedDangerousRules ctx of
        None \<Rightarrow> ctx
      | Some stash \<Rightarrow> ctx\<lparr>alwaysAllowRules := (\<lambda>s. alwaysAllowRules ctx s @ map (normalizeEntry fl) (stash s)),
          strippedDangerousRules := None\<rparr>)"
  by (simp add: restoreDangerousPermissions_def restore_fold split: option.split)

end
