(* ===== verification/Permission_Modes.thy ===== *)
theory Permission_Modes
  imports Auto_Rules Permission_Gate
begin

text \<open>
  The changes of the permission mode: \<open>src/utils/permissions/permissionSetup.ts\<close> with
  \<open>getNextPermissionMode.ts\<close> and \<open>autoModeState.ts\<close>, and the handlers that call them, of the prompt
  (\<open>src/components/PromptInput/PromptInput.tsx\<close>), of the control messages (\<open>src/cli/print.ts\<close>), of the
  tools that enter and leave plan mode and of changed settings.  The variables of the modules and the
  permission context are one state; a handler reads the state that it changes.
\<close>

section \<open>State and environment\<close>

record mode_env =
  menv_features :: features
  antBuild :: bool
  autoDisabledBySettings :: bool
  modelSupportsAutoMode :: bool
  skipAutoPermissionPrompt :: "rule_source \<Rightarrow> bool option"
  planUsesAuto :: "rule_source \<Rightarrow> bool option"
  bypassDisabledByGate :: bool
  bypassDisabledBySettings :: bool

record mode_session =
  mctx :: tool_context
  autoModeActive :: bool
  autoModeFlagCli :: bool
  autoModeCircuitBroken :: bool
  needsPlanModeExitAttachment :: bool
  needsAutoModeExitAttachment :: bool
  hasExitedPlanMode :: bool
  previousModeBeforeAuto :: "permission_mode option"
  optInPending :: bool

abbreviation classifier_feature :: "mode_env \<Rightarrow> bool" where
  "classifier_feature e \<equiv> transcript_classifier (menv_features e)"

abbreviation on_context :: "(tool_context \<Rightarrow> tool_context) \<Rightarrow> mode_session \<Rightarrow> mode_session" where
  "on_context f s \<equiv> s\<lparr>mctx := f (mctx s)\<rparr>"

definition strip_rules :: "mode_env \<Rightarrow> mode_session \<Rightarrow> mode_session" where
  "strip_rules e = on_context (stripDangerousPermissionsForAutoMode (menv_features e) (antBuild e))"

definition restore_rules :: "mode_env \<Rightarrow> mode_session \<Rightarrow> mode_session" where
  "restore_rules e = on_context (restoreDangerousPermissions (menv_features e))"

definition hasAutoModeOptIn :: "mode_env \<Rightarrow> bool" where
  "hasAutoModeOptIn e \<longleftrightarrow>
     classifier_feature e \<and>
     list_ex (\<lambda>s. skipAutoPermissionPrompt e s = Some True) [UserSettings, LocalSettings, FlagSettings, PolicySettings]"

definition getUseAutoModeDuringPlan :: "mode_env \<Rightarrow> bool" where
  "getUseAutoModeDuringPlan e \<longleftrightarrow>
     (if classifier_feature e
      then list_all (\<lambda>s. planUsesAuto e s \<noteq> Some False) [PolicySettings, FlagSettings, UserSettings, LocalSettings]
      else True)"

definition isBypassPermissionsModeDisabled :: "mode_env \<Rightarrow> bool" where
  "isBypassPermissionsModeDisabled e \<longleftrightarrow> bypassDisabledByGate e \<or> bypassDisabledBySettings e"

section \<open>The gate of auto mode\<close>

definition isAutoModeGateEnabled :: "mode_env \<Rightarrow> mode_session \<Rightarrow> bool" where
  "isAutoModeGateEnabled e s \<longleftrightarrow>
     (if autoModeCircuitBroken s then False
      else if autoDisabledBySettings e then False
      else modelSupportsAutoMode e)"

datatype unavailable_reason = SettingsDisable | CircuitBreaker | ModelUnsupported

definition getAutoModeUnavailableReason :: "mode_env \<Rightarrow> mode_session \<Rightarrow> unavailable_reason option" where
  "getAutoModeUnavailableReason e s =
     (if autoDisabledBySettings e then Some SettingsDisable
      else if autoModeCircuitBroken s then Some CircuitBreaker
      else if \<not> modelSupportsAutoMode e then Some ModelUnsupported else None)"

definition getAutoModeUnavailableNotification :: "mode_env \<Rightarrow> unavailable_reason \<Rightarrow> string" where
  "getAutoModeUnavailableNotification e why =
     (case why of
        SettingsDisable \<Rightarrow> ''auto mode disabled by settings''
      | CircuitBreaker \<Rightarrow> ''auto mode is unavailable for your plan''
      | ModelUnsupported \<Rightarrow> ''auto mode unavailable for this model'') @
     (if antBuild e then '' '' @ [CHR 0xB7] @ '' #dsxu-code-feedback'' else [])"

definition shouldPlanUseAutoMode :: "mode_env \<Rightarrow> mode_session \<Rightarrow> bool" where
  "shouldPlanUseAutoMode e s \<longleftrightarrow>
     classifier_feature e \<and> hasAutoModeOptIn e \<and> isAutoModeGateEnabled e s \<and> getUseAutoModeDuringPlan e"

definition hasAutoModeOptInAnySource :: "mode_env \<Rightarrow> mode_session \<Rightarrow> bool" where
  "hasAutoModeOptInAnySource e s \<longleftrightarrow> autoModeFlagCli s \<or> hasAutoModeOptIn e"

section \<open>The next mode of the carousel\<close>

definition canCycleToAuto :: "mode_env \<Rightarrow> mode_session \<Rightarrow> bool" where
  "canCycleToAuto e s \<longleftrightarrow>
     classifier_feature e \<and> isAutoModeAvailable (mctx s) = Some True \<and> isAutoModeGateEnabled e s"

definition getNextPermissionMode :: "mode_env \<Rightarrow> mode_session \<Rightarrow> permission_mode" where
  "getNextPermissionMode e s =
     (case mode (mctx s) of
        DefaultMode \<Rightarrow>
          (if antBuild e
           then (if isBypassPermissionsModeAvailable (mctx s) then BypassPermissions
                 else if canCycleToAuto e s then AutoMode else DefaultMode)
           else AcceptEdits)
      | AcceptEdits \<Rightarrow> PlanMode
      | PlanMode \<Rightarrow>
          (if isBypassPermissionsModeAvailable (mctx s) then BypassPermissions
           else if canCycleToAuto e s then AutoMode else DefaultMode)
      | BypassPermissions \<Rightarrow> (if canCycleToAuto e s then AutoMode else DefaultMode)
      | _ \<Rightarrow> DefaultMode)"

section \<open>Transitions\<close>

definition handlePlanModeTransition :: "permission_mode \<Rightarrow> permission_mode \<Rightarrow> mode_session \<Rightarrow> mode_session" where
  "handlePlanModeTransition fromMode toMode s =
     (let s1 = (if toMode = PlanMode \<and> fromMode \<noteq> PlanMode then s\<lparr>needsPlanModeExitAttachment := False\<rparr> else s)
      in if fromMode = PlanMode \<and> toMode \<noteq> PlanMode then s1\<lparr>needsPlanModeExitAttachment := True\<rparr> else s1)"

definition handleAutoModeTransition :: "permission_mode \<Rightarrow> permission_mode \<Rightarrow> mode_session \<Rightarrow> mode_session" where
  "handleAutoModeTransition fromMode toMode s =
     (if fromMode = AutoMode \<and> toMode = PlanMode \<or> fromMode = PlanMode \<and> toMode = AutoMode then s
      else
        (let s1 = (if toMode = AutoMode \<and> fromMode \<noteq> AutoMode then s\<lparr>needsAutoModeExitAttachment := False\<rparr> else s)
         in if fromMode = AutoMode \<and> toMode \<noteq> AutoMode then s1\<lparr>needsAutoModeExitAttachment := True\<rparr> else s1))"

definition prepareContextForPlanMode :: "mode_env \<Rightarrow> mode_session \<Rightarrow> mode_session" where
  "prepareContextForPlanMode e s =
     (let currentMode = mode (mctx s); planAutoMode = shouldPlanUseAutoMode e s;
          remember = on_context (\<lambda>c. c\<lparr>prePlanMode := Some currentMode\<rparr>)
      in if currentMode = PlanMode then s
         else if classifier_feature e \<and> currentMode = AutoMode then
           (if planAutoMode then remember s
            else remember (restore_rules e (s\<lparr>autoModeActive := False, needsAutoModeExitAttachment := True\<rparr>)))
         else if classifier_feature e \<and> planAutoMode \<and> currentMode \<noteq> BypassPermissions then
           remember (strip_rules e (s\<lparr>autoModeActive := True\<rparr>))
         else remember s)"

text \<open>The result is the message of the error, if it throws, and the state.\<close>

definition transitionPermissionMode ::
  "mode_env \<Rightarrow> permission_mode \<Rightarrow> permission_mode \<Rightarrow> mode_session \<Rightarrow> string option \<times> mode_session" where
  "transitionPermissionMode e fromMode toMode s =
     (if fromMode = toMode then (None, s)
      else
        (let s1 = handleAutoModeTransition fromMode toMode (handlePlanModeTransition fromMode toMode s);
             s2 = (if fromMode = PlanMode then s1\<lparr>hasExitedPlanMode := True\<rparr> else s1);
             fromUsesClassifier = (fromMode = AutoMode \<or> fromMode = PlanMode \<and> autoModeActive s2);
             toUsesClassifier = (toMode = AutoMode);
             forget = (\<lambda>t. if fromMode = PlanMode then on_context (\<lambda>c. c\<lparr>prePlanMode := None\<rparr>) t else t)
         in if \<not> classifier_feature e then (None, forget s2)
            else if toMode = PlanMode then (None, prepareContextForPlanMode e s2)
            else if toUsesClassifier \<and> \<not> fromUsesClassifier then
              (if \<not> isAutoModeGateEnabled e s2
               then (Some ''Cannot transition to auto mode: gate is not enabled'', s2)
               else (None, forget (strip_rules e (s2\<lparr>autoModeActive := True\<rparr>))))
            else if fromUsesClassifier \<and> \<not> toUsesClassifier then
              (None, forget (restore_rules e
                (s2\<lparr>autoModeActive := False, needsAutoModeExitAttachment := True\<rparr>)))
            else (None, forget s2)))"

definition set_mode :: "permission_mode \<Rightarrow> mode_session \<Rightarrow> mode_session" where
  "set_mode m = on_context (\<lambda>c. c\<lparr>mode := m\<rparr>)"

text \<open>Transition and new mode, unless it throws.\<close>

definition transition_and_set ::
  "mode_env \<Rightarrow> permission_mode \<Rightarrow> permission_mode \<Rightarrow> mode_session \<Rightarrow> string option \<times> mode_session" where
  "transition_and_set e fromMode toMode s =
     (case transitionPermissionMode e fromMode toMode s of
        (Some err, t) \<Rightarrow> (Some err, t)
      | (None, t) \<Rightarrow> (None, set_mode toMode t))"

definition cyclePermissionMode :: "mode_env \<Rightarrow> mode_session \<Rightarrow> string option \<times> permission_mode \<times> mode_session" where
  "cyclePermissionMode e s =
     (let nextMode = getNextPermissionMode e s; (err, t) = transitionPermissionMode e (mode (mctx s)) nextMode s
      in (err, nextMode, t))"

section \<open>Handlers\<close>

text \<open>
  The key that cycles the modes.  On the first entry to auto mode only the label of the mode changes and a
  dialog is opened; \<open>optInPending\<close> says that the dialog or its timer is there.
\<close>

definition handleCycleMode :: "mode_env \<Rightarrow> mode_session \<Rightarrow> mode_session" where
  "handleCycleMode e s =
     (let nextMode = getNextPermissionMode e s in
      if classifier_feature e \<and> nextMode = AutoMode \<and> mode (mctx s) \<noteq> AutoMode \<and> \<not> hasAutoModeOptIn e
      then set_mode AutoMode (s\<lparr>previousModeBeforeAuto := Some (mode (mctx s)), optInPending := True\<rparr>)
      else
        (let s1 = (if classifier_feature e \<and> optInPending s
                   then s\<lparr>optInPending := False, previousModeBeforeAuto := None\<rparr> else s)
         in case cyclePermissionMode e s1 of
              (Some err, _, t) \<Rightarrow> t
            | (None, m, t) \<Rightarrow> set_mode m t))"

definition handleAutoModeOptInAccept :: "mode_env \<Rightarrow> mode_session \<Rightarrow> mode_session" where
  "handleAutoModeOptInAccept e s =
     (if \<not> classifier_feature e then s
      else
        (let fromMode = (case previousModeBeforeAuto s of Some m \<Rightarrow> m | None \<Rightarrow> mode (mctx s))
         in snd (transition_and_set e fromMode AutoMode (s\<lparr>optInPending := False, previousModeBeforeAuto := None\<rparr>))))"

definition handleAutoModeOptInDecline :: "mode_env \<Rightarrow> mode_session \<Rightarrow> mode_session" where
  "handleAutoModeOptInDecline e s =
     (if \<not> classifier_feature e then s
      else
        (let s1 = s\<lparr>optInPending := False\<rparr>
         in case previousModeBeforeAuto s of
              None \<Rightarrow> s1
            | Some m \<Rightarrow>
                on_context (\<lambda>c. c\<lparr>mode := m, isAutoModeAvailable := Some False\<rparr>)
                  (s1\<lparr>autoModeActive := False, previousModeBeforeAuto := None\<rparr>)))"

text \<open>The control message that sets a mode: an error to report, or the new state.\<close>

definition handleSetPermissionMode :: "mode_env \<Rightarrow> permission_mode \<Rightarrow> mode_session \<Rightarrow> string option \<times> mode_session" where
  "handleSetPermissionMode e m s =
     (if m = BypassPermissions \<and> isBypassPermissionsModeDisabled e
      then (Some ''Cannot set permission mode to bypassPermissions because it is disabled by settings or configuration'', s)
      else if m = BypassPermissions \<and> \<not> isBypassPermissionsModeAvailable (mctx s)
      then (Some ''Cannot set permission mode to bypassPermissions because the session was not launched with --dangerously-skip-permissions'', s)
      else if classifier_feature e \<and> m = AutoMode \<and> \<not> isAutoModeGateEnabled e s
      then (Some (case getAutoModeUnavailableReason e s of
          Some why \<Rightarrow> ''Cannot set permission mode to auto: '' @ getAutoModeUnavailableNotification e why
        | None \<Rightarrow> ''Cannot set permission mode to auto''), s)
      else transition_and_set e (mode (mctx s)) m s)"

text \<open>The tool and the command that enter plan mode.\<close>

definition enterPlanMode :: "mode_env \<Rightarrow> mode_session \<Rightarrow> mode_session" where
  "enterPlanMode e s =
     set_mode PlanMode (prepareContextForPlanMode e (handlePlanModeTransition (mode (mctx s)) PlanMode s))"

text \<open>The tool that leaves plan mode.\<close>

definition exitPlanMode :: "mode_env \<Rightarrow> mode_session \<Rightarrow> mode_session" where
  "exitPlanMode e s =
     (if mode (mctx s) \<noteq> PlanMode then s
      else
        (let s1 = s\<lparr>hasExitedPlanMode := True, needsPlanModeExitAttachment := True\<rparr>;
             pre = (case prePlanMode (mctx s) of Some m \<Rightarrow> m | None \<Rightarrow> DefaultMode);
             restoreMode = (if classifier_feature e \<and> pre = AutoMode \<and> \<not> isAutoModeGateEnabled e s
                            then DefaultMode else pre);
             s2 = (if classifier_feature e
                   then s1\<lparr>autoModeActive := (restoreMode = AutoMode),
                     needsAutoModeExitAttachment :=
                       (if autoModeActive s1 \<and> restoreMode \<noteq> AutoMode then True
                        else needsAutoModeExitAttachment s1)\<rparr>
                   else s1);
             s3 = (if classifier_feature e \<and> restoreMode = AutoMode then strip_rules e s2
                   else if classifier_feature e \<and> strippedDangerousRules (mctx s) \<noteq> None then restore_rules e s2
                   else s2)
         in on_context (\<lambda>c. c\<lparr>mode := restoreMode, prePlanMode := None\<rparr>) s3))"

text \<open>Reconciliation after a change of the settings.\<close>

definition transitionPlanAutoMode :: "mode_env \<Rightarrow> mode_session \<Rightarrow> mode_session" where
  "transitionPlanAutoMode e s =
     (if \<not> classifier_feature e then s
      else if mode (mctx s) \<noteq> PlanMode then s
      else if prePlanMode (mctx s) = Some BypassPermissions then s
      else
        (let want = shouldPlanUseAutoMode e s; have_auto = autoModeActive s
         in if want \<and> have_auto then strip_rules e s
            else if \<not> want \<and> \<not> have_auto then s
            else if want
            then strip_rules e (s\<lparr>autoModeActive := True, needsAutoModeExitAttachment := False\<rparr>)
            else restore_rules e (s\<lparr>autoModeActive := False, needsAutoModeExitAttachment := True\<rparr>)))"

definition createDisabledBypassPermissionsContext :: "tool_context \<Rightarrow> tool_context" where
  "createDisabledBypassPermissionsContext ctx =
     (if mode ctx = BypassPermissions then applyPermissionUpdate ctx (SetMode Session DefaultMode) else ctx)
       \<lparr>isBypassPermissionsModeAvailable := False\<rparr>"

definition applySettingsChange ::
  "mode_env \<Rightarrow> bool \<Rightarrow> settings_store \<Rightarrow> permission_rule list \<Rightarrow> mode_session \<Rightarrow> mode_session" where
  "applySettingsChange e localAgent st updatedRules s =
     (let c1 = syncPermissionRulesFromDisk st (mctx s) updatedRules;
          overlyBroad = findOverlyBroadBashPermissions (menv_features e) updatedRules [];
          c2 = (if antBuild e \<and> \<not> localAgent \<and> overlyBroad \<noteq> [] then removeDangerousPermissions c1 overlyBroad else c1);
          c3 = (if isBypassPermissionsModeAvailable c2 \<and> isBypassPermissionsModeDisabled e
                then createDisabledBypassPermissionsContext c2 else c2)
      in transitionPlanAutoMode e (s\<lparr>mctx := c3\<rparr>))"

section \<open>The check of the gate\<close>

datatype auto_enabled = AutoEnabled | AutoDisabled | AutoOptIn

definition parseAutoModeEnabledState :: "string option \<Rightarrow> auto_enabled" where
  "parseAutoModeEnabledState v =
     (if v = Some ''enabled'' then AutoEnabled
      else if v = Some ''opt-in'' then AutoOptIn else AutoDisabled)"

record auto_config =
  config_enabled :: "string option"
  disableFastMode :: bool

text \<open>
  The check reads the configuration, sets the circuit breaker and returns a change of the context that the
  caller applies later, to the state of that moment.
\<close>

datatype gate_update = SetAvailable bool | KickOut

definition setAvailable :: "bool \<Rightarrow> mode_session \<Rightarrow> mode_session" where
  "setAvailable available =
     on_context (\<lambda>c. if isAutoModeAvailable c = Some available then c else c\<lparr>isAutoModeAvailable := Some available\<rparr>)"

definition kickOutOfAutoIfNeeded :: "mode_env \<Rightarrow> mode_session \<Rightarrow> mode_session" where
  "kickOutOfAutoIfNeeded e s =
     (let c = mctx s; inAuto = (mode c = AutoMode);
          inPlanWithAutoActive = (mode c = PlanMode \<and>
            (prePlanMode c = Some AutoMode \<or> strippedDangerousRules c \<noteq> None));
          off = s\<lparr>autoModeActive := False, needsAutoModeExitAttachment := True\<rparr>
      in if \<not> inAuto \<and> \<not> inPlanWithAutoActive then setAvailable False s
         else if inAuto
         then on_context (\<lambda>c. c\<lparr>isAutoModeAvailable := Some False\<rparr>) (set_mode DefaultMode (restore_rules e off))
         else on_context (\<lambda>c. c\<lparr>isAutoModeAvailable := Some False,
                prePlanMode := (if prePlanMode c = Some AutoMode then Some DefaultMode else prePlanMode c)\<rparr>)
                (restore_rules e off))"

definition apply_gate_update :: "mode_env \<Rightarrow> gate_update \<Rightarrow> mode_session \<Rightarrow> mode_session" where
  "apply_gate_update e u s = (case u of SetAvailable b \<Rightarrow> setAvailable b s | KickOut \<Rightarrow> kickOutOfAutoIfNeeded e s)"

definition verifyAutoModeGateAccess ::
  "mode_env \<Rightarrow> auto_config \<Rightarrow> bool \<Rightarrow> bool \<Rightarrow> tool_context \<Rightarrow> mode_session \<Rightarrow>
     (gate_update \<times> string option) \<times> mode_session" where
  "verifyAutoModeGateAccess e config fastMode fastModel currentContext s =
     (let enabledState = parseAutoModeEnabledState (config_enabled config);
          s1 = (if classifier_feature e
                then s\<lparr>autoModeCircuitBroken := (enabledState = AutoDisabled \<or> autoDisabledBySettings e)\<rparr> else s);
          disableFastModeBreakerFires = (disableFastMode config \<and> (fastMode \<or> antBuild e \<and> fastModel));
          modelSupported = (modelSupportsAutoMode e \<and> \<not> disableFastModeBreakerFires);
          canEnterAuto = (enabledState \<noteq> AutoDisabled \<and> \<not> autoDisabledBySettings e \<and> modelSupported);
          carouselAvailable = (canEnterAuto \<and> (enabledState = AutoEnabled \<or> hasAutoModeOptInAnySource e s1));
          why = (if autoDisabledBySettings e then SettingsDisable
                 else if enabledState = AutoDisabled then CircuitBreaker else ModelUnsupported);
          wasInAuto = (mode currentContext = AutoMode);
          autoActiveDuringPlan = (mode currentContext = PlanMode \<and>
            (prePlanMode currentContext = Some AutoMode \<or> strippedDangerousRules currentContext \<noteq> None));
          flag = (classifier_feature e \<and> autoModeFlagCli s1)
      in (if canEnterAuto then (SetAvailable carouselAvailable, None)
          else if \<not> (wasInAuto \<or> autoActiveDuringPlan \<or> flag) then (KickOut, None)
          else if wasInAuto \<or> autoActiveDuringPlan then (KickOut, Some (getAutoModeUnavailableNotification e why))
          else (KickOut, if isAutoModeAvailable currentContext = Some True
                         then Some (getAutoModeUnavailableNotification e why) else None), s1))"

section \<open>The start of a session\<close>

definition permissionModeFromString :: "features \<Rightarrow> string \<Rightarrow> permission_mode" where
  "permissionModeFromString fl str =
     (case map_of [(''acceptEdits'', AcceptEdits), (''bypassPermissions'', BypassPermissions),
         (''default'', DefaultMode), (''dontAsk'', DontAsk), (''plan'', PlanMode)] str of
        Some m \<Rightarrow> m
      | None \<Rightarrow> if transcript_classifier fl \<and> str = ''auto'' then AutoMode else DefaultMode)"

record start_options =
  permissionModeCli :: string
  dangerouslySkipPermissions :: bool
  settingsDefaultMode :: "permission_mode option"
  remoteSession :: bool
  cachedAutoState :: "auto_enabled option"

definition ordered_modes :: "mode_env \<Rightarrow> start_options \<Rightarrow> permission_mode list" where
  "ordered_modes e opts =
     (let broken = (classifier_feature e \<and> cachedAutoState opts = Some AutoDisabled);
          admit = (\<lambda>m. if classifier_feature e \<and> m = AutoMode then (if broken then [] else [AutoMode]) else [m])
      in (if dangerouslySkipPermissions opts then [BypassPermissions] else []) @
         (if permissionModeCli opts \<noteq> []
          then admit (permissionModeFromString (menv_features e) (permissionModeCli opts)) else []) @
         (case settingsDefaultMode opts of
            None \<Rightarrow> []
          | Some m \<Rightarrow>
              if remoteSession opts \<and> m \<notin> {AcceptEdits, PlanMode, DefaultMode} then [] else admit m))"

fun first_valid_mode :: "mode_env \<Rightarrow> permission_mode list \<Rightarrow> string option \<Rightarrow> permission_mode \<times> string option" where
  "first_valid_mode e [] notification = (DefaultMode, notification)"
| "first_valid_mode e (m # ms) notification =
     (if m = BypassPermissions \<and> isBypassPermissionsModeDisabled e
      then first_valid_mode e ms (Some (if bypassDisabledByGate e
             then ''Bypass permissions mode was disabled by your organization policy''
             else ''Bypass permissions mode was disabled by settings''))
      else (m, notification))"

text \<open>The mode, a notification, and whether auto mode is active from the start.\<close>

definition initialPermissionModeFromCLI ::
  "mode_env \<Rightarrow> start_options \<Rightarrow> (permission_mode \<times> string option) \<times> bool" where
  "initialPermissionModeFromCLI e opts =
     (let result = first_valid_mode e (ordered_modes e opts) None
      in (result, classifier_feature e \<and> fst result = AutoMode))"

text \<open>The scanner of tool lists: the tools so far, the current text and whether it is in parentheses.\<close>

fun scan_tools :: "string \<Rightarrow> string list \<Rightarrow> string \<Rightarrow> bool \<Rightarrow> string list" where
  "scan_tools [] result current isInParens =
     (if js_trim current \<noteq> [] then result @ [js_trim current] else result)"
| "scan_tools (c # cs) result current isInParens =
     (if c = LP then scan_tools cs result (current @ [c]) True
      else if c = RP then scan_tools cs result (current @ [c]) False
      else if c = CHR '','' then
        (if isInParens then scan_tools cs result (current @ [c]) isInParens
         else scan_tools cs (if js_trim current \<noteq> [] then result @ [js_trim current] else result) [] isInParens)
      else if c = CHR '' '' then
        (if isInParens then scan_tools cs result (current @ [c]) isInParens
         else if js_trim current \<noteq> [] then scan_tools cs (result @ [js_trim current]) [] isInParens
         else scan_tools cs result current isInParens)
      else scan_tools cs result (current @ [c]) isInParens)"

definition parseToolListFromCLI :: "string list \<Rightarrow> string list" where
  "parseToolListFromCLI tools = concat (map (\<lambda>t. if t = [] then [] else scan_tools t [] [] False) tools)"

text \<open>The tools of the default preset are an argument.\<close>

definition parseBaseToolsFromCLI :: "string list \<Rightarrow> string list \<Rightarrow> string list" where
  "parseBaseToolsFromCLI defaultTools baseTools =
     (if toLowerCase (js_trim (js_join '' '' baseTools)) = ''default'' then defaultTools
      else parseToolListFromCLI baseTools)"

record setup_options =
  allowedToolsCli :: "string list"
  disallowedToolsCli :: "string list"
  baseToolsCli :: "string list"
  startMode :: permission_mode
  allowDangerouslySkipPermissions :: bool
  processPwdLink :: "string option"
  validDirectories :: "string list"
  defaultPresetTools :: "string list"

definition parsed_allowed :: "features \<Rightarrow> setup_options \<Rightarrow> string list" where
  "parsed_allowed fl opts = map (normalizeEntry fl) (parseToolListFromCLI (allowedToolsCli opts))"

definition parsed_disallowed :: "features \<Rightarrow> setup_options \<Rightarrow> string list" where
  "parsed_disallowed fl opts =
     parseToolListFromCLI (disallowedToolsCli opts) @
     (if baseToolsCli opts = [] then []
      else filter (\<lambda>t. t \<notin> set (map (normalizeArchivedToolName fl)
             (parseBaseToolsFromCLI (defaultPresetTools opts) (baseToolsCli opts)))) (defaultPresetTools opts))"

text \<open>
  The first context.  \<open>processPwdLink\<close> is the working directory of the shell where it is a link to the
  directory of the process; \<open>validDirectories\<close> are the additional directories that pass validation.
\<close>

definition initial_context ::
  "mode_env \<Rightarrow> setup_options \<Rightarrow> permission_rule list \<Rightarrow> bool \<Rightarrow> tool_context" where
  "initial_context e opts rulesFromDisk gateEnabled =
     (let ctx = getEmptyToolPermissionContext
            \<lparr>mode := startMode opts,
             additionalWorkingDirectories := (case processPwdLink opts of None \<Rightarrow> [] | Some d \<Rightarrow> [(d, Session)]),
             alwaysAllowRules := (\<lambda>s. if s = CliArg then parsed_allowed (menv_features e) opts else []),
             alwaysDenyRules := (\<lambda>s. if s = CliArg then parsed_disallowed (menv_features e) opts else []),
             isBypassPermissionsModeAvailable :=
               ((startMode opts = BypassPermissions \<or> allowDangerouslySkipPermissions opts) \<and>
                \<not> isBypassPermissionsModeDisabled e),
             isAutoModeAvailable := (if classifier_feature e then Some gateEnabled else None)\<rparr>
      in foldl (\<lambda>c d. applyPermissionUpdate c (AddDirectories CliArg [d]))
           (applyPermissionRulesToPermissionContext ctx rulesFromDisk) (validDirectories opts))"

definition startup_dangerous :: "mode_env \<Rightarrow> setup_options \<Rightarrow> permission_rule list \<Rightarrow> dangerous_info list" where
  "startup_dangerous e opts rulesFromDisk =
     (if classifier_feature e \<and> startMode opts = AutoMode
      then findDangerousClassifierPermissions (menv_features e) (antBuild e) rulesFromDisk
             (parsed_allowed (menv_features e) opts)
      else [])"

text \<open>The start of \<open>main.tsx\<close>: the context, stripped when there is something to strip.\<close>

definition start_session ::
  "mode_env \<Rightarrow> setup_options \<Rightarrow> permission_rule list \<Rightarrow> bool \<Rightarrow> bool \<Rightarrow> mode_session" where
  "start_session e opts rulesFromDisk circuitBroken flag =
     (let s = \<lparr>mctx = getEmptyToolPermissionContext, autoModeActive = (classifier_feature e \<and> startMode opts = AutoMode),
              autoModeFlagCli = flag, autoModeCircuitBroken = circuitBroken, needsPlanModeExitAttachment = False,
              needsAutoModeExitAttachment = False, hasExitedPlanMode = False, previousModeBeforeAuto = None,
              optInPending = False\<rparr>;
          s1 = s\<lparr>mctx := initial_context e opts rulesFromDisk (isAutoModeGateEnabled e s)\<rparr>
      in if classifier_feature e \<and> startup_dangerous e opts rulesFromDisk \<noteq> [] then strip_rules e s1 else s1)"

end
