(* ===== verification/Mode_Laws.thy ===== *)
theory Mode_Laws
  imports Permission_Modes "HOL-Library.Multiset"
begin

text \<open>
  What the changes of the mode keep: while auto mode is active, no removable rule bypasses the classifier,
  and when it is left every rule is back.
\<close>

section \<open>The machine\<close>

datatype mode_event =
    CycleKey mode_env
  | AcceptAuto mode_env
  | DeclineAuto mode_env
  | SetModeMessage mode_env permission_mode
  | EnterPlan mode_env
  | ExitPlan mode_env
  | SettingsChanged mode_env bool "rule_source list" settings_store
  | GateChecked mode_env auto_config bool bool
  | GateUpdate mode_env gate_update
  | BypassDisabled

text \<open>The build of the program is fixed; everything else in an environment may differ from event to event.\<close>

definition in_build :: "features \<Rightarrow> bool \<Rightarrow> mode_env \<Rightarrow> mode_env" where
  "in_build fl ant e = e\<lparr>menv_features := fl, antBuild := ant\<rparr>"

fun mode_step :: "features \<Rightarrow> bool \<Rightarrow> mode_session \<Rightarrow> mode_event \<Rightarrow> mode_session" where
  "mode_step fl ant s (CycleKey e) = handleCycleMode (in_build fl ant e) s"
| "mode_step fl ant s (AcceptAuto e) = handleAutoModeOptInAccept (in_build fl ant e) s"
| "mode_step fl ant s (DeclineAuto e) = handleAutoModeOptInDecline (in_build fl ant e) s"
| "mode_step fl ant s (SetModeMessage e m) = snd (handleSetPermissionMode (in_build fl ant e) m s)"
| "mode_step fl ant s (EnterPlan e) = enterPlanMode (in_build fl ant e) s"
| "mode_step fl ant s (ExitPlan e) = exitPlanMode (in_build fl ant e) s"
| "mode_step fl ant s (SettingsChanged e local enabled st) =
     applySettingsChange (in_build fl ant e) local st (loadAllPermissionRulesFromDisk fl enabled st) s"
| "mode_step fl ant s (GateChecked e config fast fastModel) =
     snd (verifyAutoModeGateAccess (in_build fl ant e) config fast fastModel (mctx s) s)"
| "mode_step fl ant s (GateUpdate e u) = apply_gate_update (in_build fl ant e) u s"
| "mode_step fl ant s BypassDisabled = on_context createDisabledBypassPermissionsContext s"

section \<open>The invariant\<close>

definition clean_rules :: "features \<Rightarrow> bool \<Rightarrow> tool_context \<Rightarrow> bool" where
  "clean_rules fl ant c \<longleftrightarrow>
     (\<forall>t. isPermissionUpdateDestination t \<longrightarrow> (\<forall>r\<in>set (alwaysAllowRules c t). \<not> dangerous_string fl ant r))"

definition rules_ok :: "features \<Rightarrow> tool_context \<Rightarrow> bool" where
  "rules_ok fl c \<longleftrightarrow>
     normal_rules fl (alwaysAllowRules c) \<and>
     (\<forall>st. strippedDangerousRules c = Some st \<longrightarrow>
        (\<forall>t. \<forall>r\<in>set (st t). isPermissionUpdateDestination t \<and> normalizeEntry fl r = r))"

text \<open>The part of the invariant about the flags of a session.\<close>

definition flags_ok :: "permission_mode \<Rightarrow> permission_mode option \<Rightarrow> bool \<Rightarrow> bool \<Rightarrow> bool" where
  "flags_ok m pre stashed active \<longleftrightarrow>
     (stashed \<longrightarrow> active) \<and>
     (active \<longrightarrow> m = AutoMode \<or> m = PlanMode) \<and>
     (active \<and> m = PlanMode \<longrightarrow> (stashed \<or> pre = Some AutoMode) \<and> pre \<noteq> Some BypassPermissions)"

definition mode_inv :: "features \<Rightarrow> bool \<Rightarrow> mode_session \<Rightarrow> bool" where
  "mode_inv fl ant s \<longleftrightarrow>
     rules_ok fl (mctx s) \<and>
     (autoModeActive s \<longrightarrow> clean_rules fl ant (mctx s) \<and> transcript_classifier fl) \<and>
     flags_ok (mode (mctx s)) (prePlanMode (mctx s)) (strippedDangerousRules (mctx s) \<noteq> None) (autoModeActive s)"

section \<open>Stripping and restoring\<close>

lemma strip_frame:
  assumes "rules_ok fl c"
  shows "mode (stripDangerousPermissionsForAutoMode fl ant c) = mode c"
    and "prePlanMode (stripDangerousPermissionsForAutoMode fl ant c) = prePlanMode c"
    and "strippedDangerousRules (stripDangerousPermissionsForAutoMode fl ant c) \<noteq> None"
    and "rules_ok fl (stripDangerousPermissionsForAutoMode fl ant c)"
    and "clean_rules fl ant (stripDangerousPermissionsForAutoMode fl ant c)"
proof -
  have n: "normal_rules fl (alwaysAllowRules c)" using assms by (simp add: rules_ok_def)
  note strip = strip_context [OF n, of ant]
  show "mode (stripDangerousPermissionsForAutoMode fl ant c) = mode c"
    "prePlanMode (stripDangerousPermissionsForAutoMode fl ant c) = prePlanMode c"
    "strippedDangerousRules (stripDangerousPermissionsForAutoMode fl ant c) \<noteq> None"
    by (simp_all add: strip)
  show "clean_rules fl ant (stripDangerousPermissionsForAutoMode fl ant c)"
    by (auto simp: strip clean_rules_def kept_def)
  have "normal_rules fl (kept fl ant (alwaysAllowRules c))" using n by (auto simp: normal_rules_def kept_def)
  then show "rules_ok fl (stripDangerousPermissionsForAutoMode fl ant c)"
    using assms by (auto simp: strip rules_ok_def taken_def normal_rules_def split: option.splits if_splits)
qed

lemma restore_frame:
  "mode (restoreDangerousPermissions fl c) = mode c"
  "prePlanMode (restoreDangerousPermissions fl c) = prePlanMode c"
  "strippedDangerousRules (restoreDangerousPermissions fl c) = None"
  "rules_ok fl c \<Longrightarrow> rules_ok fl (restoreDangerousPermissions fl c)"
  by (auto simp: restore_context rules_ok_def normal_rules_def split: option.splits)

lemma rules_ok_frame [simp]:
  "rules_ok fl (c\<lparr>mode := m\<rparr>) = rules_ok fl c" "rules_ok fl (c\<lparr>prePlanMode := p\<rparr>) = rules_ok fl c"
  "rules_ok fl (c\<lparr>isAutoModeAvailable := a\<rparr>) = rules_ok fl c"
  "rules_ok fl (c\<lparr>isBypassPermissionsModeAvailable := b\<rparr>) = rules_ok fl c"
  by (simp_all add: rules_ok_def)

lemma clean_rules_frame [simp]:
  "clean_rules fl ant (c\<lparr>mode := m\<rparr>) = clean_rules fl ant c"
  "clean_rules fl ant (c\<lparr>prePlanMode := p\<rparr>) = clean_rules fl ant c"
  "clean_rules fl ant (c\<lparr>isAutoModeAvailable := a\<rparr>) = clean_rules fl ant c"
  "clean_rules fl ant (c\<lparr>isBypassPermissionsModeAvailable := b\<rparr>) = clean_rules fl ant c"
  by (simp_all add: clean_rules_def)

section \<open>The handlers\<close>

lemma in_build_simps [simp]: "menv_features (in_build fl ant e) = fl" "antBuild (in_build fl ant e) = ant"
  by (simp_all add: in_build_def)

lemma mode_invD:
  assumes "mode_inv fl ant s"
  shows "rules_ok fl (mctx s)"
    and "autoModeActive s \<Longrightarrow> clean_rules fl ant (mctx s)"
    and "autoModeActive s \<Longrightarrow> transcript_classifier fl"
    and "strippedDangerousRules (mctx s) = Some st \<Longrightarrow> autoModeActive s"
    and "autoModeActive s \<Longrightarrow> mode (mctx s) = AutoMode \<or> mode (mctx s) = PlanMode"
    and "autoModeActive s \<Longrightarrow> mode (mctx s) = PlanMode \<Longrightarrow>
      strippedDangerousRules (mctx s) \<noteq> None \<or> prePlanMode (mctx s) = Some AutoMode"
    and "autoModeActive s \<Longrightarrow> mode (mctx s) = PlanMode \<Longrightarrow> prePlanMode (mctx s) \<noteq> Some BypassPermissions"
  using assms by (auto simp: mode_inv_def flags_ok_def)

lemmas mode_handler_defs = strip_rules_def restore_rules_def set_mode_def handlePlanModeTransition_def
  handleAutoModeTransition_def Let_def

lemma plan_entry_inv:
  assumes "mode_inv fl ant s"
  shows "mode_inv fl ant (set_mode PlanMode (prepareContextForPlanMode (in_build fl ant e) s))"
  using mode_invD [OF assms] strip_frame [OF mode_invD(1) [OF assms], of ant]
    restore_frame [of fl "mctx s"]
  by (auto simp: prepareContextForPlanMode_def mode_handler_defs mode_inv_def flags_ok_def
      shouldPlanUseAutoMode_def)

text \<open>The part of a transition after the flags of the attachments.\<close>

definition switch_classifier ::
  "mode_env \<Rightarrow> permission_mode \<Rightarrow> permission_mode \<Rightarrow> mode_session \<Rightarrow> string option \<times> mode_session" where
  "switch_classifier e fromMode toMode s =
     (let fromUses = (fromMode = AutoMode \<or> fromMode = PlanMode \<and> autoModeActive s);
          forget = (\<lambda>t. if fromMode = PlanMode then on_context (\<lambda>c. c\<lparr>prePlanMode := None\<rparr>) t else t)
      in if toMode = AutoMode \<and> \<not> fromUses then
           (if \<not> isAutoModeGateEnabled e s then (Some ''Cannot transition to auto mode: gate is not enabled'', s)
            else (None, forget (strip_rules e (s\<lparr>autoModeActive := True\<rparr>))))
         else if fromUses \<and> toMode \<noteq> AutoMode then
           (None, forget (restore_rules e (s\<lparr>autoModeActive := False, needsAutoModeExitAttachment := True\<rparr>)))
         else (None, forget s))"

definition attachment_flags :: "permission_mode \<Rightarrow> permission_mode \<Rightarrow> mode_session \<Rightarrow> mode_session" where
  "attachment_flags fromMode toMode s =
     (let s1 = handleAutoModeTransition fromMode toMode (handlePlanModeTransition fromMode toMode s)
      in if fromMode = PlanMode then s1\<lparr>hasExitedPlanMode := True\<rparr> else s1)"

lemma attachment_flags_simps [simp]:
  "mctx (attachment_flags f t s) = mctx s" "autoModeActive (attachment_flags f t s) = autoModeActive s"
  by (simp_all add: attachment_flags_def handleAutoModeTransition_def handlePlanModeTransition_def Let_def)

lemma attachment_flags_inv [simp]: "mode_inv fl ant (attachment_flags f t s) = mode_inv fl ant s"
  by (simp add: mode_inv_def)

lemma transition_cases:
  "transitionPermissionMode e fromMode toMode s =
     (if fromMode = toMode then (None, s)
      else if \<not> classifier_feature e then
        (None, (if fromMode = PlanMode then on_context (\<lambda>c. c\<lparr>prePlanMode := None\<rparr>) else id)
           (attachment_flags fromMode toMode s))
      else if toMode = PlanMode then (None, prepareContextForPlanMode e (attachment_flags fromMode toMode s))
      else switch_classifier e fromMode toMode (attachment_flags fromMode toMode s))"
  by (simp add: transitionPermissionMode_def switch_classifier_def attachment_flags_def Let_def)

lemma switch_inv:
  assumes "mode_inv fl ant s" "fromMode = mode (mctx s) \<or> toMode = AutoMode" "transcript_classifier fl" "toMode \<noteq> PlanMode"
    and "switch_classifier (in_build fl ant e) fromMode toMode s = (err, t)"
  shows "mode_inv fl ant (if err = None then set_mode toMode t else t)"
proof -
  note inv = mode_invD [OF assms(1)]
  consider (on) "toMode = AutoMode" "\<not> (fromMode = AutoMode \<or> fromMode = PlanMode \<and> autoModeActive s)"
    | (off) "toMode \<noteq> AutoMode" "fromMode = AutoMode \<or> fromMode = PlanMode \<and> autoModeActive s"
    | (same) "toMode = AutoMode" "fromMode = AutoMode \<or> fromMode = PlanMode \<and> autoModeActive s"
    | (other) "toMode \<noteq> AutoMode" "\<not> (fromMode = AutoMode \<or> fromMode = PlanMode \<and> autoModeActive s)"
    by blast
  then show ?thesis
  proof cases
    case on
    let ?s = "strip_rules (in_build fl ant e) (s\<lparr>autoModeActive := True\<rparr>)"
    have t: "err \<noteq> None \<and> t = s \<or>
        err = None \<and> t = (if fromMode = PlanMode then on_context (\<lambda>c. c\<lparr>prePlanMode := None\<rparr>) ?s else ?s)"
      using assms(5) on by (auto simp: switch_classifier_def split: if_splits)
    have "mode_inv fl ant (set_mode AutoMode (on_context (\<lambda>c. c\<lparr>prePlanMode := p\<rparr>) ?s))" for p
      using assms(3) strip_frame [OF inv(1), of ant]
      by (simp add: strip_rules_def set_mode_def mode_inv_def flags_ok_def)
    moreover have "mode_inv fl ant (set_mode AutoMode ?s)"
      using assms(3) strip_frame [OF inv(1), of ant]
      by (simp add: strip_rules_def set_mode_def mode_inv_def flags_ok_def)
    ultimately show ?thesis using t on(1) assms(1) by auto
  next
    case off
    let ?s = "restore_rules (in_build fl ant e) (s\<lparr>autoModeActive := False, needsAutoModeExitAttachment := True\<rparr>)"
    have t: "err = None" "t = (if fromMode = PlanMode then on_context (\<lambda>c. c\<lparr>prePlanMode := None\<rparr>) ?s else ?s)"
      using assms(5) off by (auto simp: switch_classifier_def split: if_splits)
    have "mode_inv fl ant (set_mode toMode (on_context (\<lambda>c. c\<lparr>prePlanMode := p\<rparr>) ?s))" for p
      using restore_frame [of fl "mctx s"] inv(1)
      by (simp add: restore_rules_def set_mode_def mode_inv_def flags_ok_def)
    moreover have "mode_inv fl ant (set_mode toMode ?s)"
      using restore_frame [of fl "mctx s"] inv(1)
      by (simp add: restore_rules_def set_mode_def mode_inv_def flags_ok_def)
    ultimately show ?thesis using t by simp
  next
    case same
    then show ?thesis
      using assms(1,5) by (auto simp: switch_classifier_def set_mode_def mode_inv_def flags_ok_def)
  next
    case other
    then have "\<not> autoModeActive s" using assms(2) inv(5) by auto
    then show ?thesis
      using assms(1,5) other by (auto simp: switch_classifier_def set_mode_def mode_inv_def flags_ok_def split: if_splits)
  qed
qed

lemma transition_inv:
  assumes "mode_inv fl ant s" "fromMode = mode (mctx s) \<or> toMode = AutoMode"
  shows "mode_inv fl ant (snd (transition_and_set (in_build fl ant e) fromMode toMode s))"
proof -
  let ?a = "attachment_flags fromMode toMode s"
  have same: "mode_inv fl ant (set_mode toMode s)" if "fromMode = toMode"
    using assms that by (auto simp: set_mode_def mode_inv_def flags_ok_def)
  have off: "mode_inv fl ant (set_mode toMode ((if fromMode = PlanMode then on_context (\<lambda>c. c\<lparr>prePlanMode := None\<rparr>) else id) ?a))"
    if "\<not> transcript_classifier fl"
    using assms(1) that mode_invD(3,4) [OF assms(1)] by (auto simp: set_mode_def mode_inv_def flags_ok_def)
  have plan: "mode_inv fl ant (set_mode PlanMode (prepareContextForPlanMode (in_build fl ant e) ?a))"
    using assms(1) by (intro plan_entry_inv) simp
  have switch: "mode_inv fl ant (if err = None then set_mode toMode t else t)"
    if "transcript_classifier fl" "toMode \<noteq> PlanMode" "switch_classifier (in_build fl ant e) fromMode toMode ?a = (err, t)"
    for err t
    using switch_inv [OF _ _ that] assms by simp
  show ?thesis
    unfolding transition_and_set_def transition_cases
    using same off plan switch
    by (auto split: option.splits prod.splits if_splits)
qed

lemma cycle_inv: "mode_inv fl ant s \<Longrightarrow> mode_inv fl ant (handleCycleMode (in_build fl ant e) s)"
proof -
  assume s: "mode_inv fl ant s"
  let ?s = "if transcript_classifier fl \<and> optInPending s
    then s\<lparr>optInPending := False, previousModeBeforeAuto := None\<rparr> else s"
  have s1: "mode_inv fl ant ?s" using s by (simp add: mode_inv_def)
  have label: "mode_inv fl ant (set_mode AutoMode (s\<lparr>previousModeBeforeAuto := p, optInPending := True\<rparr>))" for p
    using s by (auto simp: mode_inv_def flags_ok_def set_mode_def)
  have "mode_inv fl ant (snd (transition_and_set (in_build fl ant e) (mode (mctx ?s))
      (getNextPermissionMode (in_build fl ant e) ?s) ?s))"
    by (rule transition_inv [OF s1]) simp
  then show ?thesis
    using label
    by (auto simp: handleCycleMode_def cyclePermissionMode_def transition_and_set_def Let_def
        split: option.splits prod.splits)
qed

lemma exit_inv: "mode_inv fl ant s \<Longrightarrow> mode_inv fl ant (exitPlanMode (in_build fl ant e) s)"
proof -
  assume s: "mode_inv fl ant s"
  show ?thesis
    using mode_invD [OF s] strip_frame [OF mode_invD(1) [OF s], of ant] restore_frame [of fl "mctx s"]
    by (auto simp: exitPlanMode_def mode_handler_defs mode_inv_def flags_ok_def split: option.splits)
qed

lemma gate_update_inv: "mode_inv fl ant s \<Longrightarrow> mode_inv fl ant (apply_gate_update (in_build fl ant e) u s)"
proof -
  assume s: "mode_inv fl ant s"
  show ?thesis
    using mode_invD [OF s] restore_frame [of fl "mctx s"]
    by (auto simp: apply_gate_update_def kickOutOfAutoIfNeeded_def setAvailable_def mode_handler_defs mode_inv_def
        flags_ok_def split: gate_update.splits)
qed

lemma disable_bypass_inv:
  "mode_inv fl ant s \<Longrightarrow> mode_inv fl ant (on_context createDisabledBypassPermissionsContext s)"
  by (auto simp: createDisabledBypassPermissionsContext_def mode_inv_def flags_ok_def)

section \<open>Changed settings\<close>

lemma set_rules_frame [simp]:
  "mode (set_rules b d rs c) = mode c" "prePlanMode (set_rules b d rs c) = prePlanMode c"
  "strippedDangerousRules (set_rules b d rs c) = strippedDangerousRules c"
  by (cases b; simp add: set_rules_def)+

lemma clear_frame [simp]:
  "mode (clear_sources ss c) = mode c" "prePlanMode (clear_sources ss c) = prePlanMode c"
  "strippedDangerousRules (clear_sources ss c) = strippedDangerousRules c"
  by (induction ss rule: rev_induct) (simp_all add: clear_sources_def SUPPORTED_RULE_BEHAVIORS_def)

lemma converted_frame [simp]:
  "mode (applyPermissionUpdates c (convertRulesToUpdates rules add)) = mode c"
  "prePlanMode (applyPermissionUpdates c (convertRulesToUpdates rules add)) = prePlanMode c"
  "strippedDangerousRules (applyPermissionUpdates c (convertRulesToUpdates rules add)) = strippedDangerousRules c"
proof -
  have "mode (foldl applyPermissionUpdate c (map (\<lambda>((src, b), vs). if add then AddRules src vs b else ReplaceRules src vs b) g)) = mode c \<and>
      prePlanMode (foldl applyPermissionUpdate c (map (\<lambda>((src, b), vs). if add then AddRules src vs b else ReplaceRules src vs b) g)) = prePlanMode c \<and>
      strippedDangerousRules (foldl applyPermissionUpdate c (map (\<lambda>((src, b), vs). if add then AddRules src vs b else ReplaceRules src vs b) g)) = strippedDangerousRules c"
    for g by (induction g rule: rev_induct) (auto split: prod.splits)
  then show "mode (applyPermissionUpdates c (convertRulesToUpdates rules add)) = mode c"
    "prePlanMode (applyPermissionUpdates c (convertRulesToUpdates rules add)) = prePlanMode c"
    "strippedDangerousRules (applyPermissionUpdates c (convertRulesToUpdates rules add)) = strippedDangerousRules c"
    by (simp_all add: applyPermissionUpdates_def convertRulesToUpdates_def)
qed

lemma sync_frame [simp]:
  "mode (syncPermissionRulesFromDisk st c rules) = mode c"
  "prePlanMode (syncPermissionRulesFromDisk st c rules) = prePlanMode c"
  "strippedDangerousRules (syncPermissionRulesFromDisk st c rules) = strippedDangerousRules c"
  by (simp_all add: syncPermissionRulesFromDisk_def Let_def)

lemma remove_dangerous_frame [simp]:
  "mode (removeDangerousPermissions c ps) = mode c" "prePlanMode (removeDangerousPermissions c ps) = prePlanMode c"
  "strippedDangerousRules (removeDangerousPermissions c ps) = strippedDangerousRules c"
  unfolding removeDangerousPermissions_def
  by (subst remove_frame; simp del: applyPermissionUpdate.simps)+

text \<open>Rules that are loaded are printed values.\<close>

definition parsed_rules :: "features \<Rightarrow> permission_rule list \<Rightarrow> bool" where
  "parsed_rules fl rules \<longleftrightarrow> (\<forall>rule\<in>set rules. \<exists>raw. ruleValue rule = permissionRuleValueFromString fl raw)"

lemma loaded_parsed: "parsed_rules fl (loadAllPermissionRulesFromDisk fl enabled st)"
  by (auto simp: parsed_rules_def loadAllPermissionRulesFromDisk_def getPermissionRulesForSource_def
      settingsJsonToRules_def split: option.splits)

lemma sync_normal:
  assumes "normal_rules fl (alwaysAllowRules c)" "parsed_rules fl rules"
  shows "normal_rules fl (alwaysAllowRules (syncPermissionRulesFromDisk st c rules))"
proof -
  have "normalizeEntry fl (permissionRuleValueToString v) = permissionRuleValueToString v"
    if v: "v \<in> set (rules_for s b rules)" for s b v
  proof -
    obtain raw where "v = permissionRuleValueFromString fl raw"
      using assms(2) v by (auto simp: parsed_rules_def rules_for_def)
    then show ?thesis using normal_entry [of fl raw] by (simp add: normalizeEntry_def)
  qed
  moreover have "alwaysAllowRules c' s = rules_of c' Allow s" for c' s by (simp add: rules_of_def)
  ultimately show ?thesis
    using assms(1) by (auto simp: normal_rules_def sync_rules Let_def split: if_splits)
qed

lemma settings_inv:
  assumes "mode_inv fl ant s" "\<not> (mode (mctx s) = AutoMode \<and> autoModeActive s)" "parsed_rules fl rules"
  shows "mode_inv fl ant (applySettingsChange (in_build fl ant e) local st rules s)"
proof -
  let ?e = "in_build fl ant e"
  define c where "c = syncPermissionRulesFromDisk st (mctx s) rules"
  define ps where "ps = findOverlyBroadBashPermissions fl rules []"
  define c2 where "c2 = (if ant \<and> \<not> local \<and> ps \<noteq> [] then removeDangerousPermissions c ps else c)"
  define c3 where "c3 = (if isBypassPermissionsModeAvailable c2 \<and> isBypassPermissionsModeDisabled ?e
    then createDisabledBypassPermissionsContext c2 else c2)"
  note inv = mode_invD [OF assms(1)]
  have "normal_rules fl (alwaysAllowRules c)"
    using inv(1) assms(3) by (simp add: c_def sync_normal rules_ok_def)
  then have "normal_rules fl (alwaysAllowRules c2)"
    by (auto simp: c2_def normal_rules_def removeDangerousPermissions_def remove_fold group_by_destination(2)
        simp del: applyPermissionUpdate.simps split: option.splits)
  then have ok: "rules_ok fl c3"
    using inv(1) by (auto simp: rules_ok_def c3_def createDisabledBypassPermissionsContext_def c2_def c_def)
  have f: "mode c3 = (if mode (mctx s) = BypassPermissions \<and> isBypassPermissionsModeAvailable c2 \<and>
        isBypassPermissionsModeDisabled ?e then DefaultMode else mode (mctx s))"
      "prePlanMode c3 = prePlanMode (mctx s)" "strippedDangerousRules c3 = strippedDangerousRules (mctx s)"
    by (auto simp: c3_def createDisabledBypassPermissionsContext_def c2_def c_def)
  let ?s = "s\<lparr>mctx := c3\<rparr>"
  have on: "mode_inv fl ant (strip_rules ?e (?s\<lparr>autoModeActive := True, needsAutoModeExitAttachment := b\<rparr>))"
    if "mode (mctx s) = PlanMode" "prePlanMode (mctx s) \<noteq> Some BypassPermissions" "transcript_classifier fl" for b
    using that f strip_frame [OF ok, of ant] by (simp add: strip_rules_def mode_inv_def flags_ok_def)
  have off: "mode_inv fl ant (restore_rules ?e (?s\<lparr>autoModeActive := False, needsAutoModeExitAttachment := b\<rparr>))" for b
    using restore_frame [of fl c3] ok by (simp add: restore_rules_def mode_inv_def flags_ok_def)
  have again: "mode_inv fl ant (strip_rules ?e ?s)"
    if "mode (mctx s) = PlanMode" "prePlanMode (mctx s) \<noteq> Some BypassPermissions" "autoModeActive s"
    using that f strip_frame [OF ok, of ant] inv(3) by (simp add: strip_rules_def mode_inv_def flags_ok_def)
  have idle: "mode_inv fl ant ?s" if "\<not> autoModeActive s"
    using that f ok inv(4) by (cases "strippedDangerousRules (mctx s)") (auto simp: mode_inv_def flags_ok_def)
  have "mode_inv fl ant (transitionPlanAutoMode ?e ?s)"
  proof (cases "autoModeActive s")
    case True
    then have "mode (mctx s) = PlanMode" "prePlanMode (mctx s) \<noteq> Some BypassPermissions" "transcript_classifier fl"
      using inv(3,5,7) assms(2) by blast+
    then show ?thesis using True again off [of True] f by (simp add: transitionPlanAutoMode_def Let_def)
  next
    case False
    then show ?thesis
      using idle on [of False] f by (simp add: transitionPlanAutoMode_def Let_def shouldPlanUseAutoMode_def)
  qed
  moreover have "applySettingsChange ?e local st rules s = transitionPlanAutoMode ?e ?s"
    by (simp only: applySettingsChange_def Let_def c3_def c2_def c_def ps_def in_build_simps)
  ultimately show ?thesis by simp
qed

section \<open>Runs\<close>

text \<open>
  Two events are outside: settings that change in auto mode, and a decline of the dialog after another
  handler has already switched auto mode on.
\<close>

fun orderly :: "mode_session \<Rightarrow> mode_event \<Rightarrow> bool" where
  "orderly s (SettingsChanged _ _ _ _) = (\<not> (mode (mctx s) = AutoMode \<and> autoModeActive s))"
| "orderly s (DeclineAuto _) = (strippedDangerousRules (mctx s) = None)"
| "orderly s _ = True"

definition orderly_step :: "features \<Rightarrow> bool \<Rightarrow> mode_session \<Rightarrow> mode_event \<Rightarrow> mode_session" where
  "orderly_step fl ant s ev = (if orderly s ev then mode_step fl ant s ev else s)"

lemma accept_inv: "mode_inv fl ant s \<Longrightarrow> mode_inv fl ant (handleAutoModeOptInAccept (in_build fl ant e) s)"
proof -
  assume "mode_inv fl ant s"
  then have "mode_inv fl ant (s\<lparr>optInPending := False, previousModeBeforeAuto := None\<rparr>)" by (simp add: mode_inv_def)
  then show ?thesis
    using transition_inv [of fl ant _ _ AutoMode] \<open>mode_inv fl ant s\<close>
    by (simp add: handleAutoModeOptInAccept_def Let_def)
qed

lemma decline_inv:
  "mode_inv fl ant s \<Longrightarrow> strippedDangerousRules (mctx s) = None \<Longrightarrow>
     mode_inv fl ant (handleAutoModeOptInDecline (in_build fl ant e) s)"
  by (auto simp: handleAutoModeOptInDecline_def mode_inv_def flags_ok_def Let_def split: option.splits)

lemma message_inv: "mode_inv fl ant s \<Longrightarrow> mode_inv fl ant (snd (handleSetPermissionMode (in_build fl ant e) m s))"
  using transition_inv [of fl ant s "mode (mctx s)" m e] by (simp add: handleSetPermissionMode_def)

lemma enter_inv: "mode_inv fl ant s \<Longrightarrow> mode_inv fl ant (enterPlanMode (in_build fl ant e) s)"
  unfolding enterPlanMode_def
  by (rule plan_entry_inv) (auto simp: mode_inv_def handlePlanModeTransition_def Let_def)

lemma checked_inv:
  "mode_inv fl ant s \<Longrightarrow> mode_inv fl ant (snd (verifyAutoModeGateAccess (in_build fl ant e) config fast fm c s))"
  by (auto simp: verifyAutoModeGateAccess_def Let_def mode_inv_def)

interpretation modes: machine "orderly_step fl ant" "mode_inv fl ant" for fl ant
proof
  fix s ev assume s: "mode_inv fl ant s"
  show "mode_inv fl ant (orderly_step fl ant s ev)"
  proof (cases ev)
    case (SettingsChanged e local enabled st)
    then show ?thesis using s settings_inv [OF s _ loaded_parsed] by (simp add: orderly_step_def)
  qed (use s in \<open>simp_all add: orderly_step_def cycle_inv accept_inv decline_inv message_inv enter_inv exit_inv
      checked_inv gate_update_inv disable_bypass_inv\<close>)
qed

section \<open>The start\<close>

lemma add_directories_frame [simp]:
  "alwaysAllowRules (foldl (\<lambda>c d. applyPermissionUpdate c (AddDirectories src [d])) c ds) = alwaysAllowRules c"
  "mode (foldl (\<lambda>c d. applyPermissionUpdate c (AddDirectories src [d])) c ds) = mode c"
  "prePlanMode (foldl (\<lambda>c d. applyPermissionUpdate c (AddDirectories src [d])) c ds) = prePlanMode c"
  "strippedDangerousRules (foldl (\<lambda>c d. applyPermissionUpdate c (AddDirectories src [d])) c ds) = strippedDangerousRules c"
  by (induction ds rule: rev_induct) simp_all

lemma initial_context_frame:
  "alwaysAllowRules (initial_context e opts rules g) t =
     (if t = CliArg then parsed_allowed (menv_features e) opts else []) @
     map permissionRuleValueToString (rules_for t Allow rules)"
  "mode (initial_context e opts rules g) = startMode opts"
  "prePlanMode (initial_context e opts rules g) = None"
  "strippedDangerousRules (initial_context e opts rules g) = None"
proof -
  have r: "alwaysAllowRules (applyPermissionUpdates c (convertRulesToUpdates rules True)) t =
      alwaysAllowRules c t @ map permissionRuleValueToString (rules_for t Allow rules)" for c
    using convert_rules [of c rules True Allow t] by (auto simp: rules_of_def Let_def split: if_splits)
  show "alwaysAllowRules (initial_context e opts rules g) t =
     (if t = CliArg then parsed_allowed (menv_features e) opts else []) @
     map permissionRuleValueToString (rules_for t Allow rules)"
    by (simp add: initial_context_def applyPermissionRulesToPermissionContext_def r Let_def
        del: applyPermissionUpdate.simps)
qed (simp_all add: initial_context_def applyPermissionRulesToPermissionContext_def getEmptyToolPermissionContext_def
    Let_def del: applyPermissionUpdate.simps)

text \<open>
  The rules of the command line are searched with a regular expression of their own, which does not see
  every rule.
\<close>

definition startup_catches :: "features \<Rightarrow> bool \<Rightarrow> setup_options \<Rightarrow> bool" where
  "startup_catches fl ant opts \<longleftrightarrow>
     (\<forall>r\<in>set (parsed_allowed fl opts). dangerous_string fl ant r \<longrightarrow>
        (case cli_spec r of None \<Rightarrow> False | Some (n, c) \<Rightarrow> isDangerousClassifierPermission fl ant n c))"

lemma found_nothing:
  assumes "findDangerousClassifierPermissions fl ant rules specs = []"
  shows "rule \<in> set rules \<Longrightarrow> ruleBehavior rule = Allow \<Longrightarrow> \<not> dangerous_value fl ant (ruleValue rule)"
    and "spec \<in> set specs \<Longrightarrow> cli_spec spec = Some (n, c) \<Longrightarrow> \<not> isDangerousClassifierPermission fl ant n c"
  using assms
  by (auto simp: findDangerousClassifierPermissions_def map_filter_def filter_empty_conv split: if_splits option.splits)

lemma start_inv:
  assumes "parsed_rules fl rules" "startup_catches fl ant opts"
  shows "mode_inv fl ant (start_session (in_build fl ant e) opts rules broken flag)"
proof -
  let ?e = "in_build fl ant e"
  define s1 where "s1 = \<lparr>mctx = initial_context ?e opts rules (isAutoModeGateEnabled ?e \<lparr>mctx = getEmptyToolPermissionContext,
       autoModeActive = (transcript_classifier fl \<and> startMode opts = AutoMode), autoModeFlagCli = flag,
       autoModeCircuitBroken = broken, needsPlanModeExitAttachment = False, needsAutoModeExitAttachment = False,
       hasExitedPlanMode = False, previousModeBeforeAuto = None, optInPending = False\<rparr>),
     autoModeActive = (transcript_classifier fl \<and> startMode opts = AutoMode), autoModeFlagCli = flag,
     autoModeCircuitBroken = broken, needsPlanModeExitAttachment = False, needsAutoModeExitAttachment = False,
     hasExitedPlanMode = False, previousModeBeforeAuto = None, optInPending = False\<rparr>"
  have start: "start_session ?e opts rules broken flag =
      (if transcript_classifier fl \<and> startup_dangerous ?e opts rules \<noteq> [] then strip_rules ?e s1 else s1)"
    by (simp add: start_session_def s1_def Let_def)
  have printed: "normalizeEntry fl (permissionRuleValueToString v) = permissionRuleValueToString v \<and>
      permissionRuleValueFromString fl (permissionRuleValueToString v) = v"
    if v: "v \<in> set (rules_for t b rules)" for t b v
  proof -
    obtain raw where "v = permissionRuleValueFromString fl raw"
      using assms(1) v by (auto simp: parsed_rules_def rules_for_def)
    then show ?thesis using rule.dec_normal [of fl raw] by (simp add: normalizeEntry_def)
  qed
  have "normal_rules fl (alwaysAllowRules (mctx s1))"
    using printed by (auto simp: normal_rules_def s1_def initial_context_frame parsed_allowed_def)
  then have ok: "rules_ok fl (mctx s1)" by (simp add: rules_ok_def s1_def initial_context_frame)
  show ?thesis
  proof (cases "transcript_classifier fl \<and> startMode opts = AutoMode")
    case False
    then show ?thesis
      using ok by (auto simp: start mode_inv_def flags_ok_def s1_def initial_context_frame startup_dangerous_def)
  next
    case True
    show ?thesis
    proof (cases "startup_dangerous ?e opts rules = []")
      case False
      then show ?thesis
        using True ok strip_frame [OF ok, of ant]
        by (simp add: start strip_rules_def mode_inv_def flags_ok_def s1_def initial_context_frame)
    next
      case none: True
      then have none': "findDangerousClassifierPermissions fl ant rules (parsed_allowed fl opts) = []"
        using True by (simp add: startup_dangerous_def)
      have cli: "\<not> dangerous_string fl ant r" if "r \<in> set (parsed_allowed fl opts)" for r
        using assms(2) that found_nothing(2) [OF none' that] by (auto simp: startup_catches_def split: option.splits)
      have disk: "\<not> dangerous_string fl ant (permissionRuleValueToString v)" if "v \<in> set (rules_for t Allow rules)" for t v
        using printed [OF that] that found_nothing(1) [OF none']
        by (auto simp: dangerous_string_def rules_for_def)
      have "clean_rules fl ant (mctx s1)"
        using cli disk by (auto simp: clean_rules_def s1_def initial_context_frame)
      then show ?thesis
        using True ok none by (simp add: start mode_inv_def flags_ok_def s1_def initial_context_frame)
    qed
  qed
qed

section \<open>What a run keeps\<close>


text \<open>The rules of a source, those in force and those put aside.\<close>

definition all_rules :: "tool_context \<Rightarrow> rule_source \<Rightarrow> string multiset" where
  "all_rules c t =
     mset (alwaysAllowRules c t) + (case strippedDangerousRules c of None \<Rightarrow> {#} | Some st \<Rightarrow> mset (st t))"

definition fixed_clean :: "features \<Rightarrow> bool \<Rightarrow> tool_context \<Rightarrow> bool" where
  "fixed_clean fl ant c \<longleftrightarrow>
     (\<forall>t. \<not> isPermissionUpdateDestination t \<longrightarrow> (\<forall>r\<in>set (alwaysAllowRules c t). \<not> dangerous_string fl ant r))"

definition rule_part :: "tool_context \<Rightarrow> rules_by_source \<times> rules_by_source option" where
  "rule_part c = (alwaysAllowRules c, strippedDangerousRules c)"

lemma rule_part_frame [simp]:
  "rule_part (c\<lparr>mode := m\<rparr>) = rule_part c" "rule_part (c\<lparr>prePlanMode := p\<rparr>) = rule_part c"
  "rule_part (c\<lparr>isAutoModeAvailable := a\<rparr>) = rule_part c"
  "rule_part (c\<lparr>isBypassPermissionsModeAvailable := b\<rparr>) = rule_part c"
  by (simp_all add: rule_part_def)

lemma same_rules:
  "rule_part c = rule_part c' \<Longrightarrow> all_rules c = all_rules c' \<and> fixed_clean fl ant c = fixed_clean fl ant c'"
  by (simp add: rule_part_def all_rules_def fixed_clean_def fun_eq_iff)

lemma strip_keeps:
  assumes "rules_ok fl c" "fixed_clean fl ant c" "strippedDangerousRules c \<noteq> None \<Longrightarrow> clean_rules fl ant c"
  shows "all_rules (stripDangerousPermissionsForAutoMode fl ant c) = all_rules c"
    and "fixed_clean fl ant (stripDangerousPermissionsForAutoMode fl ant c)"
proof -
  have n: "normal_rules fl (alwaysAllowRules c)" using assms(1) by (simp add: rules_ok_def)
  let ?found = "findDangerousClassifierPermissions fl ant (allow_rules_of fl c) []"
  show "fixed_clean fl ant (stripDangerousPermissionsForAutoMode fl ant c)"
    using assms(2) by (auto simp: strip_context [OF n] fixed_clean_def kept_def)
  have split: "mset (kept fl ant (alwaysAllowRules c) t) + mset (taken fl ant (alwaysAllowRules c) t) =
      mset (alwaysAllowRules c t)" for t
    by (simp add: kept_def taken_def union_commute [of "filter_mset (\<lambda>r. \<not> dangerous_string fl ant r) _"]
        multiset_partition [symmetric])
  have none: "?found = [] \<Longrightarrow> kept fl ant (alwaysAllowRules c) t = alwaysAllowRules c t" for t
    using found_at [of t fl ant c] by (auto simp: kept_def filter_empty_conv intro!: filter_True split: if_splits)
  show "all_rules (stripDangerousPermissionsForAutoMode fl ant c) = all_rules c"
  proof (cases "?found = []")
    case True
    then show ?thesis
      using none by (auto simp: strip_context [OF n] all_rules_def fun_eq_iff split: option.splits)
  next
    case False
    then obtain t r where "r \<in> set (alwaysAllowRules c t)" "dangerous_string fl ant r"
      by (auto simp: found_rules filter_empty_conv)
    then have "strippedDangerousRules c = None"
      using assms(2,3) by (cases "isPermissionUpdateDestination t") (auto simp: fixed_clean_def clean_rules_def)
    then show ?thesis using False split by (simp add: strip_context [OF n] all_rules_def fun_eq_iff)
  qed
qed

lemma restore_keeps:
  assumes "rules_ok fl c" "fixed_clean fl ant c"
  shows "all_rules (restoreDangerousPermissions fl c) = all_rules c"
    and "fixed_clean fl ant (restoreDangerousPermissions fl c)"
proof -
  have st: "map (normalizeEntry fl) (st t) = st t" "\<not> isPermissionUpdateDestination t \<Longrightarrow> st t = []"
    if "strippedDangerousRules c = Some st" for st t
    using assms(1) that by (auto simp: rules_ok_def intro!: map_idI) (metis list.set_intros(1) neq_Nil_conv)
  show "all_rules (restoreDangerousPermissions fl c) = all_rules c"
    using st by (auto simp: restore_context all_rules_def fun_eq_iff split: option.splits)
  show "fixed_clean fl ant (restoreDangerousPermissions fl c)"
    using assms(2) st
    by (auto simp: restore_context fixed_clean_def split: option.splits) (metis empty_iff list.set(1))
qed

text \<open>Every handler leaves the rules alone, strips them or restores them.\<close>

definition rule_step :: "features \<Rightarrow> bool \<Rightarrow> tool_context \<Rightarrow> tool_context \<Rightarrow> bool" where
  "rule_step fl ant c c' \<longleftrightarrow>
     rule_part c' \<in> {rule_part c, rule_part (stripDangerousPermissionsForAutoMode fl ant c),
       rule_part (restoreDangerousPermissions fl c)}"

lemma prepare_rules: "rule_step fl ant (mctx s) (mctx (prepareContextForPlanMode (in_build fl ant e) s))"
  by (simp add: rule_step_def prepareContextForPlanMode_def strip_rules_def restore_rules_def Let_def)

lemma switch_rules: "rule_step fl ant (mctx s) (mctx (snd (switch_classifier (in_build fl ant e) f t s)))"
  by (simp add: rule_step_def switch_classifier_def strip_rules_def restore_rules_def Let_def)

lemma transition_rules:
  "rule_step fl ant (mctx s) (mctx (snd (transitionPermissionMode (in_build fl ant e) f t s)))"
  using prepare_rules [of fl ant "attachment_flags f t s" e] switch_rules [of fl ant "attachment_flags f t s" e f t]
  by (auto simp: transition_cases rule_step_def)

lemma set_mode_part [simp]: "rule_part (mctx (set_mode m s)) = rule_part (mctx s)"
  by (simp add: set_mode_def)

lemma transition_set_rules:
  "rule_step fl ant (mctx s) (mctx (snd (transition_and_set (in_build fl ant e) f t s)))"
  using transition_rules [of fl ant s e f t]
  by (auto simp: transition_and_set_def rule_step_def split: option.splits prod.splits)

lemma plan_flag_context [simp]: "mctx (handlePlanModeTransition f t s) = mctx s"
  by (simp add: handlePlanModeTransition_def Let_def)

lemma step_rules:
  assumes "\<And>e local enabled st. ev \<noteq> SettingsChanged e local enabled st"
  shows "rule_step fl ant (mctx s) (mctx (mode_step fl ant s ev))"
proof (cases ev)
  case (CycleKey e)
  let ?s = "if transcript_classifier fl \<and> optInPending s
    then s\<lparr>optInPending := False, previousModeBeforeAuto := None\<rparr> else s"
  have same: "mctx ?s = mctx s" by simp
  have "rule_step fl ant (mctx s) (mctx (snd (transitionPermissionMode (in_build fl ant e) (mode (mctx ?s))
      (getNextPermissionMode (in_build fl ant e) ?s) ?s)))"
    using transition_rules [of fl ant ?s e "mode (mctx ?s)" "getNextPermissionMode (in_build fl ant e) ?s"]
    by (simp only: same)
  then show ?thesis
    by (auto simp: CycleKey handleCycleMode_def cyclePermissionMode_def rule_step_def Let_def
        split: option.splits prod.splits)
next
  case (AcceptAuto e)
  then show ?thesis
    using transition_set_rules [of fl ant "s\<lparr>optInPending := False, previousModeBeforeAuto := None\<rparr>" e]
    by (auto simp: handleAutoModeOptInAccept_def rule_step_def Let_def)
next
  case (SetModeMessage e m)
  then show ?thesis
    using transition_set_rules [of fl ant s e] by (auto simp: handleSetPermissionMode_def rule_step_def)
next
  case (EnterPlan e)
  then show ?thesis
    using prepare_rules [of fl ant "handlePlanModeTransition (mode (mctx s)) PlanMode s" e]
    by (simp add: enterPlanMode_def rule_step_def)
next
  case (DeclineAuto e)
  then show ?thesis by (simp add: handleAutoModeOptInDecline_def rule_step_def Let_def split: option.split)
next
  case (ExitPlan e)
  then show ?thesis by (simp add: exitPlanMode_def rule_step_def strip_rules_def restore_rules_def Let_def)
next
  case (GateChecked e config fast fm)
  then show ?thesis by (simp add: verifyAutoModeGateAccess_def rule_step_def Let_def)
next
  case (GateUpdate e u)
  then show ?thesis
    by (cases u) (simp_all add: apply_gate_update_def setAvailable_def kickOutOfAutoIfNeeded_def rule_step_def
        restore_rules_def Let_def)
next
  case BypassDisabled
  then show ?thesis by (simp add: createDisabledBypassPermissionsContext_def rule_step_def)
qed (use assms in simp)


lemma step_keeps:
  assumes "mode_inv fl ant s" "fixed_clean fl ant (mctx s)"
    and "\<And>e local enabled st. ev \<noteq> SettingsChanged e local enabled st"
  shows "all_rules (mctx (orderly_step fl ant s ev)) = all_rules (mctx s) \<and>
    fixed_clean fl ant (mctx (orderly_step fl ant s ev))"
proof (cases "orderly s ev")
  case True
  note inv = mode_invD [OF assms(1)]
  have "rule_step fl ant (mctx s) (mctx (orderly_step fl ant s ev))"
    using True step_rules [OF assms(3)] by (simp add: orderly_step_def)
  moreover have "strippedDangerousRules (mctx s) \<noteq> None \<Longrightarrow> clean_rules fl ant (mctx s)"
    using inv(2,4) by blast
  then have "all_rules (stripDangerousPermissionsForAutoMode fl ant (mctx s)) = all_rules (mctx s)"
      "fixed_clean fl ant (stripDangerousPermissionsForAutoMode fl ant (mctx s))"
    using strip_keeps [OF inv(1) assms(2)] by blast+
  ultimately show ?thesis
    using restore_keeps [OF inv(1) assms(2)] assms(2) same_rules [of "mctx (orderly_step fl ant s ev)" _ fl ant]
    unfolding rule_step_def by (metis empty_iff insert_iff)
qed (use assms(2) in \<open>simp add: orderly_step_def\<close>)

definition changes_settings :: "mode_event \<Rightarrow> bool" where
  "changes_settings ev = (case ev of SettingsChanged _ _ _ _ \<Rightarrow> True | _ \<Rightarrow> False)"

lemma run_keeps:
  assumes "mode_inv fl ant s" "fixed_clean fl ant (mctx s)" "\<not> list_ex changes_settings es"
  shows "all_rules (mctx (foldl (orderly_step fl ant) s es)) = all_rules (mctx s)"
  using assms
proof (induction es arbitrary: s)
  case (Cons ev es)
  have "\<And>e local enabled st. ev \<noteq> SettingsChanged e local enabled st"
    using Cons.prems(3) by (auto simp: changes_settings_def)
  note keeps = step_keeps [OF Cons.prems(1,2) this]
  show ?case
    using Cons.IH [OF modes.step_inv [OF Cons.prems(1)]] keeps Cons.prems(3) by simp
qed simp


end
