(* ===== verification/Mode_Examples.thy ===== *)
theory Mode_Examples
  imports Mode_Laws
begin

text \<open>
  The properties of mode changes at a concrete session, and where auto mode is left with less protection, or
  a session with fewer rules, than the comments say.
\<close>

section \<open>A session\<close>

abbreviation live_build :: features where
  "live_build \<equiv> all_off\<lparr>transcript_classifier := True\<rparr>"

definition live_env :: mode_env where
  "live_env =
     \<lparr>menv_features = live_build, antBuild = False, autoDisabledBySettings = False,
      modelSupportsAutoMode = True, skipAutoPermissionPrompt = (\<lambda>_. Some True), planUsesAuto = (\<lambda>_. None),
      bypassDisabledByGate = False, bypassDisabledBySettings = False\<rparr>"

definition allow_file :: "string list \<Rightarrow> settings_file" where
  "allow_file rs = FileValid (no_settings\<lparr>permissions := Some (no_perms\<lparr>p_allow := Some rs\<rparr>)\<rparr>)"

definition disk_rules :: "string list \<Rightarrow> string list \<Rightarrow> settings_store" where
  "disk_rules user policy =
     (\<lambda>_. FileAbsent)(UserSettings := allow_file user, PolicySettings := allow_file policy)"

definition start_in :: "permission_mode \<Rightarrow> setup_options" where
  "start_in m = \<lparr>allowedToolsCli = [], disallowedToolsCli = [], baseToolsCli = [], startMode = m,
     allowDangerouslySkipPermissions = False, processPwdLink = None, validDirectories = [], defaultPresetTools = []\<rparr>"

definition live_start :: "permission_mode \<Rightarrow> string list \<Rightarrow> string list \<Rightarrow> mode_session" where
  "live_start m user policy = start_session (in_build live_build False live_env) (start_in m)
     (loadAllPermissionRulesFromDisk live_build [UserSettings, PolicySettings] (disk_rules user policy)) False False"

definition live_run :: "mode_session \<Rightarrow> mode_event list \<Rightarrow> mode_session" where
  "live_run = foldl (orderly_step live_build False)"

text \<open>Contexts and rules of the session, written out.\<close>

definition context_at ::
  "permission_mode \<Rightarrow> permission_mode option \<Rightarrow> rules_by_source \<Rightarrow> rules_by_source option \<Rightarrow> tool_context" where
  "context_at m pre rs stash = getEmptyToolPermissionContext
     \<lparr>mode := m, prePlanMode := pre, alwaysAllowRules := rs, strippedDangerousRules := stash,
      isAutoModeAvailable := Some True\<rparr>"

definition two_rules :: "string list \<Rightarrow> string list \<Rightarrow> rules_by_source" where
  "two_rules user policy = (\<lambda>s. if s = UserSettings then user else if s = PolicySettings then policy else [])"

abbreviation python_rule :: string where "python_rule \<equiv> ''Bash(python:*)''"
abbreviation ls_rule :: string where "ls_rule \<equiv> ''Bash(ls:*)''"

lemma rule_facts [simp]:
  "dangerous_string live_build False python_rule" "\<not> dangerous_string live_build False ls_rule"
  "dangerous_string live_build False ''Bash''"
  "normalizeEntry live_build python_rule = python_rule" "normalizeEntry live_build ls_rule = ls_rule"
  "normalizeEntry live_build ''Bash'' = ''Bash''"
  by code_simp+

lemma context_at_simps [simp]:
  "mode (context_at m p rs st) = m" "prePlanMode (context_at m p rs st) = p"
  "alwaysAllowRules (context_at m p rs st) = rs" "strippedDangerousRules (context_at m p rs st) = st"
  "isAutoModeAvailable (context_at m p rs st) = Some True"
  "(context_at m p rs st)\<lparr>mode := m'\<rparr> = context_at m' p rs st"
  "(context_at m p rs st)\<lparr>prePlanMode := p'\<rparr> = context_at m p' rs st"
  "(context_at m p rs st)\<lparr>alwaysAllowRules := rs'\<rparr> = context_at m p rs' st"
  "(context_at m p rs st)\<lparr>strippedDangerousRules := st'\<rparr> = context_at m p rs st'"
  by (simp_all add: context_at_def)

lemma live_env_simps [simp]:
  "classifier_feature (in_build live_build False live_env)"
  "isAutoModeGateEnabled (in_build live_build False live_env) s = (\<not> autoModeCircuitBroken s)"
  "hasAutoModeOptIn (in_build live_build False live_env)" "getUseAutoModeDuringPlan (in_build live_build False live_env)"
  by (simp_all add: live_env_def in_build_def isAutoModeGateEnabled_def hasAutoModeOptIn_def getUseAutoModeDuringPlan_def)

lemma live_catches: "startup_catches live_build False (start_in m)"
  by (simp add: startup_catches_def parsed_allowed_def start_in_def parseToolListFromCLI_def)

text \<open>The start.\<close>

lemma loaded:
  "loadAllPermissionRulesFromDisk live_build [UserSettings, PolicySettings] (disk_rules user policy) =
     map (\<lambda>r. \<lparr>source = UserSettings, ruleBehavior = Allow, ruleValue = permissionRuleValueFromString live_build r\<rparr>) user @
     map (\<lambda>r. \<lparr>source = PolicySettings, ruleBehavior = Allow, ruleValue = permissionRuleValueFromString live_build r\<rparr>) policy"
  by (simp add: loadAllPermissionRulesFromDisk_def shouldAllowManagedPermissionRulesOnly_def getSettingsForSource_def
      disk_rules_def allow_file_def no_settings_def no_perms_def getPermissionRulesForSource_def settingsJsonToRules_def
      SUPPORTED_RULE_BEHAVIORS_def perm_list_def)

lemma live_start_rules:
  "alwaysAllowRules (mctx (live_start DefaultMode user policy)) =
     two_rules (map (normalizeEntry live_build) user) (map (normalizeEntry live_build) policy)"
  by (rule ext) (simp add: live_start_def start_session_def startup_dangerous_def start_in_def initial_context_frame
      loaded parsed_allowed_def parseToolListFromCLI_def rules_for_def two_rules_def normalizeEntry_def comp_def filter_map Let_def)

lemma live_start_flags:
  "mode (mctx (live_start DefaultMode user policy)) = DefaultMode"
  "prePlanMode (mctx (live_start DefaultMode user policy)) = None"
  "strippedDangerousRules (mctx (live_start DefaultMode user policy)) = None"
  "\<not> autoModeCircuitBroken (live_start DefaultMode user policy)" "\<not> autoModeActive (live_start DefaultMode user policy)"
  by (simp_all add: live_start_def start_session_def startup_dangerous_def start_in_def initial_context_frame Let_def)

section \<open>Events\<close>

abbreviation live :: mode_env where "live \<equiv> in_build live_build False live_env"

abbreviation live_step :: "mode_session \<Rightarrow> mode_event \<Rightarrow> mode_session" where
  "live_step \<equiv> orderly_step live_build False"

text \<open>The message that sets auto mode in default mode, and the one that leaves it.\<close>

lemma auto_message:
  assumes "mode (mctx s) = DefaultMode" "\<not> autoModeCircuitBroken s"
  shows "mctx (live_step s (SetModeMessage live_env AutoMode)) =
      (stripDangerousPermissionsForAutoMode live_build False (mctx s))\<lparr>mode := AutoMode\<rparr>"
    and "autoModeActive (live_step s (SetModeMessage live_env AutoMode))"
    and "autoModeCircuitBroken (live_step s (SetModeMessage live_env AutoMode)) = False"
  using assms
  by (simp_all add: orderly_step_def handleSetPermissionMode_def transition_and_set_def transition_cases
      switch_classifier_def strip_rules_def set_mode_def attachment_flags_def handlePlanModeTransition_def
      handleAutoModeTransition_def Let_def)

lemma default_message:
  assumes "mode (mctx s) = AutoMode"
  shows "mctx (live_step s (SetModeMessage live_env DefaultMode)) =
      (restoreDangerousPermissions live_build (mctx s))\<lparr>mode := DefaultMode\<rparr>"
    and "\<not> autoModeActive (live_step s (SetModeMessage live_env DefaultMode))"
  using assms
  by (simp_all add: orderly_step_def handleSetPermissionMode_def transition_and_set_def transition_cases
      switch_classifier_def restore_rules_def set_mode_def Let_def)

lemma enter_plan:
  assumes "mode (mctx s) = AutoMode" "\<not> autoModeCircuitBroken s"
  shows "mctx (live_step s (EnterPlan live_env)) = (mctx s)\<lparr>prePlanMode := Some AutoMode, mode := PlanMode\<rparr>"
    and "autoModeActive (live_step s (EnterPlan live_env)) = autoModeActive s"
    and "autoModeCircuitBroken (live_step s (EnterPlan live_env)) = False"
  using assms
  by (simp_all add: orderly_step_def enterPlanMode_def prepareContextForPlanMode_def set_mode_def
      handlePlanModeTransition_def shouldPlanUseAutoMode_def Let_def)

lemma exit_plan:
  assumes "mode (mctx s) = PlanMode" "prePlanMode (mctx s) = Some AutoMode" "\<not> autoModeCircuitBroken s"
  shows "mctx (live_step s (ExitPlan live_env)) =
      (stripDangerousPermissionsForAutoMode live_build False (mctx s))\<lparr>mode := AutoMode, prePlanMode := None\<rparr>"
    and "autoModeActive (live_step s (ExitPlan live_env))"
  using assms
  by (simp_all add: orderly_step_def exitPlanMode_def strip_rules_def Let_def)

text \<open>Stripping and restoring at rules that are written out.\<close>

lemma two_rules_at [simp]:
  "two_rules user policy UserSettings = user" "two_rules user policy PolicySettings = policy"
  "s \<noteq> UserSettings \<Longrightarrow> s \<noteq> PolicySettings \<Longrightarrow> two_rules user policy s = []"
  by (simp_all add: two_rules_def)

lemma two_rules_eq [simp]: "two_rules a b = two_rules c d \<longleftrightarrow> a = c \<and> b = d"
  by (auto simp: fun_eq_iff two_rules_def split: if_splits)

lemma found_two:
  assumes "alwaysAllowRules c = two_rules user policy"
  shows "findDangerousClassifierPermissions live_build False (allow_rules_of live_build c) [] = [] \<longleftrightarrow>
    filter (dangerous_string live_build False) (user @ policy) = []"
  unfolding found_rules assms RULE_SOURCES_def by simp

lemma kept_two: "kept live_build False (two_rules user policy) =
    two_rules (filter (\<lambda>r. \<not> dangerous_string live_build False r) user) policy"
  by (auto simp: fun_eq_iff kept_def two_rules_def isPermissionUpdateDestination_def)

lemma taken_two: "taken live_build False (two_rules user policy) =
    two_rules (filter (dangerous_string live_build False) user) []"
  by (auto simp: fun_eq_iff taken_def two_rules_def isPermissionUpdateDestination_def)

lemma strip_two:
  assumes "alwaysAllowRules c = two_rules user policy" "list_all (\<lambda>r. normalizeEntry live_build r = r) user"
  shows "stripDangerousPermissionsForAutoMode live_build False c =
    c\<lparr>alwaysAllowRules := two_rules (filter (\<lambda>r. \<not> dangerous_string live_build False r) user) policy,
      strippedDangerousRules := Some (if filter (dangerous_string live_build False) (user @ policy) = []
        then (case strippedDangerousRules c of None \<Rightarrow> (\<lambda>_. []) | Some st \<Rightarrow> st)
        else two_rules (filter (dangerous_string live_build False) user) [])\<rparr>"
proof -
  have "normal_rules live_build (alwaysAllowRules c)"
    using assms(2) by (auto simp: normal_rules_def assms(1) two_rules_def list_all_iff isPermissionUpdateDestination_def
        split: if_splits)
  then show ?thesis
    by (simp add: strip_context found_two [OF assms(1)] kept_two taken_two assms(1))
qed

lemma restore_two:
  assumes "alwaysAllowRules c = two_rules user policy" "strippedDangerousRules c = Some (two_rules gone [])"
    "list_all (\<lambda>r. normalizeEntry live_build r = r) gone"
  shows "restoreDangerousPermissions live_build c =
    c\<lparr>alwaysAllowRules := two_rules (user @ gone) policy, strippedDangerousRules := None\<rparr>"
proof -
  have "map (normalizeEntry live_build) gone = gone"
    using assms(3) by (auto simp: list_all_iff intro: map_idI)
  then have "(\<lambda>s. two_rules user policy s @ map (normalizeEntry live_build) (two_rules gone [] s)) =
      two_rules (user @ gone) policy"
    by (simp add: fun_eq_iff two_rules_def)
  then show ?thesis by (simp add: restore_context assms(1,2))
qed

section \<open>The properties at a session\<close>

abbreviation first_session :: mode_session where
  "first_session \<equiv> live_start DefaultMode [python_rule, ls_rule] [ls_rule]"

lemma first_rules: "alwaysAllowRules (mctx first_session) = two_rules [python_rule, ls_rule] [ls_rule]"
  by (simp add: live_start_rules)

lemma first_auto:
  "mctx (live_step first_session (SetModeMessage live_env AutoMode)) = (mctx first_session)
     \<lparr>alwaysAllowRules := two_rules [ls_rule] [ls_rule],
      strippedDangerousRules := Some (two_rules [python_rule] []), mode := AutoMode\<rparr>"
  "autoModeActive (live_step first_session (SetModeMessage live_env AutoMode))"
  using auto_message [OF live_start_flags(1) live_start_flags(4)] strip_two [OF first_rules] by simp_all

lemma first_session_start:
  "first_session = start_session live (start_in DefaultMode)
     (loadAllPermissionRulesFromDisk live_build [UserSettings, PolicySettings] (disk_rules [python_rule, ls_rule] [ls_rule]))
     False False"
  by (simp add: live_start_def)


lemma first_fixed: "fixed_clean live_build False (mctx first_session)"
  by (auto simp: fixed_clean_def first_rules two_rules_def isPermissionUpdateDestination_def split: if_splits)


section \<open>Where the rules and the mode come apart\<close>

text \<open>
  The list of dangerous shapes misses a wildcard inside the name of an interpreter, and the search of the
  command line a content with parentheses.
\<close>

lemma wildcard_overlooked:
  "\<not> isDangerousBashPermission False BASH_TOOL_NAME (Some ''pytho*'')"
  "matchWildcardPattern ''pytho*'' ''python -c x'' False"
  by code_simp+

lemma startup_overlooks:
  "(let rules = parsed_allowed live_build ((start_in AutoMode)\<lparr>allowedToolsCli := [''Bash(python -(x)*)'']\<rparr>)
    in rules \<noteq> [] \<and> list_all (\<lambda>r. dangerous_string live_build False r \<and> cli_spec r = None) rules)"
  by code_simp

text \<open>A bypass that is switched off during a plan is back when the plan is left.\<close>

lemma plan_exit_restores_bypass:
  assumes "mode (mctx s) = PlanMode" "prePlanMode (mctx s) = Some BypassPermissions"
  shows "mode (mctx (mode_step fl ant (mode_step fl ant s BypassDisabled) (ExitPlan e))) = BypassPermissions"
  using assms
  by (simp add: createDisabledBypassPermissionsContext_def exitPlanMode_def strip_rules_def restore_rules_def
      restore_frame Let_def split: option.split)

text \<open>
  In auto mode a change of the settings puts the dangerous rules of the disk back in force: they are
  synchronised, and only a plan is stripped again.
\<close>

lemma settings_change_unstrips:
  assumes "mode (mctx s) = AutoMode"
  shows "alwaysAllowRules (mctx (mode_step live_build False s
    (SettingsChanged live_env local [UserSettings, PolicySettings] (disk_rules [python_rule] [])))) UserSettings =
      [python_rule]"
proof -
  let ?rules = "loadAllPermissionRulesFromDisk live_build [UserSettings, PolicySettings] (disk_rules [python_rule] [])"
  have "rules_of (syncPermissionRulesFromDisk st c ?rules) Allow UserSettings = [normalizeEntry live_build python_rule]"
    for st c
    by (simp add: sync_rules loaded rules_for_def normalizeEntry_def Let_def del: rule_facts)
  then have "alwaysAllowRules (syncPermissionRulesFromDisk st c ?rules) UserSettings = [python_rule]" for st c
    by (simp add: rules_of_def)
  then show ?thesis
    using assms
    by (simp add: applySettingsChange_def transitionPlanAutoMode_def createDisabledBypassPermissionsContext_def Let_def)
qed

text \<open>
  A dangerous rule of the policy is found but never taken out.  With one, the second stripping, when a plan
  returns to auto mode, finds it again, and replaces what was put aside by nothing: the rule of the user is
  not put back.
\<close>

lemma restrip_forgets:
  "(let s = live_run (live_start DefaultMode [python_rule, ls_rule] [python_rule])
       [SetModeMessage live_env AutoMode, EnterPlan live_env, ExitPlan live_env, SetModeMessage live_env DefaultMode]
    in mode (mctx s) = DefaultMode \<and> alwaysAllowRules (mctx s) UserSettings = [ls_rule])"
proof -
  let ?s0 = "live_start DefaultMode [python_rule, ls_rule] [python_rule]"
  define s1 where "s1 = live_step ?s0 (SetModeMessage live_env AutoMode)"
  define s2 where "s2 = live_step s1 (EnterPlan live_env)"
  define s3 where "s3 = live_step s2 (ExitPlan live_env)"
  have r0: "alwaysAllowRules (mctx ?s0) = two_rules [python_rule, ls_rule] [python_rule]"
    by (simp add: live_start_rules)
  have s1: "mode (mctx s1) = AutoMode" "alwaysAllowRules (mctx s1) = two_rules [ls_rule] [python_rule]"
      "\<not> autoModeCircuitBroken s1"
    using auto_message [OF live_start_flags(1) live_start_flags(4)] strip_two [OF r0] by (simp_all add: s1_def)
  have s2: "mode (mctx s2) = PlanMode" "prePlanMode (mctx s2) = Some AutoMode"
      "alwaysAllowRules (mctx s2) = two_rules [ls_rule] [python_rule]" "\<not> autoModeCircuitBroken s2"
    using enter_plan [OF s1(1,3)] s1(2) by (simp_all add: s2_def)
  have s3: "mode (mctx s3) = AutoMode" "alwaysAllowRules (mctx s3) = two_rules [ls_rule] [python_rule]"
      "strippedDangerousRules (mctx s3) = Some (two_rules [] [])"
    using exit_plan [OF s2(1,2,4)] strip_two [OF s2(3)] by (simp_all add: s3_def)
  have "mctx (live_step s3 (SetModeMessage live_env DefaultMode)) =
      (mctx s3)\<lparr>alwaysAllowRules := two_rules [ls_rule] [python_rule], strippedDangerousRules := None,
        mode := DefaultMode\<rparr>"
    using default_message(1) [OF s3(1)] restore_two [OF s3(2,3)] by simp
  then show ?thesis by (simp add: live_run_def s1_def [symmetric] s2_def [symmetric] s3_def [symmetric])
qed

end
