(* ===== verification/Task_List.thy ===== *)
theory Task_List
  imports Js_Strings "HOL-Library.AList"
begin

text \<open>
  The task list that the agents of a session share, \<open>src/utils/tasks.ts\<close>: a directory with a file for
  each task and one for the highest identifier ever given.  Here every operation is one step; the locks
  and the interleaving of the operations of several processes are in \<open>Task_Locks\<close>.  Numbers in file
  names are exact, and writing a file does not fail.
\<close>

section \<open>Data\<close>

datatype task_status = TaskPending | TaskInProgress | TaskCompleted

text \<open>A task as the program reads it, and as a file holds it, where the status is any text.\<close>

record 'st task_data =
  task_id :: string
  subject :: string
  description :: string
  activeForm :: "string option"
  owner :: "string option"
  task_status :: 'st
  blocks :: "string list"
  blockedBy :: "string list"
  metadata :: "(string \<times> string) list option"

type_synonym task = "task_status task_data"

text \<open>A file that is no task: it does not parse, or has another shape.\<close>

datatype stored_file = TaskFile "string task_data" | OtherFile

record task_dir =
  task_files :: "(string \<times> stored_file) list"
  highWaterMark :: "string option"

definition status_string :: "task_status \<Rightarrow> string" where
  "status_string st =
     (case st of TaskPending \<Rightarrow> ''pending'' | TaskInProgress \<Rightarrow> ''in_progress'' | TaskCompleted \<Rightarrow> ''completed'')"

definition parse_status :: "string \<Rightarrow> task_status option" where
  "parse_status s =
     map_of [(''pending'', TaskPending), (''in_progress'', TaskInProgress), (''completed'', TaskCompleted)] s"

definition with_status :: "'b \<Rightarrow> 'a task_data \<Rightarrow> 'b task_data" where
  "with_status st t =
     \<lparr>task_id = task_id t, subject = subject t, description = description t, activeForm = activeForm t,
      owner = owner t, task_status = st, blocks = blocks t, blockedBy = blockedBy t, metadata = metadata t\<rparr>"

text \<open>A field of an object that may be missing, with an empty text as good as none.\<close>

definition nonempty_text :: "string option \<Rightarrow> bool" where
  "nonempty_text x \<longleftrightarrow> x \<noteq> None \<and> x \<noteq> Some []"

section \<open>Names and numbers\<close>

definition sanitizePathComponent :: "string \<Rightarrow> string" where
  "sanitizePathComponent s =
     map (\<lambda>c. if alphanumeric c \<or> c = CHR ''_'' \<or> c = CHR ''-'' then c else CHR ''-'') s"

definition sanitizeName :: "string \<Rightarrow> string" where
  "sanitizeName s = toLowerCase (map (\<lambda>c. if alphanumeric c then c else CHR ''-'') s)"

definition json_ext :: string where "json_ext = ''.json''"

definition getTaskPath :: "string \<Rightarrow> string" where
  "getTaskPath taskId = sanitizePathComponent taskId @ json_ext"

text \<open>\<open>file.replace('.json', '')\<close>, which takes out the first occurrence.\<close>

definition drop_ext :: "string \<Rightarrow> string" where
  "drop_ext f = (case index_of json_ext f of None \<Rightarrow> f | Some i \<Rightarrow> take i f @ drop (i + length json_ext) f)"

definition int_string :: "int \<Rightarrow> string" where
  "int_string n = (if n < 0 then CHR ''-'' # decimal (nat (- n)) else decimal (nat n))"

definition readHighWaterMark :: "task_dir \<Rightarrow> int" where
  "readHighWaterMark d =
     (case highWaterMark d of None \<Rightarrow> 0
      | Some content \<Rightarrow> (case parseInt10 (js_trim content) of None \<Rightarrow> 0 | Some n \<Rightarrow> n))"

definition writeHighWaterMark :: "int \<Rightarrow> task_dir \<Rightarrow> task_dir" where
  "writeHighWaterMark n d = d\<lparr>highWaterMark := Some (int_string n)\<rparr>"

definition is_json_file :: "string \<Rightarrow> bool" where "is_json_file f = ends_with json_ext f"

definition findHighestTaskIdFromFiles :: "task_dir \<Rightarrow> int" where
  "findHighestTaskIdFromFiles d =
     foldl (\<lambda>highest f.
       if \<not> is_json_file f then highest
       else (case parseInt10 (drop_ext f) of None \<Rightarrow> highest | Some n \<Rightarrow> if n > highest then n else highest))
       0 (map fst (task_files d))"

definition findHighestTaskId :: "task_dir \<Rightarrow> int" where
  "findHighestTaskId d = max (findHighestTaskIdFromFiles d) (readHighWaterMark d)"

section \<open>Reading and writing tasks\<close>

text \<open>The status of an older session, in an internal build.\<close>

definition migrated_status :: "bool \<Rightarrow> string \<Rightarrow> string" where
  "migrated_status ant s =
     (if \<not> ant then s
      else if s = ''open'' then ''pending''
      else if s = ''resolved'' then ''completed''
      else if s \<in> {''planning'', ''implementing'', ''reviewing'', ''verifying''} then ''in_progress'' else s)"

definition read_task :: "bool \<Rightarrow> stored_file \<Rightarrow> task option" where
  "read_task ant file =
     (case file of OtherFile \<Rightarrow> None
      | TaskFile t \<Rightarrow> map_option (\<lambda>st. with_status st t) (parse_status (migrated_status ant (task_status t))))"

definition getTask :: "bool \<Rightarrow> task_dir \<Rightarrow> string \<Rightarrow> task option" where
  "getTask ant d taskId = Option.bind (map_of (task_files d) (getTaskPath taskId)) (read_task ant)"

definition write_task :: "string \<Rightarrow> task \<Rightarrow> task_dir \<Rightarrow> task_dir" where
  "write_task taskId t d =
     d\<lparr>task_files := AList.update (getTaskPath taskId) (TaskFile (with_status (status_string (task_status t)) t))
        (task_files d)\<rparr>"

definition createTask :: "task \<Rightarrow> task_dir \<Rightarrow> string \<times> task_dir" where
  "createTask data d =
     (let i = int_string (findHighestTaskId d + 1) in (i, write_task i (data\<lparr>task_id := i\<rparr>) d))"

text \<open>Partial updates: a field is left, or set, perhaps to nothing.\<close>

record task_updates =
  u_subject :: "string option"
  u_description :: "string option"
  u_activeForm :: "string option option"
  u_owner :: "string option option"
  u_status :: "task_status option"
  u_blocks :: "string list option"
  u_blockedBy :: "string list option"
  u_metadata :: "(string \<times> string) list option option"

definition no_updates :: task_updates where
  "no_updates = \<lparr>u_subject = None, u_description = None, u_activeForm = None, u_owner = None, u_status = None,
     u_blocks = None, u_blockedBy = None, u_metadata = None\<rparr>"

abbreviation or_old :: "'a option \<Rightarrow> 'a \<Rightarrow> 'a" where "or_old u x \<equiv> (case u of None \<Rightarrow> x | Some y \<Rightarrow> y)"

definition updated_task :: "task_updates \<Rightarrow> string \<Rightarrow> task \<Rightarrow> task" where
  "updated_task u taskId t =
     \<lparr>task_id = taskId, subject = or_old (u_subject u) (subject t), description = or_old (u_description u) (description t),
      activeForm = or_old (u_activeForm u) (activeForm t), owner = or_old (u_owner u) (owner t),
      task_status = or_old (u_status u) (task_status t), blocks = or_old (u_blocks u) (blocks t),
      blockedBy = or_old (u_blockedBy u) (blockedBy t), metadata = or_old (u_metadata u) (metadata t)\<rparr>"

definition updateTaskUnsafe :: "bool \<Rightarrow> string \<Rightarrow> task_updates \<Rightarrow> task_dir \<Rightarrow> task option \<times> task_dir" where
  "updateTaskUnsafe ant taskId u d =
     (case getTask ant d taskId of
        None \<Rightarrow> (None, d)
      | Some t \<Rightarrow> (let t' = updated_task u taskId t in (Some t', write_task taskId t' d)))"

text \<open>Without another process the second reading, under the lock, is the first.\<close>

definition updateTask :: "bool \<Rightarrow> string \<Rightarrow> task_updates \<Rightarrow> task_dir \<Rightarrow> task option \<times> task_dir" where
  "updateTask ant taskId u d =
     (case getTask ant d taskId of None \<Rightarrow> (None, d) | Some _ \<Rightarrow> updateTaskUnsafe ant taskId u d)"

definition listTasks :: "bool \<Rightarrow> task_dir \<Rightarrow> task list" where
  "listTasks ant d = List.map_filter (getTask ant d) (map drop_ext (filter is_json_file (map fst (task_files d))))"

definition unlink_task :: "string \<Rightarrow> task_dir \<Rightarrow> task_dir" where
  "unlink_task file d = d\<lparr>task_files := AList.delete file (task_files d)\<rparr>"

text \<open>The updates that take a reference out of the other tasks.\<close>

definition drop_reference :: "bool \<Rightarrow> string \<Rightarrow> task_dir \<Rightarrow> task \<Rightarrow> task_dir" where
  "drop_reference ant taskId d t =
     (let newBlocks = filter (\<lambda>i. i \<noteq> taskId) (blocks t); newBlockedBy = filter (\<lambda>i. i \<noteq> taskId) (blockedBy t)
      in if length newBlocks \<noteq> length (blocks t) \<or> length newBlockedBy \<noteq> length (blockedBy t)
         then snd (updateTask ant (task_id t)
                (no_updates\<lparr>u_blocks := Some newBlocks, u_blockedBy := Some newBlockedBy\<rparr>) d)
         else d)"

definition raise_mark :: "string \<Rightarrow> task_dir \<Rightarrow> task_dir" where
  "raise_mark taskId d =
     (case parseInt10 taskId of
        None \<Rightarrow> d
      | Some n \<Rightarrow> if n > readHighWaterMark d then writeHighWaterMark n d else d)"

definition deleteTask :: "bool \<Rightarrow> string \<Rightarrow> task_dir \<Rightarrow> bool \<times> task_dir" where
  "deleteTask ant taskId d =
     (let d1 = raise_mark taskId d
      in if map_of (task_files d1) (getTaskPath taskId) = None then (False, d1)
         else (let d2 = unlink_task (getTaskPath taskId) d1
               in (True, foldl (drop_reference ant taskId) d2 (listTasks ant d2))))"

definition resetTaskList :: "task_dir \<Rightarrow> task_dir" where
  "resetTaskList d =
     (let currentHighest = findHighestTaskIdFromFiles d;
          d1 = (if currentHighest > 0 \<and> currentHighest > readHighWaterMark d
                then writeHighWaterMark currentHighest d else d)
      in d1\<lparr>task_files := filter (\<lambda>(f, _). \<not> (is_json_file f \<and> \<not> starts_with ''.'' f)) (task_files d1)\<rparr>)"

definition blockTask :: "bool \<Rightarrow> string \<Rightarrow> string \<Rightarrow> task_dir \<Rightarrow> bool \<times> task_dir" where
  "blockTask ant fromTaskId toTaskId d =
     (case (getTask ant d fromTaskId, getTask ant d toTaskId) of
        (Some fromTask, Some toTask) \<Rightarrow>
          (let d1 = (if toTaskId \<notin> set (blocks fromTask)
                     then snd (updateTask ant fromTaskId (no_updates\<lparr>u_blocks := Some (blocks fromTask @ [toTaskId])\<rparr>) d)
                     else d);
               d2 = (if fromTaskId \<notin> set (blockedBy toTask)
                     then snd (updateTask ant toTaskId (no_updates\<lparr>u_blockedBy := Some (blockedBy toTask @ [fromTaskId])\<rparr>) d1)
                     else d1)
           in (True, d2))
      | _ \<Rightarrow> (False, d))"

section \<open>Claims\<close>

datatype claim_result =
    Claimed "task option"
  | TaskNotFound
  | AlreadyClaimed task
  | AlreadyResolved task
  | ClaimBlocked task "string list"
  | AgentBusy task "string list"

definition unresolved_ids :: "task list \<Rightarrow> string list" where
  "unresolved_ids ts = map task_id (filter (\<lambda>t. task_status t \<noteq> TaskCompleted) ts)"

definition open_blockers :: "task list \<Rightarrow> task \<Rightarrow> string list" where
  "open_blockers ts t = filter (\<lambda>i. i \<in> set (unresolved_ids ts)) (blockedBy t)"

text \<open>The tests that the two ways to claim a task share; the list of the tasks is read after the first two.\<close>

definition claim_refusal :: "string \<Rightarrow> task \<Rightarrow> task list \<Rightarrow> claim_result option" where
  "claim_refusal agent t ts =
     (if nonempty_text (owner t) \<and> owner t \<noteq> Some agent then Some (AlreadyClaimed t)
      else if task_status t = TaskCompleted then Some (AlreadyResolved t)
      else if open_blockers ts t \<noteq> [] then Some (ClaimBlocked t (open_blockers ts t)) else None)"

definition agent_open_tasks :: "string \<Rightarrow> string \<Rightarrow> task list \<Rightarrow> task list" where
  "agent_open_tasks agent taskId ts =
     filter (\<lambda>t. task_status t \<noteq> TaskCompleted \<and> owner t = Some agent \<and> task_id t \<noteq> taskId) ts"

definition claimTaskWithBusyCheck :: "bool \<Rightarrow> string \<Rightarrow> string \<Rightarrow> task_dir \<Rightarrow> claim_result \<times> task_dir" where
  "claimTaskWithBusyCheck ant taskId agent d =
     (let ts = listTasks ant d
      in case find (\<lambda>t. task_id t = taskId) ts of
           None \<Rightarrow> (TaskNotFound, d)
         | Some t \<Rightarrow>
             (case claim_refusal agent t ts of
                Some r \<Rightarrow> (r, d)
              | None \<Rightarrow>
                  if agent_open_tasks agent taskId ts \<noteq> []
                  then (AgentBusy t (map task_id (agent_open_tasks agent taskId ts)), d)
                  else (let (t', d') = updateTask ant taskId (no_updates\<lparr>u_owner := Some (Some agent)\<rparr>) d
                        in (Claimed t', d'))))"

definition claimTask :: "bool \<Rightarrow> string \<Rightarrow> string \<Rightarrow> bool \<Rightarrow> task_dir \<Rightarrow> claim_result \<times> task_dir" where
  "claimTask ant taskId agent checkAgentBusy d =
     (case getTask ant d taskId of
        None \<Rightarrow> (TaskNotFound, d)
      | Some t \<Rightarrow>
          if checkAgentBusy then claimTaskWithBusyCheck ant taskId agent d
          else (case claim_refusal agent t (listTasks ant d) of
                  Some r \<Rightarrow> (r, d)
                | None \<Rightarrow>
                    (let (t', d') = updateTaskUnsafe ant taskId (no_updates\<lparr>u_owner := Some (Some agent)\<rparr>) d
                     in (Claimed t', d'))))"

section \<open>Agents\<close>

record team_member =
  agentId :: string
  member_name :: string
  agentType :: "string option"

record agent_status =
  team_entry :: team_member
  idle :: bool
  currentTasks :: "string list"

definition tasks_of_owner :: "string \<Rightarrow> task list \<Rightarrow> string list" where
  "tasks_of_owner who ts =
     map task_id (filter (\<lambda>t. task_status t \<noteq> TaskCompleted \<and> nonempty_text (owner t) \<and> owner t = Some who) ts)"

text \<open>The members of the team are read from the file of the team, None when there is none.\<close>

definition getAgentStatuses :: "team_member list option \<Rightarrow> task list \<Rightarrow> agent_status list option" where
  "getAgentStatuses team ts =
     map_option (map (\<lambda>m.
       let current = first_occurrences (tasks_of_owner (member_name m) ts @ tasks_of_owner (agentId m) ts)
       in \<lparr>team_entry = m, idle = (current = []), currentTasks = current\<rparr>)) team"

definition owned_by_teammate :: "string \<Rightarrow> string \<Rightarrow> task \<Rightarrow> bool" where
  "owned_by_teammate teammateId teammateName t \<longleftrightarrow>
     task_status t \<noteq> TaskCompleted \<and> (owner t = Some teammateId \<or> owner t = Some teammateName)"

definition unassign_message :: "string \<Rightarrow> bool \<Rightarrow> task list \<Rightarrow> string" where
  "unassign_message teammateName terminated ts =
     teammateName @ '' '' @ (if terminated then ''was terminated'' else ''has shut down'') @ ''.'' @
     (if ts = [] then []
      else '' '' @ decimal (length ts) @ '' task(s) were unassigned: '' @
        js_join '', '' (map (\<lambda>t. ''#'' @ task_id t @ '' '' @ [CHR 0x22] @ subject t @ [CHR 0x22]) ts) @
        ''. Use TaskList to check availability and TaskUpdate with owner to reassign them to idle teammates.'')"

definition unassignTeammateTasks ::
  "bool \<Rightarrow> string \<Rightarrow> string \<Rightarrow> bool \<Rightarrow> task_dir \<Rightarrow> (string \<times> string) list \<times> string \<times> task_dir" where
  "unassignTeammateTasks ant teammateId teammateName terminated d =
     (let ts = filter (owned_by_teammate teammateId teammateName) (listTasks ant d)
      in (map (\<lambda>t. (task_id t, subject t)) ts, unassign_message teammateName terminated ts,
          foldl (\<lambda>d t. snd (updateTask ant (task_id t)
            (no_updates\<lparr>u_owner := Some None, u_status := Some TaskPending\<rparr>) d)) d ts))"

section \<open>Clients\<close>

text \<open>The task that the tool creates, before it has an identifier.\<close>

definition new_task :: "string \<Rightarrow> string \<Rightarrow> string option \<Rightarrow> (string \<times> string) list option \<Rightarrow> task" where
  "new_task subj desc form meta =
     \<lparr>task_id = [], subject = subj, description = desc, activeForm = form, owner = None, task_status = TaskPending,
      blocks = [], blockedBy = [], metadata = meta\<rparr>"

definition findAvailableTask :: "task list \<Rightarrow> task option" where
  "findAvailableTask ts =
     find (\<lambda>t. task_status t = TaskPending \<and> \<not> nonempty_text (owner t) \<and>
       list_all (\<lambda>i. i \<notin> set (unresolved_ids ts)) (blockedBy t)) ts"

definition formatTaskAsPrompt :: "task \<Rightarrow> string" where
  "formatTaskAsPrompt t =
     ''Complete all open tasks. Start with task #'' @ task_id t @ '': '' @ [CHR 0x0A, CHR 0x0A, CHR '' ''] @ subject t @
     (if description t \<noteq> [] then [CHR 0x0A, CHR 0x0A] @ description t else [])"

definition tryClaimNextTask :: "bool \<Rightarrow> string \<Rightarrow> task_dir \<Rightarrow> string option \<times> task_dir" where
  "tryClaimNextTask ant agentName d =
     (case findAvailableTask (listTasks ant d) of
        None \<Rightarrow> (None, d)
      | Some t \<Rightarrow>
          (case claimTask ant (task_id t) agentName False d of
             (Claimed _, d1) \<Rightarrow>
               (Some (formatTaskAsPrompt t), snd (updateTask ant (task_id t) (no_updates\<lparr>u_status := Some TaskInProgress\<rparr>) d1))
           | (_, d1) \<Rightarrow> (None, d1)))"

end
