(* ===== verification/Task_Locks.thy ===== *)
theory Task_Locks
  imports Task_List
begin

text \<open>
  The operations of \<open>src/utils/tasks.ts\<close> as several processes run them: every operation is a program of
  single file operations and lock operations, in the order of the awaits of the source, and a scheduler
  interleaves the programs on one directory.  A lock is held by one process; a process that waits for one
  may give up.  That a lock is lost while its holder runs, and the times at which it retries, are left out.
\<close>

section \<open>Programs\<close>

text \<open>
  \<open>ReadAll\<close> is a \<open>Promise.all\<close> of numbered readings: those that are under way, and what was read so far.
\<close>

datatype 'r prog =
    Return 'r
  | ReadFile string "stored_file option \<Rightarrow> 'r prog"
  | ReadAll "(nat \<times> string) list" "(nat \<times> stored_file option) list" "(nat \<times> stored_file option) list \<Rightarrow> 'r prog"
  | ReadDir "string list \<Rightarrow> 'r prog"
  | WriteFile string stored_file "'r prog"
  | Unlink string "bool \<Rightarrow> 'r prog"
  | ReadMark "string option \<Rightarrow> 'r prog"
  | WriteMark string "'r prog"
  | Lock string "bool \<Rightarrow> 'r prog"
  | Unlock string "'r prog"

primrec and_do :: "'a prog \<Rightarrow> ('a \<Rightarrow> 'b prog) \<Rightarrow> 'b prog" where
  "and_do (Return x) k = k x"
| "and_do (ReadFile f c) k = ReadFile f (\<lambda>x. and_do (c x) k)"
| "and_do (ReadAll fs got c) k = ReadAll fs got (\<lambda>x. and_do (c x) k)"
| "and_do (ReadDir c) k = ReadDir (\<lambda>x. and_do (c x) k)"
| "and_do (WriteFile f s p) k = WriteFile f s (and_do p k)"
| "and_do (Unlink f c) k = Unlink f (\<lambda>x. and_do (c x) k)"
| "and_do (ReadMark c) k = ReadMark (\<lambda>x. and_do (c x) k)"
| "and_do (WriteMark s p) k = WriteMark s (and_do p k)"
| "and_do (Lock f c) k = Lock f (\<lambda>x. and_do (c x) k)"
| "and_do (Unlock f p) k = Unlock f (and_do p k)"

abbreviation with_result :: "'a prog \<Rightarrow> ('a \<Rightarrow> 'b) \<Rightarrow> 'b prog" where
  "with_result p f \<equiv> and_do p (\<lambda>x. Return (f x))"

text \<open>The \<open>finally\<close> that releases a lock.\<close>

definition releasing :: "string \<Rightarrow> 'r prog \<Rightarrow> 'r prog" where
  "releasing f p = and_do p (\<lambda>r. Unlock f (Return r))"

section \<open>The operations\<close>

definition list_lock :: string where "list_lock = ''.lock''"

definition getTask_p :: "bool \<Rightarrow> string \<Rightarrow> task option prog" where
  "getTask_p ant i = ReadFile (getTaskPath i) (\<lambda>x. Return (Option.bind x (read_task ant)))"

definition stored_task :: "task \<Rightarrow> stored_file" where
  "stored_task t = TaskFile (with_status (status_string (task_status t)) t)"

definition updateTaskUnsafe_p :: "bool \<Rightarrow> string \<Rightarrow> task_updates \<Rightarrow> task option prog" where
  "updateTaskUnsafe_p ant i u =
     and_do (getTask_p ant i) (\<lambda>x. case x of
         None \<Rightarrow> Return None
       | Some t \<Rightarrow> WriteFile (getTaskPath i) (stored_task (updated_task u i t)) (Return (Some (updated_task u i t))))"

text \<open>\<open>None\<close> as the whole result is the error of a lock that was not acquired.\<close>

definition updateTask_p :: "bool \<Rightarrow> string \<Rightarrow> task_updates \<Rightarrow> task option option prog" where
  "updateTask_p ant i u =
     and_do (getTask_p ant i) (\<lambda>x. case x of
         None \<Rightarrow> Return (Some None)
       | Some _ \<Rightarrow> Lock (getTaskPath i) (\<lambda>ok.
           if ok then releasing (getTaskPath i) (with_result (updateTaskUnsafe_p ant i u) Some) else Return None))"

definition createTask_p :: "bool \<Rightarrow> task \<Rightarrow> string option prog" where
  "createTask_p markFirst data =
     (let write = (\<lambda>names mark.
            let d = \<lparr>task_files = map (\<lambda>f. (f, OtherFile)) names, highWaterMark = mark\<rparr>;
                i = int_string (findHighestTaskId d + 1)
            in WriteFile (getTaskPath i) (stored_task (data\<lparr>task_id := i\<rparr>)) (Return (Some i)))
      in Lock list_lock (\<lambda>ok.
           if \<not> ok then Return None
           else releasing list_lock
             (if markFirst then ReadMark (\<lambda>mark. ReadDir (\<lambda>names. write names mark))
              else ReadDir (\<lambda>names. ReadMark (\<lambda>mark. write names mark)))))"

definition task_paths :: "string list \<Rightarrow> string list" where
  "task_paths names = map (getTaskPath \<circ> drop_ext) (filter is_json_file names)"

definition task_read :: "bool \<Rightarrow> (nat \<times> stored_file option) list \<Rightarrow> nat \<Rightarrow> task option" where
  "task_read ant got k = Option.bind (Option.bind (map_of got k) id) (read_task ant)"

definition read_all :: "string list \<Rightarrow> ((nat \<times> stored_file option) list \<Rightarrow> 'r prog) \<Rightarrow> 'r prog" where
  "read_all paths = ReadAll (zip [0..<length paths] paths) []"

definition listTasks_p :: "bool \<Rightarrow> task list prog" where
  "listTasks_p ant =
     ReadDir (\<lambda>names. read_all (task_paths names) (\<lambda>got.
       Return (List.map_filter (task_read ant got) [0..<length (task_paths names)])))"

text \<open>The loop over the other tasks, which ends at an error.\<close>

primrec drop_references_p :: "bool \<Rightarrow> string \<Rightarrow> task list \<Rightarrow> bool prog" where
  "drop_references_p ant i [] = Return True"
| "drop_references_p ant i (t # ts) =
     (let newBlocks = filter (\<lambda>j. j \<noteq> i) (blocks t); newBlockedBy = filter (\<lambda>j. j \<noteq> i) (blockedBy t)
      in if length newBlocks \<noteq> length (blocks t) \<or> length newBlockedBy \<noteq> length (blockedBy t)
         then and_do (updateTask_p ant (task_id t) (no_updates\<lparr>u_blocks := Some newBlocks, u_blockedBy := Some newBlockedBy\<rparr>))
           (\<lambda>r. if r = None then Return False else drop_references_p ant i ts)
         else drop_references_p ant i ts)"

definition mark_value :: "string option \<Rightarrow> int" where
  "mark_value s = readHighWaterMark \<lparr>task_files = [], highWaterMark = s\<rparr>"

definition raise_mark_p :: "string \<Rightarrow> 'r prog \<Rightarrow> 'r prog" where
  "raise_mark_p i p =
     (case parseInt10 i of
        None \<Rightarrow> p
      | Some n \<Rightarrow> ReadMark (\<lambda>s. if n > mark_value s then WriteMark (int_string n) p else p))"

definition deleteTask_p :: "bool \<Rightarrow> string \<Rightarrow> bool prog" where
  "deleteTask_p ant i =
     raise_mark_p i (Unlink (getTaskPath i) (\<lambda>existed.
       if \<not> existed then Return False else and_do (listTasks_p ant) (drop_references_p ant i)))"

primrec unlink_all :: "string list \<Rightarrow> 'r prog \<Rightarrow> 'r prog" where
  "unlink_all [] p = p"
| "unlink_all (f # fs) p = Unlink f (\<lambda>_. unlink_all fs p)"

definition resetTaskList_p :: "bool prog" where
  "resetTaskList_p =
     (let clear = ReadDir (\<lambda>names.
            unlink_all (filter (\<lambda>f. is_json_file f \<and> \<not> starts_with ''.'' f) names) (Return True))
      in Lock list_lock (\<lambda>ok.
           if \<not> ok then Return False
           else releasing list_lock (ReadDir (\<lambda>names.
             let highest = findHighestTaskIdFromFiles \<lparr>task_files = map (\<lambda>f. (f, OtherFile)) names, highWaterMark = None\<rparr>
             in if highest > 0
                then ReadMark (\<lambda>s. if highest > mark_value s then WriteMark (int_string highest) clear else clear)
                else clear))))"

text \<open>\<open>None\<close> is an error.\<close>

definition blockTask_p :: "bool \<Rightarrow> string \<Rightarrow> string \<Rightarrow> bool option prog" where
  "blockTask_p ant f t =
     read_all [getTaskPath f, getTaskPath t] (\<lambda>got.
       case (task_read ant got 0, task_read ant got 1) of
         (Some fromTask, Some toTask) \<Rightarrow>
           (let finish = (\<lambda>r. if r = None then None else Some True);
                second = (if f \<notin> set (blockedBy toTask)
                  then with_result (updateTask_p ant t (no_updates\<lparr>u_blockedBy := Some (blockedBy toTask @ [f])\<rparr>)) finish
                  else Return (Some True))
            in if t \<notin> set (blocks fromTask)
               then and_do (updateTask_p ant f (no_updates\<lparr>u_blocks := Some (blocks fromTask @ [t])\<rparr>))
                 (\<lambda>r. if r = None then Return None else second)
               else second)
       | _ \<Rightarrow> Return (Some False))"

definition claimTaskWithBusyCheck_p :: "bool \<Rightarrow> string \<Rightarrow> string \<Rightarrow> claim_result prog" where
  "claimTaskWithBusyCheck_p ant i agent =
     Lock list_lock (\<lambda>ok.
       if \<not> ok then Return TaskNotFound
       else releasing list_lock (and_do (listTasks_p ant) (\<lambda>ts.
         case find (\<lambda>t. task_id t = i) ts of
           None \<Rightarrow> Return TaskNotFound
         | Some t \<Rightarrow>
             (case claim_refusal agent t ts of
                Some r \<Rightarrow> Return r
              | None \<Rightarrow>
                  if agent_open_tasks agent i ts \<noteq> []
                  then Return (AgentBusy t (map task_id (agent_open_tasks agent i ts)))
                  else with_result (updateTask_p ant i (no_updates\<lparr>u_owner := Some (Some agent)\<rparr>))
                    (\<lambda>r. case r of None \<Rightarrow> TaskNotFound | Some t' \<Rightarrow> Claimed t')))))"

definition claimTask_p :: "bool \<Rightarrow> string \<Rightarrow> string \<Rightarrow> bool \<Rightarrow> claim_result prog" where
  "claimTask_p ant i agent checkAgentBusy =
     and_do (getTask_p ant i) (\<lambda>before.
       if before = None then Return TaskNotFound
       else if checkAgentBusy then claimTaskWithBusyCheck_p ant i agent
       else Lock (getTaskPath i) (\<lambda>ok.
         if \<not> ok then Return TaskNotFound
         else releasing (getTaskPath i) (and_do (getTask_p ant i) (\<lambda>x.
           case x of
             None \<Rightarrow> Return TaskNotFound
           | Some t \<Rightarrow>
               if nonempty_text (owner t) \<and> owner t \<noteq> Some agent then Return (AlreadyClaimed t)
               else if task_status t = TaskCompleted then Return (AlreadyResolved t)
               else and_do (listTasks_p ant) (\<lambda>ts.
                 if open_blockers ts t \<noteq> [] then Return (ClaimBlocked t (open_blockers ts t))
                 else with_result (updateTaskUnsafe_p ant i (no_updates\<lparr>u_owner := Some (Some agent)\<rparr>)) Claimed)))))"

section \<open>Interleaving\<close>

record task_world =
  dir :: task_dir
  locked :: "string \<Rightarrow> nat option"

text \<open>
  One step of process \<open>p\<close>.  The choice of the scheduler picks the next file of a \<open>Promise.all\<close>, and 0
  makes a process that wants a lock give up; a lock on a file that is not there fails.
\<close>

definition file_at :: "task_world \<Rightarrow> string \<Rightarrow> stored_file option" where
  "file_at w f = map_of (task_files (dir w)) f"

definition put_file :: "string \<Rightarrow> stored_file \<Rightarrow> task_dir \<Rightarrow> task_dir" where
  "put_file f s d = d\<lparr>task_files := AList.update f s (task_files d)\<rparr>"

fun prog_step :: "nat \<Rightarrow> nat \<Rightarrow> 'r prog \<Rightarrow> task_world \<Rightarrow> 'r prog \<times> task_world" where
  "prog_step p choice (Return r) w = (Return r, w)"
| "prog_step p choice (ReadFile f c) w = (c (file_at w f), w)"
| "prog_step p choice (ReadAll fs got c) w =
     (if fs = [] then (c got, w)
      else (let k = choice mod length fs
            in (ReadAll (take k fs @ drop (Suc k) fs) (got @ [(fst (fs ! k), file_at w (snd (fs ! k)))]) c, w)))"
| "prog_step p choice (ReadDir c) w = (c (map fst (task_files (dir w))), w)"
| "prog_step p choice (WriteFile f s q) w = (q, w\<lparr>dir := put_file f s (dir w)\<rparr>)"
| "prog_step p choice (Unlink f c) w = (c (file_at w f \<noteq> None), w\<lparr>dir := unlink_task f (dir w)\<rparr>)"
| "prog_step p choice (ReadMark c) w = (c (highWaterMark (dir w)), w)"
| "prog_step p choice (WriteMark s q) w = (q, w\<lparr>dir := (dir w)\<lparr>highWaterMark := Some s\<rparr>\<rparr>)"
| "prog_step p choice (Lock f c) w =
     (if choice = 0 \<or> f \<noteq> list_lock \<and> file_at w f = None then (c False, w)
      else if locked w f = None then (c True, w\<lparr>locked := (locked w)(f := Some p)\<rparr>)
      else (Lock f c, w))"
| "prog_step p choice (Unlock f q) w = (q, w\<lparr>locked := (locked w)(f := None)\<rparr>)"

definition pool_step :: "'r prog list \<times> task_world \<Rightarrow> nat \<times> nat \<Rightarrow> 'r prog list \<times> task_world" where
  "pool_step s ev =
     (case (s, ev) of ((ps, w), (p, choice)) \<Rightarrow>
        if p < length ps then (let (q, w') = prog_step p choice (ps ! p) w in (ps[p := q], w')) else (ps, w))"

end
