(* ===== verification/Task_Laws.thy ===== *)
theory Task_Laws
  imports Task_List
begin

text \<open>
  The task list against its abstraction, a map from numbers to tasks: identifiers are never given twice,
  the references between tasks mirror each other, and a claim is granted exactly when it should be.
\<close>

section \<open>Names of task files\<close>

lemma digit_char_of: "k < 10 \<Longrightarrow> is_digit_char (char_of (48 + k :: nat))"
proof -
  have "list_all (\<lambda>k. is_digit_char (char_of (48 + k :: nat))) [0..<10]" by code_simp
  then show "k < 10 \<Longrightarrow> is_digit_char (char_of (48 + k))" by (simp only: list_all_iff set_upt) simp
qed

lemma decimal_digits: "list_all is_digit_char (decimal n)"
proof (induction n rule: decimal.induct)
  case (1 n)
  then show ?case by (subst decimal.simps) (simp add: digit_char_of)
qed

lemma decimal_nonempty [simp]: "decimal n \<noteq> []"
  by (subst decimal.simps) simp

lemma digit_plain: "is_digit_char c \<Longrightarrow> alphanumeric c \<and> \<not> is_js_space c \<and> c \<noteq> CHR ''.'' \<and> c \<noteq> CHR ''-'' \<and> c \<noteq> CHR ''+'' \<and> c \<noteq> CHR ''_''"
  by (auto simp: is_digit_char_def alphanumeric_def is_js_space_def)

lemma dropWhile_none: "list_all (\<lambda>c. \<not> P c) s \<Longrightarrow> dropWhile P s = s"
  by (cases s) auto

lemma takeWhile_every: "list_all P s \<Longrightarrow> takeWhile P s = s"
  by (induction s) auto

lemma decimal_trim [simp]: "js_trim (decimal n) = decimal n"
proof -
  have "list_all (\<lambda>c. \<not> is_js_space c) (decimal n)"
    using decimal_digits [of n] digit_plain by (auto simp: list_all_iff)
  then show ?thesis by (simp add: js_trim_def dropWhile_none list_all_rev)
qed

lemma parse_decimal [simp]: "parseInt10 (decimal n) = Some (int n)"
proof -
  have "list_all (\<lambda>c. \<not> is_js_space c) (decimal n)"
    using decimal_digits [of n] digit_plain by (auto simp: list_all_iff)
  moreover have "hd (decimal n) \<noteq> CHR ''-'' \<and> hd (decimal n) \<noteq> CHR ''+''"
    using decimal_digits [of n] digit_plain by (cases "decimal n") auto
  ultimately show ?thesis
    using decimal_digits [of n] undecimal_decimal [of n]
    by (cases "decimal n") (auto simp: parseInt10_def dropWhile_none takeWhile_every Let_def)
qed

abbreviation path_char :: "char \<Rightarrow> char" where
  "path_char c \<equiv> (if alphanumeric c \<or> c = CHR ''_'' \<or> c = CHR ''-'' then c else CHR ''-'')"

lemma path_char_digit:
  assumes "is_digit_char (path_char c)"
  shows "path_char c = c"
proof (cases "alphanumeric c \<or> c = CHR ''_'' \<or> c = CHR ''-''")
  case False
  then have "is_digit_char (CHR ''-'')" using assms by (simp only: if_False)
  then show ?thesis using digit_plain by blast
qed (simp only: if_True)

lemma sanitize_decimal [simp]: "sanitizePathComponent (decimal n) = decimal n"
  unfolding sanitizePathComponent_def
proof (rule map_idI)
  fix c assume "c \<in> set (decimal n)"
  then have "is_digit_char c" using decimal_digits [of n] by (simp add: list_all_iff)
  then show "path_char c = c" using digit_plain [of c] by simp
qed

lemma sanitize_eq_decimal: "sanitizePathComponent i = decimal n \<longleftrightarrow> i = decimal n"
proof
  assume e: "sanitizePathComponent i = decimal n"
  have "list_all is_digit_char (map path_char i)"
    using e decimal_digits [of n] by (simp only: sanitizePathComponent_def)
  then have "path_char c = c" if "c \<in> set i" for c
    using that path_char_digit by (simp only: list_all_iff set_map) blast
  then have "map path_char i = i" by (intro map_idI)
  then show "i = decimal n" using e by (simp only: sanitizePathComponent_def)
next
  assume "i = decimal n"
  then show "sanitizePathComponent i = decimal n" by (simp only: sanitize_decimal)
qed

lemma decimal_inj [simp]: "decimal m = decimal n \<longleftrightarrow> m = n"
  using decimal.enc_inj [of m n] by auto

definition id_file :: "nat \<Rightarrow> string" where
  "id_file n = decimal n @ json_ext"

lemma id_file_inj [simp]: "id_file m = id_file n \<longleftrightarrow> m = n"
  by (simp add: id_file_def)

lemma path_decimal [simp]: "getTaskPath (decimal n) = id_file n"
  by (simp add: getTaskPath_def id_file_def)

lemma path_eq_id: "getTaskPath i = id_file n \<longleftrightarrow> i = decimal n"
  by (simp add: getTaskPath_def id_file_def sanitize_eq_decimal)

lemma ext_index: "index_of json_ext (id_file n) = Some (length (decimal n))"
proof -
  have "take (length json_ext) (drop i (id_file n)) \<noteq> json_ext" if "i < length (decimal n)" for i
  proof
    assume "take (length json_ext) (drop i (id_file n)) = json_ext"
    moreover have "drop i (id_file n) = (decimal n ! i) # drop (Suc i) (id_file n)"
      using that by (simp add: id_file_def Cons_nth_drop_Suc)
    ultimately have "decimal n ! i = CHR ''.''" by (simp add: json_ext_def)
    then show False using that decimal_digits [of n] digit_plain by (metis list_all_length)
  qed
  then show ?thesis
    by (simp add: index_of_def find_upt_Some_iff) (simp add: id_file_def json_ext_def)
qed

lemma drop_ext_id [simp]: "drop_ext (id_file n) = decimal n"
  by (simp add: drop_ext_def ext_index) (simp add: id_file_def)

lemma json_id [simp]: "is_json_file (id_file n)"
  by (simp add: is_json_file_def ends_with_def id_file_def)

lemma dot_id [simp]: "\<not> starts_with ''.'' (id_file n)"
  using decimal_digits [of n] digit_plain
  by (cases "decimal n") (auto simp: starts_with_def id_file_def)

lemma int_string_nat [simp]: "int_string (int n) = decimal n"
  by (simp add: int_string_def)

section \<open>The abstraction\<close>

text \<open>
  A directory that the program wrote: every file is named after a positive number and holds the task with
  that number, and the mark is a number.
\<close>

definition stored :: "task \<Rightarrow> stored_file" where
  "stored t = TaskFile (with_status (status_string (task_status t)) t)"

definition tidy_dir :: "task_dir \<Rightarrow> bool" where
  "tidy_dir d \<longleftrightarrow>
     distinct (map fst (task_files d)) \<and>
     (\<forall>(f, file)\<in>set (task_files d). \<exists>n t. 0 < n \<and> f = id_file n \<and> file = stored t \<and> task_id t = decimal n) \<and>
     (\<forall>s. highWaterMark d = Some s \<longrightarrow> (\<exists>n. s = decimal n))"

definition tasks_at :: "task_dir \<Rightarrow> nat \<Rightarrow> task option" where
  "tasks_at d n = Option.bind (map_of (task_files d) (id_file n)) (read_task False)"

definition mark_of :: "task_dir \<Rightarrow> nat" where "mark_of d = nat (readHighWaterMark d)"

lemma read_stored [simp]: "read_task ant (stored t) = Some t"
  by (cases "task_status t")
    (simp_all add: read_task_def stored_def with_status_def status_string_def parse_status_def migrated_status_def)

lemma stored_inj [simp]: "stored t = stored u \<longleftrightarrow> t = u"
  by (metis option.inject read_stored)

lemma tidy_file:
  assumes "tidy_dir d" "map_of (task_files d) f = Some g"
  obtains n t where "0 < n" "f = id_file n" "g = stored t" "task_id t = decimal n"
  using assms map_of_SomeD [OF assms(2)] by (fastforce simp: tidy_dir_def)

lemma tasks_at_Some: "tidy_dir d \<Longrightarrow> tasks_at d n = Some t \<longleftrightarrow> map_of (task_files d) (id_file n) = Some (stored t)"
  by (cases "map_of (task_files d) (id_file n)") (auto simp: tasks_at_def elim!: tidy_file)

lemma tasks_at_id: "tidy_dir d \<Longrightarrow> tasks_at d n = Some t \<Longrightarrow> task_id t = decimal n \<and> 0 < n"
  by (auto simp: tasks_at_Some elim!: tidy_file)

lemma tasks_at_file: "tidy_dir d \<Longrightarrow> map_of (task_files d) (id_file n) = None \<longleftrightarrow> tasks_at d n = None"
  by (cases "map_of (task_files d) (id_file n)") (auto simp: tasks_at_def elim!: tidy_file)

lemma getTask_at: "tidy_dir d \<Longrightarrow> getTask ant d (decimal n) = tasks_at d n"
  by (cases "map_of (task_files d) (id_file n)") (auto simp: getTask_def tasks_at_def elim!: tidy_file)

lemma getTask_Some:
  assumes "tidy_dir d"
  shows "getTask ant d i = Some t \<longleftrightarrow> (\<exists>n. i = decimal n \<and> tasks_at d n = Some t)"
proof
  assume g: "getTask ant d i = Some t"
  then obtain g where f: "map_of (task_files d) (getTaskPath i) = Some g"
    by (auto simp: getTask_def bind_eq_Some_conv)
  then obtain n where "i = decimal n" using tidy_file [OF assms f] path_eq_id by metis
  then show "\<exists>n. i = decimal n \<and> tasks_at d n = Some t" using g getTask_at [OF assms] by auto
qed (use getTask_at [OF assms] in auto)

lemma listTasks_set: "tidy_dir d \<Longrightarrow> set (listTasks ant d) = ran (tasks_at d)"
proof -
  assume d: "tidy_dir d"
  have "t \<in> set (listTasks ant d) \<longleftrightarrow> (\<exists>f\<in>fst ` set (task_files d). is_json_file f \<and> getTask ant d (drop_ext f) = Some t)" for t
    by (auto simp: listTasks_def map_filter_def image_iff) (metis fst_conv option.sel option.simps(3))
  also have "\<dots> t \<longleftrightarrow> t \<in> ran (tasks_at d)" for t
  proof
    assume "\<exists>f\<in>fst ` set (task_files d). is_json_file f \<and> getTask ant d (drop_ext f) = Some t"
    then show "t \<in> ran (tasks_at d)" using getTask_Some [OF d] by (auto simp: ran_def)
  next
    assume "t \<in> ran (tasks_at d)"
    then obtain n where n: "tasks_at d n = Some t" by (auto simp: ran_def)
    then have "id_file n \<in> fst ` set (task_files d)"
      using tasks_at_Some [OF d] by (auto dest: map_of_SomeD intro: rev_image_eqI)
    then show "\<exists>f\<in>fst ` set (task_files d). is_json_file f \<and> getTask ant d (drop_ext f) = Some t"
      using n getTask_at [OF d] by (intro bexI [of _ "id_file n"]) auto
  qed
  finally show ?thesis by blast
qed

lemma write_task_tidy:
  assumes "tidy_dir d" "0 < n" "task_id t = decimal n"
  shows "tidy_dir (write_task (decimal n) t d)" "tasks_at (write_task (decimal n) t d) = (tasks_at d)(n \<mapsto> t)"
    "highWaterMark (write_task (decimal n) t d) = highWaterMark d"
proof -
  have f: "task_files (write_task (decimal n) t d) = AList.update (id_file n) (stored t) (task_files d)"
    by (simp add: write_task_def stored_def)
  have dist: "distinct (map fst (task_files d))" using assms(1) by (simp add: tidy_dir_def)
  have dist': "distinct (map fst (AList.update (id_file n) (stored t) (task_files d)))"
    using dist by (rule distinct_update)
  have files: "\<exists>m u. 0 < m \<and> f = id_file m \<and> g = stored u \<and> task_id u = decimal m"
    if "(f, g) \<in> set (AList.update (id_file n) (stored t) (task_files d))" for f g
  proof -
    have "map_of (AList.update (id_file n) (stored t) (task_files d)) f = Some g"
      using that map_of_eq_Some_iff [OF dist'] by blast
    then have "f = id_file n \<and> g = stored t \<or> map_of (task_files d) f = Some g"
      by (simp add: update_conv' split: if_splits)
    then show ?thesis using assms by (metis tidy_file)
  qed
  have "highWaterMark (write_task (decimal n) t d) = highWaterMark d" by (simp add: write_task_def)
  then show "tidy_dir (write_task (decimal n) t d)"
    using assms(1) dist' files by (simp add: tidy_dir_def f) blast
  show "tasks_at (write_task (decimal n) t d) = (tasks_at d)(n \<mapsto> t)"
    by (rule ext) (simp add: tasks_at_def f update_conv')
  show "highWaterMark (write_task (decimal n) t d) = highWaterMark d" by (simp add: write_task_def)
qed

section \<open>The operations on the abstraction\<close>

text \<open>Where the tasks are what counts: a directory after an operation, with its tasks and its mark.\<close>

definition becomes :: "task_dir \<Rightarrow> (nat \<Rightarrow> task option) \<Rightarrow> nat \<Rightarrow> bool" where
  "becomes d T k \<longleftrightarrow> tidy_dir d \<and> tasks_at d = T \<and> mark_of d = k"

lemma becomesI [intro]: "tidy_dir d \<Longrightarrow> tasks_at d = T \<Longrightarrow> mark_of d = k \<Longrightarrow> becomes d T k"
  by (simp add: becomes_def)

lemma write_becomes:
  "becomes d T k \<Longrightarrow> 0 < n \<Longrightarrow> task_id t = decimal n \<Longrightarrow> becomes (write_task (decimal n) t d) (T(n \<mapsto> t)) k"
  by (auto simp: becomes_def write_task_tidy mark_of_def readHighWaterMark_def)

lemma updated_id [simp]: "task_id (updated_task u i t) = i"
  by (simp add: updated_task_def)

lemma update_none: "becomes d T k \<Longrightarrow> \<nexists>n t. i = decimal n \<and> T n = Some t \<Longrightarrow> updateTask ant i u d = (None, d)"
  using getTask_Some [of d ant i] by (cases "getTask ant d i") (fastforce simp: updateTask_def becomes_def)+

lemma update_unsafe:
  assumes "becomes d T k" "T n = Some t"
  shows "updateTaskUnsafe ant (decimal n) u d =
      (Some (updated_task u (decimal n) t), write_task (decimal n) (updated_task u (decimal n) t) d)"
    and "becomes (write_task (decimal n) (updated_task u (decimal n) t) d) (T(n \<mapsto> updated_task u (decimal n) t)) k"
proof -
  have n: "tidy_dir d" "tasks_at d n = Some t" "0 < n"
    using assms tasks_at_id [of d n t] by (auto simp: becomes_def)
  then show "updateTaskUnsafe ant (decimal n) u d =
      (Some (updated_task u (decimal n) t), write_task (decimal n) (updated_task u (decimal n) t) d)"
    by (simp add: updateTaskUnsafe_def getTask_at Let_def)
  show "becomes (write_task (decimal n) (updated_task u (decimal n) t) d) (T(n \<mapsto> updated_task u (decimal n) t)) k"
    using assms(1) n(3) by (intro write_becomes) simp_all
qed

lemma update_safe:
  assumes "becomes d T k" "T n = Some t"
  shows "updateTask ant (decimal n) u d =
      (Some (updated_task u (decimal n) t), write_task (decimal n) (updated_task u (decimal n) t) d)"
  using assms update_unsafe(1) [OF assms] by (simp add: updateTask_def getTask_at becomes_def)

text \<open>The numbers.\<close>

lemma highest_files:
  assumes "tidy_dir d"
  obtains h where "findHighestTaskIdFromFiles d = int h" "\<And>n t. tasks_at d n = Some t \<Longrightarrow> n \<le> h"
    "h = 0 \<or> tasks_at d h \<noteq> None"
proof -
  let ?step = "\<lambda>highest f. if \<not> is_json_file f then highest
    else (case parseInt10 (drop_ext f) of None \<Rightarrow> highest | Some n \<Rightarrow> if n > highest then n else highest)"
  have fold: "\<exists>h. foldl ?step 0 (map id_file ns) = int h \<and> (\<forall>n\<in>set ns. n \<le> h) \<and> (h = 0 \<or> h \<in> set ns)" for ns
    by (induction ns rule: rev_induct) fastforce+
  have "\<forall>f\<in>set (map fst (task_files d)). \<exists>n. f = id_file n"
    using assms by (fastforce simp: tidy_dir_def)
  then obtain ns where ns: "map fst (task_files d) = map id_file ns" by (metis ex_map_conv)
  obtain h where h: "findHighestTaskIdFromFiles d = int h" "\<forall>n\<in>set ns. n \<le> h" "h = 0 \<or> h \<in> set ns"
    using fold [of ns] by (auto simp: findHighestTaskIdFromFiles_def ns)
  have dom: "n \<in> set ns \<longleftrightarrow> tasks_at d n \<noteq> None" for n
  proof -
    have "n \<in> set ns \<longleftrightarrow> id_file n \<in> set (map fst (task_files d))" by (auto simp: ns)
    then show ?thesis using tasks_at_file [OF assms, of n] by (auto simp: map_of_eq_None_iff)
  qed
  show ?thesis using that [of h] h dom by auto
qed

lemma mark_nat: "tidy_dir d \<Longrightarrow> readHighWaterMark d = int (mark_of d)"
  by (auto simp: mark_of_def readHighWaterMark_def tidy_dir_def split: option.splits)

lemma write_mark: "becomes d T k \<Longrightarrow> becomes (writeHighWaterMark (int n) d) T n"
  by (auto simp: becomes_def writeHighWaterMark_def tidy_dir_def tasks_at_def mark_of_def readHighWaterMark_def fun_eq_iff)

lemma create_becomes:
  assumes "becomes d T k" "createTask data d = (i, d')"
  obtains n where "i = decimal n" "k < n" "\<And>m t. T m = Some t \<Longrightarrow> m < n"
    "becomes d' (T(n \<mapsto> data\<lparr>task_id := decimal n\<rparr>)) k"
proof -
  have d: "tidy_dir d" "T = tasks_at d" "k = mark_of d" using assms(1) by (auto simp: becomes_def)
  obtain h where h: "findHighestTaskIdFromFiles d = int h" "\<And>n t. tasks_at d n = Some t \<Longrightarrow> n \<le> h"
    using highest_files [OF d(1)] by metis
  let ?n = "Suc (max h k)"
  have n: "findHighestTaskId d + 1 = int ?n" by (simp add: findHighestTaskId_def h(1) mark_nat [OF d(1)] d(3))
  have "i = decimal ?n \<and> d' = write_task (decimal ?n) (data\<lparr>task_id := decimal ?n\<rparr>) d"
    using assms(2) by (auto simp: createTask_def n Let_def int_string_nat simp del: of_nat_Suc of_nat_max)
  then show ?thesis
    using that [of ?n] h(2) d(2) write_becomes [OF assms(1), of ?n "data\<lparr>task_id := decimal ?n\<rparr>"]
    by (auto simp: less_Suc_eq_le max.coboundedI1)
qed

lemma reset_becomes:
  assumes "becomes d T k"
  obtains k' where "becomes (resetTaskList d) (\<lambda>_. None) k'" "k \<le> k'" "\<And>n t. T n = Some t \<Longrightarrow> n \<le> k'"
proof -
  have d: "tidy_dir d" "T = tasks_at d" "k = mark_of d" using assms(1) by (auto simp: becomes_def)
  obtain h where h: "findHighestTaskIdFromFiles d = int h" "\<And>n t. tasks_at d n = Some t \<Longrightarrow> n \<le> h"
    using highest_files [OF d(1)] by metis
  let ?d = "if h > 0 \<and> h > k then writeHighWaterMark (int h) d else d"
  have m: "becomes ?d T (max h k)"
    using write_mark [OF assms, of h] assms by (auto simp: max_def)
  have "filter (\<lambda>(f, _). \<not> (is_json_file f \<and> \<not> starts_with ''.'' f)) (task_files ?d) = []"
  proof -
    have "\<exists>n. fst x = id_file n" if "x \<in> set (task_files ?d)" for x
      using m that by (cases x) (fastforce simp: becomes_def tidy_dir_def)
    then have "is_json_file (fst x) \<and> \<not> starts_with ''.'' (fst x)" if "x \<in> set (task_files ?d)" for x
      using that by (metis json_id dot_id)
    then show ?thesis by (simp only: filter_empty_conv case_prod_beta) blast
  qed
  then have r: "resetTaskList d = ?d\<lparr>task_files := []\<rparr>"
    by (auto simp: resetTaskList_def h(1) mark_nat [OF d(1)] d(3) Let_def)
  have "becomes (resetTaskList d) (\<lambda>_. None) (max h k)"
    using m by (auto simp: r becomes_def tidy_dir_def tasks_at_def mark_of_def readHighWaterMark_def)
  then show ?thesis using that [of "max h k"] h(2) d(2) by (auto simp: max.coboundedI1)
qed

text \<open>A loop that updates tasks of a list by what the list says of them.\<close>

lemma update_loop:
  assumes "becomes d T k" "\<And>t. t \<in> set ts \<Longrightarrow> \<exists>n. T n = Some t"
    and step: "\<And>d' T' n t t'. becomes d' T' k \<Longrightarrow> T n = Some t \<Longrightarrow> T' n = Some t' \<Longrightarrow> t' = t \<or> t' = g t \<Longrightarrow>
      becomes (F d' t) (T'(n \<mapsto> g t)) k"
  shows "becomes (foldl F d ts) (\<lambda>n. case T n of None \<Rightarrow> None | Some t \<Rightarrow> Some (if t \<in> set ts then g t else t)) k"
  using assms(2)
proof (induction ts rule: rev_induct)
  case Nil
  have "(\<lambda>n. case T n of None \<Rightarrow> None | Some t \<Rightarrow> Some (if t \<in> set [] then g t else t)) = T"
    by (auto split: option.splits)
  then show ?case using assms(1) by simp
next
  case (snoc t ts)
  let ?T = "\<lambda>ts n. case T n of None \<Rightarrow> None | Some t \<Rightarrow> Some (if t \<in> set ts then g t else t)"
  obtain n where n: "T n = Some t" using snoc.prems [of t] by auto
  have tidy: "tidy_dir d" "T = tasks_at d" using assms(1) by (auto simp: becomes_def)
  have "becomes (F (foldl F d ts) t) ((?T ts)(n \<mapsto> g t)) k"
    by (rule step [OF snoc.IH n]) (use snoc.prems n in auto)
  moreover have "(?T ts)(n \<mapsto> g t) = ?T (ts @ [t])"
  proof
    fix m
    show "((?T ts)(n \<mapsto> g t)) m = ?T (ts @ [t]) m"
    proof (cases "m = n")
      case False
      have "u \<noteq> t" if "T m = Some u" for u
        using False that n tasks_at_id [OF tidy(1), of m u] tasks_at_id [OF tidy(1), of n t] tidy(2) decimal.enc_inj [of m n]
        by auto
      then show ?thesis using False by (auto split: option.splits)
    qed (simp add: n)
  qed
  ultimately show ?case by simp
qed

definition without_reference :: "string \<Rightarrow> task \<Rightarrow> task" where
  "without_reference i t =
     t\<lparr>blocks := filter (\<lambda>j. j \<noteq> i) (blocks t), blockedBy := filter (\<lambda>j. j \<noteq> i) (blockedBy t)\<rparr>"

lemma without_same:
  "length (filter (\<lambda>j. j \<noteq> i) (blocks t)) = length (blocks t) \<Longrightarrow>
     length (filter (\<lambda>j. j \<noteq> i) (blockedBy t)) = length (blockedBy t) \<Longrightarrow> without_reference i t = t"
proof -
  have "filter P xs = xs" if "length (filter P xs) = length xs" for P and xs :: "string list"
    using that by (metis filter_True length_filter_less nless_le)
  then show "length (filter (\<lambda>j. j \<noteq> i) (blocks t)) = length (blocks t) \<Longrightarrow>
     length (filter (\<lambda>j. j \<noteq> i) (blockedBy t)) = length (blockedBy t) \<Longrightarrow> without_reference i t = t"
    by (simp add: without_reference_def)
qed

lemma drop_reference_step:
  assumes "becomes d' T' k" "tidy_dir d" "tasks_at d n = Some t" "T' n = Some t'" "t' = t \<or> t' = without_reference i t"
  shows "becomes (drop_reference ant i d' t) (T'(n \<mapsto> without_reference i t)) k"
proof -
  have id: "task_id t = decimal n" using tasks_at_id [OF assms(2,3)] by simp
  let ?u = "no_updates\<lparr>u_blocks := Some (filter (\<lambda>j. j \<noteq> i) (blocks t)), u_blockedBy := Some (filter (\<lambda>j. j \<noteq> i) (blockedBy t))\<rparr>"
  show ?thesis
  proof (cases "length (filter (\<lambda>j. j \<noteq> i) (blocks t)) = length (blocks t) \<and>
      length (filter (\<lambda>j. j \<noteq> i) (blockedBy t)) = length (blockedBy t)")
    case True
    then have "without_reference i t = t" by (simp add: without_same)
    then have "T'(n \<mapsto> without_reference i t) = T'" using assms(4,5) by auto
    then show ?thesis using True assms(1) by (simp add: drop_reference_def)
  next
    case False
    have "updated_task ?u (decimal n) t' = without_reference i t"
      using assms(5) id by (auto simp: updated_task_def no_updates_def without_reference_def)
    then have "becomes (snd (updateTask ant (decimal n) ?u d')) (T'(n \<mapsto> without_reference i t)) k"
      using update_safe [OF assms(1,4)] update_unsafe(2) [OF assms(1,4), of ?u] by simp
    moreover have "drop_reference ant i d' t = snd (updateTask ant (decimal n) ?u d')"
      unfolding drop_reference_def Let_def id using False by (simp only: de_Morgan_conj if_True)
    ultimately show ?thesis by (simp only:)
  qed
qed

lemma raise_mark_becomes:
  assumes "becomes d T k"
  obtains k' where "becomes (raise_mark i d) T k'" "k \<le> k'" "\<And>n. i = decimal n \<Longrightarrow> n \<le> k'"
proof -
  have m: "readHighWaterMark d = int k" using assms mark_nat by (auto simp: becomes_def)
  show ?thesis
  proof (cases "parseInt10 i")
    case None
    have none: "raise_mark i d = d" by (simp add: raise_mark_def None)
    show ?thesis by (rule that [of k]) (use assms None in \<open>auto simp: none\<close>)
  next
    case (Some z)
    show ?thesis
    proof (cases "z > int k")
      case True
      then have "becomes (raise_mark i d) T (nat z)"
        using write_mark [OF assms, of "nat z"] by (simp add: raise_mark_def Some m)
      then show ?thesis by (rule that) (use True Some in auto)
    next
      case False
      then have "raise_mark i d = d" by (simp add: raise_mark_def Some m)
      then show ?thesis by (intro that [of k]) (use False assms Some in auto)
    qed
  qed
qed

lemma unlink_becomes: "becomes d T k \<Longrightarrow> becomes (unlink_task (id_file n) d) (T(n := None)) k"
proof -
  assume b: "becomes d T k"
  have "set (AList.delete (id_file n) (task_files d)) \<subseteq> set (task_files d)" by (auto simp: AList.delete_eq)
  then have "tidy_dir (unlink_task (id_file n) d)"
    using b by (auto simp: becomes_def unlink_task_def tidy_dir_def distinct_delete)
  moreover have "tasks_at (unlink_task (id_file n) d) = T(n := None)"
    using b by (auto simp: becomes_def unlink_task_def tasks_at_def delete_conv' fun_eq_iff)
  moreover have "mark_of (unlink_task (id_file n) d) = k"
    using b by (simp add: becomes_def unlink_task_def mark_of_def readHighWaterMark_def)
  ultimately show ?thesis by (rule becomesI)
qed

lemma delete_becomes:
  assumes "becomes d T k" "deleteTask ant i d = (ok, d')"
  obtains k' where "k \<le> k'" "\<And>n. i = decimal n \<Longrightarrow> n \<le> k'" "ok \<longleftrightarrow> (\<exists>n t. i = decimal n \<and> T n = Some t)"
    "becomes d' (if ok then (\<lambda>m. if i = decimal m then None else map_option (without_reference i) (T m)) else T) k'"
proof -
  obtain k' where k: "becomes (raise_mark i d) T k'" "k \<le> k'" "\<And>n. i = decimal n \<Longrightarrow> n \<le> k'"
    using raise_mark_becomes [OF assms(1)] by metis
  let ?d = "raise_mark i d"
  have d: "tidy_dir ?d" "T = tasks_at ?d" using k(1) by (auto simp: becomes_def)
  show ?thesis
  proof (cases "map_of (task_files ?d) (getTaskPath i)")
    case None
    then have "\<nexists>n t. i = decimal n \<and> T n = Some t" using d(2) by (auto simp: tasks_at_def)
    moreover have "\<not> ok" "d' = ?d" using None assms(2) by (auto simp: deleteTask_def Let_def)
    ultimately show ?thesis using k by (intro that [of k']) auto
  next
    case (Some f)
    then obtain n t where n: "i = decimal n" "T n = Some t"
      using tidy_file [OF d(1) Some] path_eq_id tasks_at_Some [OF d(1)] d(2) by metis
    let ?d2 = "unlink_task (id_file n) ?d"
    have d2: "becomes ?d2 (T(n := None)) k'" by (rule unlink_becomes [OF k(1)])
    have t2: "tidy_dir ?d2" "tasks_at ?d2 = T(n := None)" using d2 by (simp_all add: becomes_def)
    have "becomes (foldl (drop_reference ant i) ?d2 (listTasks ant ?d2))
        (\<lambda>m. case (T(n := None)) m of None \<Rightarrow> None
           | Some t \<Rightarrow> Some (if t \<in> set (listTasks ant ?d2) then without_reference i t else t)) k'"
      by (rule update_loop [OF d2]) (use t2 listTasks_set [OF t2(1), of ant] in \<open>auto simp: ran_def intro!: drop_reference_step [OF _ t2(1)]\<close>)
    moreover have "(\<lambda>m. case (T(n := None)) m of None \<Rightarrow> None
           | Some t \<Rightarrow> Some (if t \<in> set (listTasks ant ?d2) then without_reference i t else t)) =
        (\<lambda>m. if i = decimal m then None else map_option (without_reference i) (T m))"
      using decimal.enc_inj [of n] t2(2) listTasks_set [OF t2(1), of ant]
      by (auto simp: fun_eq_iff n(1) ran_def split: option.splits)
    moreover have "ok \<and> d' = foldl (drop_reference ant i) ?d2 (listTasks ant ?d2)"
      using assms(2) Some n(1) by (simp add: deleteTask_def Let_def)
    ultimately show ?thesis by (intro that [of k']) (use k n in simp_all)
  qed
qed

section \<open>References\<close>

definition out_refs :: "(nat \<Rightarrow> task option) \<Rightarrow> nat \<Rightarrow> string set" where
  "out_refs T n = (case T n of None \<Rightarrow> {} | Some t \<Rightarrow> set (blocks t))"

definition in_refs :: "(nat \<Rightarrow> task option) \<Rightarrow> nat \<Rightarrow> string set" where
  "in_refs T n = (case T n of None \<Rightarrow> {} | Some t \<Rightarrow> set (blockedBy t))"

definition mirrored :: "(nat \<Rightarrow> task option) \<Rightarrow> bool" where
  "mirrored T \<longleftrightarrow>
     (\<forall>n. out_refs T n \<union> in_refs T n \<subseteq> decimal ` dom T) \<and>
     (\<forall>a b. decimal b \<in> out_refs T a \<longleftrightarrow> decimal a \<in> in_refs T b)"

text \<open>What an operation may do without touching the references.\<close>

definition same_refs :: "(nat \<Rightarrow> task option) \<Rightarrow> (nat \<Rightarrow> task option) \<Rightarrow> bool" where
  "same_refs T T' \<longleftrightarrow> dom T' = dom T \<and> out_refs T' = out_refs T \<and> in_refs T' = in_refs T"

lemma same_refs_refl [simp]: "same_refs T T"
  by (simp add: same_refs_def)

lemma same_refs_trans: "same_refs T T' \<Longrightarrow> same_refs T' T'' \<Longrightarrow> same_refs T T''"
  by (simp add: same_refs_def)

lemma same_refs_update:
  "T n = Some t \<Longrightarrow> set (blocks t') = set (blocks t) \<Longrightarrow> set (blockedBy t') = set (blockedBy t) \<Longrightarrow> same_refs T (T(n \<mapsto> t'))"
  by (auto simp: same_refs_def out_refs_def in_refs_def fun_eq_iff)

lemma mirrored_same: "same_refs T T' \<Longrightarrow> mirrored T \<Longrightarrow> mirrored T'"
  by (simp add: same_refs_def mirrored_def)

lemma mirrored_create:
  assumes "mirrored T" "T n = None" "blocks t = []" "blockedBy t = []"
  shows "mirrored (T(n \<mapsto> t))"
proof -
  have "out_refs (T(n \<mapsto> t)) = out_refs T" "in_refs (T(n \<mapsto> t)) = in_refs T"
    using assms(2-4) by (auto simp: out_refs_def in_refs_def fun_eq_iff)
  then show ?thesis using assms(1) by (auto simp: mirrored_def)
qed

lemma mirrored_delete:
  assumes "mirrored T"
  shows "mirrored (\<lambda>m. if m = n then None else map_option (without_reference (decimal n)) (T m))" (is "mirrored ?T")
proof -
  have "out_refs ?T m = (if m = n then {} else out_refs T m - {decimal n})"
    "in_refs ?T m = (if m = n then {} else in_refs T m - {decimal n})" for m
    by (auto simp: out_refs_def in_refs_def without_reference_def split: option.splits)
  moreover have "dom ?T = dom T - {n}" by (auto split: if_splits)
  moreover have "x = decimal n \<or> x \<in> decimal ` (dom T - {n})" if "x \<in> decimal ` dom T" for x using that by auto
  ultimately show ?thesis using assms unfolding mirrored_def by simp blast
qed

lemma mirrored_link:
  assumes "mirrored T" "dom T' = dom T" "a \<in> dom T" "b \<in> dom T"
    and "out_refs T' = (out_refs T)(a := insert (decimal b) (out_refs T a))"
    and "in_refs T' = (in_refs T)(b := insert (decimal a) (in_refs T b))"
  shows "mirrored T'"
  using assms by (auto simp: mirrored_def)

section \<open>Operations and references\<close>

definition plain_updates :: "task_updates \<Rightarrow> task_updates" where
  "plain_updates u = u\<lparr>u_blocks := None, u_blockedBy := None\<rparr>"

lemma plain_refs:
  "u_blocks u = None \<Longrightarrow> u_blockedBy u = None \<Longrightarrow>
     blocks (updated_task u i t) = blocks t \<and> blockedBy (updated_task u i t) = blockedBy t"
  by (simp add: updated_task_def)

lemma update_refs:
  assumes "becomes d T k" "u_blocks u = None" "u_blockedBy u = None"
  obtains T' where "becomes (snd (updateTask ant i u d)) T' k" "same_refs T T'"
proof (cases "\<exists>n t. i = decimal n \<and> T n = Some t")
  case True
  then obtain n t where n: "i = decimal n" "T n = Some t" by auto
  then show ?thesis
    using that update_safe [OF assms(1) n(2)] update_unsafe(2) [OF assms(1) n(2), of u]
      plain_refs [OF assms(2,3)] same_refs_update [of T n t, OF n(2)] n(1) by (metis snd_conv)
next
  case False
  then show ?thesis using that [of T] assms(1) update_none [OF assms(1), of i] by auto
qed

lemma block_refs:
  assumes "becomes d T k" "mirrored T"
  obtains T' where "becomes (snd (blockTask ant f t d)) T' k" "mirrored T'" "dom T' = dom T"
proof (cases "getTask ant d f = None \<or> getTask ant d t = None")
  case True
  then have "blockTask ant f t d = (False, d)" by (auto simp: blockTask_def split: option.splits)
  then show ?thesis using that assms by simp
next
  case False
  then obtain a ta b tb where a: "f = decimal a" "T a = Some ta" and b: "t = decimal b" "T b = Some tb"
    using getTask_Some [of d ant f] getTask_Some [of d ant t] assms(1) by (auto simp: becomes_def)
  have g: "getTask ant d f = Some ta" "getTask ant d t = Some tb"
    using a b getTask_at assms(1) by (auto simp: becomes_def)
  define ta' where "ta' = (if t \<in> set (blocks ta) then ta
    else updated_task (no_updates\<lparr>u_blocks := Some (blocks ta @ [t])\<rparr>) f ta)"
  define d1 where "d1 = (if t \<in> set (blocks ta) then d
    else snd (updateTask ant f (no_updates\<lparr>u_blocks := Some (blocks ta @ [t])\<rparr>) d))"
  define T1 where "T1 = T(a \<mapsto> ta')"
  have d1: "becomes d1 T1 k"
  proof (cases "t \<in> set (blocks ta)")
    case True
    then have "T1 = T" using a(2) by (auto simp: ta'_def T1_def)
    then show ?thesis using True assms(1) by (simp add: d1_def)
  next
    case False
    then show ?thesis
      using update_safe [OF assms(1) a(2)] update_unsafe(2) [OF assms(1) a(2)] a(1) by (simp add: d1_def ta'_def T1_def)
  qed
  obtain tb1 where tb1: "T1 b = Some tb1" "blockedBy tb1 = blockedBy tb" "blocks tb1 = (if a = b then blocks ta' else blocks tb)"
    using a b by (cases "a = b") (auto simp: T1_def ta'_def updated_task_def no_updates_def)
  define tb' where "tb' = (if f \<in> set (blockedBy tb) then tb1
    else updated_task (no_updates\<lparr>u_blockedBy := Some (blockedBy tb @ [f])\<rparr>) t tb1)"
  define d2 where "d2 = (if f \<in> set (blockedBy tb) then d1
    else snd (updateTask ant t (no_updates\<lparr>u_blockedBy := Some (blockedBy tb @ [f])\<rparr>) d1))"
  let ?T2 = "T1(b \<mapsto> tb')"
  have d2: "becomes d2 ?T2 k"
  proof (cases "f \<in> set (blockedBy tb)")
    case True
    then have "?T2 = T1" using fun_upd_triv [of T1 b] by (simp only: tb'_def if_True tb1(1))
    then show ?thesis using True d1 by (simp add: d2_def)
  next
    case False
    then show ?thesis
      using update_safe [OF d1 tb1(1)] update_unsafe(2) [OF d1 tb1(1)] b(1) by (simp add: d2_def tb'_def)
  qed
  have "set (blocks ta') = insert t (set (blocks ta))" "blockedBy ta' = blockedBy ta"
    "set (blockedBy tb') = insert f (set (blockedBy tb))" "blocks tb' = blocks tb1"
    using tb1(2) by (auto simp: ta'_def tb'_def updated_task_def no_updates_def)
  then have "out_refs ?T2 = (out_refs T)(a := insert (decimal b) (out_refs T a))"
    "in_refs ?T2 = (in_refs T)(b := insert (decimal a) (in_refs T b))"
    using a b tb1 by (auto simp: T1_def out_refs_def in_refs_def fun_eq_iff)
  then have "mirrored ?T2" using a(2) b(2) by (intro mirrored_link [OF assms(2)]) (auto simp: T1_def)
  moreover have "snd (blockTask ant f t d) = d2"
    by (simp add: blockTask_def g d2_def d1_def)
  ultimately show ?thesis using that [of ?T2] d2 a b by (auto simp: T1_def)
qed

lemma owner_update_plain [simp]:
  "u_blocks (no_updates\<lparr>u_owner := w\<rparr>) = None" "u_blockedBy (no_updates\<lparr>u_owner := w\<rparr>) = None"
  "u_blocks (no_updates\<lparr>u_status := v\<rparr>) = None" "u_blockedBy (no_updates\<lparr>u_status := v\<rparr>) = None"
  "u_blocks (no_updates\<lparr>u_owner := w, u_status := v\<rparr>) = None" "u_blockedBy (no_updates\<lparr>u_owner := w, u_status := v\<rparr>) = None"
  by (simp_all add: no_updates_def)

text \<open>What a successful claim does, by either way.\<close>

lemma list_find:
  assumes "becomes d T k"
  shows "find (\<lambda>t. task_id t = i) (listTasks ant d) = getTask ant d i"
proof -
  have d: "tidy_dir d" "T = tasks_at d" using assms by (auto simp: becomes_def)
  have one: "task_id t = i \<longleftrightarrow> getTask ant d i = Some t" if "t \<in> set (listTasks ant d)" for t
  proof -
    have "t \<in> ran (tasks_at d)" using that listTasks_set [OF d(1)] by simp
    then obtain n where n: "tasks_at d n = Some t" by (auto simp: ran_def)
    show ?thesis
    proof
      assume "task_id t = i"
      then have "i = decimal n" using tasks_at_id [OF d(1) n] by simp
      then show "getTask ant d i = Some t" using n getTask_at [OF d(1)] by simp
    next
      assume "getTask ant d i = Some t"
      then show "task_id t = i" using getTask_Some [OF d(1), of ant i t] tasks_at_id [OF d(1)] by blast
    qed
  qed
  show ?thesis
  proof (cases "getTask ant d i")
    case None
    then show ?thesis using one by (auto simp: find_None_iff)
  next
    case (Some t)
    then have t: "t \<in> set (listTasks ant d)"
      using getTask_Some [OF d(1)] listTasks_set [OF d(1)] by (auto simp: ran_def)
    then have "find (\<lambda>t. task_id t = i) (listTasks ant d) \<noteq> None"
      using one [OF t] Some by (auto simp: find_None_iff)
    then obtain u where u: "find (\<lambda>t. task_id t = i) (listTasks ant d) = Some u" by auto
    then have "task_id u = i \<and> u \<in> set (listTasks ant d)" by (auto simp: find_Some_iff)
    then show ?thesis using u one [of u] Some by auto
  qed
qed

text \<open>When a task can be claimed.\<close>

definition claimable :: "string \<Rightarrow> bool \<Rightarrow> task list \<Rightarrow> task \<Rightarrow> bool" where
  "claimable agent busyCheck ts t \<longleftrightarrow>
     (\<not> nonempty_text (owner t) \<or> owner t = Some agent) \<and> task_status t \<noteq> TaskCompleted \<and>
     (\<forall>u\<in>set ts. task_id u \<in> set (blockedBy t) \<longrightarrow> task_status u = TaskCompleted) \<and>
     (busyCheck \<longrightarrow> (\<forall>u\<in>set ts. task_id u \<noteq> task_id t \<longrightarrow> owner u = Some agent \<longrightarrow> task_status u = TaskCompleted))"

lemma refusal_claimable: "claim_refusal agent t ts = None \<longleftrightarrow> claimable agent False ts t"
  by (auto simp: claim_refusal_def claimable_def open_blockers_def unresolved_ids_def filter_empty_conv)

lemma refusal_not_success: "claim_refusal agent t ts = Some r \<Longrightarrow> r \<noteq> Claimed x"
  by (auto simp: claim_refusal_def split: if_splits)

abbreviation claimed_by :: "string \<Rightarrow> task \<Rightarrow> task" where
  "claimed_by agent t \<equiv> t\<lparr>owner := Some agent\<rparr>"

lemma claim_cases:
  assumes "becomes d T k" "claimTask ant i agent busy d = (r, d')"
  shows "(\<exists>n t. i = decimal n \<and> T n = Some t \<and> claimable agent busy (listTasks ant d) t \<and>
           r = Claimed (Some (claimed_by agent t)) \<and> becomes d' (T(n \<mapsto> claimed_by agent t)) k) \<or>
         (\<nexists>n t. i = decimal n \<and> T n = Some t \<and> claimable agent busy (listTasks ant d) t) \<and>
           (\<forall>x. r \<noteq> Claimed x) \<and> d' = d"
proof (cases "getTask ant d i")
  case None
  then show ?thesis
    using assms getTask_Some [of d ant i] by (auto simp: claimTask_def becomes_def)
next
  case (Some t)
  have d: "tidy_dir d" "T = tasks_at d" using assms(1) by (auto simp: becomes_def)
  obtain n where n: "i = decimal n" "T n = Some t" using getTask_Some [OF d(1)] Some d(2) by auto
  have id: "task_id t = i" using tasks_at_id [OF d(1), of n t] n d(2) by simp
  let ?u = "no_updates\<lparr>u_owner := Some (Some agent)\<rparr>" and ?ts = "listTasks ant d"
  have up: "updated_task ?u (decimal n) t = claimed_by agent t"
    using id n(1) by (simp add: updated_task_def no_updates_def)
  note unsafe = update_unsafe(1) [OF assms(1) n(2), of ant ?u, unfolded up]
    update_unsafe(2) [OF assms(1) n(2), of ?u, unfolded up]
  note safe = update_safe [OF assms(1) n(2), of ant ?u, unfolded up]
  have uniq: "T m = Some t' \<Longrightarrow> i = decimal m \<Longrightarrow> t' = t" for m t' using n by auto
  have busy: "agent_open_tasks agent i ?ts \<noteq> [] \<or> claim_refusal agent t ?ts \<noteq> None \<longleftrightarrow> \<not> claimable agent True ?ts t"
    unfolding refusal_claimable by (auto simp: agent_open_tasks_def filter_empty_conv claimable_def id)
  show ?thesis
  proof (cases "claimable agent busy ?ts t")
    case True
    have no: "claim_refusal agent t ?ts = None" "busy \<Longrightarrow> agent_open_tasks agent i ?ts = []"
      using True busy refusal_claimable by (cases busy; auto simp: claimable_def)+
    have "r = Claimed (Some (claimed_by agent t)) \<and> d' = write_task (decimal n) (claimed_by agent t) d"
      using assms(2) no unsafe(1) safe Some n(1)
      by (cases busy) (auto simp: claimTask_def claimTaskWithBusyCheck_def list_find [OF assms(1)] Let_def)
    then show ?thesis using True n unsafe(2) by auto
  next
    case False
    then have "(\<forall>x. r \<noteq> Claimed x) \<and> d' = d"
      using assms(2) Some busy refusal_claimable [of agent t ?ts] refusal_not_success [of agent t ?ts]
      by (cases busy) (auto simp: claimTask_def claimTaskWithBusyCheck_def list_find [OF assms(1)] Let_def split: option.splits if_splits)
    then show ?thesis using False uniq by auto
  qed
qed

lemma claim_refs:
  assumes "becomes d T k"
  obtains T' where "becomes (snd (claimTask ant i agent busy d)) T' k" "same_refs T T'"
proof -
  obtain r d' where c: "claimTask ant i agent busy d = (r, d')" by fastforce
  show ?thesis using claim_cases [OF assms c] that assms c same_refs_update [of T] by fastforce
qed

lemma unassign_refs:
  assumes "becomes d T k"
  obtains T' where "becomes (snd (snd (unassignTeammateTasks ant who name terminated d))) T' k" "same_refs T T'"
proof -
  have "\<exists>T'. becomes (foldl (\<lambda>d t. snd (updateTask ant (task_id t)
      (no_updates\<lparr>u_owner := Some None, u_status := Some TaskPending\<rparr>) d)) d ts) T' k \<and> same_refs T T'" for ts
  proof (induction ts rule: rev_induct)
    case (snoc t ts)
    then obtain T1 where T1: "becomes (foldl (\<lambda>d t. snd (updateTask ant (task_id t)
        (no_updates\<lparr>u_owner := Some None, u_status := Some TaskPending\<rparr>) d)) d ts) T1 k" "same_refs T T1"
      by blast
    obtain T2 where "becomes (snd (updateTask ant (task_id t) (no_updates\<lparr>u_owner := Some None, u_status := Some TaskPending\<rparr>)
        (foldl (\<lambda>d t. snd (updateTask ant (task_id t)
        (no_updates\<lparr>u_owner := Some None, u_status := Some TaskPending\<rparr>) d)) d ts))) T2 k" "same_refs T1 T2"
      by (rule update_refs [OF T1(1) owner_update_plain(5,6)])
    then show ?case using same_refs_trans [OF T1(2)] by auto
  qed (use assms in auto)
  then show ?thesis using that by (auto simp: unassignTeammateTasks_def Let_def)
qed

lemma next_refs:
  assumes "becomes d T k"
  obtains T' where "becomes (snd (tryClaimNextTask ant name d)) T' k" "same_refs T T'"
proof (cases "findAvailableTask (listTasks ant d)")
  case None
  then show ?thesis using that assms by (simp add: tryClaimNextTask_def)
next
  case (Some t)
  obtain r d1 where c: "claimTask ant (task_id t) name False d = (r, d1)" by fastforce
  obtain T1 where T1: "becomes d1 T1 k" "same_refs T T1" using claim_refs [OF assms] c by (metis snd_conv)
  show ?thesis
  proof (cases "\<exists>x. r = Claimed x")
    case True
    then obtain x where x: "r = Claimed x" by blast
    obtain T2 where "becomes (snd (updateTask ant (task_id t) (no_updates\<lparr>u_status := Some TaskInProgress\<rparr>) d1)) T2 k"
        "same_refs T1 T2"
      by (rule update_refs [OF T1(1) owner_update_plain(3,4)])
    then show ?thesis using that [of T2] same_refs_trans [OF T1(2)] by (simp add: tryClaimNextTask_def Some c x)
  next
    case False
    then have "snd (tryClaimNextTask ant name d) = d1" by (cases r) (auto simp: tryClaimNextTask_def Some c)
    then show ?thesis using that T1 by simp
  qed
qed

section \<open>A session of operations\<close>

datatype task_op =
    CreateOp string string "string option" "(string \<times> string) list option"
  | UpdateOp string task_updates
  | DeleteOp string
  | ResetOp
  | BlockOp string string
  | ClaimOp string string bool
  | UnassignOp string string bool
  | ClaimNextOp string

text \<open>A state has the identifiers that were given so far.\<close>

fun task_step :: "bool \<Rightarrow> task_dir \<times> string list \<Rightarrow> task_op \<Rightarrow> task_dir \<times> string list" where
  "task_step ant (d, given) (CreateOp subj desc form meta) =
     (let (i, d') = createTask (new_task subj desc form meta) d in (d', given @ [i]))"
| "task_step ant (d, given) (UpdateOp i u) = (snd (updateTask ant i (plain_updates u) d), given)"
| "task_step ant (d, given) (DeleteOp i) = (snd (deleteTask ant i d), given)"
| "task_step ant (d, given) ResetOp = (resetTaskList d, given)"
| "task_step ant (d, given) (BlockOp f t) = (snd (blockTask ant f t d), given)"
| "task_step ant (d, given) (ClaimOp i agent busy) = (snd (claimTask ant i agent busy d), given)"
| "task_step ant (d, given) (UnassignOp who name terminated) =
     (snd (snd (unassignTeammateTasks ant who name terminated d)), given)"
| "task_step ant (d, given) (ClaimNextOp name) = (snd (tryClaimNextTask ant name d), given)"

definition empty_dir :: task_dir where "empty_dir = \<lparr>task_files = [], highWaterMark = None\<rparr>"

definition given_inv :: "(nat \<Rightarrow> task option) \<Rightarrow> nat \<Rightarrow> string list \<Rightarrow> bool" where
  "given_inv T k given \<longleftrightarrow>
     (\<exists>ns. given = map decimal ns \<and> sorted_wrt (<) ns \<and> (\<forall>n\<in>set ns. n \<le> k \<or> T n \<noteq> None))"

definition task_inv :: "task_dir \<times> string list \<Rightarrow> bool" where
  "task_inv s \<longleftrightarrow> (\<exists>T k. becomes (fst s) T k \<and> mirrored T \<and> given_inv T k (snd s))"

lemma task_invI: "becomes d T k \<Longrightarrow> mirrored T \<Longrightarrow> given_inv T k given \<Longrightarrow> task_inv (d, given)"
  by (auto simp: task_inv_def)

lemma given_same: "given_inv T k given \<Longrightarrow> dom T \<subseteq> dom T' \<Longrightarrow> given_inv T' k given"
  by (fastforce simp: given_inv_def)

lemma given_raise:
  "given_inv T k given \<Longrightarrow> k \<le> k' \<Longrightarrow> (\<And>n. T n \<noteq> None \<Longrightarrow> T' n = None \<Longrightarrow> n \<le> k') \<Longrightarrow> given_inv T' k' given"
  unfolding given_inv_def by (metis le_trans)

lemma given_new:
  assumes "given_inv T k given" "k < n" "\<And>m t. T m = Some t \<Longrightarrow> m < n"
  shows "given_inv (T(n \<mapsto> t)) k (given @ [decimal n])"
proof -
  obtain ns where ns: "given = map decimal ns" "sorted_wrt (<) ns" "\<forall>m\<in>set ns. m \<le> k \<or> T m \<noteq> None"
    using assms(1) by (auto simp: given_inv_def)
  have "m < n" if "m \<in> set ns" for m using ns(3) that assms(2,3) by fastforce
  then have "given @ [decimal n] = map decimal (ns @ [n]) \<and> sorted_wrt (<) (ns @ [n]) \<and>
      (\<forall>m\<in>set (ns @ [n]). m \<le> k \<or> (T(n \<mapsto> t)) m \<noteq> None)"
    using ns by (auto simp: sorted_wrt_append)
  then show ?thesis unfolding given_inv_def by blast
qed

lemma same_step:
  "becomes d' T' k \<Longrightarrow> same_refs T T' \<Longrightarrow> mirrored T \<Longrightarrow> given_inv T k given \<Longrightarrow> task_inv (d', given)"
  by (rule task_invI [of d' T' k]) (assumption, erule (1) mirrored_same, erule given_same, simp add: same_refs_def)

interpretation tasks: machine "task_step ant" task_inv for ant
proof
  fix s ev assume inv: "task_inv s"
  obtain d given where s: "s = (d, given)" by (cases s)
  obtain T k where T: "becomes d T k" "mirrored T" "given_inv T k given" using inv by (auto simp: task_inv_def s)
  show "task_inv (task_step ant s ev)"
  proof (cases ev)
    case (CreateOp subj desc form meta)
    obtain i d' where c: "createTask (new_task subj desc form meta) d = (i, d')" by fastforce
    obtain n where n: "i = decimal n" "k < n" "\<And>m t. T m = Some t \<Longrightarrow> m < n"
      "becomes d' (T(n \<mapsto> (new_task subj desc form meta)\<lparr>task_id := decimal n\<rparr>)) k"
      by (rule create_becomes [OF T(1) c]) blast
    have "T n = None" using n(3) by (metis not_Some_eq less_irrefl)
    then have "mirrored (T(n \<mapsto> (new_task subj desc form meta)\<lparr>task_id := decimal n\<rparr>))"
      by (intro mirrored_create [OF T(2)]) (simp_all add: new_task_def)
    then have "task_inv (d', given @ [decimal n])"
      by (rule task_invI [OF n(4) _ given_new [OF T(3) n(2,3)]])
    then show ?thesis by (simp add: s CreateOp c n(1))
  next
    case (UpdateOp i u)
    obtain T' where "becomes (snd (updateTask ant i (plain_updates u) d)) T' k" "same_refs T T'"
      by (rule update_refs [OF T(1), of "plain_updates u"]) (simp_all add: plain_updates_def)
    then show ?thesis using same_step T by (simp add: s UpdateOp)
  next
    case (DeleteOp i)
    obtain ok d' where del: "deleteTask ant i d = (ok, d')" by fastforce
    obtain k' where k': "k \<le> k'" "\<And>n. i = decimal n \<Longrightarrow> n \<le> k'" "ok \<longleftrightarrow> (\<exists>n t. i = decimal n \<and> T n = Some t)"
      "becomes d' (if ok then (\<lambda>m. if i = decimal m then None else map_option (without_reference i) (T m)) else T) k'"
      by (rule delete_becomes [OF T(1) del]) (rule that; blast)
    show ?thesis
    proof (cases ok)
      case True
      then obtain n where n: "i = decimal n" using k'(3) by auto
      let ?T = "\<lambda>m. if m = n then None else map_option (without_reference (decimal n)) (T m)"
      have "(\<lambda>m. if i = decimal m then None else map_option (without_reference i) (T m)) = ?T"
        by (auto simp: n fun_eq_iff)
      then have "becomes d' ?T k'" using k'(4) True by simp
      moreover have "given_inv ?T k' given" by (rule given_raise [OF T(3) k'(1)]) (use k'(2) n in \<open>auto split: if_splits\<close>)
      ultimately show ?thesis using mirrored_delete [OF T(2), of n] by (auto simp: s DeleteOp del task_inv_def)
    next
      case False
      then have "becomes d' T k'" "given_inv T k' given" using k' given_raise [OF T(3) k'(1), of T] by auto
      then show ?thesis using T(2) by (auto simp: s DeleteOp del task_inv_def)
    qed
  next
    case ResetOp
    obtain k' where "becomes (resetTaskList d) (\<lambda>_. None) k'" "k \<le> k'" "\<And>n t. T n = Some t \<Longrightarrow> n \<le> k'"
      by (rule reset_becomes [OF T(1)]) blast
    moreover have "mirrored (\<lambda>_. None)" by (auto simp: mirrored_def out_refs_def in_refs_def)
    ultimately show ?thesis using given_raise [OF T(3), of k' "\<lambda>_. None"] by (fastforce simp: s ResetOp task_inv_def)
  next
    case (BlockOp f t)
    obtain T' where "becomes (snd (blockTask ant f t d)) T' k" "mirrored T'" "dom T' = dom T"
      by (rule block_refs [OF T(1,2)])
    then show ?thesis using given_same [OF T(3), of T'] by (auto simp: s BlockOp task_inv_def)
  next
    case (ClaimOp i agent busy)
    show ?thesis by (rule claim_refs [OF T(1), of ant i agent busy]) (use same_step T in \<open>simp add: s ClaimOp\<close>)
  next
    case (UnassignOp who name terminated)
    show ?thesis by (rule unassign_refs [OF T(1), of ant who name terminated]) (use same_step T in \<open>simp add: s UnassignOp\<close>)
  next
    case (ClaimNextOp name)
    show ?thesis by (rule next_refs [OF T(1), of ant name]) (use same_step T in \<open>simp add: s ClaimNextOp\<close>)
  qed
qed

lemma empty_inv: "task_inv (empty_dir, [])"
proof -
  have "becomes empty_dir (\<lambda>_. None) 0"
    by (auto simp: becomes_def empty_dir_def tidy_dir_def tasks_at_def mark_of_def readHighWaterMark_def)
  moreover have "mirrored (\<lambda>_. None)" by (auto simp: mirrored_def out_refs_def in_refs_def)
  moreover have "given_inv (\<lambda>_. None) 0 []" by (simp add: given_inv_def)
  ultimately show ?thesis by (rule task_invI)
qed

section \<open>What holds after any session\<close>

abbreviation task_session :: "bool \<Rightarrow> task_op list \<Rightarrow> task_dir \<times> string list" where
  "task_session ant es \<equiv> foldl (task_step ant) (empty_dir, []) es"

lemma session_inv:
  obtains T k where "becomes (fst (task_session ant es)) T k" "mirrored T" "given_inv T k (snd (task_session ant es))"
  using tasks.run_inv [OF empty_inv, of ant es] by (auto simp: task_inv_def)


text \<open>
  C15: The references between tasks mirror each other after any session: a task blocks another exactly
  when the other exists and is blocked by it, so no task waits for a task that was deleted.
\<close>

theorem references_mirror:
  assumes "d = fst (task_session ant es)" "getTask ant d i = Some t"
  shows "(j \<in> set (blocks t) \<longleftrightarrow> (\<exists>u. getTask ant d j = Some u \<and> i \<in> set (blockedBy u))) \<and>
    (j \<in> set (blockedBy t) \<longleftrightarrow> (\<exists>u. getTask ant d j = Some u \<and> i \<in> set (blocks u)))"
proof -
  obtain T k where T: "becomes d T k" "mirrored T" by (rule session_inv [of ant es]) (simp add: assms(1))
  have d: "tidy_dir d" "T = tasks_at d" using T(1) by (auto simp: becomes_def)
  obtain n where n: "i = decimal n" "T n = Some t" using getTask_Some [OF d(1)] assms(2) d(2) by auto
  have out: "decimal m \<in> set (blocks t) \<longleftrightarrow> decimal n \<in> in_refs T m"
    and inn: "decimal m \<in> set (blockedBy t) \<longleftrightarrow> decimal n \<in> out_refs T m" for m
  proof -
    have "out_refs T n = set (blocks t)" "in_refs T n = set (blockedBy t)"
      using n(2) by (simp_all add: out_refs_def in_refs_def)
    moreover have "decimal m \<in> out_refs T n \<longleftrightarrow> decimal n \<in> in_refs T m"
      "decimal n \<in> out_refs T m \<longleftrightarrow> decimal m \<in> in_refs T n"
      using T(2) by (simp_all add: mirrored_def)
    ultimately show "decimal m \<in> set (blocks t) \<longleftrightarrow> decimal n \<in> in_refs T m"
      "decimal m \<in> set (blockedBy t) \<longleftrightarrow> decimal n \<in> out_refs T m" by simp_all
  qed
  have num: "\<exists>m. j = decimal m" if "j \<in> set (blocks t) \<or> j \<in> set (blockedBy t)"
  proof -
    have "out_refs T n \<union> in_refs T n \<subseteq> decimal ` dom T" using T(2) unfolding mirrored_def by blast
    then have "j \<in> decimal ` dom T" using that n(2) by (auto simp: out_refs_def in_refs_def)
    then show ?thesis by auto
  qed
  have at: "getTask ant d j = Some u \<longleftrightarrow> (\<exists>m. j = decimal m \<and> T m = Some u)" for u
    using getTask_Some [OF d(1)] d(2) by simp
  show ?thesis
  proof (cases "\<exists>m. j = decimal m")
    case True
    then obtain m where m: "j = decimal m" by blast
    show ?thesis
      unfolding at using out [of m] inn [of m] by (auto simp: m n(1) in_refs_def out_refs_def split: option.splits)
  next
    case False
    then show ?thesis using num unfolding at by blast
  qed
qed

text \<open>
  C18: A claim succeeds exactly when the task exists, is open, is not owned by another, waits for no open
  task and, with the check of the agent, the agent has no other open task.  It then sets the owner and
  nothing else; any other claim changes nothing.
\<close>

theorem claim_exact:
  assumes "d = fst (task_session ant es)" "claimTask ant i agent busy d = (r, d')"
  shows "(case getTask ant d i of
      Some t \<Rightarrow> if claimable agent busy (listTasks ant d) t
        then r = Claimed (Some (claimed_by agent t)) \<and> getTask ant d' = (getTask ant d)(i \<mapsto> claimed_by agent t)
        else (\<forall>x. r \<noteq> Claimed x) \<and> d' = d
    | None \<Rightarrow> (\<forall>x. r \<noteq> Claimed x) \<and> d' = d)"
proof -
  obtain T k where T: "becomes d T k" by (rule session_inv [of ant es]) (simp add: assms(1))
  have d: "tidy_dir d" "T = tasks_at d" using T by (auto simp: becomes_def)
  have at: "getTask ant d i = Some t \<longleftrightarrow> (\<exists>n. i = decimal n \<and> T n = Some t)" for i t
    using getTask_Some [OF d(1)] d(2) by simp
  from claim_cases [OF T assms(2)] show ?thesis
  proof (elim disjE exE conjE)
    fix n t assume n: "i = decimal n" "T n = Some t" "claimable agent busy (listTasks ant d) t"
      and r: "r = Claimed (Some (claimed_by agent t))" and b: "becomes d' (T(n \<mapsto> claimed_by agent t)) k"
    have "getTask ant d' j = Some u \<longleftrightarrow> ((getTask ant d)(i \<mapsto> claimed_by agent t)) j = Some u" for j u
      using getTask_Some [of d' ant j u] b at [of j u] by (auto simp: becomes_def n(1) split: if_splits)
    then have "getTask ant d' = (getTask ant d)(i \<mapsto> claimed_by agent t)"
      by (intro ext) (metis option.exhaust)
    moreover have "getTask ant d i = Some t" using at n by blast
    ultimately show ?thesis using n(3) r by simp
  qed (use at in \<open>auto split: option.splits\<close>)
qed

text \<open>An open task waits for another that blocks it.\<close>

definition waits_for :: "task list \<Rightarrow> (string \<times> string) set" where
  "waits_for ts = {(i, j). \<exists>t\<in>set ts. \<exists>u\<in>set ts. i = task_id t \<and> j = task_id u \<and>
     task_status t \<noteq> TaskCompleted \<and> task_status u \<noteq> TaskCompleted \<and> j \<in> set (blockedBy t)}"

text \<open>
  Work does not get stuck: if there is an open task, no open task is taken, and the open tasks do not
  wait for each other in a circle, an agent that looks for work finds a task.
\<close>

theorem available_task_found:
  assumes "acyclic (waits_for ts)" "\<exists>t\<in>set ts. task_status t \<noteq> TaskCompleted"
    and "\<forall>t\<in>set ts. task_status t = TaskCompleted \<or> task_status t = TaskPending \<and> \<not> nonempty_text (owner t)"
  shows "findAvailableTask ts \<noteq> None"
proof -
  define op where "op = {task_id t |t. t \<in> set ts \<and> task_status t \<noteq> TaskCompleted}"
  have fin: "finite (waits_for ts)"
    by (rule finite_subset [of _ "(task_id ` set ts) \<times> (task_id ` set ts)"]) (auto simp: waits_for_def)
  have wf: "wf ((waits_for ts)\<inverse>)" using finite_acyclic_wf_converse [OF fin assms(1)] .
  obtain i0 where "i0 \<in> op" using assms(2) by (auto simp: op_def)
  then obtain i where i: "i \<in> op" "\<And>j. (j, i) \<in> (waits_for ts)\<inverse> \<Longrightarrow> j \<notin> op"
    using wf unfolding wf_eq_minimal by blast
  then obtain t where t: "t \<in> set ts" "task_status t \<noteq> TaskCompleted" "i = task_id t" by (auto simp: op_def)
  have "j \<notin> set (unresolved_ids ts)" if "j \<in> set (blockedBy t)" for j
  proof
    assume "j \<in> set (unresolved_ids ts)"
    then obtain u where u: "u \<in> set ts" "task_status u \<noteq> TaskCompleted" "j = task_id u" by (auto simp: unresolved_ids_def)
    then have "(j, i) \<in> (waits_for ts)\<inverse>" using t that unfolding waits_for_def by blast
    moreover have "j \<in> op" using u by (auto simp: op_def)
    ultimately show False using i(2) by blast
  qed
  then show ?thesis
    using t(1,2) assms(3) unfolding findAvailableTask_def find_None_iff list_all_iff by blast
qed

end
