(* ===== verification/Task_Lock_Laws.thy ===== *)
theory Task_Lock_Laws
  imports Task_Locks Task_Laws Prelude
begin

text \<open>
  What the locks of the task list guarantee under every interleaving: a task is claimed by one agent only,
  and two creations never get the same identifier.  Where a write is not under the lock that others use,
  a schedule shows what goes wrong.
\<close>

section \<open>What a process knows about a file\<close>

text \<open>
  About one file, the task \<open>i\<close>: whether the process holds its lock, what owner the file has, whether the
  process holds the lock of the list and has seen then that the file is not there, and whether it made it.
\<close>

record knowledge =
  holds :: bool
  owner_known :: "string option option"
  holds_list :: bool
  seen_absent :: bool
  made :: bool

definition nothing_known :: knowledge where
  "nothing_known = \<lparr>holds = False, owner_known = None, holds_list = False, seen_absent = False, made = False\<rparr>"

definition owner_in :: "bool \<Rightarrow> stored_file option \<Rightarrow> string option option" where
  "owner_in ant x = map_option owner (Option.bind x (read_task ant))"

definition known :: "bool \<Rightarrow> string \<Rightarrow> nat \<Rightarrow> task_world \<Rightarrow> knowledge \<Rightarrow> bool" where
  "known ant f p w K \<longleftrightarrow>
     (holds K \<longrightarrow> locked w f = Some p) \<and> (holds_list K \<longrightarrow> locked w list_lock = Some p) \<and>
     (owner_known K \<noteq> None \<longrightarrow> owner_in ant (file_at w f) = owner_known K) \<and>
     (\<forall>x. owner_known K = Some x \<longrightarrow> holds K \<or> nonempty_text x) \<and>
     (seen_absent K \<longrightarrow> holds_list K \<and> file_at w f = None) \<and> (made K \<longrightarrow> file_at w f \<noteq> None)"

definition learn :: "bool \<Rightarrow> knowledge \<Rightarrow> stored_file option \<Rightarrow> knowledge" where
  "learn ant K x =
     (case owner_in ant x of
        None \<Rightarrow> K
      | Some v \<Rightarrow> if holds K \<or> nonempty_text v then K\<lparr>owner_known := Some v\<rparr> else K)"

definition forget_lock :: "string \<Rightarrow> string \<Rightarrow> knowledge \<Rightarrow> knowledge" where
  "forget_lock f g K =
     K\<lparr>holds := holds K \<and> g \<noteq> f, holds_list := holds_list K \<and> g \<noteq> list_lock,
       seen_absent := seen_absent K \<and> g \<noteq> list_lock,
       owner_known := (if g = f then (case owner_known K of Some v \<Rightarrow> if nonempty_text v then Some v else None | None \<Rightarrow> None)
         else owner_known K)\<rparr>"

text \<open>
  A program that keeps to the locks of the file \<open>f\<close>, from what it knows: it changes the file under its
  lock and keeps an owner that is there, or makes it when it has seen that it is absent.
\<close>

primrec disciplined :: "bool \<Rightarrow> string \<Rightarrow> ('r \<Rightarrow> knowledge \<Rightarrow> bool) \<Rightarrow> 'r prog \<Rightarrow> knowledge \<Rightarrow> bool" where
  "disciplined ant f Q (Return r) = (\<lambda>K. \<not> holds K \<and> \<not> holds_list K \<and> Q r K)"
| "disciplined ant f Q (ReadFile g c) = (\<lambda>K. \<forall>x.
     (g = f \<longrightarrow> (owner_known K \<noteq> None \<longrightarrow> owner_in ant x = owner_known K)) \<longrightarrow>
     disciplined ant f Q (c x) (if g = f then learn ant K x else K))"
| "disciplined ant f Q (ReadAll fs got c) = (\<lambda>K. \<forall>x. disciplined ant f Q (c x) K)"
| "disciplined ant f Q (ReadDir c) = (\<lambda>K. \<forall>names.
     disciplined ant f Q (c names) (K\<lparr>seen_absent := seen_absent K \<or> holds_list K \<and> f \<notin> set names\<rparr>))"
| "disciplined ant f Q (WriteFile g s q) = (\<lambda>K.
     if g \<noteq> f then disciplined ant f Q q K
     else holds K \<and> (\<exists>v v'. owner_known K = Some v \<and> owner_in ant (Some s) = Some v' \<and> (nonempty_text v \<longrightarrow> v' = v) \<and>
         disciplined ant f Q q (K\<lparr>owner_known := Some v'\<rparr>)) \<or>
       seen_absent K \<and> disciplined ant f Q q (K\<lparr>seen_absent := False, made := True, owner_known := None\<rparr>))"
| "disciplined ant f Q (Unlink g c) = (\<lambda>K. g \<noteq> f \<and> (\<forall>b. disciplined ant f Q (c b) K))"
| "disciplined ant f Q (ReadMark c) = (\<lambda>K. \<forall>s. disciplined ant f Q (c s) K)"
| "disciplined ant f Q (WriteMark s q) = (\<lambda>K. disciplined ant f Q q K)"
| "disciplined ant f Q (Lock g c) = (\<lambda>K. disciplined ant f Q (c False) K \<and>
     disciplined ant f Q (c True) (K\<lparr>holds := holds K \<or> g = f, holds_list := holds_list K \<or> g = list_lock\<rparr>))"
| "disciplined ant f Q (Unlock g q) = (\<lambda>K. (g = f \<longrightarrow> holds K) \<and> (g = list_lock \<longrightarrow> holds_list K) \<and>
     disciplined ant f Q q (forget_lock f g K))"

section \<open>One step\<close>

lemma file_at_simps [simp]:
  "file_at (w\<lparr>locked := l\<rparr>) f = file_at w f" "file_at (w\<lparr>dir := put_file g s (dir w)\<rparr>) f = (if f = g then Some s else file_at w f)"
  "g \<noteq> f \<Longrightarrow> file_at (w\<lparr>dir := unlink_task g (dir w)\<rparr>) f = file_at w f"
  "file_at (w\<lparr>dir := (dir w)\<lparr>highWaterMark := m\<rparr>\<rparr>) f = file_at w f"
  by (simp_all add: file_at_def put_file_def update_conv' unlink_task_def delete_conv')

lemma file_in_names: "file_at w f = None \<longleftrightarrow> f \<notin> set (map fst (task_files (dir w)))"
  by (auto simp: file_at_def map_of_eq_None_iff)

lemma known_frame:
  "known ant f p w K \<Longrightarrow> locked w' f = locked w f \<Longrightarrow> locked w' list_lock = locked w list_lock \<Longrightarrow>
     file_at w' f = file_at w f \<Longrightarrow> known ant f p w' K"
  by (simp add: known_def)

text \<open>The step of a disciplined process, with what it knows afterwards.\<close>

lemma own_step:
  assumes "disciplined ant f Q c K" "known ant f p w K" "prog_step p choice c w = (c', w')" "f \<noteq> list_lock"
  obtains K' where "disciplined ant f Q c' K'" "known ant f p w' K'"
    "made K' \<Longrightarrow> \<not> made K \<Longrightarrow> file_at w f = None"
proof (cases c)
  case (Return r)
  then show ?thesis using that [of K] assms by auto
next
  case (ReadFile g k)
  let ?x = "file_at w g" and ?K = "if g = f then learn ant K (file_at w g) else K"
  have w: "c' = k ?x" "w' = w" using assms(3) ReadFile by auto
  have "known ant f p w ?K" using assms(2) by (auto simp: known_def learn_def split: option.splits)
  moreover have "disciplined ant f Q c' ?K" using assms(1,2) by (simp add: ReadFile w known_def)
  moreover have "made ?K = made K" by (simp add: learn_def split: option.splits)
  ultimately show ?thesis using that [of ?K] w by simp
next
  case (ReadAll fs got k)
  then show ?thesis using that [of K] assms by (auto simp: Let_def split: if_splits)
next
  case (ReadDir k)
  let ?names = "map fst (task_files (dir w))"
  let ?K = "K\<lparr>seen_absent := seen_absent K \<or> holds_list K \<and> f \<notin> set ?names\<rparr>"
  have w: "c' = k ?names" "w' = w" using assms(3) ReadDir by auto
  have "known ant f p w ?K" using assms(2) file_in_names [of w f] by (auto simp: known_def)
  moreover have "disciplined ant f Q c' ?K" using assms(1) unfolding ReadDir w disciplined.simps by (rule spec)
  ultimately show ?thesis using that [of ?K] w by simp
next
  case (WriteFile g s q)
  then have w: "c' = q" "w' = w\<lparr>dir := put_file g s (dir w)\<rparr>" using assms(3) by auto
  show ?thesis
  proof (cases "g = f")
    case False
    then have "known ant f p w' K" using known_frame [OF assms(2), of w'] by (auto simp: w)
    then show ?thesis using that [of K] assms(1) False by (simp add: WriteFile w)
  next
    case True
    from assms(1) consider (keep) v v' where "holds K" "owner_known K = Some v" "owner_in ant (Some s) = Some v'"
        "disciplined ant f Q q (K\<lparr>owner_known := Some v'\<rparr>)"
      | (create) "seen_absent K" "disciplined ant f Q q (K\<lparr>seen_absent := False, made := True, owner_known := None\<rparr>)"
      by (auto simp: WriteFile True)
    then show ?thesis
    proof cases
      case keep
      have "known ant f p w' (K\<lparr>owner_known := Some v'\<rparr>)"
        using assms(2) keep by (auto simp: known_def w True owner_in_def)
      then show ?thesis using that [of "K\<lparr>owner_known := Some v'\<rparr>"] keep w by simp
    next
      case create
      have "known ant f p w' (K\<lparr>seen_absent := False, made := True, owner_known := None\<rparr>)" "file_at w f = None"
        using assms(2) create by (auto simp: known_def w True)
      then show ?thesis using that [of "K\<lparr>seen_absent := False, made := True, owner_known := None\<rparr>"] create w by simp
    qed
  qed
next
  case (Unlink g k)
  then have w: "c' = k (file_at w g \<noteq> None)" "w' = w\<lparr>dir := unlink_task g (dir w)\<rparr>" "g \<noteq> f"
    using assms(1,3) by auto
  then have "known ant f p w' K" using known_frame [OF assms(2), of w'] by simp
  then show ?thesis using that [of K] assms(1) by (simp add: Unlink w(1))
next
  case (ReadMark k)
  then show ?thesis using that [of K] assms by auto
next
  case (WriteMark s q)
  then have w: "c' = q" "w' = w\<lparr>dir := (dir w)\<lparr>highWaterMark := Some s\<rparr>\<rparr>" using assms(3) by auto
  then have "known ant f p w' K" using known_frame [OF assms(2), of w'] by simp
  then show ?thesis using that [of K] assms(1) by (simp add: WriteMark w(1))
next
  case (Lock g k)
  let ?K = "K\<lparr>holds := holds K \<or> g = f, holds_list := holds_list K \<or> g = list_lock\<rparr>"
  have d: "disciplined ant f Q (k False) K" "disciplined ant f Q (k True) ?K" using assms(1) by (simp_all add: Lock)
  have "c' = k False \<and> w' = w \<or> c' = c \<and> w' = w \<or>
      c' = k True \<and> w' = w\<lparr>locked := (locked w)(g := Some p)\<rparr> \<and> locked w g = None"
    using assms(3) by (auto simp: Lock split: if_splits)
  then show ?thesis
  proof (elim disjE conjE)
    assume t: "c' = k True" "w' = w\<lparr>locked := (locked w)(g := Some p)\<rparr>"
    have "known ant f p w' ?K" using assms(2) by (auto simp: known_def t)
    then show ?thesis using that [of ?K] d t by simp
  qed (use that [of K] assms d in auto)
next
  case (Unlock g q)
  let ?K = "forget_lock f g K"
  have w: "c' = q" "w' = w\<lparr>locked := (locked w)(g := None)\<rparr>" using assms(3) Unlock by auto
  have "known ant f p w' ?K"
    using assms(2) by (auto simp: known_def w forget_lock_def split: option.splits if_splits)
  moreover have "disciplined ant f Q c' ?K" "made ?K = made K" using assms(1) by (simp_all add: Unlock w forget_lock_def)
  ultimately show ?thesis using that [of ?K] by simp
qed

text \<open>What another process knows stays true.\<close>

lemma other_step:
  assumes "disciplined ant f Q c K" "known ant f p w K" "prog_step p choice c w = (c', w')"
    and "known ant f q w J" "p \<noteq> q"
  shows "known ant f q w' J"
proof (cases c)
  case (WriteFile g s r)
  then have w: "w' = w\<lparr>dir := put_file g s (dir w)\<rparr>" using assms(3) by auto
  show ?thesis
  proof (cases "g = f")
    case True
    from assms(1) consider (keep) v v' where "holds K" "owner_known K = Some v" "owner_in ant (Some s) = Some v'"
        "nonempty_text v \<longrightarrow> v' = v"
      | (create) "seen_absent K" by (auto simp: WriteFile True)
    then show ?thesis
    proof cases
      case keep
      then have o: "\<not> holds J" "owner_in ant (file_at w f) = Some v"
        using assms(2,4,5) by (auto simp: known_def)
      moreover have "file_at w f \<noteq> None" using o(2) by (cases "file_at w f") (auto simp: owner_in_def)
      ultimately show ?thesis using assms(4) keep by (auto simp: known_def w True)
    next
      case create
      then have "file_at w f = None" "holds_list K" "locked w list_lock = Some p" using assms(2) by (auto simp: known_def)
      then show ?thesis using assms(4,5) by (auto simp: known_def w True owner_in_def)
    qed
  qed (use assms(4) w in \<open>auto intro: known_frame\<close>)
next
  case (Unlock g r)
  have w: "w' = w\<lparr>locked := (locked w)(g := None)\<rparr>" using assms(3) by (auto simp: Unlock)
  have "g = f \<longrightarrow> locked w f = Some p" "g = list_lock \<longrightarrow> locked w list_lock = Some p"
    using assms(1,2) by (auto simp: Unlock known_def)
  then show ?thesis using assms(4,5) by (auto simp: w known_def)
next
  case (Lock g k)
  then show ?thesis using assms(3,4) by (auto simp: known_def split: if_splits)
next
  case (Unlink g k)
  then show ?thesis using assms(1,3,4) by (auto intro: known_frame)
next
  case (WriteMark s r)
  then show ?thesis using assms(3,4) by (auto intro: known_frame)
next
  case (ReadAll fs got k)
  then show ?thesis using assms(3,4) by (auto simp: Let_def split: if_splits)
qed (use assms(3,4) in auto)

section \<open>A pool of processes\<close>

definition pool_ok :: "bool \<Rightarrow> string \<Rightarrow> ('r \<Rightarrow> knowledge \<Rightarrow> bool) \<Rightarrow> 'r prog list \<times> task_world \<Rightarrow> bool" where
  "pool_ok ant f Q s \<longleftrightarrow>
     (f = list_lock \<or>
      (\<exists>Ks. length Ks = length (fst s) \<and>
        (\<forall>p<length Ks. disciplined ant f Q (fst s ! p) (Ks ! p) \<and> known ant f p (snd s) (Ks ! p)) \<and>
        (\<forall>p<length Ks. \<forall>q<length Ks. made (Ks ! p) \<longrightarrow> made (Ks ! q) \<longrightarrow> p = q)))"

interpretation pool: machine pool_step "pool_ok ant f Q" for ant f and Q :: "'r \<Rightarrow> knowledge \<Rightarrow> bool"
proof
  fix s :: "'r prog list \<times> task_world" and ev :: "nat \<times> nat" assume inv: "pool_ok ant f Q s"
  obtain ps w where s: "s = (ps, w)" by (cases s)
  obtain p choice where ev: "ev = (p, choice)" by (cases ev)
  show "pool_ok ant f Q (pool_step s ev)"
  proof (cases "p < length ps \<and> f \<noteq> list_lock")
    case True
    obtain c' w' where step: "prog_step p choice (ps ! p) w = (c', w')" by fastforce
    obtain Ks where Ks: "length Ks = length ps"
        "\<And>q. q < length ps \<Longrightarrow> disciplined ant f Q (ps ! q) (Ks ! q)" "\<And>q. q < length ps \<Longrightarrow> known ant f q w (Ks ! q)"
        "\<And>q r. q < length ps \<Longrightarrow> r < length ps \<Longrightarrow> made (Ks ! q) \<Longrightarrow> made (Ks ! r) \<Longrightarrow> q = r"
      using inv True by (auto simp: pool_ok_def s)
    have p: "disciplined ant f Q (ps ! p) (Ks ! p)" "known ant f p w (Ks ! p)" using Ks True by auto
    obtain K' where K': "disciplined ant f Q c' K'" "known ant f p w' K'"
        "made K' \<Longrightarrow> \<not> made (Ks ! p) \<Longrightarrow> file_at w f = None"
      using own_step [OF p step] True by blast
    have other: "known ant f q w' (Ks ! q)" if "q < length ps" "q \<noteq> p" for q
      using other_step [OF p step Ks(3) [OF that(1)]] that(2) by simp
    have alone: "\<not> made (Ks ! q)" if "q < length ps" "q \<noteq> p" "made K'" for q
    proof
      assume m: "made (Ks ! q)"
      then have "file_at w f \<noteq> None" using Ks(3) [OF that(1)] by (simp add: known_def)
      then have "made (Ks ! p)" using K'(3) [OF that(3)] by (cases "made (Ks ! p)") simp_all
      then show False using Ks(4) [of p q] m True that by blast
    qed
    have q: "disciplined ant f Q (ps[p := c'] ! q) (Ks[p := K'] ! q)" "known ant f q w' (Ks[p := K'] ! q)"
      if "q < length ps" for q
      using Ks(1,2) K'(1,2) other that by (cases "q = p"; simp)+
    have "made (Ks[p := K'] ! q) \<Longrightarrow> made (Ks[p := K'] ! r) \<Longrightarrow> q = r" if "q < length ps" "r < length ps" for q r
    proof -
      assume m: "made (Ks[p := K'] ! q)" "made (Ks[p := K'] ! r)"
      consider "q = p" "r = p" | "q = p" "r \<noteq> p" | "q \<noteq> p" "r = p" | "q \<noteq> p" "r \<noteq> p" by blast
      then show "q = r"
        by cases (use m that Ks(1) Ks(4) [of q r] alone [of q] alone [of r] in simp_all)
    qed
    then have "pool_ok ant f Q (ps[p := c'], w')"
      unfolding pool_ok_def using Ks(1) q by (intro disjI2 exI [of _ "Ks[p := K']"]) auto
    then show ?thesis using True by (simp add: pool_step_def s ev step)
  next
    case False
    then show ?thesis using inv by (auto simp: pool_ok_def pool_step_def s ev)
  qed
qed

lemma pool_start:
  assumes "\<And>c. c \<in> set ps \<Longrightarrow> disciplined ant f Q c nothing_known"
  shows "pool_ok ant f Q (ps, w)"
  unfolding pool_ok_def using assms
  by (intro disjI2 exI [of _ "replicate (length ps) nothing_known"]) (auto simp: nothing_known_def known_def)

lemma pool_step_length [simp]: "length (fst (pool_step s ev)) = length (fst s)"
  by (auto simp: pool_step_def split: prod.splits)

lemma pool_run_length [simp]: "length (fst (foldl pool_step s evs)) = length (fst s)"
  by (induction evs arbitrary: s) simp_all

section \<open>The operations keep to the locks\<close>

text \<open>Operations that neither remove a task nor change its owner, and claims without the check of the agent.\<close>

datatype agent_op =
    PlainClaim string string
  | PlainUpdate string task_updates
  | PlainCreate bool task
  | PlainBlock string string

datatype op_result = ClaimResult string string claim_result | CreateResult "string option" | OtherResult

fun op_prog :: "bool \<Rightarrow> agent_op \<Rightarrow> op_result prog" where
  "op_prog ant (PlainClaim i agent) = with_result (claimTask_p ant i agent False) (ClaimResult i agent)"
| "op_prog ant (PlainUpdate i u) = with_result (updateTask_p ant i (u\<lparr>u_owner := None\<rparr>)) (\<lambda>_. OtherResult)"
| "op_prog ant (PlainCreate markFirst data) = with_result (createTask_p markFirst data) CreateResult"
| "op_prog ant (PlainBlock f t) = with_result (blockTask_p ant f t) (\<lambda>_. OtherResult)"

definition good_result :: "string \<Rightarrow> op_result \<Rightarrow> knowledge \<Rightarrow> bool" where
  "good_result f r K \<longleftrightarrow>
     (\<forall>i agent t. r = ClaimResult i agent (Claimed t) \<longrightarrow> getTaskPath i = f \<longrightarrow> agent \<noteq> [] \<longrightarrow> owner_known K = Some (Some agent)) \<and>
     (\<forall>i. r = CreateResult (Some i) \<longrightarrow> getTaskPath i = f \<longrightarrow> made K)"

lemma and_do_assoc: "and_do (and_do p k) l = and_do p (\<lambda>x. and_do (k x) l)"
  by (induction p) simp_all

lemma path_not_lock [simp]: "getTaskPath i \<noteq> list_lock" "list_lock \<noteq> getTaskPath i"
proof -
  have "last (getTaskPath i) \<noteq> last list_lock"
    by (simp add: getTaskPath_def json_ext_def list_lock_def)
  then show "getTaskPath i \<noteq> list_lock" "list_lock \<noteq> getTaskPath i" by auto
qed

lemma read_stored_task [simp]: "read_task ant (stored_task t) = Some t"
  by (cases "task_status t")
    (simp_all add: read_task_def stored_task_def with_status_def status_string_def parse_status_def migrated_status_def)

text \<open>Reading a list of tasks teaches nothing about a file outside the lock of the list.\<close>

lemma disciplined_list:
  "disciplined ant f Q (and_do (listTasks_p ant) k) K \<longleftrightarrow>
     (\<forall>names got. disciplined ant f Q (k (List.map_filter (task_read ant got) [0..<length (task_paths names)]))
       (K\<lparr>seen_absent := seen_absent K \<or> holds_list K \<and> f \<notin> set names\<rparr>))"
  by (simp add: listTasks_p_def read_all_def)

lemma disciplined_update:
  assumes "u_owner u = None" "\<not> holds K" "\<not> holds_list K" "\<not> seen_absent K" "f \<noteq> list_lock"
    and "\<And>x K'. \<not> holds K' \<Longrightarrow> \<not> holds_list K' \<Longrightarrow> \<not> seen_absent K' \<Longrightarrow> made K' = made K \<Longrightarrow> disciplined ant f Q (k x) K'"
  shows "disciplined ant f Q (and_do (updateTask_p ant i u) k) K"
proof -
  have o: "owner (updated_task u i t) = owner t" for t using assms(1) by (simp add: updated_task_def)
  show ?thesis
    using assms(2-6)
    by (auto simp: updateTask_p_def getTask_p_def updateTaskUnsafe_p_def releasing_def and_do_assoc learn_def owner_in_def
        forget_lock_def o split: option.splits)
qed

lemma claim_disciplined: "disciplined ant f (good_result f) (op_prog ant (PlainClaim i agent)) nothing_known"
proof -
  have o: "owner (updated_task (no_updates\<lparr>u_owner := Some (Some agent)\<rparr>) i t) = Some agent" for t
    by (simp add: updated_task_def no_updates_def)
  show ?thesis
    by (auto simp: claimTask_p_def getTask_p_def updateTaskUnsafe_p_def releasing_def and_do_assoc disciplined_list
        nothing_known_def learn_def owner_in_def forget_lock_def good_result_def o nonempty_text_def
        split: option.splits)
qed

text \<open>The identifier of a new task is not the name of a file that was listed.\<close>

lemma highest_names:
  assumes "f \<in> set (map fst (task_files d))" "is_json_file f" "parseInt10 (drop_ext f) = Some n"
  shows "n \<le> findHighestTaskIdFromFiles d"
proof -
  let ?step = "\<lambda>highest f. if \<not> is_json_file f then highest
    else (case parseInt10 (drop_ext f) of None \<Rightarrow> highest | Some n \<Rightarrow> if n > highest then n else highest)"
  have "f \<in> set fs \<Longrightarrow> n \<le> foldl ?step 0 fs" for fs
  proof (induction fs rule: rev_induct)
    case (snoc g fs)
    show ?case
    proof (cases "f = g")
      case True
      then show ?thesis using assms(2,3) by simp
    next
      case False
      then have "n \<le> foldl ?step 0 fs" using snoc by simp
      then show ?thesis by (auto split: option.splits)
    qed
  qed simp
  then show ?thesis using assms(1) by (simp add: findHighestTaskIdFromFiles_def)
qed

lemma highest_nonneg: "0 \<le> findHighestTaskIdFromFiles d"
proof -
  let ?step = "\<lambda>highest f. if \<not> is_json_file f then highest
    else (case parseInt10 (drop_ext f) of None \<Rightarrow> highest | Some n \<Rightarrow> if n > highest then n else highest)"
  have "0 \<le> foldl ?step 0 fs" for fs
    by (induction fs rule: rev_induct) (auto split: option.splits)
  then show ?thesis by (simp add: findHighestTaskIdFromFiles_def)
qed

lemma fresh_absent:
  "getTaskPath (int_string (findHighestTaskId d + 1)) \<notin> set (map fst (task_files d))"
proof
  define n where "n = nat (findHighestTaskId d + 1)"
  have n: "findHighestTaskId d + 1 = int n" using highest_nonneg [of d] by (simp add: n_def findHighestTaskId_def)
  assume "getTaskPath (int_string (findHighestTaskId d + 1)) \<in> set (map fst (task_files d))"
  then have "id_file n \<in> set (map fst (task_files d))" by (simp only: n int_string_nat path_decimal)
  then have "int n \<le> findHighestTaskIdFromFiles d" by (rule highest_names) simp_all
  then show False using n by (simp add: findHighestTaskId_def)
qed

lemma create_disciplined: "disciplined ant f (good_result f) (op_prog ant (PlainCreate markFirst data)) nothing_known"
proof -
  let ?d = "\<lambda>names mark. \<lparr>task_files = map (\<lambda>f. (f, OtherFile)) names, highWaterMark = mark\<rparr>"
  have absent: "getTaskPath (int_string (findHighestTaskId (?d names mark) + 1)) \<notin> set names" for names mark
    using fresh_absent [of "?d names mark"] by (simp add: image_image)
  show ?thesis
    using absent
    by (auto simp: createTask_p_def releasing_def nothing_known_def forget_lock_def good_result_def Let_def split: if_splits)
qed

lemma block_disciplined: "disciplined ant (getTaskPath j) (good_result (getTaskPath j)) (op_prog ant (PlainBlock f t)) nothing_known"
  by (auto simp: blockTask_p_def read_all_def Let_def and_do_assoc nothing_known_def good_result_def no_updates_def
      intro!: disciplined_update split: option.splits)

lemma update_disciplined:
  "disciplined ant (getTaskPath j) (good_result (getTaskPath j)) (op_prog ant (PlainUpdate i u)) nothing_known"
  by (auto simp: nothing_known_def good_result_def intro!: disciplined_update)

lemma ops_disciplined: "disciplined ant (getTaskPath j) (good_result (getTaskPath j)) (op_prog ant c) nothing_known"
  using claim_disciplined create_disciplined block_disciplined update_disciplined by (cases c) (simp_all only:)

section \<open>Claims are exclusive, identifiers are new\<close>

lemma pool_result:
  assumes "s = foldl pool_step (map (op_prog ant) ops, w) evs"
  obtains Ks where "\<And>p r. p < length (fst s) \<Longrightarrow> fst s ! p = Return r \<Longrightarrow> good_result (getTaskPath j) r (Ks ! p) \<and>
      known ant (getTaskPath j) p (snd s) (Ks ! p)"
    "\<And>p q. p < length (fst s) \<Longrightarrow> q < length (fst s) \<Longrightarrow> made (Ks ! p) \<Longrightarrow> made (Ks ! q) \<Longrightarrow> p = q"
proof -
  let ?Q = "good_result (getTaskPath j)"
  have "pool_ok ant (getTaskPath j) ?Q s"
    unfolding assms by (intro pool.run_inv pool_start) (auto simp: ops_disciplined)
  then obtain Ks where Ks: "length Ks = length (fst s)"
      "\<forall>p<length Ks. disciplined ant (getTaskPath j) ?Q (fst s ! p) (Ks ! p) \<and> known ant (getTaskPath j) p (snd s) (Ks ! p)"
      "\<forall>p<length Ks. \<forall>q<length Ks. made (Ks ! p) \<longrightarrow> made (Ks ! q) \<longrightarrow> p = q"
    by (auto simp: pool_ok_def)
  show ?thesis
  proof (rule that [of Ks])
    show "good_result (getTaskPath j) r (Ks ! p) \<and> known ant (getTaskPath j) p (snd s) (Ks ! p)"
      if "p < length (fst s)" "fst s ! p = Return r" for p r
      using Ks(1,2) that by (metis disciplined.simps(1))
    show "p = q" if "p < length (fst s)" "q < length (fst s)" "made (Ks ! p)" "made (Ks ! q)" for p q
      using Ks(1,3) that by metis
  qed
qed

text \<open>
  C13: However plain claims (those without the check for other tasks of the agent) by several agents
  interleave with each other and with creations, links and updates that leave the owner alone, in
  whatever directory, two claims of one task by agents with a name that both succeed are claims of the
  same agent.
\<close>

theorem claims_exclusive:
  assumes "s = foldl pool_step (map (op_prog ant) ops, w) evs" "p < length ops" "q < length ops"
    and "fst s ! p = Return (ClaimResult i a (Claimed t))" "fst s ! q = Return (ClaimResult i b (Claimed u))"
    and "a \<noteq> []" "b \<noteq> []"
  shows "a = b"
proof -
  obtain Ks where Ks: "\<And>p r. p < length (fst s) \<Longrightarrow> fst s ! p = Return r \<Longrightarrow> good_result (getTaskPath i) r (Ks ! p) \<and>
      known ant (getTaskPath i) p (snd s) (Ks ! p)"
    using pool_result [OF assms(1), of i] by metis
  have len: "p < length (fst s)" "q < length (fst s)" using assms(1-3) by simp_all
  have "owner_in ant (file_at (snd s) (getTaskPath i)) = Some (Some a)"
    using Ks [OF len(1) assms(4)] assms(6) by (auto simp: good_result_def known_def)
  moreover have "owner_in ant (file_at (snd s) (getTaskPath i)) = Some (Some b)"
    using Ks [OF len(2) assms(5)] assms(7) by (auto simp: good_result_def known_def)
  ultimately show ?thesis by simp
qed

text \<open>
  C16: Creations that run at the same time get different identifiers, however they interleave, also with
  claims, links and updates.
\<close>

theorem creations_distinct:
  assumes "s = foldl pool_step (map (op_prog ant) ops, w) evs" "p < length ops" "q < length ops" "p \<noteq> q"
    and "fst s ! p = Return (CreateResult (Some i))" "fst s ! q = Return (CreateResult (Some j))"
  shows "i \<noteq> j"
proof
  assume "i = j"
  obtain Ks where Ks: "\<And>p r. p < length (fst s) \<Longrightarrow> fst s ! p = Return r \<Longrightarrow> good_result (getTaskPath i) r (Ks ! p) \<and>
      known ant (getTaskPath i) p (snd s) (Ks ! p)"
    "\<And>p q. p < length (fst s) \<Longrightarrow> q < length (fst s) \<Longrightarrow> made (Ks ! p) \<Longrightarrow> made (Ks ! q) \<Longrightarrow> p = q"
    using pool_result [OF assms(1), of i] by metis
  have len: "p < length (fst s)" "q < length (fst s)" using assms(1-3) by simp_all
  have "made (Ks ! p)" "made (Ks ! q)"
    using Ks(1) [OF len(1) assms(5)] Ks(1) [OF len(2) assms(6)] \<open>i = j\<close> by (auto simp: good_result_def)
  then show False using Ks(2) [OF len] assms(4) by blast
qed

section \<open>A process alone\<close>

text \<open>
  A process that no other disturbs: readings under way finish in their order, and a lock that is taken is
  given up.  The run is one of the runs of the scheduler.
\<close>

primrec alone :: "nat \<Rightarrow> 'r prog \<Rightarrow> task_world \<Rightarrow> 'r \<times> task_world" where
  "alone p (Return r) = (\<lambda>w. (r, w))"
| "alone p (ReadFile f c) = (\<lambda>w. alone p (c (file_at w f)) w)"
| "alone p (ReadAll fs got c) = (\<lambda>w. alone p (c (got @ map (\<lambda>(k, f). (k, file_at w f)) fs)) w)"
| "alone p (ReadDir c) = (\<lambda>w. alone p (c (map fst (task_files (dir w)))) w)"
| "alone p (WriteFile f s q) = (\<lambda>w. alone p q (w\<lparr>dir := put_file f s (dir w)\<rparr>))"
| "alone p (Unlink f c) = (\<lambda>w. alone p (c (file_at w f \<noteq> None)) (w\<lparr>dir := unlink_task f (dir w)\<rparr>))"
| "alone p (ReadMark c) = (\<lambda>w. alone p (c (highWaterMark (dir w))) w)"
| "alone p (WriteMark s q) = (\<lambda>w. alone p q (w\<lparr>dir := (dir w)\<lparr>highWaterMark := Some s\<rparr>\<rparr>))"
| "alone p (Lock f c) = (\<lambda>w.
     if f \<noteq> list_lock \<and> file_at w f = None \<or> locked w f \<noteq> None then alone p (c False) w
     else alone p (c True) (w\<lparr>locked := (locked w)(f := Some p)\<rparr>))"
| "alone p (Unlock f q) = (\<lambda>w. alone p q (w\<lparr>locked := (locked w)(f := None)\<rparr>))"

lemma alone_and_do: "alone p (and_do c k) w = (case alone p c w of (x, w') \<Rightarrow> alone p (k x) w')"
  by (induction c arbitrary: w) simp_all

definition reaches :: "nat \<Rightarrow> 'r prog \<times> task_world \<Rightarrow> 'r prog \<times> task_world \<Rightarrow> bool" where
  "reaches p s t \<longleftrightarrow> (\<exists>choices. foldl (\<lambda>s choice. prog_step p choice (fst s) (snd s)) s choices = t)"

lemma reaches_refl [simp]: "reaches p s s"
  unfolding reaches_def by (rule exI [of _ "[]"]) simp

lemma reaches_step: "reaches p (prog_step p choice c w) t \<Longrightarrow> reaches p (c, w) t"
  unfolding reaches_def
proof (elim exE)
  fix choices assume "foldl (\<lambda>s choice. prog_step p choice (fst s) (snd s)) (prog_step p choice c w) choices = t"
  then show "\<exists>choices. foldl (\<lambda>s choice. prog_step p choice (fst s) (snd s)) (c, w) choices = t"
    by (intro exI [of _ "choice # choices"]) simp
qed

lemma reaches_read_all:
  "reaches p (c (got @ map (\<lambda>(k, f). (k, file_at w f)) fs), w) t \<Longrightarrow> reaches p (ReadAll fs got c, w) t"
proof (induction fs arbitrary: got)
  case Nil
  then show ?case by (intro reaches_step [of p 0]) simp
next
  case (Cons x fs)
  then have "reaches p (ReadAll fs (got @ [(fst x, file_at w (snd x))]) c, w) t"
    by (intro Cons.IH) (simp add: case_prod_beta)
  then show ?case by (intro reaches_step [of p 0]) (simp add: Let_def)
qed

lemma alone_is_a_run: "reaches p (c, w) (Return (fst (alone p c w)), snd (alone p c w))"
proof (induction c arbitrary: w)
  case (ReadAll fs got c)
  show ?case by (rule reaches_read_all) (use ReadAll in simp)
next
  case (Lock f c)
  show ?case
  proof (cases "f \<noteq> list_lock \<and> file_at w f = None \<or> locked w f \<noteq> None")
    case True
    show ?thesis by (rule reaches_step [of p 0]) (use True Lock [of "c False" w] in auto)
  next
    case False
    show ?thesis by (rule reaches_step [of p 1]) (use False Lock [of "c True"] in auto)
  qed
qed (rule reaches_step [of p 0]; simp; fail | simp)+

text \<open>What the program of an operation does alone, with all locks free.\<close>

abbreviation free :: "task_dir \<Rightarrow> task_world" where
  "free d \<equiv> \<lparr>dir = d, locked = (\<lambda>_. None)\<rparr>"

lemma unlock_free [simp]: "(\<lambda>_. None)(f := None) = (\<lambda>_. None)" "((\<lambda>_. None)(f := x, f := None)) = (\<lambda>_. None)"
  by auto

lemma getTask_alone [simp]: "alone p (getTask_p ant i) w = (getTask ant (dir w) i, w)"
  by (simp add: getTask_p_def getTask_def file_at_def)

lemma write_put: "write_task i t d = put_file (getTaskPath i) (stored_task t) d"
  by (simp add: write_task_def put_file_def stored_task_def)

lemma updateUnsafe_alone:
  "alone p (updateTaskUnsafe_p ant i u) w =
     (let (t, d) = updateTaskUnsafe ant i u (dir w) in (t, w\<lparr>dir := d\<rparr>))"
  by (simp add: updateTaskUnsafe_p_def updateTaskUnsafe_def alone_and_do write_put Let_def split: option.split)

lemma getTask_file: "getTask ant d i = Some t \<Longrightarrow> map_of (task_files d) (getTaskPath i) \<noteq> None"
  by (auto simp: getTask_def bind_eq_Some_conv)

lemma update_alone:
  "locked w (getTaskPath i) = None \<Longrightarrow>
     alone p (updateTask_p ant i u) w = (let (t, d) = updateTask ant i u (dir w) in (Some t, w\<lparr>dir := d\<rparr>))"
  by (cases "getTask ant (dir w) i")
    (auto simp: updateTask_p_def updateTask_def alone_and_do releasing_def updateUnsafe_alone file_at_def Let_def
      case_prod_beta fun_upd_idem dest: getTask_file)

lemma list_alone [simp]: "alone p (listTasks_p ant) w = (listTasks ant (dir w), w)"
proof -
  let ?paths = "task_paths (map fst (task_files (dir w)))"
  let ?got = "map (\<lambda>(k, f). (k, file_at w f)) (zip [0..<length ?paths] ?paths)"
  have map: "map fst ?got = [0..<length ?paths]" by (simp add: comp_def case_prod_beta)
  have got: "task_read ant ?got k = Option.bind (file_at w (?paths ! k)) (read_task ant)" if "k < length ?paths" for k
  proof -
    have "(k, file_at w (?paths ! k)) \<in> set ?got" using that by (force simp: set_zip)
    then have "map_of ?got k = Some (file_at w (?paths ! k))" using map by (metis distinct_upt map_of_is_SomeI)
    then show ?thesis by (simp add: task_read_def)
  qed
  have "List.map_filter (task_read ant ?got) [0..<length ?paths] =
      List.map_filter (\<lambda>f. Option.bind (file_at w f) (read_task ant)) ?paths"
  proof -
    have "List.map_filter (task_read ant ?got) [0..<length ?paths] =
        List.map_filter (\<lambda>k. Option.bind (file_at w (?paths ! k)) (read_task ant)) [0..<length ?paths]"
      unfolding List.map_filter_def using got by (auto intro!: map_cong filter_cong arg_cong [of _ _ "map _"])
    also have "\<dots> = List.map_filter (\<lambda>f. Option.bind (file_at w f) (read_task ant)) (map ((!) ?paths) [0..<length ?paths])"
      by (simp add: List.map_filter_def filter_map comp_def)
    finally show ?thesis by (simp add: map_nth)
  qed
  moreover have "List.map_filter (\<lambda>f. Option.bind (file_at w f) (read_task ant)) ?paths = listTasks ant (dir w)"
    by (simp add: listTasks_def task_paths_def List.map_filter_def filter_map comp_def getTask_def file_at_def)
  ultimately show ?thesis by (simp add: listTasks_p_def read_all_def)
qed

lemma releasing_alone:
  "alone p (releasing f c) w = (case alone p c w of (x, w') \<Rightarrow> (x, w'\<lparr>locked := (locked w')(f := None)\<rparr>))"
  by (simp add: releasing_def alone_and_do case_prod_beta)

lemma free_simps [simp]:
  "dir (free d) = d" "locked (free d) = (\<lambda>_. None)" "file_at (free d) f = map_of (task_files d) f"
  by (simp_all add: file_at_def)

text \<open>In the list of the tasks the one with an identifier is what reading it gives, in a directory the program wrote.\<close>

lemma claim_busy_alone:
  "alone p (claimTaskWithBusyCheck_p ant i agent) (free d) =
     (let (r, d') = claimTaskWithBusyCheck ant i agent d in (r, free d'))"
  by (auto simp: claimTaskWithBusyCheck_p_def claimTaskWithBusyCheck_def releasing_alone alone_and_do update_alone Let_def
      case_prod_beta split: option.splits)

lemma claim_alone:
  "alone p (claimTask_p ant i agent busy) (free d) = (let (r, d') = claimTask ant i agent busy d in (r, free d'))"
proof (cases "getTask ant d i")
  case None
  then show ?thesis by (simp add: claimTask_p_def claimTask_def alone_and_do)
next
  case (Some t)
  then have there: "map_of (task_files d) (getTaskPath i) \<noteq> None" by (rule getTask_file)
  show ?thesis
  proof (cases busy)
    case True
    then show ?thesis by (simp add: claimTask_p_def claimTask_def alone_and_do Some claim_busy_alone)
  next
    case False
    then show ?thesis
      using there
      by (auto simp: claimTask_p_def claimTask_def alone_and_do Some releasing_alone updateUnsafe_alone claim_refusal_def
          Let_def case_prod_beta split: option.splits if_splits)
  qed
qed

lemma create_alone:
  "alone p (createTask_p markFirst data) (free d) = (let (i, d') = createTask data d in (Some i, free d'))"
proof -
  have "findHighestTaskId \<lparr>task_files = map (\<lambda>f. (f, OtherFile)) (map fst (task_files d)), highWaterMark = highWaterMark d\<rparr> =
      findHighestTaskId d"
    by (simp add: findHighestTaskId_def findHighestTaskIdFromFiles_def readHighWaterMark_def comp_def)
  then show ?thesis
    by (cases markFirst) (simp_all add: createTask_p_def createTask_def releasing_alone write_put Let_def)
qed

lemma drop_references_alone:
  "locked w = (\<lambda>_. None) \<Longrightarrow>
     alone p (drop_references_p ant i ts) w = (True, w\<lparr>dir := foldl (drop_reference ant i) (dir w) ts\<rparr>)"
  by (induction ts arbitrary: w) (simp_all add: drop_reference_def alone_and_do update_alone Let_def case_prod_beta)

lemma mark_value: "mark_value (highWaterMark d) = readHighWaterMark d"
  by (simp add: mark_value_def readHighWaterMark_def)

lemma delete_alone: "alone p (deleteTask_p ant i) (free d) = (let (ok, d') = deleteTask ant i d in (ok, free d'))"
proof -
  have "alone p (raise_mark_p i c) (free d) = alone p c (free (raise_mark i d))" for c :: "bool prog"
    by (simp add: raise_mark_p_def raise_mark_def mark_value writeHighWaterMark_def split: option.split)
  then show ?thesis
    by (simp add: deleteTask_p_def deleteTask_def alone_and_do drop_references_alone Let_def)
      (simp add: unlink_task_def map_of_eq_None_iff delete_id)
qed

lemma unlink_all_alone:
  "alone p (unlink_all fs c) w = alone p c (w\<lparr>dir := foldl (\<lambda>d f. unlink_task f d) (dir w) fs\<rparr>)"
  by (induction fs arbitrary: w) simp_all

lemma unlink_fold:
  "foldl (\<lambda>d f. unlink_task f d) d fs = d\<lparr>task_files := filter (\<lambda>x. fst x \<notin> set fs) (task_files d)\<rparr>"
proof (induction fs rule: rev_induct)
  case (snoc f fs)
  have "filter (\<lambda>x. f \<noteq> fst x \<and> fst x \<notin> set fs) xs = filter (\<lambda>x. fst x \<notin> set (fs @ [f])) xs"
    for xs :: "(string \<times> stored_file) list" by (rule filter_cong) auto
  then show ?case using snoc by (simp add: unlink_task_def AList.delete_eq case_prod_beta conj_commute)
qed simp

lemma reset_alone: "alone p resetTaskList_p (free d) = (True, free (resetTaskList d))"
proof -
  let ?gone = "\<lambda>f. is_json_file f \<and> \<not> starts_with ''.'' f"
  have clear: "foldl (\<lambda>d f. unlink_task f d) d' (filter ?gone (map fst (task_files d'))) =
      d'\<lparr>task_files := filter (\<lambda>(f, _). \<not> ?gone f) (task_files d')\<rparr>" for d'
    unfolding unlink_fold
    by (rule arg_cong [of _ _ "\<lambda>xs. d'\<lparr>task_files := xs\<rparr>"]) (force intro!: filter_cong)
  have "findHighestTaskIdFromFiles \<lparr>task_files = map (\<lambda>f. (f, OtherFile)) (map fst (task_files d)), highWaterMark = None\<rparr> =
      findHighestTaskIdFromFiles d"
    by (simp add: findHighestTaskIdFromFiles_def comp_def)
  then show ?thesis
    by (simp add: resetTaskList_p_def resetTaskList_def releasing_alone unlink_all_alone clear mark_value Let_def
        writeHighWaterMark_def del: filter_map)
qed

lemma block_alone: "alone p (blockTask_p ant f t) (free d) = (let (ok, d') = blockTask ant f t d in (Some ok, free d'))"
proof -
  have read: "task_read ant [(0, file_at (free d) (getTaskPath f)), (Suc 0, file_at (free d) (getTaskPath t))] 0 = getTask ant d f"
    "task_read ant [(0, file_at (free d) (getTaskPath f)), (Suc 0, file_at (free d) (getTaskPath t))] (Suc 0) = getTask ant d t"
    by (simp_all add: task_read_def getTask_def)
  show ?thesis
    by (simp add: blockTask_p_def blockTask_def read_all_def read [simplified] alone_and_do update_alone Let_def case_prod_beta
        split: option.split)
qed

text \<open>
  C17: The program of every operation, run alone with all locks free, does what the operation does in one
  step, and gives every lock back: the interleaved model refines the sequential one.
\<close>

theorem operations_refine:
  "alone p (createTask_p markFirst data) (free d) = (let (i, d') = createTask data d in (Some i, free d')) \<and>
   alone p (updateTask_p ant i u) (free d) = (let (t, d') = updateTask ant i u d in (Some t, free d')) \<and>
   alone p (claimTask_p ant i agent busy) (free d) = (let (r, d') = claimTask ant i agent busy d in (r, free d')) \<and>
   alone p (deleteTask_p ant i) (free d) = (let (ok, d') = deleteTask ant i d in (ok, free d')) \<and>
   alone p (blockTask_p ant i j) (free d) = (let (ok, d') = blockTask ant i j d in (Some ok, free d')) \<and>
   alone p resetTaskList_p (free d) = (True, free (resetTaskList d))"
  using create_alone [of p markFirst data d] update_alone [of "free d" i p ant u] claim_alone [of p ant i agent busy d]
    delete_alone [of p ant i d] block_alone [of p ant i j d] reset_alone [of p d]
  by (simp add: Let_def case_prod_beta)

section \<open>What the locks do not cover\<close>

definition results :: "'r prog list \<Rightarrow> 'r option list" where
  "results = map (\<lambda>c. case c of Return r \<Rightarrow> Some r | _ \<Rightarrow> None)"

text \<open>A directory with one open task.\<close>

definition one_task :: task where
  "one_task = \<lparr>task_id = ''1'', subject = ''s'', description = [], activeForm = None, owner = None,
     task_status = TaskPending, blocks = [], blockedBy = [], metadata = None\<rparr>"

definition one_task_dir :: task_dir where
  "one_task_dir = \<lparr>task_files = [(''1.json'', stored_task one_task)], highWaterMark = None\<rparr>"

text \<open>
  The claim with the check of the agent holds the lock of the list, a plain one that of the task: the first
  reads the tasks, the second claims, and the first writes its owner over it.  Both report success.
\<close>

definition mixed_claims :: "claim_result prog list \<times> task_world" where
  "mixed_claims =
     foldl pool_step ([claimTask_p False ''1'' ''a'' True, claimTask_p False ''1'' ''b'' False], free one_task_dir)
       (replicate 5 (0, 1) @ replicate 20 (1, 1) @ replicate 20 (0, 1))"

lemma mixed_claims_both_succeed:
  "(case fst mixed_claims of [Return (Claimed (Some t)), Return (Claimed (Some u))] \<Rightarrow>
      owner t = Some ''a'' \<and> owner u = Some ''b'' | _ \<Rightarrow> False)"
  by code_simp

text \<open>
  Deletions read and raise the mark of the highest identifier without a lock: the second writes a lower
  mark over the first one's, and the identifier 2 is given again.
\<close>

definition two_task_dir :: task_dir where
  "two_task_dir = \<lparr>task_files = [(''1.json'', stored_task one_task), (''2.json'', stored_task (one_task\<lparr>task_id := ''2''\<rparr>))],
     highWaterMark = None\<rparr>"

definition racing_deletions :: "bool prog list \<times> task_world" where
  "racing_deletions =
     foldl pool_step ([deleteTask_p False ''2'', deleteTask_p False ''1''], free two_task_dir)
       ([(0, 1), (1, 1)] @ replicate 20 (0, 1) @ replicate 20 (1, 1))"

lemma racing_deletions_reuse:
  "results (fst racing_deletions) = [Some True, Some True] \<and>
   fst (createTask one_task (dir (snd racing_deletions))) = ''2''"
  by code_simp

text \<open>A deletion does not take the lock of the task: an update that has read the task writes it back.\<close>

definition deletion_and_update :: "bool prog list \<times> task_world" where
  "deletion_and_update =
     foldl pool_step
       ([deleteTask_p False ''1'', with_result (updateTask_p False ''1'' (no_updates\<lparr>u_subject := Some ''t''\<rparr>)) (\<lambda>r. r \<noteq> None)],
        free one_task_dir)
       (replicate 3 (1, 1) @ replicate 20 (0, 1) @ replicate 20 (1, 1))"

lemma deleted_task_returns:
  "results (fst deletion_and_update) = [Some True, Some True] \<and> getTask False (dir (snd deletion_and_update)) ''1'' \<noteq> None"
  by code_simp

end
