(* ===== verification/Task_Examples.thy ===== *)
theory Task_Examples
  imports Task_Lock_Laws
begin

text \<open>The properties of the task list at concrete sessions and schedules.\<close>

definition linked_session :: "task_op list" where
  "linked_session = [CreateOp ''a'' [] None None, CreateOp ''b'' [] None None, CreateOp ''c'' [] None None,
     BlockOp ''1'' ''2'', DeleteOp ''3'']"

abbreviation linked_dir :: task_dir where "linked_dir \<equiv> fst (task_session False linked_session)"

lemma linked_tasks:
  "map_option (\<lambda>t. (blocks t, blockedBy t)) (getTask False linked_dir ''1'') = Some ([''2''], [])"
  "map_option (\<lambda>t. (blocks t, blockedBy t)) (getTask False linked_dir ''2'') = Some ([], [''1''])"
  "getTask False linked_dir ''3'' = None"
  by code_simp+

lemma references_mirror_witness:
  "\<exists>t. getTask False linked_dir ''1'' = Some t \<and>
     ''2'' \<in> set (blocks t) \<and> (\<exists>u. getTask False linked_dir ''2'' = Some u \<and> ''1'' \<in> set (blockedBy u))"
proof -
  obtain t where t: "getTask False linked_dir ''1'' = Some t" "blocks t = [''2'']"
    using linked_tasks(1) by auto
  have "''2'' \<in> set (blocks t) \<longleftrightarrow> (\<exists>u. getTask False linked_dir ''2'' = Some u \<and> ''1'' \<in> set (blockedBy u))"
    using references_mirror [OF refl t(1), of "''2''"] by (rule conjunct1)
  then show ?thesis using t by (intro exI [of _ t]) simp
qed

definition first_claim :: "claim_result \<times> task_dir" where
  "first_claim = claimTask False ''1'' ''a'' True linked_dir"

lemma claim_exact_witness:
  "(case getTask False linked_dir ''1'' of
      Some t \<Rightarrow> fst first_claim = Claimed (Some (claimed_by ''a'' t)) | None \<Rightarrow> False)"
proof -
  obtain t where t: "getTask False linked_dir ''1'' = Some t" using linked_tasks(1) by auto
  have "case fst first_claim of Claimed _ \<Rightarrow> True | _ \<Rightarrow> False" by code_simp
  then have "\<exists>x. fst first_claim = Claimed x" by (simp split: claim_result.splits)
  moreover have "claimTask False ''1'' ''a'' True linked_dir = (fst first_claim, snd first_claim)"
    by (simp add: first_claim_def)
  note claim_exact [OF refl this, unfolded t, simplified]
  ultimately show ?thesis by (auto simp: t split: if_splits)
qed

definition two_open :: "task list" where
  "two_open = [one_task\<lparr>task_id := ''2'', blockedBy := [''1'']\<rparr>, one_task]"

lemma available_task_found_witness: "findAvailableTask two_open \<noteq> None"
proof (rule available_task_found)
  have "waits_for two_open = {(''2'', ''1'')}"
    by (auto simp: waits_for_def two_open_def one_task_def)
  moreover have "acyclic {(''2'' :: string, ''1'' :: string)}" by (auto simp: acyclic_def trancl_insert)
  ultimately show "acyclic (waits_for two_open)" by simp
qed (simp_all add: two_open_def one_task_def nonempty_text_def)

text \<open>A task that is linked to itself waits for itself: it is never available.\<close>

lemma self_link:
  "(let d = snd (blockTask False ''1'' ''1'' one_task_dir)
    in fst (blockTask False ''1'' ''1'' one_task_dir) \<and> findAvailableTask (listTasks False d) = None)"
  by code_simp

definition claimed_as :: "op_result prog \<Rightarrow> (string \<times> string) option" where
  "claimed_as r = (case r of Return (ClaimResult i a (Claimed _)) \<Rightarrow> Some (i, a) | _ \<Rightarrow> None)"

lemma claimed_asD: "claimed_as r = Some (i, a) \<Longrightarrow> \<exists>t. r = Return (ClaimResult i a (Claimed t))"
  by (auto simp: claimed_as_def split: prog.splits op_result.splits claim_result.splits)

definition created_id :: "op_result prog \<Rightarrow> string option" where
  "created_id r = (case r of Return (CreateResult i) \<Rightarrow> i | _ \<Rightarrow> None)"

lemma created_idD: "created_id r = Some i \<Longrightarrow> r = Return (CreateResult (Some i))"
  by (auto simp: created_id_def split: prog.splits op_result.splits)

text \<open>Two claims of one agent, and two creations, that interleave.\<close>

definition claims_run :: "op_result prog list \<times> task_world" where
  "claims_run = foldl pool_step (map (op_prog False) [PlainClaim ''1'' ''a'', PlainClaim ''1'' ''a''], free one_task_dir)
     (concat (replicate 20 [(0, 1), (1, 1)]) @ replicate 20 (1, 1))"

lemma claims_exclusive_witness:
  "\<exists>t u. fst claims_run ! 0 = Return (ClaimResult ''1'' ''a'' (Claimed t)) \<and>
     fst claims_run ! 1 = Return (ClaimResult ''1'' ''a'' (Claimed u)) \<and> ''a'' = (''a'' :: string)"
proof -
  have "map claimed_as (fst claims_run) = [Some (''1'', ''a''), Some (''1'', ''a'')]" by code_simp
  then have "claimed_as (fst claims_run ! 0) = Some (''1'', ''a'')" "claimed_as (fst claims_run ! 1) = Some (''1'', ''a'')"
    by (auto simp: map_eq_Cons_conv)
  then obtain t u where r: "fst claims_run ! 0 = Return (ClaimResult ''1'' ''a'' (Claimed t))"
      "fst claims_run ! 1 = Return (ClaimResult ''1'' ''a'' (Claimed u))"
    using claimed_asD by metis
  moreover have "''a'' = (''a'' :: string)"
    by (rule claims_exclusive [OF claims_run_def _ _ r]) simp_all
  ultimately show ?thesis by blast
qed

definition creations_run :: "op_result prog list \<times> task_world" where
  "creations_run = foldl pool_step (map (op_prog False) [PlainCreate False one_task, PlainCreate True one_task], free one_task_dir)
     (concat (replicate 20 [(0, 1), (1, 1)]))"

lemma creations_distinct_witness:
  "\<exists>i j. fst creations_run ! 0 = Return (CreateResult (Some i)) \<and>
     fst creations_run ! 1 = Return (CreateResult (Some j)) \<and> i \<noteq> j"
proof -
  have "list_all (\<lambda>r. created_id r \<noteq> None) (fst creations_run) \<and> length (fst creations_run) = 2" by code_simp
  then have "created_id (fst creations_run ! 0) \<noteq> None" "created_id (fst creations_run ! 1) \<noteq> None"
    by (auto simp: list_all_length)
  then obtain i j where r: "fst creations_run ! 0 = Return (CreateResult (Some i))"
      "fst creations_run ! 1 = Return (CreateResult (Some j))"
    using created_idD by blast
  then have "i \<noteq> j" by (rule creations_distinct [OF creations_run_def, of 0 1, rotated 3]) simp_all
  then show ?thesis using r by blast
qed

text \<open>All watchers of a task list claim in its name, so the claim does not keep them apart.\<close>

lemma same_name_claims_twice:
  "(case claims_run of (ps, _) \<Rightarrow> list_all (\<lambda>r. case r of Some (ClaimResult _ _ (Claimed _)) \<Rightarrow> True | _ \<Rightarrow> False) (results ps))"
  by code_simp

end
