(* ===== verification/Mailbox.thy ===== *)
theory Mailbox
  imports Task_List Permission_Updates
begin

text \<open>
  The messages between the agents of a team: who the agent of a session is (\<open>src/utils/teammate.ts\<close>),
  the inbox files (\<open>src/utils/teammateMailbox.ts\<close>) and the agent that waits for its next prompt
  (\<open>src/utils/swarm/inProcessRunner.ts\<close>).  Every operation on an inbox is one step here;
  \<open>Mailbox_Locks\<close> interleaves them.
\<close>

section \<open>Identity\<close>

record team_identity =
  identity_id :: string
  identity_name :: string
  identity_team :: string
  identity_color :: "string option"

record team_env =
  teammateContext :: "team_identity option"
  dynamicTeamContext :: "team_identity option"

definition isInProcessTeammate :: "team_env \<Rightarrow> bool" where
  "isInProcessTeammate e \<longleftrightarrow> teammateContext e \<noteq> None"

definition identity_field :: "(team_identity \<Rightarrow> 'a) \<Rightarrow> team_env \<Rightarrow> 'a option" where
  "identity_field f e =
     (case teammateContext e of Some c \<Rightarrow> Some (f c) | None \<Rightarrow> map_option f (dynamicTeamContext e))"

definition getAgentId :: "team_env \<Rightarrow> string option" where "getAgentId = identity_field identity_id"

definition getAgentName :: "team_env \<Rightarrow> string option" where "getAgentName = identity_field identity_name"

definition getTeammateColor :: "team_env \<Rightarrow> string option" where
  "getTeammateColor e = Option.bind (identity_field identity_color e) id"

definition getTeamName :: "team_env \<Rightarrow> string option \<Rightarrow> string option" where
  "getTeamName e teamContext =
     (case teammateContext e of
        Some c \<Rightarrow> Some (identity_team c)
      | None \<Rightarrow> (case dynamicTeamContext e of
            Some c \<Rightarrow> if identity_team c \<noteq> [] then Some (identity_team c) else teamContext
          | None \<Rightarrow> teamContext))"

definition isTeammate :: "team_env \<Rightarrow> bool" where
  "isTeammate e \<longleftrightarrow> teammateContext e \<noteq> None \<or>
     (case dynamicTeamContext e of Some c \<Rightarrow> identity_id c \<noteq> [] \<and> identity_team c \<noteq> [] | None \<Rightarrow> False)"

text \<open>The argument is the identifier of the leader in the context of the team, if there is one.\<close>

definition isTeamLead :: "team_env \<Rightarrow> string option \<Rightarrow> bool" where
  "isTeamLead e leadAgentId \<longleftrightarrow>
     (case leadAgentId of
        None \<Rightarrow> False
      | Some lead \<Rightarrow> lead \<noteq> [] \<and> (getAgentId e = Some lead \<or> \<not> nonempty_text (getAgentId e)))"

section \<open>Inboxes\<close>

record mail_item =
  sender :: string
  mail_text :: string
  timestamp :: string
  color :: "string option"
  summary :: "string option"

record teammate_message = mail_item +
  was_read :: bool

text \<open>A file that does not parse is read as an empty inbox, as is a missing one.\<close>

datatype inbox_file = Inbox "teammate_message list" | BrokenInbox

definition TEAM_LEAD_NAME :: string where "TEAM_LEAD_NAME = ''team-lead''"

text \<open>The directory of the team and the name of the file below the directory of all teams.\<close>

definition getInboxPath :: "team_env \<Rightarrow> string \<Rightarrow> string option \<Rightarrow> string \<times> string" where
  "getInboxPath e agentName teamName =
     (sanitizePathComponent (or_text teamName (or_text (getTeamName e None) ''default'')),
      sanitizePathComponent agentName @ json_ext)"

definition readMailbox :: "inbox_file option \<Rightarrow> teammate_message list" where
  "readMailbox f = (case f of Some (Inbox ms) \<Rightarrow> ms | _ \<Rightarrow> [])"

definition readUnreadMessages :: "inbox_file option \<Rightarrow> teammate_message list" where
  "readUnreadMessages f = filter (\<lambda>m. \<not> was_read m) (readMailbox f)"

definition new_message :: "mail_item \<Rightarrow> teammate_message" where
  "new_message m = mail_item.extend m \<lparr>was_read = False\<rparr>"

definition writeToMailbox :: "mail_item \<Rightarrow> inbox_file option \<Rightarrow> inbox_file option" where
  "writeToMailbox m f = Some (Inbox (readMailbox f @ [new_message m]))"

definition mark_read :: "teammate_message \<Rightarrow> teammate_message" where "mark_read m = m\<lparr>was_read := True\<rparr>"

text \<open>The updates of the inbox under its lock; \<open>None\<close> when nothing is written.\<close>

definition index_marked :: "int \<Rightarrow> teammate_message list \<Rightarrow> teammate_message list option" where
  "index_marked i ms =
     (if i < 0 \<or> int (length ms) \<le> i then None
      else if was_read (ms ! nat i) then None else Some (ms[nat i := mark_read (ms ! nat i)]))"

definition all_marked :: "teammate_message list \<Rightarrow> teammate_message list option" where
  "all_marked ms = (if ms = [] then None else Some (map mark_read ms))"

definition predicate_marked :: "(teammate_message \<Rightarrow> bool) \<Rightarrow> teammate_message list \<Rightarrow> teammate_message list option" where
  "predicate_marked P ms =
     (if ms = [] then None else Some (map (\<lambda>m. if \<not> was_read m \<and> P m then mark_read m else m) ms))"

text \<open>A lock on a file that is not there fails, and the error is caught.\<close>

definition update_inbox ::
  "(teammate_message list \<Rightarrow> teammate_message list option) \<Rightarrow> inbox_file option \<Rightarrow> inbox_file option" where
  "update_inbox g f =
     (case f of None \<Rightarrow> None
      | Some _ \<Rightarrow> (case g (readMailbox f) of None \<Rightarrow> f | Some ms \<Rightarrow> Some (Inbox ms)))"

definition markMessageAsReadByIndex :: "int \<Rightarrow> inbox_file option \<Rightarrow> inbox_file option" where
  "markMessageAsReadByIndex i = update_inbox (index_marked i)"

definition markMessagesAsRead :: "inbox_file option \<Rightarrow> inbox_file option" where
  "markMessagesAsRead = update_inbox all_marked"

definition markMessagesAsReadByPredicate :: "(teammate_message \<Rightarrow> bool) \<Rightarrow> inbox_file option \<Rightarrow> inbox_file option" where
  "markMessagesAsReadByPredicate P = update_inbox (predicate_marked P)"

definition clearMailbox :: "inbox_file option \<Rightarrow> inbox_file option" where
  "clearMailbox = map_option (\<lambda>_. Inbox [])"

text \<open>The text of messages in a prompt.\<close>

definition quoted_attr :: "string \<Rightarrow> string option \<Rightarrow> string" where
  "quoted_attr name x =
     (if nonempty_text x then '' '' @ name @ ''='' @ [CHR 0x22] @ or_text x [] @ [CHR 0x22] else [])"

definition format_message :: "mail_item \<Rightarrow> string" where
  "format_message m =
     ''<teammate-message teammate_id='' @ [CHR 0x22] @ sender m @ [CHR 0x22] @ quoted_attr ''color'' (color m) @
     quoted_attr ''summary'' (summary m) @ ''>'' @ [CHR 0x0A] @ mail_text m @ [CHR 0x0A] @ ''</teammate-message>''"

definition formatTeammateMessages :: "mail_item list \<Rightarrow> string" where
  "formatTeammateMessages ms = js_join [CHR 0x0A, CHR 0x0A] (map format_message ms)"

section \<open>Kinds of messages\<close>

text \<open>
  What the text of a message parses to, as far as it is looked at: an object of a protocol, in the shape of
  its type, or another object with a field \<open>type\<close>.  The parser, of JSON and of the schemas, is an argument.
  The response to a permission request is a rejection, or an approval with the updates of the permissions that
  the schema of updates accepts.
\<close>

datatype protocol_message =
    PermissionRequest string string
  | PermissionResponse string "permission_update list option"
  | SandboxPermissionRequest string "string option"
  | SandboxPermissionResponse string bool
  | ShutdownRequest
  | ShutdownApproved string
  | TeamPermissionUpdate "rule_value list option" "permission_behavior option"
  | ModeSetRequest string
  | PlanApprovalRequest
  | PlanApprovalResponse bool "permission_mode option"
  | IdleNotification string
  | OtherProtocol string

type_synonym mail_parser = "string \<Rightarrow> protocol_message option"

primrec protocol_type :: "protocol_message \<Rightarrow> string" where
  "protocol_type (PermissionRequest _ _) = ''permission_request''"
| "protocol_type (PermissionResponse _ _) = ''permission_response''"
| "protocol_type (SandboxPermissionRequest _ _) = ''sandbox_permission_request''"
| "protocol_type (SandboxPermissionResponse _ _) = ''sandbox_permission_response''"
| "protocol_type ShutdownRequest = ''shutdown_request''"
| "protocol_type (ShutdownApproved _) = ''shutdown_approved''"
| "protocol_type (TeamPermissionUpdate _ _) = ''team_permission_update''"
| "protocol_type (ModeSetRequest _) = ''mode_set_request''"
| "protocol_type PlanApprovalRequest = ''plan_approval_request''"
| "protocol_type (PlanApprovalResponse _ _) = ''plan_approval_response''"
| "protocol_type (IdleNotification _) = ''idle_notification''"
| "protocol_type (OtherProtocol ty) = ty"

definition isStructuredProtocolMessage :: "mail_parser \<Rightarrow> string \<Rightarrow> bool" where
  "isStructuredProtocolMessage parse s \<longleftrightarrow>
     (case parse s of None \<Rightarrow> False
      | Some x \<Rightarrow> protocol_type x \<in> set [''permission_request'', ''permission_response'', ''sandbox_permission_request'',
          ''sandbox_permission_response'', ''shutdown_request'', ''shutdown_approved'', ''team_permission_update'',
          ''mode_set_request'', ''plan_approval_request'', ''plan_approval_response''])"

definition isShutdownRequest :: "mail_parser \<Rightarrow> string \<Rightarrow> bool" where
  "isShutdownRequest parse s \<longleftrightarrow> parse s = Some ShutdownRequest"

definition isIdleNotification :: "mail_parser \<Rightarrow> string \<Rightarrow> string option" where
  "isIdleNotification parse s = (case parse s of Some (IdleNotification agent) \<Rightarrow> Some agent | _ \<Rightarrow> None)"

section \<open>The agent that waits for a prompt\<close>

text \<open>The first index that a condition holds of, as \<open>findIndex\<close> and the loops of the source find it.\<close>

definition first_index :: "('a \<Rightarrow> bool) \<Rightarrow> 'a list \<Rightarrow> nat option" where
  "first_index P xs = find (\<lambda>i. P (xs ! i)) [0..<length xs]"

definition shutdown_index :: "(string \<Rightarrow> bool) \<Rightarrow> teammate_message list \<Rightarrow> nat option" where
  "shutdown_index is_shutdown = first_index (\<lambda>m. \<not> was_read m \<and> is_shutdown (mail_text m))"

definition selected_index :: "teammate_message list \<Rightarrow> nat option" where
  "selected_index ms =
     (case first_index (\<lambda>m. \<not> was_read m \<and> sender m = TEAM_LEAD_NAME) ms of
        Some i \<Rightarrow> Some i
      | None \<Rightarrow> first_index (\<lambda>m. \<not> was_read m) ms)"

datatype wait_result =
    GotShutdown string
  | GotMessage string string "string option" "string option"
  | GotAborted

text \<open>The part of a round that looks into the inbox.\<close>

definition poll_mailbox :: "(string \<Rightarrow> bool) \<Rightarrow> inbox_file option \<Rightarrow> wait_result option \<times> inbox_file option" where
  "poll_mailbox is_shutdown f =
     (let ms = readMailbox f
      in case shutdown_index is_shutdown ms of
           Some i \<Rightarrow> (Some (GotShutdown (mail_text (ms ! i))), markMessageAsReadByIndex (int i) f)
         | None \<Rightarrow>
             (case selected_index ms of
                Some i \<Rightarrow> (Some (GotMessage (mail_text (ms ! i)) (sender (ms ! i)) (color (ms ! i)) (summary (ms ! i))),
                           markMessageAsReadByIndex (int i) f)
              | None \<Rightarrow> (None, f)))"

record wait_state =
  pendingUserMessages :: "string list"
  inbox :: "inbox_file option"
  tasks_dir :: task_dir

text \<open>
  One round of \<open>waitForNextPromptOrShutdown\<close>: the abort signal is looked at when the round begins and after
  its sleep.  \<open>None\<close> starts another round.
\<close>

definition wait_round ::
  "mail_parser \<Rightarrow> bool \<Rightarrow> string \<Rightarrow> bool \<Rightarrow> bool \<Rightarrow> wait_state \<Rightarrow> wait_result option \<times> wait_state" where
  "wait_round parse ant agentName aborted abortedAfter s =
     (if aborted then (Some GotAborted, s)
      else case pendingUserMessages s of
        m # rest \<Rightarrow> (Some (GotMessage m ''user'' None None), s\<lparr>pendingUserMessages := rest\<rparr>)
      | [] \<Rightarrow>
          if abortedAfter then (Some GotAborted, s)
          else (case poll_mailbox (isShutdownRequest parse) (inbox s) of
              (Some r, f) \<Rightarrow> (Some r, s\<lparr>inbox := f\<rparr>)
            | (None, _) \<Rightarrow>
                (case tryClaimNextTask ant agentName (tasks_dir s) of
                   (Some p, d) \<Rightarrow>
                     (if p = [] then None else Some (GotMessage p ''task-list'' None None), s\<lparr>tasks_dir := d\<rparr>)
                 | (None, d) \<Rightarrow> (None, s\<lparr>tasks_dir := d\<rparr>))))"

end
