(* ===== verification/Inbox_Poller.thy ===== *)
theory Inbox_Poller
  imports Mailbox Permission_Modes
begin

text \<open>
  The session of a leader, or of a teammate in a process of its own, that looks into its inbox
  (\<open>src/hooks/useInboxPoller.ts\<close>) and what of it is attached to the next request
  (\<open>src/utils/attachments.ts\<close>).  A round of the poller runs as a whole; the marking that ends it is a
  separate step, as the program does not wait for it.
\<close>

section \<open>State\<close>

datatype queued_status = QueuePending | QueueProcessing | QueueProcessed

record queued_message = mail_item +
  queued_id :: nat
  queued_status :: queued_status

text \<open>
  The part of the application state that a round uses.  A callback waits for the response to a permission
  request; it is registered until a response comes, but does nothing if the request was settled in the
  meantime, by an abort.  Histories: \<open>prompts\<close> are the groups of messages that were submitted as turns,
  \<open>answers\<close> the questions that were answered, \<open>persisted\<close> the updates that were handed to the settings files,
  \<open>outbox\<close> the messages that were sent, and \<open>notices\<close> the messages that the session put into its queue itself.
\<close>

record poll_state =
  leadAgentId :: "string option"
  teammates :: "(string \<times> string) list"
  tool_context :: tool_context
  queue :: "queued_message list"
  next_id :: nat
  prompts :: "mail_item list list"
  confirm_queue :: "string list"
  permission_callbacks :: "(string \<times> bool) list"
  sandbox_callbacks :: "string list"
  answers :: "(string \<times> bool) list"
  sandbox_queue :: "(string \<times> string) list"
  outbox :: "(string \<times> permission_mode) list"
  persisted :: "permission_update list"
  notices :: "mail_item list"

record poll_env =
  poll_identity :: team_env
  planModeRequired :: bool
  known_tool :: "string \<Rightarrow> bool"
  confirm_available :: bool
  poll_features :: features
  unassign_notice :: "string \<Rightarrow> string"
  json_string :: "string \<Rightarrow> string"
  time_stamp :: string

section \<open>Handlers\<close>

definition sets_mode :: "permission_mode \<Rightarrow> poll_state \<Rightarrow> poll_state" where
  "sets_mode m s = s\<lparr>tool_context := applyPermissionUpdate (tool_context s) (SetMode Session m)\<rparr>"

definition plan_response :: "poll_env \<Rightarrow> mail_parser \<Rightarrow> poll_state \<Rightarrow> teammate_message \<Rightarrow> poll_state" where
  "plan_response e parse s m =
     (case parse (mail_text m) of
        Some (PlanApprovalResponse approved md) \<Rightarrow>
          if sender m = ''team-lead'' \<and> approved
          then sets_mode (toExternalPermissionMode (poll_features e) (case md of Some x \<Rightarrow> x | None \<Rightarrow> DefaultMode)) s
          else s
      | _ \<Rightarrow> s)"

definition permission_request :: "poll_env \<Rightarrow> mail_parser \<Rightarrow> poll_state \<Rightarrow> teammate_message \<Rightarrow> poll_state" where
  "permission_request e parse s m =
     (case parse (mail_text m) of
        Some (PermissionRequest tool useId) \<Rightarrow>
          if confirm_available e \<and> known_tool e tool \<and> useId \<notin> set (confirm_queue s)
          then s\<lparr>confirm_queue := confirm_queue s @ [useId]\<rparr> else s
      | _ \<Rightarrow> s)"

text \<open>An approval applies its updates to the session and persists them; \<open>True\<close> marks a request that is still open.\<close>

definition persistPermissions :: "permission_update list \<Rightarrow> poll_state \<Rightarrow> poll_state" where
  "persistPermissions us s =
     (if us = [] then s
      else s\<lparr>persisted := persisted s @ us, tool_context := applyPermissionUpdates (tool_context s) us\<rparr>)"

definition permission_response :: "mail_parser \<Rightarrow> poll_state \<Rightarrow> teammate_message \<Rightarrow> poll_state" where
  "permission_response parse s m =
     (case parse (mail_text m) of
        Some (PermissionResponse i updates) \<Rightarrow>
          (case map_of (permission_callbacks s) i of
             None \<Rightarrow> s
           | Some still_open \<Rightarrow>
               let s1 = s\<lparr>permission_callbacks := filter (\<lambda>(j, _). j \<noteq> i) (permission_callbacks s)\<rparr>
               in if \<not> still_open then s1
                  else case updates of
                         None \<Rightarrow> s1\<lparr>answers := answers s1 @ [(i, False)]\<rparr>
                       | Some us \<Rightarrow> (persistPermissions us s1)\<lparr>answers := answers s1 @ [(i, True)]\<rparr>)
      | _ \<Rightarrow> s)"

definition sandbox_request :: "mail_parser \<Rightarrow> poll_state \<Rightarrow> teammate_message \<Rightarrow> poll_state" where
  "sandbox_request parse s m =
     (case parse (mail_text m) of
        Some (SandboxPermissionRequest i host) \<Rightarrow>
          if nonempty_text host then s\<lparr>sandbox_queue := sandbox_queue s @ [(i, or_text host [])]\<rparr> else s
      | _ \<Rightarrow> s)"

definition sandbox_response :: "mail_parser \<Rightarrow> poll_state \<Rightarrow> teammate_message \<Rightarrow> poll_state" where
  "sandbox_response parse s m =
     (case parse (mail_text m) of
        Some (SandboxPermissionResponse i allowed) \<Rightarrow>
          if i \<in> set (sandbox_callbacks s)
          then s\<lparr>sandbox_callbacks := filter (\<lambda>j. j \<noteq> i) (sandbox_callbacks s), answers := answers s @ [(i, allowed)]\<rparr>
          else s
      | _ \<Rightarrow> s)"

definition team_permission_update :: "mail_parser \<Rightarrow> poll_state \<Rightarrow> teammate_message \<Rightarrow> poll_state" where
  "team_permission_update parse s m =
     (case parse (mail_text m) of
        Some (TeamPermissionUpdate (Some rules) (Some b)) \<Rightarrow>
          s\<lparr>tool_context := applyPermissionUpdate (tool_context s) (AddRules Session rules b)\<rparr>
      | _ \<Rightarrow> s)"

definition mode_request :: "poll_env \<Rightarrow> mail_parser \<Rightarrow> poll_state \<Rightarrow> teammate_message \<Rightarrow> poll_state" where
  "mode_request e parse s m =
     (if sender m \<noteq> ''team-lead'' then s
      else case parse (mail_text m) of
        Some (ModeSetRequest md) \<Rightarrow>
          sets_mode (toExternalPermissionMode (poll_features e) (permissionModeFromString (poll_features e) md)) s
      | _ \<Rightarrow> s)"

text \<open>A plan is approved by the session of the leader itself, with the leader's mode.\<close>

definition plan_request :: "permission_mode \<Rightarrow> poll_state \<Rightarrow> teammate_message \<Rightarrow> poll_state" where
  "plan_request inherited s m = s\<lparr>outbox := outbox s @ [(sender m, inherited)]\<rparr>"

text \<open>
  The teammate is looked up among those of the state at the start of the round.  The session tells itself that
  the teammate has left, by a pending message in its own queue.
\<close>

definition terminated_notice :: "poll_env \<Rightarrow> string \<Rightarrow> mail_item" where
  "terminated_notice e who =
     \<lparr>sender = ''system'',
      mail_text = ''{'' @ [CHR 0x22] @ ''type'' @ [CHR 0x22] @ '':'' @ [CHR 0x22] @ ''teammate_terminated'' @ [CHR 0x22] @ '','' @
        [CHR 0x22] @ ''message'' @ [CHR 0x22] @ '':'' @ json_string e (unassign_notice e who) @ ''}'',
      timestamp = time_stamp e, color = None, summary = None\<rparr>"

definition queue_item :: "mail_item \<Rightarrow> nat \<Rightarrow> queued_message" where
  "queue_item m i = mail_item.extend m \<lparr>queued_id = i, queued_status = QueuePending\<rparr>"

definition shutdown_approved ::
  "poll_env \<Rightarrow> mail_parser \<Rightarrow> (string \<times> string) list \<Rightarrow> poll_state \<Rightarrow> teammate_message \<Rightarrow> poll_state" where
  "shutdown_approved e parse before s m =
     (case parse (mail_text m) of
        Some (ShutdownApproved who) \<Rightarrow>
          (if who = [] then s
           else case find (\<lambda>(_, n). n = who) before of
             None \<Rightarrow> s
           | Some (i, _) \<Rightarrow>
               if i = [] \<or> i \<notin> set (map fst (teammates s)) then s
               else s\<lparr>teammates := filter (\<lambda>(j, _). j \<noteq> i) (teammates s),
                      queue := queue s @ [queue_item (terminated_notice e who) (next_id s)],
                      next_id := next_id s + 1, notices := notices s @ [terminated_notice e who]\<rparr>)
      | _ \<Rightarrow> s)"

section \<open>A round\<close>

definition of_kind :: "mail_parser \<Rightarrow> (protocol_message \<Rightarrow> bool) \<Rightarrow> teammate_message \<Rightarrow> bool" where
  "of_kind parse K m \<longleftrightarrow> (case parse (mail_text m) of None \<Rightarrow> False | Some x \<Rightarrow> K x)"

abbreviation routed :: "protocol_message \<Rightarrow> bool" where
  "routed x \<equiv> (case x of PlanApprovalResponse _ _ \<Rightarrow> False | IdleNotification _ \<Rightarrow> False | OtherProtocol _ \<Rightarrow> False | _ \<Rightarrow> True)"

text \<open>The messages that become a turn, in the order in which the source collects them.\<close>

definition regular_messages :: "mail_parser \<Rightarrow> bool \<Rightarrow> bool \<Rightarrow> teammate_message list \<Rightarrow> teammate_message list" where
  "regular_messages parse lead teammate ms =
     filter (\<lambda>m. \<not> of_kind parse routed m) ms @
     (if lead then filter (of_kind parse (\<lambda>x. x = PlanApprovalRequest)) ms else []) @
     (if teammate then filter (of_kind parse (\<lambda>x. x = ShutdownRequest)) ms else []) @
     (if lead then filter (of_kind parse (\<lambda>x. case x of ShutdownApproved _ \<Rightarrow> True | _ \<Rightarrow> False)) ms else [])"

text \<open>A section of the source that handles a list of messages, under its condition.\<close>

definition handle_all :: "bool \<Rightarrow> ('s \<Rightarrow> 'm \<Rightarrow> 's) \<Rightarrow> 'm list \<Rightarrow> 's \<Rightarrow> 's" where
  "handle_all b h ms s = (if b then foldl h s ms else s)"

definition handled_messages :: "poll_env \<Rightarrow> mail_parser \<Rightarrow> bool \<Rightarrow> bool \<Rightarrow> teammate_message list \<Rightarrow> poll_state \<Rightarrow> poll_state" where
  "handled_messages e parse lead teammate ms s =
     (let m0 = toExternalPermissionMode (poll_features e) (mode (tool_context s));
          inherited = (if m0 = PlanMode then DefaultMode else m0);
          s1 = handle_all (teammate \<and> planModeRequired e) (plan_response e parse) ms s;
          s2 = handle_all lead (permission_request e parse) ms s1;
          s3 = handle_all teammate (permission_response parse) ms s2;
          s4 = handle_all lead (sandbox_request parse) ms s3;
          s5 = handle_all teammate (sandbox_response parse) ms s4;
          s6 = handle_all teammate (team_permission_update parse) ms s5;
          s7 = handle_all teammate (mode_request e parse) ms s6;
          s8 = handle_all lead (plan_request inherited) (filter (of_kind parse (\<lambda>x. x = PlanApprovalRequest)) ms) s7
      in handle_all lead (shutdown_approved e parse (teammates s)) ms s8)"

definition queue_messages :: "teammate_message list \<Rightarrow> poll_state \<Rightarrow> poll_state" where
  "queue_messages ms s =
     s\<lparr>queue := queue s @ map2 (\<lambda>m i. queue_item (mail_item.truncate m) i)
         ms [next_id s..<next_id s + length ms], next_id := next_id s + length ms\<rparr>"

text \<open>The name whose inbox the session polls; an in-process teammate waits for its prompts in another way.\<close>

definition getAgentNameToPoll :: "team_env \<Rightarrow> poll_state \<Rightarrow> string option" where
  "getAgentNameToPoll e s =
     (if isInProcessTeammate e then None
      else if isTeammate e then getAgentName e
      else if isTeamLead e (leadAgentId s)
      then Some (or_text (map_of (teammates s) (or_text (leadAgentId s) [])) ''team-lead'') else None)"

text \<open>
  A round that reads the inbox \<open>f\<close>: \<open>calm\<close> when the session neither works nor shows a dialog, \<open>accepted\<close> the
  answer to a submission.  The second part of the result says whether the messages are then marked.
\<close>

definition poll_round ::
  "poll_env \<Rightarrow> mail_parser \<Rightarrow> bool \<Rightarrow> bool \<Rightarrow> inbox_file option \<Rightarrow> poll_state \<Rightarrow> poll_state \<times> bool" where
  "poll_round e parse calm accepted f s =
     (let ms = readUnreadMessages f; lead = isTeamLead (poll_identity e) (leadAgentId s);
          teammate = isTeammate (poll_identity e)
      in if \<not> nonempty_text (getAgentNameToPoll (poll_identity e) s) \<or> ms = [] then (s, False)
         else (let s1 = handled_messages e parse lead teammate ms s;
                   regular = regular_messages parse lead teammate ms
               in if regular = [] then (s1, True)
                  else if calm \<and> accepted then (s1\<lparr>prompts := prompts s1 @ [map mail_item.truncate regular]\<rparr>, True)
                  else (queue_messages regular s1, True)))"

text \<open>The effect that runs when the session becomes idle.\<close>

definition deliver_pending :: "bool \<Rightarrow> poll_state \<Rightarrow> poll_state" where
  "deliver_pending accepted s =
     (let pending = filter (\<lambda>m. queued_status m = QueuePending) (queue s);
          processed = map queued_id (filter (\<lambda>m. queued_status m = QueueProcessed) (queue s));
          s1 = s\<lparr>queue := filter (\<lambda>m. queued_id m \<notin> set processed) (queue s)\<rparr>
      in if pending = [] then s1
         else if accepted
         then s1\<lparr>prompts := prompts s1 @ [map mail_item.truncate pending],
                queue := filter (\<lambda>m. queued_id m \<notin> set (map queued_id pending)) (queue s1)\<rparr>
         else s1)"

section \<open>Attachments\<close>

definition message_key :: "'a mail_item_scheme \<Rightarrow> string" where
  "message_key m = sender m @ ''|'' @ timestamp m @ ''|'' @ take 100 (mail_text m)"

definition without_duplicates :: "mail_item list \<Rightarrow> mail_item list" where
  "without_duplicates ms =
     snd (foldl (\<lambda>(seen, out) m. if message_key m \<in> set seen then (seen, out) else (message_key m # seen, out @ [m]))
       ([], []) ms)"

text \<open>Of the notices that an agent is idle only its last one is kept.\<close>

definition idle_agents :: "mail_parser \<Rightarrow> mail_item list \<Rightarrow> string list" where
  "idle_agents parse ms = List.map_filter (isIdleNotification parse \<circ> mail_text) ms"

fun collapse_idle :: "mail_parser \<Rightarrow> mail_item list \<Rightarrow> mail_item list" where
  "collapse_idle parse [] = []"
| "collapse_idle parse (m # ms) =
     (case isIdleNotification parse (mail_text m) of
        Some agent \<Rightarrow> if agent \<in> set (idle_agents parse ms) then collapse_idle parse ms else m # collapse_idle parse ms
      | None \<Rightarrow> m # collapse_idle parse ms)"

definition mailbox_attachment ::
  "mail_parser \<Rightarrow> bool \<Rightarrow> inbox_file option \<Rightarrow> poll_state \<Rightarrow> mail_item list \<times> inbox_file option \<times> poll_state" where
  "mailbox_attachment parse leaders_queue f s =
     (let unreadMessages = filter (\<lambda>m. \<not> isStructuredProtocolMessage parse (mail_text m)) (readUnreadMessages f);
          pending = (if leaders_queue then filter (\<lambda>m. queued_status m = QueuePending) (queue s) else []);
          allMessages = collapse_idle parse
            (without_duplicates (map mail_item.truncate unreadMessages @ map mail_item.truncate pending))
      in if allMessages = [] then ([], f, s)
         else (allMessages,
               if unreadMessages \<noteq> []
               then markMessagesAsReadByPredicate (\<lambda>m. \<not> isStructuredProtocolMessage parse (mail_text m)) f else f,
               s\<lparr>queue := map (\<lambda>m. if queued_id m \<in> set (map queued_id pending) then m\<lparr>queued_status := QueueProcessed\<rparr> else m)
                  (queue s)\<rparr>))"

end
