(* ===== verification/Mailbox_Laws.thy ===== *)
theory Mailbox_Laws
  imports Mailbox "HOL-Library.Multiset"
begin

text \<open>
  What the agent that waits receives: every message once, requests to shut down first, then the messages
  of the leader, then the others, each in the order of arrival.
\<close>

lemma first_index_split:
  assumes "first_index P xs = Some i"
  obtains us x vs where "xs = us @ x # vs" "length us = i" "P x" "\<forall>u\<in>set us. \<not> P u"
proof -
  have i: "i < length xs" "P (xs ! i)" "\<forall>j<i. \<not> P (xs ! j)"
    using assms by (auto simp: first_index_def find_Some_iff)
  show ?thesis
  proof (rule that)
    show "xs = take i xs @ xs ! i # drop (Suc i) xs" by (rule id_take_nth_drop [OF i(1)])
    show "\<forall>u\<in>set (take i xs). \<not> P u" using i by (auto simp: in_set_conv_nth)
  qed (use i in auto)
qed

lemma first_index_None: "first_index P xs = None \<longleftrightarrow> (\<forall>x\<in>set xs. \<not> P x)"
  by (auto simp: first_index_def find_None_iff) (metis in_set_conv_nth)+

lemma first_index_hd: "first_index P xs = Some i \<Longrightarrow> filter P xs = xs ! i # tl (filter P xs)"
  by (erule first_index_split) (auto simp: filter_empty_conv)

abbreviation unread :: "teammate_message list \<Rightarrow> teammate_message list" where
  "unread \<equiv> filter (\<lambda>m. \<not> was_read m)"

text \<open>The messages in the order in which they are to be received.\<close>

definition reception_order :: "(string \<Rightarrow> bool) \<Rightarrow> teammate_message list \<Rightarrow> teammate_message list" where
  "reception_order sd ms =
     filter (\<lambda>m. \<not> was_read m \<and> sd (mail_text m)) ms @
     filter (\<lambda>m. \<not> was_read m \<and> \<not> sd (mail_text m) \<and> sender m = TEAM_LEAD_NAME) ms @
     filter (\<lambda>m. \<not> was_read m \<and> \<not> sd (mail_text m) \<and> sender m \<noteq> TEAM_LEAD_NAME) ms"

definition received :: "(string \<Rightarrow> bool) \<Rightarrow> teammate_message \<Rightarrow> wait_result" where
  "received sd m =
     (if sd (mail_text m) then GotShutdown (mail_text m)
      else GotMessage (mail_text m) (sender m) (color m) (summary m))"

lemma reception_order_mset: "mset (reception_order sd ms) = mset (unread ms)"
  by (induction ms) (auto simp: reception_order_def)

lemma index_marked_split:
  "\<not> was_read m \<Longrightarrow> index_marked (int (length us)) (us @ m # vs) = Some (us @ mark_read m # vs)"
  by (simp add: index_marked_def)

lemma mark_read_simps [simp]:
  "was_read (mark_read m)" "mail_text (mark_read m) = mail_text m" "sender (mark_read m) = sender m"
  "mail_item.truncate (mark_read m) = mail_item.truncate m"
  by (simp_all add: mark_read_def mail_item.defs)

lemma reception_order_split:
  assumes "\<not> was_read m"
    and "sd (mail_text m) \<longrightarrow> (\<forall>u\<in>set us. was_read u \<or> \<not> sd (mail_text u))"
    and "\<not> sd (mail_text m) \<longrightarrow> (\<forall>u\<in>set (us @ vs). was_read u \<or> \<not> sd (mail_text u))"
    and "\<not> sd (mail_text m) \<longrightarrow> sender m = TEAM_LEAD_NAME \<longrightarrow> (\<forall>u\<in>set us. was_read u \<or> sender u \<noteq> TEAM_LEAD_NAME)"
    and "\<not> sd (mail_text m) \<longrightarrow> sender m \<noteq> TEAM_LEAD_NAME \<longrightarrow>
      (\<forall>u\<in>set us. was_read u) \<and> (\<forall>u\<in>set vs. was_read u \<or> sender u \<noteq> TEAM_LEAD_NAME)"
  shows "reception_order sd (us @ m # vs) = m # reception_order sd (us @ mark_read m # vs)"
proof -
  let ?L = "\<lambda>m. \<not> was_read m \<and> \<not> sd (mail_text m) \<and> sender m = TEAM_LEAD_NAME"
  have none: "(\<forall>u\<in>set xs. was_read u \<or> \<not> Q u) \<Longrightarrow> filter (\<lambda>m. \<not> was_read m \<and> Q m) xs = []" for Q xs
    by (auto simp: filter_empty_conv)
  have leader: "(\<forall>u\<in>set xs. was_read u \<or> sender u \<noteq> TEAM_LEAD_NAME) \<Longrightarrow> filter ?L xs = []" for xs
    by (auto simp: filter_empty_conv)
  show ?thesis
    using assms none [of us] none [of vs] leader [of us] leader [of vs]
    by (cases "sd (mail_text m)"; cases "sender m = TEAM_LEAD_NAME") (auto simp: reception_order_def ball_Un)
qed

lemma poll_receives:
  assumes "readMailbox f = ms"
  shows "case reception_order sd ms of
      [] \<Rightarrow> poll_mailbox sd f = (None, f)
    | m # rest \<Rightarrow> \<exists>ms'. poll_mailbox sd f = (Some (received sd m), Some (Inbox ms')) \<and>
        reception_order sd ms' = rest \<and> map mail_item.truncate ms' = map mail_item.truncate ms"
proof (cases "unread ms = []")
  case True
  then have "reception_order sd ms = []" by (auto simp: reception_order_def filter_empty_conv)
  moreover have "poll_mailbox sd f = (None, f)"
    using True first_index_None [of "\<lambda>m. \<not> was_read m \<and> sd (mail_text m)" ms] first_index_None [of "\<lambda>m. \<not> was_read m" ms]
      first_index_None [of "\<lambda>m. \<not> was_read m \<and> sender m = TEAM_LEAD_NAME" ms]
    by (auto simp: poll_mailbox_def shutdown_index_def selected_index_def assms filter_empty_conv split: option.splits)
  ultimately show ?thesis by simp
next
  case False
  then have f: "f = Some (Inbox ms)" using assms by (auto simp: readMailbox_def split: option.splits inbox_file.splits)
  let ?P = "\<lambda>m. \<not> was_read m \<and> sd (mail_text m)" and ?L = "\<lambda>m. \<not> was_read m \<and> sender m = TEAM_LEAD_NAME"
    and ?U = "\<lambda>m. \<not> was_read m"
  have goal: ?thesis if "ms = us @ m # vs" "\<not> was_read m" "reception_order sd ms = m # reception_order sd (us @ mark_read m # vs)"
    "poll_mailbox sd f = (Some (received sd m), markMessageAsReadByIndex (int (length us)) f)" for us m vs
    using that by (auto simp: f markMessageAsReadByIndex_def update_inbox_def readMailbox_def index_marked_split)
  consider i where "first_index ?P ms = Some i"
    | i where "first_index ?P ms = None" "first_index ?L ms = Some i"
    | i where "first_index ?P ms = None" "first_index ?L ms = None" "first_index ?U ms = Some i"
    using False by (metis (no_types, lifting) filter_empty_conv first_index_None option.exhaust)
  then show ?thesis
  proof cases
    case (1 i)
    obtain us m vs where s: "ms = us @ m # vs" "length us = i" "?P m" "\<forall>u\<in>set us. \<not> ?P u"
      by (rule first_index_split [OF 1])
    show ?thesis
      by (rule goal [OF s(1)]) (use s 1 assms reception_order_split [of m sd us vs] in
        \<open>auto simp: poll_mailbox_def shutdown_index_def received_def Let_def\<close>)
  next
    case (2 i)
    obtain us m vs where s: "ms = us @ m # vs" "length us = i" "?L m" "\<forall>u\<in>set us. \<not> ?L u"
      by (rule first_index_split [OF 2(2)])
    have no: "\<forall>u\<in>set ms. \<not> ?P u" using 2(1) by (simp add: first_index_None)
    show ?thesis
      by (rule goal [OF s(1)]) (use s no 2 assms reception_order_split [of m sd us vs] in
        \<open>auto simp: poll_mailbox_def shutdown_index_def selected_index_def received_def Let_def\<close>)
  next
    case (3 i)
    obtain us m vs where s: "ms = us @ m # vs" "length us = i" "?U m" "\<forall>u\<in>set us. \<not> ?U u"
      by (rule first_index_split [OF 3(3)])
    have no: "\<forall>u\<in>set ms. \<not> ?P u" "\<forall>u\<in>set ms. \<not> ?L u" using 3(1,2) by (simp_all add: first_index_None)
    show ?thesis
      by (rule goal [OF s(1)]) (use s no 3 assms reception_order_split [of m sd us vs] in
        \<open>auto simp: poll_mailbox_def shutdown_index_def selected_index_def received_def Let_def\<close>)
  qed
qed

text \<open>The results of a number of rounds, and the inbox that is left.\<close>

primrec polls :: "(string \<Rightarrow> bool) \<Rightarrow> nat \<Rightarrow> inbox_file option \<Rightarrow> wait_result option list \<times> inbox_file option" where
  "polls sd 0 f = ([], f)"
| "polls sd (Suc n) f = (let (r, f1) = poll_mailbox sd f; (rs, f2) = polls sd n f1 in (r # rs, f2))"

lemma polls_order:
  "readMailbox f = ms \<Longrightarrow> reception_order sd ms = xs \<Longrightarrow> length xs \<le> n \<Longrightarrow>
     \<exists>f'. polls sd n f = (map (Some \<circ> received sd) xs @ replicate (n - length xs) None, f') \<and>
       unread (readMailbox f') = [] \<and> map mail_item.truncate (readMailbox f') = map mail_item.truncate ms"
proof (induction n arbitrary: f ms xs)
  case 0
  then show ?case using reception_order_mset [of sd ms] by auto
next
  case (Suc n)
  show ?case
  proof (cases xs)
    case Nil
    then have "poll_mailbox sd f = (None, f)" using poll_receives [OF Suc.prems(1), of sd] Suc.prems(2) by simp
    then show ?thesis using Suc.IH [OF Suc.prems(1,2)] Nil by (auto simp: Let_def)
  next
    case (Cons m rest)
    then obtain ms' where "poll_mailbox sd f = (Some (received sd m), Some (Inbox ms'))"
        "reception_order sd ms' = rest" "map mail_item.truncate ms' = map mail_item.truncate ms"
      using poll_receives [OF Suc.prems(1), of sd] Suc.prems(2) by auto
    then show ?thesis using Suc.IH [of "Some (Inbox ms')" ms' rest] Suc.prems(3) Cons by (auto simp: readMailbox_def)
  qed
qed

text \<open>
  C21: The agent that waits receives every message of its inbox exactly once and in order: first the
  requests to shut down, then what the leader sent, then the rest, each group as it arrived; then nothing.
\<close>

theorem inbox_received_in_order:
  "let ms = readMailbox f; n = length (unread ms); (rs, f') = polls sd (n + k) f
   in rs = map (Some \<circ> received sd) (reception_order sd ms) @ replicate k None \<and>
      mset (reception_order sd ms) = mset (unread ms) \<and>
      unread (readMailbox f') = [] \<and> map mail_item.truncate (readMailbox f') = map mail_item.truncate ms"
proof -
  have n: "length (reception_order sd ms) = length (unread ms)" for ms
    using reception_order_mset [of sd ms] by (rule mset_eq_length)
  show ?thesis
    using polls_order [of f "readMailbox f" sd _ "length (unread (readMailbox f)) + k"] reception_order_mset
    by (auto simp: n Let_def)
qed

end
