(* ===== verification/Mailbox_Locks.thy ===== *)
theory Mailbox_Locks
  imports Mailbox_Laws
begin

text \<open>
  The operations on one inbox file as several processes run them: each takes the lock of the file, reads
  the inbox again, writes it and releases the lock.  Whatever the interleaving, the operations take effect
  one after the other, and no message that was sent is lost.
\<close>

section \<open>Processes\<close>

datatype mail_op =
    SendOp mail_item
  | MarkIndexOp int
  | MarkAllOp
  | MarkPredicateOp "teammate_message \<Rightarrow> bool"

definition mail_update :: "mail_op \<Rightarrow> teammate_message list \<Rightarrow> teammate_message list option" where
  "mail_update op ms =
     (case op of SendOp m \<Rightarrow> Some (ms @ [new_message m]) | MarkIndexOp i \<Rightarrow> index_marked i ms
      | MarkAllOp \<Rightarrow> all_marked ms | MarkPredicateOp P \<Rightarrow> predicate_marked P ms)"

text \<open>
  Where a process is: before it creates the file (only a sender does), before the lock, the reading, the
  writing of what it has computed and the release, or at the end, with or without having had the lock.
\<close>

datatype mail_phase =
    AtStart | AtLock | AtRead | AtWrite "teammate_message list" | AtRelease | MailEnded bool

record mail_world =
  mail_file :: "inbox_file option"
  mail_lock :: "nat option"

text \<open>
  One step of process \<open>p\<close>.  A process that waits for the lock may give up (choice 0), and a lock on a file
  that is not there fails.
\<close>

fun mail_step :: "nat \<Rightarrow> nat \<Rightarrow> mail_op \<times> mail_phase \<Rightarrow> mail_world \<Rightarrow> mail_phase \<times> mail_world" where
  "mail_step p choice (op, AtStart) w =
     (AtLock, case op of SendOp _ \<Rightarrow> (if mail_file w = None then w\<lparr>mail_file := Some (Inbox [])\<rparr> else w) | _ \<Rightarrow> w)"
| "mail_step p choice (op, AtLock) w =
     (if choice = 0 \<or> mail_file w = None then (MailEnded False, w)
      else if mail_lock w = None then (AtRead, w\<lparr>mail_lock := Some p\<rparr>) else (AtLock, w))"
| "mail_step p choice (op, AtRead) w =
     (case mail_update op (readMailbox (mail_file w)) of None \<Rightarrow> (AtRelease, w) | Some ms \<Rightarrow> (AtWrite ms, w))"
| "mail_step p choice (op, AtWrite ms) w = (AtRelease, w\<lparr>mail_file := Some (Inbox ms)\<rparr>)"
| "mail_step p choice (op, AtRelease) w = (MailEnded True, w\<lparr>mail_lock := None\<rparr>)"
| "mail_step p choice (op, MailEnded ok) w = (MailEnded ok, w)"

definition mail_pool_step ::
  "(mail_op \<times> mail_phase) list \<times> mail_world \<Rightarrow> nat \<times> nat \<Rightarrow> (mail_op \<times> mail_phase) list \<times> mail_world" where
  "mail_pool_step s ev =
     (case (s, ev) of ((ps, w), (p, choice)) \<Rightarrow>
        if p < length ps
        then (let (ph, w') = mail_step p choice (ps ! p) w in (ps[p := (fst (ps ! p), ph)], w')) else (ps, w))"

section \<open>Every run is a sequence of whole operations\<close>

definition whole_op :: "mail_op \<Rightarrow> inbox_file option \<Rightarrow> inbox_file option" where
  "whole_op op =
     (case op of SendOp m \<Rightarrow> writeToMailbox m | MarkIndexOp i \<Rightarrow> markMessageAsReadByIndex i
      | MarkAllOp \<Rightarrow> markMessagesAsRead | MarkPredicateOp P \<Rightarrow> markMessagesAsReadByPredicate P)"

definition op_effect :: "mail_op \<Rightarrow> teammate_message list \<Rightarrow> teammate_message list" where
  "op_effect op ms = (case mail_update op ms of None \<Rightarrow> ms | Some ms' \<Rightarrow> ms')"

lemma mark_empty:
  "index_marked i [] = None" "all_marked [] = None" "predicate_marked P [] = None"
  by (auto simp: index_marked_def all_marked_def predicate_marked_def)

lemma whole_op_effect: "readMailbox (whole_op op f) = op_effect op (readMailbox f)"
  by (cases op; cases f)
    (auto simp: whole_op_def op_effect_def mail_update_def writeToMailbox_def markMessageAsReadByIndex_def
      markMessagesAsRead_def markMessagesAsReadByPredicate_def update_inbox_def readMailbox_def mark_empty
      split: option.splits inbox_file.splits)

definition committed :: "mail_phase \<Rightarrow> bool" where
  "committed ph \<longleftrightarrow> ph = AtRelease \<or> ph = MailEnded True"

definition inside :: "mail_phase \<Rightarrow> bool" where
  "inside ph \<longleftrightarrow> ph = AtRead \<or> (\<exists>ms. ph = AtWrite ms) \<or> ph = AtRelease"

definition mail_inv :: "mail_op list \<Rightarrow> inbox_file option \<Rightarrow> (mail_op \<times> mail_phase) list \<times> mail_world \<Rightarrow> bool" where
  "mail_inv ops f s \<longleftrightarrow>
     map fst (fst s) = ops \<and> (mail_lock (snd s) \<noteq> None \<longrightarrow> mail_file (snd s) \<noteq> None) \<and>
     (\<forall>p < length ops. inside (snd (fst s ! p)) \<longleftrightarrow> mail_lock (snd s) = Some p) \<and>
     (\<forall>p < length ops. \<forall>ms. snd (fst s ! p) = AtWrite ms \<longrightarrow>
        mail_update (ops ! p) (readMailbox (mail_file (snd s))) = Some ms) \<and>
     (\<exists>order. distinct order \<and> set order = {p. p < length ops \<and> committed (snd (fst s ! p))} \<and>
        readMailbox (mail_file (snd s)) = foldl (\<lambda>ms p. op_effect (ops ! p) ms) (readMailbox f) order)"

lemma mail_step_inv:
  assumes inv: "mail_inv ops f (ps, w)" and p: "p < length ps" and st: "mail_step p choice (ps ! p) w = (ph, w')"
  shows "mail_inv ops f (ps[p := (fst (ps ! p), ph)], w')"
proof -
  have ops: "map fst ps = ops" "length ps = length ops" "fst (ps ! p) = ops ! p"
    using inv p by (auto simp: mail_inv_def)
  have locked: "q < length ops \<Longrightarrow> inside (snd (ps ! q)) \<longleftrightarrow> mail_lock w = Some q"
    and there: "mail_lock w \<noteq> None \<Longrightarrow> mail_file w \<noteq> None"
    and writing: "q < length ops \<Longrightarrow> snd (ps ! q) = AtWrite ms \<Longrightarrow>
      mail_update (ops ! q) (readMailbox (mail_file w)) = Some ms" for q ms
    using inv by (auto simp: mail_inv_def)
  obtain order where order: "distinct order" "set order = {p. p < length ops \<and> committed (snd (ps ! p))}"
    "readMailbox (mail_file w) = foldl (\<lambda>ms p. op_effect (ops ! p) ms) (readMailbox f) order"
    using inv by (auto simp: mail_inv_def)
  have m: "map fst (ps[p := (ops ! p, ph)]) = ops"
    unfolding map_update ops(1) fst_conv by (rule list_update_id)
  have upd: "q < length ops \<Longrightarrow> ps[p := (ops ! p, ph)] ! q = (if q = p then (ops ! p, ph) else ps ! q)" for q
    using ops(2) by (simp add: nth_list_update)
  have intro: ?thesis
    if there': "mail_lock w' \<noteq> None \<Longrightarrow> mail_file w' \<noteq> None"
      and own: "inside ph \<longleftrightarrow> mail_lock w' = Some p"
      and rest: "\<And>q. q < length ops \<Longrightarrow> q \<noteq> p \<Longrightarrow> mail_lock w' = Some q \<longleftrightarrow> mail_lock w = Some q"
      and own_write: "\<And>ms. ph = AtWrite ms \<Longrightarrow> mail_update (ops ! p) (readMailbox (mail_file w')) = Some ms"
      and same: "readMailbox (mail_file w') = (if committed ph \<and> \<not> committed (snd (ps ! p))
        then op_effect (ops ! p) (readMailbox (mail_file w)) else readMailbox (mail_file w))"
      and stays: "committed (snd (ps ! p)) \<Longrightarrow> committed ph"
      and other: "readMailbox (mail_file w') \<noteq> readMailbox (mail_file w) \<Longrightarrow> inside (snd (ps ! p))"
  proof -
    have pending: "mail_update (ops ! q) (readMailbox (mail_file w')) = Some ms"
      if "q < length ops" "q \<noteq> p" "snd (ps ! q) = AtWrite ms" for q ms
    proof -
      have "mail_lock w = Some q" using locked [of q] that by (auto simp: inside_def)
      then have "\<not> inside (snd (ps ! p))" using locked [of p] that(2) p ops(2) by simp
      then show ?thesis using other writing [OF that(1,3)] by fastforce
    qed
    define order' where "order' = (if committed ph \<and> \<not> committed (snd (ps ! p)) then order @ [p] else order)"
    have "distinct order' \<and> set order' = {q. q < length ops \<and> committed (snd (ps[p := (ops ! p, ph)] ! q))}"
    proof (cases "committed ph \<and> \<not> committed (snd (ps ! p))")
      case True
      then have new: "order' = order @ [p]" "p \<notin> set order" using order(2) by (simp_all add: order'_def)
      have "committed (snd (ps[p := (ops ! p, ph)] ! q)) \<longleftrightarrow> q = p \<or> committed (snd (ps ! q))" if "q < length ops" for q
        using True that by (simp add: upd)
      then show ?thesis using new order(1,2) p ops(2) by (simp add: set_eq_iff) blast
    next
      case False
      then have "committed (snd (ps[p := (ops ! p, ph)] ! q)) \<longleftrightarrow> committed (snd (ps ! q))" if "q < length ops" for q
        using stays that by (auto simp: upd)
      then show ?thesis using False order(1,2) by (auto simp: order'_def)
    qed
    moreover have "readMailbox (mail_file w') = foldl (\<lambda>ms p. op_effect (ops ! p) ms) (readMailbox f) order'"
      using same order(3) by (simp add: order'_def)
    ultimately show ?thesis
      unfolding mail_inv_def ops(3) using m there' own rest own_write pending locked by (auto simp: upd)
  qed
  have a: "ps ! p = (ops ! p, snd (ps ! p))" using ops(3) by (metis prod.collapse)
  have own_lock: "inside (snd (ps ! p)) \<longleftrightarrow> mail_lock w = Some p" using locked [of p] p ops(2) by simp
  show ?thesis
  proof (cases "snd (ps ! p)")
    case AtStart
    then have w': "ph = AtLock" "mail_lock w' = mail_lock w" "readMailbox (mail_file w') = readMailbox (mail_file w)"
        "mail_file w \<noteq> None \<Longrightarrow> mail_file w' \<noteq> None"
      using st a by (auto simp: readMailbox_def split: mail_op.splits if_splits)
    show ?thesis by (rule intro) (use w' there own_lock AtStart in \<open>auto simp: committed_def inside_def\<close>)
  next
    case AtLock
    then have "mail_step p choice (ops ! p, AtLock) w = (ph, w')" using st a by simp
    then consider "ph = MailEnded False" "w' = w" | "ph = AtLock" "w' = w"
      | "ph = AtRead" "w' = w\<lparr>mail_lock := Some p\<rparr>" "mail_lock w = None" "mail_file w \<noteq> None"
      by (auto split: if_splits)
    then show ?thesis
      by cases (rule intro; use there own_lock AtLock in \<open>auto simp: committed_def inside_def\<close>)+
  next
    case AtRead
    then have st': "mail_step p choice (ops ! p, AtRead) w = (ph, w')" using st a by simp
    show ?thesis
      by (rule intro; use st' there own_lock AtRead in
        \<open>auto simp: committed_def inside_def op_effect_def split: option.splits\<close>)
  next
    case (AtWrite ms)
    have "ph = AtRelease" "w' = w\<lparr>mail_file := Some (Inbox ms)\<rparr>"
        "mail_update (ops ! p) (readMailbox (mail_file w)) = Some ms"
      using st a AtWrite writing [of p ms] p ops(2) by (metis mail_step.simps(4) prod.inject)+
    then show ?thesis
      by (intro intro) (use own_lock AtWrite in \<open>auto simp: committed_def inside_def op_effect_def readMailbox_def\<close>)
  next
    case AtRelease
    then have "ph = MailEnded True" "w' = w\<lparr>mail_lock := None\<rparr>" using st a by (metis mail_step.simps(5) prod.inject)+
    then show ?thesis by (intro intro) (use own_lock AtRelease in \<open>auto simp: committed_def inside_def\<close>)
  next
    case (MailEnded ok)
    then have "ph = MailEnded ok" "w' = w" using st a by (metis mail_step.simps(6) prod.inject)+
    then show ?thesis by (intro intro) (use there own_lock MailEnded in \<open>auto simp: committed_def inside_def\<close>)
  qed
qed

interpretation mailboxes: machine mail_pool_step "mail_inv ops f" for ops f
proof
  fix s and ev :: "nat \<times> nat" assume inv: "mail_inv ops f s"
  obtain ps w p choice where s: "s = (ps, w)" "ev = (p, choice)" by (metis prod.collapse)
  show "mail_inv ops f (mail_pool_step s ev)"
  proof (cases "p < length ps")
    case True
    obtain ph w' where "mail_step p choice (ps ! p) w = (ph, w')" by fastforce
    then show ?thesis using mail_step_inv [of ops f ps w p choice ph w'] inv True by (simp add: s mail_pool_step_def)
  qed (use inv in \<open>simp add: s mail_pool_step_def\<close>)
qed

lemma mail_start_inv: "mail_inv ops f (map (\<lambda>op. (op, AtStart)) ops, \<lparr>mail_file = f, mail_lock = None\<rparr>)"
  by (auto simp: mail_inv_def inside_def committed_def comp_def intro!: exI [of _ "[]"])

abbreviation mail_run ::
  "mail_op list \<Rightarrow> inbox_file option \<Rightarrow> (nat \<times> nat) list \<Rightarrow> (mail_op \<times> mail_phase) list \<times> mail_world" where
  "mail_run ops f evs \<equiv>
     foldl mail_pool_step (map (\<lambda>op. (op, AtStart)) ops, \<lparr>mail_file = f, mail_lock = None\<rparr>) evs"

abbreviation succeeded :: "(mail_op \<times> mail_phase) list \<times> mail_world \<Rightarrow> nat \<Rightarrow> bool" where
  "succeeded s p \<equiv> p < length (fst s) \<and> committed (snd (fst s ! p))"

lemma run_order:
  obtains order where "distinct order" "set order = {p. succeeded (mail_run ops f evs) p}"
    "readMailbox (mail_file (snd (mail_run ops f evs))) = foldl (\<lambda>ms p. op_effect (ops ! p) ms) (readMailbox f) order"
    "length (fst (mail_run ops f evs)) = length ops"
proof -
  have inv: "mail_inv ops f (mail_run ops f evs)" by (rule mailboxes.run_inv [OF mail_start_inv])
  then have len: "length (fst (mail_run ops f evs)) = length ops" by (metis length_map mail_inv_def)
  then show ?thesis using that inv unfolding mail_inv_def by auto
qed

lemma whole_ops_effect:
  "readMailbox (foldl (\<lambda>f p. whole_op (ops ! p) f) f order) = foldl (\<lambda>ms p. op_effect (ops ! p) ms) (readMailbox f) order"
  by (induction order arbitrary: f) (simp_all add: whole_op_effect)

text \<open>
  C19: Under every interleaving of senders and readers that mark, the inbox holds what the operations that
  had the lock make of it when they are run one after the other, each as a whole and once, in some order.
\<close>

theorem inbox_serialised:
  "\<exists>order. distinct order \<and> set order = {p. succeeded (mail_run ops f evs) p} \<and>
     readMailbox (mail_file (snd (mail_run ops f evs))) = readMailbox (foldl (\<lambda>f p. whole_op (ops ! p) f) f order)"
  by (rule run_order [of ops f evs]) (metis whole_ops_effect)

definition sent_by :: "mail_op \<Rightarrow> mail_item list" where
  "sent_by op = (case op of SendOp m \<Rightarrow> [m] | _ \<Rightarrow> [])"

lemma truncate_new [simp]: "mail_item.truncate (new_message m) = m"
  by (simp add: new_message_def mail_item.defs)

lemma op_effect_items:
  "map mail_item.truncate (op_effect op ms) = map mail_item.truncate ms @ sent_by op"
  by (cases op)
    (auto simp: op_effect_def mail_update_def sent_by_def index_marked_def all_marked_def predicate_marked_def
      map_update list_update_same_conv split: option.splits if_splits)

text \<open>
  No message is lost or doubled: under every interleaving the inbox holds, in order, the messages it
  held before and then those of the senders that had the lock, each once.
\<close>

theorem no_message_lost:
  "\<exists>order. distinct order \<and> set order = {p. succeeded (mail_run ops f evs) p} \<and>
     map mail_item.truncate (readMailbox (mail_file (snd (mail_run ops f evs)))) =
       map mail_item.truncate (readMailbox f) @ concat (map (\<lambda>p. sent_by (ops ! p)) order)"
proof -
  have "map mail_item.truncate (foldl (\<lambda>ms p. op_effect (ops ! p) ms) ms order) =
      map mail_item.truncate ms @ concat (map (\<lambda>p. sent_by (ops ! p)) order)" for ms order
    by (induction order arbitrary: ms) (simp_all add: op_effect_items)
  then show ?thesis by (metis run_order [of ops f evs])
qed

text \<open>
  A poller reads the unread messages and then marks all: a message that arrives in between is marked as
  read, and nobody has seen it.
\<close>

lemma arrival_marked_unseen:
  "readUnreadMessages (markMessagesAsRead (writeToMailbox m f)) = [] \<and>
   new_message m \<in> set (readUnreadMessages (writeToMailbox m f))"
  by (auto simp: readUnreadMessages_def readMailbox_def markMessagesAsRead_def update_inbox_def all_marked_def
      writeToMailbox_def new_message_def mail_item.defs filter_empty_conv)

end
