(* ===== verification/Poller_Laws.thy ===== *)
theory Poller_Laws
  imports Inbox_Poller Mailbox_Locks
begin

text \<open>
  What a session that polls its inbox guarantees: a message that is to become a turn becomes one exactly
  once, and the permission mode follows the leader and the approvals of open requests only.  The latter, and
  the rest of the context, have no protection against other agents.
\<close>

section \<open>A session\<close>

datatype poll_event =
    MailArrives mail_item
  | PollRound bool bool
  | SessionIdle bool

fun poll_step ::
  "poll_env \<Rightarrow> mail_parser \<Rightarrow> poll_state \<times> inbox_file option \<Rightarrow> poll_event \<Rightarrow> poll_state \<times> inbox_file option" where
  "poll_step e parse (s, f) (MailArrives m) = (s, writeToMailbox m f)"
| "poll_step e parse (s, f) (PollRound calm accepted) =
     (let (s', mark) = poll_round e parse calm accepted f s in (s', if mark then markMessagesAsRead f else f))"
| "poll_step e parse (s, f) (SessionIdle accepted) =
     (if nonempty_text (getAgentNameToPoll (poll_identity e) s) then (deliver_pending accepted s, f) else (s, f))"

definition arrivals :: "poll_event list \<Rightarrow> mail_item list" where
  "arrivals = List.map_filter (\<lambda>ev. case ev of MailArrives m \<Rightarrow> Some m | _ \<Rightarrow> None)"

lemma arrivals_simps [simp]:
  "arrivals [] = []" "arrivals (MailArrives m # es) = m # arrivals es"
  "arrivals (PollRound calm acc # es) = arrivals es" "arrivals (SessionIdle acc # es) = arrivals es"
  by (simp_all add: arrivals_def List.map_filter_def)

lemma marked_inbox: "readMailbox (markMessagesAsRead f) = map mark_read (readMailbox f)"
  by (auto simp: markMessagesAsRead_def update_inbox_def all_marked_def readMailbox_def split: option.splits inbox_file.splits)

lemma written_inbox: "readMailbox (writeToMailbox m f) = readMailbox f @ [new_message m]"
  by (simp add: writeToMailbox_def readMailbox_def)

lemma new_message_simps [simp]:
  "\<not> was_read (new_message m)" "sender (new_message m) = sender m" "mail_text (new_message m) = mail_text m"
  by (simp_all add: new_message_def mail_item.defs)

section \<open>What the handlers do to the queue\<close>

text \<open>They append the session's own notices, with fresh identities, and leave the rest alone.\<close>

definition appends_notices :: "poll_state \<Rightarrow> poll_state \<Rightarrow> bool" where
  "appends_notices s s' \<longleftrightarrow>
     prompts s' = prompts s \<and> leadAgentId s' = leadAgentId s \<and>
     (\<exists>ns. notices s' = notices s @ ns \<and> next_id s' = next_id s + length ns \<and>
        queue s' = queue s @ map2 queue_item ns [next_id s..<next_id s + length ns])"

lemma appends_notices_refl: "appends_notices s s"
  by (auto simp: appends_notices_def)

lemma appends_notices_trans: "appends_notices s s' \<Longrightarrow> appends_notices s' s'' \<Longrightarrow> appends_notices s s''"
proof -
  assume "appends_notices s s'" "appends_notices s' s''"
  then obtain ns ns' where *: "notices s' = notices s @ ns" "next_id s' = next_id s + length ns"
    "queue s' = queue s @ map2 queue_item ns [next_id s..<next_id s + length ns]"
    "notices s'' = notices s' @ ns'" "next_id s'' = next_id s' + length ns'"
    "queue s'' = queue s' @ map2 queue_item ns' [next_id s'..<next_id s' + length ns']"
    "prompts s'' = prompts s" "leadAgentId s'' = leadAgentId s"
    by (auto simp: appends_notices_def)
  have "[next_id s..<next_id s + length (ns @ ns')] = [next_id s..<next_id s + length ns] @ [next_id s'..<next_id s' + length ns']"
    using upt_add_eq_append [of "next_id s" "next_id s + length ns" "length ns'"] by (simp add: *(2) add.assoc)
  then show ?thesis using * by (auto simp: appends_notices_def intro!: exI [of _ "ns @ ns'"])
qed

lemma appends_notices_all:
  "appends_notices s s' \<Longrightarrow> (\<And>s m. appends_notices s (h s m)) \<Longrightarrow> appends_notices s (handle_all b h ms s')"
proof -
  have "(\<And>s m. appends_notices s (h s m)) \<Longrightarrow> appends_notices s (foldl h s ms)" for s
    by (induction ms arbitrary: s) (auto intro: appends_notices_refl appends_notices_trans)
  then show "appends_notices s s' \<Longrightarrow> (\<And>s m. appends_notices s (h s m)) \<Longrightarrow> ?thesis"
    by (auto simp: handle_all_def intro: appends_notices_trans)
qed

lemma handler_same_mail:
  "appends_notices s (plan_response e parse s m)" "appends_notices s (permission_request e parse s m)"
  "appends_notices s (permission_response parse s m)" "appends_notices s (sandbox_request parse s m)"
  "appends_notices s (sandbox_response parse s m)" "appends_notices s (team_permission_update parse s m)"
  "appends_notices s (mode_request e parse s m)" "appends_notices s (plan_request md s m)"
  by (auto simp: appends_notices_def plan_response_def permission_request_def permission_response_def persistPermissions_def
      sandbox_request_def sandbox_response_def team_permission_update_def mode_request_def plan_request_def sets_mode_def Let_def
      split: option.split protocol_message.split prod.split)

lemma shutdown_appends: "appends_notices s (shutdown_approved e parse ts s m)"
proof -
  have "appends_notices s (s\<lparr>teammates := ts', queue := queue s @ [queue_item n (next_id s)], next_id := next_id s + 1,
      notices := notices s @ [n]\<rparr>)" for ts' n
    by (auto simp: appends_notices_def intro!: exI [of _ "[n]"])
  then show ?thesis
    by (auto simp: shutdown_approved_def appends_notices_refl split: option.split protocol_message.split prod.split)
qed

lemma handled_appends: "appends_notices s (handled_messages e parse lead teammate ms s)"
  unfolding handled_messages_def Let_def
  by (intro appends_notices_all handler_same_mail shutdown_appends appends_notices_refl)

section \<open>Every message becomes a turn once\<close>

text \<open>The texts that are passed on to the conversation, by a leader or by a teammate.\<close>

definition becomes_turn :: "mail_parser \<Rightarrow> bool \<Rightarrow> bool \<Rightarrow> string \<Rightarrow> bool" where
  "becomes_turn parse lead teammate x \<longleftrightarrow>
     (case parse x of
        Some y \<Rightarrow> \<not> routed y \<or> lead \<and> (y = PlanApprovalRequest \<or> (case y of ShutdownApproved _ \<Rightarrow> True | _ \<Rightarrow> False)) \<or> teammate \<and> y = ShutdownRequest
      | None \<Rightarrow> True)"

lemma truncate_text [simp]: "mail_text (mail_item.truncate m) = mail_text m"
  by (simp add: mail_item.defs)

lemma regular_mset:
  "mset (map mail_item.truncate (regular_messages parse lead teammate ms)) =
     mset (filter (\<lambda>m. becomes_turn parse lead teammate (mail_text m)) (map mail_item.truncate ms))"
proof (induction ms)
  case (Cons m ms)
  then show ?case
    by (cases "parse (mail_text m)"; cases "the (parse (mail_text m))"; cases lead; cases teammate)
      (simp_all add: regular_messages_def of_kind_def becomes_turn_def)
qed (simp add: regular_messages_def)

lemma queue_item_fields:
  "mail_item.truncate (queue_item m i) = m" "queued_id (queue_item m i) = i" "queued_status (queue_item m i) = QueuePending"
  by (simp_all add: queue_item_def mail_item.defs)

lemma queued_zip:
  "length xs = length ys \<Longrightarrow> map queued_id (map2 queue_item xs ys) = ys"
  "length xs = length ys \<Longrightarrow> map mail_item.truncate (map2 queue_item xs ys) = xs"
  "list_all (\<lambda>m. queued_status m = QueuePending) (map2 queue_item xs ys)"
proof -
  show "length xs = length ys \<Longrightarrow> map queued_id (map2 queue_item xs ys) = ys"
    by (induction xs ys rule: list_induct2) (simp_all add: queue_item_fields)
  show "length xs = length ys \<Longrightarrow> map mail_item.truncate (map2 queue_item xs ys) = xs"
    by (induction xs ys rule: list_induct2) (simp_all add: queue_item_fields)
  show "list_all (\<lambda>m. queued_status m = QueuePending) (map2 queue_item xs ys)"
    by (auto simp: list_all_iff queue_item_fields set_zip)
qed

text \<open>The queue: distinct identities below the next one, all pending.\<close>

definition queue_ok :: "poll_state \<Rightarrow> bool" where
  "queue_ok s \<longleftrightarrow> distinct (map queued_id (queue s)) \<and> (\<forall>i\<in>set (map queued_id (queue s)). i < next_id s) \<and>
     list_all (\<lambda>m. queued_status m = QueuePending) (queue s)"

lemma queue_ok_append:
  assumes "queue_ok s" "queue s' = queue s @ map2 queue_item ns [next_id s..<next_id s + length ns]"
    "next_id s' = next_id s + length ns"
  shows "queue_ok s' \<and> map mail_item.truncate (queue s') = map mail_item.truncate (queue s) @ ns"
proof -
  have ids: "map queued_id (queue s') = map queued_id (queue s) @ [next_id s..<next_id s + length ns]"
    and items: "map mail_item.truncate (queue s') = map mail_item.truncate (queue s) @ ns"
    unfolding assms(2) map_append by (simp_all only: queued_zip length_upt diff_add_inverse)
  have "list_all (\<lambda>m. queued_status m = QueuePending) (queue s')"
    using assms(1) queued_zip(3) [of ns "[next_id s..<next_id s + length ns]"] unfolding assms(2) queue_ok_def by simp
  moreover have "distinct (map queued_id (queue s'))" "\<forall>i\<in>set (map queued_id (queue s')). i < next_id s'"
    using assms(1,3) unfolding queue_ok_def ids by fastforce+
  ultimately show ?thesis using items by (simp add: queue_ok_def)
qed

definition delivery_inv :: "poll_env \<Rightarrow> mail_parser \<Rightarrow> string option \<Rightarrow> mail_item list \<Rightarrow> poll_state \<times> inbox_file option \<Rightarrow> bool" where
  "delivery_inv e parse ld arrived x \<longleftrightarrow>
     (case x of (s, f) \<Rightarrow>
        leadAgentId s = ld \<and> queue_ok s \<and>
        (let D = (\<lambda>m. becomes_turn parse (isTeamLead (poll_identity e) ld) (isTeammate (poll_identity e)) (mail_text m))
         in mset (filter D (map mail_item.truncate (readUnreadMessages f))) + mset (map mail_item.truncate (queue s)) +
              mset (concat (prompts s)) = mset (filter D arrived) + mset (notices s)))"

lemma unread_marked [simp]: "readUnreadMessages (markMessagesAsRead f) = []"
  by (auto simp: readUnreadMessages_def marked_inbox filter_empty_conv)

lemma unread_written: "readUnreadMessages (writeToMailbox m f) = readUnreadMessages f @ [new_message m]"
  by (simp add: readUnreadMessages_def written_inbox)

lemma round_delivery:
  assumes "delivery_inv e parse ld arrived (s, f)"
  shows "delivery_inv e parse ld arrived (poll_step e parse (s, f) (PollRound calm accepted))"
proof -
  define ms where "ms = readUnreadMessages f"
  define lead where "lead = isTeamLead (poll_identity e) (leadAgentId s)"
  define tm where "tm = isTeammate (poll_identity e)"
  define s1 where "s1 = handled_messages e parse lead tm ms s"
  define regular where "regular = regular_messages parse lead tm ms"
  obtain ns where same: "prompts s1 = prompts s" "leadAgentId s1 = leadAgentId s" "next_id s1 = next_id s + length ns"
    "queue s1 = queue s @ map2 queue_item ns [next_id s..<next_id s + length ns]" "notices s1 = notices s @ ns"
    using handled_appends [of s e parse lead tm ms] by (auto simp: s1_def appends_notices_def)
  have reg: "mset (map mail_item.truncate regular) =
      mset (filter (\<lambda>m. becomes_turn parse lead tm (mail_text m)) (map mail_item.truncate ms))"
    unfolding regular_def by (rule regular_mset)
  have ld: "leadAgentId s = ld" using assms by (simp add: delivery_inv_def)
  show ?thesis
  proof (cases "nonempty_text (getAgentNameToPoll (poll_identity e) s) \<and> ms \<noteq> []")
    case False
    then have "poll_round e parse calm accepted f s = (s, False)"
      by (auto simp: poll_round_def ms_def)
    then show ?thesis using assms by simp
  next
    case True
    then have r: "poll_round e parse calm accepted f s =
        (if regular = [] then s1
         else if calm \<and> accepted then s1\<lparr>prompts := prompts s1 @ [map mail_item.truncate regular]\<rparr>
         else queue_messages regular s1, True)"
      by (simp add: poll_round_def Let_def ms_def [symmetric] lead_def [symmetric] tm_def [symmetric]
          s1_def [symmetric] regular_def [symmetric])
    have q1: "queue_ok s1" "map mail_item.truncate (queue s1) = map mail_item.truncate (queue s) @ ns"
      using queue_ok_append [OF _ same(4,3)] assms by (auto simp: delivery_inv_def)
    have "queue (queue_messages regular s1) = queue s1 @ map2 queue_item (map mail_item.truncate regular)
        [next_id s1..<next_id s1 + length (map mail_item.truncate regular)]"
      by (simp add: queue_messages_def zip_map1 case_prod_unfold)
    from queue_ok_append [OF q1(1) this] have q2: "queue_ok (queue_messages regular s1)"
      "map mail_item.truncate (queue (queue_messages regular s1)) = map mail_item.truncate (queue s1) @ map mail_item.truncate regular"
      by (simp_all add: queue_messages_def)
    have sum: "mset (map mail_item.truncate regular) + mset (map mail_item.truncate (queue s)) + mset (concat (prompts s)) =
        mset (filter (\<lambda>m. becomes_turn parse lead tm (mail_text m)) arrived) + mset (notices s)"
      using assms reg by (simp add: delivery_inv_def lead_def tm_def ld ms_def Let_def)
    have D: "isTeamLead (poll_identity e) ld = lead" "isTeammate (poll_identity e) = tm"
      by (simp_all add: lead_def tm_def ld)
    define s2 where "s2 = (if regular = [] then s1
      else if calm \<and> accepted then s1\<lparr>prompts := prompts s1 @ [map mail_item.truncate regular]\<rparr>
      else queue_messages regular s1)"
    have "queue_ok s2" using q1 q2 by (auto simp: s2_def queue_ok_def)
    moreover have "mset (map mail_item.truncate (queue s2)) + mset (concat (prompts s2)) =
        mset (map mail_item.truncate regular) + mset (map mail_item.truncate (queue s)) + mset (concat (prompts s)) + mset ns"
    proof -
      have "prompts (queue_messages regular s1) = prompts s1" by (simp add: queue_messages_def)
      then show ?thesis by (auto simp: s2_def q1(2) q2(2) same(1) simp del: mset_map)
    qed
    moreover have "leadAgentId s2 = ld" "notices s2 = notices s @ ns"
      using same ld by (simp_all add: s2_def queue_messages_def)
    ultimately have "delivery_inv e parse ld arrived (s2, markMessagesAsRead f)"
      using sum by (simp add: delivery_inv_def D Let_def ac_simps)
    then show ?thesis by (simp add: r s2_def)
  qed
qed

lemma delivery_step:
  assumes "delivery_inv e parse ld arrived x"
  shows "delivery_inv e parse ld (arrived @ arrivals [ev]) (poll_step e parse x ev)"
proof -
  obtain s f where x: "x = (s, f)" by (cases x)
  show ?thesis
  proof (cases ev)
    case (MailArrives m)
    show ?thesis using assms by (auto simp: x MailArrives delivery_inv_def unread_written Let_def)
  next
    case (PollRound calm accepted)
    show ?thesis using round_delivery assms by (simp add: x PollRound)
  next
    case (SessionIdle accepted)
    have all: "filter (\<lambda>m. queued_status m = QueuePending) (queue s) = queue s"
        "filter (\<lambda>m. queued_status m = QueueProcessed) (queue s) = []"
      using assms by (auto simp: x delivery_inv_def queue_ok_def list_all_iff filter_id_conv filter_empty_conv)
    have "filter (\<lambda>m. queued_id m \<notin> queued_id ` set (queue s)) (queue s) = []"
      by (auto simp: filter_empty_conv)
    then show ?thesis using assms
      by (cases "queue s = []") (simp_all add: x SessionIdle deliver_pending_def all delivery_inv_def queue_ok_def Let_def ac_simps)
  qed
qed


section \<open>Who changes the mode\<close>

definition same_mode :: "poll_state \<Rightarrow> poll_state \<Rightarrow> bool" where
  "same_mode s s' \<longleftrightarrow> mode (tool_context s') = mode (tool_context s)"

lemma same_mode_all:
  "same_mode s s' \<Longrightarrow> (\<And>s m. m \<in> set ms \<Longrightarrow> same_mode s (h s m)) \<Longrightarrow> same_mode s (handle_all b h ms s')"
proof -
  have "(\<And>s m. m \<in> set ms \<Longrightarrow> same_mode s (h s m)) \<Longrightarrow> same_mode s (foldl h s ms)" for s
    by (induction ms arbitrary: s) (auto simp: same_mode_def)
  then show "same_mode s s' \<Longrightarrow> (\<And>s m. m \<in> set ms \<Longrightarrow> same_mode s (h s m)) \<Longrightarrow> ?thesis"
    by (auto simp: handle_all_def same_mode_def)
qed

text \<open>An approval carries updates of the permissions, and these may set the mode.\<close>

fun is_set_mode :: "permission_update \<Rightarrow> bool" where
  "is_set_mode (SetMode d m) = True"
| "is_set_mode _ = False"

definition response_sets_mode :: "mail_parser \<Rightarrow> 'a mail_item_scheme \<Rightarrow> bool" where
  "response_sets_mode parse m \<longleftrightarrow>
     (case parse (mail_text m) of
        Some (PermissionResponse i (Some us)) \<Rightarrow> list_ex is_set_mode us
      | _ \<Rightarrow> False)"

lemma response_sets_mode_new [simp]: "response_sets_mode parse (new_message m) \<longleftrightarrow> response_sets_mode parse m"
  by (simp add: response_sets_mode_def)

lemma response_sets_mode_read [simp]: "response_sets_mode parse (mark_read m) \<longleftrightarrow> response_sets_mode parse m"
  by (simp add: response_sets_mode_def mark_read_def)

lemma update_keeps_mode: "\<not> is_set_mode u \<Longrightarrow> mode (applyPermissionUpdate ctx u) = mode ctx"
  by (cases u) (auto simp: set_rules_def Let_def split: permission_behavior.split)

lemma updates_keep_mode: "\<not> list_ex is_set_mode us \<Longrightarrow> mode (applyPermissionUpdates ctx us) = mode ctx"
  unfolding applyPermissionUpdates_def by (induction us arbitrary: ctx) (simp_all add: update_keeps_mode)

lemma response_same_mode: "\<not> response_sets_mode parse m \<Longrightarrow> same_mode s (permission_response parse s m)"
  by (auto simp: same_mode_def permission_response_def response_sets_mode_def persistPermissions_def Let_def updates_keep_mode
      split: option.split protocol_message.split)

lemma handler_same_mode:
  "sender m \<noteq> ''team-lead'' \<Longrightarrow> same_mode s (plan_response e parse s m)"
  "sender m \<noteq> ''team-lead'' \<Longrightarrow> same_mode s (mode_request e parse s m)"
  "same_mode s (permission_request e parse s m)"
  "same_mode s (sandbox_request parse s m)"
  "same_mode s (sandbox_response parse s m)" "same_mode s (team_permission_update parse s m)"
  "same_mode s (plan_request md s m)" "same_mode s (shutdown_approved e parse ts s m)"
  by (auto simp: same_mode_def plan_response_def permission_request_def permission_response_def sandbox_request_def
      sandbox_response_def team_permission_update_def mode_request_def plan_request_def shutdown_approved_def set_rules_def
      split: option.split protocol_message.split prod.split permission_behavior.split)

lemma handled_same_mode:
  assumes "\<forall>m\<in>set ms. sender m \<noteq> ''team-lead'' \<and> \<not> response_sets_mode parse m"
  shows "same_mode s (handled_messages e parse lead teammate ms s)"
  unfolding handled_messages_def Let_def
  by (intro same_mode_all handler_same_mode response_same_mode) (use assms in \<open>auto simp: same_mode_def\<close>)

lemma round_same_mode:
  assumes "\<forall>m\<in>set (readMailbox f). sender m \<noteq> ''team-lead'' \<and> \<not> response_sets_mode parse m"
  shows "same_mode s (fst (poll_round e parse calm accepted f s))"
proof -
  have "\<forall>m\<in>set (readUnreadMessages f). sender m \<noteq> ''team-lead'' \<and> \<not> response_sets_mode parse m" using assms by (simp add: readUnreadMessages_def)
  note handled_same_mode [OF this, of s e]
  then show ?thesis by (auto simp: poll_round_def Let_def same_mode_def queue_messages_def)
qed


section \<open>Examples\<close>

definition worker :: poll_env where
  "worker = \<lparr>poll_identity = \<lparr>teammateContext = None, dynamicTeamContext =
       Some \<lparr>identity_id = ''w@t'', identity_name = ''w'', identity_team = ''t'', identity_color = None\<rparr>\<rparr>,
     planModeRequired = True, known_tool = (\<lambda>_. True), confirm_available = True,
     poll_features = \<lparr>kairos = False, transcript_classifier = False, bash_classifier = False, powershell_auto_mode = False\<rparr>,
     unassign_notice = (\<lambda>x. x), json_string = (\<lambda>x. x), time_stamp = []\<rparr>"

definition fresh_session :: poll_state where
  "fresh_session = \<lparr>leadAgentId = None, teammates = [], tool_context = getEmptyToolPermissionContext, queue = [],
     next_id = 0, prompts = [], confirm_queue = [], permission_callbacks = [(''r'', True)], sandbox_callbacks = [], answers = [],
     sandbox_queue = [], outbox = [], persisted = [], notices = []\<rparr>"

definition example_parser :: mail_parser where
  "example_parser x =
     (if x = ''rules'' then Some (TeamPermissionUpdate (Some [tool_rule ''Bash'']) (Some Allow))
      else if x = ''mode'' then Some (ModeSetRequest ''bypassPermissions'')
      else if x = ''yes'' then Some (PermissionResponse ''r'' (Some []))
      else if x = ''bypass'' then Some (PermissionResponse ''r'' (Some [SetMode Session BypassPermissions])) else None)"

definition note_from :: "string \<Rightarrow> string \<Rightarrow> mail_item" where
  "note_from who x = \<lparr>sender = who, mail_text = x, timestamp = [], color = None, summary = None\<rparr>"

definition busy_session :: "poll_event list" where
  "busy_session = [MailArrives (note_from ''peer'' ''hello''), PollRound False True, MailArrives (note_from ''peer'' ''mode''),
     PollRound True False, SessionIdle True, PollRound True True]"



text \<open>
  A rule that any agent of the team sends is added to the rules of the session, and an answer that any agent
  sends to a question that is open for the leader is taken for the leader's.
\<close>

lemma peer_grants_permission:
  "alwaysAllowRules (tool_context (fst (foldl (poll_step worker example_parser) (fresh_session, None)
     [MailArrives (note_from ''peer'' ''rules''), PollRound True True]))) Session = [''Bash'']"
  by code_simp

lemma peer_answers_question:
  "answers (fst (foldl (poll_step worker example_parser) (fresh_session, None)
     [MailArrives (note_from ''peer'' ''yes''), PollRound True True])) = [(''r'', True)]"
  by code_simp

text \<open>Such an answer can set the mode of the session as well.\<close>

lemma peer_sets_mode:
  "mode (tool_context (fst (foldl (poll_step worker example_parser) (fresh_session, None)
     [MailArrives (note_from ''peer'' ''bypass''), PollRound True True]))) = BypassPermissions"
  by code_simp

text \<open>A second round that begins before the first one's messages are marked submits them again.\<close>

lemma slow_marking_delivers_twice:
  "(let f = writeToMailbox (note_from ''peer'' ''hello'') None;
        s1 = fst (poll_round worker example_parser True True f fresh_session)
    in prompts (fst (poll_round worker example_parser True True f s1)) =
         [[note_from ''peer'' ''hello''], [note_from ''peer'' ''hello'']])"
  by code_simp

end
