(* ===== verification/Task_Tools.thy ===== *)
theory Task_Tools
  imports Mailbox
begin

text \<open>
  The tools through which the agents use the task list (\<open>src/tools/TaskCreateTool\<close>, \<open>TaskGetTool\<close>,
  \<open>TaskListTool\<close> and \<open>TaskUpdateTool\<close>), and which list a session uses (\<open>src/utils/tasks.ts\<close>).  A value
  of the metadata is its text; whether it counts as true is an argument, as are the objections of hooks
  and the text of a message.
\<close>

section \<open>State\<close>

record tools_state =
  lists :: "string \<Rightarrow> task_dir"
  inboxes :: "string \<times> string \<Rightarrow> inbox_file option"
  expandedView :: string

record tools_env =
  identity :: team_env
  envTaskListId :: "string option"
  leaderTeamName :: "string option"
  session_id :: string
  runtimeMode :: bool
  tasksEnabledByEnv :: bool
  nonInteractive :: bool
  swarms :: bool
  main_thread :: bool
  verification_agent :: bool
  internal_build :: bool
  truthy :: "string \<Rightarrow> bool"
  created_objections :: "string \<Rightarrow> string \<Rightarrow> string \<Rightarrow> string list"
  completed_objections :: "string \<Rightarrow> string \<Rightarrow> string \<Rightarrow> string list"
  assignment_text :: "string \<Rightarrow> string \<Rightarrow> string \<Rightarrow> string \<Rightarrow> string"
  current_time :: string

section \<open>The list of a session\<close>

definition setLeaderTeamName :: "string \<Rightarrow> tools_env \<Rightarrow> tools_env" where
  "setLeaderTeamName team e = (if leaderTeamName e = Some team then e else e\<lparr>leaderTeamName := Some team\<rparr>)"

definition clearLeaderTeamName :: "tools_env \<Rightarrow> tools_env" where
  "clearLeaderTeamName e = (if leaderTeamName e = None then e else e\<lparr>leaderTeamName := None\<rparr>)"

definition isTodoV2Enabled :: "tools_env \<Rightarrow> bool" where
  "isTodoV2Enabled e \<longleftrightarrow> runtimeMode e \<or> tasksEnabledByEnv e \<or> \<not> nonInteractive e"

definition getTaskListId :: "tools_env \<Rightarrow> string" where
  "getTaskListId e =
     (if nonempty_text (envTaskListId e) then or_text (envTaskListId e) []
      else case teammateContext (identity e) of
        Some c \<Rightarrow> identity_team c
      | None \<Rightarrow> or_text (getTeamName (identity e) None) (or_text (leaderTeamName e) (session_id e)))"

text \<open>The name of the directory of a list, below that of all lists.\<close>

definition getTasksDir :: "string \<Rightarrow> string" where "getTasksDir = sanitizePathComponent"

definition on_list :: "tools_env \<Rightarrow> (task_dir \<Rightarrow> task_dir) \<Rightarrow> tools_state \<Rightarrow> tools_state" where
  "on_list e g st = (let k = getTasksDir (getTaskListId e) in st\<lparr>lists := (lists st)(k := g (lists st k))\<rparr>)"

definition own_list :: "tools_env \<Rightarrow> tools_state \<Rightarrow> task_dir" where
  "own_list e st = lists st (getTasksDir (getTaskListId e))"

definition show_tasks :: "tools_state \<Rightarrow> tools_state" where
  "show_tasks st = (if expandedView st = ''tasks'' then st else st\<lparr>expandedView := ''tasks''\<rparr>)"

text \<open>What the creation of a team does to the list of the leader.\<close>

definition team_created :: "string \<Rightarrow> tools_env \<times> tools_state \<Rightarrow> tools_env \<times> tools_state" where
  "team_created finalTeamName s =
     (case s of (e, st) \<Rightarrow>
        (setLeaderTeamName (sanitizeName finalTeamName) e,
         st\<lparr>lists := (lists st)(getTasksDir (sanitizeName finalTeamName) :=
             resetTaskList (lists st (getTasksDir (sanitizeName finalTeamName))))\<rparr>))"

section \<open>TaskCreate\<close>

text \<open>The result is the error that is thrown, or the identifier with the subject.\<close>

definition taskCreate_call ::
  "tools_env \<Rightarrow> string \<Rightarrow> string \<Rightarrow> string option \<Rightarrow> (string \<times> string) list option \<Rightarrow> tools_state \<Rightarrow>
     (string + string \<times> string) \<times> tools_state" where
  "taskCreate_call e subj desc form meta st =
     (let (i, d) = createTask (new_task subj desc form meta) (own_list e st);
          st1 = on_list e (\<lambda>_. d) st;
          objections = created_objections e i subj desc
      in if objections \<noteq> []
         then (Inl (js_join [CHR 0x0A] objections), on_list e (\<lambda>d. snd (deleteTask (internal_build e) i d)) st1)
         else (Inr (i, subj), show_tasks st1))"

definition taskCreate_text :: "string \<times> string \<Rightarrow> string" where
  "taskCreate_text r = ''Task #'' @ fst r @ '' created successfully: '' @ snd r"

section \<open>TaskGet and TaskList\<close>

definition task_refs :: "string list \<Rightarrow> string" where
  "task_refs ids = js_join '', '' (map (\<lambda>i. ''#'' @ i) ids)"

definition taskGet_call :: "tools_env \<Rightarrow> string \<Rightarrow> tools_state \<Rightarrow> task option" where
  "taskGet_call e i st = getTask (internal_build e) (own_list e st) i"

definition taskGet_text :: "task option \<Rightarrow> string" where
  "taskGet_text r =
     (case r of None \<Rightarrow> ''Task not found''
      | Some t \<Rightarrow> js_join [CHR 0x0A]
          ([''Task #'' @ task_id t @ '': '' @ subject t, ''Status: '' @ status_string (task_status t),
            ''Description: '' @ description t] @
           (if blockedBy t \<noteq> [] then [''Blocked by: '' @ task_refs (blockedBy t)] else []) @
           (if blocks t \<noteq> [] then [''Blocks: '' @ task_refs (blocks t)] else [])))"

record shown_task =
  shown_id :: string
  shown_subject :: string
  shown_status :: task_status
  shown_owner :: "string option"
  shown_blockers :: "string list"

definition internal_task :: "tools_env \<Rightarrow> task \<Rightarrow> bool" where
  "internal_task e t \<longleftrightarrow>
     (case metadata t of None \<Rightarrow> False
      | Some kvs \<Rightarrow> (case map_of kvs ''_internal'' of None \<Rightarrow> False | Some v \<Rightarrow> truthy e v))"

definition taskList_call :: "tools_env \<Rightarrow> tools_state \<Rightarrow> shown_task list" where
  "taskList_call e st =
     (let allTasks = filter (\<lambda>t. \<not> internal_task e t) (listTasks (internal_build e) (own_list e st));
          resolved = map task_id (filter (\<lambda>t. task_status t = TaskCompleted) allTasks)
      in map (\<lambda>t. \<lparr>shown_id = task_id t, shown_subject = subject t, shown_status = task_status t, shown_owner = owner t,
           shown_blockers = filter (\<lambda>i. i \<notin> set resolved) (blockedBy t)\<rparr>) allTasks)"

definition taskList_text :: "shown_task list \<Rightarrow> string" where
  "taskList_text ts =
     (if ts = [] then ''No tasks found''
      else js_join [CHR 0x0A] (map (\<lambda>t.
        ''#'' @ shown_id t @ '' ['' @ status_string (shown_status t) @ ''] '' @ shown_subject t @
        (if nonempty_text (shown_owner t) then '' ('' @ or_text (shown_owner t) [] @ '')'' else []) @
        (if shown_blockers t \<noteq> [] then '' [blocked by '' @ task_refs (shown_blockers t) @ '']'' else [])) ts))"

section \<open>TaskUpdate\<close>

datatype update_status = ToStatus task_status | ToDeleted

record update_input =
  in_taskId :: string
  in_subject :: "string option"
  in_description :: "string option"
  in_activeForm :: "string option"
  in_status :: "update_status option"
  in_owner :: "string option"
  addBlocks :: "string list option"
  addBlockedBy :: "string list option"
  in_metadata :: "(string \<times> string option) list option"

record update_result =
  update_success :: bool
  updatedFields :: "string list"
  update_error :: "string option"
  statusChange :: "(string \<times> string) option"
  verificationNudgeNeeded :: bool

definition merge_metadata ::
  "(string \<times> string) list option \<Rightarrow> (string \<times> string option) list \<Rightarrow> (string \<times> string) list" where
  "merge_metadata old new =
     foldl (\<lambda>merged (key, value). case value of None \<Rightarrow> AList.delete key merged | Some v \<Rightarrow> AList.update key v merged)
       (case old of None \<Rightarrow> [] | Some m \<Rightarrow> m) new"

text \<open>An option that is given and differs from what the task has.\<close>

definition changed :: "'a option \<Rightarrow> 'a option \<Rightarrow> bool" where
  "changed new old \<longleftrightarrow> new \<noteq> None \<and> new \<noteq> old"

definition auto_owner :: "tools_env \<Rightarrow> update_input \<Rightarrow> task \<Rightarrow> string option" where
  "auto_owner e inp t =
     (if swarms e \<and> in_status inp = Some (ToStatus TaskInProgress) \<and> in_owner inp = None \<and> \<not> nonempty_text (owner t) \<and>
         nonempty_text (getAgentName (identity e))
      then getAgentName (identity e) else None)"

definition new_owner :: "tools_env \<Rightarrow> update_input \<Rightarrow> task \<Rightarrow> string option" where
  "new_owner e inp t = (if changed (in_owner inp) (owner t) then in_owner inp else auto_owner e inp t)"

definition new_status :: "update_input \<Rightarrow> task \<Rightarrow> task_status option" where
  "new_status inp t =
     (case in_status inp of Some (ToStatus st) \<Rightarrow> if st \<noteq> task_status t then Some st else None | _ \<Rightarrow> None)"

definition basic_updates :: "tools_env \<Rightarrow> update_input \<Rightarrow> task \<Rightarrow> task_updates" where
  "basic_updates e inp t =
     \<lparr>u_subject = (if changed (in_subject inp) (Some (subject t)) then in_subject inp else None),
      u_description = (if changed (in_description inp) (Some (description t)) then in_description inp else None),
      u_activeForm = (if changed (in_activeForm inp) (activeForm t) then Some (in_activeForm inp) else None),
      u_owner = map_option Some (new_owner e inp t), u_status = new_status inp t, u_blocks = None, u_blockedBy = None,
      u_metadata = map_option (\<lambda>m. Some (merge_metadata (metadata t) m)) (in_metadata inp)\<rparr>"

definition basic_fields :: "task_updates \<Rightarrow> string list" where
  "basic_fields u =
     (if u_subject u \<noteq> None then [''subject''] else []) @ (if u_description u \<noteq> None then [''description''] else []) @
     (if u_activeForm u \<noteq> None then [''activeForm''] else []) @ (if u_owner u \<noteq> None then [''owner''] else []) @
     (if u_metadata u \<noteq> None then [''metadata''] else []) @ (if u_status u \<noteq> None then [''status''] else [])"

definition notify_owner :: "tools_env \<Rightarrow> task \<Rightarrow> string \<Rightarrow> string option \<Rightarrow> tools_state \<Rightarrow> tools_state" where
  "notify_owner e t i who st =
     (if swarms e \<and> nonempty_text who then
        (let senderName = or_text (getAgentName (identity e)) ''team-lead'';
             key = getInboxPath (identity e) (or_text who []) (Some (getTaskListId e));
             m = \<lparr>sender = senderName, mail_text = assignment_text e i (subject t) (description t) senderName,
                  timestamp = current_time e, color = getTeammateColor (identity e), summary = None\<rparr>
         in st\<lparr>inboxes := (inboxes st)(key := writeToMailbox m (inboxes st key))\<rparr>)
      else st)"

definition new_links :: "string list option \<Rightarrow> string list \<Rightarrow> string list" where
  "new_links given present = (case given of None \<Rightarrow> [] | Some ids \<Rightarrow> filter (\<lambda>i. i \<notin> set present) ids)"

text \<open>The test of the subject is for \<open>verif\<close>, in any case.\<close>

definition nudge_needed :: "tools_env \<Rightarrow> task_updates \<Rightarrow> task list \<Rightarrow> bool" where
  "nudge_needed e u ts \<longleftrightarrow>
     verification_agent e \<and> main_thread e \<and> u_status u = Some TaskCompleted \<and>
     list_all (\<lambda>t. task_status t = TaskCompleted) ts \<and> 3 \<le> length ts \<and>
     \<not> list_ex (\<lambda>t. index_of ''verif'' (toLowerCase (subject t)) \<noteq> None) ts"

definition failed_update :: "string \<Rightarrow> update_result" where
  "failed_update msg =
     \<lparr>update_success = False, updatedFields = [], update_error = Some msg, statusChange = None, verificationNudgeNeeded = False\<rparr>"

definition deleted_update :: "bool \<Rightarrow> task \<Rightarrow> update_result" where
  "deleted_update ok t =
     (if ok then \<lparr>update_success = True, updatedFields = [''deleted''], update_error = None,
        statusChange = Some (status_string (task_status t), ''deleted''), verificationNudgeNeeded = False\<rparr>
      else failed_update ''Failed to delete task'')"

definition taskUpdate_call :: "tools_env \<Rightarrow> update_input \<Rightarrow> tools_state \<Rightarrow> update_result \<times> tools_state" where
  "taskUpdate_call e inp st0 =
     (let st = show_tasks st0; i = in_taskId inp; ant = internal_build e
      in case getTask ant (own_list e st) i of
           None \<Rightarrow> (failed_update ''Task not found'', st)
         | Some t \<Rightarrow>
             if in_status inp = Some ToDeleted
             then (let (ok, d) = deleteTask ant i (own_list e st) in (deleted_update ok t, on_list e (\<lambda>_. d) st))
             else
               (let u = basic_updates e inp t;
                    objections = (if u_status u = Some TaskCompleted then completed_objections e i (subject t) (description t) else []);
                    st1 = (if basic_fields u \<noteq> [] then on_list e (\<lambda>d. snd (updateTask ant i u d)) st else st);
                    st2 = notify_owner e t i (new_owner e inp t) st1;
                    newBlocks = new_links (addBlocks inp) (blocks t);
                    newBlockedBy = new_links (addBlockedBy inp) (blockedBy t);
                    st3 = foldl (\<lambda>st b. on_list e (\<lambda>d. snd (blockTask ant i b d)) st) st2 newBlocks;
                    st4 = foldl (\<lambda>st b. on_list e (\<lambda>d. snd (blockTask ant b i d)) st) st3 newBlockedBy
                in if objections \<noteq> [] then (failed_update (js_join [CHR 0x0A] objections), st)
                   else (\<lparr>update_success = True,
                           updatedFields = basic_fields u @ (if newBlocks \<noteq> [] then [''blocks''] else []) @
                             (if newBlockedBy \<noteq> [] then [''blockedBy''] else []),
                           update_error = None,
                           statusChange = map_option (\<lambda>s. (status_string (task_status t), status_string s)) (u_status u),
                           verificationNudgeNeeded = nudge_needed e u (listTasks ant (own_list e st4))\<rparr>, st4)))"

definition taskUpdate_text :: "tools_env \<Rightarrow> string \<Rightarrow> string \<Rightarrow> update_result \<Rightarrow> string" where
  "taskUpdate_text e nudge i r =
     (if \<not> update_success r then or_text (update_error r) (''Task #'' @ i @ '' not found'')
      else ''Updated task #'' @ i @ '' '' @ js_join '', '' (updatedFields r) @
        (if map_option snd (statusChange r) = Some ''completed'' \<and> nonempty_text (getAgentId (identity e)) \<and> swarms e
         then [CHR 0x0A, CHR 0x0A] @
           ''Task completed. Call TaskList now to find your next available task or see if your work unblocked others.''
         else []) @ (if verificationNudgeNeeded r then nudge else []))"

definition taskUpdate_checkPermissions :: "update_input \<Rightarrow> string option" where
  "taskUpdate_checkPermissions inp =
     (if in_status inp = Some ToDeleted then Some (''TaskUpdate wants to delete task '' @ [CHR 0x27] @ in_taskId inp @ [CHR 0x27, CHR ''.''])
      else None)"

section \<open>A session that watches a list\<close>

text \<open>
  \<open>checkForTasks\<close> of \<open>src/hooks/useTaskListWatcher.ts\<close>: the list, the task that the session works on, and
  the answer to the submission of a prompt.
\<close>

definition checkForTasks ::
  "bool \<Rightarrow> string \<Rightarrow> bool \<Rightarrow> (string \<Rightarrow> bool) \<Rightarrow> string option \<times> task_dir \<Rightarrow> string option \<times> task_dir" where
  "checkForTasks ant taskListId loading submit s =
     (case s of (current, d) \<Rightarrow>
        if loading then s
        else
          (let ts = listTasks ant d;
               working = (case current of None \<Rightarrow> False
                 | Some i \<Rightarrow> (case find (\<lambda>t. task_id t = i) ts of None \<Rightarrow> False | Some t \<Rightarrow> task_status t \<noteq> TaskCompleted))
           in if working then s
              else (case findAvailableTask ts of
                  None \<Rightarrow> (None, d)
                | Some t \<Rightarrow>
                    (case claimTask ant (task_id t) taskListId False d of
                       (Claimed _, d1) \<Rightarrow>
                         if submit (formatTaskAsPrompt t) then (Some (task_id t), d1)
                         else (None, snd (updateTask ant (task_id t) (no_updates\<lparr>u_owner := Some None\<rparr>) d1))
                     | (_, d1) \<Rightarrow> (None, d1)))))"

end
