(* ===== verification/Task_Tool_Laws.thy ===== *)
theory Task_Tool_Laws
  imports Task_Tools Task_Laws
begin

text \<open>
  What holds of the lists when agents work on them through the tools, each with its own environment: the
  invariant of the lists carries over, the blockers that are shown are those that a claim looks at, and a
  call that fails leaves the tasks alone.
\<close>

section \<open>Sessions of tool calls\<close>

definition sound_list :: "task_dir \<Rightarrow> bool" where "sound_list d \<longleftrightarrow> (\<exists>given. task_inv (d, given))"

lemma step_list: "fst (task_step ant (d, g) ev) = fst (task_step ant (d, h) ev)"
  by (cases ev) (simp_all add: Let_def case_prod_beta)

lemma sound_step: "sound_list d \<Longrightarrow> sound_list (fst (task_step ant (d, []) ev))"
  unfolding sound_list_def by (metis prod.collapse tasks.step_inv step_list)

lemma sound_update:
  assumes "sound_list d" "u_blocks u = None" "u_blockedBy u = None"
  shows "sound_list (snd (updateTask ant i u d))"
proof -
  have "plain_updates u = u" using assms(2,3) by (cases u) (simp add: plain_updates_def)
  then show ?thesis using sound_step [OF assms(1), of ant "UpdateOp i u"] by simp
qed

lemma sound_ops:
  "sound_list d \<Longrightarrow> sound_list (snd (createTask (new_task subj desc form meta) d))"
  "sound_list d \<Longrightarrow> sound_list (snd (deleteTask ant i d))"
  "sound_list d \<Longrightarrow> sound_list (resetTaskList d)"
  "sound_list d \<Longrightarrow> sound_list (snd (blockTask ant i j d))"
  "sound_list d \<Longrightarrow> sound_list (snd (tryClaimNextTask ant name d))"
  using sound_step [of d ant "CreateOp subj desc form meta"] sound_step [of d ant "DeleteOp i"]
    sound_step [of d ant ResetOp] sound_step [of d ant "BlockOp i j"] sound_step [of d ant "ClaimNextOp name"]
  by (simp_all add: Let_def case_prod_beta)

lemma sound_empty: "sound_list empty_dir"
  using empty_inv by (auto simp: sound_list_def)

text \<open>Calls by any agents, the start of a team, and an in-process teammate that looks for work in a list.\<close>

datatype tool_event =
    UpdateCall tools_env update_input
  | CreateCall tools_env string string "string option" "(string \<times> string) list option"
  | TeamStart string
  | FindWork bool string string

fun tool_step :: "tools_state \<Rightarrow> tool_event \<Rightarrow> tools_state" where
  "tool_step st (UpdateCall e inp) = snd (taskUpdate_call e inp st)"
| "tool_step st (CreateCall e subj desc form meta) = snd (taskCreate_call e subj desc form meta st)"
| "tool_step st (TeamStart team) =
     st\<lparr>lists := (lists st)(getTasksDir (sanitizeName team) := resetTaskList (lists st (getTasksDir (sanitizeName team))))\<rparr>"
| "tool_step st (FindWork ant listId name) =
     st\<lparr>lists := (lists st)(getTasksDir listId := snd (tryClaimNextTask ant name (lists st (getTasksDir listId))))\<rparr>"

definition sound_lists :: "tools_state \<Rightarrow> bool" where "sound_lists st \<longleftrightarrow> (\<forall>k. sound_list (lists st k))"

lemma sound_on_list: "sound_lists st \<Longrightarrow> (\<And>d. sound_list d \<Longrightarrow> sound_list (g d)) \<Longrightarrow> sound_lists (on_list e g st)"
  by (auto simp: sound_lists_def on_list_def Let_def)

lemma sound_links:
  "sound_lists st \<Longrightarrow> sound_lists (foldl (\<lambda>st b. on_list e (\<lambda>d. snd (blockTask ant i b d)) st) st bs)"
  "sound_lists st \<Longrightarrow> sound_lists (foldl (\<lambda>st b. on_list e (\<lambda>d. snd (blockTask ant b i d)) st) st bs)"
  by (induction bs arbitrary: st) (simp_all add: sound_on_list sound_ops)

lemma basic_plain [simp]: "u_blocks (basic_updates e inp t) = None" "u_blockedBy (basic_updates e inp t) = None"
  by (simp_all add: basic_updates_def)

lemma lists_show [simp]: "lists (show_tasks st) = lists st" "inboxes (show_tasks st) = inboxes st"
  by (simp_all add: show_tasks_def)

lemma lists_notify [simp]: "lists (notify_owner e t i who st) = lists st"
  by (simp add: notify_owner_def Let_def)

lemma sound_same: "lists st' = lists st \<Longrightarrow> sound_lists st' \<longleftrightarrow> sound_lists st"
  by (simp add: sound_lists_def)

lemma sound_notify [simp]: "sound_lists (notify_owner e t i who st) \<longleftrightarrow> sound_lists st"
  by (rule sound_same) simp

lemma on_list_const: "on_list e (\<lambda>_. g (own_list e st)) st = on_list e g st"
  by (simp add: on_list_def own_list_def Let_def)

lemma sound_update_call:
  assumes "sound_lists st"
  shows "sound_lists (snd (taskUpdate_call e inp st))"
proof (cases "getTask (internal_build e) (own_list e (show_tasks st)) (in_taskId inp)")
  case None
  then show ?thesis using assms by (simp add: taskUpdate_call_def Let_def sound_same [of "show_tasks st" st])
next
  case (Some t)
  define st1 where "st1 = show_tasks st"
  define u where "u = basic_updates e inp t"
  have st1: "sound_lists st1" using assms by (simp add: st1_def sound_same [of "show_tasks st" st])
  have del: "on_list e (\<lambda>_. snd (deleteTask ant i (own_list e st1))) st1 = on_list e (\<lambda>d. snd (deleteTask ant i d)) st1" for ant i
    by (rule on_list_const)
  have up: "sound_lists (on_list e (\<lambda>d. snd (updateTask ant i u d)) st1)" for ant i
    using st1 by (auto intro!: sound_on_list sound_update simp: u_def)
  show ?thesis
    using st1 Some up unfolding taskUpdate_call_def Let_def st1_def [symmetric]
    by (auto simp: u_def [symmetric] case_prod_beta del intro!: sound_links sound_on_list sound_ops)
qed

lemma sound_create_call:
  assumes "sound_lists st"
  shows "sound_lists (snd (taskCreate_call e subj desc form meta st))"
proof -
  let ?g = "\<lambda>d. snd (createTask (new_task subj desc form meta) d)"
  have "on_list e (\<lambda>_. ?g (own_list e st)) st = on_list e ?g st" by (rule on_list_const)
  moreover have "sound_lists (on_list e ?g st)" using assms by (auto intro!: sound_on_list sound_ops)
  ultimately show ?thesis
    by (simp add: taskCreate_call_def Let_def case_prod_beta sound_on_list sound_ops sound_same [OF lists_show(1)])
qed

interpretation tools: machine tool_step sound_lists
proof
  fix st ev assume st: "sound_lists st"
  then show "sound_lists (tool_step st ev)"
    by (cases ev) (simp_all add: sound_update_call sound_create_call, auto simp: sound_lists_def intro: sound_ops)
qed

definition empty_lists :: tools_state where
  "empty_lists = \<lparr>lists = (\<lambda>_. empty_dir), inboxes = (\<lambda>_. None), expandedView = ''none''\<rparr>"

abbreviation tool_session :: "tool_event list \<Rightarrow> tools_state" where "tool_session \<equiv> foldl tool_step empty_lists"

lemma tool_session_list:
  obtains T k where "becomes (lists (tool_session evs) key) T k" "mirrored T"
proof -
  have "sound_lists empty_lists" by (simp add: sound_lists_def empty_lists_def sound_empty)
  then have "sound_lists (tool_session evs)" by (rule tools.run_inv)
  then show ?thesis using that by (auto simp: sound_lists_def sound_list_def task_inv_def)
qed

text \<open>
  TaskList shows of every task exactly the blockers for which a claim of it would be refused, after any
  session of tool calls by any agents, unless a completed task is an internal one.
\<close>

theorem shown_blockers_exact:
  assumes "st = tool_session evs" "ts = listTasks (internal_build e) (own_list e st)"
    and "\<forall>t\<in>set ts. task_status t = TaskCompleted \<longrightarrow> \<not> internal_task e t"
  shows "map (\<lambda>s. (shown_id s, shown_blockers s)) (taskList_call e st) =
    map (\<lambda>t. (task_id t, open_blockers ts t)) (filter (\<lambda>t. \<not> internal_task e t) ts)"
proof -
  obtain T k where T: "becomes (own_list e st) T k" "mirrored T"
    using tool_session_list [of evs "getTasksDir (getTaskListId e)"] by (auto simp: own_list_def assms(1))
  have d: "tidy_dir (own_list e st)" "T = tasks_at (own_list e st)" using T(1) by (auto simp: becomes_def)
  have ts: "t \<in> set ts \<longleftrightarrow> (\<exists>n. T n = Some t)" for t
    using listTasks_set [OF d(1)] by (auto simp: assms(2) d(2) ran_def)
  have ids: "T n = Some t \<Longrightarrow> task_id t = decimal n" for n t using tasks_at_id [OF d(1)] by (simp add: d(2))
  let ?resolved = "map task_id (filter (\<lambda>t. task_status t = TaskCompleted) (filter (\<lambda>t. \<not> internal_task e t) ts))"
  have "i \<notin> set ?resolved \<longleftrightarrow> i \<in> set (unresolved_ids ts)" if t: "t \<in> set ts" "i \<in> set (blockedBy t)" for t i
  proof -
    obtain n where n: "T n = Some t" using iffD1 [OF ts t(1)] by blast
    then have "i \<in> in_refs T n" using t(2) by (simp add: in_refs_def)
    then obtain m u where m: "i = decimal m" "T m = Some u" using T(2) by (fastforce simp: mirrored_def)
    have u: "v = u" if v: "v \<in> set ts" "task_id v = i" for v
    proof -
      obtain l where l: "T l = Some v" using iffD1 [OF ts v(1)] by blast
      have "decimal l = decimal m" unfolding ids [OF l, symmetric] v(2) by (rule m(1))
      then have "l = m" unfolding decimal_inj .
      then have "Some v = Some u" unfolding l [symmetric] m(2) [symmetric] by (rule arg_cong)
      then show ?thesis by (rule option.inject [THEN iffD1])
    qed
    have uts: "u \<in> set ts" "task_id u = i" using m ts ids by auto
    have "i \<in> set ?resolved \<longleftrightarrow> task_status u = TaskCompleted \<and> \<not> internal_task e u"
      unfolding set_map set_filter using u uts by blast
    moreover have "i \<in> set (unresolved_ids ts) \<longleftrightarrow> task_status u \<noteq> TaskCompleted"
      unfolding unresolved_ids_def set_map set_filter using u uts by blast
    ultimately show ?thesis using assms(3) uts(1) by blast
  qed
  then have "filter (\<lambda>i. i \<notin> set ?resolved) (blockedBy t) = open_blockers ts t" if "t \<in> set ts" for t
    using that by (auto simp: open_blockers_def intro!: filter_cong)
  then show ?thesis by (simp add: taskList_call_def Let_def assms(2) [symmetric])
qed

section \<open>Failures\<close>

lemma fresh_reference:
  assumes "mirrored T" "T n = None" "T m = Some t"
  shows "without_reference (decimal n) t = t"
proof -
  have "out_refs T m \<union> in_refs T m \<subseteq> decimal ` dom T" using assms(1) by (simp add: mirrored_def)
  then have "decimal n \<notin> set (blocks t)" "decimal n \<notin> set (blockedBy t)"
    using assms(2,3) by (auto simp: out_refs_def in_refs_def)
  then have "filter (\<lambda>j. j \<noteq> decimal n) (blocks t) = blocks t" "filter (\<lambda>j. j \<noteq> decimal n) (blockedBy t) = blockedBy t"
    by (auto simp: filter_id_conv)
  then show ?thesis by (simp add: without_same)
qed

lemma create_delete_same:
  assumes "becomes d T k" "mirrored T" "createTask data d = (i, d1)"
  shows "\<exists>k'. becomes (snd (deleteTask ant i d1)) T k'"
proof -
  obtain n where n: "i = decimal n" "k < n" "\<And>m t. T m = Some t \<Longrightarrow> m < n"
    "becomes d1 (T(n \<mapsto> data\<lparr>task_id := decimal n\<rparr>)) k"
    by (rule create_becomes [OF assms(1,3)]) blast
  obtain ok d2 where del: "deleteTask ant i d1 = (ok, d2)" by fastforce
  let ?T1 = "T(n \<mapsto> data\<lparr>task_id := decimal n\<rparr>)"
  obtain k' where k': "ok \<longleftrightarrow> (\<exists>m t. i = decimal m \<and> ?T1 m = Some t)"
    "becomes d2 (if ok then (\<lambda>m. if i = decimal m then None else map_option (without_reference i) (?T1 m)) else ?T1) k'"
    by (rule delete_becomes [OF n(4) del]) blast
  have none: "T n = None" using n(3) by (metis not_Some_eq less_irrefl)
  have "(\<lambda>m. if i = decimal m then None else map_option (without_reference i) (?T1 m)) = T"
  proof
    fix m
    show "(if i = decimal m then None else map_option (without_reference i) (?T1 m)) = T m"
      using none fresh_reference [OF assms(2) none, of m] n(1)
      by (cases "T m") auto
  qed
  moreover have ok using k'(1) n(1) by auto
  ultimately show ?thesis using k'(2) by (auto simp: del)
qed

lemma becomes_getTask: "becomes d T k \<Longrightarrow> becomes d' T k' \<Longrightarrow> getTask ant d i = getTask ant d' i"
  using getTask_Some [of d ant i] getTask_Some [of d' ant i] unfolding becomes_def by (metis option.exhaust)

lemma delete_found: "getTask ant d i = Some t \<Longrightarrow> fst (deleteTask ant i d)"
  by (auto simp: deleteTask_def getTask_def Let_def raise_mark_def writeHighWaterMark_def bind_eq_Some_conv split: option.splits)


end
