(* ===== verification/Task_Tool_Examples.thy ===== *)
theory Task_Tool_Examples
  imports Task_Tool_Laws
begin

text \<open>The tools of the task list at concrete sessions, and what goes wrong on some of them.\<close>

definition lone_env :: tools_env where
  "lone_env = \<lparr>identity = \<lparr>teammateContext = None, dynamicTeamContext = None\<rparr>, envTaskListId = None, leaderTeamName = None,
     session_id = ''s1'', runtimeMode = True, tasksEnabledByEnv = False, nonInteractive = False, swarms = True,
     main_thread = True, verification_agent = True, internal_build = False, truthy = (\<lambda>v. v \<noteq> []),
     created_objections = (\<lambda>i s d. if s = ''bad'' then [''no''] else []),
     completed_objections = (\<lambda>i s d. if s = ''hard'' then [''not yet''] else []),
     assignment_text = (\<lambda>i s d who. i @ s @ d @ who), current_time = ''now''\<rparr>"

definition plain_input :: "string \<Rightarrow> update_input" where
  "plain_input i = \<lparr>in_taskId = i, in_subject = None, in_description = None, in_activeForm = None, in_status = None, in_owner = None,
     addBlocks = None, addBlockedBy = None, in_metadata = None\<rparr>"

definition linked_calls :: "tool_event list" where
  "linked_calls = [CreateCall lone_env ''hard'' ''d'' None None, CreateCall lone_env ''b'' ''d'' None None,
     UpdateCall lone_env ((plain_input ''1'')\<lparr>addBlocks := Some [''2'']\<rparr>)]"

lemma shown_blockers_exact_witness:
  "map (\<lambda>s. (shown_id s, shown_blockers s)) (taskList_call lone_env (tool_session linked_calls)) = [(''1'', []), (''2'', [''1''])] \<and>
   map (\<lambda>t. (task_id t, open_blockers (listTasks False (own_list lone_env (tool_session linked_calls))) t))
     (filter (\<lambda>t. \<not> internal_task lone_env t) (listTasks False (own_list lone_env (tool_session linked_calls)))) =
   [(''1'', []), (''2'', [''1''])]"
proof -
  have ant: "internal_build lone_env = False" by (simp add: lone_env_def)
  have "list_all (\<lambda>t. task_status t \<noteq> TaskCompleted) (listTasks False (own_list lone_env (tool_session linked_calls)))"
    by code_simp
  then have "\<forall>t\<in>set (listTasks False (own_list lone_env (tool_session linked_calls))).
      task_status t = TaskCompleted \<longrightarrow> \<not> internal_task lone_env t"
    by (auto simp: list_all_iff)
  note shown_blockers_exact [where e = lone_env and evs = linked_calls, unfolded ant, OF refl refl this]
  moreover have "map (\<lambda>s. (shown_id s, shown_blockers s)) (taskList_call lone_env (tool_session linked_calls)) =
      [(''1'', []), (''2'', [''1''])]" by code_simp
  ultimately show ?thesis by simp
qed


text \<open>A link to a task that is not there is reported as made.\<close>

lemma missing_link_reported:
  "(let r = taskUpdate_call lone_env ((plain_input ''1'')\<lparr>addBlocks := Some [''9'']\<rparr>) (tool_session linked_calls)
    in update_success (fst r) \<and> updatedFields (fst r) = [''blocks''] \<and>
       map blocks (listTasks False (own_list lone_env (snd r))) = [[''2''], []])"
  by code_simp

text \<open>A blocker that is internal and completed is shown for ever, though a claim succeeds.\<close>

definition internal_calls :: "tool_event list" where
  "internal_calls = [CreateCall lone_env ''a'' ''d'' None (Some [(''_internal'', ''true'')]), CreateCall lone_env ''b'' ''d'' None None,
     UpdateCall lone_env ((plain_input ''1'')\<lparr>addBlocks := Some [''2'']\<rparr>),
     UpdateCall lone_env ((plain_input ''1'')\<lparr>in_status := Some (ToStatus TaskCompleted)\<rparr>)]"

lemma internal_blocker_shown:
  "map shown_blockers (taskList_call lone_env (tool_session internal_calls)) = [[''1'']] \<and>
   (case fst (claimTask False ''2'' ''x'' False (own_list lone_env (tool_session internal_calls))) of Claimed _ \<Rightarrow> True | _ \<Rightarrow> False)"
  by code_simp

text \<open>
  The leader of a team keeps its tasks under the sanitized name of the team, an in-process teammate looks
  for them under the name itself: they share a directory for some names only.
\<close>

definition teammate_of :: "string \<Rightarrow> tools_env" where
  "teammate_of team = lone_env\<lparr>identity := \<lparr>teammateContext = Some \<lparr>identity_id = ''w@t'', identity_name = ''w'',
     identity_team = team, identity_color = None\<rparr>, dynamicTeamContext = None\<rparr>\<rparr>"

lemma team_list_differs:
  "getTasksDir (getTaskListId (setLeaderTeamName (sanitizeName ''My_Team'') lone_env)) = ''my-team'' \<and>
   getTasksDir (getTaskListId (teammate_of ''My_Team'')) = ''My_Team''"
  by code_simp

text \<open>A teammate that looks for work does so in the list of the leader's session, which the leader has left.\<close>

definition team_calls :: "tool_event list" where
  "team_calls = [TeamStart ''t'', CreateCall (setLeaderTeamName ''t'' lone_env) ''a'' ''d'' None None, FindWork False ''s1'' ''w'']"

lemma work_not_found:
  "map owner (listTasks False (own_list (setLeaderTeamName ''t'' lone_env) (tool_session team_calls))) = [None] \<and>
   findAvailableTask (listTasks False (lists (tool_session team_calls) ''s1'')) = None"
  by code_simp

end
