(* ===== verification/Transcript.thy ===== *)
theory Transcript
  imports Messages "HOL-Library.AList"
begin

text \<open>
  The messages of a session's transcript and the conversation that is read back from them,
  \<open>src/utils/sessionStorage.ts\<close>: every message on disk names its parent, and a conversation is
  the chain of parents of its last message, completed by the calls and results that run beside the chain.
\<close>

section \<open>Messages\<close>

type_synonym uuid = string

text \<open>
  A message keeps the fields that the transcript code reads.  A user message may name the assistant message
  whose call it answers; a boundary of a compaction may keep a segment of the messages before it, named
  by its first and last message and the message that it follows.
\<close>

record token_usage =
  input_tokens :: int
  output_tokens :: int
  cache_creation_input_tokens :: int
  cache_read_input_tokens :: int

record preserved_segment =
  headUuid :: uuid
  anchorUuid :: uuid
  tailUuid :: uuid

datatype system_body =
    CompactBoundary "preserved_segment option"
  | TurnDuration "int option"
  | OtherSystem string

datatype message_body =
    User user_content "uuid option"
  | Assistant "string option" user_content token_usage
  | AttachmentBody string
  | System system_body
  | ProgressBody

record chat_message =
  uuid :: uuid
  body :: message_body
  msg_timestamp :: string
  isVirtual :: bool
  removedUuids :: "uuid list option"

text \<open>What the transcript adds: the links to the parents and the stamps of the session.\<close>

record transcript_message = chat_message +
  parentUuid :: "uuid option"
  logicalParentUuid :: "uuid option"
  isSidechain :: bool
  msg_agentId :: "string option"
  msg_sessionId :: string

fun is_user_body :: "message_body \<Rightarrow> bool" where
  "is_user_body (User c s) = True"
| "is_user_body _ = False"

fun is_assistant_body :: "message_body \<Rightarrow> bool" where
  "is_assistant_body (Assistant i c u) = True"
| "is_assistant_body _ = False"

definition isCompactBoundaryMessage :: "'a chat_message_scheme \<Rightarrow> bool" where
  "isCompactBoundaryMessage m = (case body m of System (CompactBoundary s) \<Rightarrow> True | _ \<Rightarrow> False)"

definition isChainParticipant :: "'a chat_message_scheme \<Rightarrow> bool" where
  "isChainParticipant m = (body m \<noteq> ProgressBody)"

text \<open>Absent, null and empty strings are false in a condition.\<close>

definition truthy :: "string option \<Rightarrow> string option" where
  "truthy x = (if x = Some [] then None else x)"

text \<open>The identity that the blocks of one response share.\<close>

definition message_group :: "'a chat_message_scheme \<Rightarrow> string option" where
  "message_group m = (case body m of Assistant i c u \<Rightarrow> truthy i | _ \<Rightarrow> None)"

fun content_has_result :: "user_content \<Rightarrow> bool" where
  "content_has_result (Blocks bs) = (\<exists>b\<in>set bs. is_tool_result b)"
| "content_has_result (Str s) = False"

definition carries_result :: "'a chat_message_scheme \<Rightarrow> bool" where
  "carries_result m = (case body m of User c s \<Rightarrow> content_has_result c | _ \<Rightarrow> False)"

section \<open>The messages of a transcript\<close>

text \<open>
  A \<open>Map\<close> from the identities to the messages, in the order in which the identities came first.
  A link may lead nowhere.
\<close>

type_synonym transcript = "(uuid \<times> transcript_message) list"

definition parent_link :: "transcript_message \<Rightarrow> uuid option" where
  "parent_link m = truthy (parentUuid m)"

definition parent_message :: "transcript \<Rightarrow> transcript_message \<Rightarrow> transcript_message option" where
  "parent_message ms m = (case parent_link m of None \<Rightarrow> None | Some u \<Rightarrow> map_of ms u)"

text \<open>
  The loops that follow the links: they stop at a message that satisfies \<open>stop\<close>, at a link that leads
  nowhere and before a message they have seen.
\<close>

function walk :: "(transcript_message \<Rightarrow> bool) \<Rightarrow> transcript \<Rightarrow> uuid list \<Rightarrow> transcript_message option
    \<Rightarrow> transcript_message list" where
  "walk stop ms seen None = []"
| "walk stop ms seen (Some m) =
     (if uuid m \<in> set seen then []
      else m # (if stop m then [] else walk stop ms (uuid m # seen) (parent_message ms m)))"
  by pat_completeness auto

lemma parent_message_in: "parent_message ms m = Some p \<Longrightarrow> p \<in> snd ` set ms"
  by (force simp: parent_message_def split: option.splits dest: map_of_SomeD)

termination walk
proof (relation "measure (\<lambda>(stop, ms, seen, c). case c of None \<Rightarrow> 0
    | Some m \<Rightarrow> Suc (card (insert (uuid m) (uuid ` snd ` set ms) - set seen)))", goal_cases)
  case (2 stop ms seen m)
  show ?case
  proof (cases "parent_message ms m")
    case (Some p)
    let ?U = "uuid ` snd ` set ms"
    have "insert (uuid p) ?U = ?U" using parent_message_in [OF Some] by blast
    moreover have "?U - set (uuid m # seen) \<subset> insert (uuid m) ?U - set seen" using 2(1) by auto
    then have "card (?U - set (uuid m # seen)) < card (insert (uuid m) ?U - set seen)"
      by (intro psubset_card_mono) auto
    ultimately show ?thesis using Some by simp
  qed simp
qed simp

declare walk.simps(2) [simp del]

section \<open>Calls and results beside the chain\<close>

text \<open>
  The blocks of one response are messages of their own, and every result names the block with its call
  as its parent.  A chain passes through one of several parallel results; \<open>recoverOrphanedParallelToolResults\<close>
  puts the other blocks and results behind the last block of the response on the chain.
  Times are compared as strings: \<open>collate\<close> is the order of the locale.
\<close>

definition anchorByMsgId :: "transcript_message list \<Rightarrow> string \<Rightarrow> transcript_message option" where
  "anchorByMsgId as =
     foldl (\<lambda>M a. case message_group a of None \<Rightarrow> M | Some i \<Rightarrow> M(i \<mapsto> a)) Map.empty as"

definition siblingsByMsgId :: "transcript \<Rightarrow> string \<Rightarrow> transcript_message list" where
  "siblingsByMsgId ms i = filter (\<lambda>m. message_group m = Some i) (map snd ms)"

definition toolResultsByAsst :: "transcript \<Rightarrow> uuid \<Rightarrow> transcript_message list" where
  "toolResultsByAsst ms u = filter (\<lambda>m. carries_result m \<and> parent_link m = Some u) (map snd ms)"

record recovery =
  processedGroups :: "string list"
  seenUuids :: "uuid list"
  inserts :: "uuid \<Rightarrow> transcript_message list option"
  recoveredCount :: nat

definition orphaned :: "uuid list \<Rightarrow> transcript_message list \<Rightarrow> transcript_message list" where
  "orphaned seen ms = filter (\<lambda>m. uuid m \<notin> set seen) ms"

definition orphaned_of_group :: "(string \<Rightarrow> 'k::linorder) \<Rightarrow> transcript \<Rightarrow> uuid list \<Rightarrow> transcript_message list
    \<Rightarrow> transcript_message list" where
  "orphaned_of_group collate ms seen grp =
     sort_key (\<lambda>m. collate (msg_timestamp m)) (orphaned seen grp) @
     sort_key (\<lambda>m. collate (msg_timestamp m)) (concat (map (\<lambda>a. orphaned seen (toolResultsByAsst ms (uuid a))) grp))"

definition recover_step :: "(string \<Rightarrow> 'k::linorder) \<Rightarrow> transcript \<Rightarrow> (string \<Rightarrow> transcript_message option)
    \<Rightarrow> recovery \<Rightarrow> transcript_message \<Rightarrow> recovery" where
  "recover_step collate ms anchors r a =
     (case message_group a of
        None \<Rightarrow> r
      | Some i \<Rightarrow>
          if i \<in> set (processedGroups r) then r
          else let r = r\<lparr>processedGroups := set_add i (processedGroups r)\<rparr>;
                   grp = (if siblingsByMsgId ms i = [] then [a] else siblingsByMsgId ms i);
                   found = orphaned_of_group collate ms (seenUuids r) grp
               in if found = [] then r
                  else (case anchors i of
                          None \<Rightarrow> r
                        | Some k \<Rightarrow> r\<lparr>seenUuids := map uuid found @ seenUuids r,
                                       inserts := (inserts r)(uuid k \<mapsto> found),
                                       recoveredCount := recoveredCount r + length found\<rparr>))"

definition insert_recovered :: "(uuid \<Rightarrow> transcript_message list option) \<Rightarrow> transcript_message list \<Rightarrow> transcript_message list" where
  "insert_recovered ins chain =
     concat (map (\<lambda>m. m # (case ins (uuid m) of None \<Rightarrow> [] | Some ms \<Rightarrow> ms)) chain)"

definition recoverOrphanedParallelToolResults :: "(string \<Rightarrow> 'k::linorder) \<Rightarrow> transcript \<Rightarrow> transcript_message list
    \<Rightarrow> uuid list \<Rightarrow> transcript_message list" where
  "recoverOrphanedParallelToolResults collate ms chain seen =
     (let chainAssistants = filter (\<lambda>m. is_assistant_body (body m)) chain
      in if chainAssistants = [] then chain
         else let r = foldl (recover_step collate ms (anchorByMsgId chainAssistants))
                        \<lparr>processedGroups = [], seenUuids = seen, inserts = Map.empty, recoveredCount = 0\<rparr> chainAssistants
              in if recoveredCount r = 0 then chain else insert_recovered (inserts r) chain)"

definition chain_walk :: "transcript \<Rightarrow> transcript_message \<Rightarrow> transcript_message list" where
  "chain_walk ms leaf = rev (walk (\<lambda>_. False) ms [] (Some leaf))"

definition buildConversationChain :: "(string \<Rightarrow> 'k::linorder) \<Rightarrow> transcript \<Rightarrow> transcript_message \<Rightarrow> transcript_message list" where
  "buildConversationChain collate ms leaf =
     recoverOrphanedParallelToolResults collate ms (chain_walk ms leaf) (map uuid (chain_walk ms leaf))"

end
