(* ===== verification/Transcript_Load.thy ===== *)
theory Transcript_Load
  imports Transcript
begin

text \<open>
  Loading a transcript file, \<open>loadTranscriptFile\<close> of \<open>src/utils/sessionStorage.ts\<close>, from the parsed
  entries of the file: the messages by identity, with bridges across progress entries of old files, the
  relinking of what a compaction preserved, the removal of what was snipped, and the choice of the
  message to resume at.
\<close>

section \<open>Entries of a file\<close>

text \<open>
  The entries that the loader reads.  The per-session fields that are only stored are one constructor; a
  field of an entry of the worktree state may be null.
\<close>

datatype session_field = CustomTitle | Tag | AgentName | AgentColor | AgentSetting | ModeField | WorktreeState

datatype file_entry =
    MessageEntry transcript_message
  | ProgressEntry uuid "uuid option"
  | SummaryEntry uuid string
  | FieldEntry session_field string "string option"
  | PrLink string int string string
  | FileHistorySnapshot uuid string bool
  | AttributionSnapshot uuid string
  | ContentReplacement "string option" string "string list"
  | CollapseCommit string string
  | CollapseSnapshot string string
  | OtherEntry string

record loaded =
  loaded_messages :: transcript
  summaries :: "uuid \<Rightarrow> string option"
  session_fields :: "session_field \<Rightarrow> string \<Rightarrow> string option option"
  prLinks :: "string \<Rightarrow> (int \<times> string \<times> string) option"
  fileHistorySnapshots :: "uuid \<Rightarrow> (string \<times> bool) option"
  attributionSnapshots :: "(uuid \<times> string) list"
  contentReplacements :: "string \<Rightarrow> string list option"
  agentContentReplacements :: "string \<Rightarrow> string list option"
  contextCollapseCommits :: "(string \<times> string) list"
  contextCollapseSnapshot :: "(string \<times> string) option"
  progressBridge :: "uuid \<Rightarrow> uuid option option"

definition nothing_loaded :: loaded where
  "nothing_loaded =
     \<lparr>loaded_messages = [], summaries = Map.empty, session_fields = (\<lambda>_. Map.empty), prLinks = Map.empty,
      fileHistorySnapshots = Map.empty, attributionSnapshots = [], contentReplacements = Map.empty,
      agentContentReplacements = Map.empty, contextCollapseCommits = [], contextCollapseSnapshot = None,
      progressBridge = Map.empty\<rparr>"

text \<open>A link into a run of progress entries leads to what the run follows.\<close>

definition bridged :: "(uuid \<Rightarrow> uuid option option) \<Rightarrow> uuid option \<Rightarrow> uuid option" where
  "bridged bridge p =
     (case truthy p of
        None \<Rightarrow> p
      | Some u \<Rightarrow> (case bridge u of None \<Rightarrow> p | Some q \<Rightarrow> q))"

definition append_replacements :: "string list \<Rightarrow> string list option \<Rightarrow> string list option" where
  "append_replacements rs old = Some ((case old of None \<Rightarrow> [] | Some xs \<Rightarrow> xs) @ rs)"

fun load_entry :: "loaded \<Rightarrow> file_entry \<Rightarrow> loaded" where
  "load_entry l (ProgressEntry u p) = l\<lparr>progressBridge := (progressBridge l)(u \<mapsto> bridged (progressBridge l) p)\<rparr>"
| "load_entry l (MessageEntry m) =
     (let m' = m\<lparr>parentUuid := bridged (progressBridge l) (parentUuid m)\<rparr>;
          l' = l\<lparr>loaded_messages := AList.update (uuid m) m' (loaded_messages l)\<rparr>
      in if isCompactBoundaryMessage m
         then l'\<lparr>contextCollapseCommits := [], contextCollapseSnapshot := None\<rparr> else l')"
| "load_entry l (SummaryEntry u s) = (if u = [] then l else l\<lparr>summaries := (summaries l)(u \<mapsto> s)\<rparr>)"
| "load_entry l (FieldEntry f sid v) =
     (if sid = [] then l else l\<lparr>session_fields := (session_fields l)(f := (session_fields l f)(sid \<mapsto> v))\<rparr>)"
| "load_entry l (PrLink sid n u r) = (if sid = [] then l else l\<lparr>prLinks := (prLinks l)(sid \<mapsto> (n, u, r))\<rparr>)"
| "load_entry l (FileHistorySnapshot i s upd) =
     l\<lparr>fileHistorySnapshots := (fileHistorySnapshots l)(i \<mapsto> (s, upd))\<rparr>"
| "load_entry l (AttributionSnapshot i s) = l\<lparr>attributionSnapshots := AList.update i s (attributionSnapshots l)\<rparr>"
| "load_entry l (ContentReplacement a sid rs) =
     (case truthy a of
        Some i \<Rightarrow> l\<lparr>agentContentReplacements :=
          (agentContentReplacements l)(i := append_replacements rs (agentContentReplacements l i))\<rparr>
      | None \<Rightarrow> l\<lparr>contentReplacements :=
          (contentReplacements l)(sid := append_replacements rs (contentReplacements l sid))\<rparr>)"
| "load_entry l (CollapseCommit sid c) = l\<lparr>contextCollapseCommits := contextCollapseCommits l @ [(sid, c)]\<rparr>"
| "load_entry l (CollapseSnapshot sid c) = l\<lparr>contextCollapseSnapshot := Some (sid, c)\<rparr>"
| "load_entry l (OtherEntry t) = l"

section \<open>Preserved segments\<close>

text \<open>
  A compaction leaves a boundary.  One that preserved a segment names it, and the last such boundary is
  the one that counts, if no boundary without a segment came after it.
\<close>

fun segment_of :: "transcript_message \<Rightarrow> preserved_segment option" where
  "segment_of m = (case body m of System (CompactBoundary s) \<Rightarrow> s | _ \<Rightarrow> None)"

record boundaries =
  lastSeg :: "preserved_segment option"
  lastSegBoundaryIdx :: int
  absoluteLastBoundaryIdx :: int

definition find_boundaries :: "transcript \<Rightarrow> boundaries" where
  "find_boundaries ms =
     foldl (\<lambda>b (i, (k, m)).
         if isCompactBoundaryMessage m
         then (let b = b\<lparr>absoluteLastBoundaryIdx := int i\<rparr>
               in case segment_of m of None \<Rightarrow> b | Some s \<Rightarrow> b\<lparr>lastSeg := Some s, lastSegBoundaryIdx := int i\<rparr>)
         else b)
       \<lparr>lastSeg = None, lastSegBoundaryIdx = -1, absoluteLastBoundaryIdx = -1\<rparr> (List.enumerate 0 ms)"

definition walk_segment :: "transcript \<Rightarrow> preserved_segment \<Rightarrow> transcript_message list" where
  "walk_segment ms s = walk (\<lambda>m. uuid m = headUuid s) ms [] (map_of ms (tailUuid s))"

definition reaches_head :: "transcript \<Rightarrow> preserved_segment \<Rightarrow> bool" where
  "reaches_head ms s = (\<exists>m\<in>set (walk_segment ms s). uuid m = headUuid s)"

definition set_parent :: "uuid option \<Rightarrow> transcript_message \<Rightarrow> transcript_message" where
  "set_parent p m = m\<lparr>parentUuid := p\<rparr>"

definition relink_head :: "preserved_segment \<Rightarrow> transcript \<Rightarrow> transcript" where
  "relink_head s ms =
     (case map_of ms (headUuid s) of
        None \<Rightarrow> ms
      | Some h \<Rightarrow> AList.update (headUuid s) (set_parent (Some (anchorUuid s)) h) ms)"

definition relink_tail :: "preserved_segment \<Rightarrow> transcript \<Rightarrow> transcript" where
  "relink_tail s ms =
     map (\<lambda>(u, m). if parentUuid m = Some (anchorUuid s) \<and> u \<noteq> headUuid s
                   then (u, set_parent (Some (tailUuid s)) m) else (u, m)) ms"

fun zero_usage :: "message_body \<Rightarrow> message_body" where
  "zero_usage (Assistant i c u) =
     Assistant i c (u\<lparr>input_tokens := 0, output_tokens := 0, cache_creation_input_tokens := 0, cache_read_input_tokens := 0\<rparr>)"
| "zero_usage b = b"

definition reset_usage :: "uuid list \<Rightarrow> transcript \<Rightarrow> transcript" where
  "reset_usage preserved ms =
     map (\<lambda>(u, m). if u \<in> set preserved then (u, m\<lparr>body := zero_usage (body m)\<rparr>) else (u, m)) ms"

text \<open>The messages before the last boundary that are not preserved go; \<open>entryIndex\<close> holds the positions before any change.\<close>

definition prune_before :: "int \<Rightarrow> uuid list \<Rightarrow> transcript \<Rightarrow> transcript" where
  "prune_before idx preserved ms =
     map snd (filter (\<lambda>(i, (u, m)). \<not> (int i < idx \<and> u \<notin> set preserved)) (List.enumerate 0 ms))"

definition applyPreservedSegmentRelinks :: "transcript \<Rightarrow> transcript" where
  "applyPreservedSegmentRelinks ms =
     (let b = find_boundaries ms
      in case lastSeg b of
           None \<Rightarrow> ms
         | Some s \<Rightarrow>
             if lastSegBoundaryIdx b = absoluteLastBoundaryIdx b
             then (if \<not> reaches_head ms s then ms
                   else let preserved = map uuid (walk_segment ms s)
                        in prune_before (absoluteLastBoundaryIdx b) preserved
                             (reset_usage preserved (relink_tail s (relink_head s ms))))
             else prune_before (absoluteLastBoundaryIdx b) [] ms)"

section \<open>Snipped messages\<close>

text \<open>
  A boundary of a snip names the removed messages.  Their own parents are kept aside, and the links of the
  others are led through them; every link that was followed is shortened on the way.  The walk
  runs for as long as it finds removed messages; \<open>fuel\<close> bounds its steps, and \<open>None\<close> is a walk that goes on.
\<close>

definition snipped :: "transcript \<Rightarrow> uuid list" where
  "snipped ms = foldl (\<lambda>del (k, m). case removedUuids m of None \<Rightarrow> del | Some us \<Rightarrow> foldl (\<lambda>d u. set_add u d) del us) [] ms"

definition deleted_parents :: "transcript \<Rightarrow> uuid list \<Rightarrow> (uuid \<Rightarrow> uuid option option)" where
  "deleted_parents ms del = (\<lambda>u. if u \<in> set del then map_option parentUuid (map_of ms u) else None)"

fun resolve_walk :: "nat \<Rightarrow> uuid list \<Rightarrow> (uuid \<Rightarrow> uuid option option) \<Rightarrow> uuid list \<Rightarrow> uuid option
    \<Rightarrow> (uuid list \<times> uuid option) option" where
  "resolve_walk 0 del dp path cur = None"
| "resolve_walk (Suc fuel) del dp path cur =
     (case truthy cur of
        None \<Rightarrow> Some (path, cur)
      | Some u \<Rightarrow>
          if u \<in> set del
          then (case dp u of
                  None \<Rightarrow> Some (path @ [u], None)
                | Some p \<Rightarrow> resolve_walk fuel del dp (path @ [u]) p)
          else Some (path, cur))"

definition resolve_link :: "nat \<Rightarrow> uuid list \<Rightarrow> (uuid \<Rightarrow> uuid option option) \<Rightarrow> uuid
    \<Rightarrow> ((uuid \<Rightarrow> uuid option option) \<times> uuid option) option" where
  "resolve_link fuel del dp start =
     map_option (\<lambda>(path, cur). (foldl (\<lambda>d p. d(p \<mapsto> cur)) dp path, cur)) (resolve_walk fuel del dp [] (Some start))"

fun relink_survivors :: "nat \<Rightarrow> uuid list \<Rightarrow> (uuid \<Rightarrow> uuid option option) \<Rightarrow> transcript \<Rightarrow> transcript option" where
  "relink_survivors fuel del dp [] = Some []"
| "relink_survivors fuel del dp ((u, m) # ms) =
     (case parent_link m of
        None \<Rightarrow> map_option ((#) (u, m)) (relink_survivors fuel del dp ms)
      | Some p \<Rightarrow>
          if p \<notin> set del then map_option ((#) (u, m)) (relink_survivors fuel del dp ms)
          else (case resolve_link fuel del dp p of
                  None \<Rightarrow> None
                | Some (dp', q) \<Rightarrow> map_option ((#) (u, set_parent q m)) (relink_survivors fuel del dp' ms)))"

definition applySnipRemovals :: "nat \<Rightarrow> transcript \<Rightarrow> transcript option" where
  "applySnipRemovals fuel ms =
     (let del = snipped ms
      in if del = [] then Some ms
         else relink_survivors fuel del (deleted_parents ms del) (filter (\<lambda>(u, m). u \<notin> set del) ms))"

section \<open>Leaves\<close>

text \<open>
  A message without children is terminal; the conversations to resume at end at the nearest user or
  assistant message above one.  The gate \<open>prune\<close> leaves out those whose conversation goes on elsewhere.
\<close>

definition is_turn :: "transcript_message \<Rightarrow> bool" where
  "is_turn m = (is_user_body (body m) \<or> is_assistant_body (body m))"

definition terminal_messages :: "transcript \<Rightarrow> transcript_message list" where
  "terminal_messages ms =
     (let parents = List.map_filter parentUuid (map snd ms)
      in filter (\<lambda>m. uuid m \<notin> set parents) (map snd ms))"

definition has_turn_child :: "transcript \<Rightarrow> uuid \<Rightarrow> bool" where
  "has_turn_child ms u = (\<exists>(k, m)\<in>set ms. parent_link m = Some u \<and> is_turn m)"

definition leaf_above :: "bool \<Rightarrow> transcript \<Rightarrow> transcript_message \<Rightarrow> uuid list" where
  "leaf_above prune ms t =
     (let w = walk is_turn ms [] (Some t)
      in if w \<noteq> [] \<and> is_turn (last w) \<and> \<not> (prune \<and> has_turn_child ms (uuid (last w)))
         then [uuid (last w)] else [])"

definition leafUuids :: "bool \<Rightarrow> transcript \<Rightarrow> uuid list" where
  "leafUuids prune ms = foldl (\<lambda>ls t. foldl (\<lambda>l u. set_add u l) ls (leaf_above prune ms t)) [] (terminal_messages ms)"

section \<open>Loading and resuming\<close>

definition load_entries :: "file_entry list \<Rightarrow> loaded" where
  "load_entries es = foldl load_entry nothing_loaded es"

definition finish_messages :: "nat \<Rightarrow> transcript \<Rightarrow> transcript option" where
  "finish_messages fuel ms = applySnipRemovals fuel (applyPreservedSegmentRelinks ms)"

definition loadTranscriptFile :: "nat \<Rightarrow> file_entry list \<Rightarrow> loaded option" where
  "loadTranscriptFile fuel es =
     (let l = load_entries es in map_option (\<lambda>ms. l\<lparr>loaded_messages := ms\<rparr>) (finish_messages fuel (loaded_messages l)))"

text \<open>The latest message: \<open>time\<close> reads a time, with \<open>None\<close> for one that cannot be read.\<close>

definition findLatestMessage :: "(string \<Rightarrow> int option) \<Rightarrow> transcript_message list \<Rightarrow> (transcript_message \<Rightarrow> bool)
    \<Rightarrow> transcript_message option" where
  "findLatestMessage time ms P =
     fst (foldl (\<lambda>(latest, mx) m.
            if \<not> P m then (latest, mx)
            else (case time (msg_timestamp m) of
                    None \<Rightarrow> (latest, mx)
                  | Some t \<Rightarrow> if mx = None \<or> the mx < t then (Some m, Some t) else (latest, mx)))
          (None, None) ms)"

datatype load_error = NoMessages | NoConversation

text \<open>Both ways to a conversation: of a file by its leaves, of a session by its last message outside side chains.\<close>

definition transcript_of_file :: "(string \<Rightarrow> 'k::linorder) \<Rightarrow> (string \<Rightarrow> int option) \<Rightarrow> bool \<Rightarrow> nat \<Rightarrow> file_entry list
    \<Rightarrow> (load_error + transcript_message list) option" where
  "transcript_of_file collate time prune fuel es =
     map_option (\<lambda>l.
         let ms = loaded_messages l
         in if ms = [] then Inl NoMessages
            else (case findLatestMessage time (map snd ms) (\<lambda>m. uuid m \<in> set (leafUuids prune ms)) of
                    None \<Rightarrow> Inl NoConversation
                  | Some leaf \<Rightarrow> Inr (buildConversationChain collate ms leaf)))
       (loadTranscriptFile fuel es)"

definition getLastSessionLog :: "(string \<Rightarrow> 'k::linorder) \<Rightarrow> (string \<Rightarrow> int option) \<Rightarrow> nat \<Rightarrow> file_entry list
    \<Rightarrow> transcript_message list option option" where
  "getLastSessionLog collate time fuel es =
     map_option (\<lambda>l.
         let ms = loaded_messages l
         in if ms = [] then None
            else map_option (buildConversationChain collate ms)
                   (findLatestMessage time (map snd ms) (\<lambda>m. \<not> isSidechain m)))
       (loadTranscriptFile fuel es)"

definition removeExtraFields :: "transcript_message list \<Rightarrow> chat_message list" where
  "removeExtraFields ms = map chat_message.truncate ms"

text \<open>The position of the last checkpoint of a conversation against the count it recorded.\<close>

definition checkResumeConsistency :: "transcript_message list \<Rightarrow> (int \<times> int) option" where
  "checkResumeConsistency chain =
     (case find (\<lambda>i. case body (chain ! i) of System (TurnDuration n) \<Rightarrow> True | _ \<Rightarrow> False) (rev [0..<length chain]) of
        None \<Rightarrow> None
      | Some i \<Rightarrow>
          (case body (chain ! i) of
             System (TurnDuration (Some expected)) \<Rightarrow> Some (expected, int i)
           | _ \<Rightarrow> None))"

end
