(* ===== verification/Transcript_Chain.thy ===== *)
theory Transcript_Chain
  imports Transcript
begin

text \<open>
  The conversation read from a transcript: the chain of parents is a list without repetition that
  follows the links, and recovery completes it by exactly the blocks and results of the responses on it,
  each result behind its call.
\<close>

section \<open>Following the links\<close>

definition wf_transcript :: "transcript \<Rightarrow> bool" where
  "wf_transcript ms \<longleftrightarrow> distinct (map fst ms) \<and> (\<forall>(k, m)\<in>set ms. uuid m = k)"

abbreviation values_of :: "transcript \<Rightarrow> transcript_message list" where
  "values_of ms \<equiv> map snd ms"

lemma wf_lookup: "wf_transcript ms \<Longrightarrow> map_of ms u = Some m \<longleftrightarrow> m \<in> set (values_of ms) \<and> uuid m = u"
  by (force simp: wf_transcript_def dest: map_of_SomeD)

lemma wf_unique:
  "wf_transcript ms \<Longrightarrow> m \<in> set (values_of ms) \<Longrightarrow> n \<in> set (values_of ms) \<Longrightarrow> uuid m = uuid n \<Longrightarrow> m = n"
  using wf_lookup [of ms "uuid m" m] wf_lookup [of ms "uuid m" n] by simp

lemma wf_distinct_uuids: "wf_transcript ms \<Longrightarrow> distinct (map uuid (values_of ms))"
proof -
  assume wf: "wf_transcript ms"
  then have "map uuid (values_of ms) = map fst ms" by (auto simp: wf_transcript_def)
  then show ?thesis using wf unfolding wf_transcript_def by metis
qed

lemma wf_distinct_values: "wf_transcript ms \<Longrightarrow> distinct (values_of ms)"
  using wf_distinct_uuids distinct_map by blast

lemma parent_message_wf:
  "wf_transcript ms \<Longrightarrow> parent_message ms m = Some p \<longleftrightarrow> p \<in> set (values_of ms) \<and> parent_link m = Some (uuid p)"
  by (auto simp: parent_message_def wf_lookup split: option.splits)

lemma truthy_Some: "truthy l = Some u \<Longrightarrow> l = Some u"
  by (auto simp: truthy_def split: if_splits)

lemma walk_fresh: "uuid ` set (walk stop ms seen c) \<inter> set seen = {}"
proof (induction stop ms seen c rule: walk.induct)
  case (2 stop ms seen m)
  show ?case using 2 by (subst walk.simps) auto
qed simp

lemma walk_distinct: "distinct (map uuid (walk stop ms seen c))"
proof (induction stop ms seen c rule: walk.induct)
  case (2 stop ms seen m)
  show ?case using 2 walk_fresh [of stop ms "uuid m # seen" "parent_message ms m"]
    by (subst walk.simps) auto
qed simp

lemma walk_in: "set (walk stop ms seen c) \<subseteq> set_option c \<union> set (values_of ms)"
proof (induction stop ms seen c rule: walk.induct)
  case (2 stop ms seen m)
  have "set_option (parent_message ms m) \<subseteq> set (values_of ms)"
    by (cases "parent_message ms m") (auto dest: parent_message_in)
  then show ?case using 2 by (subst walk.simps) auto
qed simp

lemma walk_no_more: "length (walk stop ms [] c) \<le> Suc (card (uuid ` set (values_of ms)))"
proof -
  have "length (walk stop ms [] c) = card (uuid ` set (walk stop ms [] c))"
    using distinct_card [OF walk_distinct [of stop ms "[]" c]] by simp
  also have "\<dots> \<le> card (uuid ` (set_option c \<union> set (values_of ms)))"
    by (intro card_mono image_mono walk_in) auto
  also have "\<dots> \<le> card (uuid ` set_option c) + card (uuid ` set (values_of ms))"
    by (simp only: image_Un card_Un_le)
  also have "card (uuid ` set_option c) \<le> 1" by (cases c) auto
  finally show ?thesis by simp
qed

text \<open>Neighbours on a walk are a message and its parent.\<close>

fun follows_links :: "transcript \<Rightarrow> transcript_message list \<Rightarrow> bool" where
  "follows_links ms (m # p # ps) \<longleftrightarrow> parent_message ms m = Some p \<and> follows_links ms (p # ps)"
| "follows_links ms ps \<longleftrightarrow> True"

lemma follows_links_Cons:
  "follows_links ms (m # ps) \<longleftrightarrow> (ps = [] \<or> parent_message ms m = Some (hd ps)) \<and> follows_links ms ps"
  by (cases ps) auto

lemma walk_hd: "walk stop ms seen c \<noteq> [] \<Longrightarrow> c = Some (hd (walk stop ms seen c))"
  by (cases c) (auto simp: walk.simps(2) split: if_splits)

lemma walk_follows: "follows_links ms (walk stop ms seen c)"
proof (induction stop ms seen c rule: walk.induct)
  case (2 stop ms seen m)
  show ?case using 2 walk_hd [of stop ms "uuid m # seen" "parent_message ms m"]
    by (subst walk.simps) (auto simp: follows_links_Cons)
qed simp

text \<open>A walk ends at the stop, at a link that leads nowhere, or before a message it has seen.\<close>

lemma walk_end:
  "walk stop ms seen c = xs @ [m] \<Longrightarrow>
     stop m \<or> parent_message ms m = None \<or> (\<exists>p. parent_message ms m = Some p \<and> uuid p \<in> set seen \<union> uuid ` set (xs @ [m]))"
proof (induction stop ms seen c arbitrary: xs rule: walk.induct)
  case (2 stop ms seen a)
  have fresh: "uuid a \<notin> set seen" using 2(2) by (auto simp: walk.simps(2) split: if_splits)
  show ?case
  proof (cases "stop a \<or> walk stop ms (uuid a # seen) (parent_message ms a) = []")
    case True
    then have "m = a" using 2(2) fresh by (cases xs) (auto simp: walk.simps(2) split: if_splits)
    moreover have "parent_message ms a = None \<or> (\<exists>p. parent_message ms a = Some p \<and> uuid p \<in> set (uuid a # seen))"
      if "walk stop ms (uuid a # seen) (parent_message ms a) = []"
      using that by (cases "parent_message ms a") (auto simp: walk.simps(2) split: if_splits)
    ultimately show ?thesis using True by auto
  next
    case False
    then obtain ys where ys: "xs = a # ys" "walk stop ms (uuid a # seen) (parent_message ms a) = ys @ [m]"
      using 2(2) fresh by (cases xs) (auto simp: walk.simps(2))
    then show ?thesis using 2(1) [OF fresh _ ys(2)] False by auto
  qed
qed simp

lemma chain_walk_distinct [simp]: "distinct (map uuid (chain_walk ms leaf))"
  using walk_distinct [of "\<lambda>_. False" ms "[]" "Some leaf"] by (simp add: chain_walk_def rev_map flip: rev_map)

lemma chain_walk_values: "leaf \<in> set (values_of ms) \<Longrightarrow> set (chain_walk ms leaf) \<subseteq> set (values_of ms)"
  using walk_in [of "\<lambda>_. False" ms "[]" "Some leaf"] by (auto simp: chain_walk_def)

lemma chain_walk_last: "last (chain_walk ms leaf) = leaf" "chain_walk ms leaf \<noteq> []"
  by (simp_all add: chain_walk_def walk.simps(2))

section \<open>The anchors of the responses\<close>

lemma anchorByMsgId_find:
  "anchorByMsgId as i = find (\<lambda>a. message_group a = Some i) (rev as)"
proof -
  have "foldl (\<lambda>M a. case message_group a of None \<Rightarrow> M | Some i \<Rightarrow> M(i \<mapsto> a)) M as i =
      (case find (\<lambda>a. message_group a = Some i) (rev as) of None \<Rightarrow> M i | Some a \<Rightarrow> Some a)" for M
    by (induction as arbitrary: M) (auto simp: find_append split: option.splits)
  then show ?thesis by (auto simp: anchorByMsgId_def split: option.splits)
qed

lemma anchor_SomeD:
  "anchorByMsgId as i = Some k \<Longrightarrow> \<exists>xs ys. as = xs @ k # ys \<and> message_group k = Some i \<and> (\<forall>y\<in>set ys. message_group y \<noteq> Some i)"
proof -
  assume "anchorByMsgId as i = Some k"
  then have "find (\<lambda>a. message_group a = Some i) (rev as) = Some k" by (simp add: anchorByMsgId_find)
  from find_split [OF this] obtain us vs where us: "rev as = us @ k # vs" "message_group k = Some i"
    "\<forall>y\<in>set us. message_group y \<noteq> Some i" by blast
  have "as = rev vs @ k # rev us" using arg_cong [OF us(1), of rev] by simp
  then show ?thesis using us(2,3) by (intro exI [of _ "rev vs"] exI [of _ "rev us"]) simp
qed

lemma anchor_exists: "a \<in> set as \<Longrightarrow> message_group a = Some i \<Longrightarrow> \<exists>k. anchorByMsgId as i = Some k"
  by (auto simp: anchorByMsgId_find intro!: find_exists)

section \<open>Recovery, group by group\<close>

text \<open>The blocks of a response and the results of its calls; those that the chain lacks are recovered.\<close>

definition response_parts :: "transcript \<Rightarrow> string \<Rightarrow> transcript_message set" where
  "response_parts ms i =
     {m \<in> set (values_of ms). message_group m = Some i \<or>
        (carries_result m \<and> (\<exists>a\<in>set (values_of ms). message_group a = Some i \<and> parent_link m = Some (uuid a)))}"

abbreviation recovered_of :: "(string \<Rightarrow> 'k::linorder) \<Rightarrow> transcript \<Rightarrow> uuid list \<Rightarrow> string \<Rightarrow> transcript_message list" where
  "recovered_of collate ms seen i \<equiv> orphaned_of_group collate ms seen (siblingsByMsgId ms i)"

lemma result_has_no_group: "carries_result m \<Longrightarrow> message_group m = None"
  by (cases "body m") (simp_all add: carries_result_def message_group_def)

lemma group_is_assistant: "message_group m = Some i \<Longrightarrow> is_assistant_body (body m)"
  by (cases "body m") (simp_all add: message_group_def)

lemma set_recovered_of:
  "set (recovered_of collate ms seen i) = {m \<in> response_parts ms i. uuid m \<notin> set seen}"
  by (auto simp: orphaned_of_group_def orphaned_def siblingsByMsgId_def toolResultsByAsst_def response_parts_def)

lemma response_parts_disjoint:
  assumes wf: "wf_transcript ms" and m: "m \<in> response_parts ms i" "m \<in> response_parts ms j"
  shows "i = j"
proof (cases "carries_result m")
  case True
  then obtain a b where "a \<in> set (values_of ms)" "message_group a = Some i" "parent_link m = Some (uuid a)"
    "b \<in> set (values_of ms)" "message_group b = Some j" "parent_link m = Some (uuid b)"
    using m by (auto simp: response_parts_def result_has_no_group simp del: set_map)
  then show ?thesis using wf_unique [OF wf, of a b] by simp
next
  case False
  then show ?thesis using m by (auto simp: response_parts_def)
qed

lemma orphaned_cong:
  "(\<And>m. m \<in> set xs \<Longrightarrow> uuid m \<in> set s \<longleftrightarrow> uuid m \<in> set s') \<Longrightarrow> orphaned s xs = orphaned s' xs"
  by (auto simp: orphaned_def intro: filter_cong)

lemma recovered_of_cong:
  assumes "\<And>m. m \<in> response_parts ms i \<Longrightarrow> uuid m \<in> set s \<longleftrightarrow> uuid m \<in> set s'"
  shows "recovered_of collate ms s i = recovered_of collate ms s' i"
proof -
  have "orphaned s (siblingsByMsgId ms i) = orphaned s' (siblingsByMsgId ms i)"
    by (rule orphaned_cong, rule assms) (auto simp: siblingsByMsgId_def response_parts_def)
  moreover have "orphaned s (toolResultsByAsst ms (uuid a)) = orphaned s' (toolResultsByAsst ms (uuid a))"
    if "a \<in> set (siblingsByMsgId ms i)" for a
    using that by (intro orphaned_cong assms) (auto simp: siblingsByMsgId_def toolResultsByAsst_def response_parts_def)
  ultimately show ?thesis by (simp add: orphaned_of_group_def cong: map_cong)
qed

lemma distinct_concat_map:
  "distinct xs \<Longrightarrow> (\<And>x. x \<in> set xs \<Longrightarrow> distinct (f x)) \<Longrightarrow>
     (\<And>x y. x \<in> set xs \<Longrightarrow> y \<in> set xs \<Longrightarrow> x \<noteq> y \<Longrightarrow> set (f x) \<inter> set (f y) = {}) \<Longrightarrow> distinct (concat (map f xs))"
  by (induction xs) auto

lemma distinct_recovered_of:
  assumes wf: "wf_transcript ms"
  shows "distinct (recovered_of collate ms seen i)"
proof -
  let ?g = "siblingsByMsgId ms i"
  have "distinct ?g" using wf_distinct_values [OF wf] by (simp add: siblingsByMsgId_def)
  then have "distinct (concat (map (\<lambda>a. orphaned seen (toolResultsByAsst ms (uuid a))) ?g))"
    using wf_distinct_values [OF wf]
    by (intro distinct_concat_map)
      (auto simp: orphaned_def toolResultsByAsst_def siblingsByMsgId_def simp del: set_map dest: wf_unique [OF wf])
  then show ?thesis
    using \<open>distinct ?g\<close> wf_distinct_values [OF wf] unfolding orphaned_of_group_def distinct_append distinct_sort set_sort
    by (auto simp: orphaned_def toolResultsByAsst_def siblingsByMsgId_def result_has_no_group)
qed

text \<open>The conversation in closed form: behind every anchor, what its response lacks.\<close>

definition recovered_after :: "(string \<Rightarrow> 'k::linorder) \<Rightarrow> transcript \<Rightarrow> transcript_message list
    \<Rightarrow> transcript_message \<Rightarrow> transcript_message list" where
  "recovered_after collate ms chain m =
     (case message_group m of
        None \<Rightarrow> []
      | Some i \<Rightarrow>
          if anchorByMsgId (filter (\<lambda>m. is_assistant_body (body m)) chain) i = Some m
          then recovered_of collate ms (map uuid chain) i else [])"

text \<open>The state of the recovery after the responses of \<open>done\<close>.\<close>

definition recovery_done :: "(string \<Rightarrow> 'k::linorder) \<Rightarrow> transcript \<Rightarrow> transcript_message list
    \<Rightarrow> transcript_message list \<Rightarrow> recovery \<Rightarrow> bool" where
  "recovery_done collate ms chain visited r \<longleftrightarrow>
     set (processedGroups r) = {i. \<exists>a\<in>set visited. message_group a = Some i} \<and>
     set (seenUuids r) = uuid ` set chain \<union>
       uuid ` (\<Union>i\<in>set (processedGroups r). set (recovered_of collate ms (map uuid chain) i)) \<and>
     (\<forall>m\<in>set chain. inserts r (uuid m) =
        (let rs = recovered_after collate ms chain m
         in if rs \<noteq> [] \<and> (\<exists>i\<in>set (processedGroups r). message_group m = Some i) then Some rs else None)) \<and>
     (recoveredCount r = 0 \<longleftrightarrow> (\<forall>i\<in>set (processedGroups r). recovered_of collate ms (map uuid chain) i = []))"

lemma recovery_done_step:
  assumes wf: "wf_transcript ms" and chain: "set chain \<subseteq> set (values_of ms)" "distinct (map uuid chain)"
    and as: "as = filter (\<lambda>m. is_assistant_body (body m)) chain" and a: "a \<in> set as"
    and r: "recovery_done collate ms chain visited r"
  shows "recovery_done collate ms chain (a # visited) (recover_step collate ms (anchorByMsgId as) r a)"
proof (cases "message_group a")
  case None
  then show ?thesis using r by (simp add: recover_step_def recovery_done_def)
next
  case (Some i)
  show ?thesis
  proof (cases "i \<in> set (processedGroups r)")
    case True
    then have "(\<exists>b\<in>set (a # visited). message_group b = Some j) \<longleftrightarrow> (\<exists>b\<in>set visited. message_group b = Some j)" for j
      using r Some by (auto simp: recovery_done_def)
    then show ?thesis using r Some True by (simp add: recover_step_def recovery_done_def)
  next
    case False
    define F where "F = recovered_of collate ms (map uuid chain)"
    obtain k where k: "anchorByMsgId as i = Some k" using anchor_exists [OF a Some] by blast
    have kin: "k \<in> set chain" "message_group k = Some i"
    proof -
      have "k \<in> set as \<and> message_group k = Some i" using anchor_SomeD [OF k] by auto
      then show "k \<in> set chain" "message_group k = Some i" by (simp_all add: as)
    qed
    have sib: "siblingsByMsgId ms i \<noteq> []"
      using a as chain(1) Some by (auto simp: siblingsByMsgId_def filter_empty_conv)
    have "uuid m \<in> set (seenUuids r) \<longleftrightarrow> uuid m \<in> set (map uuid chain)" if "m \<in> response_parts ms i" for m
    proof -
      have "uuid m \<noteq> uuid n" if "j \<in> set (processedGroups r)" "n \<in> set (F j)" for n j
      proof
        assume "uuid m = uuid n"
        moreover have n: "n \<in> response_parts ms j" using that(2) by (simp add: F_def set_recovered_of)
        ultimately have "m = n" using wf_unique [OF wf] \<open>m \<in> response_parts ms i\<close> by (auto simp: response_parts_def)
        then show False using response_parts_disjoint [OF wf \<open>m \<in> response_parts ms i\<close>] n that(1) False by auto
      qed
      then show ?thesis using r by (auto simp: recovery_done_def F_def)
    qed
    then have F: "orphaned_of_group collate ms (seenUuids r) (siblingsByMsgId ms i) = F i"
      unfolding F_def by (rule recovered_of_cong)
    have ins: "uuid m = uuid k \<longleftrightarrow> message_group m = Some i \<and> anchorByMsgId as i = Some m" if "m \<in> set chain" for m
      using that kin k chain(2) by (auto simp: distinct_map inj_on_def)
    have procs: "{j. \<exists>b\<in>set (a # visited). message_group b = Some j} = insert i (set (processedGroups r))"
      using r Some by (auto simp: recovery_done_def)
    show ?thesis
    proof (cases "F i = []")
      case True
      then have "recover_step collate ms (anchorByMsgId as) r a = r\<lparr>processedGroups := set_add i (processedGroups r)\<rparr>"
        using Some False sib F by (simp add: recover_step_def Let_def)
      moreover have "recovered_after collate ms chain m = []" if "message_group m = Some i" for m
        using that True by (simp add: recovered_after_def F_def)
      ultimately show ?thesis using r True procs
        by (auto simp: recovery_done_def F_def Let_def)
    next
      case ne: False
      then have step: "recover_step collate ms (anchorByMsgId as) r a =
          r\<lparr>processedGroups := set_add i (processedGroups r), seenUuids := map uuid (F i) @ seenUuids r,
            inserts := (inserts r)(uuid k \<mapsto> F i), recoveredCount := recoveredCount r + length (F i)\<rparr>"
        using Some False sib F k by (simp add: recover_step_def Let_def)
      have group: "recovered_after collate ms chain m = (if uuid m = uuid k then F i else [])"
        if "m \<in> set chain" "message_group m = Some i" for m
        using that ins [OF that(1)] by (simp add: recovered_after_def F_def as)
      have other: "uuid m \<noteq> uuid k" if "m \<in> set chain" "message_group m \<noteq> Some i" for m
        using ins [OF that(1)] that by simp
      have P: "set (processedGroups r) = {i. \<exists>a\<in>set visited. message_group a = Some i}"
        and S: "set (seenUuids r) = uuid ` set chain \<union> uuid ` (\<Union>i\<in>set (processedGroups r). set (F i))"
        and I: "\<And>m. m \<in> set chain \<Longrightarrow> inserts r (uuid m) =
            (let rs = recovered_after collate ms chain m
             in if rs \<noteq> [] \<and> (\<exists>i\<in>set (processedGroups r). message_group m = Some i) then Some rs else None)"
        using r by (simp_all add: recovery_done_def F_def)
      have "((inserts r)(uuid k \<mapsto> F i)) (uuid m) =
            (let rs = recovered_after collate ms chain m
             in if rs \<noteq> [] \<and> (\<exists>j\<in>insert i (set (processedGroups r)). message_group m = Some j) then Some rs else None)"
        if m: "m \<in> set chain" for m
      proof (cases "message_group m = Some i")
        case True
        then show ?thesis using group [OF m True] I [OF m] False ne by (auto simp: Let_def)
      next
        case False
        then show ?thesis using other [OF m False] I [OF m] by (simp add: Let_def)
      qed
      then show ?thesis using ne S procs unfolding recovery_done_def step by (simp add: F_def image_Un Un_ac)
    qed
  qed
qed

section \<open>The conversation\<close>

lemma conversation_closed_form:
  assumes wf: "wf_transcript ms" and leaf: "leaf \<in> set (values_of ms)"
  shows "buildConversationChain collate ms leaf =
    concat (map (\<lambda>m. m # recovered_after collate ms (chain_walk ms leaf) m) (chain_walk ms leaf))"
proof -
  let ?c = "chain_walk ms leaf" and ?r0 = "\<lparr>processedGroups = [], seenUuids = map uuid (chain_walk ms leaf), inserts = Map.empty, recoveredCount = 0\<rparr>"
  define as where "as = filter (\<lambda>m. is_assistant_body (body m)) ?c"
  have steps: "recovery_done collate ms ?c (rev bs @ visited) (foldl (recover_step collate ms (anchorByMsgId as)) r bs)"
    if "recovery_done collate ms ?c visited r" "set bs \<subseteq> set as" for bs visited r
    using that
  proof (induction bs arbitrary: visited r)
    case (Cons b bs)
    have "recovery_done collate ms ?c (b # visited) (recover_step collate ms (anchorByMsgId as) r b)"
      using Cons.prems by (intro recovery_done_step [OF wf chain_walk_values [OF leaf] chain_walk_distinct as_def]) auto
    then show ?case using Cons.IH [of "b # visited"] Cons.prems(2) by simp
  qed simp
  define r where "r = foldl (recover_step collate ms (anchorByMsgId as)) ?r0 as"
  have "recovery_done collate ms ?c [] ?r0" by (simp add: recovery_done_def Let_def)
  then have r: "recovery_done collate ms ?c (rev as) r" unfolding r_def using steps [of "[]" ?r0 as] by simp
  have visited: "\<exists>i\<in>set (processedGroups r). message_group m = Some i"
    if "m \<in> set ?c" "message_group m = Some i" for m i
    using that r by (auto simp: recovery_done_def as_def group_is_assistant)
  have ins: "(case inserts r (uuid m) of None \<Rightarrow> [] | Some rs \<Rightarrow> rs) = recovered_after collate ms ?c m" if "m \<in> set ?c" for m
  proof (cases "message_group m")
    case None
    then have "recovered_after collate ms ?c m = []" by (simp add: recovered_after_def)
    then show ?thesis using r that by (simp add: recovery_done_def)
  next
    case (Some i)
    then have "inserts r (uuid m) = (if recovered_after collate ms ?c m \<noteq> [] then Some (recovered_after collate ms ?c m) else None)"
      using r that visited [OF that Some] by (simp add: recovery_done_def Let_def)
    then show ?thesis by simp
  qed
  then have inserted: "insert_recovered (inserts r) ?c = concat (map (\<lambda>m. m # recovered_after collate ms ?c m) ?c)"
    by (auto simp: insert_recovered_def intro!: arg_cong [where f = concat])
  have untouched: "concat (map (\<lambda>m. m # recovered_after collate ms ?c m) ?c) = ?c"
    if "\<forall>m\<in>set ?c. recovered_after collate ms ?c m = []"
  proof -
    have "map (\<lambda>m. m # recovered_after collate ms ?c m) ?c = map (\<lambda>m. [m]) ?c" using that by simp
    then have "concat (map (\<lambda>m. m # recovered_after collate ms ?c m) ?c) = concat (map (\<lambda>m. [m]) ?c)" by (rule arg_cong)
    then show ?thesis by (simp only: concat_map_singleton map_ident)
  qed
  show ?thesis
  proof (cases "as = []")
    case True
    then have "recovered_after collate ms ?c m = []" if "m \<in> set ?c" for m
      using that group_is_assistant by (force simp: as_def recovered_after_def filter_empty_conv split: option.splits)
    then show ?thesis using True untouched by (simp add: buildConversationChain_def recoverOrphanedParallelToolResults_def as_def Let_def)
  next
    case False
    have "recovered_after collate ms ?c m = []" if "recoveredCount r = 0" "m \<in> set ?c" for m
      using that r visited [OF that(2)] by (auto simp: recovery_done_def recovered_after_def split: option.splits)
    then show ?thesis using False untouched inserted
      by (auto simp: buildConversationChain_def recoverOrphanedParallelToolResults_def Let_def simp flip: as_def r_def)
  qed
qed

lemma set_recovered_after:
  assumes wf: "wf_transcript ms" and chain: "set chain \<subseteq> set (values_of ms)"
  shows "set (recovered_after collate ms chain m) =
    {n. \<exists>i. message_group m = Some i \<and> anchorByMsgId (filter (\<lambda>m. is_assistant_body (body m)) chain) i = Some m \<and>
       n \<in> response_parts ms i \<and> n \<notin> set chain}"
proof -
  have "uuid n \<in> uuid ` set chain \<longleftrightarrow> n \<in> set chain" if "n \<in> response_parts ms i" for n i
    using that chain wf_unique [OF wf] by (auto simp: response_parts_def simp del: set_map)
  then show ?thesis
    by (auto simp: recovered_after_def set_recovered_of split: option.splits if_splits)
qed

lemma subseq_concat_Cons: "subseq xs (concat (map (\<lambda>x. x # f x) xs))"
  by (induction xs) (auto intro: list_emb_append2 simp: subseq_Cons2)

text \<open>Something stands before something else in a list.\<close>

definition precedes :: "'a \<Rightarrow> 'a \<Rightarrow> 'a list \<Rightarrow> bool" where
  "precedes a b zs \<longleftrightarrow> (\<exists>us vs. zs = us @ b # vs \<and> a \<in> set us)"

lemma precedes_Cons: "precedes a b zs \<Longrightarrow> precedes a b (z # zs)"
  unfolding precedes_def by (metis append_Cons list.set_intros(2))

lemma precedes_append1: "precedes a b ys \<Longrightarrow> precedes a b (ys @ zs)"
  unfolding precedes_def by (metis append.assoc append_Cons)

lemma precedes_append2: "precedes a b zs \<Longrightarrow> precedes a b (ys @ zs)"
  unfolding precedes_def by (metis Un_iff append.assoc set_append)

lemma precedes_across: "a \<in> set ys \<Longrightarrow> b \<in> set zs \<Longrightarrow> precedes a b (ys @ zs)"
  unfolding precedes_def by (metis Un_iff append.assoc set_append split_list)

lemma recovered_result_follows_call:
  assumes wf: "wf_transcript ms" and chain: "set chain \<subseteq> set (values_of ms)" "distinct chain"
    and n: "n \<in> set (recovered_after collate ms chain k)" "carries_result n"
  obtains a where "parent_message ms n = Some a"
    "precedes a n (recovered_after collate ms chain k) \<or>
     (\<exists>xs ys. chain = xs @ k # ys \<and> a \<in> set (xs @ [k]))"
proof -
  let ?as = "filter (\<lambda>m. is_assistant_body (body m)) chain"
  obtain i where i: "message_group k = Some i" "anchorByMsgId ?as i = Some k" "n \<in> response_parts ms i" "n \<notin> set chain"
    using n(1) unfolding set_recovered_after [OF wf chain(1)] by blast
  obtain a where a: "a \<in> set (values_of ms)" "message_group a = Some i" "parent_link n = Some (uuid a)"
    using i(3) n(2) by (auto simp: response_parts_def result_has_no_group simp del: set_map)
  have pm: "parent_message ms n = Some a" using a by (simp add: parent_message_wf [OF wf] del: set_map)
  show ?thesis
  proof (cases "a \<in> set chain")
    case True
    obtain us vs where uv: "?as = us @ k # vs" "\<forall>y\<in>set vs. message_group y \<noteq> Some i"
      using anchor_SomeD [OF i(2)] by auto
    have "k \<in> set ?as" unfolding uv(1) by simp
    then have k: "k \<in> set chain" by simp
    then obtain xs ys where xy: "chain = xs @ k # ys" by (meson split_list)
    then have nk: "k \<notin> set xs" "k \<notin> set ys" using chain(2) by auto
    show ?thesis
    proof (cases "a \<in> set (xs @ [k])")
      case False
      then have "a \<in> set ys" using True xy by auto
      have ka: "is_assistant_body (body k)" using i(1) by (rule group_is_assistant)
      have "us @ k # vs = filter (\<lambda>m. is_assistant_body (body m)) xs @ k # filter (\<lambda>m. is_assistant_body (body m)) ys"
        using uv(1) xy(1) ka by simp
      then have "vs = filter (\<lambda>m. is_assistant_body (body m)) ys"
        using nk by (subst (asm) eq_commute) (simp add: append_Cons_eq_iff)
      then show ?thesis using \<open>a \<in> set ys\<close> a(2) uv(2) group_is_assistant [OF a(2)] by auto
    qed (use that pm xy in blast)
  next
    case False
    let ?sib = "sort_key (\<lambda>m. collate (msg_timestamp m)) (orphaned (map uuid chain) (siblingsByMsgId ms i))"
    have "uuid a \<notin> uuid ` set chain" using False a(1) chain(1) wf_unique [OF wf] by (auto simp del: set_map)
    then have "a \<in> set ?sib" using a by (auto simp: orphaned_def siblingsByMsgId_def)
    moreover have "n \<notin> set ?sib" using n(2) by (auto simp: orphaned_def siblingsByMsgId_def result_has_no_group)
    ultimately have "precedes a n (recovered_after collate ms chain k)"
      using n(1) i(1,2) by (auto simp: recovered_after_def orphaned_of_group_def intro!: precedes_across)
    then show ?thesis using that pm by blast
  qed
qed

lemma concat_Cons_split:
  "concat (map (\<lambda>m. m # f m) (xs @ k # ys)) =
     concat (map (\<lambda>m. m # f m) xs) @ k # f k @ concat (map (\<lambda>m. m # f m) ys)"
  by simp

lemma distinct_concat_Cons:
  assumes "distinct xs" "\<And>x. x \<in> set xs \<Longrightarrow> distinct (f x)" "\<And>x. x \<in> set xs \<Longrightarrow> set (f x) \<inter> set ys = {}"
    "\<And>x y. x \<in> set xs \<Longrightarrow> y \<in> set xs \<Longrightarrow> x \<noteq> y \<Longrightarrow> set (f x) \<inter> set (f y) = {}" "set xs \<subseteq> set ys"
  shows "distinct (concat (map (\<lambda>x. x # f x) xs))"
proof (rule distinct_concat_map [OF assms(1)])
  show "distinct (x # f x)" if "x \<in> set xs" for x
    using assms(2,3) [OF that] assms(5) that by auto
  show "set (x # f x) \<inter> set (y # f y) = {}" if "x \<in> set xs" "y \<in> set xs" "x \<noteq> y" for x y
    using assms(3) [OF that(1)] assms(3) [OF that(2)] assms(4) [OF that] assms(5) that by auto
qed

lemma conversation_parts:
  assumes wf: "wf_transcript ms" and leaf: "leaf \<in> set (values_of ms)"
  shows "set (buildConversationChain collate ms leaf) = set (chain_walk ms leaf) \<union>
     {n. \<exists>a\<in>set (chain_walk ms leaf). \<exists>i. message_group a = Some i \<and> n \<in> response_parts ms i}"
proof -
  let ?c = "chain_walk ms leaf"
  note sets = set_recovered_after [OF wf chain_walk_values [OF leaf]]
  have "n \<in> set (buildConversationChain collate ms leaf)"
    if a: "a \<in> set ?c" "message_group a = Some i" "n \<in> response_parts ms i" for a i n
  proof (cases "n \<in> set ?c")
    case False
    obtain k where k: "anchorByMsgId (filter (\<lambda>m. is_assistant_body (body m)) ?c) i = Some k"
      using anchor_exists [of a "filter (\<lambda>m. is_assistant_body (body m)) ?c" i] a(1,2) group_is_assistant [OF a(2)] by auto
    then have kc: "k \<in> set (filter (\<lambda>m. is_assistant_body (body m)) ?c)" "message_group k = Some i"
      using anchor_SomeD [OF k] by (auto simp only: set_append list.set)
    then have "n \<in> set (recovered_after collate ms ?c k)" using k a(3) False unfolding sets by blast
    then show ?thesis using kc(1) by (auto simp: conversation_closed_form [OF wf leaf])
  qed (auto simp: conversation_closed_form [OF wf leaf])
  moreover have "n \<in> set ?c \<or> (\<exists>a\<in>set ?c. \<exists>i. message_group a = Some i \<and> n \<in> response_parts ms i)"
    if "n \<in> set (buildConversationChain collate ms leaf)" for n
    using that by (auto simp: conversation_closed_form [OF wf leaf] sets)
  moreover have "set ?c \<subseteq> set (buildConversationChain collate ms leaf)"
    by (auto simp: conversation_closed_form [OF wf leaf])
  ultimately show ?thesis by blast
qed

lemma conversation_values:
  assumes wf: "wf_transcript ms" and leaf: "leaf \<in> set (values_of ms)"
  shows "set (buildConversationChain collate ms leaf) \<subseteq> set (values_of ms)"
  using chain_walk_values [OF leaf] unfolding conversation_parts [OF wf leaf] by (auto simp: response_parts_def)

lemma conversation_distinct:
  assumes wf: "wf_transcript ms" and leaf: "leaf \<in> set (values_of ms)"
  shows "distinct (map uuid (buildConversationChain collate ms leaf))"
proof -
  let ?c = "chain_walk ms leaf"
  note sets = set_recovered_after [OF wf chain_walk_values [OF leaf]]
  have "distinct ?c" using chain_walk_distinct distinct_map by blast
  then have "distinct (buildConversationChain collate ms leaf)"
    unfolding conversation_closed_form [OF wf leaf]
  proof (rule distinct_concat_Cons [where ys = ?c])
    show "distinct (recovered_after collate ms ?c m)" for m
      by (simp add: recovered_after_def distinct_recovered_of [OF wf] split: option.split)
    show "set (recovered_after collate ms ?c m) \<inter> set ?c = {}" for m by (auto simp: sets)
    show "set (recovered_after collate ms ?c m) \<inter> set (recovered_after collate ms ?c n) = {}" if "m \<noteq> n" for m n
    proof -
      have "x \<notin> set (recovered_after collate ms ?c n)" if "x \<in> set (recovered_after collate ms ?c m)" for x
      proof
        assume "x \<in> set (recovered_after collate ms ?c n)"
        with that \<open>m \<noteq> n\<close> show False unfolding sets by (auto dest: response_parts_disjoint [OF wf])
      qed
      then show ?thesis by blast
    qed
  qed simp
  moreover have "inj_on uuid (set (buildConversationChain collate ms leaf))"
    using conversation_values [OF wf leaf] wf_unique [OF wf] by (meson inj_onI subsetD)
  ultimately show ?thesis by (simp add: distinct_map)
qed

lemma conversation_result_after_call:
  assumes wf: "wf_transcript ms" and leaf: "leaf \<in> set (values_of ms)"
    and n: "n \<in> set (buildConversationChain collate ms leaf)" "n \<notin> set (chain_walk ms leaf)" "carries_result n"
  shows "\<exists>a. parent_message ms n = Some a \<and> precedes a n (buildConversationChain collate ms leaf)"
proof -
  let ?c = "chain_walk ms leaf" and ?f = "recovered_after collate ms (chain_walk ms leaf)"
  obtain k where k: "k \<in> set ?c" "n \<in> set (?f k)"
    using n by (auto simp: conversation_closed_form [OF wf leaf])
  have dc: "distinct ?c" using chain_walk_distinct distinct_map by blast
  obtain a where a: "parent_message ms n = Some a"
    "precedes a n (?f k) \<or> (\<exists>xs ys. ?c = xs @ k # ys \<and> a \<in> set (xs @ [k]))"
    using recovered_result_follows_call [OF wf chain_walk_values [OF leaf] dc k(2) n(3)] by metis
  have "precedes a n (buildConversationChain collate ms leaf)"
  proof (cases "precedes a n (?f k)")
    case True
    obtain xs ys where xy: "?c = xs @ k # ys" using k(1) by (meson split_list)
    have "precedes a n (concat (map (\<lambda>m. m # ?f m) xs) @ k # ?f k @ concat (map (\<lambda>m. m # ?f m) ys))"
      using True by (intro precedes_append2 precedes_Cons precedes_append1)
    then show ?thesis unfolding conversation_closed_form [OF wf leaf] by (subst xy) (simp only: concat_Cons_split)
  next
    case False
    then obtain xs ys where xy: "?c = xs @ k # ys" "a \<in> set (xs @ [k])" using a(2) by blast
    have "precedes a n ((concat (map (\<lambda>m. m # ?f m) xs) @ [k]) @ ?f k @ concat (map (\<lambda>m. m # ?f m) ys))"
      using xy(2) k(2) by (intro precedes_across) auto
    then show ?thesis unfolding conversation_closed_form [OF wf leaf] by (subst xy(1)) (simp only: concat_Cons_split append.assoc append_Cons append_Nil)
  qed
  then show ?thesis using a(1) by blast
qed

text \<open>
  C24: The conversation of a message repeats no message and contains the chain of its parents in order.
  Apart from the chain it consists of exactly the blocks of the responses on the chain, and of the
  results of the calls in them; every result that is added stands behind the message with its call.
\<close>

theorem conversation_complete:
  assumes wf: "wf_transcript ms" and leaf: "leaf \<in> set (values_of ms)"
  shows "let chain = chain_walk ms leaf; conv = buildConversationChain collate ms leaf
    in distinct (map uuid conv) \<and> subseq chain conv \<and>
       set conv = set chain \<union> {n. \<exists>a\<in>set chain. \<exists>i. message_group a = Some i \<and> n \<in> response_parts ms i} \<and>
       (\<forall>n\<in>set conv - set chain. carries_result n \<longrightarrow> (\<exists>a. parent_message ms n = Some a \<and> precedes a n conv))"
  unfolding Let_def
proof (intro conjI ballI impI)
  show "subseq (chain_walk ms leaf) (buildConversationChain collate ms leaf)"
    unfolding conversation_closed_form [OF wf leaf] by (rule subseq_concat_Cons)
qed (use conversation_distinct [OF wf leaf] conversation_parts [OF wf leaf]
       conversation_result_after_call [OF wf leaf] in auto)

text \<open>Two parallel calls in two blocks of a response, of which the chain passes through the second only.\<close>

definition demo_message :: "string \<Rightarrow> message_body \<Rightarrow> uuid option \<Rightarrow> transcript_message" where
  "demo_message u b p =
     \<lparr>uuid = u, body = b, msg_timestamp = u, isVirtual = False, removedUuids = None, parentUuid = p,
      logicalParentUuid = None, isSidechain = False, msg_agentId = None, msg_sessionId = ''s''\<rparr>"

definition demo_usage :: token_usage where
  "demo_usage = \<lparr>input_tokens = 0, output_tokens = 0, cache_creation_input_tokens = 0, cache_read_input_tokens = 0\<rparr>"

definition demo_call :: "string \<Rightarrow> message_body" where
  "demo_call i = Assistant (Some ''msg'') (Blocks [ToolUseBlock i ''Read'' (InputFields []) None]) demo_usage"

definition demo_result :: "string \<Rightarrow> message_body" where
  "demo_result i = User (Blocks [ToolResultBlock i NoContent False]) None"

definition demo_last :: transcript_message where
  "demo_last = demo_message ''f'' (User (Str ''thanks'') None) (Some ''e'')"

definition parallel_transcript :: transcript where
  "parallel_transcript = map (\<lambda>m. (uuid m, m))
     [demo_message ''a'' (User (Str ''go'') None) None,
      demo_message ''b'' (demo_call ''c1'') (Some ''a''),
      demo_message ''c'' (demo_call ''c2'') (Some ''b''),
      demo_message ''d'' (demo_result ''c2'') (Some ''c''),
      demo_message ''e'' (demo_result ''c1'') (Some ''b''),
      demo_last]"

lemma parallel_transcript_wf: "wf_transcript parallel_transcript" "demo_last \<in> set (values_of parallel_transcript)"
  by (code_simp)+

lemma parallel_conversation:
  "map uuid (chain_walk parallel_transcript demo_last) = [''a'', ''b'', ''e'', ''f'']"
  "map uuid (buildConversationChain length parallel_transcript demo_last) = [''a'', ''b'', ''c'', ''d'', ''e'', ''f'']"
  by (code_simp)+

theorem conversation_complete_witness:
  "distinct (map uuid (buildConversationChain length parallel_transcript demo_last)) \<and>
   subseq (chain_walk parallel_transcript demo_last) (buildConversationChain length parallel_transcript demo_last)"
  using conversation_complete [OF parallel_transcript_wf, of length] by (simp add: Let_def)

end
