(* ===== verification/Transcript_Snip.thy ===== *)
theory Transcript_Snip
  imports Transcript_Load Transcript_Chain
begin

text \<open>
  Snipped messages, \<open>applySnipRemovals\<close>: the conversation after the removal is the conversation before it
  without the removed messages, whatever links were shortened on the way.
\<close>

section \<open>Links without cycles\<close>

text \<open>Messages are appended after their parents, so the links descend in some rank.\<close>

definition descending :: "(uuid \<Rightarrow> nat) \<Rightarrow> transcript \<Rightarrow> bool" where
  "descending r ms \<longleftrightarrow> (\<forall>(u, m)\<in>set ms. \<forall>p. parent_message ms m = Some p \<longrightarrow> r (uuid p) < r (uuid m))"

lemma descendingD:
  "descending r ms \<Longrightarrow> m \<in> set (values_of ms) \<Longrightarrow> parent_message ms m = Some p \<Longrightarrow> r (uuid p) < r (uuid m)"
  by (force simp: descending_def)

lemma walk_seen_irrelevant:
  assumes desc: "descending r ms" and c: "set_option c \<subseteq> set (values_of ms)"
    and seen: "\<And>m s. c = Some m \<Longrightarrow> s \<in> set seen \<Longrightarrow> r (uuid m) < r s"
  shows "walk stop ms seen c = walk stop ms [] c"
  using c seen
proof (induction "case c of None \<Rightarrow> 0 | Some m \<Rightarrow> Suc (r (uuid m))" arbitrary: c seen rule: less_induct)
  case less
  show ?case
  proof (cases c)
    case (Some m)
    have m: "m \<in> set (values_of ms)" using less.prems(1) Some by simp
    have fresh: "uuid m \<notin> set seen" using less.prems(2) [OF Some, of "uuid m"] by blast
    let ?p = "parent_message ms m"
    have below: "r (uuid p) < r (uuid m)" if "?p = Some p" for p using descendingD [OF desc m that] .
    have p: "set_option ?p \<subseteq> set (values_of ms)" by (cases ?p) (auto dest: parent_message_in)
    have "walk stop ms (uuid m # s) ?p = walk stop ms [] ?p" if "\<And>x. x \<in> set s \<Longrightarrow> r (uuid m) < r x" for s
    proof (rule less.hyps [OF _ p])
      show "(case ?p of None \<Rightarrow> 0 | Some p \<Rightarrow> Suc (r (uuid p))) < (case c of None \<Rightarrow> 0 | Some m \<Rightarrow> Suc (r (uuid m)))"
        using below Some by (cases ?p) auto
      show "r (uuid q) < r x" if "?p = Some q" "x \<in> set (uuid m # s)" for q x
        using below [OF that(1)] that(2) \<open>\<And>x. x \<in> set s \<Longrightarrow> r (uuid m) < r x\<close> by fastforce
    qed
    from this [of seen] this [of "[]"] show ?thesis using less.prems(2) [OF Some] Some fresh by (simp add: walk.simps(2))
  qed simp
qed

lemma walk_step:
  assumes "descending r ms" "m \<in> set (values_of ms)"
  shows "walk (\<lambda>_. False) ms [] (Some m) = m # walk (\<lambda>_. False) ms [] (parent_message ms m)"
proof -
  have "set_option (parent_message ms m) \<subseteq> set (values_of ms)"
    by (cases "parent_message ms m") (auto dest: parent_message_in)
  then have "walk (\<lambda>_. False) ms [uuid m] (parent_message ms m) = walk (\<lambda>_. False) ms [] (parent_message ms m)"
    using descendingD [OF assms] by (intro walk_seen_irrelevant [OF assms(1)]) auto
  then show ?thesis by (simp add: walk.simps(2))
qed

text \<open>The walk from a link.\<close>

definition lookup_link :: "transcript \<Rightarrow> uuid option \<Rightarrow> transcript_message option" where
  "lookup_link ms l = (case truthy l of None \<Rightarrow> None | Some u \<Rightarrow> map_of ms u)"

definition walk_from :: "transcript \<Rightarrow> uuid option \<Rightarrow> uuid list" where
  "walk_from ms l = map uuid (walk (\<lambda>_. False) ms [] (lookup_link ms l))"

lemma parent_message_lookup: "parent_message ms m = lookup_link ms (parentUuid m)"
  by (simp add: parent_message_def lookup_link_def parent_link_def)

lemma walk_from_simps:
  "truthy l = None \<Longrightarrow> walk_from ms l = []"
  "truthy l = Some u \<Longrightarrow> map_of ms u = None \<Longrightarrow> walk_from ms l = []"
  "descending r ms \<Longrightarrow> truthy l = Some u \<Longrightarrow> map_of ms u = Some m \<Longrightarrow> walk_from ms l = uuid m # walk_from ms (parentUuid m)"
proof -
  assume "descending r ms" "truthy l = Some u" "map_of ms u = Some m"
  moreover from this have "m \<in> set (values_of ms)" by (force dest: map_of_SomeD)
  ultimately show "walk_from ms l = uuid m # walk_from ms (parentUuid m)"
    by (simp add: walk_from_def lookup_link_def walk_step parent_message_lookup)
qed (simp_all add: walk_from_def lookup_link_def)

section \<open>The nearest message that is left\<close>

text \<open>Where a link leads when the removed messages are skipped: the specification of \<open>resolve\<close>.\<close>

inductive leads_to :: "transcript \<Rightarrow> uuid list \<Rightarrow> uuid option \<Rightarrow> uuid option \<Rightarrow> bool" for ms del where
  stop: "truthy l = None \<Longrightarrow> leads_to ms del l l"
| keep: "truthy l = Some u \<Longrightarrow> u \<notin> set del \<Longrightarrow> leads_to ms del l l"
| gone: "truthy l = Some u \<Longrightarrow> u \<in> set del \<Longrightarrow> map_of ms u = None \<Longrightarrow> leads_to ms del l None"
| skip: "truthy l = Some u \<Longrightarrow> u \<in> set del \<Longrightarrow> map_of ms u = Some m \<Longrightarrow> leads_to ms del (parentUuid m) q \<Longrightarrow> leads_to ms del l q"

definition rests :: "uuid list \<Rightarrow> uuid option \<Rightarrow> bool" where
  "rests del l \<longleftrightarrow> (case truthy l of None \<Rightarrow> True | Some u \<Rightarrow> u \<notin> set del)"

lemma leads_to_rests: "leads_to ms del l q \<Longrightarrow> rests del q"
  by (induction rule: leads_to.induct) (auto simp: rests_def truthy_def)

lemma leads_to_same: "rests del l \<Longrightarrow> leads_to ms del l l"
  by (auto simp: rests_def intro: leads_to.intros split: option.splits)

text \<open>What the map of links records while they are being shortened.\<close>

definition links_kept :: "transcript \<Rightarrow> uuid list \<Rightarrow> (uuid \<Rightarrow> uuid option option) \<Rightarrow> bool" where
  "links_kept ms del dp \<longleftrightarrow>
     (\<forall>u\<in>set del. u \<noteq> [] \<longrightarrow>
        (case dp u of
           None \<Rightarrow> map_of ms u = None
         | Some p \<Rightarrow> (\<exists>m. map_of ms u = Some m \<and> p = parentUuid m) \<or> (rests del p \<and> leads_to ms del (Some u) p)))"

lemma links_kept_deleted: "links_kept ms del (deleted_parents ms del)"
  by (auto simp: links_kept_def deleted_parents_def split: option.splits)

definition steps_left :: "(uuid \<Rightarrow> nat) \<Rightarrow> transcript \<Rightarrow> uuid option \<Rightarrow> nat" where
  "steps_left r ms l =
     (case lookup_link ms l of None \<Rightarrow> 0 | Some m \<Rightarrow> Suc (card {u \<in> fst ` set ms. r u < r (uuid m)}))"

lemma steps_left_bound: "steps_left r ms l \<le> Suc (length ms)"
proof -
  have "card {u \<in> fst ` set ms. r u < n} \<le> length ms" for n
    using card_mono [of "fst ` set ms" "{u \<in> fst ` set ms. r u < n}"] card_length [of "map fst ms"] by auto
  then show ?thesis by (auto simp: steps_left_def split: option.splits)
qed

lemma steps_left_parent:
  assumes wf: "wf_transcript ms" and desc: "descending r ms" and m: "map_of ms u = Some m" "truthy l = Some u"
  shows "steps_left r ms (parentUuid m) < steps_left r ms l"
proof (cases "lookup_link ms (parentUuid m)")
  case (Some p)
  have mv: "m \<in> set (values_of ms)" using m(1) by (force dest: map_of_SomeD)
  have lt: "r (uuid p) < r (uuid m)" using descendingD [OF desc mv] Some by (simp add: parent_message_lookup)
  have "map_of ms (uuid p) = Some p" using Some wf by (auto simp: lookup_link_def wf_lookup split: option.splits)
  then have "uuid p \<in> fst ` set ms" by (force dest: map_of_SomeD)
  then have "{u \<in> fst ` set ms. r u < r (uuid p)} \<subset> {u \<in> fst ` set ms. r u < r (uuid m)}" using lt by auto
  then have "card {u \<in> fst ` set ms. r u < r (uuid p)} < card {u \<in> fst ` set ms. r u < r (uuid m)}"
    by (intro psubset_card_mono) auto
  then show ?thesis using Some m by (simp add: steps_left_def lookup_link_def)
qed (use m in \<open>simp add: steps_left_def lookup_link_def\<close>)

lemma resolve_walk_leads:
  assumes wf: "wf_transcript ms" and desc: "descending r ms" and dp: "links_kept ms del dp"
    and fuel: "steps_left r ms cur + 2 \<le> fuel"
  shows "\<exists>us q. resolve_walk fuel del dp path cur = Some (path @ us, q) \<and> leads_to ms del cur q \<and>
     (\<forall>u\<in>set us. leads_to ms del (Some u) q)"
  using fuel
proof (induction fuel arbitrary: path cur)
  case (Suc fuel)
  show ?case
  proof (cases "truthy cur")
    case None
    then show ?thesis by (auto intro: leads_to.stop)
  next
    case (Some u)
    note cur = truthy_Some [OF Some]
    have u: "u \<noteq> []" using Some by (auto simp: truthy_def split: if_splits)
    show ?thesis
    proof (cases "u \<in> set del")
      case False
      then show ?thesis using Some by (auto intro: leads_to.keep)
    next
      case True
      show ?thesis
      proof (cases "dp u")
        case None
        then have "map_of ms u = None" using bspec [OF dp [unfolded links_kept_def] True] u by simp
        then have "leads_to ms del cur None" by (rule leads_to.gone [OF Some True])
        then show ?thesis using Some True None cur by (intro exI [of _ "[u]"] exI [of _ None]) simp
      next
        case dpu: (Some p)
        have "(\<exists>m. map_of ms u = Some m \<and> p = parentUuid m) \<or> (rests del p \<and> leads_to ms del (Some u) p)"
          using bspec [OF dp [unfolded links_kept_def] True] u dpu by simp
        then show ?thesis
        proof
          assume "\<exists>m. map_of ms u = Some m \<and> p = parentUuid m"
          then obtain m where m: "map_of ms u = Some m" "p = parentUuid m" by blast
          have "steps_left r ms p + 2 \<le> fuel" using steps_left_parent [OF wf desc m(1) Some] Suc.prems m(2) by simp
          from Suc.IH [OF this, of "path @ [u]"] obtain us q
            where q: "resolve_walk fuel del dp (path @ [u]) p = Some ((path @ [u]) @ us, q)" "leads_to ms del p q"
              "\<forall>u\<in>set us. leads_to ms del (Some u) q" by blast
          have "leads_to ms del cur q" using leads_to.skip [OF Some True m(1)] q(2) m(2) by simp
          then show ?thesis using q Some True dpu cur by (intro exI [of _ "u # us"] exI [of _ q]) simp
        next
          assume p: "rests del p \<and> leads_to ms del (Some u) p"
          obtain f where f: "fuel = Suc f" using Suc.prems by (cases fuel) auto
          have "resolve_walk fuel del dp (path @ [u]) p = Some (path @ [u], p)"
            using p by (auto simp: f rests_def split: option.splits)
          then show ?thesis using p Some True dpu cur by (intro exI [of _ "[u]"] exI [of _ p]) simp
        qed
      qed
    qed
  qed
qed simp

lemma links_kept_shortened:
  assumes "links_kept ms del dp" "rests del q" "\<forall>u\<in>set us. leads_to ms del (Some u) q"
  shows "links_kept ms del (foldl (\<lambda>d p. d(p \<mapsto> q)) dp us)"
  using assms
proof (induction us arbitrary: dp)
  case (Cons u us)
  have "links_kept ms del (dp(u \<mapsto> q))" using Cons.prems by (auto simp: links_kept_def)
  then show ?case using Cons.IH Cons.prems by (simp del: fun_upd_apply)
qed simp

definition relinked :: "transcript \<Rightarrow> uuid list \<Rightarrow> transcript_message \<Rightarrow> transcript_message \<Rightarrow> bool" where
  "relinked ms del m m' \<longleftrightarrow> (\<exists>q. leads_to ms del (parentUuid m) q \<and> m' = set_parent q m)"

lemma relink_survivors_relinked:
  assumes wf: "wf_transcript ms" and desc: "descending r ms" and dp: "links_kept ms del dp"
    and fuel: "length ms + 3 \<le> fuel"
  shows "\<exists>ns. relink_survivors fuel del dp ss = Some ns \<and>
     list_all2 (\<lambda>(u, m) (u', m'). u' = u \<and> relinked ms del m m') ss ns"
  using dp
proof (induction ss arbitrary: dp)
  case (Cons s ss)
  obtain u m where s: "s = (u, m)" by (cases s)
  have same: "relinked ms del m m" if "rests del (parentUuid m)"
    using leads_to_same [OF that, of ms] by (auto simp: relinked_def set_parent_def)
  show ?case
  proof (cases "rests del (parentUuid m)")
    case True
    obtain ns where "relink_survivors fuel del dp ss = Some ns"
      "list_all2 (\<lambda>(u, m) (u', m'). u' = u \<and> relinked ms del m m') ss ns" using Cons by blast
    then show ?thesis using same [OF True] True s by (auto simp: parent_link_def rests_def split: option.splits)
  next
    case False
    then obtain p where p: "parent_link m = Some p" "p \<in> set del" by (auto simp: rests_def parent_link_def split: option.splits)
    have pm: "parentUuid m = Some p" using p(1) by (simp add: parent_link_def truthy_Some)
    have "steps_left r ms (Some p) + 2 \<le> fuel" using steps_left_bound [of r ms "Some p"] fuel by simp
    from resolve_walk_leads [OF wf desc Cons.prems this, of "[]"] obtain us q
      where q: "resolve_walk fuel del dp [] (Some p) = Some (us, q)" "leads_to ms del (Some p) q"
        "\<forall>u\<in>set us. leads_to ms del (Some u) q" by auto
    let ?dp = "foldl (\<lambda>d p. d(p \<mapsto> q)) dp us"
    have "links_kept ms del ?dp" by (rule links_kept_shortened [OF Cons.prems leads_to_rests [OF q(2)] q(3)])
    from Cons.IH [OF this] obtain ns where "relink_survivors fuel del ?dp ss = Some ns"
      "list_all2 (\<lambda>(u, m) (u', m'). u' = u \<and> relinked ms del m m') ss ns" by blast
    then show ?thesis using s p pm q by (auto simp: resolve_link_def relinked_def)
  qed
qed simp

section \<open>The conversation after a snip\<close>

lemma set_snipped: "set (snipped ms) = {u. \<exists>(k, m)\<in>set ms. \<exists>us. removedUuids m = Some us \<and> u \<in> set us}"
proof -
  have add: "set (foldl (\<lambda>d u. set_add u d) del us) = set del \<union> set us" for del :: "uuid list" and us
    by (induction us arbitrary: del) auto
  have "set (foldl (\<lambda>del (k, m). case removedUuids m of None \<Rightarrow> del | Some us \<Rightarrow> foldl (\<lambda>d u. set_add u d) del us) del ms) =
      set del \<union> {u. \<exists>(k, m)\<in>set ms. \<exists>us. removedUuids m = Some us \<and> u \<in> set us}" for del
    by (induction ms arbitrary: del) (auto simp: add split: option.splits)
  then show ?thesis by (simp add: snipped_def)
qed

lemma relinked_simps: "relinked ms del m m' \<Longrightarrow> uuid m' = uuid m \<and> body m' = body m \<and> isSidechain m' = isSidechain m"
  by (auto simp: relinked_def set_parent_def)

lemma applySnipRemovals_relinked:
  assumes wf: "wf_transcript ms" and desc: "descending r ms" and fuel: "length ms + 3 \<le> fuel"
  shows "\<exists>ns. applySnipRemovals fuel ms = Some ns \<and>
     list_all2 (\<lambda>(u, m) (u', m'). u' = u \<and> relinked ms (snipped ms) m m') (filter (\<lambda>(u, m). u \<notin> set (snipped ms)) ms) ns"
proof (cases "snipped ms = []")
  case True
  have "leads_to ms [] (parentUuid m) (parentUuid m)" for m
    by (rule leads_to_same) (simp add: rests_def split: option.split)
  then have "relinked ms [] m m" for m by (auto simp: relinked_def set_parent_def intro!: exI [of _ "parentUuid m"])
  then show ?thesis using True by (auto simp: applySnipRemovals_def list_all2_same)
next
  case False
  then show ?thesis
    using relink_survivors_relinked [OF wf desc links_kept_deleted fuel] by (simp add: applySnipRemovals_def Let_def)
qed

lemma list_all2_map_of:
  assumes "list_all2 (\<lambda>(u, m) (u', m'). u' = u \<and> R m m') xs ys"
  shows "rel_option R (map_of xs u) (map_of ys u)"
  using assms by (induction rule: list_all2_induct) auto

lemma map_of_filter_key: "map_of (filter (\<lambda>(u, m). P u) xs) u = (if P u then map_of xs u else None)"
  by (induction xs) auto

lemma wf_lookup_link: "wf_transcript ms \<Longrightarrow> lookup_link ms l = Some m \<Longrightarrow> m \<in> set (values_of ms) \<and> truthy l = Some (uuid m)"
  by (auto simp: lookup_link_def wf_lookup split: option.splits)

lemma leads_to_lower:
  assumes wf: "wf_transcript ms" and desc: "descending r ms"
  shows "leads_to ms del l q \<Longrightarrow> lookup_link ms q = Some p \<Longrightarrow> \<exists>p0. lookup_link ms l = Some p0 \<and> r (uuid p) \<le> r (uuid p0)"
proof (induction rule: leads_to.induct)
  case (skip l u m q)
  then obtain p0 where p0: "lookup_link ms (parentUuid m) = Some p0" "r (uuid p) \<le> r (uuid p0)" by blast
  have "m \<in> set (values_of ms)" using skip.hyps(3) by (force dest: map_of_SomeD)
  then have "r (uuid p0) < r (uuid m)" using p0(1) by (intro descendingD [OF desc]) (simp_all add: parent_message_lookup)
  then show ?case using skip.hyps p0(2) by (simp add: lookup_link_def)
qed (auto simp: lookup_link_def truthy_def)


lemma snip_lookup:
  assumes "list_all2 (\<lambda>(u, m) (u', m'). u' = u \<and> relinked ms del m m') (filter (\<lambda>(u, m). u \<notin> set del) ms) ns"
  shows "rel_option (relinked ms del) (if u \<in> set del then None else map_of ms u) (map_of ns u)"
  using list_all2_map_of [OF assms, of u] map_of_filter_key [of "\<lambda>u. u \<notin> set del" ms u] by (simp split: if_splits)

lemma snip_wf:
  assumes wf: "wf_transcript ms"
    and ns: "list_all2 (\<lambda>(u, m) (u', m'). u' = u \<and> relinked ms del m m') (filter (\<lambda>(u, m). u \<notin> set del) ms) ns"
  shows "wf_transcript ns"
proof -
  let ?fs = "filter (\<lambda>(u, m). u \<notin> set del) ms"
  have "map fst ns = map fst ?fs \<and> (\<forall>(k, m)\<in>set ns. uuid m = k)" if "\<forall>(k, m)\<in>set ?fs. uuid m = k"
    using ns that by (induction rule: list_all2_induct) (auto simp: relinked_simps)
  moreover have "\<forall>(k, m)\<in>set ?fs. uuid m = k" using wf by (auto simp: wf_transcript_def)
  moreover have "distinct (map fst ?fs)" using wf by (simp add: wf_transcript_def distinct_map_filter)
  ultimately show ?thesis unfolding wf_transcript_def by metis
qed

lemma snip_descending:
  assumes wf: "wf_transcript ms" and desc: "descending r ms"
    and ns: "list_all2 (\<lambda>(u, m) (u', m'). u' = u \<and> relinked ms del m m') (filter (\<lambda>(u, m). u \<notin> set del) ms) ns"
  shows "descending r ns"
  unfolding descending_def
proof clarify
  fix u m' p' assume "(u, m') \<in> set ns" and p': "parent_message ns m' = Some p'"
  then have "map_of ns u = Some m'" using snip_wf [OF wf ns] by (simp add: wf_transcript_def)
  then obtain m where m: "map_of ms u = Some m" "relinked ms del m m'"
    using snip_lookup [OF ns, of u] by (auto simp: option_rel_Some2 split: if_splits)
  then obtain q where q: "leads_to ms del (parentUuid m) q" "m' = set_parent q m" by (auto simp: relinked_def)
  have "truthy q = Some (uuid p')" "map_of ns (uuid p') = Some p'"
    using wf_lookup_link [OF snip_wf [OF wf ns], of q p'] p' q(2) wf_lookup [OF snip_wf [OF wf ns]]
    by (auto simp: parent_message_lookup set_parent_def simp del: set_map)
  then obtain p where p: "map_of ms (uuid p') = Some p" "lookup_link ms q = Some p"
    using snip_lookup [OF ns, of "uuid p'"] by (auto simp: option_rel_Some2 lookup_link_def split: if_splits)
  obtain p0 where "lookup_link ms (parentUuid m) = Some p0" "r (uuid p) \<le> r (uuid p0)"
    using leads_to_lower [OF wf desc q(1) p(2)] by blast
  moreover have "m \<in> set (values_of ms)" using m(1) by (force dest: map_of_SomeD)
  ultimately have "r (uuid p) < r (uuid m)"
    using descendingD [OF desc, of m p0] by (simp add: parent_message_lookup)
  moreover have "uuid p = uuid p'" using p(1) wf by (simp add: wf_lookup)
  moreover have "uuid m' = uuid m" using m(2) by (simp add: relinked_simps)
  ultimately show "r (uuid p') < r (uuid m')" by simp
qed

lemma snip_walk:
  assumes wf: "wf_transcript ms" and desc: "descending r ms"
    and ns: "list_all2 (\<lambda>(u, m) (u', m'). u' = u \<and> relinked ms del m m') (filter (\<lambda>(u, m). u \<notin> set del) ms) ns"
    and q: "leads_to ms del l q"
  shows "walk_from ns q = filter (\<lambda>u. u \<notin> set del) (walk_from ms l)"
  using q
proof (induction "steps_left r ms l" arbitrary: l q rule: less_induct)
  case less
  note desc' = snip_descending [OF wf desc ns]
  from less.prems show ?case
  proof cases
    case (keep u)
    show ?thesis
    proof (cases "map_of ms u")
      case None
      then have "map_of ns u = None" using snip_lookup [OF ns, of u] keep by simp
      then show ?thesis using keep None by (simp add: walk_from_simps)
    next
      case (Some m)
      then obtain m' where m': "map_of ns u = Some m'" "relinked ms del m m'"
        using snip_lookup [OF ns, of u] keep by (auto simp: option_rel_Some1)
      have "walk_from ns (parentUuid m') = filter (\<lambda>u. u \<notin> set del) (walk_from ms (parentUuid m))"
        using m'(2) less.hyps [OF steps_left_parent [OF wf desc Some keep(2)]] by (auto simp: relinked_def set_parent_def)
      moreover have "uuid m = u" using Some wf by (simp add: wf_lookup)
      ultimately show ?thesis
        using keep Some m' walk_from_simps(3) [OF desc] walk_from_simps(3) [OF desc'] by (simp add: relinked_simps)
    qed
  next
    case (skip u m)
    have "uuid m = u" using skip wf by (simp add: wf_lookup)
    then show ?thesis using skip less.hyps [OF steps_left_parent [OF wf desc skip(3,1)] skip(4)] walk_from_simps(3) [OF desc skip(1,3)]
      by simp
  qed (simp_all add: walk_from_simps truthy_def)
qed

text \<open>
  C25: When the links of a transcript have no cycle, the removal of snipped messages ends, keeps every other
  message but for its parent, and the chain of any message that is left is its chain before the removal
  without the snipped messages.
\<close>

theorem snip_removes_exactly:
  assumes wf: "wf_transcript ms" and desc: "descending r ms" and fuel: "length ms + 3 \<le> fuel"
  shows "\<exists>ns. applySnipRemovals fuel ms = Some ns \<and>
    map fst ns = filter (\<lambda>u. u \<notin> set (snipped ms)) (map fst ms) \<and>
    (\<forall>u m'. map_of ns u = Some m' \<longrightarrow>
       (\<exists>m. map_of ms u = Some m \<and> m' = set_parent (parentUuid m') m \<and>
          map uuid (chain_walk ns m') = filter (\<lambda>u. u \<notin> set (snipped ms)) (map uuid (chain_walk ms m))))"
proof -
  let ?del = "snipped ms"
  obtain ns where ns: "applySnipRemovals fuel ms = Some ns"
    "list_all2 (\<lambda>(u, m) (u', m'). u' = u \<and> relinked ms ?del m m') (filter (\<lambda>(u, m). u \<notin> set ?del) ms) ns"
    using applySnipRemovals_relinked [OF wf desc fuel] by blast
  have keys: "map fst ns = map fst (filter (\<lambda>(u, m). u \<notin> set ?del) ms)"
    using ns(2) by (induction rule: list_all2_induct) auto
  have "map fst (filter (\<lambda>(u, m). u \<notin> set ?del) ms) = filter (\<lambda>u. u \<notin> set ?del) (map fst ms)"
    by (simp add: filter_map comp_def case_prod_unfold)
  moreover have "\<exists>m. map_of ms u = Some m \<and> m' = set_parent (parentUuid m') m \<and>
      map uuid (chain_walk ns m') = filter (\<lambda>u. u \<notin> set ?del) (map uuid (chain_walk ms m))"
    if m': "map_of ns u = Some m'" for u m'
  proof -
    obtain m where m: "map_of ms u = Some m" "u \<notin> set ?del" "relinked ms ?del m m'"
      using snip_lookup [OF ns(2), of u] m' by (auto simp: option_rel_Some2 split: if_splits)
    then obtain q where q: "leads_to ms ?del (parentUuid m) q" "m' = set_parent q m" by (auto simp: relinked_def)
    have mv: "m \<in> set (values_of ms)" "m' \<in> set (values_of ns)" using m(1) m' by (force dest: map_of_SomeD)+
    have chain: "map uuid (chain_walk ms m) = rev (uuid m # walk_from ms (parentUuid m))"
      "map uuid (chain_walk ns m') = rev (uuid m' # walk_from ns (parentUuid m'))"
      using walk_step [OF desc mv(1)] walk_step [OF snip_descending [OF wf desc ns(2)] mv(2)]
      by (simp_all add: chain_walk_def walk_from_def parent_message_lookup rev_map)
    have "uuid m = u" using m(1) wf by (simp add: wf_lookup)
    then show ?thesis using chain snip_walk [OF wf desc ns(2) q(1)] m q(2)
      by (simp add: set_parent_def rev_filter)
  qed
  ultimately show ?thesis using ns(1) keys by simp
qed

end
