(* ===== verification/Transcript_Segment.thy ===== *)
theory Transcript_Segment
  imports Transcript_Load Transcript_Chain
begin

text \<open>
  What a compaction preserved, \<open>applyPreservedSegmentRelinks\<close>: the preserved messages stand between the
  message that they follow and the messages that came after the compaction, and everything else before the
  boundary is gone.
\<close>

section \<open>Walks along given messages\<close>

lemma in_set_tlD: "x \<in> set (tl xs) \<Longrightarrow> x \<in> set xs"
  by (cases xs) auto

lemma walk_along:
  assumes "follows_links ms ps" "ps \<noteq> []" "distinct (map uuid ps)" "set seen \<inter> uuid ` set ps = {}"
    "parent_message ms (last ps) = None"
  shows "walk (\<lambda>_. False) ms seen (Some (hd ps)) = ps"
  using assms
proof (induction ps arbitrary: seen)
  case (Cons p ps)
  show ?case
  proof (cases ps)
    case Nil
    then show ?thesis using Cons.prems by (simp add: walk.simps(2))
  next
    case (Cons q qs)
    have "walk (\<lambda>_. False) ms (uuid p # seen) (Some (hd ps)) = ps"
      using Cons.prems Cons by (intro Cons.IH) (auto simp: follows_links_Cons)
    then show ?thesis using Cons.prems Cons by (simp add: walk.simps(2))
  qed
qed simp

lemma follows_links_append:
  "follows_links ms (ps @ qs) \<longleftrightarrow>
     follows_links ms ps \<and> follows_links ms qs \<and> (ps = [] \<or> qs = [] \<or> parent_message ms (last ps) = Some (hd qs))"
  by (induction ps) (auto simp: follows_links_Cons)

lemma follows_links_join:
  "follows_links ms ps \<Longrightarrow> follows_links ms qs \<Longrightarrow> follows_links ms rs \<Longrightarrow> ps \<noteq> [] \<Longrightarrow> qs \<noteq> [] \<Longrightarrow> rs \<noteq> [] \<Longrightarrow>
     parent_message ms (last ps) = Some (hd qs) \<Longrightarrow> parent_message ms (last qs) = Some (hd rs) \<Longrightarrow>
     follows_links ms (ps @ qs @ rs)"
  by (simp add: follows_links_append)

lemma walk_stops: "walk stop ms seen c = xs @ m # ys \<Longrightarrow> ys \<noteq> [] \<Longrightarrow> \<not> stop m"
proof (induction stop ms seen c arbitrary: xs rule: walk.induct)
  case (2 stop ms seen a)
  have fresh: "uuid a \<notin> set seen" using 2(2) by (auto simp: walk.simps(2) split: if_splits)
  show ?case
  proof (cases xs)
    case Nil
    then show ?thesis using 2(2,3) fresh by (auto simp: walk.simps(2) split: if_splits)
  next
    case (Cons x xs')
    then have "\<not> stop a" "walk stop ms (uuid a # seen) (parent_message ms a) = xs' @ m # ys"
      using 2(2) fresh by (auto simp: walk.simps(2) split: if_splits)
    then show ?thesis using 2(1) [OF fresh] 2(3) by blast
  qed
qed simp

lemma walk_segment_shape:
  assumes wf: "wf_transcript ms" and head: "reaches_head ms s"
  obtains ps h where "walk_segment ms s = ps @ [h]" "uuid h = headUuid s" "\<forall>p\<in>set ps. uuid p \<noteq> headUuid s"
    "uuid (hd (ps @ [h])) = tailUuid s"
proof -
  obtain m where m: "m \<in> set (walk_segment ms s)" "uuid m = headUuid s" using head by (auto simp: reaches_head_def)
  then obtain xs ys where xy: "walk_segment ms s = xs @ m # ys" by (meson split_list)
  have "ys = []" using walk_stops xy m(2) unfolding walk_segment_def by fastforce
  moreover have "\<forall>p\<in>set xs. uuid p \<noteq> headUuid s"
    using walk_distinct [of "\<lambda>m. uuid m = headUuid s" ms "[]" "map_of ms (tailUuid s)"] xy m(2)
    by (force simp: walk_segment_def)
  moreover have "map_of ms (tailUuid s) = Some (hd (walk_segment ms s))"
    using walk_hd [of "\<lambda>m. uuid m = headUuid s" ms "[]" "map_of ms (tailUuid s)"] xy unfolding walk_segment_def by simp
  then have "uuid (hd (walk_segment ms s)) = tailUuid s" using wf by (simp add: wf_lookup)
  ultimately show ?thesis using that [of xs m] xy m(2) by simp
qed

lemma segment_values: "set (walk_segment ms s) \<subseteq> set (values_of ms)"
proof -
  have "set_option (map_of ms (tailUuid s)) \<subseteq> set (values_of ms)"
    by (cases "map_of ms (tailUuid s)") (force dest: map_of_SomeD)+
  then show ?thesis
    using walk_in [of "\<lambda>m. uuid m = headUuid s" ms "[]" "map_of ms (tailUuid s)"] unfolding walk_segment_def by blast
qed

lemma wf_uuids: "wf_transcript ms \<Longrightarrow> uuid ` set (values_of ms) = fst ` set ms"
  by (auto simp: wf_transcript_def image_image intro!: image_cong)

section \<open>The messages after the relinking\<close>

lemma map_of_relink_tail:
  "map_of (relink_tail s ms) u =
     map_option (\<lambda>m. if parentUuid m = Some (anchorUuid s) \<and> u \<noteq> headUuid s then set_parent (Some (tailUuid s)) m else m) (map_of ms u)"
  by (induction ms) (auto simp: relink_tail_def)

lemma map_of_reset_usage:
  "map_of (reset_usage P ms) u = map_option (\<lambda>m. if u \<in> set P then m\<lparr>body := zero_usage (body m)\<rparr> else m) (map_of ms u)"
  by (induction ms) (auto simp: reset_usage_def)

lemma map_of_relink_head:
  "map_of (relink_head s ms) u =
     map_option (\<lambda>m. if u = headUuid s then set_parent (Some (anchorUuid s)) m else m) (map_of ms u)"
  by (cases "map_of ms u"; cases "map_of ms (headUuid s)"; auto simp: relink_head_def update_conv')

lemma keys_reset_usage: "map fst (reset_usage P ms) = map fst ms"
  by (induction ms) (auto simp: reset_usage_def)

lemma keys_relink_tail: "map fst (relink_tail s ms) = map fst ms"
  by (induction ms) (auto simp: relink_tail_def)

lemma keys_relink_head: "map fst (relink_head s ms) = map fst ms"
  by (auto simp: relink_head_def update_keys map_of_eq_None_iff split: option.split dest: map_of_SomeD)

lemmas keys_relinked = keys_reset_usage keys_relink_tail keys_relink_head

lemma set_drop_nth: "x \<in> set (drop i xs) \<longleftrightarrow> (\<exists>j. i \<le> j \<and> j < length xs \<and> xs ! j = x)"
proof
  assume "x \<in> set (drop i xs)"
  then obtain k where "k < length xs - i" "xs ! (i + k) = x" by (auto simp: in_set_conv_nth)
  then show "\<exists>j. i \<le> j \<and> j < length xs \<and> xs ! j = x" by (intro exI [of _ "i + k"]) auto
next
  assume "\<exists>j. i \<le> j \<and> j < length xs \<and> xs ! j = x"
  then obtain j where "i \<le> j" "j < length xs" "xs ! j = x" by blast
  then have "drop i xs ! (j - i) = x" "j - i < length (drop i xs)" by simp_all
  then show "x \<in> set (drop i xs)" by (metis nth_mem)
qed

lemma prune_before_nth: "set (prune_before (int i) P ms) = {x. \<exists>j<length ms. ms ! j = x \<and> (i \<le> j \<or> fst x \<in> set P)}"
  by (force simp: prune_before_def in_set_enumerate_eq)

lemma prune_before_keys: "distinct (map fst ms) \<Longrightarrow> distinct (map fst (prune_before idx P ms))"
proof -
  have "map fst (prune_before idx P ms) = map (fst \<circ> snd) (filter (\<lambda>(i, (u, m)). \<not> (int i < idx \<and> u \<notin> set P)) (List.enumerate 0 ms))"
    by (simp add: prune_before_def)
  moreover have "map (fst \<circ> snd) (List.enumerate 0 ms) = map fst ms" by (simp flip: map_map)
  ultimately show "distinct (map fst ms) \<Longrightarrow> ?thesis" using distinct_map_filter by metis
qed

lemma option_eqI: "(\<And>m. x = Some m \<longleftrightarrow> y = Some m) \<Longrightarrow> x = y"
  by (cases x; cases y) auto

lemma map_of_prune_before:
  assumes "distinct (map fst ms)"
  shows "map_of (prune_before (int i) P ms) u = (if u \<in> set P \<or> u \<in> fst ` set (drop i ms) then map_of ms u else None)"
proof -
  have drop: "u \<in> fst ` set (drop i ms) \<longleftrightarrow> (\<exists>j m. i \<le> j \<and> j < length ms \<and> ms ! j = (u, m))"
    by (force simp: set_drop_nth)
  have "map_of (prune_before (int i) P ms) u = Some m \<longleftrightarrow>
      map_of ms u = Some m \<and> (u \<in> set P \<or> u \<in> fst ` set (drop i ms))" for m
  proof -
    have "map_of (prune_before (int i) P ms) u = Some m \<longleftrightarrow> (\<exists>j<length ms. ms ! j = (u, m) \<and> (i \<le> j \<or> u \<in> set P))"
      using prune_before_keys [OF assms, of "int i" P] by (auto simp: map_of_eq_Some_iff prune_before_nth)
    moreover have "map_of ms u = Some m \<longleftrightarrow> (\<exists>j<length ms. ms ! j = (u, m))"
      using assms by (auto simp: map_of_eq_Some_iff in_set_conv_nth)
    moreover have "j = k \<and> m' = m" if "j < length ms" "k < length ms" "ms ! j = (u, m')" "ms ! k = (u, m)" for j k m'
      using that assms nth_eq_iff_index_eq [of "map fst ms" j k] by auto
    ultimately show ?thesis unfolding drop by blast
  qed
  then show ?thesis by (intro option_eqI) (simp split: if_splits)
qed

text \<open>What happens to one message.\<close>

definition splice_message :: "preserved_segment \<Rightarrow> uuid list \<Rightarrow> transcript_message \<Rightarrow> transcript_message" where
  "splice_message s P m =
     (let m1 = (if uuid m = headUuid s then set_parent (Some (anchorUuid s)) m else m);
          m2 = (if parentUuid m1 = Some (anchorUuid s) \<and> uuid m \<noteq> headUuid s then set_parent (Some (tailUuid s)) m1 else m1)
      in if uuid m \<in> set P then m2\<lparr>body := zero_usage (body m2)\<rparr> else m2)"

definition splice_all :: "preserved_segment \<Rightarrow> uuid list \<Rightarrow> nat \<Rightarrow> transcript \<Rightarrow> transcript" where
  "splice_all s P i ms = prune_before (int i) P (reset_usage P (relink_tail s (relink_head s ms)))"

definition kept :: "uuid list \<Rightarrow> nat \<Rightarrow> transcript \<Rightarrow> uuid \<Rightarrow> bool" where
  "kept P i ms u \<longleftrightarrow> u \<in> set P \<or> u \<in> fst ` set (drop i ms)"

lemma splice_simps [simp]:
  "uuid (splice_message s P m) = uuid m"
  "parentUuid (splice_message s P m) =
     (if uuid m = headUuid s then Some (anchorUuid s)
      else if parentUuid m = Some (anchorUuid s) then Some (tailUuid s) else parentUuid m)"
  by (cases "uuid m = headUuid s"; cases "parentUuid m = Some (anchorUuid s)"; cases "uuid m \<in> set P";
      simp add: splice_message_def set_parent_def)+

lemma map_of_splice_all:
  assumes wf: "wf_transcript ms"
  shows "map_of (splice_all s P i ms) u = (if kept P i ms u then map_option (splice_message s P) (map_of ms u) else None)"
proof -
  let ?r = "reset_usage P (relink_tail s (relink_head s ms))"
  have "distinct (map fst ?r)" using wf by (simp only: keys_relinked) (simp add: wf_transcript_def)
  moreover have "drop i (map fst ?r) = drop i (map fst ms)" by (simp only: keys_relinked)
  then have "set (map fst (drop i ?r)) = set (map fst (drop i ms))" by (simp only: drop_map)
  then have "fst ` set (drop i ?r) = fst ` set (drop i ms)" by (simp only: set_map)
  moreover have "map_of ?r u = map_option (splice_message s P) (map_of ms u)"
  proof (cases "map_of ms u")
    case (Some m)
    then have "uuid m = u" using wf by (simp add: wf_lookup)
    then show ?thesis using Some
      by (simp add: map_of_reset_usage map_of_relink_tail map_of_relink_head splice_message_def Let_def)
  qed (simp add: map_of_reset_usage map_of_relink_tail map_of_relink_head)
  ultimately show ?thesis by (simp add: splice_all_def kept_def map_of_prune_before)
qed

lemma parent_splice_all:
  assumes wf: "wf_transcript ms" and names: "[] \<notin> set (map fst ms)"
    and p: "map_of ms p = Some q" "kept P i ms p" and link: "parentUuid (splice_message s P m) = Some p"
  shows "parent_message (splice_all s P i ms) (splice_message s P m) = Some (splice_message s P q)"
proof -
  have "p \<noteq> []" using names p(1) by (metis map_of_eq_None_iff option.distinct(1) set_map)
  then show ?thesis using p link
    by (simp add: parent_message_def parent_link_def truthy_def map_of_splice_all [OF wf] del: splice_simps)
qed

lemma follows_splice_all:
  assumes wf: "wf_transcript ms" and names: "[] \<notin> set (map fst ms)"
    and ps: "follows_links ms ps" "\<forall>m\<in>set ps. kept P i ms (uuid m)" "\<forall>m\<in>set (butlast ps). uuid m \<noteq> headUuid s"
      "\<forall>m\<in>set (tl ps). uuid m \<noteq> anchorUuid s"
  shows "follows_links (splice_all s P i ms) (map (splice_message s P) ps)"
  using ps
proof (induction ps)
  case (Cons m ps)
  show ?case
  proof (cases ps)
    case (Cons q qs)
    have q: "parent_message ms m = Some q" using Cons.prems(1) Cons by simp
    then have "q \<in> set (values_of ms)" "parent_link m = Some (uuid q)" using parent_message_wf [OF wf, of m q] by auto
    then have "map_of ms (uuid q) = Some q" "parentUuid (splice_message s P m) = Some (uuid q)"
      using Cons.prems(3,4) Cons truthy_def [of "parentUuid m"] by (auto simp: wf_lookup [OF wf] parent_link_def simp del: set_map split: if_splits)
    then have "parent_message (splice_all s P i ms) (splice_message s P m) = Some (splice_message s P q)"
      using Cons.prems(2) Cons by (intro parent_splice_all [OF wf names]) auto
    moreover have "follows_links (splice_all s P i ms) (map (splice_message s P) ps)"
      using Cons.prems Cons by (intro Cons.IH) auto
    ultimately show ?thesis using Cons by simp
  qed simp
qed simp

lemma chain_walk_along:
  assumes "follows_links ms ps" "ps \<noteq> []" "distinct (map uuid ps)" "parent_message ms (last ps) = None"
  shows "chain_walk ms (hd ps) = rev ps"
  using walk_along [OF assms(1-3) _ assms(4), of "[]"] by (simp add: chain_walk_def)

section \<open>The spliced conversation\<close>

lemma splice_conversation:
  assumes wf: "wf_transcript ms" and names: "[] \<notin> set (map fst ms)"
    and leaf: "leaf \<in> set (values_of ms)" and head: "reaches_head ms s"
    and chain: "chain_walk ms leaf = anc @ a # post" "uuid a = anchorUuid s"
    and root: "parentUuid (hd (anc @ [a])) = None"
    and after: "uuid ` set (chain_walk ms leaf) \<subseteq> fst ` set (drop i ms)"
    and apart: "uuid ` set (chain_walk ms leaf) \<inter> uuid ` set (walk_segment ms s) = {}"
    and post: "post \<noteq> []"
  defines "ns \<equiv> splice_all s (map uuid (walk_segment ms s)) i ms"
  shows "map_of ns (uuid leaf) = Some (splice_message s (map uuid (walk_segment ms s)) leaf) \<and>
    map uuid (chain_walk ns (splice_message s (map uuid (walk_segment ms s)) leaf)) =
      map uuid (anc @ [a]) @ rev (map uuid (walk_segment ms s)) @ map uuid post"
proof -
  let ?P = "map uuid (walk_segment ms s)"
  let ?sp = "splice_message s ?P"
  obtain ps h where seg: "walk_segment ms s = ps @ [h]" "uuid h = headUuid s" "\<forall>p\<in>set ps. uuid p \<noteq> headUuid s"
    "uuid (hd (ps @ [h])) = tailUuid s" using walk_segment_shape [OF wf head] by metis
  have keep: "kept ?P i ms (uuid m)" if "m \<in> set (anc @ a # post) \<or> m \<in> set (walk_segment ms s)" for m
    using that after chain(1) by (auto simp: kept_def)
  have ns_of: "map_of ns (uuid m) = Some (?sp m)"
    if "m \<in> set (values_of ms)" "m \<in> set (anc @ a # post) \<or> m \<in> set (walk_segment ms s)" for m
  proof -
    have "map_of ms (uuid m) = Some m" using wf_lookup [OF wf, of "uuid m" m] that(1) by blast
    then show ?thesis using keep [OF that(2)] by (simp add: ns_def map_of_splice_all [OF wf])
  qed
  have chain_in: "set (anc @ a # post) \<subseteq> set (values_of ms)" using chain_walk_values [OF leaf] chain(1) by simp
  note seg_in = segment_values [of ms s]
  have dist: "distinct (map uuid (anc @ a # post))" using chain_walk_distinct [of ms leaf] chain(1) by simp
  have seg_dist: "distinct (map uuid (walk_segment ms s))" unfolding walk_segment_def by (rule walk_distinct)
  have nohead: "uuid m \<noteq> headUuid s" if "m \<in> set (anc @ a # post)" for m
  proof -
    have "uuid m \<in> uuid ` set (chain_walk ms leaf)" unfolding chain(1) using that by (rule imageI)
    moreover have "headUuid s \<in> uuid ` set (walk_segment ms s)" unfolding seg(1) using seg(2) by force
    ultimately show ?thesis using apart by (metis disjoint_iff)
  qed
  have noanchor: "uuid m \<noteq> anchorUuid s" if "m \<in> set (walk_segment ms s)" for m
  proof -
    have "anchorUuid s \<in> uuid ` set (chain_walk ms leaf)" unfolding chain(1) using chain(2) by force
    moreover have "uuid m \<in> uuid ` set (walk_segment ms s)" using that by (rule imageI)
    ultimately show ?thesis using apart by (metis disjoint_iff)
  qed
  have links: "follows_links ms (rev post @ a # rev anc)"
    using walk_follows [of ms "\<lambda>_. False" "[]" "Some leaf"] arg_cong [OF chain(1), of rev] by (simp add: chain_walk_def)
  then have links': "follows_links ms (rev post)" "follows_links ms (a # rev anc)" "parent_message ms (hd post) = Some a"
    using post by (auto simp: follows_links_append last_rev)
  have once: "uuid m \<noteq> anchorUuid s" if "m \<in> set anc \<or> m \<in> set post" for m
  proof -
    have "uuid a \<notin> uuid ` set anc \<union> uuid ` set post" using dist by auto
    then show ?thesis using that chain(2) by (metis UnCI imageI)
  qed
  have "follows_links ns (map ?sp (rev post))"
    unfolding ns_def
  proof (rule follows_splice_all [OF wf names links'(1)]; intro ballI)
    show "kept ?P i ms (uuid m)" if "m \<in> set (rev post)" for m using that by (intro keep) simp
    show "uuid m \<noteq> headUuid s" if "m \<in> set (butlast (rev post))" for m
      using in_set_butlastD [OF that] by (intro nohead) simp
    show "uuid m \<noteq> anchorUuid s" if "m \<in> set (tl (rev post))" for m
      using in_set_tlD [OF that] by (intro once) simp
  qed
  moreover have "follows_links ns (map ?sp (walk_segment ms s))"
    unfolding ns_def
  proof (rule follows_splice_all [OF wf names]; (intro ballI)?)
    show "follows_links ms (walk_segment ms s)" unfolding walk_segment_def by (rule walk_follows)
    show "kept ?P i ms (uuid m)" if "m \<in> set (walk_segment ms s)" for m using that by (intro keep) simp
    show "uuid m \<noteq> headUuid s" if "m \<in> set (butlast (walk_segment ms s))" for m
      using that seg(1,3) by simp
    show "uuid m \<noteq> anchorUuid s" if "m \<in> set (tl (walk_segment ms s))" for m
      using in_set_tlD [OF that] by (rule noanchor)
  qed
  moreover have "follows_links ns (map ?sp (a # rev anc))"
    unfolding ns_def
  proof (rule follows_splice_all [OF wf names links'(2)]; intro ballI)
    show "kept ?P i ms (uuid m)" if "m \<in> set (a # rev anc)" for m using that by (intro keep) auto
    show "uuid m \<noteq> headUuid s" if "m \<in> set (butlast (a # rev anc))" for m
      using in_set_butlastD [OF that] by (intro nohead) auto
    show "uuid m \<noteq> anchorUuid s" if "m \<in> set (tl (a # rev anc))" for m using that by (intro once) simp
  qed
  moreover have "parent_message ns (?sp (hd post)) = Some (?sp (hd (walk_segment ms s)))"
  proof -
    have "parentUuid (hd post) = Some (anchorUuid s)"
      using links'(3) wf chain(2) by (auto simp: parent_message_wf parent_link_def dest: truthy_Some)
    moreover have "uuid (hd post) \<noteq> headUuid s" using post by (intro nohead) simp
    moreover have "hd (walk_segment ms s) \<in> set (values_of ms)" using seg_in seg(1) by (metis hd_in_set snoc_eq_iff_butlast subsetD)
    moreover have "kept ?P i ms (tailUuid s)"
      using keep [of "hd (walk_segment ms s)"] seg(1,4) by (metis hd_in_set snoc_eq_iff_butlast)
    ultimately show ?thesis unfolding ns_def using seg(1,4)
      by (intro parent_splice_all [OF wf names, where p = "tailUuid s"]) (simp_all add: wf_lookup [OF wf] del: set_map)
  qed
  moreover have "parent_message ns (?sp h) = Some (?sp a)"
    unfolding ns_def using chain chain_in seg(2) keep [of a]
    by (intro parent_splice_all [OF wf names, where p = "anchorUuid s"]) (auto simp: wf_lookup [OF wf] simp del: set_map)
  ultimately have "follows_links ns (map ?sp (rev post @ walk_segment ms s @ a # rev anc))"
    unfolding map_append using post seg(1) by (intro follows_links_join) (simp_all add: last_rev last_map hd_map hd_append)
  moreover have "distinct (map uuid (map ?sp (rev post @ walk_segment ms s @ a # rev anc)))"
    using dist seg_dist apart chain(1) by (auto simp: comp_def simp flip: rev_map)
  moreover have "parent_message ns (last (map ?sp (rev post @ walk_segment ms s @ a # rev anc))) = None"
  proof -
    have "last (map ?sp (rev post @ walk_segment ms s @ a # rev anc)) = ?sp (hd (anc @ [a]))"
      by (cases anc) (simp_all add: last_map last_rev)
    moreover have "hd (anc @ [a]) \<in> set (anc @ a # post)" by (cases anc) auto
    then have "uuid (hd (anc @ [a])) \<noteq> headUuid s" by (rule nohead)
    ultimately show ?thesis using root by (simp add: parent_message_def parent_link_def truthy_def)
  qed
  ultimately have "chain_walk ns (hd (map ?sp (rev post @ walk_segment ms s @ a # rev anc))) =
      rev (map ?sp (rev post @ walk_segment ms s @ a # rev anc))"
    by (intro chain_walk_along) simp_all
  moreover have "leaf = last post" using chain_walk_last(1) [of ms leaf] chain(1) post by simp
  then have "hd (map ?sp (rev post @ walk_segment ms s @ a # rev anc)) = ?sp leaf"
    using post by (simp add: hd_append hd_map hd_rev)
  ultimately show ?thesis using ns_of [OF leaf] \<open>leaf = last post\<close> post by (simp add: rev_map comp_def)
qed

lemma bounded_union:
  "C \<subseteq> D \<Longrightarrow> B \<subseteq> D \<Longrightarrow> (\<And>u. u \<in> A \<longleftrightarrow> (u \<in> C \<or> u \<in> B) \<and> u \<in> D) \<Longrightarrow> A = B \<union> C"
  by blast

text \<open>
  C26: Let the last boundary preserve a segment that can be followed from its last to its first message, and
  let the chain of a message run from a root through the message that the segment is to follow, over
  messages that are not before the boundary.  After the relinking its chain has the segment, in its order,
  right behind that message, and the transcript consists of the segment and of what is not before the
  boundary.
\<close>

theorem preserved_segment_spliced:
  assumes wf: "wf_transcript ms" and names: "[] \<notin> set (map fst ms)" and leaf: "leaf \<in> set (values_of ms)"
    and last: "find_boundaries ms = \<lparr>lastSeg = Some s, lastSegBoundaryIdx = int i, absoluteLastBoundaryIdx = int i\<rparr>"
    and head: "reaches_head ms s"
    and chain: "chain_walk ms leaf = anc @ a # post" "uuid a = anchorUuid s" "post \<noteq> []"
    and root: "parentUuid (hd (anc @ [a])) = None"
    and after: "uuid ` set (chain_walk ms leaf) \<subseteq> fst ` set (drop i ms)"
    and apart: "uuid ` set (chain_walk ms leaf) \<inter> uuid ` set (walk_segment ms s) = {}"
  shows "\<exists>leaf'. map_of (applyPreservedSegmentRelinks ms) (uuid leaf) = Some leaf' \<and>
    map uuid (chain_walk (applyPreservedSegmentRelinks ms) leaf') =
      map uuid (anc @ [a]) @ rev (map uuid (walk_segment ms s)) @ map uuid post \<and>
    set (map fst (applyPreservedSegmentRelinks ms)) = fst ` set (drop i ms) \<union> uuid ` set (walk_segment ms s)"
proof -
  let ?P = "map uuid (walk_segment ms s)"
  have ns: "applyPreservedSegmentRelinks ms = splice_all s ?P i ms"
    using last head by (simp add: applyPreservedSegmentRelinks_def splice_all_def Let_def)
  have "uuid ` set (walk_segment ms s) \<subseteq> fst ` set ms"
    using image_mono [OF segment_values, of uuid ms s] wf_uuids [OF wf] by simp
  moreover have "fst ` set (drop i ms) \<subseteq> fst ` set ms" by (intro image_mono set_drop_subset)
  moreover have "u \<in> fst ` set (splice_all s ?P i ms) \<longleftrightarrow>
      (u \<in> uuid ` set (walk_segment ms s) \<or> u \<in> fst ` set (drop i ms)) \<and> u \<in> fst ` set ms" for u
  proof -
    have "u \<in> fst ` set (splice_all s ?P i ms) \<longleftrightarrow> map_of (splice_all s ?P i ms) u \<noteq> None"
      by (simp only: map_of_eq_None_iff not_not)
    also have "\<dots> \<longleftrightarrow> kept ?P i ms u \<and> map_of ms u \<noteq> None" by (simp add: map_of_splice_all [OF wf])
    finally show ?thesis by (simp only: map_of_eq_None_iff not_not kept_def set_map)
  qed
  ultimately have "fst ` set (splice_all s ?P i ms) = fst ` set (drop i ms) \<union> uuid ` set (walk_segment ms s)"
    by (rule bounded_union)
  then show ?thesis
    using splice_conversation [OF wf names leaf head chain(1,2) root after apart chain(3)] ns by simp
qed

end
