(* ===== verification/Transcript_Examples.thy ===== *)
theory Transcript_Examples
  imports Transcript_Snip Transcript_Segment
begin

text \<open>Transcripts on which the theorems are evaluated, and transcripts that the loader treats unexpectedly.\<close>

section \<open>Snips\<close>

definition demo_text :: "uuid \<Rightarrow> uuid option \<Rightarrow> transcript_message" where
  "demo_text u p = demo_message u (User (Str u) None) p"

definition keyed :: "transcript_message list \<Rightarrow> transcript" where
  "keyed ms = map (\<lambda>m. (uuid m, m)) ms"

definition snip_boundary :: "uuid \<Rightarrow> uuid \<Rightarrow> uuid list \<Rightarrow> transcript_message" where
  "snip_boundary u p us = (demo_message u (System (OtherSystem ''snip'')) (Some p))\<lparr>removedUuids := Some us\<rparr>"

definition rank_of :: "uuid \<Rightarrow> nat" where
  "rank_of u = of_char (hd u)"

definition snip_demo :: transcript where
  "snip_demo = keyed [demo_text ''a'' None, demo_text ''b'' (Some ''a''), demo_text ''c'' (Some ''b''),
     snip_boundary ''d'' ''c'' [''b'', ''c''], demo_text ''e'' (Some ''d'')]"

lemma snip_demo_descending: "descending rank_of snip_demo"
  by (simp add: descending_def snip_demo_def keyed_def demo_text_def demo_message_def snip_boundary_def
      parent_message_def parent_link_def truthy_def rank_of_def)

theorem snip_removes_exactly_witness:
  "\<exists>ns. applySnipRemovals 8 snip_demo = Some ns \<and> map fst ns = [''a'', ''d'', ''e''] \<and>
     (\<forall>m'. map_of ns ''e'' = Some m' \<longrightarrow> map uuid (chain_walk ns m') = [''a'', ''d'', ''e''])"
proof -
  have wf: "wf_transcript snip_demo" and fuel: "length snip_demo + 3 \<le> 8" by (code_simp)+
  have e: "map_of snip_demo ''e'' = Some (demo_text ''e'' (Some ''d''))"
    and keys: "filter (\<lambda>u. u \<notin> set (snipped snip_demo)) (map fst snip_demo) = [''a'', ''d'', ''e'']"
    and chain: "filter (\<lambda>u. u \<notin> set (snipped snip_demo)) (map uuid (chain_walk snip_demo (demo_text ''e'' (Some ''d'')))) =
      [''a'', ''d'', ''e'']" by (code_simp)+
  obtain ns where ns: "applySnipRemovals 8 snip_demo = Some ns" "map fst ns = filter (\<lambda>u. u \<notin> set (snipped snip_demo)) (map fst snip_demo)"
    "\<And>u m'. map_of ns u = Some m' \<Longrightarrow> \<exists>m. map_of snip_demo u = Some m \<and> m' = set_parent (parentUuid m') m \<and>
       map uuid (chain_walk ns m') = filter (\<lambda>u. u \<notin> set (snipped snip_demo)) (map uuid (chain_walk snip_demo m))"
    using snip_removes_exactly [OF wf snip_demo_descending fuel] by blast
  have "map uuid (chain_walk ns m') = [''a'', ''d'', ''e'']" if m': "map_of ns ''e'' = Some m'" for m'
    using ns(3) [OF m'] e chain by auto
  then show ?thesis using ns(1,2) keys by auto
qed

text \<open>
  The other loops stop at a cycle of links.  The walk through removed messages does not: when two of
  them name each other, the file is never loaded.
\<close>

definition cyclic_demo :: transcript where
  "cyclic_demo = keyed [demo_text ''a'' (Some ''b''), demo_text ''b'' (Some ''a''),
     snip_boundary ''c'' ''b'' [''a'', ''b'']]"

lemma cyclic_snip_never_ends: "applySnipRemovals fuel cyclic_demo = None"
proof -
  define del where "del = snipped cyclic_demo"
  define dp where "dp = deleted_parents cyclic_demo del"
  have del: "del = [''a'', ''b'']" unfolding del_def by code_simp
  have dp: "dp ''a'' = Some (Some ''b'')" "dp ''b'' = Some (Some ''a'')" unfolding dp_def del by (code_simp)+
  have loop: "resolve_walk n del dp path (Some ''a'') = None \<and> resolve_walk n del dp path (Some ''b'') = None" for n path
    by (induction n arbitrary: path) (simp_all add: dp del truthy_def)
  have "filter (\<lambda>(u, m). u \<notin> set del) cyclic_demo = keyed [snip_boundary ''c'' ''b'' [''a'', ''b'']]" unfolding del by code_simp
  then show ?thesis using loop [of fuel "[]"]
    by (simp add: applySnipRemovals_def flip: del_def dp_def)
      (simp add: del keyed_def snip_boundary_def demo_message_def parent_link_def truthy_def resolve_link_def)
qed

lemma cyclic_chain_ends: "map uuid (chain_walk cyclic_demo (demo_text ''a'' (Some ''b''))) = [''b'', ''a'']"
  by code_simp

section \<open>Preserved segments\<close>

text \<open>A compaction that keeps the second of two messages behind its summary.\<close>

definition kept_segment :: preserved_segment where
  "kept_segment = \<lparr>headUuid = ''b'', anchorUuid = ''d'', tailUuid = ''b''\<rparr>"

definition compact_demo :: transcript where
  "compact_demo = keyed [demo_text ''a'' None, demo_message ''b'' (demo_call ''c1'') (Some ''a''),
     demo_message ''c'' (System (CompactBoundary (Some kept_segment))) None, demo_text ''d'' (Some ''c''),
     demo_text ''e'' (Some ''d'')]"

theorem preserved_segment_spliced_witness:
  "\<exists>leaf'. map_of (applyPreservedSegmentRelinks compact_demo) ''e'' = Some leaf' \<and>
     map uuid (chain_walk (applyPreservedSegmentRelinks compact_demo) leaf') = [''c'', ''d'', ''b'', ''e''] \<and>
     set (map fst (applyPreservedSegmentRelinks compact_demo)) = {''b'', ''c'', ''d'', ''e''}"
proof -
  let ?leaf = "demo_text ''e'' (Some ''d'')" and ?c = "demo_message ''c'' (System (CompactBoundary (Some kept_segment))) None"
  have wf: "wf_transcript compact_demo" and names: "[] \<notin> set (map fst compact_demo)" and leaf: "?leaf \<in> set (values_of compact_demo)"
    and last: "find_boundaries compact_demo = \<lparr>lastSeg = Some kept_segment, lastSegBoundaryIdx = int 2, absoluteLastBoundaryIdx = int 2\<rparr>"
    and head: "reaches_head compact_demo kept_segment"
    and chain: "chain_walk compact_demo ?leaf = [?c] @ demo_text ''d'' (Some ''c'') # [?leaf]"
    and anchor: "uuid (demo_text ''d'' (Some ''c'')) = anchorUuid kept_segment"
    and root: "parentUuid (hd ([?c] @ [demo_text ''d'' (Some ''c'')])) = None"
    and after: "uuid ` set (chain_walk compact_demo ?leaf) \<subseteq> fst ` set (drop 2 compact_demo)"
    and apart: "uuid ` set (chain_walk compact_demo ?leaf) \<inter> uuid ` set (walk_segment compact_demo kept_segment) = {}"
    and seg: "map uuid (walk_segment compact_demo kept_segment) = [''b'']" "map fst (drop 2 compact_demo) = [''c'', ''d'', ''e'']"
    and u: "uuid ?c = ''c''" "uuid ?leaf = ''e''" "uuid (demo_text ''d'' (Some ''c'')) = ''d''"
    by (code_simp)+
  have "fst ` set (drop 2 compact_demo) \<union> uuid ` set (walk_segment compact_demo kept_segment) = {''b'', ''c'', ''d'', ''e''}"
    using seg by (simp flip: set_map)
  then show ?thesis
    using preserved_segment_spliced [OF wf names leaf last head chain anchor _ root after apart] seg(1) u by simp
qed

end
