(* ===== verification/Spec2Isabelle.thy ===== *)
theory Spec2Isabelle
  imports Permission_Gate Shadowed_Rules Dag_Runner Dag_Persist Dag_Templates
    Queue_Order Query_Guard Tool_Turns Streaming_Safety Cron_Next Keybinding_Laws Api_Request_Laws
    File_Examples Mode_Examples Task_Examples Poller_Laws Task_Tool_Examples
    Transcript_Examples
begin

text \<open>
  \<^bold>\<open>A verification library of the DSXU Code command line agent.\<close>

  The program is a terminal agent in TypeScript.  A prompt enters a queue, the queue processor starts
  a query, the query sends the conversation to a model, the model answers with tool calls, a
  permission gate decides on each call, the executors run the calls that it allows, and the results go
  back into the conversation for the next request.  A coordinator runs graphs of such tasks, a scheduler
  starts prompts at times given by cron expressions, and key presses are resolved to actions through
  user-defined bindings.  The library models the decision-making core of this path, in the language of
  the source: records for objects, datatypes for tagged unions, sums for exceptions, explicit states for
  module variables, step relations where callbacks interleave.

  \<^bold>\<open>Theories and what they model\<close> (paths below \<open>src/src\<close>)

  \<^item> \<open>Prelude\<close>: hint collections, lemmas on lists and maps, and the interfaces \<open>machine\<close> (a
    step function with an invariant), \<open>codec\<close> and \<open>normalising_codec\<close> (a printer with its parser, the
    latter for parsers that accept more than the printer emits) and \<open>leaping_search\<close> (a search that
    jumps over candidates known to fail).  \<open>Js_Strings\<close>: the string operations of the language.
  \<^item> \<open>Permission_Rules\<close>: \<open>utils/permissions/permissionRuleParser.ts\<close>, with the tool names of MCP
    servers (\<open>services/mcp/mcpStringUtils.ts\<close>, \<open>services/mcp/normalization.ts\<close>).  \<open>Shell_Rules\<close>:
    \<open>utils/permissions/shellRuleMatching.ts\<close>, whose regular expression is modelled as the list of
    tokens it is assembled from together with a backtracking matcher.
  \<^item> \<open>Permission_Updates\<close>: the permission context of a session, the updates of
    \<open>utils/permissions/PermissionUpdate.ts\<close>, the rules in settings files
    (\<open>utils/permissions/permissionsLoader.ts\<close>), deletion and synchronisation of rules in
    \<open>utils/permissions/permissions.ts\<close>.
  \<^item> \<open>Denial_Tracking\<close>: \<open>utils/permissions/denialTracking.ts\<close>.  \<open>Permission_Gate\<close>: the gate itself,
    \<open>hasPermissionsToUseTool\<close> of \<open>utils/permissions/permissions.ts\<close> with its inner check, the modes, the
    classifier, the fast paths, the denial limits and the hooks of headless agents.
    \<open>Shadowed_Rules\<close>: \<open>utils/permissions/shadowedRuleDetection.ts\<close>, related to the gate.
  \<^item> \<open>Posix_Paths\<close>: the path module of the run time.  \<open>File_Paths\<close>: \<open>utils/path.ts\<close> and the resolution
    of links of \<open>utils/fsOperations.ts\<close>.  \<open>Session_Paths\<close>: the directories that belong to a session
    (\<open>memdir/paths.ts\<close> and the head of \<open>utils/permissions/filesystem.ts\<close>).  \<open>File_Permissions\<close>: the
    checks of the file tools, the rest of \<open>filesystem.ts\<close>; \<open>File_Permission_Laws\<close> proves them and
    joins them to the gate, \<open>File_Examples\<close> evaluates them.  \<open>Workspace_Policy\<close>:
    \<open>dsxu/engine/workspace-policy.ts\<close>, which guards the program's own files.
  \<^item> \<open>Auto_Rules\<close>: the allow rules that would bypass the classifier, of
    \<open>utils/permissions/permissionSetup.ts\<close> and \<open>dangerousPatterns.ts\<close>.  \<open>Permission_Modes\<close>: the changes of
    the mode, the rest of \<open>permissionSetup.ts\<close> with \<open>getNextPermissionMode.ts\<close>, \<open>autoModeState.ts\<close> and
    the handlers that call them (\<open>PromptInput.tsx\<close>, \<open>cli/print.ts\<close>, the plan tools,
    \<open>settings/applySettingsChange.ts\<close>), as operations on one state; \<open>Mode_Laws\<close> runs them as a machine,
    \<open>Mode_Examples\<close> evaluates it.
  \<^item> \<open>Dag_Topology\<close>, \<open>Dag_Layers\<close>, \<open>Dag_Runner\<close>, \<open>Dag_Persist\<close>, \<open>Dag_Templates\<close>: the coordinator's
    task graphs, \<open>coordinator/dag/\<close>.
  \<^item> \<open>Command_Queue\<close>, \<open>Queue_Order\<close>: \<open>utils/messageQueueManager.ts\<close> and \<open>utils/queueProcessor.ts\<close>.
    \<open>Query_Guard\<close>: \<open>utils/QueryGuard.ts\<close>.
  \<^item> \<open>Messages\<close>, \<open>Message_Passes\<close>, \<open>Api_Pairing\<close>, \<open>Api_Request\<close> with \<open>Api_Pairing_Laws\<close> and
    \<open>Api_Request_Laws\<close>: from the messages of a session to the messages of a request,
    \<open>normalizeMessagesForAPI\<close> and \<open>ensureToolResultPairing\<close> of \<open>utils/messages.ts\<close>, the media limits of
    \<open>services/api/dsxuTransport.ts\<close> and \<open>utils/imageValidation.ts\<close>.
  \<^item> \<open>Transcript\<close>, \<open>Transcript_Chain\<close>: the conversations that are read back from the transcript of a
    session, \<open>buildConversationChain\<close> of \<open>utils/sessionStorage.ts\<close>.  \<open>Transcript_Load\<close>: the loading of a
    file, \<open>loadTranscriptFile\<close>, with the choice of the message to resume at; \<open>Transcript_Snip\<close> and
    \<open>Transcript_Segment\<close> prove the removal of snipped messages and the splicing of preserved segments,
    \<open>Transcript_Examples\<close> evaluates them.
  \<^item> \<open>Tool_Orchestration\<close>, \<open>Tool_Batches\<close>, \<open>Tool_Turns\<close>: \<open>services/tools/toolOrchestration.ts\<close> with
    the generator pool of \<open>utils/generators.ts\<close>.  \<open>Streaming_Executor\<close>, \<open>Streaming_Safety\<close>:
    \<open>services/tools/StreamingToolExecutor.ts\<close>.
  \<^item> \<open>Task_List\<close>, \<open>Task_Laws\<close>: the list of tasks that the agents of a session share, \<open>utils/tasks.ts\<close>, as
    operations on its directory, with the search for work of \<open>utils/swarm/inProcessRunner.ts\<close>.
    \<open>Task_Locks\<close>, \<open>Task_Lock_Laws\<close>: the same operations as programs of single file and lock operations
    that processes interleave.  \<open>Task_Examples\<close> evaluates both.  \<open>Task_Tools\<close>, \<open>Task_Tool_Laws\<close>,
    \<open>Task_Tool_Examples\<close>: the four tools on the list (\<open>tools/Task*Tool\<close>), the list that a session uses, and
    the session that watches one (\<open>hooks/useTaskListWatcher.ts\<close>).
  \<^item> \<open>Mailbox\<close>, \<open>Mailbox_Laws\<close>: the inboxes of a team (\<open>utils/teammate.ts\<close>, \<open>utils/teammateMailbox.ts\<close>) and
    the agent that waits for a prompt (\<open>utils/swarm/inProcessRunner.ts\<close>); \<open>Mailbox_Locks\<close> interleaves the
    operations on an inbox under its lock.  \<open>Inbox_Poller\<close>, \<open>Poller_Laws\<close>: the session that polls its inbox
    (\<open>hooks/useInboxPoller.ts\<close>) and attaches messages to a request (\<open>utils/attachments.ts\<close>), on the
    permission context of \<open>Permission_Updates\<close>.
  \<^item> \<open>Cron\<close>, \<open>Cron_Next\<close>: \<open>utils/cron.ts\<close>.
  \<^item> \<open>Keybindings\<close>, \<open>Keybinding_Laws\<close>: \<open>keybindings/parser.ts\<close>, \<open>match.ts\<close>, \<open>resolver.ts\<close> and
    \<open>reservedShortcuts.ts\<close>.

  \<^bold>\<open>Interfaces and their interpretations\<close>

  A client's lemmas are proved from the laws of an interface, and every interface is interpreted on the
  model of the code that provides it:
  \<^item> \<open>machine\<close>: \<open>denials\<close> (the counters), \<open>ended_query\<close> (the guard, once a query has ended),
    \<open>command_queue_module\<close> (the queue with its snapshot), \<open>streaming\<close> (the executor of calls),
    \<open>modes\<close> (the changes of the permission mode), \<open>tasks\<close> (a session on the task list), \<open>pool\<close> (the
    processes that share it), \<open>tools\<close> (agents on several lists through the tools) and \<open>mailboxes\<close> (the
    processes that share an inbox);
  \<^item> \<open>codec\<close>: \<open>content\<close> (escaping of rule contents) and \<open>decimal\<close> (numbers in strings);
    \<open>normalising_codec\<close>: \<open>rule\<close> (rule strings) and \<open>keystrokes\<close>;
  \<^item> \<open>leaping_search\<close>: \<open>cron_search\<close> (the next run, against a walk minute by minute);
  \<^item> \<open>dag_sorter\<close>: \<open>kahn_sort\<close>; its client are the layers of a graph;
  \<^item> \<open>priority_queue\<close>: \<open>command_queue\<close>; its clients are draining and the processor.

  \<^bold>\<open>What the lemmas show\<close>

  \<^item> Permissions: rule strings and their printer are mutually inverse up to normal form; the wildcard
    matcher accepts exactly what its pattern denotes, for patterns that do not clash with the placeholders
    of its construction; applying updates to the session and persisting them to settings files that can be
    written agree on the rules, and directories and default modes are persisted as the updates say; the
    gate obeys deny rules for a tool in every mode, allows nothing without a licence and asks nobody who
    cannot be asked; the detector of unreachable rules is sound with respect to the gate.
  \<^item> Files: where a write lands is among the paths that are examined, as long as no dangling link is on the
    way (\<open>write_lands\<close>; an example shows that a chain of dangling links escapes).  For such paths a deny
    rule for the destination holds and protected files are asked for or denied in every mode, when the check
    does not throw, no ask rule for the whole tool answers first and neither of the two carve-outs applies.
    The working directories admit exactly what lies below them.
  \<^item> Modes: while auto mode is active no dangerous rule of an editable source is in force, and a run of
    mode changes keeps every rule.  Both hold for runs in which the settings do not change in auto mode and
    no dialog is declined after another handler switched auto mode on (\<open>orderly_step\<close> ignores such
    events), and for a start whose search of the command line catches the dangerous rules; the second one
    also needs that no rule of a read-only source is dangerous.  The examples show that the code breaks
    them otherwise.
  \<^item> Task graphs: the sort is correct and complete and its errors are right (a cycle is reported if there is
    one, or for an id that two nodes share), the layers respect dependencies, a run solves the equations of
    its graph whatever the order inside a layer, nodes are skipped for a failed dependency only, and a run
    that completes could have been resumed from any of its saves, with the same outputs up to their JSON form.
  \<^item> Queue and guard: a drain is a stable sort by urgency, the processor executes every command once
    and always makes progress, a query ends once.
  \<^item> Tools: a turn is equivalent to a serial turn, up to the order of messages, under every schedule of its
    concurrent batches, if the safe calls read a part of the context that none of them changes; the
    streaming executor runs unsafe calls alone, loses no wake-up and yields each result once.
  \<^item> Requests: the API's pairing condition holds after the repair of any conversation, strict mode refuses
    exactly the conversations that need a repair, the normalisation neither loses nor invents calls and
    results, and a request that is built is within the limits.
  \<^item> Task list: identifiers are never given twice and links between tasks mirror each other in any
    sequential session; a claim succeeds exactly when it may; two plain claims by different agents never both
    succeed and two creations never get one identifier, under every interleaving of the operations that keep
    to the lock of the task and leave the owner alone.  The
    operations that do not (the claim with a check of the agent, and the deletion) are not among them, and
    the examples show schedules on which they go wrong.  Each program refines its one-step operation.
  \<^item> Tools of the task list: the blockers that are shown are those that stop a claim, and a call that fails
    changes no task.
  \<^item> Inboxes: the operations on an inbox take effect one after the other under every interleaving and lose
    no message; an agent that waits receives every message once, in the order of its priorities; a session
    that polls turns every message that is to become a turn into one once, provided that a round reads and
    marks in one step; the mode of a session changes only by messages marked as the leader's and by
    approvals whose updates set it.  The examples show that any agent can send such an approval and change
    the rules of another.
  \<^item> Transcripts: a conversation that is read back repeats nothing, follows the links, and is completed by
    exactly the parallel calls and results of the responses on it, each result behind its call.  A snip
    removes from every chain the snipped messages and nothing else, and a compaction's preserved segment
    comes back, in order, behind the message that it follows.
  \<^item> Schedules and keys: the next run is the first matching minute within 366 days; keystroke notation is
    stable; the two resolvers agree outside chords.

  \<^bold>\<open>Bounds and fuel\<close>

  \<^item> The loop of Kahn's algorithm is a recursion on its queue and on a budget of as many steps as the graph
    has nodes; the lemmas show that the queue is empty when the budget is spent, so the result is the
    loop's; \<open>sort_loop_ends\<close> shows the same of the loop without a budget.  The loop of the streaming executor's \<open>processQueue\<close>
    (\<open>pq_run\<close>) runs over the calls that are left, one step for each; the calls of the queue processor and
    of a drain (\<open>process_all\<close>, \<open>drain\<close>) have one step more than there are commands, and the theorems about
    them show that the loop has ended by then.
  \<^item> A schedule of a pool of generators is the list of the choices which promise settles next; a schedule
    that does not finish the pool gives no result, and the lemmas show that every turn has schedules that
    finish it.
  \<^item> The search for the next run keeps the source's own limit of 366 * 24 * 60 steps.
  \<^item> The walk through snipped messages has a budget (\<open>fuel\<close>) because it does not end on a cycle of links;
    without cycles three steps more than there are messages are enough (\<open>snip_removes_exactly\<close>).
  \<^item> A chain of links is followed 40 times, the source's limit; the climb to an existing ancestor is a
    recursion on the length of the path.
  \<^item> The limits of a request (100 media, 5 MB for an image) and of the denials (3 in a row, 20 in all) are
    the source's.

  \<^bold>\<open>Code outside the model\<close> is an argument of the definitions that use it: the executor of the nodes of a
  graph, the implementation of a tool and of its own permission check, the verdict of the classifier, the
  answers of hooks, the text that attachments render to, fresh identifiers, feature gates, the answers of
  the file system, the matcher of ignore patterns, the environment variables, the remote configuration.
  So are what JSON and the schemas of messages make of a text.
  The theorems hold for all of their values unless a hypothesis names what is used of them.

  \<^bold>\<open>Simplifications\<close>

  \<^item> A string is a list of code units 0 to 255; the lower case is the language's on this range.
  \<^item> Paths are those of POSIX platforms, and a path is its own composed Unicode form.
  \<^item> A call of the persistent task runner executes a node at most once, so its executor is a function in that
    call; the resuming process has another executor, and the outputs that it reads are what JSON kept of
    them (\<open>revive\<close>).
  \<^item> Dates have no daylight-saving shifts; weekdays and month lengths are those of the calendar.
  \<^item> The error texts of exceptions that no code reads again are shortened; their occurrence is not.
  \<^item> A lock of the task list is not lost while it is held, a process that waits for one may give up at any
    time, writing a file does not fail, and the numbers in its names are exact.
  \<^item> Analytics events and debug logs are left out everywhere: no modelled code reads them.

  \<^bold>\<open>Not modelled\<close>

  \<^item> The terminal interface (\<open>screens/\<close>, \<open>components/\<close>, \<open>ink/\<close>, and \<open>hooks/\<close> but for the two named above):
    components of a rendering library whose behaviour is that library's.
  \<^item> Processes, files and the network (\<open>main.tsx\<close>, \<open>cli/\<close>, \<open>services/api\<close> streaming, MCP clients, session
    storage): their logic is dominated by input and output.
  \<^item> The query loops (\<open>query.ts\<close>, \<open>dsxu/engine\<close>), compaction, the parser of shell commands
    (\<open>utils/bash\<close>) and the checks of tools other than the file tools, which enter the gate as arguments.
  The manifest lists these parts one by one.
\<close>

end
